(* ===== verification/Prelude.thy ===== *)
theory Prelude
  imports "HOL-Library.Word" "HOL-Library.Monad_Syntax"
begin

unbundle bit_operations_syntax

text \<open>
  Shared vocabulary of the development.

  \<^item> The integer types of lib/vd_common.h, at their width.
  \<^item> The convention for results: an operation that can leave the defined behaviour of C
    (an access outside an object, a failed \<open>assert\<close>, a division by zero, a loop that does
    not end) returns an \<open>option\<close>; \<open>None\<close> stands for "no defined continuation".
    Error codes and null returns of the source are ordinary values.
  \<^item> IEEE single precision, as far as the code uses it: the conversion of an unsigned
    integer and the multiplication of the result by a constant.
  \<^item> Unsigned 32-bit subtraction on naturals.
  \<^item> Lemmas on lists and words that several components share.
\<close>

section \<open>Machine integers\<close>

type_synonym u8 = "8 word"
type_synonym u16 = "16 word"
type_synonym u32 = "32 word"
type_synonym u64 = "64 word"
type_synonym umm = "64 word"

text \<open>Unsigned 32-bit subtraction, with the wrap-around written out.\<close>

definition sub32 :: "nat \<Rightarrow> nat \<Rightarrow> nat" where
  "sub32 a b = nat ((int a - int b) mod 2 ^ 32)"

lemma sub32_le: "b \<le> a \<Longrightarrow> a < 2 ^ 32 \<Longrightarrow> sub32 a b = a - b"
proof -
  assume b: "b \<le> a" "a < 2 ^ 32"
  then have "(int a - int b) mod 2 ^ 32 = int (a - b)"
    by (subst mod_pos_pos_trivial) auto
  then show ?thesis by (simp add: sub32_def)
qed

lemma sub32_wrap: "a < b \<Longrightarrow> b < 2 ^ 32 \<Longrightarrow> sub32 a b = 2 ^ 32 - (b - a)"
proof -
  assume b: "a < b" "b < 2 ^ 32"
  have "(int a - int b) mod 2 ^ 32 = (int a - int b + 2 ^ 32) mod 2 ^ 32" by simp
  also have "\<dots> = int a - int b + 2 ^ 32" using b by (intro mod_pos_pos_trivial) auto
  also have "\<dots> = int (2 ^ 32 - (b - a))" using b by (simp add: of_nat_diff)
  finally show ?thesis by (simp add: sub32_def)
qed

lemma sub32_less: "sub32 a b < 2 ^ 32"
proof -
  have "(int a - int b) mod 2 ^ 32 < 2 ^ 32" by (rule pos_mod_bound) simp
  then show ?thesis by (simp add: sub32_def nat_less_iff)
qed

section \<open>Single precision\<close>

text \<open>
  \<open>f32_shift n\<close> is the number of low bits that do not fit a 24-bit significand;
  \<open>f32_round n\<close> is \<open>n\<close> rounded to 24 significant bits, ties to even. Rounding does not
  depend on the exponent, so the same function rounds a numerator over a power of two.
  \<open>f32_mul_trunc n m e\<close> is the C expression \<open>(u64)((float)n * c)\<close> for the constant
  \<open>c = m / 2 ^ e\<close>, where \<open>m\<close> is the 24-bit significand of \<open>c\<close>.
\<close>

fun f32_shift :: "nat \<Rightarrow> nat" where
  "f32_shift n = (if n < 2 ^ 24 then 0 else Suc (f32_shift (n div 2)))"

declare f32_shift.simps [simp del]

definition f32_round :: "nat \<Rightarrow> nat" where
  "f32_round n =
     (let s = f32_shift n; q = n div 2 ^ s; r = n mod 2 ^ s in
      if 2 ^ s < 2 * r \<or> (2 ^ s = 2 * r \<and> odd q) then (q + 1) * 2 ^ s else q * 2 ^ s)"

definition f32_mul_trunc :: "nat \<Rightarrow> nat \<Rightarrow> nat \<Rightarrow> nat" where
  "f32_mul_trunc n m e = f32_round (f32_round n * m) div 2 ^ e"

lemma f32_shift_bound: "f32_shift n \<noteq> 0 \<Longrightarrow> 2 ^ 23 * 2 ^ f32_shift n \<le> n"
proof (induction n rule: f32_shift.induct)
  case (1 n)
  have big: "\<not> n < 2 ^ 24" using "1.prems" by (auto simp: f32_shift.simps [of n])
  then have s: "f32_shift n = Suc (f32_shift (n div 2))" by (simp add: f32_shift.simps [of n])
  show ?case
  proof (cases "f32_shift (n div 2) = 0")
    case True
    with s big show ?thesis by simp
  next
    case False
    with "1.IH" big have "2 ^ 23 * 2 ^ f32_shift (n div 2) \<le> n div 2" by simp
    then have "2 * (2 ^ 23 * 2 ^ f32_shift (n div 2)) \<le> 2 * (n div 2)" by (rule mult_le_mono2)
    also have "\<dots> \<le> n" by simp
    finally show ?thesis by (simp add: s)
  qed
qed

lemma f32_round_exact: "n < 2 ^ 24 \<Longrightarrow> f32_round n = n"
  by (simp add: f32_round_def f32_shift.simps [of n])

text \<open>Rounding moves a number by at most one part in \<open>2 ^ 23\<close>.\<close>

lemma f32_round_upper: "f32_round n * 2 ^ 23 \<le> n * (2 ^ 23 + 1)"
proof (cases "f32_shift n = 0")
  case True
  then show ?thesis by (simp add: f32_round_def)
next
  case False
  let ?s = "f32_shift n"
  have b: "2 ^ 23 * 2 ^ ?s \<le> n" using False by (rule f32_shift_bound)
  have "n div 2 ^ ?s * 2 ^ ?s \<le> n" by simp
  then have "f32_round n \<le> n + 2 ^ ?s"
    unfolding f32_round_def Let_def by (auto simp: algebra_simps intro: trans_le_add1)
  then have "f32_round n * 2 ^ 23 \<le> (n + 2 ^ ?s) * 2 ^ 23" by (rule mult_le_mono1)
  also have "\<dots> = n * 2 ^ 23 + 2 ^ 23 * 2 ^ ?s" by (simp add: algebra_simps)
  also have "\<dots> \<le> n * (2 ^ 23 + 1)" using b by (simp add: algebra_simps)
  finally show ?thesis .
qed

lemma f32_round_lower: "2 ^ e \<le> n \<Longrightarrow> 2 ^ e \<le> f32_round n"
proof -
  assume n: "2 ^ e \<le> n"
  let ?s = "f32_shift n"
  have "2 ^ e \<le> n div 2 ^ ?s * 2 ^ ?s"
  proof (cases "?s \<le> e")
    case True
    then have "2 ^ ?s dvd (2 ^ e :: nat)" by (rule le_imp_power_dvd)
    then have "2 ^ e = 2 ^ e div 2 ^ ?s * (2 ^ ?s :: nat)" by (rule dvd_div_mult_self [symmetric])
    also have "\<dots> \<le> n div 2 ^ ?s * 2 ^ ?s" using n by (intro mult_le_mono1 div_le_mono)
    finally show ?thesis .
  next
    case False
    then have "2 ^ ?s \<le> n" using f32_shift_bound [of n] by simp
    then have "1 \<le> n div 2 ^ ?s" by (simp add: div_greater_zero_iff Suc_le_eq)
    then have "2 ^ ?s \<le> n div 2 ^ ?s * 2 ^ ?s" by simp
    moreover have "(2::nat) ^ e \<le> 2 ^ ?s" using False by (intro power_increasing) auto
    ultimately show ?thesis by linarith
  qed
  then show ?thesis by (auto simp: f32_round_def Let_def)
qed

lemma f32_round_double: "f32_round n \<le> 2 * n"
  using f32_round_upper [of n] by simp

text \<open>
  Scaling by a constant below one half stays below the argument: the two roundings cannot
  make up for the factor.
\<close>

lemma f32_mul_trunc_less:
  assumes "0 < n" and "m * (2 ^ 23 + 1) * (2 ^ 23 + 1) < 2 ^ e * 2 ^ 46"
  shows "f32_mul_trunc n m e < n"
proof -
  let ?r = "f32_round n" and ?p = "f32_round (f32_round n * m)"
  have "?p * 2 ^ 46 = ?p * 2 ^ 23 * 2 ^ 23" by simp
  also have "\<dots> \<le> ?r * m * (2 ^ 23 + 1) * 2 ^ 23"
    using f32_round_upper [of "?r * m"] by (intro mult_le_mono1)
  also have "\<dots> = ?r * 2 ^ 23 * (m * (2 ^ 23 + 1))" by (simp add: algebra_simps)
  also have "\<dots> \<le> n * (2 ^ 23 + 1) * (m * (2 ^ 23 + 1))"
    using f32_round_upper [of n] by (intro mult_le_mono1)
  also have "\<dots> = n * (m * (2 ^ 23 + 1) * (2 ^ 23 + 1))" by (simp add: algebra_simps)
  also have "\<dots> < n * (2 ^ e * 2 ^ 46)" using assms by (intro mult_strict_left_mono) auto
  finally have "?p < n * 2 ^ e" by simp
  then show ?thesis by (simp add: f32_mul_trunc_def less_mult_imp_div_less)
qed

section \<open>Words\<close>

lemma unat_ucast_up:
  fixes x :: "'a::len word"
  assumes "LENGTH('a) \<le> LENGTH('b::len)"
  shows "unat (ucast x :: 'b word) = unat x"
proof -
  have "unat x < 2 ^ LENGTH('a)" by (rule unsigned_less)
  also have "(2::nat) ^ LENGTH('a) \<le> 2 ^ LENGTH('b)" using assms by simp
  finally show ?thesis by (simp add: unsigned_ucast_eq take_bit_nat_eq_self)
qed

lemma unat_of_nat_lt: "n < 2 ^ LENGTH('a) \<Longrightarrow> unat (of_nat n :: 'a::len word) = n"
  by (simp add: unsigned_of_nat take_bit_nat_eq_self)

section \<open>Lists\<close>

lemma take_Suc_update: "i < length xs \<Longrightarrow> take (Suc i) (xs[i := x]) = take i xs @ [x]"
  by (simp add: take_Suc_conv_app_nth)

lemma count_filter_update:
  "i < length xs \<Longrightarrow> \<not> P (xs ! i) \<Longrightarrow> P x \<Longrightarrow>
     length (filter P (xs[i := x])) = Suc (length (filter P xs))"
proof (induction xs arbitrary: i)
  case (Cons a xs)
  then show ?case by (cases i) auto
qed simp

lemma count_filter_update_same:
  "i < length xs \<Longrightarrow> P x = P (xs ! i) \<Longrightarrow>
     length (filter P (xs[i := x])) = length (filter P xs)"
proof (induction xs arbitrary: i)
  case (Cons a xs)
  then show ?case by (cases i) auto
qed simp

lemma bind_Some_iff: "Option.bind m f = Some y \<longleftrightarrow> (\<exists>x. m = Some x \<and> f x = Some y)"
  by (cases m) auto

end
