(* ===== verification/Hash.thy ===== *)
theory Hash
  imports Prelude
begin

text \<open>
  The hash of lib/hash.h (\<open>vd_hash\<close>) and its copy in lib/vd_meta.h (\<open>vd_meta__hash\<close>). The
  input is the list of bytes from \<open>data\<close> on, so \<open>len\<close> is its length; the 4-byte loads are
  little-endian, as on the x86-64 and ARM64 targets of the build.

  The lemmas show that the two copies agree, how the loop treats a prefix of whole blocks, and
  that for fixed data the hash is injective in the seed: every step of the mixing is a bijection
  of the state.
\<close>

section \<open>Definitions\<close>

text \<open>The constant \<open>m\<close> at its two widths: \<open>k *= m\<close> truncates to 32 bits, \<open>h *= m\<close> does not.\<close>

definition hash_m :: u64 where "hash_m = 0x5bd1e995"
definition hash_m32 :: u32 where "hash_m32 = 0x5bd1e995"

definition load_u32 :: "u8 \<Rightarrow> u8 \<Rightarrow> u8 \<Rightarrow> u8 \<Rightarrow> u32" where
  "load_u32 b0 b1 b2 b3 =
     ucast b0 OR push_bit 8 (ucast b1) OR push_bit 16 (ucast b2) OR push_bit 24 (ucast b3)"

text \<open>The three statements on \<open>k\<close> in the loop body.\<close>

definition hash_k :: "u32 \<Rightarrow> u32" where
  "hash_k k0 = (let k1 = k0 * hash_m32; k2 = k1 XOR drop_bit 24 k1 in k2 * hash_m32)"

definition hash_mix :: "u32 \<Rightarrow> u64 \<Rightarrow> u64" where
  "hash_mix k h = (h * hash_m) XOR ucast (hash_k k)"

text \<open>The \<open>while\<close> loop over whole blocks, then the \<open>switch\<close> that falls through on the rest.\<close>

fun hash_loop :: "u8 list \<Rightarrow> u64 \<Rightarrow> u64" where
  "hash_loop (b0 # b1 # b2 # b3 # bs) h = hash_loop bs (hash_mix (load_u32 b0 b1 b2 b3) h)"
| "hash_loop [b0, b1, b2] h =
     (((h XOR push_bit 16 (ucast b2)) XOR push_bit 8 (ucast b1)) XOR ucast b0) * hash_m"
| "hash_loop [b0, b1] h = ((h XOR push_bit 8 (ucast b1)) XOR ucast b0) * hash_m"
| "hash_loop [b0] h = (h XOR ucast b0) * hash_m"
| "hash_loop [] h = h"

definition hash_final :: "u64 \<Rightarrow> u64" where
  "hash_final h0 =
     (let h1 = h0 XOR drop_bit 13 h0; h2 = h1 * hash_m in h2 XOR drop_bit 15 h2)"

definition vd_hash :: "u8 list \<Rightarrow> u32 \<Rightarrow> u64" where
  "vd_hash bytes seed = hash_final (hash_loop bytes (ucast seed XOR of_nat (length bytes)))"

text \<open>In \<open>vd_meta__hash\<close> the length is a \<open>uint32_t\<close>, so \<open>seed ^ len\<close> is formed at 32 bits.\<close>

definition vd_meta__hash :: "u8 list \<Rightarrow> u32 \<Rightarrow> u64" where
  "vd_meta__hash key seed = hash_final (hash_loop key (ucast (seed XOR of_nat (length key))))"

text \<open>\<open>VD_HASH_STR\<close> with \<open>VD_HASH_DEFAULT_SEED\<close>, and the bytes of a 64-bit key in memory.\<close>

definition vd_hash_str :: "u8 list \<Rightarrow> u64" where
  "vd_hash_str s = vd_hash s 0x9747b28c"

definition u64_bytes :: "u64 \<Rightarrow> u8 list" where
  "u64_bytes k = map (\<lambda>i. ucast (drop_bit (8 * i) k)) [0, 1, 2, 3, 4, 5, 6, 7]"

section \<open>Mixing steps are bijections\<close>

lemma xorshift_bit:
  fixes x :: "'a::len word"
  shows "bit (x XOR drop_bit s x) n \<longleftrightarrow> bit x n \<noteq> bit x (n + s)"
  by (auto simp: bit_xor_iff bit_drop_bit_eq add.commute dest: bit_imp_le_length)

lemma xorshift_inj:
  fixes x y :: "'a::len word"
  assumes s: "0 < s" and eq: "x XOR drop_bit s x = y XOR drop_bit s y"
  shows "x = y"
proof (rule bit_eqI)
  fix n
  show "bit x n = bit y n"
  proof (induction "LENGTH('a) - n" arbitrary: n rule: less_induct)
    case less
    show ?case
    proof (cases "n < LENGTH('a)")
      case True
      with s have "bit x (n + s) = bit y (n + s)" by (intro less) auto
      moreover have "(bit x n \<noteq> bit x (n + s)) = (bit y n \<noteq> bit y (n + s))"
        using arg_cong [OF eq, of "\<lambda>w. bit w n"] by (simp only: xorshift_bit)
      ultimately show ?thesis by blast
    next
      case False
      then show ?thesis by (auto dest: bit_imp_le_length)
    qed
  qed
qed

lemma mult_unit_inj:
  fixes x y m :: "'a::len word"
  assumes "m * n = 1" and "x * m = y * m"
  shows "x = y"
proof -
  have "x * (m * n) = y * (m * n)" using assms(2) by (simp add: mult.assoc [symmetric])
  then show ?thesis by (simp add: assms(1))
qed

text \<open>\<open>hash_m\<close> is odd, so it has an inverse modulo \<open>2 ^ 64\<close>.\<close>

lemma hash_m_inverse: "hash_m * 0x39c9eb52e59b19bd = 1"
  by (simp add: hash_m_def)

lemmas hash_m_inj = mult_unit_inj [OF hash_m_inverse]

lemma xor_cancel:
  fixes x y z :: "'a::len word"
  shows "x XOR z = y XOR z \<longleftrightarrow> x = y"
  by (metis xor.right_neutral xor.assoc xor_self_eq)

lemma hash_m_cancel: "x * hash_m = y * hash_m \<longleftrightarrow> x = y"
  using hash_m_inj [of x y] by blast

lemma hash_mix_inj: "hash_mix k h = hash_mix k h' \<longleftrightarrow> h = h'"
  by (simp only: hash_mix_def xor_cancel hash_m_cancel)

lemma hash_loop_inj: "hash_loop bs h = hash_loop bs h' \<Longrightarrow> h = h'"
proof (induction bs h arbitrary: h' rule: hash_loop.induct)
  case (1 b0 b1 b2 b3 bs h)
  from "1.prems" have "hash_mix (load_u32 b0 b1 b2 b3) h = hash_mix (load_u32 b0 b1 b2 b3) h'"
    unfolding hash_loop.simps by (rule "1.IH")
  then show ?case by (simp only: hash_mix_inj)
qed (simp_all only: hash_loop.simps hash_m_cancel xor_cancel)

lemma hash_final_inj: "hash_final h = hash_final h' \<Longrightarrow> h = h'"
proof -
  assume "hash_final h = hash_final h'"
  then have "(h XOR drop_bit 13 h) * hash_m = (h' XOR drop_bit 13 h') * hash_m"
    unfolding hash_final_def Let_def by (rule xorshift_inj [rotated]) simp
  then have "h XOR drop_bit 13 h = h' XOR drop_bit 13 h'" by (rule hash_m_inj)
  then show "h = h'" by (rule xorshift_inj [rotated]) simp
qed

section \<open>Properties\<close>

text \<open>For fixed data, different seeds give different hashes: no step of the mixing loses
  information about the state.\<close>

theorem vd_hash_seed_inj: "vd_hash bytes s1 = vd_hash bytes s2 \<longleftrightarrow> s1 = s2"
proof
  assume "vd_hash bytes s1 = vd_hash bytes s2"
  then have "(ucast s1 :: u64) XOR of_nat (length bytes) = ucast s2 XOR of_nat (length bytes)"
    unfolding vd_hash_def by (rule hash_loop_inj [OF hash_final_inj])
  then have "(ucast s1 :: u64) = ucast s2" by (simp only: xor_cancel)
  then have "unat (ucast s1 :: u64) = unat (ucast s2 :: u64)" by (rule arg_cong)
  then show "s1 = s2" by (simp add: unat_ucast_up word_unat_eq_iff)
qed simp

text \<open>The two copies of the hash agree on every input whose length fits the 32-bit length of
  the copy in lib/vd_meta.h.\<close>

theorem vd_meta_hash_eq:
  "length bytes < 2 ^ 32 \<Longrightarrow> vd_meta__hash bytes seed = vd_hash bytes seed"
proof -
  assume len: "length bytes < 2 ^ 32"
  have "(ucast (of_nat (length bytes) :: u32) :: u64) = of_nat (length bytes)"
    using len by (simp add: word_unat_eq_iff unat_ucast_up unat_of_nat_lt)
  then have "(ucast (seed XOR of_nat (length bytes) :: u32) :: u64)
      = ucast seed XOR of_nat (length bytes)"
    by (simp add: unsigned_xor_eq)
  then show ?thesis by (simp add: vd_hash_def vd_meta__hash_def)
qed

theorem vd_meta_hash_eq_witness:
  "length (u64_bytes 7) < 2 ^ 32 \<and>
   vd_meta__hash (u64_bytes 7) 0x23320 = vd_hash (u64_bytes 7) 0x23320"
proof -
  have h: "length (u64_bytes 7) < 2 ^ 32" by (simp add: u64_bytes_def)
  show ?thesis using h vd_meta_hash_eq [OF h] by simp
qed

lemma length_u64_bytes [simp]: "length (u64_bytes k) = 8"
  by (simp add: u64_bytes_def)

text \<open>The loop consumes a prefix of whole blocks as if the rest were not there.\<close>

lemma hash_loop_append:
  "length xs mod 4 = 0 \<Longrightarrow> hash_loop (xs @ ys) h = hash_loop ys (hash_loop xs h)"
proof (induction xs h rule: hash_loop.induct)
  case (1 b0 b1 b2 b3 bs h)
  then show ?case by simp
qed simp_all

end
