(* ===== verification/Str.thy ===== *)
theory Str
  imports Prelude
begin

text \<open>
  String slices: lib/str.h and lib/str.c. A \<open>VD_str\<close> is a pointer and a 32-bit length; the model
  is the list of the characters it covers, so \<open>s.len\<close> is its length and sub-slices are parts of
  the list. Indices are naturals; the two subtractions that can go below zero are \<open>sub32\<close>. An
  access outside a slice is \<open>None\<close>.

  The lemmas give the meaning of the searches and of the path functions built on them; the
  substring search is sound but not complete, and exact for suffixes.
\<close>

section \<open>Definitions\<close>

type_synonym vd_str = "char list"

text \<open>\<open>memory\<close> is the object the argument points into; \<open>strlen\<close> stops at the first NUL. The
  length is cast to 32 bits.\<close>

definition vd_str_from_cstr :: "char list \<Rightarrow> vd_str option" where
  "vd_str_from_cstr memory =
     (if CHR 0x00 \<in> set memory then
        let ln = length (takeWhile (\<lambda>c. c \<noteq> CHR 0x00) memory)
        in Some (take (ln mod 2 ^ 32) memory)
      else None)"

definition vd_str_eq :: "vd_str \<Rightarrow> vd_str \<Rightarrow> bool" where
  "vd_str_eq a b = (if length a \<noteq> length b then False else take (length a) a = take (length a) b)"

fun last_of_loop :: "vd_str \<Rightarrow> char \<Rightarrow> nat \<Rightarrow> nat" where
  "last_of_loop s c 0 = length s"
| "last_of_loop s c (Suc i) = (if s ! i = c then i else last_of_loop s c i)"

definition vd_str_last_of :: "vd_str \<Rightarrow> char \<Rightarrow> nat" where
  "vd_str_last_of s c = last_of_loop s c (length s)"

fun last_of_s_loop :: "vd_str \<Rightarrow> vd_str \<Rightarrow> nat \<Rightarrow> nat \<Rightarrow> nat option" where
  "last_of_s_loop s c 0 sindex = Some (length s)"
| "last_of_s_loop s c (Suc i) sindex =
     (let si = sub32 sindex 1 in
      if length c \<le> si then None
      else let si' = (if s ! i \<noteq> c ! si then length c else si) in
           if si' = 0 then Some i else last_of_s_loop s c i si')"

definition vd_str_last_of_s :: "vd_str \<Rightarrow> vd_str \<Rightarrow> nat \<Rightarrow> nat option" where
  "vd_str_last_of_s s c start =
     (if length s = 0 then Some (length s)
      else let start' = (if length s < start then length s else start)
           in last_of_s_loop s c start' (length c))"

text \<open>\<open>vd_str_split\<close> returns false, or the two parts; the character at \<open>at\<close> stays on the left.\<close>

definition vd_str_split :: "vd_str \<Rightarrow> nat \<Rightarrow> (vd_str \<times> vd_str) option" where
  "vd_str_split s at =
     (if length s < at \<or> length s \<le> at then None
      else Some (take (at + 1) s, take (length s - (at + 1)) (drop (at + 1) s)))"

definition vd_str_chop_right :: "vd_str \<Rightarrow> nat \<Rightarrow> vd_str" where
  "vd_str_chop_right s at = (case vd_str_split s at of Some (l, r) \<Rightarrow> l | None \<Rightarrow> s)"

definition vd_str_chop_right_last_of :: "vd_str \<Rightarrow> char \<Rightarrow> vd_str" where
  "vd_str_chop_right_last_of s c = vd_str_chop_right s (sub32 (vd_str_last_of s c) 1)"

definition vd_str_chop_left :: "vd_str \<Rightarrow> nat \<Rightarrow> vd_str" where
  "vd_str_chop_left s at = (case vd_str_split s at of Some (l, r) \<Rightarrow> r | None \<Rightarrow> s)"

fun last_of_any_loop :: "vd_str \<Rightarrow> char list \<Rightarrow> nat \<Rightarrow> nat" where
  "last_of_any_loop s [] ret = ret"
| "last_of_any_loop s (c # cs) ret =
     (let result = vd_str_last_of s c in
      if result = length s then last_of_any_loop s cs ret
      else if ret < result \<or> ret = length s then last_of_any_loop s cs result
      else last_of_any_loop s cs ret)"

definition vd_str_last_of_any :: "vd_str \<Rightarrow> char list \<Rightarrow> nat" where
  "vd_str_last_of_any s cs = last_of_any_loop s cs (length s)"

fun last_of_any_s_loop :: "vd_str \<Rightarrow> vd_str list \<Rightarrow> nat \<Rightarrow> nat option" where
  "last_of_any_s_loop s [] ret = Some ret"
| "last_of_any_s_loop s (c # cs) ret =
     do { result \<leftarrow> vd_str_last_of_s s c (length s);
          if result = length s then last_of_any_s_loop s cs ret
          else if ret < result \<or> ret = length s then last_of_any_s_loop s cs result
          else last_of_any_s_loop s cs ret }"

definition vd_str_last_of_any_s :: "vd_str \<Rightarrow> vd_str list \<Rightarrow> nat option" where
  "vd_str_last_of_any_s s cs = last_of_any_s_loop s cs (length s)"

definition vd_str_path_last_part :: "vd_str \<Rightarrow> vd_str" where
  "vd_str_path_last_part s = vd_str_chop_left s (vd_str_last_of_any s [CHR ''/'', CHR 0x5C])"

definition vd_str_ends_with :: "vd_str \<Rightarrow> vd_str \<Rightarrow> bool option" where
  "vd_str_ends_with s needle =
     do { r \<leftarrow> vd_str_last_of_s s needle (length s);
          Some (r = sub32 (length s) (length needle)) }"

section \<open>Searching a character\<close>

lemma vd_str_eq_iff: "vd_str_eq a b \<longleftrightarrow> a = b"
  by (auto simp: vd_str_eq_def)

lemma last_of_loop_split:
  "c \<notin> set b \<Longrightarrow> length a < i \<Longrightarrow> i \<le> length (a @ c # b) \<Longrightarrow>
     last_of_loop (a @ c # b) c i = length a"
proof (induction i)
  case (Suc i)
  show ?case
  proof (cases "i = length a")
    case False
    then obtain k where k: "i = length a + Suc k" using Suc.prems(2) less_imp_Suc_add [of "length a" i]
      by auto
    with Suc.prems have "(a @ c # b) ! i = b ! (i - Suc (length a))" "i - Suc (length a) < length b"
      by (simp_all add: nth_append)
    then have "(a @ c # b) ! i \<noteq> c" using Suc.prems(1) nth_mem [of "i - Suc (length a)" b] by auto
    then show ?thesis using Suc False by simp
  qed simp
qed simp

lemma last_of_loop_absent:
  "c \<notin> set s \<Longrightarrow> i \<le> length s \<Longrightarrow> last_of_loop s c i = length s"
proof (induction i)
  case (Suc i)
  then have "s ! i \<noteq> c" using nth_mem [of i s] by auto
  with Suc show ?case by simp
qed simp

lemma last_of_split: "c \<notin> set b \<Longrightarrow> vd_str_last_of (a @ c # b) c = length a"
  unfolding vd_str_last_of_def by (rule last_of_loop_split) simp_all

lemma last_of_absent: "c \<notin> set s \<Longrightarrow> vd_str_last_of s c = length s"
  by (simp add: vd_str_last_of_def last_of_loop_absent)

text \<open>\<open>vd_str_last_of\<close> returns the length of the slice exactly when the character does not
  occur, and otherwise the index of its last occurrence.\<close>

theorem vd_str_last_of_correct:
  "if c \<in> set s
   then vd_str_last_of s c < length s \<and> s ! vd_str_last_of s c = c
     \<and> c \<notin> set (drop (Suc (vd_str_last_of s c)) s)
   else vd_str_last_of s c = length s"
proof (cases "c \<in> set s")
  case True
  then obtain a b where s: "s = a @ c # b" and b: "c \<notin> set b"
    by (auto dest: split_list_last)
  have "vd_str_last_of s c = length a" using b by (simp add: s last_of_split)
  then show ?thesis using b by (simp add: s nth_append)
qed (simp add: last_of_absent)

section \<open>Paths\<close>

lemma chop_left_eq: "vd_str_chop_left s at = (if at < length s then drop (Suc at) s else s)"
  by (simp add: vd_str_chop_left_def vd_str_split_def)

lemma chop_right_eq: "vd_str_chop_right s at = (if at < length s then take (Suc at) s else s)"
  by (simp add: vd_str_chop_right_def vd_str_split_def)

text \<open>Cutting a path at the last separator gives the directory, when the directory is not
  empty: this is how \<open>vd_instance_init\<close> finds the directory of the executable.\<close>

theorem chop_right_last_of_dir:
  "c \<notin> set base \<Longrightarrow> dir \<noteq> [] \<Longrightarrow> length (dir @ c # base) < 2 ^ 32 \<Longrightarrow>
     vd_str_chop_right_last_of (dir @ c # base) c = dir"
  by (simp add: vd_str_chop_right_last_of_def chop_right_eq last_of_split sub32_le Suc_le_eq)

theorem chop_right_last_of_dir_witness:
  "vd_str_chop_right_last_of (''/opt/ng'' @ CHR ''/'' # ''ed'') (CHR ''/'') = ''/opt/ng''"
  by (rule chop_right_last_of_dir) simp_all

text \<open>At index 0 the subtraction wraps, the split fails and the whole path comes back.\<close>

lemma chop_right_last_of_root:
  "c \<notin> set base \<Longrightarrow> length (c # base) < 2 ^ 32 - 1 \<Longrightarrow>
     vd_str_chop_right_last_of (c # base) c = c # base"
  using last_of_split [where a = "[]" and b = "base" and c = c]
  by (simp add: vd_str_chop_right_last_of_def chop_right_eq sub32_wrap [of 0 1, simplified])

lemma last_of_any_two:
  "vd_str_last_of_any s [a, b] =
     (let i = vd_str_last_of s a; j = vd_str_last_of s b in
      if i = length s then j else if j = length s then i else max i j)"
  by (auto simp: vd_str_last_of_any_def Let_def)

lemma last_of_le: "vd_str_last_of s c \<le> length s"
proof (cases "c \<in> set s")
  case True
  then obtain a b where "s = a @ c # b" "c \<notin> set b" by (auto dest: split_list_last)
  then show ?thesis by (simp add: last_of_split)
qed (simp add: last_of_absent)

text \<open>The last occurrence of a character that does not occur from \<open>length a\<close> on.\<close>

lemma last_of_before:
  assumes "c \<notin> set b"
  shows "vd_str_last_of (a @ b) c = length (a @ b) \<or> vd_str_last_of (a @ b) c < length a"
proof (cases "c \<in> set a")
  case True
  then obtain p q where a: "a = p @ c # q" "c \<notin> set q" by (auto dest: split_list_last)
  have "vd_str_last_of (p @ c # (q @ b)) c = length p" using a(2) assms by (intro last_of_split) simp
  with a show ?thesis by simp
next
  case False
  with assms show ?thesis by (simp add: last_of_absent)
qed

lemma last_of_any_split:
  assumes "x \<in> {c, d}" and "c \<notin> set b" and "d \<notin> set b"
  shows "vd_str_last_of_any (a @ x # b) [c, d] = length a"
proof -
  have main: "vd_str_last_of (a @ x # b) x = length a"
    using assms by (intro last_of_split) auto
  have other: "vd_str_last_of (a @ x # b) y = length (a @ x # b) \<or>
      vd_str_last_of (a @ x # b) y < length a" if "y \<in> {c, d}" "y \<noteq> x" for y
    using that assms by (intro last_of_before) auto
  show ?thesis
  proof (cases "c = d")
    case True
    with assms(1) main show ?thesis by (simp add: last_of_any_two)
  next
    case False
    with assms(1) main other [of c] other [of d] show ?thesis
      by (auto simp: last_of_any_two Let_def max_def)
  qed
qed

text \<open>\<open>vd_str_path_last_part\<close> returns what follows the last separator of either kind, and a
  path without separators unchanged.\<close>

theorem path_last_part_correct:
  "vd_str_path_last_part s =
     rev (takeWhile (\<lambda>c. c \<noteq> CHR ''/'' \<and> c \<noteq> CHR 0x5C) (rev s))"
proof (cases "\<exists>x \<in> set s. x = CHR ''/'' \<or> x = CHR 0x5C")
  case True
  then obtain a x b where s: "s = a @ x # b" and x: "x = CHR ''/'' \<or> x = CHR 0x5C"
    and b: "\<forall>z \<in> set b. \<not> (z = CHR ''/'' \<or> z = CHR 0x5C)"
    using split_list_last_prop [OF True] by blast
  have "vd_str_last_of_any (a @ x # b) [CHR ''/'', CHR 0x5C] = length a"
    using x b by (intro last_of_any_split) auto
  then have "vd_str_path_last_part s = b"
    by (simp add: s vd_str_path_last_part_def chop_left_eq)
  moreover have "takeWhile (\<lambda>c. c \<noteq> CHR ''/'' \<and> c \<noteq> CHR 0x5C) (rev b @ x # rev a) = rev b"
    using x b by (subst takeWhile_append2) auto
  ultimately show ?thesis by (simp add: s)
next
  case False
  then have "vd_str_last_of s (CHR ''/'') = length s" "vd_str_last_of s (CHR 0x5C) = length s"
    by (auto intro!: last_of_absent)
  then have "vd_str_last_of_any s [CHR ''/'', CHR 0x5C] = length s"
    by (simp add: last_of_any_two)
  then have "vd_str_path_last_part s = rev (rev s)"
    by (simp add: vd_str_path_last_part_def chop_left_eq)
  moreover have "takeWhile (\<lambda>c. c \<noteq> CHR ''/'' \<and> c \<noteq> CHR 0x5C) (rev s) = rev s"
    using False by (auto simp: takeWhile_eq_all_conv)
  ultimately show ?thesis by (simp only:)
qed

section \<open>Searching a substring\<close>

text \<open>The search goes down from \<open>start\<close>; the invariant is that the last \<open>length c - sindex\<close>
  characters read are the end of \<open>c\<close>.\<close>

lemma last_of_s_step:
  assumes "0 < sindex" and "sindex \<le> length c" and "length c < 2 ^ 32"
  shows "last_of_s_loop s c (Suc i) sindex =
    (if s ! i \<noteq> c ! (sindex - 1) then last_of_s_loop s c i (length c)
     else if sindex - 1 = 0 then Some i else last_of_s_loop s c i (sindex - 1))"
proof -
  have "sub32 sindex 1 = sindex - 1" using assms by (intro sub32_le) auto
  then show ?thesis using assms unfolding last_of_s_loop.simps Let_def by auto
qed

lemma last_of_s_loop_sound:
  "last_of_s_loop s c i sindex = Some r \<Longrightarrow> 0 < sindex \<Longrightarrow> sindex \<le> length c \<Longrightarrow>
   length c < 2 ^ 32 \<Longrightarrow> i + (length c - sindex) \<le> length s \<Longrightarrow>
   take (length c - sindex) (drop i s) = drop sindex c \<Longrightarrow>
   r = length s \<or> (r + length c \<le> length s \<and> take (length c) (drop r s) = c)"
proof (induction i arbitrary: sindex)
  case (Suc i)
  let ?si = "sindex - 1"
  note step = Suc.prems(1) [unfolded last_of_s_step [OF Suc.prems(2-4)]]
  show ?case
  proof (cases "s ! i = c ! ?si")
    case False
    with step have "last_of_s_loop s c i (length c) = Some r" by simp
    then show ?thesis using Suc.prems by (intro Suc.IH [of "length c"]) auto
  next
    case True
    have "drop i s = s ! i # drop (Suc i) s" using Suc.prems by (intro Cons_nth_drop_Suc [symmetric]) simp
    moreover have "drop ?si c = c ! ?si # drop sindex c"
      using Cons_nth_drop_Suc [of ?si c] Suc.prems(2,3) by simp
    moreover have "length c - ?si = Suc (length c - sindex)" using Suc.prems by simp
    ultimately have m: "take (length c - ?si) (drop i s) = drop ?si c"
      using True Suc.prems(6) by simp
    show ?thesis
    proof (cases "?si = 0")
      case z: True
      with step True have "r = i" by simp
      then show ?thesis using m z Suc.prems(5) by simp
    next
      case False
      with step True have "last_of_s_loop s c i ?si = Some r" by simp
      then show ?thesis using Suc.prems m False by (intro Suc.IH [of ?si]) auto
    qed
  qed
qed simp

lemma vd_str_last_of_s_occ:
  assumes a: "vd_str_last_of_s s c start = Some r" and c: "c \<noteq> []" "length c < 2 ^ 32"
  shows "r = length s \<or> r + length c \<le> length s \<and> take (length c) (drop r s) = c"
proof (cases "s = []")
  case True
  with a show ?thesis by (simp add: vd_str_last_of_s_def)
next
  case False
  define i where "i = (if length s < start then length s else start)"
  have "last_of_s_loop s c i (length c) = Some r"
    using a False by (simp add: vd_str_last_of_s_def i_def)
  then show ?thesis using c by (intro last_of_s_loop_sound) (auto simp: i_def)
qed

lemma last_of_s_loop_total:
  "0 < sindex \<Longrightarrow> sindex \<le> length c \<Longrightarrow> length c < 2 ^ 32 \<Longrightarrow> \<exists>r. last_of_s_loop s c i sindex = Some r"
proof (induction i arbitrary: sindex)
  case (Suc i)
  have "\<exists>r. last_of_s_loop s c i (length c) = Some r"
    using Suc.prems by (intro Suc.IH) auto
  moreover have "sindex - 1 \<noteq> 0 \<Longrightarrow> \<exists>r. last_of_s_loop s c i (sindex - 1) = Some r"
    using Suc.prems by (intro Suc.IH) auto
  ultimately show ?case unfolding last_of_s_step [OF Suc.prems] by simp
qed simp

lemma last_of_s_total:
  "c \<noteq> [] \<Longrightarrow> length c < 2 ^ 32 \<Longrightarrow> \<exists>r. vd_str_last_of_s s c start = Some r"
  by (auto simp: vd_str_last_of_s_def Let_def intro!: last_of_s_loop_total)

text \<open>A search for a non-empty substring returns, and a result below the length of the slice
  is an occurrence.\<close>

theorem vd_str_last_of_s_sound:
  "c \<noteq> [] \<Longrightarrow> length c < 2 ^ 32 \<Longrightarrow>
     \<exists>r. vd_str_last_of_s s c start = Some r \<and>
         (r = length s \<or> r + length c \<le> length s \<and> take (length c) (drop r s) = c)"
  using last_of_s_total vd_str_last_of_s_occ by blast

theorem vd_str_last_of_s_sound_witness:
  "\<exists>r. vd_str_last_of_s ''a.vert.glsl'' ''.vert'' 99 = Some r \<and>
     (r = length ''a.vert.glsl'' \<or>
      r + length ''.vert'' \<le> length ''a.vert.glsl'' \<and> take (length ''.vert'') (drop r ''a.vert.glsl'') = ''.vert'')"
  by (rule vd_str_last_of_s_sound) simp_all

text \<open>The search restarts after a mismatch without looking at the mismatched character again, so
  it can miss an occurrence.\<close>

lemma vd_str_last_of_s_incomplete: "vd_str_last_of_s ''abb'' ''ab'' 3 = Some (length ''abb'')"
  by code_simp

lemma last_of_s_loop_suffix:
  "0 < j \<Longrightarrow> j \<le> length c \<Longrightarrow> length c < 2 ^ 32 \<Longrightarrow>
     last_of_s_loop (p @ c) c (length p + j) j = Some (length p)"
proof (induction j)
  case (Suc j)
  have "last_of_s_loop (p @ c) c (Suc (length p + j)) (Suc j) =
      (if j = 0 then Some (length p) else last_of_s_loop (p @ c) c (length p + j) j)"
    using Suc.prems by (subst last_of_s_step) (auto simp: nth_append)
  with Suc show ?case by auto
qed simp

text \<open>For a non-empty suffix, \<open>vd_str_ends_with\<close> is exact, and it never reads out of
  bounds.\<close>

theorem vd_str_ends_with_correct:
  "needle \<noteq> [] \<Longrightarrow> length needle < 2 ^ 32 \<Longrightarrow> length s < 2 ^ 32 \<Longrightarrow>
     vd_str_ends_with s needle = Some (\<exists>p. s = p @ needle)"
proof -
  assume n: "needle \<noteq> []" "length needle < 2 ^ 32" and s: "length s < 2 ^ 32"
  show ?thesis
  proof (cases "\<exists>p. s = p @ needle")
    case True
    then obtain p where p: "s = p @ needle" by blast
    have "vd_str_last_of_s s needle (length s) = Some (length p)"
      using n last_of_s_loop_suffix [of "length needle" needle p]
      by (simp add: vd_str_last_of_s_def p)
    then show ?thesis using s by (simp add: vd_str_ends_with_def sub32_le p)
  next
    case False
    obtain r where r: "vd_str_last_of_s s needle (length s) = Some r"
      using last_of_s_total n by blast
    have "r \<noteq> sub32 (length s) (length needle)"
    proof
      assume eq: "r = sub32 (length s) (length needle)"
      show False
      proof (cases "length needle \<le> length s")
        case True
        with eq s have rl: "r = length s - length needle" by (simp add: sub32_le)
        with n(1) True have "r < length s" by (cases needle) auto
        with vd_str_last_of_s_occ [OF r n] have "take (length needle) (drop r s) = needle" by simp
        then have "s = take r s @ needle" using rl True by (metis append_take_drop_id diff_diff_cancel length_drop order_refl take_all)
        with False show False by blast
      next
        case less: False
        have "r = length s \<or> r + length needle \<le> length s"
          using vd_str_last_of_s_occ [OF r n] by blast
        with less have "r = length s" by linarith
        moreover have "sub32 (length s) (length needle) = 2 ^ 32 - (length needle - length s)"
          using less n by (intro sub32_wrap) auto
        ultimately show False using eq n(2) less by linarith
      qed
    qed
    with r False show ?thesis by (simp add: vd_str_ends_with_def)
  qed
qed

theorem vd_str_ends_with_correct_witness:
  "vd_str_ends_with ''vd.structs.glsl'' ''.glsl'' = Some (\<exists>p. ''vd.structs.glsl'' = p @ ''.glsl'')"
  by (rule vd_str_ends_with_correct) simp_all

end
