(* ===== verification/Contracts.thy ===== *)
theory Contracts
  imports Prelude
begin

text \<open>
  Contracts between components, as locales. Each is interpreted on the code's own model in the
  theory of the component that provides it; the lemmas proved here are what the clients use.
\<close>

section \<open>Transition systems\<close>

text \<open>A component whose steps keep an invariant keeps it along every run.\<close>

locale step_invariant =
  fixes init :: "'s \<Rightarrow> bool" and step :: "'s \<Rightarrow> 's \<Rightarrow> bool" and inv :: "'s \<Rightarrow> bool"
  assumes init_inv: "init s \<Longrightarrow> inv s"
    and step_inv: "inv s \<Longrightarrow> step s t \<Longrightarrow> inv t"
begin

lemma steps_inv: "step\<^sup>*\<^sup>* s t \<Longrightarrow> inv s \<Longrightarrow> inv t"
  by (induction rule: rtranclp_induct) (auto intro: step_inv)

lemma reachable_inv: "init s \<Longrightarrow> step\<^sup>*\<^sup>* s t \<Longrightarrow> inv t"
  by (blast intro: steps_inv init_inv)

end

section \<open>Operations that keep an invariant\<close>

text \<open>
  The same for a partial operation on commands: a run of commands, each of which may leave the
  defined behaviour (\<open>None\<close>), keeps the invariant; when no command can fail under the
  invariant the run is defined.
\<close>

fun run_ops :: "('c \<Rightarrow> 's \<Rightarrow> 's option) \<Rightarrow> 'c list \<Rightarrow> 's \<Rightarrow> 's option" where
  "run_ops f [] s = Some s"
| "run_ops f (c # cs) s = do { s' \<leftarrow> f c s; run_ops f cs s' }"

lemma run_ops_append: "run_ops f (xs @ ys) s = do { s' \<leftarrow> run_ops f xs s; run_ops f ys s' }"
proof (induction xs arbitrary: s)
  case (Cons x xs)
  then show ?case by (cases "f x s") simp_all
qed simp

locale op_invariant =
  fixes op :: "'c \<Rightarrow> 's \<Rightarrow> 's option" and ok :: "'c \<Rightarrow> bool" and inv :: "'s \<Rightarrow> bool"
  assumes op_inv: "inv s \<Longrightarrow> ok c \<Longrightarrow> op c s = Some t \<Longrightarrow> inv t"
begin

lemma run_inv: "list_all ok cs \<Longrightarrow> inv s \<Longrightarrow> run_ops op cs s = Some t \<Longrightarrow> inv t"
  by (induction cs arbitrary: s) (auto simp: bind_Some_iff intro: op_inv)

end

locale op_total = op_invariant op ok inv
  for op :: "'c \<Rightarrow> 's \<Rightarrow> 's option" and ok :: "'c \<Rightarrow> bool" and inv :: "'s \<Rightarrow> bool" +
  assumes op_defined: "inv s \<Longrightarrow> ok c \<Longrightarrow> \<exists>t. op c s = Some t"
begin

lemma run_defined: "list_all ok cs \<Longrightarrow> inv s \<Longrightarrow> \<exists>t. run_ops op cs s = Some t \<and> inv t"
proof (induction cs arbitrary: s)
  case (Cons c cs)
  then obtain s' where "op c s = Some s'" using op_defined [of s c] by auto
  moreover from this have "inv s'" using Cons.prems op_inv [of s c s'] by auto
  ultimately show ?case using Cons.IH [of s'] Cons.prems by simp
qed simp

end

section \<open>Partial maps with fresh insertion\<close>

text \<open>
  What a client of a hash table relies on: a lookup, and an insertion that is only called with
  keys not present. \<open>abs\<close> is the abstract map.
\<close>

locale fresh_map =
  fixes insert :: "'m \<Rightarrow> 'k \<Rightarrow> 'v \<Rightarrow> 'm option" and lookup :: "'m \<Rightarrow> 'k \<Rightarrow> 'v option option"
    and abs :: "'m \<Rightarrow> 'k \<Rightarrow> 'v option" and inv :: "'m \<Rightarrow> bool"
  assumes insert_defined: "inv m \<Longrightarrow> abs m k = None \<Longrightarrow> \<exists>m'. insert m k v = Some m'"
    and insert_inv: "inv m \<Longrightarrow> abs m k = None \<Longrightarrow> insert m k v = Some m' \<Longrightarrow> inv m'"
    and insert_abs: "inv m \<Longrightarrow> abs m k = None \<Longrightarrow> insert m k v = Some m' \<Longrightarrow> abs m' = (abs m)(k \<mapsto> v)"
    and lookup_abs: "inv m \<Longrightarrow> abs m k = Some v \<Longrightarrow> lookup m k = Some (Some v)"
begin

lemma lookup_inserted:
  assumes "inv m" and "abs m k = None" and "insert m k v = Some m'"
  shows "lookup m' k = Some (Some v)"
  using insert_inv [OF assms] insert_abs [OF assms] by (intro lookup_abs) auto

lemma lookup_other:
  assumes "inv m" and "abs m k = None" and "insert m k v = Some m'" and "abs m j = Some w"
  shows "lookup m' j = Some (Some w)"
proof -
  have "j \<noteq> k" using assms(2,4) by auto
  with insert_abs [OF assms(1-3)] assms(4) have "abs m' j = Some w" by simp
  then show ?thesis by (rule lookup_abs [OF insert_inv [OF assms(1-3)]])
qed

text \<open>Inserting distinct fresh keys, in any number, loses none of them.\<close>

lemma insert_all_correct:
  "inv m \<Longrightarrow> distinct (map fst kvs) \<Longrightarrow> \<forall>kv \<in> set kvs. abs m (fst kv) = None \<Longrightarrow>
     \<exists>m'. run_ops (\<lambda>kv m. insert m (fst kv) (snd kv)) kvs m = Some m' \<and> inv m'
       \<and> abs m' = abs m ++ map_of kvs"
proof (induction kvs arbitrary: m)
  case (Cons kv kvs)
  have f: "abs m (fst kv) = None" using Cons.prems(3) by simp
  obtain m1 where m1: "insert m (fst kv) (snd kv) = Some m1"
    using insert_defined [OF Cons.prems(1) f] by blast
  note i1 = insert_inv [OF Cons.prems(1) f m1] and a1 = insert_abs [OF Cons.prems(1) f m1]
  have fresh: "fst kv \<notin> fst ` set kvs" using Cons.prems(2) by simp
  then have "\<forall>x \<in> set kvs. abs m1 (fst x) = None"
    using Cons.prems(3) unfolding a1 by (auto simp: image_iff)
  then obtain m' where m': "run_ops (\<lambda>kv m. insert m (fst kv) (snd kv)) kvs m1 = Some m'"
    "inv m'" "abs m' = abs m1 ++ map_of kvs"
    using Cons.IH [OF i1] Cons.prems(2) by auto
  have "fst kv \<notin> dom (map_of kvs)" using fresh by (simp add: dom_map_of_conv_image_fst)
  then have e: "abs m1 ++ map_of kvs = abs m ++ map_of (kv # kvs)"
    by (cases kv) (simp add: a1 map_add_upd_left)
  have "run_ops (\<lambda>kv m. insert m (fst kv) (snd kv)) (kv # kvs) m = Some m'"
    using m'(1) m1 by simp
  then show ?case using m'(2) m'(3) [unfolded e] by blast
qed simp

end

end
