(* ===== verification/Arena.thy ===== *)
theory Arena
  imports Contracts
begin

text \<open>
  Bump allocation: lib/arena.h and lib/arena.c. Addresses are 64-bit words, the memory is a
  function from addresses to bytes. \<open>None\<close> is a write outside the block the arena owns.

  The lemmas give alignment, zeroing and bounds of a block, say exactly when
  \<open>vd_arena_alloc\<close> writes past its end, and treat \<open>vd_arena_alloc_t\<close> both sequentially and
  as the interleaved steps of several threads.
\<close>

section \<open>Memory\<close>

type_synonym memory = "umm \<Rightarrow> u8"

definition mem_set :: "memory \<Rightarrow> umm \<Rightarrow> u8 \<Rightarrow> u64 \<Rightarrow> memory" where
  "mem_set m p v n = (\<lambda>x. if x - p < n then v else m x)"

definition mem_copy :: "memory \<Rightarrow> umm \<Rightarrow> umm \<Rightarrow> u64 \<Rightarrow> memory" where
  "mem_copy m dst src n = (\<lambda>x. if x - dst < n then m (src + (x - dst)) else m x)"

section \<open>Definitions\<close>

text \<open>\<open>allocator\<close> is the address of the allocator's record; the arena only hands it back.\<close>

record vd_arena =
  a_data :: umm
  a_begin :: umm
  a_end :: umm
  a_allocator :: umm

text \<open>\<open>data\<close> is what the allocator returned for \<open>size\<close> bytes.\<close>

definition vd_arena_new :: "umm \<Rightarrow> u64 \<Rightarrow> umm \<Rightarrow> vd_arena" where
  "vd_arena_new data sz allocator =
     \<lparr>a_data = data, a_begin = data, a_end = data + sz, a_allocator = allocator\<rparr>"

definition arena_padding :: "umm \<Rightarrow> u64 \<Rightarrow> u64" where
  "arena_padding begin align = (- begin) AND (align - 1)"

text \<open>The block \<open>[p, p + n)\<close> lies in the memory of the arena.\<close>

definition arena_owns :: "vd_arena \<Rightarrow> umm \<Rightarrow> u64 \<Rightarrow> bool" where
  "arena_owns a p n \<longleftrightarrow> uint (p - a_data a) + uint n \<le> uint (a_end a - a_data a)"

definition vd_arena_alloc ::
  "vd_arena \<Rightarrow> memory \<Rightarrow> u64 \<Rightarrow> u64 \<Rightarrow> (umm \<times> vd_arena \<times> memory) option" where
  "vd_arena_alloc a m sz align =
     (let padding = arena_padding (a_begin a) align;
          available = a_end a - a_begin a - padding in
      if sint available < 0 then Some (0, a, m)
      else
        let p = a_begin a + padding;
            a' = a\<lparr>a_begin := a_begin a + (padding + sz)\<rparr> in
        if arena_owns a p sz then Some (p, a', mem_set m p 0 sz) else None)"

text \<open>The thread-safe variant, run without interference: \<open>p\<close> is the value before the atomic
  addition, and the end is checked after it.\<close>

definition vd_arena_alloc_t ::
  "vd_arena \<Rightarrow> memory \<Rightarrow> u64 \<Rightarrow> u64 \<Rightarrow> (umm \<times> vd_arena \<times> memory) option" where
  "vd_arena_alloc_t a m sz align =
     (let padding = arena_padding (a_begin a) align;
          available = a_end a - a_begin a - padding in
      if sint available < 0 then Some (0, a, m)
      else
        let p = a_begin a;
            a' = a\<lparr>a_begin := a_begin a + (padding + sz)\<rparr>;
            p' = p + padding in
        if a_end a' < p' + sz then Some (0, a', m)
        else if arena_owns a p' sz then Some (p', a', mem_set m p' 0 sz) else None)"

definition vd_arena_reset :: "vd_arena \<Rightarrow> vd_arena" where
  "vd_arena_reset a = a\<lparr>a_begin := a_data a\<rparr>"

text \<open>The pointer and the size handed back to the allocator.\<close>

definition vd_arena_free :: "vd_arena \<Rightarrow> umm \<times> u64" where
  "vd_arena_free a = (a_data a, a_end a - a_data a)"

definition vd_arena_get_stats :: "vd_arena \<Rightarrow> u64 \<times> u64" where
  "vd_arena_get_stats a = (a_begin a - a_data a, a_end a - a_data a)"

definition vd_arena_proc_alloc ::
  "vd_arena \<Rightarrow> memory \<Rightarrow> umm \<Rightarrow> u64 \<Rightarrow> u64 \<Rightarrow> (umm \<times> vd_arena \<times> memory) option" where
  "vd_arena_proc_alloc a m ptr prevsize newsize =
     (if newsize = 0 then Some (0, a, m)
      else do {
        (nptr, a', m') \<leftarrow> vd_arena_alloc a m newsize 8;
        if nptr = 0 then Some (0, a', m')
        else if ptr \<noteq> 0 then
          (if arena_owns a' nptr prevsize then Some (nptr, a', mem_copy m' nptr ptr prevsize)
           else None)
        else Some (nptr, a', m') })"

section \<open>Word facts\<close>

lemma sint_neg_iff: "sint (w :: u64) < 0 \<longleftrightarrow> 2 ^ 63 \<le> uint w"
proof -
  have b: "uint w < 2 * 2 ^ 63" using unsigned_less [of w] by simp
  have "sint w < 0 \<longleftrightarrow> bit (uint w) 63"
    by (simp add: sint_uint signed_take_bit_negative_iff)
  also have "\<dots> \<longleftrightarrow> odd (uint w div 2 ^ 63)" by (simp add: bit_iff_odd)
  also have "uint w div 2 ^ 63 = (if 2 ^ 63 \<le> uint w then 1 else 0)"
  proof (cases "2 ^ 63 \<le> uint w")
    case True
    then have "uint w div 2 ^ 63 = (uint w - 2 ^ 63) div 2 ^ 63 + 1"
      by (simp add: div_pos_geq)
    also have "(uint w - 2 ^ 63) div 2 ^ 63 = 0" using True b by (intro div_pos_pos_trivial) auto
    finally show ?thesis using True by simp
  qed (simp add: div_pos_pos_trivial)
  finally show ?thesis by simp
qed

lemma uint_padding: "k < 64 \<Longrightarrow> uint (arena_padding b (2 ^ k)) = (- uint b) mod 2 ^ k"
proof -
  assume k: "k < 64"
  have "arena_padding b (2 ^ k) = take_bit k (- b)"
    by (simp add: arena_padding_def take_bit_eq_mask mask_eq_exp_minus_1)
  then have "uint (arena_padding b (2 ^ k)) = take_bit k (uint (- b))"
    by (simp add: unsigned_take_bit_eq)
  also have "uint (- b) = (- uint b) mod 2 ^ 64" by (simp add: uint_word_ariths)
  also have "take_bit k ((- uint b) mod 2 ^ 64) = (- uint b) mod 2 ^ k"
    using k unfolding take_bit_eq_mod by (intro mod_mod_cancel le_imp_power_dvd) simp
  finally show ?thesis .
qed

text \<open>A region of the lower half of the address space, as user space is; the block and its
  watermark are inside it.\<close>

definition arena_inv :: "vd_arena \<Rightarrow> bool" where
  "arena_inv a \<longleftrightarrow> a_data a \<le> a_begin a \<and> a_begin a \<le> a_end a \<and> uint (a_end a) < 2 ^ 62"

lemma uint_add_small: "uint x + uint y < 2 ^ 64 \<Longrightarrow> uint (x + y :: u64) = uint x + uint y"
  by (simp add: uint_word_ariths)

lemma uint_sub_small: "y \<le> x \<Longrightarrow> uint (x - y :: u64) = uint x - uint y"
  by (simp add: uint_sub_if' word_le_def)

lemma arena_room:
  assumes inv: "arena_inv a" and k: "k < 62"
  defines "pad \<equiv> arena_padding (a_begin a) (2 ^ k)"
  shows "\<not> sint (a_end a - a_begin a - pad) < 0 \<longleftrightarrow> uint (a_begin a) + uint pad \<le> uint (a_end a)"
proof -
  let ?b = "uint (a_begin a)" and ?e = "uint (a_end a)"
  have be: "?b \<le> ?e" "?e < 2 ^ 62" "0 \<le> ?b" using inv by (auto simp: arena_inv_def word_le_def)
  have "uint pad = (- ?b) mod 2 ^ k" using k by (simp add: pad_def uint_padding)
  then have pad: "uint pad < 2 ^ k" "0 \<le> uint pad" by simp_all
  have k62: "(2::int) ^ k \<le> 2 ^ 62" using k by (intro power_increasing) auto
  have eb: "uint (a_end a - a_begin a) = ?e - ?b" using be by (simp add: uint_sub_small word_le_def)
  show ?thesis
  proof (cases "?b + uint pad \<le> ?e")
    case True
    then have "uint (a_end a - a_begin a - pad) = ?e - ?b - uint pad"
      using eb by (simp add: uint_sub_small word_le_def)
    moreover have "?e - ?b - uint pad < 2 ^ 63"
    proof -
      have "?e - ?b - uint pad \<le> ?e" using be pad by linarith
      also have "\<dots> < 2 ^ 62" by (rule be(2))
      also have "(2::int) ^ 62 < 2 ^ 63" by simp
      finally show ?thesis .
    qed
    ultimately show ?thesis using True by (simp add: sint_neg_iff)
  next
    case False
    have "uint (a_end a - a_begin a - pad) = ?e - ?b - uint pad + 2 ^ 64"
      using eb False by (simp add: uint_sub_if')
    moreover have "2 ^ 63 \<le> ?e - ?b - uint pad + 2 ^ 64" using be pad k62 by simp
    ultimately show ?thesis using False by (simp add: sint_neg_iff)
  qed
qed

text \<open>What an allocation returns when it fits, in natural numbers; shared by the properties
  below.\<close>

lemma arena_fit:
  assumes inv: "arena_inv a" and k: "k < 62"
    and fit: "uint (a_begin a) + uint (arena_padding (a_begin a) (2 ^ k)) + uint sz \<le> uint (a_end a)"
  defines "pad \<equiv> arena_padding (a_begin a) (2 ^ k)"
  shows "uint (a_begin a + pad) = uint (a_begin a) + uint pad"
    and "uint (a_begin a + (pad + sz)) = uint (a_begin a) + uint pad + uint sz"
    and "uint (a_begin a + pad + sz) = uint (a_begin a) + uint pad + uint sz"
    and "uint (a_begin a + pad) mod 2 ^ k = 0"
    and "arena_owns a (a_begin a + pad) sz"
proof -
  let ?b = "uint (a_begin a)" and ?e = "uint (a_end a)" and ?d = "uint (a_data a)"
  have be: "?d \<le> ?b" "?b \<le> ?e" "?e < 2 ^ 62" using inv by (auto simp: arena_inv_def word_le_def)
  have e64: "?e < 2 ^ 64" using be(3) by simp
  have nn: "0 \<le> ?b" "0 \<le> uint pad" "0 \<le> uint sz" "0 \<le> ?d" by simp_all
  note fit' = fit [folded pad_def]
  have lim: "?b + uint pad < 2 ^ 64" "?b + (uint pad + uint sz) < 2 ^ 64" "uint pad + uint sz < 2 ^ 64"
    using fit' e64 nn by linarith+
  show p: "uint (a_begin a + pad) = ?b + uint pad" using lim(1) by (rule uint_add_small)
  have ps: "uint (pad + sz) = uint pad + uint sz" using lim(3) by (rule uint_add_small)
  show "uint (a_begin a + (pad + sz)) = ?b + uint pad + uint sz"
    using lim(2) ps by (subst uint_add_small) simp_all
  show "uint (a_begin a + pad + sz) = ?b + uint pad + uint sz"
    using lim(2) p by (subst uint_add_small) simp_all
  have "uint pad = (- ?b) mod 2 ^ k" using k by (simp add: pad_def uint_padding)
  then show "uint (a_begin a + pad) mod 2 ^ k = 0"
    unfolding p by (simp add: mod_add_right_eq)
  have dp: "a_data a \<le> a_begin a + pad" unfolding word_le_def p using be nn by linarith
  have de: "a_data a \<le> a_end a" using be by (simp add: word_le_def)
  show "arena_owns a (a_begin a + pad) sz"
    unfolding arena_owns_def uint_sub_small [OF dp] uint_sub_small [OF de] p
    using fit' by linarith
qed

section \<open>Allocation\<close>

text \<open>The watermark after the next allocation of \<open>sz\<close> bytes at alignment \<open>2 ^ k\<close>.\<close>

definition arena_next :: "vd_arena \<Rightarrow> u64 \<Rightarrow> nat \<Rightarrow> int" where
  "arena_next a sz k = uint (a_begin a) + uint (arena_padding (a_begin a) (2 ^ k)) + uint sz"

lemma arena_alloc_fits:
  assumes inv: "arena_inv a" and k: "k < 62" and fit: "arena_next a sz k \<le> uint (a_end a)"
  defines "p \<equiv> a_begin a + arena_padding (a_begin a) (2 ^ k)"
  shows "vd_arena_alloc a m sz (2 ^ k) =
    Some (p, a\<lparr>a_begin := a_begin a + (arena_padding (a_begin a) (2 ^ k) + sz)\<rparr>, mem_set m p 0 sz)"
proof -
  note f = arena_fit [OF inv k fit [unfolded arena_next_def]]
  have "0 \<le> uint sz" by simp
  with fit have "\<not> sint (a_end a - a_begin a - arena_padding (a_begin a) (2 ^ k)) < 0"
    unfolding arena_room [OF inv k] arena_next_def by linarith
  with f(5) show ?thesis by (simp add: vd_arena_alloc_def p_def Let_def)
qed

lemma vd_arena_alloc_block:
  assumes "arena_inv a" and "k < 62" and "arena_next a sz k \<le> uint (a_end a)"
  shows "\<exists>p a' m'. vd_arena_alloc a m sz (2 ^ k) = Some (p, a', m') \<and>
    uint p mod 2 ^ k = 0 \<and> uint (a_begin a) \<le> uint p \<and> uint p + uint sz = uint (a_begin a') \<and>
    a_begin a' \<le> a_end a \<and> a_end a' = a_end a \<and> a_data a' = a_data a \<and> arena_inv a' \<and>
    (\<forall>x. m' x = (if x - p < sz then 0 else m x))"
proof -
  note f = arena_fit [OF assms(1,2) assms(3) [unfolded arena_next_def]]
  let ?p = "a_begin a + arena_padding (a_begin a) (2 ^ k)"
  let ?a = "a\<lparr>a_begin := a_begin a + (arena_padding (a_begin a) (2 ^ k) + sz)\<rparr>"
  have nn: "0 \<le> uint sz" "0 \<le> uint (arena_padding (a_begin a) (2 ^ k))" by simp_all
  have le: "a_begin ?a \<le> a_end a" "a_begin a \<le> a_begin ?a"
    using assms(3) nn unfolding word_le_def arena_next_def by (simp_all add: f(2))
  have "a_data a \<le> a_begin ?a" using assms(1) le(2) order.trans unfolding arena_inv_def by blast
  with le(1) assms(1) have "arena_inv ?a" by (simp add: arena_inv_def)
  then show ?thesis
    unfolding arena_alloc_fits [OF assms] using f le nn by (simp add: mem_set_def)
qed

text \<open>C24. An allocation that fits returns an aligned, zeroed block between the old and the new
  watermark, changes no other byte, and keeps the arena well formed.\<close>

theorem vd_arena_alloc_correct:
  assumes "arena_inv a" and "k < 62" and "arena_next a sz k \<le> uint (a_end a)"
  shows "\<exists>p a' m'. vd_arena_alloc a m sz (2 ^ k) = Some (p, a', m') \<and>
    uint p mod 2 ^ k = 0 \<and> uint (a_begin a) \<le> uint p \<and> uint p + uint sz = uint (a_begin a') \<and>
    a_begin a' \<le> a_end a \<and> a_end a' = a_end a \<and> a_data a' = a_data a \<and> arena_inv a' \<and>
    (\<forall>x. m' x = (if x - p < sz then 0 else m x))"
  using assms by (rule vd_arena_alloc_block)

definition demo_arena :: vd_arena where
  "demo_arena = vd_arena_new 0x1004 64 0"

theorem vd_arena_alloc_correct_witness:
  "\<exists>p a' m'. vd_arena_alloc demo_arena (\<lambda>_. 7) 16 (2 ^ 3) = Some (p, a', m') \<and>
    uint p mod 2 ^ 3 = 0 \<and> uint (a_begin demo_arena) \<le> uint p \<and> uint p + uint (16 :: u64) = uint (a_begin a') \<and>
    a_begin a' \<le> a_end demo_arena \<and> a_end a' = a_end demo_arena \<and> a_data a' = a_data demo_arena \<and>
    arena_inv a' \<and> (\<forall>x. m' x = (if x - p < 16 then 0 else 7))"
  by (rule vd_arena_alloc_correct)
    (simp_all add: demo_arena_def vd_arena_new_def arena_inv_def arena_next_def arena_padding_def)

text \<open>C25. \<open>vd_arena_alloc\<close> only compares the padding with the space left, never the size: it
  writes past its block exactly when the start of the new block fits and its end does not.\<close>

theorem vd_arena_alloc_overrun:
  assumes "arena_inv a" and "k < 62" and "uint sz < 2 ^ 62"
  shows "vd_arena_alloc a m sz (2 ^ k) = None \<longleftrightarrow>
    uint (a_begin a) + uint (arena_padding (a_begin a) (2 ^ k)) \<le> uint (a_end a) \<and>
    uint (a_end a) < arena_next a sz k"
proof (cases "arena_next a sz k \<le> uint (a_end a)")
  case True
  then show ?thesis using arena_alloc_fits [OF assms(1,2) True] by simp
next
  case False
  let ?pad = "arena_padding (a_begin a) (2 ^ k)"
  have room: "\<not> sint (a_end a - a_begin a - ?pad) < 0 \<longleftrightarrow>
      uint (a_begin a) + uint ?pad \<le> uint (a_end a)"
    by (rule arena_room [OF assms(1,2)])
  show ?thesis
  proof (cases "uint (a_begin a) + uint ?pad \<le> uint (a_end a)")
    case True
    have "arena_next a 0 k \<le> uint (a_end a)" using True by (simp add: arena_next_def)
    then have p: "uint (a_begin a + ?pad) = uint (a_begin a) + uint ?pad"
      using arena_fit(1) [OF assms(1,2), of 0] by (simp add: arena_next_def)
    have be: "uint (a_data a) \<le> uint (a_begin a)" "uint (a_begin a) \<le> uint (a_end a)"
      using assms(1) by (auto simp: arena_inv_def word_le_def)
    have "0 \<le> uint ?pad" by simp
    then have dp: "a_data a \<le> a_begin a + ?pad" unfolding word_le_def p using be by linarith
    have de: "a_data a \<le> a_end a" unfolding word_le_def using be by linarith
    have "\<not> arena_owns a (a_begin a + ?pad) sz"
      unfolding arena_owns_def uint_sub_small [OF dp] uint_sub_small [OF de] p
      using False unfolding arena_next_def by linarith
    then show ?thesis using True False room by (simp add: vd_arena_alloc_def Let_def)
  next
    case less: False
    then show ?thesis using room by (simp add: vd_arena_alloc_def Let_def)
  qed
qed

theorem vd_arena_alloc_overrun_witness:
  "vd_arena_alloc demo_arena (\<lambda>_. 7) 100 (2 ^ 3) = None \<longleftrightarrow>
    uint (a_begin demo_arena) + uint (arena_padding (a_begin demo_arena) (2 ^ 3)) \<le> uint (a_end demo_arena) \<and>
    uint (a_end demo_arena) < arena_next demo_arena 100 3"
  by (rule vd_arena_alloc_overrun)
    (simp_all add: demo_arena_def vd_arena_new_def arena_inv_def)

section \<open>The thread-safe variant, sequentially\<close>

text \<open>A failed request has still advanced the watermark, which may then be past the end.\<close>

definition arena_inv_t :: "vd_arena \<Rightarrow> bool" where
  "arena_inv_t a \<longleftrightarrow> a_data a \<le> a_begin a \<and> a_data a \<le> a_end a \<and> a_data a \<noteq> 0 \<and>
     uint (a_end a) < 2 ^ 62 \<and> uint (a_begin a) < uint (a_end a) + 2 ^ 61"

lemma arena_spent:
  assumes inv: "arena_inv_t a" and k: "k \<le> 60" and past: "a_end a < a_begin a"
  shows "vd_arena_alloc_t a m sz (2 ^ k) = Some (0, a, m)"
proof -
  let ?b = "uint (a_begin a)" and ?e = "uint (a_end a)" and ?pad = "arena_padding (a_begin a) (2 ^ k)"
  have be: "?e < ?b" "?e < 2 ^ 62" "?b < ?e + 2 ^ 61" "0 \<le> ?e"
    using inv past by (auto simp: arena_inv_t_def word_less_def)
  have "uint ?pad = (- ?b) mod 2 ^ k" using k by (simp add: uint_padding)
  also have "\<dots> < 2 ^ k" by simp
  also have "(2::int) ^ k \<le> 2 ^ 60" using k by (intro power_increasing) auto
  finally have pad: "uint ?pad < 2 ^ 60" "0 \<le> uint ?pad" by simp_all
  have "uint (a_end a - a_begin a) = ?e - ?b + 2 ^ 64" using be by (simp add: uint_sub_if')
  then have "uint (a_end a - a_begin a - ?pad) = ?e - ?b + 2 ^ 64 - uint ?pad"
    using be pad by (subst uint_sub_small) (simp_all add: word_le_def)
  then have "sint (a_end a - a_begin a - ?pad) < 0"
    using be pad by (simp add: sint_neg_iff)
  then show ?thesis by (simp add: vd_arena_alloc_t_def Let_def)
qed

lemma vd_arena_alloc_t_block:
  assumes inv: "arena_inv_t a" and k: "k \<le> 60" and sz: "uint sz < 2 ^ 61"
  shows "\<exists>p a' m'. vd_arena_alloc_t a m sz (2 ^ k) = Some (p, a', m') \<and> arena_inv_t a' \<and>
    (p = 0 \<and> m' = m \<or>
     uint p mod 2 ^ k = 0 \<and> a_begin a \<le> p \<and> uint p + uint sz \<le> uint (a_end a) \<and>
     m' = mem_set m p 0 sz)"
proof (cases "a_end a < a_begin a")
  case True
  then show ?thesis using arena_spent [OF inv k True] inv by auto
next
  case False
  let ?b = "uint (a_begin a)" and ?e = "uint (a_end a)" and ?pad = "arena_padding (a_begin a) (2 ^ k)"
  have ai: "arena_inv a" using inv False by (auto simp: arena_inv_def arena_inv_t_def)
  have k62: "k < 62" using k by simp
  note room = arena_room [OF ai k62]
  show ?thesis
  proof (cases "?b + uint ?pad \<le> ?e")
    case nofit: False
    then show ?thesis using room inv by (simp add: vd_arena_alloc_t_def Let_def)
  next
    case fit: True
    have be: "?e < 2 ^ 62" "0 \<le> ?b" "0 \<le> uint ?pad" "0 \<le> uint sz"
      "uint (a_data a) \<le> ?b" "0 \<le> uint (a_data a)" "uint (a_data a) \<noteq> 0"
      using inv by (auto simp: arena_inv_t_def word_le_def word_uint_eq_iff)
    have "arena_next a 0 k \<le> ?e" using fit by (simp add: arena_next_def)
    note f = arena_fit [OF ai k62 this [unfolded arena_next_def]]
    let ?p = "a_begin a + ?pad" and ?a = "a\<lparr>a_begin := a_begin a + (?pad + sz)\<rparr>"
    have p: "uint ?p = ?b + uint ?pad" by (rule f(1))
    have ps: "uint (?p + sz) = ?b + uint ?pad + uint sz"
      using p fit be sz by (subst uint_add_small) simp_all
    then have nb: "uint (a_begin ?a) = ?b + uint ?pad + uint sz" by (simp add: add.assoc)
    have "?b + uint ?pad + uint sz < ?e + 2 ^ 61" using fit sz by linarith
    moreover have "uint (a_data a) \<le> ?b + uint ?pad + uint sz" "uint (a_data a) \<le> ?e"
      using fit be by linarith+
    ultimately have inv': "arena_inv_t ?a"
      using inv be(1) unfolding arena_inv_t_def word_le_def nb by simp
    show ?thesis
    proof (cases "a_end a < ?p + sz")
      case True
      then have "vd_arena_alloc_t a m sz (2 ^ k) = Some (0, ?a, m)"
        using room fit by (simp add: vd_arena_alloc_t_def Let_def)
      with inv' show ?thesis by blast
    next
      case in_block: False
      then have le: "uint ?p + uint sz \<le> ?e" using ps p by (simp add: word_less_def)
      have "arena_owns a ?p sz"
        using arena_fit(5) [OF ai k62, of sz] le p by simp
      then have "vd_arena_alloc_t a m sz (2 ^ k) = Some (?p, ?a, mem_set m ?p 0 sz)"
        using room fit in_block by (simp add: vd_arena_alloc_t_def Let_def)
      moreover have "a_begin a \<le> ?p" using p be by (simp add: word_le_def)
      ultimately show ?thesis using inv' f(4) le
        by (intro exI [of _ ?p] exI [of _ ?a] exI [of _ "mem_set m ?p 0 sz"]) simp
    qed
  qed
qed

text \<open>Whatever the size, \<open>vd_arena_alloc_t\<close> either returns null and writes nothing, or
  returns an aligned, zeroed block inside the arena; in both cases the arena stays usable.\<close>

theorem vd_arena_alloc_t_safe:
  assumes "arena_inv_t a" and "k \<le> 60" and "uint sz < 2 ^ 61"
  shows "\<exists>p a' m'. vd_arena_alloc_t a m sz (2 ^ k) = Some (p, a', m') \<and> arena_inv_t a' \<and>
    (p = 0 \<and> m' = m \<or>
     uint p mod 2 ^ k = 0 \<and> a_begin a \<le> p \<and> uint p + uint sz \<le> uint (a_end a) \<and>
     m' = mem_set m p 0 sz)"
  using assms by (rule vd_arena_alloc_t_block)

theorem vd_arena_alloc_t_safe_witness:
  "\<exists>p a' m'. vd_arena_alloc_t demo_arena (\<lambda>_. 7) 100 (2 ^ 3) = Some (p, a', m') \<and> arena_inv_t a' \<and>
    (p = 0 \<and> m' = (\<lambda>_. 7) \<or>
     uint p mod 2 ^ 3 = 0 \<and> a_begin demo_arena \<le> p \<and> uint p + uint (100 :: u64) \<le> uint (a_end demo_arena) \<and>
     m' = mem_set (\<lambda>_. 7) p 0 100)"
  by (rule vd_arena_alloc_t_safe) (simp_all add: demo_arena_def vd_arena_new_def arena_inv_t_def)

section \<open>Reallocation\<close>

text \<open>Growing a block through the allocator interface copies the old contents and leaves the
  old block as it was.\<close>

theorem vd_arena_proc_alloc_grow:
  assumes "arena_inv a" and "arena_next a newsize 3 \<le> uint (a_end a)" and "newsize \<noteq> 0"
    and "0 < uint (a_data a)" and "ptr \<noteq> 0" and "prevsize \<le> newsize"
    and "uint ptr + uint prevsize \<le> uint (a_begin a)"
  shows "\<exists>p a' m'. vd_arena_proc_alloc a m ptr prevsize newsize = Some (p, a', m') \<and> arena_inv a' \<and>
    (\<forall>i < prevsize. m' (p + i) = m (ptr + i) \<and> m' (ptr + i) = m (ptr + i))"
proof -
  have k: "(3::nat) < 62" by simp
  have al: "(2::u64) ^ 3 = 8" by simp
  obtain p a' m1 where r: "vd_arena_alloc a m newsize 8 = Some (p, a', m1)"
    and g: "uint (a_begin a) \<le> uint p" "uint p + uint newsize = uint (a_begin a')"
      "a_begin a' \<le> a_end a" "a_end a' = a_end a" "a_data a' = a_data a" "arena_inv a'"
      "\<forall>x. m1 x = (if x - p < newsize then 0 else m x)"
    using vd_arena_alloc_block [OF assms(1) k assms(2), of m] unfolding al by blast
  have de: "uint (a_data a) \<le> uint (a_begin a)"
    using assms(1) by (auto simp: arena_inv_def word_le_def)
  have p0: "p \<noteq> 0" using g(1) assms(4) de by auto
  have pn: "uint p + uint prevsize \<le> uint (a_end a)"
    using g(2,3) assms(6) by (simp add: word_le_def)
  have "a_data a \<le> p" "a_data a \<le> a_end a"
    using g(1) de assms(1) by (auto simp: word_le_def arena_inv_def)
  then have "arena_owns a' p prevsize"
    using pn by (simp add: arena_owns_def uint_sub_small g(4,5))
  then have run: "vd_arena_proc_alloc a m ptr prevsize newsize = Some (p, a', mem_copy m1 p ptr prevsize)"
    using assms(3,5) r p0 by (simp add: vd_arena_proc_alloc_def)
  have old: "m1 (ptr + i) = m (ptr + i) \<and> \<not> ptr + i - p < prevsize" if i: "i < prevsize" for i
  proof -
    have e: "uint (a_end a) < 2 ^ 62" using assms(1) by (simp add: arena_inv_def)
    have i': "uint i < uint prevsize" "0 \<le> uint i" using i by (simp_all add: word_less_def)
    have "uint ptr + uint i < 2 ^ 62" using assms(7) i' g(1) pn e by linarith
    then have lim: "uint ptr + uint i < 2 ^ 64" by simp
    have u: "uint (ptr + i) = uint ptr + uint i" by (rule uint_add_small [OF lim])
    have lt: "uint ptr + uint i < uint p" using assms(7) i' g(1) by linarith
    have w: "uint (ptr + i - p) = uint ptr + uint i - uint p + 2 ^ 64"
      unfolding uint_sub_if' u using lt by simp
    have z: "0 \<le> uint ptr" "0 \<le> uint p" "0 \<le> uint newsize" by simp_all
    have nn: "0 \<le> uint ptr" "uint newsize \<le> uint (a_end a)" "uint p \<le> uint (a_end a)"
      using g(2) g(3) [unfolded word_le_def] z by linarith+
    have "(2::int) ^ 62 + 2 ^ 62 \<le> 2 ^ 64" by simp
    then have "uint newsize \<le> uint (ptr + i - p)" unfolding w using nn i'(2) e by linarith
    then show ?thesis using g(7) assms(6) by (auto simp: word_less_def word_le_def)
  qed
  have "mem_copy m1 p ptr prevsize (p + i) = m (ptr + i) \<and>
      mem_copy m1 p ptr prevsize (ptr + i) = m (ptr + i)" if "i < prevsize" for i
    using old [OF that] that by (simp add: mem_copy_def)
  with run g(6) show ?thesis by blast
qed

theorem vd_arena_proc_alloc_grow_witness:
  "\<exists>p a' m'. vd_arena_proc_alloc (demo_arena\<lparr>a_begin := 0x1010\<rparr>) (\<lambda>x. ucast x) 0x1008 8 16 = Some (p, a', m')
    \<and> arena_inv a' \<and>
    (\<forall>i < 8. m' (p + i) = ucast (0x1008 + i) \<and> m' (0x1008 + i) = ucast (0x1008 + i))"
  by (rule vd_arena_proc_alloc_grow)
    (simp_all add: demo_arena_def vd_arena_new_def arena_inv_def arena_next_def arena_padding_def)

section \<open>Threads\<close>

text \<open>
  \<open>vd_arena_alloc_t\<close> as the steps of threads that share one arena. Each thread makes one
  request; its program counter records what it has read. The watermark is read once for the
  padding and again for the space left, then advanced by one atomic addition. All of it is
  arithmetic on 64 bits, as in the code.
\<close>

datatype at_pc =
    AIdle u64 u64                      \<comment> \<open>size, alignment\<close>
  | APadded u64 u64 u64                \<comment> \<open>and the padding\<close>
  | AChecked u64 u64 u64
  | AAdded u64 u64 u64 umm             \<comment> \<open>and the value the addition returned\<close>
  | ADone u64 u64 "umm option"         \<comment> \<open>size, alignment, the returned pointer\<close>

record at_sys =
  at_data :: umm
  at_begin :: umm
  at_end :: umm
  at_pc :: "nat \<Rightarrow> at_pc"

inductive at_step :: "at_sys \<Rightarrow> at_sys \<Rightarrow> bool" where
  pad: "at_pc s i = AIdle sz al \<Longrightarrow>
    at_step s (s\<lparr>at_pc := (at_pc s)(i := APadded sz al (arena_padding (at_begin s) al))\<rparr>)"
| full: "at_pc s i = APadded sz al pd \<Longrightarrow> sint (at_end s - at_begin s - pd) < 0 \<Longrightarrow>
    at_step s (s\<lparr>at_pc := (at_pc s)(i := ADone sz al None)\<rparr>)"
| check: "at_pc s i = APadded sz al pd \<Longrightarrow> 0 \<le> sint (at_end s - at_begin s - pd) \<Longrightarrow>
    at_step s (s\<lparr>at_pc := (at_pc s)(i := AChecked sz al pd)\<rparr>)"
| add: "at_pc s i = AChecked sz al pd \<Longrightarrow>
    at_step s (s\<lparr>at_pc := (at_pc s)(i := AAdded sz al pd (at_begin s)),
                at_begin := at_begin s + (pd + sz)\<rparr>)"
| too_big: "at_pc s i = AAdded sz al pd old \<Longrightarrow> at_end s < old + pd + sz \<Longrightarrow>
    at_step s (s\<lparr>at_pc := (at_pc s)(i := ADone sz al None)\<rparr>)"
| finish: "at_pc s i = AAdded sz al pd old \<Longrightarrow> old + pd + sz \<le> at_end s \<Longrightarrow>
    at_step s (s\<lparr>at_pc := (at_pc s)(i := ADone sz al (Some (old + pd)))\<rparr>)"

text \<open>A thread that runs alone does what \<open>vd_arena_alloc_t\<close> does.\<close>

definition at_of_arena :: "vd_arena \<Rightarrow> (nat \<Rightarrow> at_pc) \<Rightarrow> at_sys" where
  "at_of_arena a pc = \<lparr>at_data = a_data a, at_begin = a_begin a, at_end = a_end a, at_pc = pc\<rparr>"

lemma at_step_by: "at_step s t \<Longrightarrow> t = t' \<Longrightarrow> at_step\<^sup>*\<^sup>* s t'"
  by (simp add: r_into_rtranclp)

lemma at_run_alone:
  assumes run: "vd_arena_alloc_t a m sz al = Some (p, a', m')" and p: "p \<noteq> 0"
    and pc: "pc i = AIdle sz al"
  shows "at_step\<^sup>*\<^sup>* (at_of_arena a pc) (at_of_arena a' (pc(i := ADone sz al (Some p))))"
proof -
  let ?pd = "arena_padding (a_begin a) al" and ?b = "a_begin a" and ?S = "\<lambda>x. at_of_arena a (pc(i := x))"
  note d = at_of_arena_def
  have c: "0 \<le> sint (a_end a - ?b - ?pd)" "?b + ?pd + sz \<le> a_end a" "p = ?b + ?pd"
    "a' = a\<lparr>a_begin := ?b + (?pd + sz)\<rparr>"
    using run p by (auto simp: vd_arena_alloc_t_def Let_def split: if_splits)
  have "at_step\<^sup>*\<^sup>* (at_of_arena a pc) (?S (APadded sz al ?pd))"
    by (rule at_step_by, rule at_step.pad [where i = i and sz = sz and al = al]) (simp_all add: d pc)
  also have "at_step\<^sup>*\<^sup>* \<dots> (?S (AChecked sz al ?pd))"
    by (rule at_step_by, rule at_step.check [where i = i and sz = sz and al = al and pd = ?pd])
      (simp_all add: d c)
  also have "at_step\<^sup>*\<^sup>* \<dots> (at_of_arena a' (pc(i := AAdded sz al ?pd ?b)))"
    by (rule at_step_by, rule at_step.add [where i = i and sz = sz and al = al and pd = ?pd])
      (simp_all add: d c)
  also have "at_step\<^sup>*\<^sup>* \<dots> (at_of_arena a' (pc(i := ADone sz al (Some p))))"
    by (rule at_step_by, rule at_step.finish [where i = i and sz = sz and al = al and pd = ?pd and old = ?b])
      (simp_all add: d c)
  finally show ?thesis .
qed

text \<open>
  What the request of a thread can still add to the watermark. The threads of a run are a finite
  set \<open>T\<close>, the others have ended, and the requests of \<open>T\<close> together do not carry the watermark
  past the end of the address space: \<open>at_begin\<close> is advanced also for a request that then fails.
\<close>

fun at_need :: "at_pc \<Rightarrow> nat" where
  "at_need (AIdle sz al) = unat (al - 1) + unat sz"
| "at_need (APadded sz al pd) = unat pd + unat sz"
| "at_need (AChecked sz al pd) = unat pd + unat sz"
| "at_need _ = 0"

definition at_fits :: "nat set \<Rightarrow> at_sys \<Rightarrow> bool" where
  "at_fits T s \<longleftrightarrow> finite T \<and> (\<forall>i. i \<notin> T \<longrightarrow> at_need (at_pc s i) = 0) \<and>
     unat (at_begin s) + (\<Sum>i\<in>T. at_need (at_pc s i)) < 2 ^ 64"

definition at_init :: "nat set \<Rightarrow> at_sys \<Rightarrow> bool" where
  "at_init T s \<longleftrightarrow> at_begin s = at_data s \<and> at_fits T s \<and>
     (\<forall>i\<in>T. \<exists>sz al. at_pc s i = AIdle sz al) \<and> (\<forall>i. i \<notin> T \<longrightarrow> (\<exists>sz al. at_pc s i = ADone sz al None))"

text \<open>The block a thread has taken: start and size, as numbers.\<close>

fun at_block :: "at_pc \<Rightarrow> (nat \<times> nat) option" where
  "at_block (AAdded sz al pd old) = Some (unat (old + pd), unat sz)"
| "at_block (ADone sz al (Some p)) = Some (unat p, unat sz)"
| "at_block _ = None"

definition blocks_ok :: "nat \<Rightarrow> nat \<Rightarrow> (nat \<Rightarrow> (nat \<times> nat) option) \<Rightarrow> bool" where
  "blocks_ok d b B \<longleftrightarrow>
     (\<forall>i p n. B i = Some (p, n) \<longrightarrow> d \<le> p \<and> p + n \<le> b) \<and>
     (\<forall>i j p n q l. i \<noteq> j \<longrightarrow> B i = Some (p, n) \<longrightarrow> B j = Some (q, l) \<longrightarrow> p + n \<le> q \<or> q + l \<le> p)"

lemma blocks_ok_drop: "blocks_ok d b B \<Longrightarrow> blocks_ok d b (B(i := None))"
  by (simp add: blocks_ok_def)

lemma blocks_ok_new:
  assumes ok: "blocks_ok d b B" and "d \<le> b" "b \<le> p" "p + n \<le> b'"
  shows "blocks_ok d b' (B(i := Some (p, n)))"
proof -
  have "d \<le> q \<and> q + l \<le> b" if "B j = Some (q, l)" for j q l
    using ok that by (simp add: blocks_ok_def)
  then have old: "d \<le> q \<and> q + l \<le> b' \<and> q + l \<le> p" if "B j = Some (q, l)" for j q l
    using that assms(2-4) by (meson add_leD1 le_trans)
  show ?thesis using ok old assms(2-4) unfolding blocks_ok_def by (auto split: if_splits)
qed

definition at_inv :: "nat set \<Rightarrow> at_sys \<Rightarrow> bool" where
  "at_inv T s \<longleftrightarrow> at_fits T s \<and> at_data s \<le> at_begin s \<and>
     blocks_ok (unat (at_data s)) (unat (at_begin s)) (at_block \<circ> at_pc s) \<and>
     (\<forall>i sz al pd old. at_pc s i = AAdded sz al pd old \<longrightarrow> unat old + unat pd + unat sz < 2 ^ 64) \<and>
     (\<forall>i sz al p. at_pc s i = ADone sz al (Some p) \<longrightarrow> unat p + unat sz \<le> unat (at_end s))"

lemma block_upd: "at_block \<circ> (f(i := x)) = (at_block \<circ> f)(i := at_block x)"
  by (simp add: fun_upd_comp)

lemma block_upd_same: "at_block x = at_block (f i) \<Longrightarrow> at_block \<circ> (f(i := x)) = at_block \<circ> f"
  by (auto simp: fun_eq_iff)

lemma unat_add_small: "unat x + unat y < 2 ^ 64 \<Longrightarrow> unat (x + y :: u64) = unat x + unat y"
  by (simp add: unat_word_ariths)

lemma unat_padding_le: "unat (arena_padding b al) \<le> unat (al - 1)"
proof -
  have "arena_padding b al \<le> al - 1" unfolding arena_padding_def by (rule word_and_le1)
  then show ?thesis by (simp add: word_le_nat_alt)
qed

text \<open>A step of a thread uses up part of what it needs, and \<open>at_begin\<close> grows by at most that.\<close>

lemma at_fits_upd:
  assumes f: "at_fits T s" and i: "at_need (at_pc s i) \<noteq> 0 \<or> at_need x = 0"
    and le: "unat b + at_need x \<le> unat (at_begin s) + at_need (at_pc s i)"
  shows "at_fits T (s\<lparr>at_pc := (at_pc s)(i := x), at_begin := b\<rparr>)"
proof (cases "i \<in> T")
  case True
  have fin: "finite T" using f by (simp add: at_fits_def)
  have "(\<Sum>j\<in>T. at_need (((at_pc s)(i := x)) j)) = at_need x + (\<Sum>j\<in>T - {i}. at_need (at_pc s j))"
    using fin True by (subst sum.remove [of T i]) (auto intro!: sum.cong)
  moreover have "(\<Sum>j\<in>T. at_need (at_pc s j)) = at_need (at_pc s i) + (\<Sum>j\<in>T - {i}. at_need (at_pc s j))"
    using fin True by (rule sum.remove)
  ultimately show ?thesis using f le True by (auto simp: at_fits_def)
next
  case False
  then have "at_need (at_pc s i) = 0" using f by (simp add: at_fits_def)
  moreover have "(\<Sum>j\<in>T. at_need (((at_pc s)(i := x)) j)) = (\<Sum>j\<in>T. at_need (at_pc s j))"
    using False by (intro sum.cong) auto
  ultimately show ?thesis using f le i False by (auto simp: at_fits_def)
qed

lemma at_fits_same:
  assumes "at_fits T s" and "at_need x \<le> at_need (at_pc s i)"
  shows "at_fits T (s\<lparr>at_pc := (at_pc s)(i := x)\<rparr>)"
  using at_fits_upd [OF assms(1), of i x "at_begin s"] assms(2)
  by (cases "at_need x = 0") (simp_all add: at_fits_def)

lemma at_fits_need:
  assumes "at_fits T s" shows "unat (at_begin s) + at_need (at_pc s i) < 2 ^ 64"
proof (cases "i \<in> T")
  case True
  then have "at_need (at_pc s i) \<le> (\<Sum>j\<in>T. at_need (at_pc s j))"
    using assms by (intro member_le_sum) (auto simp: at_fits_def)
  then show ?thesis using assms by (simp add: at_fits_def)
qed (use assms in \<open>simp add: at_fits_def\<close>)

lemma at_inv_pc:
  assumes "at_inv T s" and "at_need x \<le> at_need (at_pc s i)" and "at_block x = None \<or> at_block x = at_block (at_pc s i)"
    and "\<And>sz al pd old. x \<noteq> AAdded sz al pd old"
    and "\<And>sz al p. x = ADone sz al (Some p) \<Longrightarrow> unat p + unat sz \<le> unat (at_end s)"
  shows "at_inv T (s\<lparr>at_pc := (at_pc s)(i := x)\<rparr>)"
proof -
  have "blocks_ok (unat (at_data s)) (unat (at_begin s)) (at_block \<circ> (at_pc s)(i := x))"
    using assms(1,3) block_upd_same [of x "at_pc s" i] by (auto simp: at_inv_def block_upd blocks_ok_drop)
  then show ?thesis
    using assms(1,4,5) at_fits_same [OF _ assms(2), of T] by (auto simp: at_inv_def)
qed

lemma at_inv_add:
  assumes inv: "at_inv T s" and pc: "at_pc s i = AChecked sz al pd"
  shows "at_inv T (s\<lparr>at_pc := (at_pc s)(i := AAdded sz al pd (at_begin s)), at_begin := at_begin s + (pd + sz)\<rparr>)"
proof -
  let ?b = "at_begin s"
  have f: "at_fits T s" using inv by (simp add: at_inv_def)
  have lim: "unat ?b + unat pd + unat sz < 2 ^ 64" using at_fits_need [OF f, of i] pc by simp
  then have u: "unat (?b + pd) = unat ?b + unat pd" "unat (pd + sz) = unat pd + unat sz"
    "unat (?b + (pd + sz)) = unat ?b + unat pd + unat sz" by (simp_all add: unat_add_small)
  have fits: "at_fits T (s\<lparr>at_pc := (at_pc s)(i := AAdded sz al pd ?b), at_begin := ?b + (pd + sz)\<rparr>)"
    by (rule at_fits_upd [OF f]) (simp_all add: pc u)
  have "blocks_ok (unat (at_data s)) (unat (?b + (pd + sz)))
      ((at_block \<circ> at_pc s)(i := Some (unat (?b + pd), unat sz)))"
    using inv by (intro blocks_ok_new [where b = "unat ?b"]) (auto simp: at_inv_def word_le_nat_alt u)
  moreover have "at_data s \<le> ?b + (pd + sz)" using inv by (simp add: at_inv_def word_le_nat_alt u)
  ultimately show ?thesis using fits inv lim by (simp add: at_inv_def block_upd)
qed

lemma at_step_inv: "at_inv T s \<Longrightarrow> at_step s t \<Longrightarrow> at_inv T t"
proof (erule at_step.cases, goal_cases)
  case (1 s' i sz al)
  then have "at_inv T (s'\<lparr>at_pc := (at_pc s')(i := APadded sz al (arena_padding (at_begin s') al))\<rparr>)"
    by (intro at_inv_pc) (simp_all add: unat_padding_le)
  with 1 show ?case by simp
next
  case (4 s' i sz al pd)
  then show ?case by (simp add: at_inv_add)
next
  case (6 s' i sz al pd old)
  have "unat old + unat pd + unat sz < 2 ^ 64" using 6 unfolding at_inv_def by blast
  then have "unat (old + pd) = unat old + unat pd" "unat (old + pd + sz) = unat old + unat pd + unat sz"
    by (simp_all add: unat_add_small)
  with 6 have "unat (old + pd) + unat sz \<le> unat (at_end s)" by (simp add: word_le_nat_alt)
  with 6 have "at_inv T (s'\<lparr>at_pc := (at_pc s')(i := ADone sz al (Some (old + pd)))\<rparr>)"
    by (intro at_inv_pc) simp_all
  with 6 show ?case by simp
qed (auto intro!: at_inv_pc)

lemma at_init_inv:
  assumes i: "at_init T s"
  shows "at_inv T s"
proof -
  have pc: "(\<exists>sz al. at_pc s j = AIdle sz al) \<or> (\<exists>sz al. at_pc s j = ADone sz al None)" for j
    using i by (cases "j \<in> T") (auto simp: at_init_def)
  then have b: "at_block (at_pc s j) = None" for j by (metis at_block.simps(3,6))
  have n: "at_pc s j \<noteq> ADone sz al (Some p)" "at_pc s j \<noteq> AAdded sz al pd old" for j sz al p pd old
    using pc [of j] by auto
  show ?thesis using i b n by (simp add: at_inv_def at_init_def blocks_ok_def)
qed

interpretation at: step_invariant "at_init T" at_step "at_inv T" for T
  by unfold_locales (auto intro: at_init_inv at_step_inv)

text \<open>C16. However any finite number of threads interleave, the blocks of two threads never
  overlap and lie inside the arena, as long as the requests together do not carry the watermark
  past \<open>2 ^ 64\<close>: the addition and the comparison with the end have 64 bits and would wrap.\<close>

theorem at_blocks_disjoint:
  assumes "at_init T s" and "at_step\<^sup>*\<^sup>* s t"
    and "at_pc t i = ADone n al (Some p)" and "at_pc t j = ADone l bl (Some q)" and "i \<noteq> j"
  shows "(unat p + unat n \<le> unat q \<or> unat q + unat l \<le> unat p) \<and>
    at_data t \<le> p \<and> unat p + unat n \<le> unat (at_end t)"
proof -
  have "at_inv T t" using assms(1,2) by (rule at.reachable_inv)
  moreover have "(at_block \<circ> at_pc t) i = Some (unat p, unat n)" "(at_block \<circ> at_pc t) j = Some (unat q, unat l)"
    using assms(3,4) by simp_all
  ultimately show ?thesis using assms(3,5) unfolding at_inv_def blocks_ok_def word_le_nat_alt by blast
qed

text \<open>
  Alignment does not survive interleaving: the padding is computed from an earlier value of the
  watermark than the one the addition returns. Two threads ask for 8-aligned blocks of 4 and
  8 bytes; the second gets an address that is 4 modulo 8.
\<close>

definition at_demo :: "umm \<Rightarrow> (nat \<Rightarrow> at_pc) \<Rightarrow> at_sys" where
  "at_demo b pc = \<lparr>at_data = 4096, at_begin = b, at_end = 8192, at_pc = pc\<rparr>"

definition at_start :: "nat \<Rightarrow> at_pc" where
  "at_start = (\<lambda>_. ADone 0 1 None)(0 := AIdle 4 8, 1 := AIdle 8 8)"

lemma demo_pad: "pc i = AIdle sz al \<Longrightarrow>
    at_step\<^sup>*\<^sup>* (at_demo b pc) (at_demo b (pc(i := APadded sz al (arena_padding b al))))"
  using at_step.pad [of "at_demo b pc" i sz al] by (intro r_into_rtranclp) (simp add: at_demo_def)

lemma demo_check: "pc i = APadded sz al pd \<Longrightarrow> 0 \<le> sint (8192 - b - pd) \<Longrightarrow>
    at_step\<^sup>*\<^sup>* (at_demo b pc) (at_demo b (pc(i := AChecked sz al pd)))"
  using at_step.check [of "at_demo b pc" i sz al pd] by (intro r_into_rtranclp) (simp add: at_demo_def)

lemma demo_add: "pc i = AChecked sz al pd \<Longrightarrow> c = b + (pd + sz) \<Longrightarrow>
    at_step\<^sup>*\<^sup>* (at_demo b pc) (at_demo c (pc(i := AAdded sz al pd b)))"
  using at_step.add [of "at_demo b pc" i sz al pd] by (intro r_into_rtranclp) (simp add: at_demo_def)

lemma demo_finish: "pc i = AAdded sz al pd old \<Longrightarrow> old + pd + sz \<le> 8192 \<Longrightarrow>
    at_step\<^sup>*\<^sup>* (at_demo b pc) (at_demo b (pc(i := ADone sz al (Some (old + pd)))))"
  using at_step.finish [of "at_demo b pc" i sz al pd old] by (intro r_into_rtranclp) (simp add: at_demo_def)

definition at_stop :: at_sys where
  "at_stop = at_demo 4108 (at_start(0 := ADone 4 8 (Some 4096), 1 := ADone 8 8 (Some 4100)))"

lemma at_demo_run: "at_step\<^sup>*\<^sup>* (at_demo 4096 at_start) at_stop"
proof -
  let ?s1 = "at_start(0 := APadded 4 8 0)"
  let ?s2 = "?s1(1 := APadded 8 8 0)"
  let ?s3 = "?s2(0 := AChecked 4 8 0)"
  let ?s4 = "?s3(1 := AChecked 8 8 0)"
  let ?s5 = "?s4(0 := AAdded 4 8 0 4096)"
  let ?s6 = "?s5(1 := AAdded 8 8 0 4100)"
  let ?s7 = "?s6(0 := ADone 4 8 (Some 4096))"
  let ?s8 = "?s7(1 := ADone 8 8 (Some 4100))"
  have r1: "at_step\<^sup>*\<^sup>* (at_demo 4096 at_start) (at_demo 4096 ?s1)"
    using demo_pad [of at_start 0 4 8 4096] by (simp add: at_start_def arena_padding_def)
  have r2: "at_step\<^sup>*\<^sup>* (at_demo 4096 ?s1) (at_demo 4096 ?s2)"
    using demo_pad [of ?s1 1 8 8 4096] by (simp add: at_start_def arena_padding_def)
  have r3: "at_step\<^sup>*\<^sup>* (at_demo 4096 ?s2) (at_demo 4096 ?s3)" by (rule demo_check) simp_all
  have r4: "at_step\<^sup>*\<^sup>* (at_demo 4096 ?s3) (at_demo 4096 ?s4)" by (rule demo_check) simp_all
  have r5: "at_step\<^sup>*\<^sup>* (at_demo 4096 ?s4) (at_demo 4100 ?s5)" by (rule demo_add) simp_all
  have r6: "at_step\<^sup>*\<^sup>* (at_demo 4100 ?s5) (at_demo 4108 ?s6)" by (rule demo_add) simp_all
  have r7: "at_step\<^sup>*\<^sup>* (at_demo 4108 ?s6) (at_demo 4108 ?s7)"
    using demo_finish [of ?s6 0 4 8 0 4096 4108] by simp
  have r8: "at_step\<^sup>*\<^sup>* (at_demo 4108 ?s7) (at_demo 4108 ?s8)"
    using demo_finish [of ?s7 1 8 8 0 4100 4108] by simp
  have e: "at_demo 4108 ?s8 = at_stop" by (simp add: at_stop_def fun_eq_iff at_demo_def)
  have "at_step\<^sup>*\<^sup>* (at_demo 4096 at_start) (at_demo 4096 ?s4)"
    by (rule rtranclp_trans [OF r1 rtranclp_trans [OF r2 rtranclp_trans [OF r3 r4]]])
  moreover have "at_step\<^sup>*\<^sup>* (at_demo 4096 ?s4) (at_demo 4108 ?s8)"
    by (rule rtranclp_trans [OF r5 rtranclp_trans [OF r6 rtranclp_trans [OF r7 r8]]])
  ultimately show ?thesis unfolding e by (rule rtranclp_trans)
qed

lemma at_demo_init: "at_init {0, 1} (at_demo 4096 at_start)"
  by (simp add: at_init_def at_fits_def at_demo_def at_start_def)

theorem at_blocks_disjoint_witness:
  "at_pc at_stop 0 = ADone 4 8 (Some 4096) \<and> at_pc at_stop 1 = ADone 8 8 (Some 4100) \<and>
   (unat (4096 :: umm) + unat (4 :: u64) \<le> unat (4100 :: umm) \<or>
    unat (4100 :: umm) + unat (8 :: u64) \<le> unat (4096 :: umm)) \<and>
   at_data at_stop \<le> 4096 \<and> unat (4096 :: umm) + unat (4 :: u64) \<le> unat (at_end at_stop)"
proof -
  have pc: "at_pc at_stop 0 = ADone 4 8 (Some 4096)" "at_pc at_stop 1 = ADone 8 8 (Some 4100)"
    by (simp_all add: at_stop_def at_demo_def)
  with at_blocks_disjoint [OF at_demo_init at_demo_run pc] show ?thesis by simp
qed

lemma at_unaligned_block:
  "\<exists>T s t. at_init T s \<and> at_step\<^sup>*\<^sup>* s t \<and> at_pc t 1 = ADone 8 8 (Some 4100) \<and> (4100::umm) mod 8 \<noteq> 0"
  using at_demo_init at_demo_run
  by (intro exI [of _ "{0, 1}"] exI [of _ "at_demo 4096 at_start"] exI [of _ at_stop])
    (simp add: at_stop_def at_demo_def)

end
