(* ===== verification/Dynarray.thy ===== *)
theory Dynarray
  imports Contracts
begin

text \<open>
  The growable array of lib/array.h. The header sits in front of the elements; the model keeps
  both in one record. A slot that was allocated and never written is \<open>None\<close>. A pointer to an
  array is an \<open>option\<close> (\<open>None\<close> is null), so an operation that can fail has type
  \<open>\<dots> option option\<close> or returns the record itself when the result cannot be null.

  Counts are naturals: they are bounded by the memory of the array. The macros reach through the
  pointer, so on a null array, outside \<open>[0, len)\<close> or with a null allocator they have no defined
  result.
\<close>

section \<open>Definitions\<close>

record 'a dynarray =
  da_len :: nat
  da_cap :: nat
  da_allocator :: nat
  da_slots :: "'a option list"

type_synonym 'a darray = "'a dynarray option"

definition array_len :: "'a darray \<Rightarrow> nat" where
  "array_len a = (case a of None \<Rightarrow> 0 | Some h \<Rightarrow> da_len h)"

definition array_cap :: "'a darray \<Rightarrow> nat" where
  "array_cap a = (case a of None \<Rightarrow> 0 | Some h \<Rightarrow> da_cap h)"

definition array_alc :: "'a darray \<Rightarrow> nat" where
  "array_alc a = (case a of None \<Rightarrow> 0 | Some h \<Rightarrow> da_allocator h)"

text \<open>
  \<open>vd_array_grow\<close>. Reallocation keeps the first \<open>cap\<close> slots and adds unwritten ones; a fresh
  header starts with length 0 and records the allocator. Calling through a null allocator is
  undefined.
\<close>

definition grown_cap :: "nat \<Rightarrow> nat \<Rightarrow> nat" where
  "grown_cap cap mincap = (if mincap < 2 * cap then 2 * cap else if mincap < 4 then 4 else mincap)"

definition vd_array_grow :: "'a darray \<Rightarrow> nat \<Rightarrow> nat \<Rightarrow> nat \<Rightarrow> 'a darray option" where
  "vd_array_grow a addlen mincap allocator =
     (let min_len = array_len a + addlen;
          mincap1 = (if mincap < min_len then min_len else mincap) in
      if mincap1 \<le> array_cap a then Some a
      else if allocator = 0 then None
      else
        let mincap2 = grown_cap (array_cap a) mincap1 in
        Some (Some (case a of
          None \<Rightarrow> \<lparr>da_len = 0, da_cap = mincap2, da_allocator = allocator,
                    da_slots = replicate mincap2 None\<rparr>
        | Some h \<Rightarrow> h\<lparr>da_cap := mincap2,
                       da_slots := da_slots h @ replicate (mincap2 - da_cap h) None\<rparr>)))"

definition array_init :: "nat \<Rightarrow> 'a darray option" where
  "array_init allocator = vd_array_grow None 1 0 allocator"

definition array_check_grow :: "'a darray \<Rightarrow> nat \<Rightarrow> 'a darray option" where
  "array_check_grow a n =
     (case a of
        None \<Rightarrow> vd_array_grow a n 0 (array_alc a)
      | Some h \<Rightarrow> if da_cap h < da_len h + n then vd_array_grow a n 0 (array_alc a) else Some a)"

definition array_add :: "'a darray \<Rightarrow> 'a \<Rightarrow> 'a darray option" where
  "array_add a v =
     do { a' \<leftarrow> array_check_grow a 1;
          h \<leftarrow> a';
          Some (Some (h\<lparr>da_len := da_len h + 1, da_slots := (da_slots h)[da_len h := Some v]\<rparr>)) }"

text \<open>\<open>VD_ARRAY_PUSH\<close> and \<open>VD_ARRAY_ADDP\<close>: the new slot is left as it is.\<close>

definition array_push :: "'a darray \<Rightarrow> 'a darray option" where
  "array_push a =
     do { a' \<leftarrow> array_check_grow a 1; h \<leftarrow> a'; Some (Some (h\<lparr>da_len := da_len h + 1\<rparr>)) }"

definition array_addn :: "'a darray \<Rightarrow> nat \<Rightarrow> 'a darray option" where
  "array_addn a n =
     do { a' \<leftarrow> array_check_grow a n; h \<leftarrow> a'; Some (Some (h\<lparr>da_len := da_len h + n\<rparr>)) }"

definition array_get :: "'a darray \<Rightarrow> nat \<Rightarrow> 'a option" where
  "array_get a i = do { h \<leftarrow> a; if i < da_len h then da_slots h ! i else None }"

definition array_set :: "'a darray \<Rightarrow> nat \<Rightarrow> 'a \<Rightarrow> 'a darray option" where
  "array_set a i v =
     do { h \<leftarrow> a; if i < da_len h then Some (Some (h\<lparr>da_slots := (da_slots h)[i := Some v]\<rparr>)) else None }"

definition array_clear :: "'a darray \<Rightarrow> 'a darray option" where
  "array_clear a = do { h \<leftarrow> a; Some (Some (h\<lparr>da_len := 0\<rparr>)) }"

definition array_pop :: "'a darray \<Rightarrow> ('a \<times> 'a darray) option" where
  "array_pop a =
     do { h \<leftarrow> a;
          if da_len h = 0 then None
          else do { v \<leftarrow> da_slots h ! (da_len h - 1); Some (v, Some (h\<lparr>da_len := da_len h - 1\<rparr>)) } }"

definition array_last :: "'a darray \<Rightarrow> 'a option" where
  "array_last a = do { h \<leftarrow> a; if da_len h = 0 then None else da_slots h ! (da_len h - 1) }"

text \<open>The index of the two deletions is an \<open>int\<close> at the call sites, so it may be negative.\<close>

definition array_delswap :: "'a darray \<Rightarrow> int \<Rightarrow> 'a darray option" where
  "array_delswap a i =
     do { h \<leftarrow> a;
          v \<leftarrow> array_last a;
          if 0 \<le> i \<and> i < int (da_len h) then
            Some (Some (h\<lparr>da_slots := (da_slots h)[nat i := Some v], da_len := da_len h - 1\<rparr>))
          else None }"

definition array_deln :: "'a darray \<Rightarrow> nat \<Rightarrow> nat \<Rightarrow> 'a darray option" where
  "array_deln a i n =
     do { h \<leftarrow> a;
          if i + n \<le> da_len h then
            Some (Some (h\<lparr>da_slots := take i (da_slots h)
                            @ take (da_len h - n - i) (drop (i + n) (da_slots h))
                            @ drop (da_len h - n) (da_slots h),
                          da_len := da_len h - n\<rparr>))
          else None }"

definition array_del :: "'a darray \<Rightarrow> nat \<Rightarrow> 'a darray option" where
  "array_del a i = array_deln a i 1"

text \<open>
  The loop \<open>for (i = 0; i < array_len(a); ++i)\<close> over the elements, as the clients write it, from
  index \<open>i\<close> with \<open>n\<close> elements to go; and the elements a callee reads from an array and its
  length.
\<close>

fun array_each :: "('a \<Rightarrow> 's \<Rightarrow> 's option) \<Rightarrow> 'a darray \<Rightarrow> nat \<Rightarrow> nat \<Rightarrow> 's \<Rightarrow> 's option" where
  "array_each f a i 0 s = Some s"
| "array_each f a i (Suc n) s = do { x \<leftarrow> array_get a i; s' \<leftarrow> f x s; array_each f a (Suc i) n s' }"

definition array_read :: "'a darray \<Rightarrow> 'a list option" where
  "array_read a = those (map (array_get a) [0..<array_len a])"

section \<open>Abstraction\<close>

text \<open>A live array holds \<open>xs\<close>: allocated, and its first \<open>len\<close> slots are the elements.\<close>

definition holds :: "'a darray \<Rightarrow> 'a list \<Rightarrow> bool" where
  "holds a xs \<longleftrightarrow> (\<exists>h. a = Some h \<and> da_allocator h \<noteq> 0 \<and> da_len h = length xs \<and>
     length xs \<le> da_cap h \<and> length (da_slots h) = da_cap h \<and> take (length xs) (da_slots h) = map Some xs)"

lemma holds_len: "holds a xs \<Longrightarrow> array_len a = length xs"
  by (auto simp: holds_def array_len_def)

lemma holds_slot: "holds (Some h) xs \<Longrightarrow> i < length xs \<Longrightarrow> da_slots h ! i = Some (xs ! i)"
  unfolding holds_def by (metis nth_map nth_take option.inject)

lemma holds_get: "holds a xs \<Longrightarrow> array_get a i = (if i < length xs then Some (xs ! i) else None)"
  using holds_slot by (cases a) (auto simp: array_get_def holds_def)

lemma array_each_run:
  "holds a xs \<Longrightarrow> i + n = length xs \<Longrightarrow> array_each f a i n s = run_ops f (drop i xs) s"
proof (induction n arbitrary: i s)
  case (Suc n)
  then have "drop i xs = xs ! i # drop (Suc i) xs" by (simp add: Cons_nth_drop_Suc)
  with Suc show ?case by (cases "f (xs ! i) s") (simp_all add: holds_get)
qed simp

lemma array_each_holds: "holds a xs \<Longrightarrow> array_each f a 0 (array_len a) s = run_ops f xs s"
  by (simp add: array_each_run holds_len)

lemma those_map_Some: "those (map (\<lambda>i. Some (f i)) is) = Some (map f is)"
  by (induction "is") auto

lemma array_read_holds: "holds a xs \<Longrightarrow> array_read a = Some xs"
proof -
  assume h: "holds a xs"
  then have "map (array_get a) [0..<array_len a] = map (\<lambda>i. Some (xs ! i)) [0..<length xs]"
    by (simp add: holds_len holds_get)
  then show ?thesis by (simp add: array_read_def those_map_Some map_nth)
qed

lemma holds_unique: "holds a xs \<Longrightarrow> holds a ys \<Longrightarrow> xs = ys"
  by (auto simp: holds_def inj_map_eq_map [OF inj_Some])

lemma array_init_holds:
  "alc \<noteq> 0 \<Longrightarrow> \<exists>a. array_init alc = Some a \<and> holds a [] \<and> array_cap a \<le> 4"
  by (simp add: array_init_def vd_array_grow_def array_len_def array_cap_def grown_cap_def holds_def)

lemma check_grow_holds:
  assumes "holds a xs"
  shows "\<exists>h. array_check_grow a n = Some (Some h) \<and> holds (Some h) xs \<and> length xs + n \<le> da_cap h"
proof -
  obtain h where h: "a = Some h" and inv: "holds (Some h) xs" using assms by (auto simp: holds_def)
  show ?thesis
  proof (cases "da_cap h < da_len h + n")
    case True
    let ?c = "grown_cap (da_cap h) (da_len h + n)"
    have c: "da_len h + n \<le> ?c" "da_cap h \<le> ?c" using True by (auto simp: grown_cap_def)
    let ?h = "h\<lparr>da_cap := ?c, da_slots := da_slots h @ replicate (?c - da_cap h) None\<rparr>"
    have "array_check_grow a n = Some (Some ?h)"
      using True inv unfolding array_check_grow_def vd_array_grow_def h
      by (simp add: array_len_def array_cap_def array_alc_def holds_def Let_def)
    moreover have "holds (Some ?h) xs" using inv c by (simp add: holds_def)
    ultimately show ?thesis using c inv by (auto simp: holds_def)
  next
    case False
    then show ?thesis using inv by (auto simp: array_check_grow_def h holds_def)
  qed
qed

section \<open>Operations on the abstraction\<close>

lemma array_add_holds: "holds a xs \<Longrightarrow> \<exists>a'. array_add a v = Some a' \<and> holds a' (xs @ [v])"
proof -
  assume "holds a xs"
  then obtain h where h: "array_check_grow a 1 = Some (Some h)" "holds (Some h) xs" "length xs + 1 \<le> da_cap h"
    using check_grow_holds by blast
  let ?h = "h\<lparr>da_len := da_len h + 1, da_slots := (da_slots h)[da_len h := Some v]\<rparr>"
  have "holds (Some ?h) (xs @ [v])"
    using h(2,3) take_Suc_update [of "length xs" "da_slots h"] by (simp add: holds_def)
  with h(1) show ?thesis by (auto simp: array_add_def)
qed

lemma array_push_holds:
  "holds a xs \<Longrightarrow> \<exists>h. array_push a = Some (Some h) \<and> da_len h = Suc (length xs) \<and>
     (\<forall>v. holds (Some (h\<lparr>da_slots := (da_slots h)[length xs := Some v]\<rparr>)) (xs @ [v]))"
proof -
  assume "holds a xs"
  then obtain h where h: "array_check_grow a 1 = Some (Some h)" "holds (Some h) xs" "length xs + 1 \<le> da_cap h"
    using check_grow_holds by blast
  let ?h = "h\<lparr>da_len := da_len h + 1\<rparr>"
  have "holds (Some (?h\<lparr>da_slots := (da_slots h)[length xs := Some v]\<rparr>)) (xs @ [v])" for v
    using h(2,3) take_Suc_update [of "length xs" "da_slots h"] by (simp add: holds_def)
  with h show ?thesis by (auto simp: array_push_def holds_def)
qed

lemma array_set_holds:
  "holds a xs \<Longrightarrow> i < length xs \<Longrightarrow> \<exists>a'. array_set a i v = Some a' \<and> holds a' (xs[i := v])"
  by (auto simp: holds_def array_set_def map_update take_update_swap)

lemma array_last_holds: "holds a xs \<Longrightarrow> xs \<noteq> [] \<Longrightarrow> array_last a = Some (last xs)"
proof -
  assume a: "holds a xs" and ne: "xs \<noteq> []"
  then obtain h where h: "a = Some h" "da_len h = length xs" by (auto simp: holds_def)
  have "da_slots h ! (length xs - 1) = Some (last xs)"
    using a ne holds_slot [of h xs "length xs - 1"] by (simp add: h last_conv_nth)
  then show ?thesis using ne by (simp add: array_last_def h)
qed

lemma array_pop_holds:
  "holds a xs \<Longrightarrow> xs \<noteq> [] \<Longrightarrow> \<exists>a'. array_pop a = Some (last xs, a') \<and> holds a' (butlast xs)"
proof -
  assume a: "holds a xs" and ne: "xs \<noteq> []"
  then obtain h where h: "a = Some h" by (auto simp: holds_def)
  have "da_slots h ! (length xs - 1) = Some (last xs)"
    using a ne holds_slot [of h xs "length xs - 1"] by (simp add: h last_conv_nth)
  moreover have "take (length xs - 1) (da_slots h) = map Some (butlast xs)"
    using a by (simp add: h holds_def map_butlast butlast_conv_take) (metis diff_le_self min_absorb1 take_map take_take)
  ultimately show ?thesis using a ne by (auto simp: array_pop_def h holds_def)
qed

lemma array_clear_holds: "holds a xs \<Longrightarrow> \<exists>a'. array_clear a = Some a' \<and> holds a' []"
  by (auto simp: holds_def array_clear_def)

lemma array_delswap_holds:
  assumes "holds a xs" and "0 \<le> i" and "nat i < length xs"
  shows "\<exists>a'. array_delswap a i = Some a' \<and> holds a' (butlast (xs[nat i := last xs]))"
proof -
  obtain h where h: "a = Some h" and inv: "holds (Some h) xs" using assms(1) by (auto simp: holds_def)
  have "xs \<noteq> []" using assms(3) by auto
  then have last: "array_last (Some h) = Some (last xs)" using inv by (intro array_last_holds)
  let ?h = "h\<lparr>da_slots := (da_slots h)[nat i := Some (last xs)], da_len := da_len h - 1\<rparr>"
  have "take (length xs - 1) ((da_slots h)[nat i := Some (last xs)])
      = butlast (take (length xs) ((da_slots h)[nat i := Some (last xs)]))"
    using inv by (simp add: holds_def butlast_take)
  also have "\<dots> = map Some (butlast (xs[nat i := last xs]))"
    using inv by (simp add: holds_def take_update_swap map_butlast map_update)
  finally have "holds (Some ?h) (butlast (xs[nat i := last xs]))"
    using inv by (simp add: holds_def le_diff_conv)
  then show ?thesis
    using last assms(2,3) inv by (auto simp: array_delswap_def h holds_def)
qed

lemma array_deln_holds:
  assumes "holds a xs" and "i + n \<le> length xs"
  shows "\<exists>a'. array_deln a i n = Some a' \<and> holds a' (take i xs @ drop (i + n) xs)"
proof -
  obtain h where h: "a = Some h" and inv: "holds (Some h) xs" using assms(1) by (auto simp: holds_def)
  let ?s = "da_slots h"
  let ?t = "take i ?s @ take (length xs - n - i) (drop (i + n) ?s) @ drop (length xs - n) ?s"
  have ts: "take (length xs) ?s = map Some xs" and ls: "length xs \<le> length ?s"
    using inv by (auto simp: holds_def)
  have a: "take i ?s = map Some (take i xs)"
    using ts assms(2) by (metis add_leD1 min_absorb1 take_map take_take)
  have b: "take (length xs - n - i) (drop (i + n) ?s) = map Some (drop (i + n) xs)"
    using ts by (metis add.commute diff_diff_eq drop_map drop_take)
  have "take (length xs - n) ?t = map Some (take i xs @ drop (i + n) xs)"
    unfolding a b using assms(2) by simp
  moreover have "length ?t = length ?s" using assms(2) ls by simp
  ultimately show ?thesis
    using inv assms(2) by (auto simp: array_deln_def h holds_def)
qed

section \<open>The contract of a growable sequence\<close>

locale sequence =
  fixes snoc :: "'s \<Rightarrow> 'a \<Rightarrow> 's option" and rep :: "'s \<Rightarrow> 'a list \<Rightarrow> bool"
  assumes snoc_rep: "rep s xs \<Longrightarrow> \<exists>s'. snoc s v = Some s' \<and> rep s' (xs @ [v])"
    and rep_unique: "rep s xs \<Longrightarrow> rep s ys \<Longrightarrow> xs = ys"
begin

lemma snoc_all: "rep s xs \<Longrightarrow> \<exists>s'. run_ops (\<lambda>v s. snoc s v) vs s = Some s' \<and> rep s' (xs @ vs)"
proof (induction vs arbitrary: s xs)
  case (Cons v vs)
  obtain s1 where "snoc s v = Some s1" "rep s1 (xs @ [v])" using snoc_rep [OF Cons.prems] by blast
  with Cons.IH [of s1 "xs @ [v]"] show ?case by simp
qed simp

lemma snoc_result: "rep s xs \<Longrightarrow> snoc s v = Some s' \<Longrightarrow> rep s' (xs @ [v])"
  using snoc_rep [of s xs v] by auto

end

interpretation arr: sequence array_add holds
  by unfold_locales (auto intro: array_add_holds dest: holds_unique)

lemma array_add_cap:
  assumes "holds a xs" and "array_cap a \<le> max 4 (2 * length xs)" and "array_add a v = Some a'"
  shows "array_cap a' \<le> max 4 (2 * Suc (length xs))"
  using assms
  by (cases a)
    (auto simp: holds_def array_add_def array_check_grow_def vd_array_grow_def array_cap_def
      array_len_def grown_cap_def Let_def bind_Some_iff split: if_splits)

lemma array_add_all_cap:
  "holds a xs \<Longrightarrow> array_cap a \<le> max 4 (2 * length xs) \<Longrightarrow>
     run_ops (\<lambda>v a. array_add a v) vs a = Some a' \<Longrightarrow> array_cap a' \<le> max 4 (2 * (length xs + length vs))"
proof (induction vs arbitrary: a xs)
  case (Cons v vs)
  obtain a1 where a1: "array_add a v = Some a1" "run_ops (\<lambda>v a. array_add a v) vs a1 = Some a'"
    using Cons.prems(3) by (auto simp: bind_Some_iff)
  have "holds a1 (xs @ [v])" using arr.snoc_result [OF Cons.prems(1) a1(1)] .
  moreover have "array_cap a1 \<le> max 4 (2 * length (xs @ [v]))"
    using array_add_cap [OF Cons.prems(1,2) a1(1)] by simp
  ultimately show ?case using Cons.IH [of a1 "xs @ [v]"] a1(2) by simp
qed simp

text \<open>C19. From initialisation on, any number of additions succeeds and the array holds exactly the
  added elements in order; its capacity stays within twice the length, or four.\<close>

theorem array_add_all_correct:
  fixes vs :: "'a list"
  assumes "alc \<noteq> 0"
  shows "\<exists>a a'. array_init alc = Some a \<and> run_ops (\<lambda>v a. array_add a v) vs a = Some a' \<and>
    holds a' vs \<and> (\<forall>i < length vs. array_get a' i = Some (vs ! i)) \<and>
    array_cap a' \<le> max 4 (2 * length vs)"
proof -
  obtain a :: "'a darray" where a: "array_init alc = Some a" "holds a []" "array_cap a \<le> 4"
    using array_init_holds [OF assms] by blast
  obtain a' where "run_ops (\<lambda>v a. array_add a v) vs a = Some a'" "holds a' vs"
    using arr.snoc_all [OF a(2), of vs] by auto
  then show ?thesis using a array_add_all_cap [OF a(2), of vs a'] by (auto simp: holds_get)
qed

theorem array_add_all_correct_witness:
  "\<exists>a a'. array_init 1 = Some a \<and> run_ops (\<lambda>v a. array_add a v) [10, 20, 30, 40, 50 :: int] a = Some a' \<and>
    holds a' [10, 20, 30, 40, 50] \<and>
    (\<forall>i < length [10, 20, 30, 40, 50 :: int]. array_get a' i = Some ([10, 20, 30, 40, 50] ! i)) \<and>
    array_cap a' \<le> max 4 (2 * length [10, 20, 30, 40, 50 :: int])"
  by (rule array_add_all_correct) simp

text \<open>The three ways to delete from a live array: the last element, a range that keeps the
  order, and one element replaced by the last.\<close>

theorem array_delete_correct:
  assumes "holds a xs" and "i + n \<le> length xs" and "j < length xs"
  shows "(\<exists>a'. array_deln a i n = Some a' \<and> holds a' (take i xs @ drop (i + n) xs)) \<and>
    (\<exists>a'. array_pop a = Some (last xs, a') \<and> holds a' (butlast xs)) \<and>
    (\<exists>a'. array_delswap a (int j) = Some a' \<and> holds a' (butlast (xs[j := last xs])))"
  using assms array_deln_holds [OF assms(1,2)] array_pop_holds [OF assms(1)]
    array_delswap_holds [OF assms(1), of "int j"] by fastforce

definition demo_array :: "nat darray" where
  "demo_array = Some \<lparr>da_len = 3, da_cap = 4, da_allocator = 1,
     da_slots = [Some 10, Some 20, Some 30, None]\<rparr>"

theorem array_delete_correct_witness:
  "(\<exists>a'. array_deln demo_array 0 2 = Some a' \<and> holds a' (take 0 [10, 20, 30] @ drop (0 + 2) [10, 20, 30])) \<and>
    (\<exists>a'. array_pop demo_array = Some (last [10, 20, 30], a') \<and> holds a' (butlast [10, 20, 30])) \<and>
    (\<exists>a'. array_delswap demo_array (int 1) = Some a' \<and>
       holds a' (butlast ([10, 20, 30][1 := last [10, 20, 30]])))"
  by (rule array_delete_correct) (simp_all add: demo_array_def holds_def)

text \<open>Popping an empty array has no defined result: the length wraps and the read is outside.\<close>

lemma array_pop_empty: "holds a [] \<Longrightarrow> array_pop a = None"
  by (auto simp: holds_def array_pop_def)

end
