(* ===== verification/Delegate.thy ===== *)
theory Delegate
  imports Dynarray "HOL-Library.Multiset"
begin

text \<open>
  Hooks and callbacks: lib/delegate.h. A hook is a growable array of subscriptions, each a
  function and the data passed to it. What a subscriber does is a parameter: a function on the
  state of the rest of the program, applied to the arguments and the user data. Subscribers do
  not change the hook they are called from.

  The lemmas say in which order and how often the subscribers run, and what
  \<open>VD_HOOK_UNSUBSCRIBE\<close> does in each case: its guard \<open>if (_f)\<close> is true for \<open>-1\<close> and false
  for \<open>0\<close>.
\<close>

section \<open>Definitions\<close>

record ('f, 'u) hook_entry =
  he_func :: 'f
  he_usrdata :: 'u

type_synonym ('f, 'u) hook = "('f, 'u) hook_entry darray"

definition hook_init :: "nat \<Rightarrow> ('f, 'u) hook option" where
  "hook_init allocator = array_init allocator"

text \<open>Push an unwritten slot, then write its two fields.\<close>

definition hook_subscribe :: "('f, 'u) hook \<Rightarrow> 'f \<Rightarrow> 'u \<Rightarrow> ('f, 'u) hook option" where
  "hook_subscribe hk f u =
     (let lastidx = array_len hk in
      do { hk' \<leftarrow> array_push hk; array_set hk' lastidx \<lparr>he_func = f, he_usrdata = u\<rparr> })"

fun hook_index :: "('f, 'u) hook \<Rightarrow> 'f \<Rightarrow> nat \<Rightarrow> nat \<Rightarrow> int option" where
  "hook_index hk f i 0 = Some (- 1)"
| "hook_index hk f i (Suc n) =
     do { e \<leftarrow> array_get hk i;
          if he_func e = f then Some (int i) else hook_index hk f (Suc i) n }"

definition hook_unsubscribe :: "('f, 'u) hook \<Rightarrow> 'f \<Rightarrow> ('f, 'u) hook option" where
  "hook_unsubscribe hk f =
     do { fi \<leftarrow> hook_index hk f 0 (array_len hk);
          if fi \<noteq> 0 then array_delswap hk fi else Some hk }"

fun hook_invoke_loop :: "('f \<Rightarrow> 'u \<Rightarrow> 's \<Rightarrow> 's) \<Rightarrow> ('f, 'u) hook \<Rightarrow> nat \<Rightarrow> nat \<Rightarrow> 's \<Rightarrow> 's option" where
  "hook_invoke_loop call hk i 0 s = Some s"
| "hook_invoke_loop call hk i (Suc n) s =
     do { e \<leftarrow> array_get hk i; hook_invoke_loop call hk (Suc i) n (call (he_func e) (he_usrdata e) s) }"

definition hook_invoke :: "('f \<Rightarrow> 'u \<Rightarrow> 's \<Rightarrow> 's) \<Rightarrow> ('f, 'u) hook \<Rightarrow> 's \<Rightarrow> 's option" where
  "hook_invoke call hk s = hook_invoke_loop call hk 0 (array_len hk) s"

text \<open>\<open>VD_HOOK_INVOKE_RET\<close> keeps the value of the last call, \<open>VD_HOOK_INVOKE_RET_CALLBACK\<close>
  passes each value on.\<close>

fun hook_invoke_ret_loop ::
  "('f \<Rightarrow> 'u \<Rightarrow> 's \<Rightarrow> 'r \<times> 's) \<Rightarrow> ('f, 'u) hook \<Rightarrow> nat \<Rightarrow> nat \<Rightarrow> 'r \<Rightarrow> 's \<Rightarrow> ('r \<times> 's) option" where
  "hook_invoke_ret_loop call hk i 0 ret s = Some (ret, s)"
| "hook_invoke_ret_loop call hk i (Suc n) ret s =
     do { e \<leftarrow> array_get hk i;
          let (ret', s') = call (he_func e) (he_usrdata e) s;
          hook_invoke_ret_loop call hk (Suc i) n ret' s' }"

definition hook_invoke_ret ::
  "('f \<Rightarrow> 'u \<Rightarrow> 's \<Rightarrow> 'r \<times> 's) \<Rightarrow> ('f, 'u) hook \<Rightarrow> 'r \<Rightarrow> 's \<Rightarrow> ('r \<times> 's) option" where
  "hook_invoke_ret call hk ret s = hook_invoke_ret_loop call hk 0 (array_len hk) ret s"

definition hook_invoke_ret_callback ::
  "('f \<Rightarrow> 'u \<Rightarrow> 's \<Rightarrow> 'r \<times> 's) \<Rightarrow> ('r \<Rightarrow> 's \<Rightarrow> 's) \<Rightarrow> ('f, 'u) hook \<Rightarrow> 's \<Rightarrow> 's option" where
  "hook_invoke_ret_callback call retcallback hk s =
     hook_invoke (\<lambda>f u s. let (r, s') = call f u s in retcallback r s') hk s"

text \<open>A callback holds one entry; a null function is not called.\<close>

record ('f, 'u) callback =
  cb_func :: "'f option"
  cb_usrdata :: 'u

definition callback_set :: "('f, 'u) callback \<Rightarrow> 'f option \<Rightarrow> 'u \<Rightarrow> ('f, 'u) callback" where
  "callback_set cb f u = cb\<lparr>cb_func := f, cb_usrdata := u\<rparr>"

definition callback_invoke :: "('f \<Rightarrow> 'u \<Rightarrow> 's \<Rightarrow> 's) \<Rightarrow> ('f, 'u) callback \<Rightarrow> 's \<Rightarrow> 's" where
  "callback_invoke call cb s = (case cb_func cb of None \<Rightarrow> s | Some f \<Rightarrow> call f (cb_usrdata cb) s)"

section \<open>Subscribing and invoking\<close>

lemma hook_subscribe_holds:
  "holds hk es \<Longrightarrow> \<exists>hk'. hook_subscribe hk f u = Some hk' \<and>
     holds hk' (es @ [\<lparr>he_func = f, he_usrdata = u\<rparr>])"
proof -
  assume a: "holds hk es"
  obtain h where h: "array_push hk = Some (Some h)" "da_len h = Suc (length es)"
    "\<forall>v. holds (Some (h\<lparr>da_slots := (da_slots h)[length es := Some v]\<rparr>)) (es @ [v])"
    using array_push_holds [OF a] by blast
  then show ?thesis
    by (simp add: hook_subscribe_def holds_len [OF a] array_set_def)
qed

lemma hook_invoke_loop_eq:
  "holds hk es \<Longrightarrow> i + n = length es \<Longrightarrow> hook_invoke_loop call hk i n s =
     Some (fold (\<lambda>e. call (he_func e) (he_usrdata e)) (drop i es) s)"
proof (induction n arbitrary: i s)
  case (Suc n)
  then have "drop i es = es ! i # drop (Suc i) es" by (simp add: Cons_nth_drop_Suc)
  with Suc show ?case by (simp add: holds_get)
qed simp

lemma hook_invoke_eq:
  "holds hk es \<Longrightarrow> hook_invoke call hk s = Some (fold (\<lambda>e. call (he_func e) (he_usrdata e)) es s)"
  by (simp add: hook_invoke_def holds_len hook_invoke_loop_eq)

interpretation hook: sequence "\<lambda>hk (e :: ('f, 'u) hook_entry). hook_subscribe hk (he_func e) (he_usrdata e)" holds
proof unfold_locales
  fix hk :: "('f, 'u) hook" and es and e :: "('f, 'u) hook_entry"
  assume hk: "holds hk es"
  obtain f u where e: "e = \<lparr>he_func = f, he_usrdata = u\<rparr>" by (cases e)
  show "\<exists>hk'. hook_subscribe hk (he_func e) (he_usrdata e) = Some hk' \<and> holds hk' (es @ [e])"
    using hook_subscribe_holds [OF hk, of f u] by (simp add: e)
qed (rule holds_unique)

text \<open>C21. After any sequence of subscriptions, an invocation calls every subscriber once, in the
  order of subscription.\<close>

theorem hook_subscribe_invoke:
  fixes es :: "('f, 'u) hook_entry list"
  assumes "alc \<noteq> 0"
  shows "\<exists>hk hk'. hook_init alc = Some hk \<and>
    run_ops (\<lambda>e hk. hook_subscribe hk (he_func e) (he_usrdata e)) es hk = Some hk' \<and>
    hook_invoke (\<lambda>f u log. log @ [(f, u)]) hk' [] = Some (map (\<lambda>e. (he_func e, he_usrdata e)) es)"
proof -
  obtain hk :: "('f, 'u) hook" where hk: "hook_init alc = Some hk" "holds hk []"
    using array_init_holds [OF assms] unfolding hook_init_def by blast
  then obtain hk' where hk': "run_ops (\<lambda>e hk. hook_subscribe hk (he_func e) (he_usrdata e)) es hk = Some hk'"
    "holds hk' es"
    using hook.snoc_all [OF hk(2), of es] by auto
  have "fold (\<lambda>(e :: ('f, 'u) hook_entry) log. log @ [(he_func e, he_usrdata e)]) es log =
      log @ map (\<lambda>e. (he_func e, he_usrdata e)) es" for log
    by (induction es arbitrary: log) auto
  with hk hk' show ?thesis by (simp add: hook_invoke_eq)
qed

theorem hook_subscribe_invoke_witness:
  "\<exists>hk hk'. hook_init 1 = Some hk \<and>
    run_ops (\<lambda>e hk. hook_subscribe hk (he_func e) (he_usrdata e))
      [\<lparr>he_func = ''resize'', he_usrdata = 1 :: nat\<rparr>, \<lparr>he_func = ''close'', he_usrdata = 2\<rparr>] hk = Some hk' \<and>
    hook_invoke (\<lambda>f u log. log @ [(f, u)]) hk' [] =
      Some (map (\<lambda>e. (he_func e, he_usrdata e))
        [\<lparr>he_func = ''resize'', he_usrdata = 1 :: nat\<rparr>, \<lparr>he_func = ''close'', he_usrdata = 2\<rparr>])"
  by (rule hook_subscribe_invoke) simp

section \<open>Unsubscribing\<close>

lemma hook_index_eq:
  "holds hk es \<Longrightarrow> i + n = length es \<Longrightarrow> f \<notin> he_func ` set (take i es) \<Longrightarrow>
     hook_index hk f i n =
       Some (if f \<in> he_func ` set es then int (length (takeWhile (\<lambda>e. he_func e \<noteq> f) es)) else - 1)"
proof (induction n arbitrary: i)
  case (Suc n)
  have es: "es = take i es @ es ! i # drop (Suc i) es" using Suc.prems(2) by (simp add: id_take_nth_drop)
  show ?case
  proof (cases "he_func (es ! i) = f")
    case True
    have "\<And>e. e \<in> set (take i es) \<Longrightarrow> he_func e \<noteq> f" using Suc.prems(3) by blast
    then have "takeWhile (\<lambda>e. he_func e \<noteq> f) (take i es @ es ! i # drop (Suc i) es) = take i es"
      using True by (subst takeWhile_append2) auto
    then have "takeWhile (\<lambda>e. he_func e \<noteq> f) es = take i es" using es by simp
    moreover have "es ! i \<in> set es" using Suc.prems(2) by simp
    ultimately show ?thesis using Suc.prems(1,2) True by (auto simp: holds_get)
  next
    case False
    then have "f \<notin> he_func ` set (take (Suc i) es)"
      using Suc.prems by (auto simp: take_Suc_conv_app_nth)
    then show ?thesis using Suc False by (simp add: holds_get)
  qed
qed (auto simp: image_iff)

text \<open>C22. \<open>VD_HOOK_UNSUBSCRIBE\<close> by the position of the first subscription of the function: at
  position 0 nothing is removed; later, exactly that subscription is removed; without one, the
  macro writes in front of the array.\<close>

theorem hook_unsubscribe_cases:
  fixes f :: 'f
  assumes "holds hk es" and "es \<noteq> []"
  defines "k \<equiv> length (takeWhile (\<lambda>e. he_func e \<noteq> f) es)"
  shows "if f \<notin> he_func ` set es then hook_unsubscribe hk f = None
    else if k = 0 then hook_unsubscribe hk f = Some hk
    else \<exists>hk' es'. hook_unsubscribe hk f = Some hk' \<and> holds hk' es' \<and>
           mset es' = mset es - {#es ! k#} \<and> he_func (es ! k) = f"
proof -
  have fi: "hook_index hk f 0 (array_len hk) =
      Some (if f \<in> he_func ` set es then int k else - 1)"
    using hook_index_eq [OF assms(1), of 0 "length es"] by (simp add: holds_len [OF assms(1)] k_def)
  show ?thesis
  proof (cases "f \<in> he_func ` set es")
    case False
    then show ?thesis
      using fi by (auto simp: hook_unsubscribe_def array_delswap_def bind_eq_None_conv)
  next
    case True
    then obtain a e b where s: "es = a @ e # b" "he_func e = f" "\<forall>x \<in> set a. he_func x \<noteq> f"
      using split_list_first_prop [of es "\<lambda>e. he_func e = f"] by (auto simp: image_iff)
    then have "k = length a" unfolding k_def s(1) by (subst takeWhile_append2) auto
    then have k: "k < length es" "he_func (es ! k) = f" using s by simp_all
    obtain hk' where hk': "array_delswap hk (int k) = Some hk'" "holds hk' (butlast (es[k := last es]))"
      using array_delswap_holds [OF assms(1), of "int k"] k by auto
    have "mset (butlast (es[k := last es])) = mset (es[k := last es]) - {#last es#}"
    proof -
      have ne: "es[k := last es] \<noteq> []" using assms(2) by simp
      have "last (es[k := last es]) = last es"
        using assms(2) by (auto simp: last_list_update)
      then have e: "es[k := last es] = butlast (es[k := last es]) @ [last es]"
        using append_butlast_last_id [OF ne] by simp
      have "mset (es[k := last es]) = mset (butlast (es[k := last es])) + {#last es#}"
        by (subst (1) e) simp
      then show ?thesis by (metis add_diff_cancel_right')
    qed
    also have "\<dots> = mset es - {#es ! k#}" using k by (simp add: mset_update)
    finally show ?thesis using True fi hk' k by (auto simp: hook_unsubscribe_def)
  qed
qed

definition demo_hook :: "(string, nat) hook" where
  "demo_hook = Some \<lparr>da_len = 2, da_cap = 4, da_allocator = 1,
     da_slots = [Some \<lparr>he_func = ''a'', he_usrdata = 1\<rparr>, Some \<lparr>he_func = ''b'', he_usrdata = 2\<rparr>, None, None]\<rparr>"

definition demo_entries :: "(string, nat) hook_entry list" where
  "demo_entries = [\<lparr>he_func = ''a'', he_usrdata = 1\<rparr>, \<lparr>he_func = ''b'', he_usrdata = 2\<rparr>]"

theorem hook_unsubscribe_cases_witness:
  "if ''b'' \<notin> he_func ` set demo_entries then hook_unsubscribe demo_hook ''b'' = None
    else if length (takeWhile (\<lambda>e. he_func e \<noteq> ''b'') demo_entries) = 0
      then hook_unsubscribe demo_hook ''b'' = Some demo_hook
    else \<exists>hk' es'. hook_unsubscribe demo_hook ''b'' = Some hk' \<and> holds hk' es' \<and>
           mset es' = mset demo_entries
             - {#demo_entries ! length (takeWhile (\<lambda>e. he_func e \<noteq> ''b'') demo_entries)#} \<and>
           he_func (demo_entries ! length (takeWhile (\<lambda>e. he_func e \<noteq> ''b'') demo_entries)) = ''b''"
  by (rule hook_unsubscribe_cases) (simp_all add: demo_hook_def demo_entries_def holds_def)

end
