(* ===== verification/Intmap.thy ===== *)
theory Intmap
  imports Hash Contracts
begin

text \<open>
  The integer hash map of lib/intmap.h and lib/intmap.c: a table of entries whose first
  \<open>cap\<close> slots are the buckets and whose free slots take the collisions, linked by \<open>next\<close>.
  A \<open>next\<close> pointer always points into the table, so it is an index. The walks along the
  links are \<open>partial_function\<close>s: on a cyclic chain they do not return.

  The lemmas cover the life the handle map gives this map: insertion of keys that are not
  present, growth, and lookup. They also state what a lookup of an absent key returns, and what
  a deletion does to the entries behind the deleted one.
\<close>

section \<open>Definitions\<close>

record im_entry =
  ie_next :: "nat option"
  ie_used :: bool
  ie_k :: u64
  ie_v :: u64

record vd_intmap =
  im_table :: "im_entry list"
  im_cap :: nat
  im_cap_total :: nat
  im_usecount :: nat
  im_flags :: u32

definition VD_INTMAP_FLAG_NO_AUTOGROW :: u32 where
  "VD_INTMAP_FLAG_NO_AUTOGROW = 1"

definition zero_entry :: im_entry where
  "zero_entry = \<lparr>ie_next = None, ie_used = False, ie_k = 0, ie_v = 0\<rparr>"

text \<open>\<open>0.20f\<close> is \<open>13421773 / 2 ^ 26\<close>.\<close>

definition vd_intmap_init :: "nat \<Rightarrow> u32 \<Rightarrow> vd_intmap" where
  "vd_intmap_init cap flags =
     \<lparr>im_table = replicate cap zero_entry, im_cap = cap - f32_mul_trunc cap 13421773 26,
      im_cap_total = cap, im_usecount = 0, im_flags = flags\<rparr>"

text \<open>The bucket of a key; \<open>hash % map->cap\<close> is undefined for an empty table.\<close>

definition im_index :: "nat \<Rightarrow> u64 \<Rightarrow> nat" where
  "im_index cap k = unat (vd_hash (u64_bytes k) 0xFACE0FF) mod cap"

text \<open>\<open>while (entry->used && entry->k != k)\<close>: the entry it stops at, or none at the end of the
  chain.\<close>

partial_function (option) im_walk :: "im_entry list \<Rightarrow> u64 \<Rightarrow> nat \<Rightarrow> nat option option" where
  "im_walk t k i =
     (if i < length t then
        if ie_used (t ! i) \<and> ie_k (t ! i) \<noteq> k then
          (case ie_next (t ! i) of Some j \<Rightarrow> im_walk t k j | None \<Rightarrow> Some None)
        else Some (Some i)
      else None)"

definition vd_intmap_tryget :: "vd_intmap \<Rightarrow> u64 \<Rightarrow> u64 option option" where
  "vd_intmap_tryget m k =
     (if im_cap m = 0 then None
      else do { r \<leftarrow> im_walk (im_table m) k (im_index (im_cap m) k);
                Some (map_option (\<lambda>i. ie_v (im_table m ! i)) r) })"

text \<open>\<open>while (curr->used && cursor > 0)\<close>, from the top of the table down.\<close>

fun im_scan :: "im_entry list \<Rightarrow> nat \<Rightarrow> nat \<Rightarrow> nat" where
  "im_scan t slot 0 = slot"
| "im_scan t slot (Suc cursor) = (if ie_used (t ! slot) then im_scan t cursor cursor else slot)"

text \<open>\<open>while (chain->next)\<close>.\<close>

partial_function (option) im_last :: "im_entry list \<Rightarrow> nat \<Rightarrow> nat option" where
  "im_last t i =
     (if i < length t then (case ie_next (t ! i) of Some j \<Rightarrow> im_last t j | None \<Rightarrow> Some i) else None)"

text \<open>\<open>vd_intmap_set\<close> after the check for growth; the flag is the returned 1 or 0.\<close>

definition im_insert :: "vd_intmap \<Rightarrow> u64 \<Rightarrow> u64 \<Rightarrow> (bool \<times> vd_intmap) option" where
  "im_insert m k v =
     (if im_cap m = 0 then None
      else
        let t = im_table m;
            existing = im_index (im_cap m) k;
            new = \<lparr>ie_next = None, ie_used = True, ie_k = k, ie_v = v\<rparr>;
            store = (\<lambda>t c. (True, m\<lparr>im_table := t[c := new], im_usecount := im_usecount m + 1\<rparr>)) in
        if \<not> existing < length t then None
        else if ie_used (t ! existing) then
          let slot = im_scan t existing (im_cap_total m) in
          if ie_used (t ! slot) then Some (False, m)
          else do { l \<leftarrow> im_last t existing;
                    Some (store (t[l := (t ! l)\<lparr>ie_next := Some slot\<rparr>]) slot) }
        else Some (store t existing))"

text \<open>\<open>vd_intmap_check_grow\<close>; \<open>setf\<close> is the recursive call to \<open>vd_intmap_set\<close>.\<close>

fun im_rehash :: "(vd_intmap \<Rightarrow> u64 \<Rightarrow> u64 \<Rightarrow> (bool \<times> vd_intmap) option) \<Rightarrow>
    im_entry list \<Rightarrow> vd_intmap \<Rightarrow> vd_intmap option" where
  "im_rehash setf [] new_map = Some new_map"
| "im_rehash setf (e # es) new_map =
     (if \<not> ie_used e then im_rehash setf es new_map
      else do { (r, new_map') \<leftarrow> setf new_map (ie_k e) (ie_v e); im_rehash setf es new_map' })"

definition im_check_grow :: "(vd_intmap \<Rightarrow> u64 \<Rightarrow> u64 \<Rightarrow> (bool \<times> vd_intmap) option) \<Rightarrow>
    vd_intmap \<Rightarrow> (bool \<times> vd_intmap) option" where
  "im_check_grow setf m =
     (if im_usecount m \<noteq> im_cap_total m then Some (False, m)
      else do { new_map \<leftarrow> im_rehash setf (im_table m)
                  (vd_intmap_init (im_cap_total m * 2) (im_flags m));
                Some (True, new_map) })"

text \<open>
  \<open>vd_intmap_set\<close> calls \<open>vd_intmap_check_grow\<close>, which calls \<open>vd_intmap_set\<close> on the new
  map. The first argument bounds that nesting; the bound 2 of \<open>vd_intmap_set\<close> is enough, as
  \<open>vd_intmap_set_depth\<close> below shows, because the new map has room.
\<close>

fun im_set :: "nat \<Rightarrow> vd_intmap \<Rightarrow> u64 \<Rightarrow> u64 \<Rightarrow> (bool \<times> vd_intmap) option" where
  "im_set 0 m k v = None"
| "im_set (Suc d) m k v =
     do { m' \<leftarrow> (if im_flags m AND VD_INTMAP_FLAG_NO_AUTOGROW = 0
                 then map_option snd (im_check_grow (im_set d) m) else Some m);
          im_insert m' k v }"

definition vd_intmap_set :: "vd_intmap \<Rightarrow> u64 \<Rightarrow> u64 \<Rightarrow> (bool \<times> vd_intmap) option" where
  "vd_intmap_set m k v = im_set 2 m k v"

definition vd_intmap_del :: "vd_intmap \<Rightarrow> u64 \<Rightarrow> vd_intmap option" where
  "vd_intmap_del m k =
     (if im_cap m = 0 then None
      else do { r \<leftarrow> im_walk (im_table m) k (im_index (im_cap m) k);
                Some (case r of
                  None \<Rightarrow> m
                | Some i \<Rightarrow>
                    m\<lparr>im_table := (im_table m)[i := (im_table m ! i)
                          \<lparr>ie_used := False, ie_k := 0, ie_v := 0\<rparr>],
                      im_usecount := (if 0 < im_usecount m then im_usecount m - 1
                                      else im_usecount m)\<rparr>) })"

section \<open>Chains\<close>

text \<open>\<open>im_chain t i xs\<close>: following \<open>next\<close> from \<open>i\<close> visits exactly \<open>xs\<close>, all in use, and
  ends.\<close>

fun im_chain :: "im_entry list \<Rightarrow> nat \<Rightarrow> nat list \<Rightarrow> bool" where
  "im_chain t i [] = False"
| "im_chain t i (x # xs) = (x = i \<and> i < length t \<and> ie_used (t ! i) \<and>
     (case ie_next (t ! i) of None \<Rightarrow> xs = [] | Some j \<Rightarrow> im_chain t j xs))"

lemma im_chain_nonempty [simp]: "im_chain t i xs \<Longrightarrow> xs \<noteq> []"
  by auto

lemma im_chain_hd: "im_chain t i xs \<Longrightarrow> i \<in> set xs \<and> i < length t \<and> ie_used (t ! i)"
  by (cases xs) auto

lemma im_chain_mem: "im_chain t i xs \<Longrightarrow> j \<in> set xs \<Longrightarrow> j < length t \<and> ie_used (t ! j)"
  by (induction xs arbitrary: i) (auto split: option.splits)

lemma im_chain_unique: "im_chain t i xs \<Longrightarrow> im_chain t i ys \<Longrightarrow> xs = ys"
proof (induction xs arbitrary: i ys)
  case (Cons x xs)
  then show ?case by (cases ys) (auto split: option.splits)
qed simp

lemma im_chain_suffix: "im_chain t i (a @ j # b) \<Longrightarrow> im_chain t j (j # b)"
proof (induction a arbitrary: i)
  case (Cons x a)
  then show ?case by (auto split: option.splits)
qed auto

lemma im_chain_distinct: "im_chain t i xs \<Longrightarrow> distinct xs"
proof (induction xs arbitrary: i)
  case (Cons x xs)
  have "x \<notin> set xs"
  proof
    assume "x \<in> set xs"
    then obtain a b where s: "xs = a @ x # b" by (auto dest: split_list)
    have "im_chain t x (x # b)" "im_chain t x (x # xs)"
      using Cons.prems im_chain_suffix [of t i "x # a" x b] by (auto simp: s)
    then have "x # b = x # xs" by (rule im_chain_unique)
    then show False by (simp add: s)
  qed
  moreover have "distinct xs" using Cons by (cases "ie_next (t ! i)") auto
  ultimately show ?case by simp
qed simp

lemma im_chain_last: "im_chain t i xs \<Longrightarrow> j \<in> set xs \<Longrightarrow> ie_next (t ! j) = None \<longleftrightarrow> j = last xs"
proof -
  assume c: "im_chain t i xs" and j: "j \<in> set xs"
  then obtain a b where s: "xs = a @ j # b" by (auto dest: split_list)
  then have cb: "im_chain t j (j # b)" using c im_chain_suffix by blast
  have "distinct xs" using c by (rule im_chain_distinct)
  show ?thesis
  proof (cases b)
    case Nil
    then show ?thesis using cb by (auto simp: s split: option.splits)
  next
    case (Cons y ys)
    then have "j \<noteq> last xs" using \<open>distinct xs\<close> by (auto simp: s)
    then show ?thesis using cb Cons by (auto split: option.splits)
  qed
qed

lemma im_last_chain: "im_chain t i xs \<Longrightarrow> im_last t i = Some (last xs)"
proof (induction xs arbitrary: i)
  case (Cons x xs)
  then show ?case by (subst im_last.simps) (auto split: option.splits)
qed simp

lemma im_walk_chain: "im_chain t i xs \<Longrightarrow> im_walk t k i = Some (List.find (\<lambda>j. ie_k (t ! j) = k) xs)"
proof (induction xs arbitrary: i)
  case (Cons x xs)
  then show ?case by (subst im_walk.simps) (auto split: option.splits)
qed simp

lemma im_walk_unused: "i < length t \<Longrightarrow> \<not> ie_used (t ! i) \<Longrightarrow> im_walk t k i = Some (Some i)"
  by (subst im_walk.simps) simp

text \<open>Writing a free slot does not touch a chain; linking it behind the end of a chain extends
  exactly the chains that end there.\<close>

lemma im_chain_write_free:
  "im_chain t i xs \<Longrightarrow> \<not> ie_used (t ! c) \<Longrightarrow> im_chain (t[c := e]) i xs"
proof (induction xs arbitrary: i)
  case (Cons x xs)
  then have "i \<noteq> c" by auto
  with Cons show ?case by (auto split: option.splits)
qed simp

definition im_link :: "im_entry list \<Rightarrow> nat \<Rightarrow> nat \<Rightarrow> im_entry \<Rightarrow> im_entry list" where
  "im_link t l c e = t[l := (t ! l)\<lparr>ie_next := Some c\<rparr>, c := e]"

lemma im_link_other: "j \<noteq> l \<Longrightarrow> j \<noteq> c \<Longrightarrow> im_link t l c e ! j = t ! j"
  by (simp add: im_link_def)

lemma im_chain_link_avoid:
  "im_chain t i xs \<Longrightarrow> l \<notin> set xs \<Longrightarrow> \<not> ie_used (t ! c) \<Longrightarrow> im_chain (im_link t l c e) i xs"
proof (induction xs arbitrary: i)
  case (Cons x xs)
  then have "i \<noteq> c" "i \<noteq> l" by auto
  with Cons show ?case by (auto simp: im_link_other im_link_def split: option.splits)
qed simp

lemma im_chain_link_extend:
  "im_chain t i xs \<Longrightarrow> last xs = l \<Longrightarrow> \<not> ie_used (t ! c) \<Longrightarrow> c < length t \<Longrightarrow>
     ie_used e \<Longrightarrow> ie_next e = None \<Longrightarrow> im_chain (im_link t l c e) i (xs @ [c])"
proof (induction xs arbitrary: i)
  case (Cons x xs)
  then have ic: "i \<noteq> c" by auto
  show ?case
  proof (cases "ie_next (t ! i)")
    case None
    with Cons.prems ic show ?thesis by (auto simp: im_link_def)
  next
    case (Some j)
    then have tail: "im_chain t j xs" using Cons.prems(1) by auto
    then have ne: "xs \<noteq> []" by auto
    have "i \<noteq> l"
      using Cons.prems(2) ne im_chain_distinct [OF Cons.prems(1)] Cons.prems(1) by auto
    with Cons.IH [OF tail] Cons.prems Some ne ic show ?thesis
      by (auto simp: im_link_other) (auto simp: im_link_def)
  qed
qed simp

section \<open>The map a table represents\<close>

definition im_pairs :: "im_entry list \<Rightarrow> (u64 \<times> u64) list" where
  "im_pairs t = map (\<lambda>e. (ie_k e, ie_v e)) (filter ie_used t)"

definition im_abs :: "vd_intmap \<Rightarrow> u64 \<Rightarrow> u64 option" where
  "im_abs m = map_of (im_pairs (im_table m))"

text \<open>
  Every used entry lies on the chain of the bucket of its key, no key is stored twice, free
  entries are zero and \<open>usecount\<close> counts the used ones.
\<close>

definition im_reachable :: "nat \<Rightarrow> im_entry list \<Rightarrow> bool" where
  "im_reachable cap t = (\<forall>j < length t. ie_used (t ! j) \<longrightarrow>
     (\<exists>xs. im_chain t (im_index cap (ie_k (t ! j))) xs \<and> j \<in> set xs))"

definition im_inv :: "vd_intmap \<Rightarrow> bool" where
  "im_inv m \<longleftrightarrow>
     length (im_table m) = im_cap_total m \<and> 0 < im_cap m \<and> im_cap m \<le> im_cap_total m \<and>
     im_flags m AND VD_INTMAP_FLAG_NO_AUTOGROW = 0 \<and>
     im_usecount m = length (im_pairs (im_table m)) \<and>
     distinct (map fst (im_pairs (im_table m))) \<and>
     (\<forall>j < length (im_table m). \<not> ie_used (im_table m ! j) \<longrightarrow> ie_v (im_table m ! j) = 0) \<and>
     im_reachable (im_cap m) (im_table m)"

lemma im_pairs_write_free:
  assumes "c < length t" and "\<not> ie_used (t ! c)" and "ie_used e"
  obtains a b where "im_pairs t = a @ b" and "im_pairs (t[c := e]) = a @ (ie_k e, ie_v e) # b"
proof -
  have "t = take c t @ t ! c # drop (Suc c) t" using assms(1) by (rule id_take_nth_drop)
  then have "im_pairs t = im_pairs (take c t @ t ! c # drop (Suc c) t)" by simp
  then have "im_pairs t = im_pairs (take c t) @ im_pairs (drop (Suc c) t)"
    using assms(2) by (simp add: im_pairs_def del: append_take_drop_id)
  moreover have "im_pairs (t[c := e]) =
      im_pairs (take c t) @ (ie_k e, ie_v e) # im_pairs (drop (Suc c) t)"
    using assms(1,3) by (simp add: im_pairs_def upd_conv_take_nth_drop)
  ultimately show thesis by (rule that)
qed

lemma im_pairs_next [simp]: "im_pairs (t[l := (t ! l)\<lparr>ie_next := n\<rparr>]) = im_pairs t"
proof (induction t arbitrary: l)
  case (Cons e t)
  then show ?case by (cases l) (auto simp: im_pairs_def)
qed (simp add: im_pairs_def)

lemma im_pairs_mem: "(k, v) \<in> set (im_pairs t) \<longleftrightarrow>
    (\<exists>j < length t. ie_used (t ! j) \<and> ie_k (t ! j) = k \<and> ie_v (t ! j) = v)"
  by (auto simp: im_pairs_def image_iff in_set_conv_nth)

lemma im_pairs_length: "length (im_pairs t) \<le> length t"
  by (simp add: im_pairs_def)

lemma im_pairs_free: "length (im_pairs t) < length t \<Longrightarrow> \<exists>j < length t. \<not> ie_used (t ! j)"
proof (rule ccontr)
  assume l: "length (im_pairs t) < length t" and "\<not> (\<exists>j < length t. \<not> ie_used (t ! j))"
  then have "filter ie_used t = t" by (auto simp: filter_id_conv in_set_conv_nth)
  with l show False by (simp add: im_pairs_def)
qed

lemma im_scan_free:
  "\<not> ie_used (t ! s) \<or> (\<exists>j < n. \<not> ie_used (t ! j)) \<Longrightarrow>
     \<not> ie_used (t ! im_scan t s n) \<and> (im_scan t s n = s \<or> im_scan t s n < n)"
proof (induction n arbitrary: s)
  case (Suc n)
  show ?case
  proof (cases "ie_used (t ! s)")
    case True
    with Suc.prems have "\<not> ie_used (t ! n) \<or> (\<exists>j < n. \<not> ie_used (t ! j))"
      by (auto simp: less_Suc_eq)
    from Suc.IH [OF this] True show ?thesis by auto
  qed simp
qed simp

lemma im_scan_full: "\<forall>j < n. ie_used (t ! j) \<Longrightarrow> ie_used (t ! s) \<Longrightarrow> ie_used (t ! im_scan t s n)"
  by (induction n arbitrary: s) auto

section \<open>Insertion of a key that is not present\<close>

text \<open>The two ways an entry enters the table keep every entry reachable.\<close>

lemma im_reachable_bucket:
  assumes r: "im_reachable cap t" and c: "c < length t" "\<not> ie_used (t ! c)"
    and e: "ie_used e" "ie_next e = None" "im_index cap (ie_k e) = c"
  shows "im_reachable cap (t[c := e])"
  unfolding im_reachable_def
proof (intro allI impI)
  fix j assume j: "j < length (t[c := e])" "ie_used (t[c := e] ! j)"
  show "\<exists>xs. im_chain (t[c := e]) (im_index cap (ie_k (t[c := e] ! j))) xs \<and> j \<in> set xs"
  proof (cases "j = c")
    case True
    have "im_chain (t[c := e]) c [c]" using c e(1,2) by simp
    moreover have "im_index cap (ie_k (t[c := e] ! j)) = c" using True c e(3) by simp
    ultimately show ?thesis unfolding True by (metis list.set_intros(1))
  next
    case False
    with j have "j < length t" "ie_used (t ! j)" by auto
    with r obtain xs where "im_chain t (im_index cap (ie_k (t ! j))) xs" "j \<in> set xs"
      by (auto simp: im_reachable_def)
    with False c show ?thesis by (auto intro!: im_chain_write_free)
  qed
qed

lemma im_reachable_link:
  assumes r: "im_reachable cap t" and c: "c < length t" "\<not> ie_used (t ! c)"
    and e: "ie_used e" "ie_next e = None"
    and b: "im_chain t (im_index cap (ie_k e)) bs" and l: "l = last bs"
  shows "im_reachable cap (im_link t l c e)"
  unfolding im_reachable_def
proof (intro allI impI)
  have lb: "l \<in> set bs" using b l by simp
  then have lt: "l < length t" "ie_used (t ! l)" using im_chain_mem [OF b] by auto
  have nl: "ie_next (t ! l) = None" using im_chain_last [OF b lb] l by simp
  have ne: "l \<noteq> c" using lt c by auto
  fix j assume j: "j < length (im_link t l c e)" "ie_used (im_link t l c e ! j)"
  show "\<exists>xs. im_chain (im_link t l c e) (im_index cap (ie_k (im_link t l c e ! j))) xs \<and> j \<in> set xs"
  proof (cases "j = c")
    case True
    have "im_chain (im_link t l c e) (im_index cap (ie_k e)) (bs @ [c])"
      using im_chain_link_extend [OF b l [symmetric] c(2,1) e] .
    with True c show ?thesis by (intro exI [of _ "bs @ [c]"]) (simp add: im_link_def)
  next
    case False
    then have same: "ie_k (im_link t l c e ! j) = ie_k (t ! j)" "ie_used (t ! j)" "j < length t"
      using j lt by (cases "j = l"; auto simp: im_link_def)+
    then obtain xs where xs: "im_chain t (im_index cap (ie_k (t ! j))) xs" "j \<in> set xs"
      using r by (auto simp: im_reachable_def)
    show ?thesis
    proof (cases "l \<in> set xs")
      case True
      then have "last xs = l" using im_chain_last [OF xs(1) True] nl by simp
      then have "im_chain (im_link t l c e) (im_index cap (ie_k (t ! j))) (xs @ [c])"
        using im_chain_link_extend [OF xs(1) _ c(2,1) e] by simp
      with xs same show ?thesis by (intro exI [of _ "xs @ [c]"]) simp
    next
      case False
      then show ?thesis using im_chain_link_avoid [OF xs(1) False c(2)] xs same by auto
    qed
  qed
qed

text \<open>What one insertion does to a table with room.\<close>

lemma im_write_free:
  assumes i: "im_inv m" and f: "im_abs m k = None"
    and c: "c < length (im_table m)" "\<not> ie_used (im_table m ! c)"
    and t: "im_pairs t = im_pairs (im_table m)" "length t = length (im_table m)"
      "\<not> ie_used (t ! c)" "\<forall>j < length t. \<not> ie_used (t ! j) \<longrightarrow> ie_v (t ! j) = 0"
    and e: "ie_used e" "ie_k e = k" "ie_v e = v"
    and r: "im_reachable (im_cap m) (t[c := e])"
  defines "m' \<equiv> m\<lparr>im_table := t[c := e], im_usecount := im_usecount m + 1\<rparr>"
  shows "im_inv m'" and "im_abs m' = (im_abs m)(k \<mapsto> v)"
proof -
  obtain a b where ab: "im_pairs t = a @ b" "im_pairs (t[c := e]) = a @ (k, v) # b"
    using im_pairs_write_free [of c t e] c t(2,3) e by metis
  have d: "distinct (map fst (a @ b))" using i ab(1) t(1) by (simp add: im_inv_def)
  have k: "k \<notin> fst ` set a" "k \<notin> fst ` set b"
    using f ab(1) t(1) by (auto simp: im_abs_def map_of_eq_None_iff)
  have "\<forall>j < length t. \<not> ie_used (t[c := e] ! j) \<longrightarrow> ie_v (t[c := e] ! j) = 0"
    using t(4) e(1) by (metis nth_list_update_eq nth_list_update_neq)
  moreover have "im_usecount m = length (a @ b)" using i ab(1) t(1) by (simp add: im_inv_def)
  ultimately show "im_inv m'"
    using i d k r t(2) unfolding im_inv_def m'_def by (simp add: ab(2))
  have "map_of (a @ (k, v) # b) = (map_of (a @ b))(k \<mapsto> v)"
    using k by (simp add: map_add_upd_left dom_map_of_conv_image_fst)
  then show "im_abs m' = (im_abs m)(k \<mapsto> v)"
    using ab t(1) by (simp add: im_abs_def m'_def)
qed

lemma im_insert_fresh:
  assumes i: "im_inv m" and f: "im_abs m k = None" and room: "im_usecount m < im_cap_total m"
  shows "\<exists>m'. im_insert m k v = Some (True, m') \<and> im_inv m' \<and> im_abs m' = (im_abs m)(k \<mapsto> v)
    \<and> im_usecount m' = im_usecount m + 1 \<and> im_cap_total m' = im_cap_total m"
proof -
  let ?t = "im_table m" and ?b = "im_index (im_cap m) k"
  let ?e = "\<lparr>ie_next = None, ie_used = True, ie_k = k, ie_v = v\<rparr>"
  have len: "length ?t = im_cap_total m" and cap: "0 < im_cap m" and capt: "im_cap m \<le> im_cap_total m"
    and v0: "\<forall>j < length ?t. \<not> ie_used (?t ! j) \<longrightarrow> ie_v (?t ! j) = 0"
    and reach: "im_reachable (im_cap m) ?t" and uc: "im_usecount m = length (im_pairs ?t)"
    using i by (auto simp: im_inv_def)
  have "?b < im_cap m" using cap by (simp add: im_index_def)
  then have b: "?b < length ?t" using capt len by simp
  show ?thesis
  proof (cases "ie_used (?t ! ?b)")
    case False
    have "im_reachable (im_cap m) (?t[?b := ?e])"
      using im_reachable_bucket [OF reach b False, of ?e] by simp
    from im_write_free [OF i f b False refl refl False v0 _ _ _ this]
    show ?thesis using False b cap by (simp add: im_insert_def)
  next
    case True
    define c where "c = im_scan ?t ?b (im_cap_total m)"
    have "\<exists>j < im_cap_total m. \<not> ie_used (?t ! j)" using im_pairs_free [of ?t] room uc len by simp
    from im_scan_free [OF disjI2 [OF this], of ?b]
    have c: "\<not> ie_used (?t ! c)" "c < length ?t" using b len by (auto simp: c_def)
    obtain ys where ys: "im_chain ?t (im_index (im_cap m) (ie_k (?t ! ?b))) ys" "?b \<in> set ys"
      using reach b True by (auto simp: im_reachable_def)
    then obtain p q where "ys = p @ ?b # q" by (auto dest: split_list)
    with ys(1) have bs: "im_chain ?t ?b (?b # q)" using im_chain_suffix by blast
    define l where "l = last (?b # q)"
    have lb: "l < length ?t" "ie_used (?t ! l)" using im_chain_mem [OF bs, of l] by (auto simp: l_def)
    let ?t1 = "?t[l := (?t ! l)\<lparr>ie_next := Some c\<rparr>]"
    have ne: "l \<noteq> c" using lb c by auto
    have "im_reachable (im_cap m) (?t1[c := ?e])"
      using im_reachable_link [OF reach c(2,1), of ?e "?b # q" l] bs by (simp add: im_link_def l_def)
    moreover have "\<not> ie_used (?t1 ! c)" using ne c by simp
    moreover have "\<forall>j < length ?t1. \<not> ie_used (?t1 ! j) \<longrightarrow> ie_v (?t1 ! j) = 0"
    proof (intro allI impI)
      fix j assume "j < length ?t1" "\<not> ie_used (?t1 ! j)"
      then show "ie_v (?t1 ! j) = 0" using v0 lb by (cases "j = l") auto
    qed
    ultimately have "im_inv (m\<lparr>im_table := ?t1[c := ?e], im_usecount := im_usecount m + 1\<rparr>)"
      and "im_abs (m\<lparr>im_table := ?t1[c := ?e], im_usecount := im_usecount m + 1\<rparr>) = (im_abs m)(k \<mapsto> v)"
      using im_write_free [OF i f c(2,1), of ?t1 ?e v] by simp_all
    moreover have "im_insert m k v =
        Some (True, m\<lparr>im_table := ?t1[c := ?e], im_usecount := im_usecount m + 1\<rparr>)"
      using True b cap c(1) im_last_chain [OF bs, folded l_def]
      by (simp add: im_insert_def c_def [symmetric] Let_def)
    ultimately show ?thesis by simp
  qed
qed

section \<open>Growth\<close>

lemma im_set_room: "im_usecount m \<noteq> im_cap_total m \<Longrightarrow> im_set (Suc d) m k v = im_insert m k v"
  by (simp add: im_check_grow_def)

lemma im_insert_usecount:
  "im_insert m k v = Some (r, m') \<Longrightarrow> im_usecount m' \<le> im_usecount m + 1 \<and> im_cap_total m' = im_cap_total m"
  by (auto simp: im_insert_def Let_def bind_Some_iff split: if_splits)

text \<open>The new map never fills up while it is being filled, so its insertions do not grow it.\<close>

lemma im_rehash_room:
  "es = [] \<or> im_usecount m + length es \<le> im_cap_total m \<Longrightarrow>
     im_rehash (im_set (Suc d)) es m = im_rehash im_insert es m"
proof (induction es arbitrary: m)
  case (Cons e es)
  have ne: "im_usecount m \<noteq> im_cap_total m" using Cons.prems by simp
  show ?case
  proof (cases "ie_used e \<and> im_insert m (ie_k e) (ie_v e) \<noteq> None")
    case True
    then obtain r m' where m': "im_insert m (ie_k e) (ie_v e) = Some (r, m')" by auto
    from im_insert_usecount [OF m'] Cons.prems
    have "im_rehash (im_set (Suc d)) es m' = im_rehash im_insert es m'"
      by (intro Cons.IH disjI2) auto
    with m' True show ?thesis by (simp add: im_set_room [OF ne] del: im_set.simps)
  next
    case False
    then consider "\<not> ie_used e" | "im_insert m (ie_k e) (ie_v e) = None" by blast
    moreover have "im_rehash (im_set (Suc d)) es m = im_rehash im_insert es m"
      using Cons.prems by (intro Cons.IH) auto
    ultimately show ?thesis by cases (simp_all add: im_set_room [OF ne] del: im_set.simps)
  qed
qed simp

lemma vd_intmap_set_depth:
  assumes "length (im_table m) = im_cap_total m"
  shows "im_set (d + 2) m k v = vd_intmap_set m k v"
proof -
  have "im_rehash (im_set (Suc d')) (im_table m) (vd_intmap_init (im_cap_total m * 2) (im_flags m))
      = im_rehash im_insert (im_table m) (vd_intmap_init (im_cap_total m * 2) (im_flags m))" for d'
    using assms by (intro im_rehash_room) (auto simp: vd_intmap_init_def)
  then have "im_check_grow (im_set (Suc d')) m = im_check_grow im_insert m" for d'
    by (simp add: im_check_grow_def del: im_set.simps)
  then show ?thesis
    by (simp add: vd_intmap_set_def numeral_2_eq_2 im_set.simps(2) [of "Suc d" for d] del: im_set.simps)
qed

lemma vd_intmap_init_inv:
  assumes "0 < cap" and "flags AND VD_INTMAP_FLAG_NO_AUTOGROW = 0"
  shows "im_inv (vd_intmap_init cap flags)" and "im_abs (vd_intmap_init cap flags) = Map.empty"
proof -
  have "f32_mul_trunc cap 13421773 26 < cap" by (rule f32_mul_trunc_less) (use assms in simp_all)
  moreover have p: "im_pairs (replicate cap zero_entry) = []"
    by (auto simp: im_pairs_def filter_empty_conv zero_entry_def)
  moreover have "\<not> ie_used (replicate cap zero_entry ! j)" "ie_v (replicate cap zero_entry ! j) = 0"
    if "j < cap" for j using that by (simp_all add: zero_entry_def)
  ultimately show "im_inv (vd_intmap_init cap flags)"
    using assms by (auto simp: im_inv_def vd_intmap_init_def im_reachable_def)
  show "im_abs (vd_intmap_init cap flags) = Map.empty"
    by (simp add: im_abs_def vd_intmap_init_def p)
qed

lemma im_rehash_fresh:
  assumes "im_inv m" and "distinct (map fst (im_pairs es))"
    and "\<forall>k \<in> fst ` set (im_pairs es). im_abs m k = None"
    and "im_usecount m + length (im_pairs es) \<le> im_cap_total m"
  shows "\<exists>m'. im_rehash im_insert es m = Some m' \<and> im_inv m'
    \<and> im_abs m' = im_abs m ++ map_of (im_pairs es)
    \<and> im_usecount m' = im_usecount m + length (im_pairs es) \<and> im_cap_total m' = im_cap_total m"
  using assms
proof (induction es arbitrary: m)
  case Nil
  then show ?case by (simp add: im_pairs_def)
next
  case (Cons e es)
  show ?case
  proof (cases "ie_used e")
    case False
    then have "im_pairs (e # es) = im_pairs es" by (simp add: im_pairs_def)
    with Cons False show ?thesis by simp
  next
    case True
    then have p: "im_pairs (e # es) = (ie_k e, ie_v e) # im_pairs es" by (simp add: im_pairs_def)
    have f: "im_abs m (ie_k e) = None" using Cons.prems(3) by (simp add: p)
    have "im_usecount m < im_cap_total m" using Cons.prems(4) by (simp add: p)
    from im_insert_fresh [OF Cons.prems(1) f this, of "ie_v e"] obtain m1
      where m1: "im_insert m (ie_k e) (ie_v e) = Some (True, m1)" "im_inv m1"
        "im_abs m1 = (im_abs m)(ie_k e \<mapsto> ie_v e)" "im_usecount m1 = im_usecount m + 1"
        "im_cap_total m1 = im_cap_total m" by blast
    have nk: "ie_k e \<notin> fst ` set (im_pairs es)" using Cons.prems(2) by (simp add: p)
    have "\<forall>k \<in> fst ` set (im_pairs es). im_abs m1 k = None"
    proof
      fix k assume k: "k \<in> fst ` set (im_pairs es)"
      then have "k \<noteq> ie_k e" using nk by blast
      moreover have "im_abs m k = None" using Cons.prems(3) k by (auto simp: p)
      ultimately show "im_abs m1 k = None" by (simp add: m1(3))
    qed
    then obtain m' where m': "im_rehash im_insert es m1 = Some m'" "im_inv m'"
        "im_abs m' = im_abs m1 ++ map_of (im_pairs es)"
        "im_usecount m' = im_usecount m1 + length (im_pairs es)" "im_cap_total m' = im_cap_total m1"
      using Cons.IH [OF m1(2)] Cons.prems(2,4) m1(4,5) by (auto simp: p)
    have "ie_k e \<notin> dom (map_of (im_pairs es))" using nk by (simp add: dom_map_of_conv_image_fst)
    then have "im_abs m1 ++ map_of (im_pairs es) = im_abs m ++ map_of (im_pairs (e # es))"
      by (simp add: m1(3) p map_add_upd_left)
    then have "im_abs m' = im_abs m ++ map_of (im_pairs (e # es))" unfolding m'(3) .
    moreover have "im_usecount m' = im_usecount m + length (im_pairs (e # es))"
      "im_cap_total m' = im_cap_total m" "im_rehash im_insert (e # es) m = Some m'"
      using True m1 m' by (simp_all add: p)
    ultimately show ?thesis using m'(2) by blast
  qed
qed

text \<open>A fresh insertion always succeeds, growing the table when it is full.\<close>

lemma vd_intmap_set_fresh:
  assumes i: "im_inv m" and f: "im_abs m k = None"
  shows "\<exists>m'. vd_intmap_set m k v = Some (True, m') \<and> im_inv m' \<and> im_abs m' = (im_abs m)(k \<mapsto> v)"
proof -
  have len: "length (im_table m) = im_cap_total m" and uc: "im_usecount m = length (im_pairs (im_table m))"
    and fl: "im_flags m AND VD_INTMAP_FLAG_NO_AUTOGROW = 0" and pos: "0 < im_cap_total m"
    and d: "distinct (map fst (im_pairs (im_table m)))"
    using i by (auto simp: im_inv_def)
  show ?thesis
  proof (cases "im_usecount m = im_cap_total m")
    case False
    then have "im_usecount m < im_cap_total m" using uc len im_pairs_length [of "im_table m"] by simp
    with im_insert_fresh [OF i f] False show ?thesis
      unfolding vd_intmap_set_def numeral_2_eq_2 im_set_room [OF False] by blast
  next
    case True
    let ?n = "vd_intmap_init (im_cap_total m * 2) (im_flags m)"
    have n: "im_inv ?n" "im_abs ?n = Map.empty" using vd_intmap_init_inv pos fl by simp_all
    have nu: "im_usecount ?n = 0" "im_cap_total ?n = im_cap_total m * 2"
      by (simp_all add: vd_intmap_init_def)
    from im_rehash_fresh [OF n(1) d] obtain g where g: "im_rehash im_insert (im_table m) ?n = Some g"
      "im_inv g" "im_abs g = im_abs m" "im_usecount g = im_usecount m" "im_cap_total g = im_cap_total m * 2"
      using n(2) nu uc True by (auto simp: im_abs_def)
    have "im_rehash (im_set (Suc 0)) (im_table m) ?n = Some g"
      using im_rehash_room [of "im_table m" ?n 0] nu len g(1) by (simp del: im_set.simps)
    then have s: "vd_intmap_set m k v = im_insert g k v"
      using True fl by (simp add: vd_intmap_set_def numeral_2_eq_2 im_set.simps(2) [of "Suc 0"]
          im_check_grow_def del: im_set.simps)
    have "im_usecount g < im_cap_total g" "im_abs g k = None" using g True pos f by simp_all
    with im_insert_fresh [OF g(2)] g(3) show ?thesis unfolding s by metis
  qed
qed

section \<open>Lookup\<close>

lemma im_abs_slot: "im_inv m \<Longrightarrow> im_abs m k = Some v \<longleftrightarrow>
    (\<exists>j < length (im_table m). ie_used (im_table m ! j) \<and> ie_k (im_table m ! j) = k
      \<and> ie_v (im_table m ! j) = v)"
  unfolding im_pairs_mem [symmetric] by (simp add: im_abs_def im_inv_def)

lemma im_slot_chain:
  assumes "im_inv m" and "j < length (im_table m)" and "ie_used (im_table m ! j)"
  obtains xs where "im_chain (im_table m) (im_index (im_cap m) (ie_k (im_table m ! j))) xs" "j \<in> set xs"
  using assms by (auto simp: im_inv_def im_reachable_def)

lemma vd_intmap_tryget_present:
  assumes i: "im_inv m" and a: "im_abs m k = Some v"
  shows "\<exists>j. im_walk (im_table m) k (im_index (im_cap m) k) = Some (Some j) \<and>
    j < length (im_table m) \<and> ie_used (im_table m ! j) \<and> ie_k (im_table m ! j) = k \<and>
    ie_v (im_table m ! j) = v"
proof -
  let ?t = "im_table m"
  obtain j where j: "j < length ?t" "ie_used (?t ! j)" "ie_k (?t ! j) = k"
    using a im_abs_slot [OF i] by auto
  obtain xs where xs: "im_chain ?t (im_index (im_cap m) k) xs" "j \<in> set xs"
    using im_slot_chain [OF i j(1,2)] j(3) by auto
  obtain j' where j': "List.find (\<lambda>j. ie_k (?t ! j) = k) xs = Some j'"
    using xs(2) j(3) by (cases "List.find (\<lambda>j. ie_k (?t ! j) = k) xs") (auto simp: find_None_iff)
  then have "j' \<in> set xs" "ie_k (?t ! j') = k" by (auto simp: find_Some_iff)
  moreover from this have "j' < length ?t" "ie_used (?t ! j')" using im_chain_mem [OF xs(1)] by auto
  moreover from calculation have "im_abs m k = Some (ie_v (?t ! j'))" using im_abs_slot [OF i] by blast
  ultimately show ?thesis using im_walk_chain [OF xs(1), of k] j' a by auto
qed

lemma vd_intmap_tryget_abs: "im_inv m \<Longrightarrow> im_abs m k = Some v \<Longrightarrow> vd_intmap_tryget m k = Some (Some v)"
  using vd_intmap_tryget_present [of m k v] by (auto simp: vd_intmap_tryget_def im_inv_def)

interpretation im: fresh_map "\<lambda>m k v. map_option snd (vd_intmap_set m k v)" vd_intmap_tryget im_abs im_inv
proof unfold_locales
  fix m :: vd_intmap and k v :: u64
  assume "im_inv m" and "im_abs m k = None"
  from vd_intmap_set_fresh [OF this, of v]
  show "\<exists>m'. map_option snd (vd_intmap_set m k v) = Some m'" by auto
next
  fix m m' :: vd_intmap and k v :: u64
  assume "im_inv m" and "im_abs m k = None" and "map_option snd (vd_intmap_set m k v) = Some m'"
  with vd_intmap_set_fresh [of m k v] show "im_inv m'" by auto
next
  fix m m' :: vd_intmap and k v :: u64
  assume "im_inv m" and "im_abs m k = None" and "map_option snd (vd_intmap_set m k v) = Some m'"
  with vd_intmap_set_fresh [of m k v] show "im_abs m' = (im_abs m)(k \<mapsto> v)" by auto
next
  fix m :: vd_intmap and k v :: u64
  assume "im_inv m" and "im_abs m k = Some v"
  then show "vd_intmap_tryget m k = Some (Some v)" by (rule vd_intmap_tryget_abs)
qed

text \<open>C3. Distinct keys inserted in any number into a new map (which grows on the way) can all be
  looked up, each with its value, and every insertion returns.\<close>

theorem vd_intmap_set_all_correct:
  assumes "0 < cap" and "flags AND VD_INTMAP_FLAG_NO_AUTOGROW = 0" and "distinct (map fst kvs)"
  shows "\<exists>m. run_ops (\<lambda>kv m. map_option snd (vd_intmap_set m (fst kv) (snd kv))) kvs
           (vd_intmap_init cap flags) = Some m
    \<and> (\<forall>(k, v) \<in> set kvs. vd_intmap_tryget m k = Some (Some v))"
proof -
  note i = vd_intmap_init_inv [OF assms(1,2)]
  from im.insert_all_correct [OF i(1) assms(3)] i(2) obtain m
    where m: "run_ops (\<lambda>kv m. map_option snd (vd_intmap_set m (fst kv) (snd kv))) kvs
           (vd_intmap_init cap flags) = Some m" "im_inv m" "im_abs m = map_of kvs"
    by auto
  have "vd_intmap_tryget m k = Some (Some v)" if "(k, v) \<in> set kvs" for k v
    using that assms(3) m(2,3) by (intro vd_intmap_tryget_abs) simp_all
  with m(1) show ?thesis by auto
qed

theorem vd_intmap_set_all_correct_witness:
  "\<exists>m. run_ops (\<lambda>kv m. map_option snd (vd_intmap_set m (fst kv) (snd kv)))
      [(1, 10), (2, 20), (3, 30)] (vd_intmap_init 2 0) = Some m
    \<and> (\<forall>(k, v) \<in> {(1, 10), (2, 20), (3, 30)}. vd_intmap_tryget m k = Some (Some v))"
  using vd_intmap_set_all_correct [of 2 0 "[(1, 10), (2, 20), (3, 30)]"] by simp

lemma vd_intmap_absent:
  assumes i: "im_inv m" and a: "im_abs m k = None"
  shows "vd_intmap_tryget m k =
    Some (if ie_used (im_table m ! im_index (im_cap m) k) then None else Some 0)"
proof -
  let ?t = "im_table m" and ?b = "im_index (im_cap m) k"
  have cap: "0 < im_cap m" "im_cap m \<le> length ?t" using i by (auto simp: im_inv_def)
  then have "?b < im_cap m" by (simp add: im_index_def)
  then have b: "?b < length ?t" using cap by simp
  show ?thesis
  proof (cases "ie_used (?t ! ?b)")
    case False
    moreover have "ie_v (?t ! ?b) = 0" using i b False by (auto simp: im_inv_def)
    ultimately show ?thesis using b cap by (simp add: vd_intmap_tryget_def im_walk_unused)
  next
    case True
    obtain ys where ys: "im_chain ?t (im_index (im_cap m) (ie_k (?t ! ?b))) ys" "?b \<in> set ys"
      using im_slot_chain [OF i b True] by auto
    then obtain p q where "ys = p @ ?b # q" by (auto dest: split_list)
    with ys(1) have bs: "im_chain ?t ?b (?b # q)" using im_chain_suffix by blast
    have "ie_k (?t ! j) \<noteq> k" if "j \<in> set (?b # q)" for j
    proof
      assume "ie_k (?t ! j) = k"
      then have "im_abs m k = Some (ie_v (?t ! j))"
        using im_abs_slot [OF i] im_chain_mem [OF bs that] by blast
      with a show False by simp
    qed
    then have "List.find (\<lambda>j. ie_k (?t ! j) = k) (?b # q) = None" unfolding find_None_iff by blast
    then show ?thesis using im_walk_chain [OF bs, of k] True cap
      by (simp add: vd_intmap_tryget_def del: find.simps)
  qed
qed

text \<open>C26. A lookup of a key that is not in the map does not always say so: when the bucket of the
  key is free it succeeds and yields 0; only behind a used bucket does it fail.\<close>

theorem vd_intmap_tryget_absent:
  assumes "im_inv m" and "im_abs m k = None"
  shows "vd_intmap_tryget m k =
    Some (if ie_used (im_table m ! im_index (im_cap m) k) then None else Some 0)"
  using assms by (rule vd_intmap_absent)

theorem vd_intmap_tryget_absent_witness:
  "vd_intmap_tryget (vd_intmap_init 4 0) 7 =
    Some (if ie_used (im_table (vd_intmap_init 4 0) ! im_index (im_cap (vd_intmap_init 4 0)) 7)
          then None else Some 0)"
  using vd_intmap_tryget_absent [of "vd_intmap_init 4 0" 7] vd_intmap_init_inv [of 4 0] by simp

section \<open>Deletion\<close>

lemma im_pairs_clear:
  assumes "c < length t" and "ie_used (t ! c)" and "\<not> ie_used e"
  obtains a b where "im_pairs t = a @ (ie_k (t ! c), ie_v (t ! c)) # b" and "im_pairs (t[c := e]) = a @ b"
proof -
  have "t = take c t @ t ! c # drop (Suc c) t" using assms(1) by (rule id_take_nth_drop)
  then have "im_pairs t = im_pairs (take c t @ t ! c # drop (Suc c) t)" by simp
  then have "im_pairs t = im_pairs (take c t) @ (ie_k (t ! c), ie_v (t ! c)) # im_pairs (drop (Suc c) t)"
    using assms(2) by (simp add: im_pairs_def del: append_take_drop_id)
  moreover have "im_pairs (t[c := e]) = im_pairs (take c t) @ im_pairs (drop (Suc c) t)"
    using assms(1,3) by (simp add: im_pairs_def upd_conv_take_nth_drop)
  ultimately show thesis by (rule that)
qed

lemma vd_intmap_del_present:
  assumes i: "im_inv m" and a: "im_abs m k = Some v"
  shows "\<exists>m'. vd_intmap_del m k = Some m' \<and> im_abs m' = (im_abs m)(k := None)
    \<and> im_usecount m' = im_usecount m - 1 \<and> im_usecount m' = length (im_pairs (im_table m'))"
proof -
  obtain j where w: "im_walk (im_table m) k (im_index (im_cap m) k) = Some (Some j)"
    and j: "j < length (im_table m)" "ie_used (im_table m ! j)" "ie_k (im_table m ! j) = k"
    using vd_intmap_tryget_present [OF i a] by blast
  define e where "e = (im_table m ! j)\<lparr>ie_used := False, ie_k := 0, ie_v := 0\<rparr>"
  have "\<not> ie_used e" by (simp add: e_def)
  from im_pairs_clear [OF j(1,2) this] obtain p q
    where pq: "im_pairs (im_table m) = p @ (k, ie_v (im_table m ! j)) # q"
      "im_pairs ((im_table m)[j := e]) = p @ q" using j(3) by metis
  have "distinct (map fst (im_pairs (im_table m)))" "im_usecount m = length (im_pairs (im_table m))"
    "im_cap m \<noteq> 0" using i by (auto simp: im_inv_def)
  then have fresh: "k \<notin> fst ` set p" "k \<notin> fst ` set q" and uc: "im_usecount m = Suc (length p + length q)"
    and cap: "im_cap m \<noteq> 0" using pq(1) by auto
  have "map_of (p @ q) x = ((map_of (p @ (k, ie_v (im_table m ! j)) # q))(k := None)) x" for x
    using fresh by (cases "x = k")
      (auto simp: map_add_def map_of_eq_None_iff fun_upd_def split: option.splits)
  then have "map_of (p @ q) = (map_of (p @ (k, ie_v (im_table m ! j)) # q))(k := None)" ..
  then show ?thesis using w pq cap uc by (simp add: vd_intmap_del_def im_abs_def e_def)
qed

text \<open>
  Deletion keeps the links of the entries but clears the flag the walk tests first, so deleting
  the key at the head of a chain hides the others: a lookup of another key of the same bucket
  stops at the freed entry, succeeds, and yields 0, though the pair is still in the table.
\<close>

lemma vd_intmap_del_cuts_chain:
  assumes i: "im_inv m" and h: "im_index (im_cap m) a = im_index (im_cap m) b" "a \<noteq> b"
    and a: "ie_used (im_table m ! im_index (im_cap m) a)" "ie_k (im_table m ! im_index (im_cap m) a) = a"
    and b: "im_abs m b = Some w"
  shows "\<exists>m'. vd_intmap_del m a = Some m' \<and> im_abs m' b = Some w \<and> vd_intmap_tryget m' b = Some (Some 0)"
proof -
  let ?i = "im_index (im_cap m) a"
  have cap: "0 < im_cap m" "im_cap m \<le> length (im_table m)" using i by (auto simp: im_inv_def)
  then have "?i < im_cap m" by (simp add: im_index_def)
  then have l: "?i < length (im_table m)" using cap by simp
  have w: "im_walk (im_table m) a ?i = Some (Some ?i)" using l a by (subst im_walk.simps) simp
  let ?e = "(im_table m ! ?i)\<lparr>ie_used := False, ie_k := 0, ie_v := 0\<rparr>"
  have "im_abs m a = Some (ie_v (im_table m ! ?i))" using im_abs_slot [OF i] l a by blast
  from vd_intmap_del_present [OF i this] obtain m' where m': "vd_intmap_del m a = Some m'"
    "im_abs m' = (im_abs m)(a := None)" by blast
  have t: "im_table m' = (im_table m)[?i := ?e]" "im_cap m' = im_cap m"
    using m'(1) w cap by (auto simp: vd_intmap_del_def)
  have "im_walk (im_table m') b ?i = Some (Some ?i)" unfolding t using l by (intro im_walk_unused) simp_all
  then have "vd_intmap_tryget m' b = Some (Some 0)"
    using t l cap h(1) by (simp add: vd_intmap_tryget_def)
  with m' b h(2) show ?thesis by simp
qed

text \<open>Deleting an absent key whose bucket is free lowers the count as well.\<close>

lemma vd_intmap_del_absent_count:
  assumes i: "im_inv m" and a: "im_abs m k = None" and f: "\<not> ie_used (im_table m ! im_index (im_cap m) k)"
  shows "\<exists>m'. vd_intmap_del m k = Some m' \<and> im_usecount m' = im_usecount m - 1"
proof -
  have cap: "0 < im_cap m" "im_cap m \<le> length (im_table m)" using i by (auto simp: im_inv_def)
  then have "im_index (im_cap m) k < im_cap m" by (simp add: im_index_def)
  then have "im_walk (im_table m) k (im_index (im_cap m) k) = Some (Some (im_index (im_cap m) k))"
    using f cap by (intro im_walk_unused) simp_all
  with cap show ?thesis by (simp add: vd_intmap_del_def)
qed

text \<open>Deleting a present key returns and removes exactly its pair from the represented map;
  the count drops by one and stays the number of stored pairs.\<close>

theorem vd_intmap_del_abs:
  assumes "im_inv m" and "im_abs m k = Some v"
  shows "\<exists>m'. vd_intmap_del m k = Some m' \<and> im_abs m' = (im_abs m)(k := None)
    \<and> im_usecount m' = im_usecount m - 1 \<and> im_usecount m' = length (im_pairs (im_table m'))"
  using assms by (rule vd_intmap_del_present)

lemma vd_intmap_one:
  obtains m where "map_option snd (vd_intmap_set (vd_intmap_init 4 0) k v) = Some m"
    and "im_inv m" and "im_abs m = [k \<mapsto> v]"
proof -
  have "(0::nat) < 4" "0 AND VD_INTMAP_FLAG_NO_AUTOGROW = 0" by simp_all
  note i = vd_intmap_init_inv [OF this]
  have n: "im_abs (vd_intmap_init 4 0) k = None" unfolding i(2) ..
  obtain m where m: "map_option snd (vd_intmap_set (vd_intmap_init 4 0) k v) = Some m"
    using im.insert_defined [OF i(1) n] by blast
  from im.insert_inv [OF i(1) n m] im.insert_abs [OF i(1) n m] m show thesis
    unfolding i(2) by (intro that)
qed

theorem vd_intmap_del_abs_witness:
  "\<exists>m m'. map_option snd (vd_intmap_set (vd_intmap_init 4 0) 7 70) = Some m
    \<and> vd_intmap_del m 7 = Some m' \<and> im_abs m' = Map.empty"
proof -
  obtain m where m: "map_option snd (vd_intmap_set (vd_intmap_init 4 0) 7 70) = Some m"
    "im_inv m" "im_abs m = [7 \<mapsto> 70]" by (rule vd_intmap_one)
  have "im_abs m 7 = Some 70" using m(3) by simp
  from vd_intmap_del_abs [OF m(2) this] obtain m' where
    "vd_intmap_del m 7 = Some m'" "im_abs m' = (im_abs m)(7 := None)" by blast
  moreover have "(im_abs m)(7 := None) = Map.empty" unfolding m(3) by (rule ext) simp
  ultimately show ?thesis using m(1) by metis
qed

end
