(* ===== verification/Handlemap.thy ===== *)
theory Handlemap
  imports Intmap
begin

text \<open>
  The handle map of lib/handlemap.h and lib/handlemap.c: an array of slots, each with the
  metadata of an object and its bytes, and an integer map from handle ids to slots. A slot that
  a growth added and nothing has written yet is \<open>None\<close>. The calls of \<open>on_free_object\<close> are a log
  of the values they are given. A pointer to the value of a slot is the index of the slot.

  The lemmas show that ids and slots correspond, that registered objects resolve to their slot,
  and that the reference count decides when an object is freed; and what happens to handles that
  outlive their object.
\<close>

section \<open>Definitions\<close>

datatype VD_HandleMapRefMode = VD_HANDLEMAP_REF_MODE_ALWAYS | VD_HANDLEMAP_REF_MODE_COUNT

record hm_slot =
  hs_refcount :: int
  hs_refmode :: VD_HandleMapRefMode
  hs_id :: u64
  hs_value :: "u8 list"

record vd_handlemap =
  hm_arr :: "hm_slot option list"
  hm_arr_len :: nat
  hm_idmap :: vd_intmap
  hm_elsize :: nat
  hm_next_id :: u64
  hm_freed :: "u8 list list"

text \<open>A handle; \<open>vh_map\<close> tells whether its \<open>map\<close> pointer is the map at hand or null.\<close>

record vd_handle =
  vh_id :: u64
  vh_map :: bool

definition INVALID_HANDLE :: vd_handle where
  "INVALID_HANDLE = \<lparr>vh_id = 0, vh_map = False\<rparr>"

text \<open>The size in bytes of an array of \<open>n\<close> slots; an allocation has to fit \<open>size_t\<close>.\<close>

definition hm_bytes :: "nat \<Rightarrow> nat \<Rightarrow> nat" where
  "hm_bytes elsize n = (16 + elsize) * n"

definition zero_slot :: "nat \<Rightarrow> hm_slot" where
  "zero_slot elsize = \<lparr>hs_refcount = 0, hs_refmode = VD_HANDLEMAP_REF_MODE_ALWAYS, hs_id = 0,
     hs_value = replicate elsize 0\<rparr>"

definition vd_handlemap__init :: "nat \<Rightarrow> nat \<Rightarrow> vd_handlemap option" where
  "vd_handlemap__init elsize initial_capacity =
     (if hm_bytes elsize initial_capacity < 2 ^ 64 then
        Some \<lparr>hm_arr = replicate initial_capacity (Some (zero_slot elsize)), hm_arr_len = 0,
              hm_idmap = vd_intmap_init initial_capacity 0, hm_elsize = elsize, hm_next_id = 1,
              hm_freed = []\<rparr>
      else None)"

definition hm_allocate_slot :: "vd_handlemap \<Rightarrow> (nat \<times> vd_handlemap) option" where
  "hm_allocate_slot m =
     (if hm_arr_len m = length (hm_arr m) then
        if hm_bytes (hm_elsize m) (length (hm_arr m) * 2) < 2 ^ 64 then
          Some (hm_arr_len m, m\<lparr>hm_arr := hm_arr m @ replicate (length (hm_arr m)) None,
                                hm_arr_len := hm_arr_len m + 1\<rparr>)
        else None
      else Some (hm_arr_len m, m\<lparr>hm_arr_len := hm_arr_len m + 1\<rparr>))"

definition vd_handlemap__register ::
  "vd_handlemap \<Rightarrow> u8 list \<Rightarrow> VD_HandleMapRefMode \<Rightarrow> (vd_handle \<times> vd_handlemap) option" where
  "vd_handlemap__register m valueptr ref_mode =
     (let id = hm_next_id m in
      do { (slot, m1) \<leftarrow> hm_allocate_slot (m\<lparr>hm_next_id := id + 1\<rparr>);
           (_, idmap) \<leftarrow> vd_intmap_set (hm_idmap m1) id (of_nat slot);
           if slot < length (hm_arr m1) \<and> hm_elsize m \<le> length valueptr then
             Some (\<lparr>vh_id = id, vh_map = True\<rparr>,
               m1\<lparr>hm_idmap := idmap,
                  hm_arr := (hm_arr m1)[slot := Some \<lparr>hs_refcount = 1, hs_refmode = ref_mode,
                    hs_id = id, hs_value = take (hm_elsize m) valueptr\<rparr>]\<rparr>)
           else None })"

text \<open>\<open>vd_handle_use\<close>: the slot whose value it points to, or null. It does not read the slot.\<close>

definition vd_handle_use :: "vd_handlemap \<Rightarrow> vd_handle \<Rightarrow> nat option option" where
  "vd_handle_use m h =
     (if vh_map h then map_option (map_option unat) (vd_intmap_tryget (hm_idmap m) (vh_id h)) else None)"

text \<open>Reading the metadata of a slot.\<close>

definition hm_metadata :: "vd_handlemap \<Rightarrow> nat \<Rightarrow> hm_slot option" where
  "hm_metadata m slot = (if slot < length (hm_arr m) then hm_arr m ! slot else None)"

definition vd_handlemap_copy :: "vd_handlemap \<Rightarrow> vd_handle \<Rightarrow> (vd_handle \<times> vd_handlemap) option" where
  "vd_handlemap_copy m h =
     do { r \<leftarrow> vd_handle_use m h;
          case r of
            None \<Rightarrow> Some (INVALID_HANDLE, m)
          | Some slot \<Rightarrow>
              do { s \<leftarrow> hm_metadata m slot;
                   if hs_refmode s = VD_HANDLEMAP_REF_MODE_COUNT then
                     if hs_refcount s + 1 < 2 ^ 31 then
                       Some (h, m\<lparr>hm_arr := (hm_arr m)[slot := Some (s\<lparr>hs_refcount := hs_refcount s + 1\<rparr>)]\<rparr>)
                     else None
                   else Some (h, m) } }"

text \<open>\<open>vd_handle_drop\<close>: it writes through the pointer to the handle, so that is a result too.\<close>

definition vd_handle_drop :: "vd_handlemap \<Rightarrow> vd_handle \<Rightarrow> (vd_handle \<times> vd_handlemap) option" where
  "vd_handle_drop m h =
     do { r \<leftarrow> vd_handle_use m h;
          case r of
            None \<Rightarrow> Some (h, m)
          | Some slot \<Rightarrow>
              do { s \<leftarrow> hm_metadata m slot;
                   if hs_refmode s = VD_HANDLEMAP_REF_MODE_COUNT then
                     let n = hs_refcount s - 1; s1 = s\<lparr>hs_refcount := n\<rparr> in
                     if n < 0 then None
                     else if n = 0 then
                       Some (h\<lparr>vh_id := 0\<rparr>,
                         m\<lparr>hm_arr := (hm_arr m)[slot := Some (s1\<lparr>hs_id := 0\<rparr>)],
                           hm_freed := hm_freed m @ [hs_value s]\<rparr>)
                     else Some (h\<lparr>vh_id := 0\<rparr>, m\<lparr>hm_arr := (hm_arr m)[slot := Some s1]\<rparr>)
                   else Some (h\<lparr>vh_id := 0\<rparr>, m) } }"

text \<open>\<open>vd_handlemap__deinit\<close>: the loop over the slots; the result is the log of freed values.\<close>

fun hm_deinit_loop :: "hm_slot option list \<Rightarrow> u8 list list \<Rightarrow> u8 list list option" where
  "hm_deinit_loop [] freed = Some freed"
| "hm_deinit_loop (None # xs) freed = None"
| "hm_deinit_loop (Some s # xs) freed =
     hm_deinit_loop xs (if hs_id s = 0 then freed else freed @ [hs_value s])"

definition vd_handlemap__deinit :: "vd_handlemap \<Rightarrow> u8 list list option" where
  "vd_handlemap__deinit m =
     (if hm_arr_len m \<le> length (hm_arr m) then hm_deinit_loop (take (hm_arr_len m) (hm_arr m)) (hm_freed m)
      else None)"

section \<open>Invariant\<close>

text \<open>Ids are handed out in the order of the slots: id \<open>i + 1\<close> is slot \<open>i\<close>.\<close>

definition hm_ids :: "nat \<Rightarrow> u64 \<Rightarrow> u64 option" where
  "hm_ids n k = (if 1 \<le> unat k \<and> unat k \<le> n then Some (k - 1) else None)"

text \<open>The slot of a registered object; its id is cleared when the object is freed.\<close>

definition hm_slot_ok :: "nat \<Rightarrow> nat \<Rightarrow> hm_slot \<Rightarrow> bool" where
  "hm_slot_ok elsize i s \<longleftrightarrow> length (hs_value s) = elsize \<and> 0 \<le> hs_refcount s \<and>
     (hs_id s = of_nat (Suc i) \<or> hs_id s = 0 \<and> hs_refmode s = VD_HANDLEMAP_REF_MODE_COUNT)"

definition hm_inv :: "vd_handlemap \<Rightarrow> bool" where
  "hm_inv m \<longleftrightarrow> im_inv (hm_idmap m) \<and> 0 < length (hm_arr m) \<and> hm_arr_len m \<le> length (hm_arr m) \<and>
     hm_bytes (hm_elsize m) (length (hm_arr m)) < 2 ^ 64 \<and>
     hm_next_id m = of_nat (Suc (hm_arr_len m)) \<and>
     im_abs (hm_idmap m) = hm_ids (hm_arr_len m) \<and>
     (\<forall>i < hm_arr_len m. \<exists>s. hm_arr m ! i = Some s \<and> hm_slot_ok (hm_elsize m) i s) \<and>
     (hm_arr_len m = 0 \<longrightarrow> hm_arr m ! 0 = Some (zero_slot (hm_elsize m)))"

lemma hm_len_bound: "hm_inv m \<Longrightarrow> hm_arr_len m < 2 ^ 60"
proof -
  assume i: "hm_inv m"
  then have "16 * hm_arr_len m \<le> hm_bytes (hm_elsize m) (length (hm_arr m))"
    unfolding hm_inv_def hm_bytes_def by (intro mult_le_mono) auto
  with i show ?thesis by (simp add: hm_inv_def)
qed

lemma hm_ids_Suc: "n < 2 ^ 60 \<Longrightarrow> hm_ids (Suc n) = (hm_ids n)(of_nat (Suc n) \<mapsto> of_nat n)"
proof
  fix k :: u64
  assume n: "n < 2 ^ 60"
  then have u: "unat (of_nat (Suc n) :: u64) = Suc n" by (intro unat_of_nat_lt) simp
  show "hm_ids (Suc n) k = ((hm_ids n)(of_nat (Suc n) \<mapsto> of_nat n)) k"
  proof (cases "k = of_nat (Suc n)")
    case True
    then show ?thesis using u by (simp add: hm_ids_def)
  next
    case False
    then have "unat k \<noteq> Suc n" by (metis of_nat_unat ucast_id unat_ucast_up order_refl)
    then show ?thesis using False by (auto simp: hm_ids_def)
  qed
qed

lemma hm_init_inv:
  assumes "vd_handlemap__init elsize cap = Some m" and "0 < cap"
  shows "hm_inv m"
proof -
  have "hm_ids 0 = Map.empty" by (rule ext) (simp add: hm_ids_def)
  then show ?thesis using assms vd_intmap_init_inv [of cap 0]
    by (auto simp: vd_handlemap__init_def hm_inv_def split: if_splits)
qed

section \<open>Registration and use\<close>

lemma hm_Suc_word: "n < 2 ^ 60 \<Longrightarrow> Suc n < 2 ^ LENGTH(64)"
  by simp

definition hm_live_id :: "vd_handlemap \<Rightarrow> vd_handle \<Rightarrow> bool" where
  "hm_live_id m h \<longleftrightarrow> vh_map h \<and> 1 \<le> unat (vh_id h) \<and> unat (vh_id h) \<le> hm_arr_len m"

text \<open>A handle that was handed out resolves to its slot, whatever became of the object.\<close>

lemma hm_use_registered:
  assumes i: "hm_inv m" and h: "hm_live_id m h"
  shows "vd_handle_use m h = Some (Some (unat (vh_id h) - 1))"
proof -
  have "im_abs (hm_idmap m) (vh_id h) = Some (vh_id h - 1)"
    using i h by (simp add: hm_inv_def hm_ids_def hm_live_id_def)
  then have "vd_intmap_tryget (hm_idmap m) (vh_id h) = Some (Some (vh_id h - 1))"
    using i by (intro vd_intmap_tryget_abs) (simp_all add: hm_inv_def)
  moreover have "unat (vh_id h - 1) = unat (vh_id h) - 1"
    using h by (intro unat_minus_one) (auto simp: hm_live_id_def)
  ultimately show ?thesis using h by (simp add: vd_handle_use_def hm_live_id_def)
qed

lemma hm_slot_registered:
  assumes "hm_inv m" and "hm_live_id m h"
  obtains s where "hm_metadata m (unat (vh_id h) - 1) = Some s"
    and "hm_slot_ok (hm_elsize m) (unat (vh_id h) - 1) s"
proof -
  have "unat (vh_id h) - 1 < hm_arr_len m" using assms(2) by (auto simp: hm_live_id_def)
  moreover from this obtain s where "hm_arr m ! (unat (vh_id h) - 1) = Some s"
    "hm_slot_ok (hm_elsize m) (unat (vh_id h) - 1) s"
    using assms(1) unfolding hm_inv_def by blast
  ultimately show thesis using assms(1) by (intro that [of s]) (simp_all add: hm_inv_def hm_metadata_def)
qed

lemma hm_allocate_slot_ok:
  assumes "hm_arr_len m \<le> length (hm_arr m)" and "0 < length (hm_arr m)"
    and "hm_bytes (hm_elsize m) (length (hm_arr m)) < 2 ^ 64"
    and "hm_bytes (hm_elsize m) (length (hm_arr m) * 2) < 2 ^ 64"
  obtains xs where "hm_allocate_slot m = Some (hm_arr_len m, m\<lparr>hm_arr := hm_arr m @ xs,
      hm_arr_len := Suc (hm_arr_len m)\<rparr>)"
    and "hm_arr_len m < length (hm_arr m @ xs)"
    and "hm_bytes (hm_elsize m) (length (hm_arr m @ xs)) < 2 ^ 64"
proof (cases "hm_arr_len m = length (hm_arr m)")
  case True
  then show thesis using assms that [of "replicate (length (hm_arr m)) None"]
    by (simp add: hm_allocate_slot_def mult_2_right)
next
  case False
  then show thesis using assms that [of "[]"] by (simp add: hm_allocate_slot_def)
qed

lemma hm_register_step:
  assumes i: "hm_inv m" and g: "hm_bytes (hm_elsize m) (length (hm_arr m) * 2) < 2 ^ 64"
    and v: "hm_elsize m \<le> length v"
  obtains m' where "vd_handlemap__register m v mode = Some (\<lparr>vh_id = hm_next_id m, vh_map = True\<rparr>, m')"
    and "hm_inv m'" and "hm_arr_len m' = Suc (hm_arr_len m)" and "hm_elsize m' = hm_elsize m"
    and "hm_freed m' = hm_freed m"
    and "hm_metadata m' (hm_arr_len m) = Some \<lparr>hs_refcount = 1, hs_refmode = mode,
          hs_id = hm_next_id m, hs_value = take (hm_elsize m) v\<rparr>"
    and "\<forall>j < hm_arr_len m. hm_metadata m' j = hm_metadata m j"
proof -
  let ?n = "hm_arr_len m" and ?id = "hm_next_id m"
  have n60: "?n < 2 ^ 60" using i by (rule hm_len_bound)
  have idn: "?id = of_nat (Suc ?n)" and ii: "im_inv (hm_idmap m)" and nl: "?n \<le> length (hm_arr m)"
    and abs: "im_abs (hm_idmap m) = hm_ids ?n" using i by (auto simp: hm_inv_def)
  have uid: "unat ?id = Suc ?n" unfolding idn using n60 by (intro unat_of_nat_lt) simp
  obtain xs where xs: "hm_allocate_slot (m\<lparr>hm_next_id := ?id + 1\<rparr>) =
      Some (?n, m\<lparr>hm_next_id := ?id + 1, hm_arr := hm_arr m @ xs, hm_arr_len := Suc ?n\<rparr>)"
    "?n < length (hm_arr m @ xs)" "hm_bytes (hm_elsize m) (length (hm_arr m @ xs)) < 2 ^ 64"
    using hm_allocate_slot_ok [of "m\<lparr>hm_next_id := ?id + 1\<rparr>"] i g by (auto simp: hm_inv_def)
  have "im_abs (hm_idmap m) ?id = None" using uid by (simp add: abs hm_ids_def)
  from vd_intmap_set_fresh [OF ii this, of "of_nat ?n"] obtain im where im:
    "vd_intmap_set (hm_idmap m) ?id (of_nat ?n) = Some (True, im)" "im_inv im"
    "im_abs im = (im_abs (hm_idmap m))(?id \<mapsto> of_nat ?n)" by blast
  have ids: "im_abs im = hm_ids (Suc ?n)" unfolding im(3) abs idn by (rule hm_ids_Suc [OF n60, symmetric])
  let ?s = "\<lparr>hs_refcount = 1, hs_refmode = mode, hs_id = ?id, hs_value = take (hm_elsize m) v\<rparr>"
  let ?m = "m\<lparr>hm_next_id := ?id + 1, hm_arr_len := Suc ?n, hm_idmap := im,
    hm_arr := (hm_arr m @ xs)[?n := Some ?s]\<rparr>"
  have r: "vd_handlemap__register m v mode = Some (\<lparr>vh_id = ?id, vh_map = True\<rparr>, ?m)"
    using xs im v by (simp add: vd_handlemap__register_def Let_def)
  have "hm_slot_ok (hm_elsize m) ?n ?s" using v idn by (simp add: hm_slot_ok_def)
  then have "\<forall>j < Suc ?n. \<exists>s. (hm_arr m @ xs)[?n := Some ?s] ! j = Some s \<and> hm_slot_ok (hm_elsize m) j s"
    using i xs(2) nl by (auto simp: hm_inv_def less_Suc_eq nth_append)
  then have inv: "hm_inv ?m" using im(2) ids xs idn by (auto simp: hm_inv_def)
  have "hm_metadata ?m ?n = Some ?s" using xs(2) by (simp add: hm_metadata_def)
  moreover have "\<forall>j < ?n. hm_metadata ?m j = hm_metadata m j"
    using nl by (auto simp: hm_metadata_def nth_append)
  ultimately show thesis using r inv by (intro that [of ?m]) simp_all
qed

text \<open>A registered object is found again through its handle: the handle resolves to a slot
  that holds the bytes given and a reference count of one, and no other object moves or changes,
  growth of the array included.\<close>

theorem vd_handlemap_register_use:
  assumes "hm_inv m" and "hm_bytes (hm_elsize m) (length (hm_arr m) * 2) < 2 ^ 64"
    and "hm_elsize m \<le> length v"
  shows "\<exists>h m'. vd_handlemap__register m v mode = Some (h, m') \<and> hm_inv m'
    \<and> vd_handle_use m' h = Some (Some (hm_arr_len m))
    \<and> hm_metadata m' (hm_arr_len m) = Some \<lparr>hs_refcount = 1, hs_refmode = mode, hs_id = vh_id h,
          hs_value = take (hm_elsize m) v\<rparr>
    \<and> (\<forall>h'. hm_live_id m h' \<longrightarrow> vd_handle_use m' h' = vd_handle_use m h'
          \<and> hm_metadata m' (unat (vh_id h') - 1) = hm_metadata m (unat (vh_id h') - 1))"
proof -
  let ?h = "\<lparr>vh_id = hm_next_id m, vh_map = True\<rparr>"
  obtain m' where m': "vd_handlemap__register m v mode = Some (?h, m')" "hm_inv m'"
    "hm_arr_len m' = Suc (hm_arr_len m)"
    "hm_metadata m' (hm_arr_len m) = Some \<lparr>hs_refcount = 1, hs_refmode = mode,
          hs_id = hm_next_id m, hs_value = take (hm_elsize m) v\<rparr>"
    "\<forall>j < hm_arr_len m. hm_metadata m' j = hm_metadata m j"
    using hm_register_step [OF assms, of mode] by metis
  have u: "unat (hm_next_id m) = Suc (hm_arr_len m)"
    using assms(1) hm_len_bound [OF assms(1)] unfolding hm_inv_def by (metis unat_of_nat_lt hm_Suc_word)
  then have "hm_live_id m' ?h" using m'(3) by (simp add: hm_live_id_def)
  from hm_use_registered [OF m'(2) this] u have use: "vd_handle_use m' ?h = Some (Some (hm_arr_len m))"
    by simp
  have "vd_handle_use m' h' = vd_handle_use m h' \<and> hm_metadata m' (unat (vh_id h') - 1) =
      hm_metadata m (unat (vh_id h') - 1)" if h': "hm_live_id m h'" for h'
  proof -
    have "hm_live_id m' h'" using h' m'(3) by (simp add: hm_live_id_def)
    moreover have "unat (vh_id h') - 1 < hm_arr_len m" using h' by (auto simp: hm_live_id_def)
    ultimately show ?thesis
      using hm_use_registered [OF m'(2)] hm_use_registered [OF assms(1) h'] m'(5) by simp
  qed
  with m' use show ?thesis by (intro exI [of _ ?h] exI [of _ m']) simp
qed

lemma hm_init_example:
  obtains m where "vd_handlemap__init 2 4 = Some m" and "hm_inv m"
    and "hm_bytes (hm_elsize m) (length (hm_arr m) * 2) < 2 ^ 64" and "hm_elsize m = 2"
    and "hm_freed m = []"
proof -
  obtain m where m: "vd_handlemap__init 2 4 = Some m"
    by (simp add: vd_handlemap__init_def hm_bytes_def)
  then show thesis using hm_init_inv [OF m]
    by (intro that [of m]) (auto simp: vd_handlemap__init_def hm_bytes_def split: if_splits)
qed

theorem vd_handlemap_register_use_witness:
  "\<exists>m h m'. vd_handlemap__init 2 4 = Some m
    \<and> vd_handlemap__register m [7, 8] VD_HANDLEMAP_REF_MODE_COUNT = Some (h, m')
    \<and> vd_handle_use m' h = Some (Some (hm_arr_len m))"
proof -
  obtain m where m: "vd_handlemap__init 2 4 = Some m" "hm_inv m"
    "hm_bytes (hm_elsize m) (length (hm_arr m) * 2) < 2 ^ 64" "hm_elsize m \<le> length [7, 8 :: u8]"
    using hm_init_example by (metis One_nat_def Suc_1 length_Cons list.size(3) order_refl)
  show ?thesis
    using vd_handlemap_register_use [OF m(2,3,4), of VD_HANDLEMAP_REF_MODE_COUNT] m(1) by blast
qed

section \<open>Reference counts\<close>

definition hm_put :: "vd_handlemap \<Rightarrow> nat \<Rightarrow> hm_slot \<Rightarrow> vd_handlemap" where
  "hm_put m i s = m\<lparr>hm_arr := (hm_arr m)[i := Some s]\<rparr>"

lemma hm_put_inv:
  "hm_inv m \<Longrightarrow> i < hm_arr_len m \<Longrightarrow> hm_slot_ok (hm_elsize m) i s \<Longrightarrow> hm_inv (hm_put m i s)"
  by (auto simp: hm_inv_def hm_put_def nth_list_update)

lemma hm_put_simps [simp]:
  "hm_arr_len (hm_put m i s) = hm_arr_len m" "hm_elsize (hm_put m i s) = hm_elsize m"
  "hm_freed (hm_put m i s) = hm_freed m" "hm_idmap (hm_put m i s) = hm_idmap m"
  by (simp_all add: hm_put_def)

lemma hm_put_metadata: "i < length (hm_arr m) \<Longrightarrow>
    hm_metadata (hm_put m i s) j = (if j = i then Some s else hm_metadata m j)"
  by (simp add: hm_metadata_def hm_put_def)

lemma hm_freed_inv [simp]: "hm_inv (m\<lparr>hm_freed := xs\<rparr>) = hm_inv m"
  by (simp add: hm_inv_def)

lemma hm_freed_new: "hm_freed (m\<lparr>hm_freed := xs\<rparr>) = xs"
  by simp

lemma hm_freed_metadata [simp]: "hm_metadata (m\<lparr>hm_freed := xs\<rparr>) = hm_metadata m"
  by (simp add: hm_metadata_def fun_eq_iff)

lemma hm_copy_count:
  assumes "hm_inv m" and "hm_live_id m h" and "hm_metadata m (unat (vh_id h) - 1) = Some s"
    and "hs_refmode s = VD_HANDLEMAP_REF_MODE_COUNT" and "hs_refcount s + 1 < 2 ^ 31"
  shows "vd_handlemap_copy m h =
    Some (h, hm_put m (unat (vh_id h) - 1) (s\<lparr>hs_refcount := hs_refcount s + 1\<rparr>))"
  using assms by (simp add: vd_handlemap_copy_def hm_use_registered hm_put_def)

lemma hm_drop_count:
  assumes "hm_inv m" and "hm_live_id m h" and "hm_metadata m (unat (vh_id h) - 1) = Some s"
    and "hs_refmode s = VD_HANDLEMAP_REF_MODE_COUNT" and "0 < hs_refcount s"
  shows "vd_handle_drop m h = Some (h\<lparr>vh_id := 0\<rparr>,
    if hs_refcount s = 1
    then (hm_put m (unat (vh_id h) - 1) (s\<lparr>hs_refcount := 0, hs_id := 0\<rparr>))\<lparr>hm_freed := hm_freed m @ [hs_value s]\<rparr>
    else hm_put m (unat (vh_id h) - 1) (s\<lparr>hs_refcount := hs_refcount s - 1\<rparr>))"
  using assms by (simp add: vd_handle_drop_def hm_use_registered hm_put_def Let_def)

text \<open>A run of copies (\<open>True\<close>) and drops (\<open>False\<close>) of handles to one object, each made while a
  reference is held; \<open>hm_refs\<close> counts the references left.\<close>

fun hm_refs_ok :: "int \<Rightarrow> bool list \<Rightarrow> bool" where
  "hm_refs_ok n [] = True"
| "hm_refs_ok n (b # bs) = (0 < n \<and> n + 1 < 2 ^ 31 \<and> hm_refs_ok (if b then n + 1 else n - 1) bs)"

definition hm_refs :: "int \<Rightarrow> bool list \<Rightarrow> int" where
  "hm_refs n bs = n + int (length (filter id bs)) - int (length (filter Not bs))"

definition hm_ref_op :: "vd_handle \<Rightarrow> bool \<Rightarrow> vd_handlemap \<Rightarrow> vd_handlemap option" where
  "hm_ref_op h b m = map_option snd (if b then vd_handlemap_copy m h else vd_handle_drop m h)"

lemma hm_refs_step: "hm_refs n (b # bs) = hm_refs (if b then n + 1 else n - 1) bs"
  by (simp add: hm_refs_def)

lemma hm_ref_run:
  assumes "hm_inv m" and "hm_live_id m h" and "hm_metadata m (unat (vh_id h) - 1) = Some s"
    and "hs_refmode s = VD_HANDLEMAP_REF_MODE_COUNT" and "hs_refcount s = n" and "hm_refs_ok n bs"
    and "0 < n"
  shows "\<exists>m' s'. run_ops (hm_ref_op h) bs m = Some m' \<and> hm_metadata m' (unat (vh_id h) - 1) = Some s'
    \<and> hs_refcount s' = hm_refs n bs \<and> hs_value s' = hs_value s
    \<and> hm_freed m' = hm_freed m @ (if hm_refs n bs = 0 then [hs_value s] else [])
    \<and> (\<forall>j. j \<noteq> unat (vh_id h) - 1 \<longrightarrow> hm_metadata m' j = hm_metadata m j)"
  using assms
proof (induction bs arbitrary: m s n)
  case Nil
  then show ?case by (simp add: hm_refs_def)
next
  case (Cons b bs)
  let ?i = "unat (vh_id h) - 1" and ?n = "if b then n + 1 else n - 1"
  have i: "?i < hm_arr_len m" "?i < length (hm_arr m)"
    using Cons.prems(1,2) by (auto simp: hm_live_id_def hm_inv_def)
  have ok: "hm_slot_ok (hm_elsize m) ?i s"
    using hm_slot_registered [OF Cons.prems(1,2)] Cons.prems(3) by auto
  show ?case
  proof (cases "?n = 0")
    case True
    then have b: "\<not> b" "n = 1" using Cons.prems(7) by (auto split: if_splits)
    then have "bs = []" using Cons.prems(6) by (cases bs) auto
    then show ?thesis using hm_drop_count [OF Cons.prems(1-4)] Cons.prems(5) b i
      by (simp add: hm_ref_op_def hm_refs_def hm_put_metadata)
  next
    case False
    let ?s = "s\<lparr>hs_refcount := ?n\<rparr>" and ?m = "hm_put m ?i (s\<lparr>hs_refcount := ?n\<rparr>)"
    have "hm_ref_op h b m = Some ?m"
      using hm_drop_count [OF Cons.prems(1-4)] hm_copy_count [OF Cons.prems(1-4)] False Cons.prems(5-7)
      by (auto simp: hm_ref_op_def)
    moreover have "0 < ?n" using False Cons.prems(7) by auto
    moreover from this have "hm_inv ?m" using Cons.prems(1) i ok by (intro hm_put_inv) (auto simp: hm_slot_ok_def)
    moreover have "hm_live_id ?m h" using Cons.prems(2) by (simp add: hm_live_id_def)
    moreover have "hm_metadata ?m ?i = Some ?s" using i by (simp add: hm_put_metadata)
    ultimately show ?thesis
      using Cons.IH [of ?m ?s ?n] Cons.prems(4,6) i by (auto simp: hm_refs_step hm_put_metadata)
  qed
qed

text \<open>C5. A counted object is freed exactly when its count reaches zero: after registering it and
  then copying and dropping handles to it in any order, each while a reference is held, the count
  is one plus the copies less the drops, and \<open>on_free_object\<close> was called on its bytes once if that
  is zero and not at all otherwise; no other slot changes.\<close>

theorem vd_handlemap_refcount:
  assumes "hm_inv m" and "hm_bytes (hm_elsize m) (length (hm_arr m) * 2) < 2 ^ 64"
    and "hm_elsize m \<le> length v" and "hm_refs_ok 1 bs"
  shows "\<exists>h m1 m' s'. vd_handlemap__register m v VD_HANDLEMAP_REF_MODE_COUNT = Some (h, m1)
    \<and> run_ops (hm_ref_op h) bs m1 = Some m' \<and> hm_metadata m' (hm_arr_len m) = Some s'
    \<and> hs_refcount s' = hm_refs 1 bs
    \<and> hm_freed m' = hm_freed m @ (if hm_refs 1 bs = 0 then [take (hm_elsize m) v] else [])
    \<and> (\<forall>j < hm_arr_len m. hm_metadata m' j = hm_metadata m j)"
proof -
  let ?h = "\<lparr>vh_id = hm_next_id m, vh_map = True\<rparr>"
  obtain m1 where m1: "vd_handlemap__register m v VD_HANDLEMAP_REF_MODE_COUNT = Some (?h, m1)" "hm_inv m1"
    "hm_arr_len m1 = Suc (hm_arr_len m)" "hm_freed m1 = hm_freed m"
    "hm_metadata m1 (hm_arr_len m) = Some \<lparr>hs_refcount = 1, hs_refmode = VD_HANDLEMAP_REF_MODE_COUNT,
          hs_id = hm_next_id m, hs_value = take (hm_elsize m) v\<rparr>"
    "\<forall>j < hm_arr_len m. hm_metadata m1 j = hm_metadata m j"
    using hm_register_step [OF assms(1-3), of VD_HANDLEMAP_REF_MODE_COUNT] by metis
  have u: "unat (hm_next_id m) = Suc (hm_arr_len m)"
    using assms(1) hm_len_bound [OF assms(1)] unfolding hm_inv_def by (metis unat_of_nat_lt hm_Suc_word)
  have live: "hm_live_id m1 ?h" using m1(3) u by (simp add: hm_live_id_def)
  have slot: "unat (vh_id ?h) - 1 = hm_arr_len m" by (simp add: u)
  from hm_ref_run [OF m1(2) live, unfolded slot, OF m1(5) _ _ assms(4)] obtain m' s' where
    "run_ops (hm_ref_op ?h) bs m1 = Some m'" "hm_metadata m' (hm_arr_len m) = Some s'"
    "hs_refcount s' = hm_refs 1 bs"
    "hm_freed m' = hm_freed m1 @ (if hm_refs 1 bs = 0 then [take (hm_elsize m) v] else [])"
    "\<forall>j. j \<noteq> hm_arr_len m \<longrightarrow> hm_metadata m' j = hm_metadata m1 j" by auto
  with m1 show ?thesis by (intro exI [of _ ?h] exI [of _ m1] exI [of _ m'] exI [of _ s']) simp
qed

theorem vd_handlemap_refcount_witness:
  "\<exists>m h m1 m'. vd_handlemap__init 2 4 = Some m
    \<and> vd_handlemap__register m [7, 8] VD_HANDLEMAP_REF_MODE_COUNT = Some (h, m1)
    \<and> run_ops (hm_ref_op h) [True, False, False] m1 = Some m' \<and> hm_freed m' = [[7, 8]]"
proof -
  obtain m where m: "vd_handlemap__init 2 4 = Some m" "hm_inv m"
    "hm_bytes (hm_elsize m) (length (hm_arr m) * 2) < 2 ^ 64" "hm_elsize m = 2" "hm_freed m = []"
    using hm_init_example by blast
  have "hm_elsize m \<le> length [7, 8 :: u8]" "hm_refs_ok 1 [True, False, False]" by (simp_all add: m(4))
  from vd_handlemap_refcount [OF m(2,3) this] obtain h m1 m' where
    r: "vd_handlemap__register m [7, 8] VD_HANDLEMAP_REF_MODE_COUNT = Some (h, m1)"
      "run_ops (hm_ref_op h) [True, False, False] m1 = Some m'"
      "hm_freed m' = hm_freed m @ (if hm_refs 1 [True, False, False] = 0 then [take (hm_elsize m) [7, 8]] else [])"
    by blast
  have "hm_freed m' = [[7, 8]]" using r(3) m(4,5) by (simp add: hm_refs_def)
  with m(1) r(1,2) show ?thesis by blast
qed

section \<open>All operations\<close>

datatype hm_cmd = Register "u8 list" VD_HandleMapRefMode | Copy vd_handle | Drop vd_handle

fun hm_exec :: "hm_cmd \<Rightarrow> vd_handlemap \<Rightarrow> vd_handlemap option" where
  "hm_exec (Register v mode) m =
     (if hm_bytes (hm_elsize m) (length (hm_arr m) * 2) < 2 ^ 64
      then map_option snd (vd_handlemap__register m v mode) else None)"
| "hm_exec (Copy h) m = map_option snd (vd_handlemap_copy m h)"
| "hm_exec (Drop h) m = map_option snd (vd_handle_drop m h)"

lemma hm_ref_op_exec: "hm_ref_op h b m = hm_exec (if b then Copy h else Drop h) m"
  by (simp add: hm_ref_op_def)

lemma hm_ref_run_exec:
  "run_ops (hm_ref_op h) bs = run_ops hm_exec (map (\<lambda>b. if b then Copy h else Drop h) bs)"
proof (induction bs)
  case Nil
  show ?case by (rule ext) simp
next
  case (Cons b bs)
  then show ?case by (intro ext) (simp only: run_ops.simps list.map hm_ref_op_exec)
qed

text \<open>Slots are never given up, and no operation but a registration changes an id.\<close>

definition hm_stable :: "vd_handlemap \<Rightarrow> vd_handlemap \<Rightarrow> bool" where
  "hm_stable m m' \<longleftrightarrow> hm_inv m' \<and> hm_elsize m' = hm_elsize m \<and> hm_arr_len m \<le> hm_arr_len m'
    \<and> (\<forall>j < hm_arr_len m. map_option hs_value (hm_metadata m' j) = map_option hs_value (hm_metadata m j))"

lemma hm_stable_refl: "hm_inv m \<Longrightarrow> hm_stable m m"
  by (simp add: hm_stable_def)

lemma hm_stable_trans: "hm_stable m m' \<Longrightarrow> hm_stable m' m'' \<Longrightarrow> hm_stable m m''"
  by (auto simp: hm_stable_def)

lemma hm_put_stable:
  assumes "hm_inv m" and "i < hm_arr_len m" and "hm_slot_ok (hm_elsize m) i s'"
    and "hm_metadata m i = Some s" and "hs_value s' = hs_value s"
  shows "hm_stable m (hm_put m i s')"
proof -
  have "i < length (hm_arr m)" using assms by (auto simp: hm_inv_def)
  with assms show ?thesis by (simp add: hm_stable_def hm_put_inv hm_put_metadata)
qed

text \<open>A lookup that succeeds, for whatever id, gives a registered slot, or slot 0.\<close>

lemma hm_use_slot:
  assumes i: "hm_inv m" and u: "vd_handle_use m h = Some (Some j)"
  shows "j < hm_arr_len m \<or> j = 0"
proof (cases "im_abs (hm_idmap m) (vh_id h)")
  case None
  with i u show ?thesis
    by (auto simp: vd_handle_use_def hm_inv_def vd_intmap_absent split: if_splits)
next
  case (Some w)
  then have w: "1 \<le> unat (vh_id h)" "unat (vh_id h) \<le> hm_arr_len m" "w = vh_id h - 1"
    using i by (auto simp: hm_inv_def hm_ids_def split: if_splits)
  have "vd_intmap_tryget (hm_idmap m) (vh_id h) = Some (Some w)"
    using i Some by (intro vd_intmap_tryget_abs) (simp_all add: hm_inv_def)
  moreover have "unat w = unat (vh_id h) - 1" using w by (metis unat_eq_zero unat_minus_one not_one_le_zero)
  ultimately show ?thesis using u w by (auto simp: vd_handle_use_def split: if_splits)
qed

lemma hm_count_slot:
  assumes "hm_inv m" and "vd_handle_use m h = Some (Some j)" and "hm_metadata m j = Some s"
    and "hs_refmode s = VD_HANDLEMAP_REF_MODE_COUNT"
  shows "j < hm_arr_len m" and "hm_slot_ok (hm_elsize m) j s"
proof -
  have "hm_arr_len m \<noteq> 0"
    using assms hm_use_slot [OF assms(1,2)] by (auto simp: hm_inv_def hm_metadata_def zero_slot_def split: if_splits)
  then show l: "j < hm_arr_len m" using hm_use_slot [OF assms(1,2)] by auto
  then show "hm_slot_ok (hm_elsize m) j s"
    using assms(1,3) by (auto simp: hm_inv_def hm_metadata_def split: if_splits)
qed

lemma hm_copy_stable:
  assumes i: "hm_inv m" and e: "vd_handlemap_copy m h = Some (h', m')"
  shows "hm_stable m m'"
proof -
  obtain r where r: "vd_handle_use m h = Some r" using e by (auto simp: vd_handlemap_copy_def bind_Some_iff)
  show ?thesis
  proof (cases r)
    case None
    then show ?thesis using e r i by (simp add: vd_handlemap_copy_def hm_stable_refl)
  next
    case (Some j)
    then obtain s where s: "hm_metadata m j = Some s" using e r by (auto simp: vd_handlemap_copy_def bind_Some_iff)
    show ?thesis
    proof (cases "hs_refmode s = VD_HANDLEMAP_REF_MODE_COUNT")
      case True
      note j = hm_count_slot [OF i r [unfolded Some] s True]
      have "hm_slot_ok (hm_elsize m) j (s\<lparr>hs_refcount := hs_refcount s + 1\<rparr>)" using j(2) by (auto simp: hm_slot_ok_def)
      moreover have "m' = hm_put m j (s\<lparr>hs_refcount := hs_refcount s + 1\<rparr>)"
        using e r Some s True by (auto simp: vd_handlemap_copy_def hm_put_def split: if_splits)
      ultimately show ?thesis using hm_put_stable [OF i j(1) _ s] by simp
    next
      case False
      then show ?thesis using e r Some s i by (simp add: vd_handlemap_copy_def hm_stable_refl)
    qed
  qed
qed

lemma hm_drop_stable:
  assumes i: "hm_inv m" and e: "vd_handle_drop m h = Some (h', m')"
  shows "hm_stable m m'"
proof -
  obtain r where r: "vd_handle_use m h = Some r" using e by (auto simp: vd_handle_drop_def bind_Some_iff)
  show ?thesis
  proof (cases r)
    case None
    then show ?thesis using e r i by (simp add: vd_handle_drop_def hm_stable_refl)
  next
    case (Some j)
    then obtain s where s: "hm_metadata m j = Some s" using e r by (auto simp: vd_handle_drop_def bind_Some_iff)
    show ?thesis
    proof (cases "hs_refmode s = VD_HANDLEMAP_REF_MODE_COUNT")
      case True
      note j = hm_count_slot [OF i r [unfolded Some] s True]
      have pos: "0 < hs_refcount s" using e r Some s True by (auto simp: vd_handle_drop_def Let_def split: if_splits)
      let ?s = "if hs_refcount s = 1 then s\<lparr>hs_refcount := 0, hs_id := 0\<rparr> else s\<lparr>hs_refcount := hs_refcount s - 1\<rparr>"
      have ok: "hm_slot_ok (hm_elsize m) j ?s" using j(2) pos True by (auto simp: hm_slot_ok_def)
      have "m' = hm_put m j ?s \<or> m' = (hm_put m j ?s)\<lparr>hm_freed := hm_freed m @ [hs_value s]\<rparr>"
        using e r Some s True by (auto simp: vd_handle_drop_def hm_put_def Let_def split: if_splits)
      moreover have "hm_stable m (hm_put m j ?s)" using hm_put_stable [OF i j(1) ok s] by simp
      ultimately show ?thesis by (auto simp: hm_stable_def)
    next
      case False
      then show ?thesis using e r Some s i by (simp add: vd_handle_drop_def hm_stable_refl)
    qed
  qed
qed

lemma hm_exec_stable: "hm_inv m \<Longrightarrow> hm_exec c m = Some m' \<Longrightarrow> hm_stable m m'"
proof (cases c)
  case (Register v mode)
  assume i: "hm_inv m" and e: "hm_exec c m = Some m'"
  from e Register have g: "hm_bytes (hm_elsize m) (length (hm_arr m) * 2) < 2 ^ 64"
    and r: "map_option snd (vd_handlemap__register m v mode) = Some m'" by (auto split: if_splits)
  from r have v: "hm_elsize m \<le> length v"
    by (auto simp: vd_handlemap__register_def Let_def bind_Some_iff split: if_splits)
  obtain m1 where "vd_handlemap__register m v mode = Some (\<lparr>vh_id = hm_next_id m, vh_map = True\<rparr>, m1)"
    "hm_inv m1" "hm_arr_len m1 = Suc (hm_arr_len m)" "hm_elsize m1 = hm_elsize m"
    "\<forall>j < hm_arr_len m. hm_metadata m1 j = hm_metadata m j"
    using hm_register_step [OF i g v, of mode] by metis
  moreover from this r have "m1 = m'" by simp
  ultimately show ?thesis by (simp add: hm_stable_def)
qed (auto intro: hm_copy_stable hm_drop_stable)

interpretation hm: op_invariant hm_exec "\<lambda>_. True" "hm_stable m" for m
proof unfold_locales
  fix s c t
  assume s: "hm_stable m s" and "hm_exec c s = Some t"
  then have "hm_stable s t" by (intro hm_exec_stable) (simp add: hm_stable_def)
  with s show "hm_stable m t" by (rule hm_stable_trans)
qed

text \<open>C17. Whatever is registered, copied and dropped afterwards, through valid, stale or made-up
  handles, a handle that was handed out keeps resolving to its slot, and the bytes there stay
  those of its object.\<close>

theorem vd_handle_stable:
  assumes "hm_inv m" and "run_ops hm_exec cs m = Some m'" and "hm_live_id m h"
  shows "vd_handle_use m' h = vd_handle_use m h
    \<and> map_option hs_value (hm_metadata m' (unat (vh_id h) - 1)) =
      map_option hs_value (hm_metadata m (unat (vh_id h) - 1))"
proof -
  have st: "hm_stable m m'"
    using hm.run_inv [of cs m m m'] assms(1,2) hm_stable_refl by (simp add: list_all_iff)
  then have "hm_live_id m' h" using assms(3) by (auto simp: hm_live_id_def hm_stable_def)
  moreover have "unat (vh_id h) - 1 < hm_arr_len m" using assms(3) by (auto simp: hm_live_id_def)
  ultimately show ?thesis
    using st hm_use_registered [OF assms(1,3)] hm_use_registered [of m' h] by (simp add: hm_stable_def)
qed

theorem vd_handle_stable_witness:
  "\<exists>m h m1 m'. vd_handlemap__init 2 4 = Some m
    \<and> vd_handlemap__register m [7, 8] VD_HANDLEMAP_REF_MODE_COUNT = Some (h, m1)
    \<and> run_ops hm_exec [Copy h, Drop h, Drop h] m1 = Some m' \<and> vd_handle_use m' h = vd_handle_use m1 h"
proof -
  obtain m where m: "vd_handlemap__init 2 4 = Some m" "hm_inv m"
    "hm_bytes (hm_elsize m) (length (hm_arr m) * 2) < 2 ^ 64" "hm_elsize m = 2" "hm_freed m = []"
    using hm_init_example by blast
  have v: "hm_elsize m \<le> length [7, 8 :: u8]" by (simp add: m(4))
  let ?h = "\<lparr>vh_id = hm_next_id m, vh_map = True\<rparr>"
  obtain m1 where m1: "vd_handlemap__register m [7, 8] VD_HANDLEMAP_REF_MODE_COUNT = Some (?h, m1)" "hm_inv m1"
    "hm_arr_len m1 = Suc (hm_arr_len m)"
    "hm_metadata m1 (hm_arr_len m) = Some \<lparr>hs_refcount = 1, hs_refmode = VD_HANDLEMAP_REF_MODE_COUNT,
          hs_id = hm_next_id m, hs_value = take (hm_elsize m) [7, 8]\<rparr>"
    using hm_register_step [OF m(2,3) v, of VD_HANDLEMAP_REF_MODE_COUNT] by metis
  have u: "unat (hm_next_id m) = Suc (hm_arr_len m)"
    using m(2) hm_len_bound [OF m(2)] unfolding hm_inv_def by (metis unat_of_nat_lt hm_Suc_word)
  have live: "hm_live_id m1 ?h" using m1(3) u by (simp add: hm_live_id_def)
  have slot: "unat (vh_id ?h) - 1 = hm_arr_len m" by (simp add: u)
  have "\<exists>m'. run_ops (hm_ref_op ?h) [True, False, False] m1 = Some m'"
    using hm_ref_run [OF m1(2) live, unfolded slot, OF m1(4), of 1 "[True, False, False]"] by auto
  then obtain m' where "run_ops hm_exec [Copy ?h, Drop ?h, Drop ?h] m1 = Some m'"
    unfolding hm_ref_run_exec by auto
  with vd_handle_stable [OF m1(2) this live] m(1) m1(1) show ?thesis by blast
qed

text \<open>
  The handle of a freed object is one of them: nothing removes its id from the map, so it still
  resolves (to the slot whose value \<open>on_free_object\<close> was given), and a copy of it brings the
  count back to one, after which a drop frees the object a second time. A dropped handle has the
  id 0, which no object has; when the bucket of 0 is free a lookup of it succeeds with slot 0, so
  dropping the same handle variable twice lowers the count of the first object registered.
\<close>

lemma vd_handle_copy_freed:
  assumes "hm_inv m" and "hm_live_id m h" and "hm_metadata m (unat (vh_id h) - 1) = Some s"
    and "hs_refmode s = VD_HANDLEMAP_REF_MODE_COUNT" and "hs_id s = 0" and "hs_refcount s = 0"
  shows "\<exists>m1 m2. hm_exec (Copy h) m = Some m1 \<and> hm_exec (Drop h) m1 = Some m2
    \<and> hm_freed m2 = hm_freed m @ [hs_value s]"
proof -
  have "unat (vh_id h) - 1 < hm_arr_len m" using assms(2) by (auto simp: hm_live_id_def)
  then have i: "unat (vh_id h) - 1 < hm_arr_len m" "unat (vh_id h) - 1 < length (hm_arr m)"
    using assms(1) by (auto simp: hm_inv_def)
  let ?s = "s\<lparr>hs_refcount := 1\<rparr>" and ?m = "hm_put m (unat (vh_id h) - 1) (s\<lparr>hs_refcount := 1\<rparr>)"
  have c: "hm_exec (Copy h) m = Some ?m" using hm_copy_count [OF assms(1-4)] assms(6) by simp
  have "hm_inv ?m" using hm_exec_stable [OF assms(1) c] by (simp add: hm_stable_def)
  moreover have "hm_live_id ?m h" using assms(2) by (simp add: hm_live_id_def)
  moreover have "hm_metadata ?m (unat (vh_id h) - 1) = Some ?s" using i by (simp add: hm_put_metadata)
  ultimately have "hm_exec (Drop h) ?m =
      Some ((hm_put ?m (unat (vh_id h) - 1) (?s\<lparr>hs_refcount := 0, hs_id := 0\<rparr>))\<lparr>hm_freed := hm_freed m @ [hs_value s]\<rparr>)"
    using hm_drop_count [of ?m h ?s] assms(4) by simp
  with c show ?thesis by (metis hm_freed_new)
qed

lemma vd_handle_drop_twice:
  assumes "hm_inv m" and "hm_arr_len m \<noteq> 0" and "hm_metadata m 0 = Some s"
    and "\<not> ie_used (im_table (hm_idmap m) ! im_index (im_cap (hm_idmap m)) 0)"
    and "hs_refmode s = VD_HANDLEMAP_REF_MODE_COUNT" and "1 < hs_refcount s"
  shows "vd_handle_drop m \<lparr>vh_id = 0, vh_map = True\<rparr> =
    Some (\<lparr>vh_id = 0, vh_map = True\<rparr>, hm_put m 0 (s\<lparr>hs_refcount := hs_refcount s - 1\<rparr>))"
proof -
  have "im_abs (hm_idmap m) 0 = None" using assms(1) by (simp add: hm_inv_def hm_ids_def)
  then have "vd_intmap_tryget (hm_idmap m) 0 = Some (Some 0)"
    using vd_intmap_absent [of "hm_idmap m" 0] assms(1,4) by (simp add: hm_inv_def)
  then show ?thesis using assms(3,5,6) by (simp add: vd_handle_drop_def vd_handle_use_def hm_put_def Let_def)
qed

end
