(* ===== verification/Strmap.thy ===== *)
theory Strmap
  imports Hash Contracts
begin

text \<open>
  The string map of lib/strmap.h and lib/strmap.c: a header and an array of bins, each with the
  first 43 bytes of its key, the length of the key, a pointer to the rest of a longer key, and
  the bytes of the value. The allocation has \<open>cap_total\<close> bins; the hash selects one of the first
  \<open>cap\<close>. Keys and values are byte lists.

  The lemmas show that on keys of at most 43 bytes the map refines a partial function, as long as
  no two of the keys share a bin, and what happens to the others.
\<close>

section \<open>Definitions\<close>

text \<open>The pointer \<open>key_rest\<close>: null, to live memory, or to memory that was freed.\<close>

datatype key_rest = RestNull | RestLive "u8 list" | RestFreed

record VD_BinPrefix =
  sb_next :: "nat option"
  sb_key_len :: nat
  sb_used :: bool
  sb_key_rest :: key_rest
  sb_key_prefix :: "u8 list"
  sb_data :: "u8 list"

record vd_strmap =
  sm_bins :: "VD_BinPrefix list"
  sm_cap :: nat
  sm_cap_total :: nat
  sm_tsize :: nat

definition zero_bin :: "nat \<Rightarrow> VD_BinPrefix" where
  "zero_bin tsize = \<lparr>sb_next = None, sb_key_len = 0, sb_used = False, sb_key_rest = RestNull,
     sb_key_prefix = replicate 43 0, sb_data = replicate tsize 0\<rparr>"

text \<open>\<open>sizeof(VD_BinPrefix)\<close> on a 64-bit target, and the distance of two bins: \<open>GET_BIN_AT\<close> adds
  \<open>sizeof\<close>, a \<open>size_t\<close>, to \<open>tsize\<close>, so that this sum has 64 bits.\<close>

definition sizeof_VD_BinPrefix :: nat where
  "sizeof_VD_BinPrefix = 72"

definition sm_stride :: "nat \<Rightarrow> nat" where
  "sm_stride tsize = sizeof_VD_BinPrefix + tsize"

text \<open>
  \<open>vd__strmap_init\<close>: the size of a bin and its product with \<open>cap\<close> are \<open>u32\<close>, so the allocation has
  \<open>bytes\<close> bytes behind the header. The bins of the model are those that lie in the allocation;
  every operation that reaches past them is undefined. \<open>0.86f\<close> is \<open>14428406 / 2 ^ 24\<close>.
\<close>

definition vd__strmap_init :: "nat \<Rightarrow> nat \<Rightarrow> vd_strmap" where
  "vd__strmap_init tsize cap =
     (let bin_size = (sizeof_VD_BinPrefix + tsize) mod 2 ^ 32;
          bytes = bin_size * cap mod 2 ^ 32 in
      \<lparr>sm_bins = replicate (bytes div sm_stride tsize) (zero_bin tsize),
       sm_cap = f32_mul_trunc cap 14428406 24, sm_cap_total = cap, sm_tsize = tsize\<rparr>)"

text \<open>\<open>check_key\<close>: comparing no bytes succeeds; a comparison with a null or freed \<open>key_rest\<close> is
  undefined.\<close>

definition check_key :: "u8 list \<Rightarrow> VD_BinPrefix \<Rightarrow> bool option" where
  "check_key check against =
     (let first_check_len = min 43 (length check); second_check_len = length check - 43 in
      if sb_key_len against \<noteq> length check then Some False
      else if take first_check_len (sb_key_prefix against) \<noteq> take first_check_len check then Some False
      else if length check < 43 \<or> second_check_len = 0 then Some True
      else case sb_key_rest against of
             RestLive rest \<Rightarrow>
               if second_check_len \<le> length rest
               then Some (take second_check_len rest = take second_check_len (drop 43 check)) else None
           | _ \<Rightarrow> None)"

text \<open>
  \<open>copy_key(key, bin)\<close> for the bin at index \<open>i\<close>. The allocator for a long key is read from
  \<open>VD_STRMAP_HEADER(bin)\<close>, the bytes in front of the bin: only for the first bin of the array
  are they the header of the map.
\<close>

definition copy_key :: "u8 list \<Rightarrow> nat \<Rightarrow> VD_BinPrefix \<Rightarrow> VD_BinPrefix option" where
  "copy_key key i bin =
     (let key_len = length key mod 2 ^ 32; first_copy_len = min 43 key_len;
          bin1 = bin\<lparr>sb_key_len := key_len,
            sb_key_prefix := take first_copy_len key @ drop first_copy_len (sb_key_prefix bin)\<rparr> in
      if 43 < key_len then
        if i = 0 then Some (bin1\<lparr>sb_key_rest := RestLive (take (key_len - 43) (drop 43 key))\<rparr>) else None
      else Some bin1)"

definition sm_index :: "nat \<Rightarrow> u8 list \<Rightarrow> nat" where
  "sm_index cap key = unat (vd_hash_str key) mod cap"

text \<open>From a used bin along \<open>next\<close>: whether the key was found, and the bin the search ended at.\<close>

partial_function (option) sm_find :: "VD_BinPrefix list \<Rightarrow> u8 list \<Rightarrow> nat \<Rightarrow> (bool \<times> nat) option" where
  "sm_find bins key i =
     (if i < length bins then
        do { found \<leftarrow> check_key key (bins ! i);
             if found then Some (True, i)
             else (case sb_next (bins ! i) of Some j \<Rightarrow> sm_find bins key j | None \<Rightarrow> Some (False, i)) }
      else None)"

text \<open>\<open>while ((cursor > 0) && (GET_BIN_AT(map, cursor)->used)) cursor--\<close>; the bin at
  \<open>cap_total\<close> is outside the array.\<close>

fun sm_cursor :: "VD_BinPrefix list \<Rightarrow> nat \<Rightarrow> nat option" where
  "sm_cursor bins 0 = Some 0"
| "sm_cursor bins (Suc n) =
     (if \<not> Suc n < length bins then None
      else if sb_used (bins ! Suc n) then sm_cursor bins n else Some (Suc n))"

text \<open>
  The part of \<open>vd__strmap_get_bin\<close> with \<open>found\<close>: releasing the bin when \<open>set_unused\<close> is given.
\<close>

definition sm_release :: "vd_strmap \<Rightarrow> nat \<Rightarrow> vd_strmap option" where
  "sm_release m i =
     (let bin = (sm_bins m ! i)\<lparr>sb_used := False\<rparr> in
      case sb_key_rest bin of
        RestNull \<Rightarrow> Some (m\<lparr>sm_bins := (sm_bins m)[i := bin]\<rparr>)
      | RestLive _ \<Rightarrow> Some (m\<lparr>sm_bins := (sm_bins m)[i := bin\<lparr>sb_key_rest := RestFreed\<rparr>]\<rparr>)
      | RestFreed \<Rightarrow> None)"

text \<open>\<open>sm_occupy\<close> gives the free bin at \<open>i\<close> to the key.\<close>

definition sm_occupy :: "vd_strmap \<Rightarrow> u8 list \<Rightarrow> nat \<Rightarrow> (nat option \<times> vd_strmap) option" where
  "sm_occupy m key i =
     do { bin \<leftarrow> copy_key key i (sm_bins m ! i);
          Some (Some i, m\<lparr>sm_bins := (sm_bins m)[i := bin\<lparr>sb_used := True, sb_next := None\<rparr>]\<rparr>) }"

text \<open>\<open>vd__strmap_get_bin\<close>; the flags of \<open>op\<close> are two booleans, the result a bin or null.\<close>

definition vd__strmap_get_bin ::
  "vd_strmap \<Rightarrow> u8 list \<Rightarrow> bool \<Rightarrow> bool \<Rightarrow> (nat option \<times> vd_strmap) option" where
  "vd__strmap_get_bin m key create set_unused =
     (if sm_cap m = 0 then None
      else
        let bin_index = sm_index (sm_cap m) key in
        if \<not> bin_index < length (sm_bins m) then None
        else
          do { (found, existing) \<leftarrow>
                 (if sb_used (sm_bins m ! bin_index) then sm_find (sm_bins m) key bin_index
                  else Some (False, bin_index));
               if found then
                 if set_unused then do { m' \<leftarrow> sm_release m existing; Some (Some existing, m') }
                 else Some (Some existing, m)
               else if \<not> create then Some (None, m)
               else if \<not> sb_used (sm_bins m ! existing) then sm_occupy m key existing
               else
                 do { cursor \<leftarrow> sm_cursor (sm_bins m) (sm_cap_total m);
                      if cursor = 0 then Some (None, m) else sm_occupy m key cursor } })"

definition vd__strmap_set :: "vd_strmap \<Rightarrow> u8 list \<Rightarrow> u8 list \<Rightarrow> (bool \<times> vd_strmap) option" where
  "vd__strmap_set m key v =
     do { (bin, m') \<leftarrow> vd__strmap_get_bin m key True False;
          case bin of
            None \<Rightarrow> Some (False, m')
          | Some i \<Rightarrow>
              if sm_tsize m' \<le> length v then
                Some (True, m'\<lparr>sm_bins := (sm_bins m')[i := (sm_bins m' ! i)\<lparr>sb_data := take (sm_tsize m') v\<rparr>]\<rparr>)
              else None }"

definition vd__strmap_get :: "vd_strmap \<Rightarrow> u8 list \<Rightarrow> u8 list option option" where
  "vd__strmap_get m key =
     do { (bin, m') \<leftarrow> vd__strmap_get_bin m key False False;
          Some (map_option (\<lambda>i. sb_data (sm_bins m' ! i)) bin) }"

definition vd_strmap_del :: "vd_strmap \<Rightarrow> u8 list \<Rightarrow> (bool \<times> vd_strmap) option" where
  "vd_strmap_del m key =
     do { (bin, m') \<leftarrow> vd__strmap_get_bin m key False True; Some (bin \<noteq> None, m') }"

section \<open>Maps of short keys\<close>

text \<open>The states that calls with keys of at most 43 bytes lead to.\<close>

definition sm_bin_ok :: "nat \<Rightarrow> VD_BinPrefix \<Rightarrow> bool" where
  "sm_bin_ok tsize b \<longleftrightarrow> sb_next b = None \<and> length (sb_key_prefix b) = 43 \<and> sb_key_len b \<le> 43 \<and>
     sb_key_rest b = RestNull \<and> length (sb_data b) = tsize"

definition sm_inv :: "vd_strmap \<Rightarrow> bool" where
  "sm_inv m \<longleftrightarrow> 0 < sm_cap m \<and> sm_cap m \<le> sm_cap_total m \<and> length (sm_bins m) = sm_cap_total m \<and>
     (\<forall>b \<in> set (sm_bins m). sm_bin_ok (sm_tsize m) b)"

definition sb_key :: "VD_BinPrefix \<Rightarrow> u8 list" where
  "sb_key b = take (sb_key_len b) (sb_key_prefix b)"

text \<open>The map the bins stand for.\<close>

definition sm_bin :: "vd_strmap \<Rightarrow> u8 list \<Rightarrow> VD_BinPrefix" where
  "sm_bin m key = sm_bins m ! sm_index (sm_cap m) key"

definition sm_abs :: "vd_strmap \<Rightarrow> u8 list \<Rightarrow> u8 list option" where
  "sm_abs m key = (if sb_used (sm_bin m key) \<and> sb_key (sm_bin m key) = key
     then Some (sb_data (sm_bin m key)) else None)"

lemma sm_index_less: "sm_inv m \<Longrightarrow> sm_index (sm_cap m) key < length (sm_bins m)"
proof -
  assume i: "sm_inv m"
  then have "sm_index (sm_cap m) key < sm_cap m" by (simp add: sm_index_def sm_inv_def)
  with i show ?thesis by (simp add: sm_inv_def)
qed

lemma sm_bin_okI: "sm_inv m \<Longrightarrow> sm_bin_ok (sm_tsize m) (sm_bin m key)"
  using sm_index_less [of m key] by (auto simp: sm_inv_def sm_bin_def)

lemma check_key_short:
  "sm_bin_ok t b \<Longrightarrow> length key \<le> 43 \<Longrightarrow> check_key key b = Some (sb_key b = key)"
  by (auto simp: check_key_def Let_def sb_key_def sm_bin_ok_def dest: arg_cong [where f = length])

lemma sm_find_short:
  assumes "sm_inv m" and "length key \<le> 43"
  shows "sm_find (sm_bins m) key (sm_index (sm_cap m) key) =
    Some (sb_key (sm_bin m key) = key, sm_index (sm_cap m) key)"
  using assms sm_index_less [of m key] sm_bin_okI [of m key] check_key_short [of "sm_tsize m" "sm_bin m key" key]
  by (subst sm_find.simps) (simp add: sm_bin_def sm_bin_ok_def)

lemma sm_cursor_total: "sm_inv m \<Longrightarrow> sm_cursor (sm_bins m) (sm_cap_total m) = None"
  by (cases "sm_cap_total m") (auto simp: sm_inv_def)

lemma copy_key_short:
  assumes "sm_bin_ok t b" and "length key \<le> 43"
  shows "\<exists>b'. copy_key key i b = Some b' \<and> sm_bin_ok t b' \<and> sb_key b' = key \<and> sb_data b' = sb_data b"
  using assms by (auto simp: copy_key_def Let_def sm_bin_ok_def sb_key_def)

lemma sm_put_inv:
  "sm_inv m \<Longrightarrow> sm_bin_ok (sm_tsize m) b \<Longrightarrow> sm_inv (m\<lparr>sm_bins := (sm_bins m)[i := b]\<rparr>)"
  by (auto simp: sm_inv_def dest: set_update_subset_insert [THEN subsetD])

lemma sm_put_bin: "sm_inv m \<Longrightarrow> sm_bin (m\<lparr>sm_bins := (sm_bins m)[sm_index (sm_cap m) key := b]\<rparr>) k =
    (if sm_index (sm_cap m) k = sm_index (sm_cap m) key then b else sm_bin m k)"
  using sm_index_less [of m key] by (simp add: sm_bin_def nth_list_update)

lemmas sm_bin_nth = sm_bin_def [symmetric]

text \<open>Looking a key up, in the terms of the represented map.\<close>

lemma vd__strmap_get_abs:
  assumes "sm_inv m" and "length key \<le> 43"
  shows "vd__strmap_get m key = Some (sm_abs m key)"
  using assms sm_index_less [of m key] sm_find_short [of m key]
  by (simp add: vd__strmap_get_def vd__strmap_get_bin_def Let_def sm_inv_def sm_abs_def sm_bin_nth)

text \<open>The bin a key would go to is free, or holds that key.\<close>

definition sm_free_for :: "vd_strmap \<Rightarrow> u8 list \<Rightarrow> bool" where
  "sm_free_for m key \<longleftrightarrow> \<not> sb_used (sm_bin m key) \<or> sb_key (sm_bin m key) = key"

lemma vd__strmap_set_abs:
  assumes i: "sm_inv m" and k: "length key \<le> 43" and v: "sm_tsize m \<le> length v" and f: "sm_free_for m key"
  shows "\<exists>m'. vd__strmap_set m key v = Some (True, m') \<and> sm_inv m' \<and> sm_tsize m' = sm_tsize m
    \<and> sm_abs m' = (sm_abs m)(key \<mapsto> take (sm_tsize m) v)"
proof -
  let ?i = "sm_index (sm_cap m) key" and ?b = "sm_bin m key"
  have l: "?i < length (sm_bins m)" and c0: "sm_cap m \<noteq> 0" and ok: "sm_bin_ok (sm_tsize m) ?b"
    using i sm_index_less [OF i] sm_bin_okI [OF i] by (auto simp: sm_inv_def)
  obtain b where b: "copy_key key ?i ?b = Some b" "sm_bin_ok (sm_tsize m) b" "sb_key b = key"
    using copy_key_short [OF ok k, of ?i] by blast
  define b1 where "b1 = (if sb_used ?b then ?b else b\<lparr>sb_used := True, sb_next := None\<rparr>)"
  have b1: "sm_bin_ok (sm_tsize m) b1" "sb_key b1 = key" "sb_used b1"
    using b ok f by (auto simp: b1_def sm_bin_ok_def sb_key_def sm_free_for_def)
  let ?m = "m\<lparr>sm_bins := (sm_bins m)[?i := b1]\<rparr>"
  have "vd__strmap_get_bin m key True False = Some (Some ?i, ?m)"
    using c0 l b(1) f sm_find_short [OF i k]
    by (simp add: vd__strmap_get_bin_def Let_def sm_bin_nth sm_occupy_def b1_def sm_free_for_def)
      (simp add: sm_bin_def)
  then have s: "vd__strmap_set m key v = Some (True, m\<lparr>sm_bins := (sm_bins m)[?i := b1\<lparr>sb_data := take (sm_tsize m) v\<rparr>]\<rparr>)"
    using l v by (simp add: vd__strmap_set_def)
  let ?b2 = "b1\<lparr>sb_data := take (sm_tsize m) v\<rparr>" and ?m2 = "m\<lparr>sm_bins := (sm_bins m)[?i := b1\<lparr>sb_data := take (sm_tsize m) v\<rparr>]\<rparr>"
  have "sm_bin_ok (sm_tsize m) ?b2" using b1(1) v by (simp add: sm_bin_ok_def)
  then have inv: "sm_inv ?m2" using i by (rule sm_put_inv [rotated])
  have "sm_abs ?m2 k = ((sm_abs m)(key \<mapsto> take (sm_tsize m) v)) k" for k
  proof (cases "sm_index (sm_cap m) k = ?i")
    case True
    then have "sm_bin m k = ?b" by (simp add: sm_bin_def)
    then show ?thesis using True sm_put_bin [OF i, of key ?b2 k] b1 f
      by (auto simp: sm_abs_def sb_key_def sm_free_for_def)
  next
    case False
    then show ?thesis using sm_put_bin [OF i, of key ?b2 k] by (auto simp: sm_abs_def)
  qed
  then have "sm_abs ?m2 = (sm_abs m)(key \<mapsto> take (sm_tsize m) v)" ..
  with s inv show ?thesis by (intro exI [of _ ?m2]) simp
qed

lemma vd__strmap_set_collision_undefined:
  assumes i: "sm_inv m" and k: "length key \<le> 43" and f: "\<not> sm_free_for m key"
  shows "vd__strmap_set m key v = None"
  using i f sm_index_less [OF i, of key] sm_find_short [OF i k] sm_cursor_total [OF i]
  by (simp add: vd__strmap_set_def vd__strmap_get_bin_def Let_def sm_free_for_def sm_bin_nth)

lemma vd_strmap_del_abs:
  assumes i: "sm_inv m" and k: "length key \<le> 43"
  shows "\<exists>m'. vd_strmap_del m key = Some (sm_abs m key \<noteq> None, m') \<and> sm_inv m' \<and> sm_tsize m' = sm_tsize m
    \<and> sm_abs m' = (sm_abs m)(key := None)"
proof -
  let ?i = "sm_index (sm_cap m) key" and ?b = "sm_bin m key"
  have l: "?i < length (sm_bins m)" and c0: "sm_cap m \<noteq> 0" and ok: "sm_bin_ok (sm_tsize m) ?b"
    using i sm_index_less [OF i] sm_bin_okI [OF i] by (auto simp: sm_inv_def)
  show ?thesis
  proof (cases "sm_abs m key = None")
    case True
    then have "vd_strmap_del m key = Some (False, m)"
      using c0 l sm_find_short [OF i k]
      by (auto simp: vd_strmap_del_def vd__strmap_get_bin_def Let_def sm_bin_nth sm_abs_def split: if_splits)
    moreover have "sm_abs m = (sm_abs m)(key := None)" using True by auto
    ultimately show ?thesis using i True by auto
  next
    case False
    let ?b1 = "?b\<lparr>sb_used := False\<rparr>" and ?m = "m\<lparr>sm_bins := (sm_bins m)[?i := ?b\<lparr>sb_used := False\<rparr>]\<rparr>"
    have u: "sb_used ?b" "sb_key ?b = key" using False by (auto simp: sm_abs_def split: if_splits)
    have "vd_strmap_del m key = Some (True, ?m)"
      using c0 l sm_find_short [OF i k] u ok
      by (simp add: vd_strmap_del_def vd__strmap_get_bin_def Let_def sm_bin_nth sm_release_def sm_bin_ok_def)
    moreover have "sm_bin_ok (sm_tsize m) ?b1" using ok by (simp add: sm_bin_ok_def)
    then have "sm_inv ?m" by (rule sm_put_inv [OF i])
    moreover have "sm_abs ?m x = ((sm_abs m)(key := None)) x" for x
    proof (cases "sm_index (sm_cap m) x = ?i")
      case True
      then have "sm_bin m x = ?b" by (simp add: sm_bin_def)
      then show ?thesis using True sm_put_bin [OF i, of key ?b1 x] u by (auto simp: sm_abs_def)
    next
      case False
      then show ?thesis using sm_put_bin [OF i, of key ?b1 x] by (auto simp: sm_abs_def)
    qed
    then have "sm_abs ?m = (sm_abs m)(key := None)" ..
    ultimately show ?thesis using False by auto
  qed
qed

section \<open>Refinement\<close>

datatype sm_cmd = SmSet "u8 list" "u8 list" | SmDel "u8 list"

fun sm_exec :: "sm_cmd \<Rightarrow> vd_strmap \<Rightarrow> vd_strmap option" where
  "sm_exec (SmSet k v) m = map_option snd (vd__strmap_set m k v)"
| "sm_exec (SmDel k) m = map_option snd (vd_strmap_del m k)"

text \<open>The same commands on a partial function.\<close>

fun sm_spec :: "sm_cmd \<Rightarrow> (u8 list \<Rightarrow> u8 list option) \<Rightarrow> u8 list \<Rightarrow> u8 list option" where
  "sm_spec (SmSet k v) f = f(k \<mapsto> v)"
| "sm_spec (SmDel k) f = f(k := None)"

text \<open>Short keys, and values of the element size.\<close>

fun sm_cmd_ok :: "nat \<Rightarrow> sm_cmd \<Rightarrow> bool" where
  "sm_cmd_ok t (SmSet k v) = (length k \<le> 43 \<and> length v = t)"
| "sm_cmd_ok t (SmDel k) = (length k \<le> 43)"

lemma sm_exec_refines:
  assumes "sm_inv m" and "sm_cmd_ok (sm_tsize m) c" and "sm_exec c m = Some m'"
  shows "sm_inv m' \<and> sm_tsize m' = sm_tsize m \<and> sm_abs m' = sm_spec c (sm_abs m)"
proof (cases c)
  case (SmSet k v)
  then have k: "length k \<le> 43" "length v = sm_tsize m" using assms(2) by simp_all
  have "sm_free_for m k"
    using vd__strmap_set_collision_undefined [OF assms(1) k(1), of v] assms(3) SmSet by fastforce
  with vd__strmap_set_abs [OF assms(1) k(1) _ this, of v] assms(3) SmSet k show ?thesis by auto
next
  case (SmDel k)
  with assms vd_strmap_del_abs [OF assms(1), of k] show ?thesis by auto
qed

interpretation sm: op_invariant sm_exec "sm_cmd_ok t" "\<lambda>m. sm_inv m \<and> sm_tsize m = t" for t
  by unfold_locales (metis sm_exec_refines)

lemma sm_run_refines:
  "sm_inv m \<Longrightarrow> list_all (sm_cmd_ok (sm_tsize m)) cs \<Longrightarrow> run_ops sm_exec cs m = Some m' \<Longrightarrow>
     sm_abs m' = fold sm_spec cs (sm_abs m)"
proof (induction cs arbitrary: m)
  case (Cons c cs)
  then obtain m1 where m1: "sm_exec c m = Some m1" "run_ops sm_exec cs m1 = Some m'"
    by (auto simp: bind_Some_iff)
  with Cons.prems sm_exec_refines [of m c m1] Cons.IH [of m1] show ?case by simp
qed simp

text \<open>When the size of the array fits 32 bits, the allocation has all \<open>cap\<close> bins.\<close>

lemma vd__strmap_init_bins:
  assumes "sm_stride t * cap < 2 ^ 32" and "cap \<noteq> 0"
  shows "vd__strmap_init t cap = \<lparr>sm_bins = replicate cap (zero_bin t),
    sm_cap = f32_mul_trunc cap 14428406 24, sm_cap_total = cap, sm_tsize = t\<rparr>"
proof -
  have "sm_stride t \<le> sm_stride t * cap" using assms(2) by simp
  with assms(1) have "sm_stride t < 2 ^ 32" by (rule le_less_trans [rotated])
  moreover have "0 < sm_stride t" by (simp add: sm_stride_def sizeof_VD_BinPrefix_def)
  ultimately show ?thesis
    using assms(1) by (simp add: vd__strmap_init_def Let_def sm_stride_def)
qed

text \<open>When it does not, there are fewer: with values of \<open>2 ^ 21 - 72\<close> bytes there are none, and
  every lookup leaves the allocation.\<close>

lemma vd__strmap_init_wraps:
  "sm_bins (vd__strmap_init (2 ^ 21 - 72) 2048) = []"
  "vd__strmap_get (vd__strmap_init (2 ^ 21 - 72) 2048) key = None"
  by (simp_all add: vd__strmap_init_def sm_stride_def sizeof_VD_BinPrefix_def Let_def
      vd__strmap_get_def vd__strmap_get_bin_def)

lemma vd__strmap_init_inv:
  assumes "sm_cap (vd__strmap_init t cap) \<noteq> 0" and "sm_cap (vd__strmap_init t cap) \<le> cap"
    and "sm_stride t * cap < 2 ^ 32"
  shows "sm_inv (vd__strmap_init t cap)" and "sm_abs (vd__strmap_init t cap) = Map.empty"
proof -
  have c: "cap \<noteq> 0" using assms(1,2) by linarith
  note init = vd__strmap_init_bins [OF assms(3) c]
  show i: "sm_inv (vd__strmap_init t cap)"
    using assms(1,2) by (auto simp: sm_inv_def init sm_bin_ok_def zero_bin_def)
  have "sm_bin (vd__strmap_init t cap) k = zero_bin t" for k
    using sm_index_less [OF i, of k] by (auto simp: sm_bin_def init)
  then show "sm_abs (vd__strmap_init t cap) = Map.empty" by (simp add: fun_eq_iff sm_abs_def zero_bin_def)
qed

text \<open>\<open>VD_STRMAP_DEFAULT_CAP\<close>: 2048 bins, of which the hash reaches 1761.\<close>

lemma vd__strmap_init_fields [simp]:
  "sm_tsize (vd__strmap_init t cap) = t" "sm_cap_total (vd__strmap_init t cap) = cap"
  by (simp_all add: vd__strmap_init_def Let_def)

lemma vd__strmap_init_default: "sm_cap (vd__strmap_init t 2048) = 1761"
  by (simp add: vd__strmap_init_def f32_mul_trunc_def f32_round_def f32_shift.simps Let_def)

lemma vd__strmap_init_default_inv:
  assumes "sm_stride t * 2048 < 2 ^ 32"
  shows "sm_inv (vd__strmap_init t 2048)" and "sm_abs (vd__strmap_init t 2048) = Map.empty"
    and "\<not> sb_used (sm_bin (vd__strmap_init t 2048) key)"
proof -
  show i: "sm_inv (vd__strmap_init t 2048)" and "sm_abs (vd__strmap_init t 2048) = Map.empty"
    using vd__strmap_init_inv [of t 2048] assms by (simp_all add: vd__strmap_init_default)
  show "\<not> sb_used (sm_bin (vd__strmap_init t 2048) key)"
    using sm_index_less [OF i, of key] vd__strmap_init_bins [OF assms]
    by (simp add: sm_bin_def zero_bin_def)
qed

text \<open>C6. A map of the default capacity whose array of 2048 bins fits 32 bits (values of fewer than
  2 MiB minus the 72 bytes of a bin) refines a partial function: after any sequence of insertions,
  overwrites and deletions of keys of at most 43 bytes that stays defined, looking up any such key
  gives exactly what a partial function updated the same way gives.\<close>

theorem vd_strmap_refines_map:
  assumes "sm_stride t * 2048 < 2 ^ 32" and "list_all (sm_cmd_ok t) cs"
    and "run_ops sm_exec cs (vd__strmap_init t 2048) = Some m" and "length key \<le> 43"
  shows "vd__strmap_get m key = Some (fold sm_spec cs Map.empty key)"
proof -
  note i = vd__strmap_init_default_inv [OF assms(1)]
  have "sm_tsize (vd__strmap_init t 2048) = t" by simp
  with i sm_run_refines [of "vd__strmap_init t 2048" cs m] sm.run_inv [of t cs "vd__strmap_init t 2048" m] assms
  show ?thesis by (simp add: vd__strmap_get_abs)
qed

lemma vd_strmap_refines_map_run:
  "\<exists>m. run_ops sm_exec [SmSet [1] [10, 11], SmSet [1] [12, 13]] (vd__strmap_init 2 2048) = Some m"
proof -
  have fits: "sm_stride 2 * 2048 < 2 ^ 32" by (simp add: sm_stride_def sizeof_VD_BinPrefix_def)
  note i = vd__strmap_init_default_inv [OF fits]
  have free: "sm_free_for m key" if "sm_abs m key \<noteq> None" for m key
    using that by (auto simp: sm_abs_def sm_free_for_def split: if_splits)
  have "sm_free_for (vd__strmap_init 2 2048) [1]" using i(3) by (simp add: sm_free_for_def)
  from vd__strmap_set_abs [OF i(1) _ _ this, of "[10, 11]"] obtain m1
    where m1: "vd__strmap_set (vd__strmap_init 2 2048) [1] [10, 11] = Some (True, m1)" "sm_inv m1"
      "sm_tsize m1 = 2" "sm_abs m1 [1] \<noteq> None" by auto
  from vd__strmap_set_abs [OF m1(2) _ _ free [OF m1(4)], of "[12, 13]"] m1(1,3) show ?thesis by auto
qed

theorem vd_strmap_refines_map_witness:
  "\<exists>m. run_ops sm_exec [SmSet [1] [10, 11], SmSet [1] [12, 13]] (vd__strmap_init 2 2048) = Some m
    \<and> vd__strmap_get m [1] = Some (Some [12, 13])"
proof -
  obtain m where m: "run_ops sm_exec [SmSet [1] [10, 11], SmSet [1] [12, 13]] (vd__strmap_init 2 2048) = Some m"
    using vd_strmap_refines_map_run by blast
  have ok: "sm_stride 2 * 2048 < 2 ^ 32" "list_all (sm_cmd_ok 2) [SmSet [1] [10, 11], SmSet [1] [12, 13]]"
    "length [1 :: u8] \<le> 43" by (simp_all add: sm_stride_def sizeof_VD_BinPrefix_def)
  from vd_strmap_refines_map [OF ok(1,2) m ok(3)] m show ?thesis by auto
qed

text \<open>C27. An insertion with a key of at most 43 bytes returns true when the bin it hashes to is
  free or has that key, and has no defined behaviour otherwise: on a collision the search for a
  free bin starts at \<open>cap_total\<close>, outside the array.\<close>

theorem vd__strmap_set_collision:
  assumes "sm_inv m" and "length key \<le> 43" and "length v = sm_tsize m"
  shows "if \<not> sb_used (sm_bin m key) \<or> sb_key (sm_bin m key) = key
    then \<exists>m'. vd__strmap_set m key v = Some (True, m') \<and> sm_abs m' = (sm_abs m)(key \<mapsto> v)
    else vd__strmap_set m key v = None"
  using vd__strmap_set_abs [OF assms(1,2), of v] vd__strmap_set_collision_undefined [OF assms(1,2), of v] assms(3)
  unfolding sm_free_for_def by auto

theorem vd__strmap_set_collision_witness:
  "\<exists>m'. vd__strmap_set (vd__strmap_init 1 2048) [1] [5] = Some (True, m') \<and> sm_abs m' = [[1] \<mapsto> [5]]"
proof -
  have fits: "sm_stride 1 * 2048 < 2 ^ 32" by (simp add: sm_stride_def sizeof_VD_BinPrefix_def)
  note i = vd__strmap_init_default_inv [OF fits]
  from vd__strmap_set_collision [OF i(1), of "[1]" "[5]"] i(2,3) show ?thesis by simp
qed

text \<open>A key longer than 43 bytes only gets past \<open>copy_key\<close> in the first bin.\<close>

lemma copy_key_long:
  "43 < length key mod 2 ^ 32 \<Longrightarrow> copy_key key i bin \<noteq> None \<longleftrightarrow> i = 0"
  by (simp add: copy_key_def Let_def)

end
