(* ===== verification/Cvar.thy ===== *)
theory Cvar
  imports Strmap Delegate
begin

text \<open>
  Console variables: ng/inc/cvar.h and ng/src/cvar.c. The system keeps a string map from names
  to values and a hook for changes. A value is a type and 32 bits (\<open>i32\<close>, \<open>f32\<close> or \<open>bool\<close>); in
  the map it is its 8 bytes. The subscribers are a parameter, as in \<open>Delegate\<close>.

  The lemmas say what setting a variable does: the first time it stores the value; afterwards it
  reports the new value to the subscribers and stores nothing.
\<close>

section \<open>Definitions\<close>

datatype VD_CVarType = VD_CVS_I32 | VD_CVS_F32 | VD_CVS_BOOL

record VD_CVarValue =
  cv_type :: VD_CVarType
  cv_v :: u32

record ('f, 'u) VD_CVS =
  cvs_map :: vd_strmap
  on_cvar_update :: "('f, 'u) hook"

fun cv_tag :: "VD_CVarType \<Rightarrow> u8" where
  "cv_tag VD_CVS_I32 = 0"
| "cv_tag VD_CVS_F32 = 1"
| "cv_tag VD_CVS_BOOL = 2"

text \<open>The value in memory, and reading it back; other bytes for the type are not one of its
  enumerators.\<close>

definition cvar_bytes :: "VD_CVarValue \<Rightarrow> u8 list" where
  "cvar_bytes c = [cv_tag (cv_type c), 0, 0, 0] @
     map (\<lambda>i. ucast (drop_bit (8 * i) (cv_v c))) [0, 1, 2, 3]"

fun cvar_of_bytes :: "u8 list \<Rightarrow> VD_CVarValue option" where
  "cvar_of_bytes [t, z1, z2, z3, b0, b1, b2, b3] =
     (if [z1, z2, z3] \<noteq> [0, 0, 0] \<or> 2 < t then None
      else Some \<lparr>cv_type = (if t = 0 then VD_CVS_I32 else if t = 1 then VD_CVS_F32 else VD_CVS_BOOL),
                 cv_v = load_u32 b0 b1 b2 b3\<rparr>)"
| "cvar_of_bytes _ = None"

definition vd_cvs_init :: "nat \<Rightarrow> ('f, 'u) VD_CVS option" where
  "vd_cvs_init alc =
     do { hk \<leftarrow> hook_init alc; Some \<lparr>cvs_map = vd__strmap_init 8 2048, on_cvar_update = hk\<rparr> }"

definition vd_cvs_register_hook :: "('f, 'u) VD_CVS \<Rightarrow> 'f \<Rightarrow> 'u \<Rightarrow> ('f, 'u) VD_CVS option" where
  "vd_cvs_register_hook cvs f u =
     do { hk \<leftarrow> hook_subscribe (on_cvar_update cvs) f u; Some (cvs\<lparr>on_cvar_update := hk\<rparr>) }"

definition vd_cvs_unregister_hook :: "('f, 'u) VD_CVS \<Rightarrow> 'f \<Rightarrow> ('f, 'u) VD_CVS option" where
  "vd_cvs_unregister_hook cvs f =
     do { hk \<leftarrow> hook_unsubscribe (on_cvar_update cvs) f; Some (cvs\<lparr>on_cvar_update := hk\<rparr>) }"

definition vd_cvs_get :: "('f, 'u) VD_CVS \<Rightarrow> u8 list \<Rightarrow> VD_CVarValue option option" where
  "vd_cvs_get cvs name =
     do { r \<leftarrow> vd__strmap_get (cvs_map cvs) name;
          case r of None \<Rightarrow> Some None | Some bytes \<Rightarrow> map_option Some (cvar_of_bytes bytes) }"

text \<open>\<open>call\<close> runs a subscriber on the name and the value, on the state \<open>s\<close> of the rest.\<close>

definition vd_cvs_set :: "('f \<Rightarrow> 'u \<Rightarrow> u8 list \<Rightarrow> VD_CVarValue \<Rightarrow> 's \<Rightarrow> 's) \<Rightarrow>
    ('f, 'u) VD_CVS \<Rightarrow> u8 list \<Rightarrow> VD_CVarValue \<Rightarrow> 's \<Rightarrow> (('f, 'u) VD_CVS \<times> 's) option" where
  "vd_cvs_set call cvs name val s =
     do { r \<leftarrow> vd_cvs_get cvs name;
          case r of
            Some cvar \<Rightarrow>
              if cv_type cvar = cv_type val
              then do { s' \<leftarrow> hook_invoke (\<lambda>f u. call f u name val) (on_cvar_update cvs) s; Some (cvs, s') }
              else None
          | None \<Rightarrow>
              do { (_, map') \<leftarrow> vd__strmap_set (cvs_map cvs) name (cvar_bytes val);
                   Some (cvs\<lparr>cvs_map := map'\<rparr>, s) } }"

section \<open>Values\<close>

lemma load_u32_bytes:
  "load_u32 (ucast w) (ucast (drop_bit 8 w)) (ucast (drop_bit 16 w)) (ucast (drop_bit 24 w)) = w"
  for w :: u32
proof (rule bit_word_eqI)
  fix n assume n: "n < LENGTH(32)"
  then consider "n < 8" | "8 \<le> n" "n < 16" | "16 \<le> n" "n < 24" | "24 \<le> n" by linarith
  then show "bit (load_u32 (ucast w) (ucast (drop_bit 8 w)) (ucast (drop_bit 16 w)) (ucast (drop_bit 24 w))) n = bit w n"
    using n by cases (auto simp: load_u32_def bit_simps)
qed

lemma cvar_roundtrip_bytes: "cvar_of_bytes (cvar_bytes c) = Some c"
  by (cases c; cases "cv_type c") (simp_all add: cvar_bytes_def load_u32_bytes)

lemma length_cvar_bytes [simp]: "length (cvar_bytes c) = 8"
  by (simp add: cvar_bytes_def)

section \<open>Setting and getting\<close>

definition cvs_inv :: "('f, 'u) VD_CVS \<Rightarrow> ('f, 'u) hook_entry list \<Rightarrow> bool" where
  "cvs_inv cvs es \<longleftrightarrow> sm_inv (cvs_map cvs) \<and> sm_tsize (cvs_map cvs) = 8 \<and> holds (on_cvar_update cvs) es"

lemma vd_cvs_init_inv:
  assumes "alc \<noteq> 0"
  obtains cvs :: "('f, 'u) VD_CVS" where "vd_cvs_init alc = Some cvs" and "cvs_inv cvs []"
    and "sm_abs (cvs_map cvs) = Map.empty"
proof -
  obtain hk :: "('f, 'u) hook" where "hook_init alc = Some hk" "holds hk []"
    using array_init_holds [OF assms] unfolding hook_init_def by blast
  then show thesis
    using vd__strmap_init_default_inv [of 8]
    by (intro that [of "\<lparr>cvs_map = vd__strmap_init 8 2048, on_cvar_update = hk\<rparr>"])
      (simp_all add: vd_cvs_init_def cvs_inv_def sm_stride_def sizeof_VD_BinPrefix_def)
qed

lemma vd_cvs_get_abs: "cvs_inv cvs es \<Longrightarrow> length name \<le> 43 \<Longrightarrow>
    vd_cvs_get cvs name = (case sm_abs (cvs_map cvs) name of None \<Rightarrow> Some None
      | Some bytes \<Rightarrow> map_option Some (cvar_of_bytes bytes))"
  by (simp add: vd_cvs_get_def vd__strmap_get_abs cvs_inv_def)

lemma vd_cvs_set_new:
  assumes i: "cvs_inv cvs es" and n: "length name \<le> 43" and g: "vd_cvs_get cvs name = Some None"
    and f: "sm_free_for (cvs_map cvs) name"
  shows "\<exists>cvs'. vd_cvs_set call cvs name val s = Some (cvs', s) \<and> cvs_inv cvs' es
    \<and> vd_cvs_get cvs' name = Some (Some val)"
proof -
  let ?m = "cvs_map cvs"
  have inv: "sm_inv ?m" "sm_tsize ?m = 8" using i by (auto simp: cvs_inv_def)
  obtain m' where m': "vd__strmap_set ?m name (cvar_bytes val) = Some (True, m')" "sm_inv m'"
    "sm_tsize m' = 8" "sm_abs m' = (sm_abs ?m)(name \<mapsto> cvar_bytes val)"
    using vd__strmap_set_abs [OF inv(1) n _ f, of "cvar_bytes val"] inv(2) by auto
  let ?c = "cvs\<lparr>cvs_map := m'\<rparr>"
  have ci: "cvs_inv ?c es" using i m' by (simp add: cvs_inv_def)
  have "vd_cvs_get ?c name = Some (Some val)"
    using vd_cvs_get_abs [OF ci n] m'(4) by (simp add: cvar_roundtrip_bytes)
  with ci m'(1) g show ?thesis by (simp add: vd_cvs_set_def)
qed

lemma vd_cvs_set_known:
  assumes i: "cvs_inv cvs es" and g: "vd_cvs_get cvs name = Some (Some cvar)"
    and t: "cv_type cvar = cv_type val"
  shows "vd_cvs_set call cvs name val s = Some (cvs, fold (\<lambda>e. call (he_func e) (he_usrdata e) name val) es s)"
proof -
  have "holds (on_cvar_update cvs) es" using i by (simp add: cvs_inv_def)
  then show ?thesis using g t by (simp add: vd_cvs_set_def hook_invoke_eq)
qed

text \<open>C23. Setting a variable twice: the first call stores the value and runs no subscriber; the
  second, with a value of the same type, runs every subscriber in order on the new value, but a
  later read still gives the first value.\<close>

theorem vd_cvs_set_twice:
  fixes call :: "'f \<Rightarrow> 'u \<Rightarrow> u8 list \<Rightarrow> VD_CVarValue \<Rightarrow> 's \<Rightarrow> 's"
  assumes "cvs_inv cvs es" and "length name \<le> 43" and "vd_cvs_get cvs name = Some None"
    and "sm_free_for (cvs_map cvs) name" and "cv_type val1 = cv_type val2"
  shows "\<exists>cvs'. vd_cvs_set call cvs name val1 s = Some (cvs', s)
    \<and> vd_cvs_set call cvs' name val2 s =
        Some (cvs', fold (\<lambda>e. call (he_func e) (he_usrdata e) name val2) es s)
    \<and> vd_cvs_get cvs' name = Some (Some val1)"
  using vd_cvs_set_new [OF assms(1-4), of call val1 s] vd_cvs_set_known [of _ es name val1 val2 call s] assms(5)
  by blast

theorem vd_cvs_set_twice_witness:
  "\<exists>(cvs :: (nat, nat) VD_CVS) cvs'. vd_cvs_init 1 = Some cvs
    \<and> vd_cvs_set (\<lambda>f u n v log. v # log) cvs [97] \<lparr>cv_type = VD_CVS_I32, cv_v = 1\<rparr> [] = Some (cvs', [])
    \<and> vd_cvs_get cvs' [97] = Some (Some \<lparr>cv_type = VD_CVS_I32, cv_v = 1\<rparr>)"
proof -
  obtain cvs :: "(nat, nat) VD_CVS" where c: "vd_cvs_init 1 = Some cvs" "cvs_inv cvs []"
    "sm_abs (cvs_map cvs) = Map.empty" using vd_cvs_init_inv [of 1] by auto
  have g: "vd_cvs_get cvs [97] = Some None" using vd_cvs_get_abs [OF c(2), of "[97]"] c(3) by simp
  have "cvs_map cvs = vd__strmap_init 8 2048"
    using c(1) by (auto simp: vd_cvs_init_def bind_Some_iff)
  then have "sm_free_for (cvs_map cvs) [97]"
    using vd__strmap_init_default_inv(3) [of 8 "[97]"]
    by (simp add: sm_free_for_def sm_stride_def sizeof_VD_BinPrefix_def)
  from vd_cvs_set_twice [OF c(2) _ g this, of "\<lparr>cv_type = VD_CVS_I32, cv_v = 1\<rparr>" "\<lparr>cv_type = VD_CVS_I32, cv_v = 2\<rparr>"
      "\<lambda>f u n v log. v # log" "[]"] c(1)
  show ?thesis by auto
qed

end
