(* ===== verification/Buddy.thy ===== *)
theory Buddy
  imports Contracts
begin

text \<open>
  The buddy allocator of lib/vd_buddy_alloc.h. A block header is found by its offset from
  \<open>head\<close>; \<open>tail\<close> is the offset of the end. The headers ever written are a map from offsets: the
  header a block absorbed on merging stays in memory, and reading an offset where no header was
  written is undefined. Sizes and offsets are naturals, since none exceeds \<open>tail\<close>; the sizes
  computed from a request (\<open>req\<close>) are \<open>size_t\<close> words.

  The lemmas show that the blocks always tile the region, that an allocation takes free memory
  only and is large enough, that releasing a block gives back exactly that block, and that the
  searches end. The last section has runs in which free memory is not found or not merged.
\<close>

section \<open>Definitions\<close>

record VD_BuddyBlock =
  bb_size :: nat
  bb_is_free :: bool

type_synonym buddy_mem = "nat \<Rightarrow> VD_BuddyBlock option"

record VD_BuddyAlloc =
  bd_mem :: buddy_mem
  bd_tail :: nat
  bd_alignment :: u64

definition bd_round_up_to_next_power_of_2 :: "u64 \<Rightarrow> u64" where
  "bd_round_up_to_next_power_of_2 x =
     (if x = 0 then 1
      else if x AND (x - 1) = 0 then x
      else
        let x0 = x - 1;
            x1 = x0 OR drop_bit 1 x0;
            x2 = x1 OR drop_bit 2 x1;
            x4 = x2 OR drop_bit 4 x2;
            x8 = x4 OR drop_bit 8 x4;
            x16 = x8 OR drop_bit 16 x8;
            x32 = x16 OR drop_bit 32 x16 in
        x32 + 1)"

definition bd_is_power_of_two :: "u64 \<Rightarrow> bool" where
  "bd_is_power_of_two n = (n \<noteq> 0 \<and> n AND (n - 1) = 0)"

definition bd_align_forward :: "u64 \<Rightarrow> u64 \<Rightarrow> u64 option" where
  "bd_align_forward p a =
     (if bd_is_power_of_two a then
        let modulo = p AND (a - 1) in Some (if modulo \<noteq> 0 then p + (a - modulo) else p)
      else None)"

definition bd_next_block :: "buddy_mem \<Rightarrow> nat \<Rightarrow> nat option" where
  "bd_next_block mem b = map_option (\<lambda>h. b + bb_size h) (mem b)"

text \<open>The loop of \<open>vd_buddy_alloc__split\<close>; \<open>size\<close> is positive, so each round halves the block it
  looks at.\<close>

function bd_split_loop :: "buddy_mem \<Rightarrow> nat \<Rightarrow> nat \<Rightarrow> (nat option \<times> buddy_mem) option" where
  "bd_split_loop mem b req =
     (case mem b of
        None \<Rightarrow> None
      | Some h \<Rightarrow>
          if 0 < req \<and> req < bb_size h then
            let sz = bb_size h div 2 in
            bd_split_loop (mem(b \<mapsto> h\<lparr>bb_size := sz\<rparr>, b + sz \<mapsto> \<lparr>bb_size = sz, bb_is_free = True\<rparr>))
              (b + sz) req
          else Some (if req \<le> bb_size h then Some b else None, mem))"
  by pat_completeness auto
termination
  by (relation "measure (\<lambda>(mem, b, req). case mem b of None \<Rightarrow> 0 | Some h \<Rightarrow> bb_size h)") auto

declare bd_split_loop.simps [simp del]

definition bd_split :: "buddy_mem \<Rightarrow> nat \<Rightarrow> nat \<Rightarrow> (nat option \<times> buddy_mem) option" where
  "bd_split mem b req = (if req = 0 then Some (None, mem) else bd_split_loop mem b req)"

text \<open>\<open>best == 0 || s <= best->size\<close>, and with \<open><\<close>.\<close>

definition bd_better :: "(nat \<Rightarrow> nat \<Rightarrow> bool) \<Rightarrow> buddy_mem \<Rightarrow> nat \<Rightarrow> nat option \<Rightarrow> bool option" where
  "bd_better cmp mem s best =
     (case best of None \<Rightarrow> Some True | Some b \<Rightarrow> map_option (\<lambda>h. cmp s (bb_size h)) (mem b))"

text \<open>The assignment of the buddy after moving on: \<open>if (block < tail) buddy = next(block)\<close>.\<close>

definition bd_buddy_of :: "buddy_mem \<Rightarrow> nat \<Rightarrow> nat \<Rightarrow> nat \<Rightarrow> nat option" where
  "bd_buddy_of mem tail block buddy = (if block < tail then bd_next_block mem block else Some buddy)"

partial_function (option) bd_find_loop ::
  "nat \<Rightarrow> nat \<Rightarrow> buddy_mem \<Rightarrow> nat \<Rightarrow> nat \<Rightarrow> nat option \<Rightarrow> (nat option \<times> buddy_mem) option" where
  "bd_find_loop tail req mem block buddy best =
     (if block < tail \<and> buddy < tail then
        do { h \<leftarrow> mem block; g \<leftarrow> mem buddy;
             if bb_is_free h \<and> bb_is_free g \<and> bb_size h = bb_size g then
               let mem1 = mem(block \<mapsto> h\<lparr>bb_size := 2 * bb_size h\<rparr>) in
               do { better \<leftarrow> bd_better (\<le>) mem1 (2 * bb_size h) best;
                    block' \<leftarrow> bd_next_block mem1 buddy;
                    buddy' \<leftarrow> bd_buddy_of mem1 tail block' buddy;
                    bd_find_loop tail req mem1 block' buddy'
                      (if req \<le> 2 * bb_size h \<and> better then Some block else best) }
             else
               do { better1 \<leftarrow> bd_better (\<le>) mem (bb_size h) best;
                    let best1 = (if bb_is_free h \<and> req \<le> bb_size h \<and> better1 then Some block else best);
                    better2 \<leftarrow> bd_better (<) mem (bb_size g) best1;
                    let best2 = (if bb_is_free g \<and> req \<le> bb_size g \<and> better2 then Some buddy else best1);
                    next \<leftarrow> bd_next_block mem buddy;
                    if bb_size h \<le> bb_size g then
                      do { buddy' \<leftarrow> bd_buddy_of mem tail next buddy;
                           bd_find_loop tail req mem next buddy' best2 }
                    else bd_find_loop tail req mem buddy next best2 } }
      else Some (best, mem))"

definition bd_find :: "nat \<Rightarrow> nat \<Rightarrow> buddy_mem \<Rightarrow> (nat option \<times> buddy_mem) option" where
  "bd_find tail req mem =
     do { h \<leftarrow> mem 0; buddy \<leftarrow> bd_next_block mem 0;
          if buddy = tail \<and> bb_is_free h then bd_split mem 0 req
          else
            do { (best, mem') \<leftarrow> bd_find_loop tail req mem 0 buddy None;
                 case best of Some b \<Rightarrow> bd_split mem' b req | None \<Rightarrow> Some (None, mem') } }"

text \<open>\<open>while (size > actual_size) actual_size <<= 1\<close>: beyond \<open>2 ^ 63\<close> it does not end.\<close>

partial_function (option) bd_size_loop :: "u64 \<Rightarrow> u64 \<Rightarrow> u64 option" where
  "bd_size_loop req actual = (if actual < req then bd_size_loop req (push_bit 1 actual) else Some actual)"

definition bd_size_req :: "u64 \<Rightarrow> u64 \<Rightarrow> u64 option" where
  "bd_size_req alignment req =
     do { sz \<leftarrow> bd_align_forward (req + 16) alignment; bd_size_loop sz alignment }"

text \<open>One pass of \<open>vd_buddy_alloc__coalescence\<close>, and the loop around it.\<close>

partial_function (option) bd_coal_pass ::
  "nat \<Rightarrow> buddy_mem \<Rightarrow> nat \<Rightarrow> nat \<Rightarrow> bool \<Rightarrow> (bool \<times> buddy_mem) option" where
  "bd_coal_pass tail mem block buddy no_coalescence =
     (if block < tail \<and> buddy < tail then
        do { h \<leftarrow> mem block; g \<leftarrow> mem buddy;
             if bb_is_free h \<and> bb_is_free g \<and> bb_size h = bb_size g then
               let mem1 = mem(block \<mapsto> h\<lparr>bb_size := 2 * bb_size h\<rparr>) in
               do { block' \<leftarrow> bd_next_block mem1 block;
                    buddy' \<leftarrow> bd_buddy_of mem1 tail block' buddy;
                    bd_coal_pass tail mem1 block' buddy' (if block' < tail then False else no_coalescence) }
             else if bb_size h < bb_size g then
               do { next \<leftarrow> bd_next_block mem buddy; bd_coal_pass tail mem buddy next no_coalescence }
             else
               do { next \<leftarrow> bd_next_block mem buddy;
                    buddy' \<leftarrow> bd_buddy_of mem tail next buddy;
                    bd_coal_pass tail mem next buddy' no_coalescence } }
      else Some (no_coalescence, mem))"

partial_function (option) bd_coalescence :: "nat \<Rightarrow> buddy_mem \<Rightarrow> buddy_mem option" where
  "bd_coalescence tail mem =
     do { buddy \<leftarrow> bd_next_block mem 0;
          (no_coalescence, mem') \<leftarrow> bd_coal_pass tail mem 0 buddy True;
          if no_coalescence then Some mem' else bd_coalescence tail mem' }"

definition vd_buddy_alloc_init :: "u64 \<Rightarrow> u64 \<Rightarrow> VD_BuddyAlloc" where
  "vd_buddy_alloc_init initial_size alignment =
     (let al = bd_round_up_to_next_power_of_2 alignment;
          sz = unat (bd_round_up_to_next_power_of_2 initial_size) in
      \<lparr>bd_mem = [0 \<mapsto> \<lparr>bb_size = sz, bb_is_free = True\<rparr>], bd_tail = sz,
       bd_alignment = (if al < 16 then 16 else al)\<rparr>)"

text \<open>\<open>find\<close>, and if that fails \<open>coalescence\<close> and \<open>find\<close> again.\<close>

definition bd_search :: "nat \<Rightarrow> nat \<Rightarrow> buddy_mem \<Rightarrow> (nat option \<times> buddy_mem) option" where
  "bd_search tail req mem =
     do { (found, mem1) \<leftarrow> bd_find tail req mem;
          case found of
            Some b \<Rightarrow> Some (Some b, mem1)
          | None \<Rightarrow> do { mem' \<leftarrow> bd_coalescence tail mem1; bd_find tail req mem' } }"

text \<open>\<open>vd_buddy_alloc_realloc\<close>: pointers are offsets, the null pointer is \<open>None\<close>.\<close>

definition vd_buddy_alloc_realloc ::
  "VD_BuddyAlloc \<Rightarrow> nat option \<Rightarrow> u64 \<Rightarrow> (nat option \<times> VD_BuddyAlloc) option" where
  "vd_buddy_alloc_realloc al ptr req =
     (case ptr of
        None \<Rightarrow>
          do { actual_size \<leftarrow> bd_size_req (bd_alignment al) req;
               (found, mem2) \<leftarrow> bd_search (bd_tail al) (unat actual_size) (bd_mem al);
               case found of
                 None \<Rightarrow> Some (None, al\<lparr>bd_mem := mem2\<rparr>)
               | Some b \<Rightarrow>
                   do { h \<leftarrow> mem2 b;
                        Some (Some (b + unat (bd_alignment al)),
                          al\<lparr>bd_mem := mem2(b \<mapsto> h\<lparr>bb_is_free := False\<rparr>)\<rparr>) } }
      | Some p \<Rightarrow>
          if req = 0 then
            if p \<le> bd_tail al \<and> unat (bd_alignment al) \<le> p then
              do { h \<leftarrow> bd_mem al (p - unat (bd_alignment al));
                   Some (None, al\<lparr>bd_mem := (bd_mem al)(p - unat (bd_alignment al) \<mapsto> h\<lparr>bb_is_free := True\<rparr>)\<rparr>) }
            else None
          else Some (None, al))"

text \<open>The size \<open>vd_buddy_alloc_deinit\<close> hands back: that of the first block.\<close>

definition vd_buddy_alloc_deinit :: "VD_BuddyAlloc \<Rightarrow> nat option" where
  "vd_buddy_alloc_deinit al = map_option bb_size (bd_mem al 0)"

record buddy_stats =
  bs_used :: nat
  bs_total :: nat
  bs_num_blocks :: nat
  bs_num_free_blocks :: nat

partial_function (option) bd_stats_loop :: "nat \<Rightarrow> buddy_mem \<Rightarrow> nat \<Rightarrow> buddy_stats \<Rightarrow> buddy_stats option" where
  "bd_stats_loop tail mem block st =
     (if block < tail then
        do { h \<leftarrow> mem block;
             bd_stats_loop tail mem (block + bb_size h)
               \<lparr>bs_used = bs_used st + (if bb_is_free h then 0 else bb_size h),
                bs_total = bs_total st + bb_size h,
                bs_num_blocks = bs_num_blocks st + 1,
                bs_num_free_blocks = bs_num_free_blocks st + (if bb_is_free h then 1 else 0)\<rparr> }
      else Some st)"

definition vd_buddy_alloc_get_stats :: "VD_BuddyAlloc \<Rightarrow> buddy_stats option" where
  "vd_buddy_alloc_get_stats al = bd_stats_loop (bd_tail al) (bd_mem al) 0
     \<lparr>bs_used = 0, bs_total = 0, bs_num_blocks = 0, bs_num_free_blocks = 0\<rparr>"

section \<open>Tilings\<close>

text \<open>\<open>bd_tiles mem o bs t\<close>: following the sizes from \<open>o\<close>, the headers are \<open>bs\<close> and end at \<open>t\<close>.\<close>

fun bd_tiles :: "buddy_mem \<Rightarrow> nat \<Rightarrow> VD_BuddyBlock list \<Rightarrow> nat \<Rightarrow> bool" where
  "bd_tiles mem p [] t = (p = t)"
| "bd_tiles mem p (b # bs) t = (mem p = Some b \<and> 0 < bb_size b \<and> bd_tiles mem (p + bb_size b) bs t)"

definition bd_len :: "VD_BuddyBlock list \<Rightarrow> nat" where
  "bd_len bs = sum_list (map bb_size bs)"

lemma bd_len_simps [simp]: "bd_len [] = 0" "bd_len (b # bs) = bb_size b + bd_len bs"
  "bd_len (xs @ ys) = bd_len xs + bd_len ys"
  by (simp_all add: bd_len_def)

text \<open>The blocks in use, as intervals, and the block at an offset.\<close>

fun bd_used :: "nat \<Rightarrow> VD_BuddyBlock list \<Rightarrow> (nat \<times> nat) set" where
  "bd_used p [] = {}"
| "bd_used p (b # bs) = (if bb_is_free b then {} else {(p, bb_size b)}) \<union> bd_used (p + bb_size b) bs"

fun bd_at :: "nat \<Rightarrow> VD_BuddyBlock list \<Rightarrow> nat \<Rightarrow> VD_BuddyBlock option" where
  "bd_at p [] x = None"
| "bd_at p (b # bs) x = (if x = p then Some b else bd_at (p + bb_size b) bs x)"

definition pow2 :: "nat \<Rightarrow> bool" where
  "pow2 n \<longleftrightarrow> (\<exists>k. n = 2 ^ k)"

definition bd_pow2s :: "VD_BuddyBlock list \<Rightarrow> bool" where
  "bd_pow2s bs \<longleftrightarrow> (\<forall>b \<in> set bs. pow2 (bb_size b))"

lemma pow2_pos: "pow2 n \<Longrightarrow> 0 < n"
  by (auto simp: pow2_def)

lemma pow2_double: "pow2 n \<Longrightarrow> pow2 (2 * n)"
  unfolding pow2_def by (metis power_Suc)

lemma bd_pow2s_simps [simp]: "bd_pow2s []" "bd_pow2s (b # bs) \<longleftrightarrow> pow2 (bb_size b) \<and> bd_pow2s bs"
  "bd_pow2s (xs @ ys) \<longleftrightarrow> bd_pow2s xs \<and> bd_pow2s ys"
  by (auto simp: bd_pow2s_def)

lemma bd_tiles_end: "bd_tiles mem p bs t \<Longrightarrow> t = p + bd_len bs"
  by (induction bs arbitrary: p) fastforce+

lemma bd_tiles_append:
  "bd_tiles mem p (xs @ ys) t \<longleftrightarrow> bd_tiles mem p xs (p + bd_len xs) \<and> bd_tiles mem (p + bd_len xs) ys t"
  by (induction xs arbitrary: p) (auto simp: add.assoc)

lemma bd_tiles_outside:
  "bd_tiles mem p bs t \<Longrightarrow> \<forall>x. p \<le> x \<and> x < t \<longrightarrow> mem' x = mem x \<Longrightarrow> bd_tiles mem' p bs t"
proof (induction bs arbitrary: p)
  case (Cons b bs)
  then have "p < t" using bd_tiles_end [of mem "p + bb_size b" bs t] by auto
  with Cons show ?case by auto
qed simp

lemma bd_used_append: "bd_used p (xs @ ys) = bd_used p xs \<union> bd_used (p + bd_len xs) ys"
  by (induction xs arbitrary: p) (auto simp: add.assoc)

lemma bd_used_bounds: "(x, s) \<in> bd_used p bs \<Longrightarrow> p \<le> x \<and> x + s \<le> p + bd_len bs"
proof (induction bs arbitrary: p)
  case (Cons b bs)
  show ?case
  proof (cases "(x, s) \<in> bd_used (p + bb_size b) bs")
    case True
    from Cons.IH [OF this] show ?thesis by simp
  next
    case False
    with Cons.prems show ?thesis by (auto split: if_splits)
  qed
qed simp

lemma bd_used_free: "\<forall>b \<in> set bs. bb_is_free b \<Longrightarrow> bd_used p bs = {}"
  by (induction bs arbitrary: p) auto

lemma bd_at_append:
  "bd_pow2s xs \<Longrightarrow> bd_at p (xs @ ys) x = (if x < p + bd_len xs then bd_at p xs x else bd_at (p + bd_len xs) ys x)"
proof (induction xs arbitrary: p)
  case Nil
  have "bd_at p ys x = None" if "x < p" using that by (induction ys arbitrary: p) auto
  then show ?case by simp
next
  case (Cons b xs)
  then show ?case using pow2_pos [of "bb_size b"] by (auto simp: add.assoc)
qed

lemma bd_at_split: "bd_at p bs x = Some b \<Longrightarrow> \<exists>xs ys. bs = xs @ b # ys \<and> x = p + bd_len xs"
proof (induction bs arbitrary: p)
  case (Cons c bs)
  show ?case
  proof (cases "x = p")
    case True
    with Cons.prems show ?thesis by (intro exI [of _ "[]"] exI [of _ bs]) simp
  next
    case False
    then obtain xs ys where "bs = xs @ b # ys" "x = p + bb_size c + bd_len xs"
      using Cons.IH [of "p + bb_size c"] Cons.prems by auto
    then show ?thesis by (intro exI [of _ "c # xs"] exI [of _ ys]) simp
  qed
qed simp

lemma bd_at_mem: "bd_tiles mem p bs t \<Longrightarrow> bd_at p bs x = Some b \<Longrightarrow> mem x = Some b"
  by (induction bs arbitrary: p) (auto split: if_splits)

text \<open>Replacing the blocks in the middle of a tiling.\<close>

lemma bd_tiles_replace:
  assumes "bd_tiles mem 0 (xs @ mid @ ys) t"
    and "bd_tiles mem' (bd_len xs) mid' (bd_len xs + bd_len mid)"
    and "\<forall>x. x < bd_len xs \<or> bd_len xs + bd_len mid \<le> x \<longrightarrow> mem' x = mem x"
  shows "bd_tiles mem' 0 (xs @ mid' @ ys) t"
proof -
  have l: "bd_len mid' = bd_len mid" using bd_tiles_end [OF assms(2)] by simp
  have "bd_tiles mem 0 xs (bd_len xs)" "bd_tiles mem (bd_len xs + bd_len mid) ys t"
    using assms(1) by (auto simp: bd_tiles_append)
  then have "bd_tiles mem' 0 xs (bd_len xs)" "bd_tiles mem' (bd_len xs + bd_len mid) ys t"
    using assms(3) by (auto elim!: bd_tiles_outside)
  with assms(2) show ?thesis by (simp add: bd_tiles_append l)
qed

section \<open>Splitting\<close>

lemma bd_split_loop_ok:
  assumes "bd_tiles mem p [b] (p + bb_size b)" and "bb_size b = req * 2 ^ n" and "0 < req" and "bb_is_free b"
    and "pow2 req"
  shows "\<exists>cs mem'. bd_split_loop mem p req = Some (Some (p + bd_len cs), mem')
    \<and> bd_tiles mem' p (cs @ [\<lparr>bb_size = req, bb_is_free = True\<rparr>]) (p + bb_size b)
    \<and> (\<forall>c \<in> set cs. bb_is_free c) \<and> bd_pow2s cs
    \<and> (\<forall>x. x < p \<or> p + bb_size b \<le> x \<longrightarrow> mem' x = mem x)"
  using assms
proof (induction n arbitrary: mem p b)
  case 0
  then have "b = \<lparr>bb_size = req, bb_is_free = True\<rparr>" by (cases b) simp
  with 0 show ?case
    by (intro exI [of _ "[]"] exI [of _ mem]) (simp add: bd_split_loop.simps [of mem p req])
next
  case (Suc n)
  define sz where "sz = bb_size b div 2"
  let ?h = "b\<lparr>bb_size := sz\<rparr>" and ?g = "\<lparr>bb_size = sz, bb_is_free = True\<rparr>"
  let ?m = "mem(p \<mapsto> ?h, p + sz \<mapsto> ?g)"
  have sz: "sz = req * 2 ^ n" "bb_size b = sz + sz" "0 < sz" using Suc.prems by (simp_all add: sz_def)
  have ps: "pow2 sz" using sz(1) Suc.prems(5) by (auto simp: pow2_def power_add [symmetric])
  have g: "bb_size ?g = sz" "bb_is_free ?g" by simp_all
  have "bd_tiles ?m (p + sz) [?g] (p + sz + bb_size ?g)" using sz(3) by simp
  from Suc.IH [OF this _ Suc.prems(3) g(2) Suc.prems(5)] sz(1) obtain cs mem' where
    r: "bd_split_loop ?m (p + sz) req = Some (Some (p + sz + bd_len cs), mem')"
    "bd_tiles mem' (p + sz) (cs @ [\<lparr>bb_size = req, bb_is_free = True\<rparr>]) (p + sz + sz)"
    "\<forall>c \<in> set cs. bb_is_free c" "bd_pow2s cs"
    "\<forall>x. x < p + sz \<or> p + sz + sz \<le> x \<longrightarrow> mem' x = ?m x" unfolding g(1) by blast
  have "req \<le> sz" using sz(1) by simp
  then have "req < bb_size b" using sz(2,3) by linarith
  then have "bd_split_loop mem p req = Some (Some (p + bd_len (?h # cs)), mem')"
    using Suc.prems(1,3) r(1) by (subst bd_split_loop.simps) (simp add: Let_def add.assoc sz_def [symmetric])
  moreover have "mem' p = Some ?h" using r(5) sz(3) by simp
  then have "bd_tiles mem' p ((?h # cs) @ [\<lparr>bb_size = req, bb_is_free = True\<rparr>]) (p + bb_size b)"
    using r(2) sz(2,3) by (simp add: add.assoc)
  moreover have "\<forall>x. x < p \<or> p + bb_size b \<le> x \<longrightarrow> mem' x = mem x" using r(5) sz(2,3) by auto
  ultimately show ?case using r(3,4) ps Suc.prems(4)
    by (intro exI [of _ "?h # cs"] exI [of _ mem']) simp
qed

section \<open>The search\<close>

text \<open>What the search keeps: a tiling with power-of-two sizes, and the blocks in use.\<close>

definition bd_state :: "buddy_mem \<Rightarrow> VD_BuddyBlock list \<Rightarrow> nat \<Rightarrow> (nat \<times> nat) set \<Rightarrow> bool" where
  "bd_state mem bs tail U \<longleftrightarrow> bd_tiles mem 0 bs tail \<and> bd_pow2s bs \<and> bd_used 0 bs = U"

definition bd_best_ok :: "VD_BuddyBlock list \<Rightarrow> nat \<Rightarrow> nat option \<Rightarrow> bool" where
  "bd_best_ok bs req best \<longleftrightarrow> (\<forall>p. best = Some p \<longrightarrow> (\<exists>b. bd_at 0 bs p = Some b \<and> bb_is_free b \<and> req \<le> bb_size b))"

lemma bd_state_mem: "bd_state mem (as @ b # bs) tail U \<Longrightarrow> mem (bd_len as) = Some b"
  by (simp add: bd_state_def bd_tiles_append)

lemma bd_state_less: "bd_state mem (as @ b # bs) tail U \<Longrightarrow> bd_len as < tail"
  using bd_tiles_end [of mem 0 "as @ b # bs" tail] by (auto simp: bd_state_def dest: pow2_pos)

lemma bd_state_end: "bd_state mem as tail U \<Longrightarrow> bd_len as = tail"
  using bd_tiles_end [of mem 0 as tail] by (simp add: bd_state_def)

lemma bd_state_next: "bd_state mem (as @ b # bs) tail U \<Longrightarrow> bd_next_block mem (bd_len as) = Some (bd_len (as @ [b]))"
  by (simp add: bd_next_block_def bd_state_mem)

lemma bd_state_pos: "bd_state mem (as @ b # bs) tail U \<Longrightarrow> 0 < bb_size b"
  by (auto simp: bd_state_def dest: pow2_pos)

lemma bd_state_merge:
  assumes "bd_state mem (as @ b # c # cs) tail U" and "bb_is_free b" and "bb_is_free c" and "bb_size b = bb_size c"
  shows "bd_state (mem(bd_len as \<mapsto> b\<lparr>bb_size := 2 * bb_size b\<rparr>)) (as @ b\<lparr>bb_size := 2 * bb_size b\<rparr> # cs) tail U"
proof -
  have t: "bd_tiles mem 0 (as @ [b, c] @ cs) tail" and p: "bd_pow2s (as @ b # c # cs)"
    and u: "bd_used 0 (as @ b # c # cs) = U" using assms(1) by (auto simp: bd_state_def)
  have "bd_tiles (mem(bd_len as \<mapsto> b\<lparr>bb_size := 2 * bb_size b\<rparr>)) 0 (as @ [b\<lparr>bb_size := 2 * bb_size b\<rparr>] @ cs) tail"
    using bd_state_pos [OF assms(1)] assms(4) by (intro bd_tiles_replace [OF t]) auto
  moreover have "bd_used 0 (as @ b\<lparr>bb_size := 2 * bb_size b\<rparr> # cs) = U"
    using u assms(2-4) by (simp add: bd_used_append mult_2 add.assoc)
  ultimately show ?thesis using p pow2_double [of "bb_size b"] by (simp add: bd_state_def)
qed

text \<open>The next buddy after the search moved to the end of \<open>as\<close>.\<close>

lemma bd_buddy_of_ok:
  assumes "bd_state mem (as @ bs) tail U"
  shows "\<exists>buddy'. bd_buddy_of mem tail (bd_len as) buddy = Some buddy'
    \<and> (\<forall>b cs. bs = b # cs \<longrightarrow> buddy' = bd_len (as @ [b]))"
proof (cases bs)
  case Nil
  with assms have "bd_len as = tail" using bd_state_end by simp
  with Nil show ?thesis by (simp add: bd_buddy_of_def)
next
  case (Cons b cs)
  with assms show ?thesis
    using bd_state_less [of mem as b cs tail U] bd_state_next [of mem as b cs tail U] by (simp add: bd_buddy_of_def)
qed

lemma bd_better_ok:
  assumes "bd_state mem bs tail U" and "bd_best_ok bs req best"
  shows "\<exists>r. bd_better cmp mem s best = Some r"
proof (cases best)
  case (Some p)
  with assms obtain b where "bd_at 0 bs p = Some b" by (auto simp: bd_best_ok_def)
  with assms(1) have "mem p = Some b" by (auto simp: bd_state_def bd_at_mem)
  with Some show ?thesis by (simp add: bd_better_def)
qed (auto simp: bd_better_def)

lemma bd_best_at:
  "bd_pow2s as \<Longrightarrow> bb_is_free b \<Longrightarrow> req \<le> bb_size b \<Longrightarrow> bd_best_ok (as @ b # bs) req (Some (bd_len as))"
  by (simp add: bd_best_ok_def bd_at_append)

lemma bd_find_loop_skip:
  assumes "block < tail" and "buddy < tail" and "mem block = Some b" and "mem buddy = Some c"
    and "\<not> (bb_is_free b \<and> bb_is_free c \<and> bb_size b = bb_size c)"
    and "bd_better (\<le>) mem (bb_size b) best = Some r1"
    and "bd_better (<) mem (bb_size c) (if bb_is_free b \<and> req \<le> bb_size b \<and> r1 then Some block else best) = Some r2"
    and "bd_next_block mem buddy = Some nx"
  defines "best2 \<equiv> (if bb_is_free c \<and> req \<le> bb_size c \<and> r2 then Some buddy
      else if bb_is_free b \<and> req \<le> bb_size b \<and> r1 then Some block else best)"
  shows "bd_find_loop tail req mem block buddy best =
    (if bb_size b \<le> bb_size c
     then do { buddy' \<leftarrow> bd_buddy_of mem tail nx buddy; bd_find_loop tail req mem nx buddy' best2 }
     else bd_find_loop tail req mem buddy nx best2)"
proof -
  have "bb_is_free b \<and> bb_is_free c \<and> bb_size b = bb_size c \<longleftrightarrow> False" using assms(5) by blast
  then show ?thesis
    using assms(1-4,6-8) unfolding best2_def
    by (subst bd_find_loop.simps) (simp only: simp_thms if_True if_False Option.bind.simps Let_def)
qed

lemma bd_find_loop_ok:
  assumes "bd_state mem (as @ bs) tail U" and "\<forall>b cs. bs = b # cs \<longrightarrow> buddy = bd_len (as @ [b])"
    and "bd_best_ok (as @ bs) req best" and "\<forall>p. best = Some p \<longrightarrow> p \<le> bd_len as"
  shows "\<exists>best' mem' bs'. bd_find_loop tail req mem (bd_len as) buddy best = Some (best', mem')
    \<and> bd_state mem' bs' tail U \<and> bd_best_ok bs' req best'"
  using assms
proof (induction "length bs" arbitrary: as bs mem buddy best rule: less_induct)
  case less
  note st = less.prems(1) and best = less.prems(3,4)
  show ?case
  proof (cases "bs = [] \<or> tl bs = []")
    case True
    then have "\<not> (bd_len as < tail \<and> buddy < tail)"
      using bd_state_end [OF st] less.prems(2) by (cases bs) auto
    then show ?thesis using st best(1) by (subst bd_find_loop.simps) auto
  next
    case False
    then obtain b c cs where bs: "bs = b # c # cs" by (cases bs; cases "tl bs") auto
    have bde: "buddy = bd_len (as @ [b])" using less.prems(2) bs by simp
    have st1: "bd_state mem (as @ b # c # cs) tail U" and st2: "bd_state mem ((as @ [b]) @ c # cs) tail U"
      and st3: "bd_state mem ((as @ [b, c]) @ cs) tail U" using st bs by simp_all
    have p2: "bd_pow2s as" "pow2 (bb_size b)" using st1 by (auto simp: bd_state_def)
    have lt: "bd_len as < tail" "buddy < tail"
      using bd_state_less [OF st1] bd_state_less [OF st2] bde by simp_all
    have mb: "mem (bd_len as) = Some b" "mem buddy = Some c"
      using bd_state_mem [OF st1] bd_state_mem [OF st2] bde by simp_all
    have bpos: "0 < bb_size b" using bd_state_pos [OF st1] .
    show ?thesis
    proof (cases "bb_is_free b \<and> bb_is_free c \<and> bb_size b = bb_size c")
      case True
      let ?d = "b\<lparr>bb_size := 2 * bb_size b\<rparr>"
      let ?m = "mem(bd_len as \<mapsto> ?d)"
      have sm: "bd_state ?m (as @ ?d # cs) tail U" using bd_state_merge [OF st1] True by simp
      have bm: "bd_best_ok (as @ ?d # cs) req best"
        unfolding bd_best_ok_def
      proof (intro allI impI)
        fix p assume p: "best = Some p"
        with best bs obtain h where h: "bd_at 0 (as @ b # c # cs) p = Some h" "bb_is_free h" "req \<le> bb_size h"
          and ple: "p \<le> bd_len as" by (auto simp: bd_best_ok_def)
        then show "\<exists>h. bd_at 0 (as @ ?d # cs) p = Some h \<and> bb_is_free h \<and> req \<le> bb_size h"
          using p2(1) by (cases "p = bd_len as") (auto simp: bd_at_append)
      qed
      obtain r where r: "bd_better (\<le>) ?m (2 * bb_size b) best = Some r" using bd_better_ok [OF sm bm] by blast
      have nb: "bd_next_block ?m buddy = Some (bd_len (as @ [?d]))"
        using mb(2) bde bpos True by (simp add: bd_next_block_def)
      obtain buddy' where bu: "bd_buddy_of ?m tail (bd_len (as @ [?d])) buddy = Some buddy'"
        "\<forall>b' cs'. cs = b' # cs' \<longrightarrow> buddy' = bd_len ((as @ [?d]) @ [b'])"
        using bd_buddy_of_ok [of ?m "as @ [?d]" cs tail U buddy] sm by auto
      define best1 where "best1 = (if req \<le> 2 * bb_size b \<and> r then Some (bd_len as) else best)"
      have "bd_best_ok ((as @ [?d]) @ cs) req best1"
        using bm bd_best_at [of as ?d req cs] p2(1) True by (simp add: best1_def)
      moreover have "\<forall>p. best1 = Some p \<longrightarrow> p \<le> bd_len (as @ [?d])" using best(2) by (auto simp: best1_def)
      ultimately have "\<exists>best' mem' bs'. bd_find_loop tail req ?m (bd_len (as @ [?d])) buddy' best1 = Some (best', mem')
          \<and> bd_state mem' bs' tail U \<and> bd_best_ok bs' req best'"
        using less.hyps [of cs ?m "as @ [?d]" buddy' best1] sm bu(2) bs by simp
      moreover have "bd_find_loop tail req mem (bd_len as) buddy best =
          bd_find_loop tail req ?m (bd_len (as @ [?d])) buddy' best1"
        using True lt mb r nb bu(1) by (subst bd_find_loop.simps) (simp add: best1_def Let_def)
      ultimately show ?thesis by simp
    next
      case False
      obtain r1 where r1: "bd_better (\<le>) mem (bb_size b) best = Some r1" using bd_better_ok [OF st best(1)] by blast
      define best1 where "best1 = (if bb_is_free b \<and> req \<le> bb_size b \<and> r1 then Some (bd_len as) else best)"
      have b1: "bd_best_ok (as @ bs) req best1"
        using best(1) bd_best_at [of as b req "c # cs"] p2(1) bs by (simp add: best1_def)
      obtain r2 where r2: "bd_better (<) mem (bb_size c) best1 = Some r2" using bd_better_ok [OF st b1] by blast
      define best2 where "best2 = (if bb_is_free c \<and> req \<le> bb_size c \<and> r2 then Some buddy else best1)"
      have b2: "bd_best_ok (as @ bs) req best2"
        using b1 bd_best_at [of "as @ [b]" c req cs] p2 bs bde by (simp add: best2_def)
      have b2p: "\<forall>p. best2 = Some p \<longrightarrow> p \<le> buddy"
        using best(2) bde by (cases best) (auto simp: best2_def best1_def)
      have nb: "bd_next_block mem buddy = Some (bd_len (as @ [b, c]))"
        using bd_state_next [OF st2] bde by simp
      show ?thesis
      proof (cases "bb_size b \<le> bb_size c")
        case le: True
        obtain buddy' where bu: "bd_buddy_of mem tail (bd_len (as @ [b, c])) buddy = Some buddy'"
          "\<forall>b' cs'. cs = b' # cs' \<longrightarrow> buddy' = bd_len ((as @ [b, c]) @ [b'])"
          using bd_buddy_of_ok [OF st3, of buddy] by auto
        have "\<exists>best' mem' bs'. bd_find_loop tail req mem (bd_len (as @ [b, c])) buddy' best2 = Some (best', mem')
            \<and> bd_state mem' bs' tail U \<and> bd_best_ok bs' req best'"
          using less.hyps [of cs mem "as @ [b, c]" buddy' best2] st3 bu(2) bs b2 b2p bde by fastforce
        moreover have "bd_find_loop tail req mem (bd_len as) buddy best =
            bd_find_loop tail req mem (bd_len (as @ [b, c])) buddy' best2"
          using le bd_find_loop_skip [OF lt mb False r1 r2 [unfolded best1_def] nb] bu(1)
          by (simp add: best1_def best2_def)
        ultimately show ?thesis by simp
      next
        case gt: False
        have "\<exists>best' mem' bs'. bd_find_loop tail req mem (bd_len (as @ [b])) (bd_len (as @ [b, c])) best2 = Some (best', mem')
            \<and> bd_state mem' bs' tail U \<and> bd_best_ok bs' req best'"
          using less.hyps [of "c # cs" mem "as @ [b]" "bd_len (as @ [b, c])" best2] st2 bs b2 b2p bde by simp
        moreover have "bd_find_loop tail req mem (bd_len as) buddy best =
            bd_find_loop tail req mem (bd_len (as @ [b])) (bd_len (as @ [b, c])) best2"
          using gt bd_find_loop_skip [OF lt mb False r1 r2 [unfolded best1_def] nb] bde
          by (simp add: best1_def best2_def)
        ultimately show ?thesis by simp
      qed
    qed
  qed
qed

text \<open>The whole search: it ends, keeps the blocks in use, and finds a free block that it has split
  down to the size asked for.\<close>

lemma bd_split_ok:
  assumes "bd_state mem bs tail U" and "bd_at 0 bs p = Some b" and "bb_is_free b" and "pow2 req" and "req \<le> bb_size b"
  shows "\<exists>q mem' bs'. bd_split mem p req = Some (Some q, mem') \<and> bd_state mem' bs' tail U
    \<and> bd_at 0 bs' q = Some \<lparr>bb_size = req, bb_is_free = True\<rparr>"
proof -
  let ?r = "\<lparr>bb_size = req, bb_is_free = True\<rparr>"
  obtain xs ys where bs: "bs = xs @ b # ys" "p = bd_len xs" using bd_at_split [OF assms(2)] by auto
  have st: "bd_state mem (xs @ b # ys) tail U" using assms(1) bs by simp
  have pw: "bd_pow2s xs" "pow2 (bb_size b)" "bd_pow2s ys" using st by (auto simp: bd_state_def)
  obtain i j where ij: "bb_size b = 2 ^ i" "req = 2 ^ j" using pw(2) assms(4) by (auto simp: pow2_def)
  then have "j \<le> i" using assms(5) by simp
  then have sz: "bb_size b = req * 2 ^ (i - j)" using ij by (simp add: power_add [symmetric])
  have "bd_tiles mem p [b] (p + bb_size b)" using bd_state_mem [OF st] bd_state_pos [OF st] bs by simp
  from bd_split_loop_ok [OF this sz pow2_pos [OF assms(4)] assms(3,4)] obtain cs mem' where
    r: "bd_split_loop mem p req = Some (Some (p + bd_len cs), mem')"
    "bd_tiles mem' p (cs @ [?r]) (p + bb_size b)" "\<forall>c \<in> set cs. bb_is_free c" "bd_pow2s cs"
    "\<forall>x. x < p \<or> p + bb_size b \<le> x \<longrightarrow> mem' x = mem x" by blast
  have t: "bd_tiles mem 0 (xs @ [b] @ ys) tail" using st by (simp add: bd_state_def)
  have bl: "bd_len [b] = bb_size b" by simp
  have "bd_tiles mem' 0 (xs @ (cs @ [?r]) @ ys) tail"
    by (rule bd_tiles_replace [OF t r(2,5) [unfolded bs(2) bl [symmetric]]])
  moreover have "bd_len (cs @ [?r]) = bb_size b" using bd_tiles_end [OF r(2)] by simp
  then have "bd_used 0 (xs @ (cs @ [?r]) @ ys) = U"
    using st assms(3) bd_used_free [of cs "bd_len xs"] r(3)
    by (simp add: bd_used_append bd_state_def add.assoc)
  ultimately have "bd_state mem' (xs @ (cs @ [?r]) @ ys) tail U"
    using pw r(4) assms(4) by (simp add: bd_state_def)
  moreover have "bd_at 0 (xs @ (cs @ [?r]) @ ys) (p + bd_len cs) = Some ?r"
    using bd_at_append [of "xs @ cs" 0 "?r # ys" "p + bd_len cs"] pw(1) r(4) bs(2) by simp
  ultimately show ?thesis using r(1) pow2_pos [OF assms(4)] by (auto simp: bd_split_def)
qed

definition bd_found_ok :: "VD_BuddyBlock list \<Rightarrow> nat \<Rightarrow> nat option \<Rightarrow> bool" where
  "bd_found_ok bs req found \<longleftrightarrow> (\<forall>q. found = Some q \<longrightarrow> bd_at 0 bs q = Some \<lparr>bb_size = req, bb_is_free = True\<rparr>)"

lemma bd_find_ok:
  assumes st: "bd_state mem bs tail U" and ne: "bs \<noteq> []" and req: "pow2 req"
  shows "\<exists>found mem' bs'. bd_find tail req mem = Some (found, mem') \<and> bd_state mem' bs' tail U
    \<and> bd_found_ok bs' req found"
proof -
  obtain b cs where bs: "bs = b # cs" using ne by (cases bs) auto
  have st1: "bd_state mem ([] @ b # cs) tail U" using st bs by simp
  have m0: "mem 0 = Some b" "bd_next_block mem 0 = Some (bb_size b)"
    using bd_state_mem [OF st1] bd_state_next [OF st1] by simp_all
  show ?thesis
  proof (cases "bb_size b = tail \<and> bb_is_free b")
    case True
    show ?thesis
    proof (cases "req \<le> bb_size b")
      case le: True
      have "bd_at 0 bs 0 = Some b" using bs by simp
      from bd_split_ok [OF st this _ req le] True show ?thesis
        using m0 by (auto simp: bd_find_def bd_found_ok_def)
    next
      case False
      have "bd_split mem 0 req = Some (None, mem)"
        using False m0 pow2_pos [OF req] by (simp add: bd_split_def bd_split_loop.simps [of mem 0 req])
      with True m0 st show ?thesis by (auto simp: bd_find_def bd_found_ok_def)
    qed
  next
    case False
    obtain best' mem' bs' where f: "bd_find_loop tail req mem 0 (bb_size b) None = Some (best', mem')"
      "bd_state mem' bs' tail U" "bd_best_ok bs' req best'"
      using bd_find_loop_ok [of mem "[]" bs tail U "bb_size b" req None] st bs by (auto simp: bd_best_ok_def)
    show ?thesis
    proof (cases best')
      case None
      with f m0 False show ?thesis by (auto simp: bd_find_def bd_found_ok_def)
    next
      case (Some p)
      with f(3) obtain h where h: "bd_at 0 bs' p = Some h" "bb_is_free h" "req \<le> bb_size h"
        by (auto simp: bd_best_ok_def)
      from bd_split_ok [OF f(2) h(1,2) req h(3)] f(1) m0 False Some show ?thesis
        by (auto simp: bd_find_def bd_found_ok_def)
    qed
  qed
qed

section \<open>Coalescence\<close>

lemma bd_coal_pass_ok:
  assumes "bd_state mem (as @ bs) tail U" and "\<forall>b cs. bs = b # cs \<longrightarrow> buddy = bd_len (as @ [b])"
  shows "\<exists>r mem' bs'. bd_coal_pass tail mem (bd_len as) buddy nc = Some (r, mem') \<and> bd_state mem' bs' tail U
    \<and> length bs' \<le> length (as @ bs) \<and> (nc \<and> \<not> r \<longrightarrow> length bs' < length (as @ bs))"
  using assms
proof (induction "length bs" arbitrary: as bs mem buddy nc rule: less_induct)
  case less
  note st = less.prems(1)
  show ?case
  proof (cases "bs = [] \<or> tl bs = []")
    case True
    then have "\<not> (bd_len as < tail \<and> buddy < tail)"
      using bd_state_end [OF st] less.prems(2) by (cases bs) auto
    then show ?thesis using st by (subst bd_coal_pass.simps) auto
  next
    case False
    then obtain b c cs where bs: "bs = b # c # cs" by (cases bs; cases "tl bs") auto
    have bde: "buddy = bd_len (as @ [b])" using less.prems(2) bs by simp
    have st1: "bd_state mem (as @ b # c # cs) tail U" and st2: "bd_state mem ((as @ [b]) @ c # cs) tail U"
      and st3: "bd_state mem ((as @ [b, c]) @ cs) tail U" using st bs by simp_all
    have lt: "bd_len as < tail" "buddy < tail"
      using bd_state_less [OF st1] bd_state_less [OF st2] bde by simp_all
    have mb: "mem (bd_len as) = Some b" "mem buddy = Some c"
      using bd_state_mem [OF st1] bd_state_mem [OF st2] bde by simp_all
    have nb: "bd_next_block mem buddy = Some (bd_len (as @ [b, c]))"
      using bd_state_next [OF st2] bde by simp
    show ?thesis
    proof (cases "bb_is_free b \<and> bb_is_free c \<and> bb_size b = bb_size c")
      case True
      let ?d = "b\<lparr>bb_size := 2 * bb_size b\<rparr>"
      let ?m = "mem(bd_len as \<mapsto> ?d)"
      have sm: "bd_state ?m (as @ ?d # cs) tail U" using bd_state_merge [OF st1] True by simp
      obtain buddy' where bu: "bd_buddy_of ?m tail (bd_len (as @ [?d])) buddy = Some buddy'"
        "\<forall>b' cs'. cs = b' # cs' \<longrightarrow> buddy' = bd_len ((as @ [?d]) @ [b'])"
        using bd_buddy_of_ok [of ?m "as @ [?d]" cs tail U buddy] sm by auto
      let ?nc = "if bd_len (as @ [?d]) < tail then False else nc"
      obtain r mem' bs' where r: "bd_coal_pass tail ?m (bd_len (as @ [?d])) buddy' ?nc = Some (r, mem')"
          "bd_state mem' bs' tail U" "length bs' \<le> length ((as @ [?d]) @ cs)"
        using less.hyps [of cs ?m "as @ [?d]" buddy' ?nc] sm bu(2) bs by auto
      have "bd_coal_pass tail mem (bd_len as) buddy nc =
          bd_coal_pass tail ?m (bd_len (as @ [?d])) buddy' ?nc"
        using True lt mb bu(1) bd_state_next [OF sm] by (subst bd_coal_pass.simps) (simp add: Let_def)
      with r bs show ?thesis by (intro exI [of _ r] exI [of _ mem'] exI [of _ bs']) simp
    next
      case False
      show ?thesis
      proof (cases "bb_size b < bb_size c")
        case le: True
        have "bd_coal_pass tail mem (bd_len as) buddy nc =
            bd_coal_pass tail mem (bd_len (as @ [b])) (bd_len (as @ [b, c])) nc"
          using False le lt mb nb bde by (subst bd_coal_pass.simps) auto
        with less.hyps [of "c # cs" mem "as @ [b]" "bd_len (as @ [b, c])" nc] st2 bs show ?thesis by simp
      next
        case ge: False
        obtain buddy' where bu: "bd_buddy_of mem tail (bd_len (as @ [b, c])) buddy = Some buddy'"
          "\<forall>b' cs'. cs = b' # cs' \<longrightarrow> buddy' = bd_len ((as @ [b, c]) @ [b'])"
          using bd_buddy_of_ok [OF st3, of buddy] by auto
        have "bd_coal_pass tail mem (bd_len as) buddy nc = bd_coal_pass tail mem (bd_len (as @ [b, c])) buddy' nc"
          using False ge lt mb nb bu(1) by (subst bd_coal_pass.simps) auto
        with less.hyps [of cs mem "as @ [b, c]" buddy' nc] st3 bs bu(2) show ?thesis by simp
      qed
    qed
  qed
qed

lemma bd_coalescence_ok:
  assumes "bd_state mem bs tail U" and "bs \<noteq> []" and "0 < tail"
  shows "\<exists>mem' bs'. bd_coalescence tail mem = Some mem' \<and> bd_state mem' bs' tail U \<and> bs' \<noteq> []"
  using assms
proof (induction "length bs" arbitrary: mem bs rule: less_induct)
  case less
  obtain b cs where bs: "bs = b # cs" using less.prems(2) by (cases bs) auto
  have nb: "bd_next_block mem 0 = Some (bb_size b)"
    using bd_state_next [of mem "[]" b cs tail U] less.prems(1) bs by simp
  obtain r mem' bs' where p: "bd_coal_pass tail mem 0 (bb_size b) True = Some (r, mem')"
    "bd_state mem' bs' tail U" "\<not> r \<longrightarrow> length bs' < length bs"
    using bd_coal_pass_ok [of mem "[]" bs tail U "bb_size b" True] less.prems(1) bs by auto
  have ne: "bs' \<noteq> []" using bd_state_end [OF p(2)] less.prems(3) by auto
  show ?case
  proof (cases r)
    case True
    then show ?thesis using p ne nb by (subst bd_coalescence.simps) auto
  next
    case False
    then show ?thesis using less.hyps [of bs' mem'] p ne nb less.prems(3)
      by (subst bd_coalescence.simps) simp
  qed
qed

section \<open>Sizes\<close>

lemma unat_pow2: "j < 64 \<Longrightarrow> unat (2 ^ j :: u64) = 2 ^ j"
proof -
  assume "j < 64"
  then have "(2::nat) ^ j < 2 ^ 64" by (rule power_strict_increasing) simp
  then show ?thesis using unat_of_nat_lt [where 'a = 64, of "2 ^ j"] by simp
qed

lemma bit_unat_eq: "bit (x :: u64) n \<longleftrightarrow> odd (unat x div 2 ^ n)"
proof -
  have "bit (unat x) n \<longleftrightarrow> bit x n" using bit_imp_le_length [of x n] by (auto simp: bit_unsigned_iff)
  then show ?thesis by (simp add: bit_iff_odd)
qed

lemma bit_top: "2 ^ n \<le> unat (x :: u64) \<Longrightarrow> unat x < 2 ^ Suc n \<Longrightarrow> bit x m \<Longrightarrow> m \<le> n"
proof (rule ccontr)
  assume x: "unat x < 2 ^ Suc n" "bit x m" and "\<not> m \<le> n"
  then have "(2::nat) ^ Suc n \<le> 2 ^ m" by (intro power_increasing) simp_all
  with x(1) have "unat x div 2 ^ m = 0" by simp
  with x(2) show False by (simp add: bit_unat_eq)
qed

lemma bit_top_set: "2 ^ n \<le> unat (x :: u64) \<Longrightarrow> unat x < 2 ^ Suc n \<Longrightarrow> bit x n"
proof -
  assume "2 ^ n \<le> unat x" "unat x < 2 ^ Suc n"
  then have "unat x div 2 ^ n = 1" by (intro div_nat_eqI) simp_all
  then show ?thesis by (simp add: bit_unat_eq)
qed

lemma smear_step:
  assumes "\<forall>k. bit y k \<longleftrightarrow> (\<exists>j < w. bit (x :: u64) (k + j))" and w: "w' = w + w"
  shows "\<forall>k. bit (y OR drop_bit w y) k \<longleftrightarrow> (\<exists>j < w'. bit x (k + j))"
  unfolding w
proof
  fix k
  have "(\<exists>j < w + w. bit x (k + j)) \<longleftrightarrow> (\<exists>j < w. bit x (k + j)) \<or> (\<exists>j < w. bit x (k + w + j))"
    (is "?l \<longleftrightarrow> ?r")
  proof
    assume ?l
    then obtain j where j: "j < w + w" "bit x (k + j)" by blast
    show ?r
    proof (cases "j < w")
      case False
      then have "j - w < w" "k + w + (j - w) = k + j" using j(1) by simp_all
      with j(2) show ?r by metis
    qed (use j(2) in blast)
  next
    assume ?r
    then show ?l
    proof
      assume "\<exists>j < w. bit x (k + w + j)"
      then obtain j where "j < w" "bit x (k + (w + j))" by (auto simp: add.assoc)
      then show ?l by (intro exI [of _ "w + j"]) simp
    qed (auto intro: trans_less_add1)
  qed
  then show "bit (y OR drop_bit w y) k \<longleftrightarrow> (\<exists>j < w + w. bit x (k + j))"
    by (simp add: bit_or_iff bit_drop_bit_eq assms(1) add.commute)
qed

lemma bd_round_up_spec:
  assumes x: "0 < unat x" "unat x \<le> 2 ^ 63"
  shows "\<exists>k \<le> 63. bd_round_up_to_next_power_of_2 x = 2 ^ k \<and> unat x \<le> 2 ^ k \<and> 2 ^ k < 2 * unat x"
proof -
  obtain n where n: "2 ^ n \<le> unat x" "unat x < 2 ^ Suc n" using ex_power_ivl1 [of 2 "unat x"] x by auto
  have n63: "n \<le> 63"
  proof (rule ccontr)
    assume "\<not> n \<le> 63"
    then have "(2::nat) ^ 64 \<le> 2 ^ n" by (intro power_increasing) simp_all
    with n(1) x(2) show False by simp
  qed
  have x0: "x \<noteq> 0" using x by auto
  then have um: "unat (x - 1) = unat x - 1" by (simp add: unat_minus_one)
  show ?thesis
  proof (cases "unat x = 2 ^ n")
    case True
    then have "unat x = unat (2 ^ n :: u64)" using n63 by (simp add: unat_pow2)
    then have xe: "x = 2 ^ n" by (rule unsigned_word_eqI)
    have "(2 ^ n :: u64) AND (2 ^ n - 1) = 0"
      using n63 by (simp add: mask_eq_exp_minus_1 [symmetric] take_bit_eq_mask [symmetric])
        (rule bit_word_eqI, simp add: bit_take_bit_iff bit_exp_iff)
    then show ?thesis using xe x0 True n63 by (intro exI [of _ n]) (simp add: bd_round_up_to_next_power_of_2_def)
  next
    case False
    then have r: "2 ^ n \<le> unat (x - 1)" "unat (x - 1) < 2 ^ Suc n" using n um by simp_all
    have "bit (x AND (x - 1)) n" using bit_top_set [OF n] bit_top_set [OF r] by (simp add: bit_and_iff)
    then have nz: "x AND (x - 1) \<noteq> 0" by auto
    have "n < 63"
    proof (rule ccontr)
      assume "\<not> n < 63"
      then have "n = 63" using n63 by simp
      with False n(1) x(2) show False by simp
    qed
    define x1 where "x1 = (x - 1) OR drop_bit 1 (x - 1)"
    define x2 where "x2 = x1 OR drop_bit 2 x1"
    define x4 where "x4 = x2 OR drop_bit 4 x2"
    define x8 where "x8 = x4 OR drop_bit 8 x4"
    define x16 where "x16 = x8 OR drop_bit 16 x8"
    define s where "s = x16 OR drop_bit 32 x16"
    have "\<forall>k. bit (x - 1) k \<longleftrightarrow> (\<exists>j < 1. bit (x - 1) (k + j))" by simp
    then have "\<forall>k. bit x1 k \<longleftrightarrow> (\<exists>j < 2. bit (x - 1) (k + j))" unfolding x1_def by (rule smear_step) simp
    then have "\<forall>k. bit x2 k \<longleftrightarrow> (\<exists>j < 4. bit (x - 1) (k + j))" unfolding x2_def by (rule smear_step) simp
    then have "\<forall>k. bit x4 k \<longleftrightarrow> (\<exists>j < 8. bit (x - 1) (k + j))" unfolding x4_def by (rule smear_step) simp
    then have "\<forall>k. bit x8 k \<longleftrightarrow> (\<exists>j < 16. bit (x - 1) (k + j))" unfolding x8_def by (rule smear_step) simp
    then have "\<forall>k. bit x16 k \<longleftrightarrow> (\<exists>j < 32. bit (x - 1) (k + j))" unfolding x16_def by (rule smear_step) simp
    then have "\<forall>k. bit s k \<longleftrightarrow> (\<exists>j < 64. bit (x - 1) (k + j))" unfolding s_def by (rule smear_step) simp
    moreover have "(\<exists>j < 64. bit (x - 1) (k + j)) \<longleftrightarrow> k \<le> n" for k
    proof
      assume "\<exists>j < 64. bit (x - 1) (k + j)"
      then show "k \<le> n" using bit_top [OF r] add_leD1 by blast
    next
      assume "k \<le> n"
      then have "n - k < 64" "bit (x - 1) (k + (n - k))" using n63 bit_top_set [OF r] by simp_all
      then show "\<exists>j < 64. bit (x - 1) (k + j)" by blast
    qed
    ultimately have "s = mask (Suc n)" using \<open>n < 63\<close> by (intro bit_word_eqI) (simp add: bit_mask_iff less_Suc_eq_le)
    then have "s + 1 = 2 ^ Suc n" by (simp add: mask_eq_exp_minus_1)
    then have "bd_round_up_to_next_power_of_2 x = 2 ^ Suc n"
      using x0 nz by (simp add: bd_round_up_to_next_power_of_2_def s_def x16_def x8_def x4_def x2_def x1_def Let_def)
    then show ?thesis using \<open>n < 63\<close> n False um r by (intro exI [of _ "Suc n"]) auto
  qed
qed

lemma bd_is_power_of_two_pow: "k < 64 \<Longrightarrow> bd_is_power_of_two (2 ^ k)"
  unfolding bd_is_power_of_two_def
  by (simp add: mask_eq_exp_minus_1 [symmetric] take_bit_eq_mask [symmetric])
    (rule bit_word_eqI, simp add: bit_take_bit_iff bit_exp_iff)

lemma unat_and_mask: "k < 64 \<Longrightarrow> unat (p AND (2 ^ k - 1) :: u64) = unat p mod 2 ^ k"
  by (simp add: mask_eq_exp_minus_1 [symmetric] take_bit_eq_mask [symmetric] unsigned_take_bit_eq take_bit_eq_mod unat_mod unat_pow2)

lemma bd_align_forward_spec:
  assumes k: "k < 63" and p: "unat p \<le> 2 ^ 62"
  shows "\<exists>q. bd_align_forward p (2 ^ k) = Some q \<and> unat p \<le> unat q \<and> unat q < unat p + 2 ^ k \<and> 2 ^ k dvd unat q"
proof -
  let ?r = "unat p mod 2 ^ k"
  have rl: "?r < 2 ^ k" by simp
  have um: "unat (p AND (2 ^ k - 1)) = ?r" using k by (simp add: unat_and_mask)
  show ?thesis
  proof (cases "?r = 0")
    case True
    then have "p AND (2 ^ k - 1) = 0" using um by (metis unat_eq_zero)
    then show ?thesis using k True bd_is_power_of_two_pow [of k]
      by (intro exI [of _ p]) (simp add: bd_align_forward_def mod_eq_0_iff_dvd)
  next
    case False
    let ?a = "2 ^ k - (p AND (2 ^ k - 1)) :: u64"
    have k2: "(2::nat) ^ k \<le> 2 ^ 62" using k by (intro power_increasing) simp_all
    have "unat ?a = 2 ^ k - ?r" using um k rl unat_pow2 [of k] by (subst unat_sub) (simp_all add: word_le_nat_alt)
    moreover from this have "unat (p + ?a) = unat p + (2 ^ k - ?r)"
      using p k2 by (subst unat_add_lem [THEN iffD1]) simp_all
    moreover have "unat p + (2 ^ k - ?r) = 2 ^ k * (unat p div 2 ^ k) + 2 ^ k"
      using rl mult_div_mod_eq [of "2 ^ k" "unat p"] by linarith
    ultimately have u: "unat (p + ?a) = unat p + (2 ^ k - ?r)" "2 ^ k dvd unat (p + ?a)" by simp_all
    have "p AND (2 ^ k - 1) \<noteq> 0" using um False by auto
    then have "bd_align_forward p (2 ^ k) = Some (p + ?a)"
      using k bd_is_power_of_two_pow [of k] by (simp add: bd_align_forward_def Let_def)
    moreover have "unat p \<le> unat p + (2 ^ k - ?r)" "unat p + (2 ^ k - ?r) < unat p + 2 ^ k"
      using False rl by linarith+
    ultimately show ?thesis using u by (intro exI [of _ "p + ?a"]) (simp only: simp_thms)
  qed
qed

lemma bd_size_loop_spec:
  "j \<le> 62 \<Longrightarrow> unat n \<le> 2 ^ 62 \<Longrightarrow>
     \<exists>i. j \<le> i \<and> i \<le> 62 \<and> bd_size_loop n (2 ^ j) = Some (2 ^ i) \<and> unat n \<le> 2 ^ i"
proof (induction "62 - j" arbitrary: j)
  case 0
  then have "\<not> (2 ^ j :: u64) < n" by (simp add: word_less_nat_alt unat_pow2)
  with 0 show ?case by (subst bd_size_loop.simps) auto
next
  case (Suc d)
  show ?case
  proof (cases "(2 ^ j :: u64) < n")
    case True
    have "push_bit 1 (2 ^ j :: u64) = 2 ^ Suc j" by (simp add: push_bit_eq_mult)
    then have l: "bd_size_loop n (2 ^ j) = bd_size_loop n (2 ^ Suc j)"
      using True by (subst bd_size_loop.simps) (simp only: if_True)
    have "d = 62 - Suc j" "Suc j \<le> 62" using Suc.hyps(2) by simp_all
    from Suc.hyps(1) [OF this Suc.prems(2)] show ?thesis unfolding l using Suc_leD by blast
  next
    case False
    then have "unat n \<le> 2 ^ j" using Suc.prems unat_pow2 [of j] by (simp add: word_less_nat_alt not_less)
    with False Suc.prems show ?thesis by (subst bd_size_loop.simps) auto
  qed
qed

lemma bd_size_req_spec:
  assumes k: "k < 61" and n: "unat n \<le> 2 ^ 61"
  shows "\<exists>i. k \<le> i \<and> i \<le> 62 \<and> bd_size_req (2 ^ k) n = Some (2 ^ i) \<and> unat n + 16 \<le> 2 ^ i"
proof -
  have u: "unat (n + 16) = unat n + 16" using n by (subst unat_add_lem [THEN iffD1]) simp_all
  obtain q where q: "bd_align_forward (n + 16) (2 ^ k) = Some q" "unat n + 16 \<le> unat q"
    "unat q < unat n + 16 + 2 ^ k" using bd_align_forward_spec [of k "n + 16"] k n u by auto
  have "(2::nat) ^ k \<le> 2 ^ 60" using k by (intro power_increasing) simp_all
  then have "unat q \<le> 2 ^ 62" using q(3) n by simp
  with bd_size_loop_spec [of k q] k q(1,2) show ?thesis by (auto simp: bd_size_req_def dest: le_trans)
qed

section \<open>Allocation and release\<close>

definition bd_inv :: "VD_BuddyAlloc \<Rightarrow> (nat \<times> nat) set \<Rightarrow> bool" where
  "bd_inv al U \<longleftrightarrow> (\<exists>bs. bd_state (bd_mem al) bs (bd_tail al) U) \<and> 0 < bd_tail al
     \<and> (\<exists>k. bd_alignment al = 2 ^ k \<and> 4 \<le> k \<and> k < 61)
     \<and> (\<forall>(x, s) \<in> U. unat (bd_alignment al) \<le> s)"

definition bd_disjoint :: "nat \<times> nat \<Rightarrow> nat \<times> nat \<Rightarrow> bool" where
  "bd_disjoint a b \<longleftrightarrow> fst a + snd a \<le> fst b \<or> fst b + snd b \<le> fst a"

lemma bd_take:
  assumes st: "bd_state mem bs tail U" and q: "bd_at 0 bs q = Some r" and f: "bb_is_free r"
  shows "\<exists>bs'. bd_state (mem(q \<mapsto> r\<lparr>bb_is_free := False\<rparr>)) bs' tail (insert (q, bb_size r) U)"
    and "q + bb_size r \<le> tail" and "\<forall>a \<in> U. bd_disjoint (q, bb_size r) a" and "mem q = Some r"
proof -
  obtain xs ys where bs: "bs = xs @ r # ys" "q = bd_len xs" using bd_at_split [OF q] by auto
  let ?r = "r\<lparr>bb_is_free := False\<rparr>"
  have t: "bd_tiles mem 0 (xs @ [r] @ ys) tail" and p: "bd_pow2s bs" and u: "bd_used 0 bs = U"
    using st bs by (auto simp: bd_state_def)
  have "bd_tiles (mem(q \<mapsto> ?r)) 0 (xs @ [?r] @ ys) tail"
    using pow2_pos [of "bb_size r"] p bs by (intro bd_tiles_replace [OF t]) auto
  then have "bd_state (mem(q \<mapsto> ?r)) (xs @ ?r # ys) tail (insert (q, bb_size r) U)"
    using p u f bs by (auto simp: bd_state_def bd_used_append)
  then show "\<exists>bs'. bd_state (mem(q \<mapsto> ?r)) bs' tail (insert (q, bb_size r) U)" ..
  show "q + bb_size r \<le> tail" using bd_tiles_end [OF t] bs by simp
  show "\<forall>a \<in> U. bd_disjoint (q, bb_size r) a"
  proof
    fix a assume "a \<in> U"
    then have "a \<in> bd_used 0 xs \<or> a \<in> bd_used (q + bb_size r) ys"
      using u f bs by (auto simp: bd_used_append)
    then show "bd_disjoint (q, bb_size r) a"
      using bd_used_bounds [of "fst a" "snd a"] bs(2) by (fastforce simp: bd_disjoint_def)
  qed
  show "mem q = Some r" using st q by (auto simp: bd_state_def bd_at_mem)
qed

lemma bd_used_split:
  "(x, s) \<in> bd_used p bs \<Longrightarrow> \<exists>xs b ys. bs = xs @ b # ys \<and> x = p + bd_len xs \<and> s = bb_size b \<and> \<not> bb_is_free b"
proof (induction bs arbitrary: p)
  case (Cons c bs)
  show ?case
  proof (cases "(x, s) \<in> bd_used (p + bb_size c) bs")
    case True
    from Cons.IH [OF this] obtain xs b ys where
      "bs = xs @ b # ys" "x = p + bb_size c + bd_len xs" "s = bb_size b" "\<not> bb_is_free b" by blast
    then show ?thesis by (intro exI [of _ "c # xs"] exI [of _ b] exI [of _ ys]) simp
  next
    case False
    with Cons.prems show ?thesis by (intro exI [of _ "[]"] exI [of _ c] exI [of _ bs]) (auto split: if_splits)
  qed
qed simp

lemma bd_used_pos: "bd_pow2s bs \<Longrightarrow> (x, s) \<in> bd_used p bs \<Longrightarrow> 0 < s"
  by (induction bs arbitrary: p) (auto split: if_splits dest: pow2_pos)

lemma bd_give:
  assumes st: "bd_state mem bs tail U" and x: "(x, s) \<in> U"
  shows "\<exists>h bs'. mem x = Some h \<and> bd_state (mem(x \<mapsto> h\<lparr>bb_is_free := True\<rparr>)) bs' tail (U - {(x, s)})"
    and "x + s \<le> tail"
proof -
  have u: "bd_used 0 bs = U" and p: "bd_pow2s bs" using st by (auto simp: bd_state_def)
  obtain xs b ys where bs: "bs = xs @ b # ys" "x = bd_len xs" "s = bb_size b" "\<not> bb_is_free b"
    using bd_used_split [of x s 0 bs] x u by auto
  let ?b = "b\<lparr>bb_is_free := True\<rparr>"
  have t: "bd_tiles mem 0 (xs @ [b] @ ys) tail" using st bs by (auto simp: bd_state_def)
  have pos: "0 < bb_size b" using p bs by (auto dest: pow2_pos)
  have "bd_tiles (mem(x \<mapsto> ?b)) 0 (xs @ [?b] @ ys) tail"
    using pos bs by (intro bd_tiles_replace [OF t]) auto
  moreover have "bd_used 0 xs \<union> bd_used (x + s) ys = U - {(x, s)}"
  proof -
    have "(x, s) \<notin> bd_used 0 xs" using bd_used_bounds [of x s 0 xs] pos bs by auto
    moreover have "(x, s) \<notin> bd_used (x + s) ys" using bd_used_bounds [of x s "x + s" ys] pos bs by auto
    ultimately show ?thesis using u bs by (auto simp: bd_used_append)
  qed
  ultimately have "bd_state (mem(x \<mapsto> ?b)) (xs @ ?b # ys) tail (U - {(x, s)})"
    using p bs by (simp add: bd_state_def bd_used_append)
  moreover have "mem x = Some b" using bd_state_mem [of mem xs b ys tail U] st bs by simp
  ultimately show "\<exists>h bs'. mem x = Some h \<and> bd_state (mem(x \<mapsto> h\<lparr>bb_is_free := True\<rparr>)) bs' tail (U - {(x, s)})" by blast
  show "x + s \<le> tail" using bd_tiles_end [OF t] bs by simp
qed

lemma bd_search_ok:
  assumes st: "bd_state mem bs tail U" and ne: "bs \<noteq> []" and req: "pow2 req" and tl: "0 < tail"
  shows "\<exists>found mem' bs'. bd_search tail req mem = Some (found, mem') \<and> bd_state mem' bs' tail U
    \<and> bd_found_ok bs' req found"
proof -
  obtain f1 m1 b1 where f1: "bd_find tail req mem = Some (f1, m1)" "bd_state m1 b1 tail U"
    "bd_found_ok b1 req f1" using bd_find_ok [OF st ne req] by blast
  show ?thesis
  proof (cases f1)
    case None
    have "b1 \<noteq> []" using bd_state_end [OF f1(2)] tl by auto
    then obtain mc bc where c: "bd_coalescence tail m1 = Some mc" "bd_state mc bc tail U" "bc \<noteq> []"
      using bd_coalescence_ok [OF f1(2) _ tl] by blast
    from bd_find_ok [OF c(2,3) req] c(1) f1(1) None show ?thesis by (auto simp: bd_search_def)
  next
    case (Some q)
    with f1 show ?thesis by (auto simp: bd_search_def)
  qed
qed

lemma bd_alloc_step:
  assumes i: "bd_inv al U" and n: "unat n \<le> 2 ^ 61"
  shows "\<exists>r al'. vd_buddy_alloc_realloc al None n = Some (r, al') \<and> bd_alignment al' = bd_alignment al
    \<and> bd_tail al' = bd_tail al
    \<and> (case r of None \<Rightarrow> bd_inv al' U
       | Some ptr \<Rightarrow> \<exists>x s. ptr = x + unat (bd_alignment al) \<and> bd_inv al' (insert (x, s) U)
           \<and> unat n + 16 \<le> s \<and> x + s \<le> bd_tail al \<and> (\<forall>a \<in> U. bd_disjoint (x, s) a))"
proof -
  obtain bs where st: "bd_state (bd_mem al) bs (bd_tail al) U" and tl: "0 < bd_tail al"
    using i by (auto simp: bd_inv_def)
  obtain k where k: "bd_alignment al = 2 ^ k" "4 \<le> k" "k < 61" using i by (auto simp: bd_inv_def)
  obtain j where j: "k \<le> j" "j \<le> 62" "bd_size_req (2 ^ k) n = Some (2 ^ j)" "unat n + 16 \<le> 2 ^ j"
    using bd_size_req_spec [OF k(3) n] by blast
  let ?req = "2 ^ j :: nat"
  have ur: "unat (2 ^ j :: u64) = ?req" using j(2) by (simp add: unat_pow2)
  have pr: "pow2 ?req" by (auto simp: pow2_def)
  have ne: "bs \<noteq> []" using bd_state_end [OF st] tl by auto
  obtain f m b where f: "bd_search (bd_tail al) ?req (bd_mem al) = Some (f, m)" "bd_state m b (bd_tail al) U"
    "bd_found_ok b ?req f" using bd_search_ok [OF st ne pr tl] by blast
  show ?thesis
  proof (cases f)
    case None
    then have "vd_buddy_alloc_realloc al None n = Some (None, al\<lparr>bd_mem := m\<rparr>)"
      using k(1) j(3) f(1) ur by (simp add: vd_buddy_alloc_realloc_def)
    moreover have "bd_inv (al\<lparr>bd_mem := m\<rparr>) U" using i f(2) by (auto simp: bd_inv_def)
    ultimately show ?thesis by simp
  next
    case (Some q)
    let ?r = "\<lparr>bb_size = ?req, bb_is_free = True\<rparr>"
    have at: "bd_at 0 b q = Some ?r" using f(3) Some by (simp add: bd_found_ok_def)
    note tk = bd_take [OF f(2) at, simplified]
    let ?al = "al\<lparr>bd_mem := m(q \<mapsto> \<lparr>bb_size = ?req, bb_is_free = False\<rparr>)\<rparr>"
    have "vd_buddy_alloc_realloc al None n = Some (Some (q + unat (bd_alignment al)), ?al)"
      using k(1) j(3) f(1) ur Some tk(4) by (simp add: vd_buddy_alloc_realloc_def)
    moreover have "unat (bd_alignment al) \<le> ?req" using k j by (simp add: unat_pow2)
    then have "bd_inv ?al (insert (q, ?req) U)" using i tk(1) by (auto simp: bd_inv_def)
    ultimately show ?thesis using tk(2,3) j(4) by auto
  qed
qed

lemma bd_free_step:
  assumes i: "bd_inv al U" and x: "(x, s) \<in> U"
  shows "\<exists>al'. vd_buddy_alloc_realloc al (Some (x + unat (bd_alignment al))) 0 = Some (None, al')
    \<and> bd_inv al' (U - {(x, s)})"
proof -
  obtain bs where st: "bd_state (bd_mem al) bs (bd_tail al) U" using i by (auto simp: bd_inv_def)
  obtain h where h: "bd_mem al x = Some h"
    "\<exists>bs'. bd_state ((bd_mem al)(x \<mapsto> h\<lparr>bb_is_free := True\<rparr>)) bs' (bd_tail al) (U - {(x, s)})"
    using bd_give(1) [OF st x] by blast
  have "unat (bd_alignment al) \<le> s" using i x by (auto simp: bd_inv_def)
  then have "x + unat (bd_alignment al) \<le> bd_tail al" using bd_give(2) [OF st x] by simp
  moreover have "bd_inv (al\<lparr>bd_mem := (bd_mem al)(x \<mapsto> h\<lparr>bb_is_free := True\<rparr>)\<rparr>) (U - {(x, s)})"
    using i h(2) by (auto simp: bd_inv_def)
  ultimately show ?thesis using h(1) by (simp add: vd_buddy_alloc_realloc_def)
qed

lemma bd_init_inv:
  assumes "0 < unat initial_size" and "unat initial_size \<le> 2 ^ 62" and "unat alignment \<le> 2 ^ 60"
  shows "bd_inv (vd_buddy_alloc_init initial_size alignment) {}"
proof -
  obtain k where k: "k \<le> 63" "bd_round_up_to_next_power_of_2 initial_size = 2 ^ k"
    using bd_round_up_spec [of initial_size] assms by auto
  have tl: "unat (bd_round_up_to_next_power_of_2 initial_size) = 2 ^ k" using k by (simp add: unat_pow2)
  have a: "\<exists>a. a < 61 \<and> bd_round_up_to_next_power_of_2 alignment = 2 ^ a"
  proof (cases "alignment = 0")
    case True
    then show ?thesis by (intro exI [of _ 0]) (simp add: bd_round_up_to_next_power_of_2_def)
  next
    case False
    then have "0 < unat alignment" by (simp add: unat_gt_0)
    then obtain a where a: "bd_round_up_to_next_power_of_2 alignment = 2 ^ a" "2 ^ a < 2 * unat alignment"
      using bd_round_up_spec [of alignment] assms(3) by auto
    then have "(2::nat) ^ a < 2 ^ 61" using assms(3) by simp
    then have "a < 61" by (rule power_less_imp_less_exp [rotated]) simp
    with a(1) show ?thesis by blast
  qed
  then obtain a where a: "a < 61" "bd_round_up_to_next_power_of_2 alignment = 2 ^ a" by blast
  have "\<exists>k. (if (2 ^ a :: u64) < 16 then 16 else 2 ^ a) = (2 ^ k :: u64) \<and> 4 \<le> k \<and> k < 61"
  proof (cases "(2 ^ a :: u64) < 16")
    case True
    then show ?thesis by (intro exI [of _ 4]) simp
  next
    case False
    then have "\<not> (2::nat) ^ a < 2 ^ 4" using a(1) unat_pow2 [of a] by (simp add: word_less_nat_alt)
    then have "(2::nat) ^ 4 \<le> 2 ^ a" by (simp only: linorder_not_less)
    then have "4 \<le> a" by (rule power_le_imp_le_exp [rotated]) simp
    with False a(1) show ?thesis by (intro exI [of _ a]) simp
  qed
  moreover have "bd_state [0 \<mapsto> \<lparr>bb_size = 2 ^ k, bb_is_free = True\<rparr>] [\<lparr>bb_size = 2 ^ k, bb_is_free = True\<rparr>] (2 ^ k) {}"
    by (auto simp: bd_state_def pow2_def)
  ultimately show ?thesis using tl a(2) by (auto simp: bd_inv_def vd_buddy_alloc_init_def Let_def)
qed

text \<open>Any sequence of requests is answered, by a block or by null, and keeps the invariant.\<close>

interpretation bd: op_total "\<lambda>n al. map_option snd (vd_buddy_alloc_realloc al None n)"
  "\<lambda>n. unat n \<le> 2 ^ 61" "\<lambda>al. \<exists>U. bd_inv al U"
proof unfold_locales
  fix al n al'
  assume "\<exists>U. bd_inv al U" "unat n \<le> 2 ^ 61" "map_option snd (vd_buddy_alloc_realloc al None n) = Some al'"
  with bd_alloc_step [of al _ n] show "\<exists>U. bd_inv al' U" by (fastforce split: option.splits)
next
  fix al and n :: u64
  assume "\<exists>U. bd_inv al U" "unat n \<le> 2 ^ 61"
  then obtain U where "bd_inv al U" by blast
  from bd_alloc_step [OF this \<open>unat n \<le> 2 ^ 61\<close>]
  show "\<exists>al'. map_option snd (vd_buddy_alloc_realloc al None n) = Some al'" by auto
qed

text \<open>C2. The allocator never hands out memory twice: an allocation returns, and when it is not
  null the block lies in the region, is disjoint from every block in use, has room for the header
  and the bytes asked for, and is in use from then on.\<close>

theorem vd_buddy_alloc_disjoint:
  assumes "bd_inv al U" and "unat n \<le> 2 ^ 61"
  shows "\<exists>r al'. vd_buddy_alloc_realloc al None n = Some (r, al')
    \<and> (case r of None \<Rightarrow> bd_inv al' U
       | Some ptr \<Rightarrow> \<exists>x s. ptr = x + unat (bd_alignment al) \<and> bd_inv al' (insert (x, s) U)
           \<and> unat n + 16 \<le> s \<and> x + s \<le> bd_tail al \<and> (\<forall>a \<in> U. bd_disjoint (x, s) a))"
  using bd_alloc_step [OF assms] by blast

theorem vd_buddy_alloc_disjoint_witness:
  "\<exists>r al'. vd_buddy_alloc_realloc (vd_buddy_alloc_init 256 8) None 40 = Some (r, al')
    \<and> (case r of None \<Rightarrow> bd_inv al' {}
       | Some ptr \<Rightarrow> \<exists>x s. ptr = x + unat (bd_alignment (vd_buddy_alloc_init 256 8))
           \<and> bd_inv al' (insert (x, s) {}) \<and> unat (40 :: u64) + 16 \<le> s
           \<and> x + s \<le> bd_tail (vd_buddy_alloc_init 256 8) \<and> (\<forall>a \<in> {}. bd_disjoint (x, s) a))"
  by (rule vd_buddy_alloc_disjoint [OF bd_init_inv]) simp_all

text \<open>Releasing a block in use by the pointer that was handed out for it gives back exactly
  that block.\<close>

theorem vd_buddy_alloc_free:
  assumes "bd_inv al U" and "(x, s) \<in> U"
  shows "\<exists>al'. vd_buddy_alloc_realloc al (Some (x + unat (bd_alignment al))) 0 = Some (None, al')
    \<and> bd_inv al' (U - {(x, s)})"
  using assms by (rule bd_free_step)

lemma bd_one_block:
  "bd_inv \<lparr>bd_mem = [0 \<mapsto> \<lparr>bb_size = 64, bb_is_free = False\<rparr>], bd_tail = 64, bd_alignment = 16\<rparr> {(0, 64)}"
proof -
  have "bd_state [0 \<mapsto> \<lparr>bb_size = 64, bb_is_free = False\<rparr>] [\<lparr>bb_size = 64, bb_is_free = False\<rparr>] 64 {(0, 64)}"
    by (auto simp: bd_state_def pow2_def intro!: exI [of _ 6])
  then show ?thesis by (auto simp: bd_inv_def intro!: exI [of _ 4])
qed

theorem vd_buddy_alloc_free_witness:
  "\<exists>al'. vd_buddy_alloc_realloc
      \<lparr>bd_mem = [0 \<mapsto> \<lparr>bb_size = 64, bb_is_free = False\<rparr>], bd_tail = 64, bd_alignment = 16\<rparr> (Some 16) 0 = Some (None, al')
    \<and> bd_inv al' {}"
  using vd_buddy_alloc_free [OF bd_one_block, of 0 64] by simp

text \<open>\<open>vd_buddy_alloc__round_up_to_next_power_of_2\<close> gives the least power of two that is not
  below its argument, for every argument up to \<open>2 ^ 63\<close>.\<close>

theorem vd_buddy_round_up:
  assumes "0 < unat x" and "unat x \<le> 2 ^ 63"
  shows "\<exists>k \<le> 63. bd_round_up_to_next_power_of_2 x = 2 ^ k \<and> unat x \<le> 2 ^ k \<and> 2 ^ k < 2 * unat x"
  using assms by (rule bd_round_up_spec)

theorem vd_buddy_round_up_witness:
  "\<exists>k \<le> 63. bd_round_up_to_next_power_of_2 1000 = 2 ^ k \<and> unat (1000 :: u64) \<le> 2 ^ k \<and> 2 ^ k < 2 * unat (1000 :: u64)"
  by (rule vd_buddy_round_up) simp_all

section \<open>Statistics\<close>

lemma bd_stats_loop_ok:
  "bd_tiles mem p bs tail \<Longrightarrow> bd_stats_loop tail mem p st = Some
     \<lparr>bs_used = bs_used st + bd_len (filter (\<lambda>b. \<not> bb_is_free b) bs), bs_total = bs_total st + bd_len bs,
      bs_num_blocks = bs_num_blocks st + length bs,
      bs_num_free_blocks = bs_num_free_blocks st + length (filter bb_is_free bs)\<rparr>"
proof (induction bs arbitrary: p st)
  case Nil
  then show ?case by (subst bd_stats_loop.simps) simp
next
  case (Cons b bs)
  have "p < tail" using bd_tiles_end [OF Cons.prems] Cons.prems by auto
  with Cons show ?case by (subst bd_stats_loop.simps) (simp add: add.assoc)
qed

text \<open>The statistics add up: the total is the size of the region, the used bytes are the sizes of
  the blocks in use, and the counts are those of the blocks.\<close>

theorem vd_buddy_alloc_stats:
  assumes "bd_inv al U"
  shows "\<exists>st bs. vd_buddy_alloc_get_stats al = Some st \<and> bs_total st = bd_tail al
    \<and> bd_used 0 bs = U \<and> bs_used st = bd_len (filter (\<lambda>b. \<not> bb_is_free b) bs)
    \<and> bs_num_blocks st = length bs \<and> bs_num_free_blocks st = length (filter bb_is_free bs)"
proof -
  obtain bs where "bd_tiles (bd_mem al) 0 bs (bd_tail al)" "bd_used 0 bs = U"
    using assms by (auto simp: bd_inv_def bd_state_def)
  with bd_stats_loop_ok [OF this(1)] bd_tiles_end [OF this(1)] show ?thesis
    by (auto simp: vd_buddy_alloc_get_stats_def)
qed

theorem vd_buddy_alloc_stats_witness:
  "\<exists>st bs. vd_buddy_alloc_get_stats (vd_buddy_alloc_init 256 8) = Some st
    \<and> bs_total st = bd_tail (vd_buddy_alloc_init 256 8)
    \<and> bd_used 0 bs = {} \<and> bs_used st = bd_len (filter (\<lambda>b. \<not> bb_is_free b) bs)
    \<and> bs_num_blocks st = length bs \<and> bs_num_free_blocks st = length (filter bb_is_free bs)"
  by (rule vd_buddy_alloc_stats [OF bd_init_inv]) simp_all

section \<open>Memory that is not found\<close>

text \<open>
  The search looks at pairs of blocks, so a free block at the end of the region that is left over
  without a partner is passed by, and merging does not help. Here the only free block, the last 64
  of 128 bytes, has the size asked for, and the allocation fails.
\<close>

definition bd_last_free :: VD_BuddyAlloc where
  "bd_last_free = \<lparr>bd_mem = [0 \<mapsto> \<lparr>bb_size = 32, bb_is_free = False\<rparr>, 32 \<mapsto> \<lparr>bb_size = 32, bb_is_free = False\<rparr>,
     64 \<mapsto> \<lparr>bb_size = 64, bb_is_free = True\<rparr>], bd_tail = 128, bd_alignment = 16\<rparr>"

lemma vd_buddy_alloc_misses_last:
  "bd_inv bd_last_free {(0, 32), (32, 32)} \<and>
   map_option fst (vd_buddy_alloc_realloc bd_last_free None 48) = Some None"
proof
  let ?bs = "[\<lparr>bb_size = 32, bb_is_free = False\<rparr>, \<lparr>bb_size = 32, bb_is_free = False\<rparr>, \<lparr>bb_size = 64, bb_is_free = True\<rparr>]"
  have p: "pow2 32" "pow2 64" unfolding pow2_def by (auto intro: exI [of _ 5] exI [of _ 6])
  have "bd_state (bd_mem bd_last_free) ?bs 128 {(0, 32), (32, 32)}"
    using p by (auto simp: bd_state_def bd_last_free_def)
  then show "bd_inv bd_last_free {(0, 32), (32, 32)}"
    by (auto simp: bd_inv_def bd_last_free_def intro!: exI [of _ 4])
  have "bd_size_req 16 48 = Some 64"
    by (simp add: bd_size_req_def bd_align_forward_def bd_is_power_of_two_def bd_size_loop.simps)
  then show "map_option fst (vd_buddy_alloc_realloc bd_last_free None 48) = Some None"
    by (simp add: vd_buddy_alloc_realloc_def bd_last_free_def bd_search_def bd_find_def bd_next_block_def
        bd_find_loop.simps bd_better_def bd_buddy_of_def bd_coalescence.simps bd_coal_pass.simps)
qed

text \<open>
  A size request counts 16 bytes for the header, but the pointer is handed out \<open>alignment\<close> bytes
  into the block. With an alignment of 64, a request for 40 bytes gets a block of 64 and a
  pointer to its end, here the end of the region.
\<close>

lemma vd_buddy_alloc_no_payload:
  "map_option fst (vd_buddy_alloc_realloc
     \<lparr>bd_mem = [0 \<mapsto> \<lparr>bb_size = 256, bb_is_free = True\<rparr>], bd_tail = 256, bd_alignment = 64\<rparr> None 40)
   = Some (Some 256)"
proof -
  have "bd_size_req 64 40 = Some 64"
    by (simp add: bd_size_req_def bd_align_forward_def bd_is_power_of_two_def bd_size_loop.simps)
  then show ?thesis
    by (simp add: vd_buddy_alloc_realloc_def bd_search_def bd_find_def bd_next_block_def bd_split_def bd_split_loop.simps)
qed

end
