(* ===== verification/Mm.thy ===== *)
theory Mm
  imports Arena Buddy
begin

text \<open>
  The memory manager: ng/inc/mm.h and ng/src/mm.c. Three lifetimes: an arena for the
  application, one for the frame, and blocks of the buddy allocator owned by entities. The blocks
  of an entity are linked from its \<open>MemoryComponent\<close>; when the entity dies, its list is to be
  pushed on the list that the garbage collection task releases.

  A block is named by its pointer, the offset the buddy allocator returned. The component store
  of the entity system is a map from entities to the pointer in their component: \<open>ecs_has\<close>,
  \<open>ecs_get\<close> and \<open>ecs_set\<close> look it up and update it. The bytes of the blocks are not modelled.

  The lemmas say what adding to a list does, that the collection of one dead entity releases its
  block, and that with two of them the collection does not return.
\<close>

section \<open>Definitions\<close>

datatype VD_MM_Tag = VD_MM_GLOBAL | VD_MM_FRAME | VD_MM_ENTITY

text \<open>The list heads: the static \<open>free_list\<close>, or a block. \<open>mm_next\<close> is the field \<open>next\<close> of the
  infos of all blocks; a null pointer is \<open>None\<close>.\<close>

datatype info_ref = FreeList | Block nat

record vd_mm =
  mm_global :: vd_arena
  mm_frame :: vd_arena
  mm_buddy :: VD_BuddyAlloc
  mm_next :: "info_ref \<Rightarrow> nat option"
  mm_entities :: "u64 \<Rightarrow> nat option"

text \<open>
  \<open>add_entity_allocation\<close>. \<open>compare_and_swap_ptr\<close> returns the value the field had, so the loop
  goes on as long as that was not null.
\<close>

partial_function (option) add_entity_allocation ::
  "(info_ref \<Rightarrow> nat option) \<Rightarrow> info_ref \<Rightarrow> nat \<Rightarrow> (info_ref \<Rightarrow> nat option) option" where
  "add_entity_allocation nx root info =
     (let prev_next = nx root; nx1 = nx(Block info := prev_next) in
      if prev_next = Some info then Some nx1
      else
        let old = nx1 root; nx2 = (if old = prev_next then nx1(root := Some info) else nx1) in
        if old \<noteq> None then add_entity_allocation nx2 root info else Some nx2)"

text \<open>\<open>vd_entity_alloc\<close>: a null result of the buddy allocator is written through.\<close>

definition vd_entity_alloc :: "vd_mm \<Rightarrow> u64 \<Rightarrow> u64 \<Rightarrow> (nat option \<times> vd_mm) option" where
  "vd_entity_alloc mm entity newsize =
     (if newsize = 0 then Some (None, mm)
      else
        do { (r, buddy) \<leftarrow> vd_buddy_alloc_realloc (mm_buddy mm) None (16 + newsize);
             case r of
               None \<Rightarrow> None
             | Some info \<Rightarrow>
                 let nx = (mm_next mm)(Block info := None); mm1 = mm\<lparr>mm_buddy := buddy, mm_next := nx\<rparr> in
                 (case mm_entities mm entity of
                    Some opaque_info_ptr \<Rightarrow>
                      do { nx' \<leftarrow> add_entity_allocation nx (Block opaque_info_ptr) info;
                           Some (Some (info + 16), mm1\<lparr>mm_next := nx'\<rparr>) }
                  | None \<Rightarrow>
                      Some (Some (info + 16), mm1\<lparr>mm_entities := (mm_entities mm)(entity \<mapsto> info)\<rparr>)) })"

text \<open>\<open>global\<close> and \<open>frame\<close> are the memory the system allocator returned for the two arenas.\<close>

definition vd_mm_init :: "umm \<Rightarrow> umm \<Rightarrow> vd_mm" where
  "vd_mm_init global frame =
     \<lparr>mm_global = vd_arena_new global 0x400000 0, mm_frame = vd_arena_new frame 0x400000 0,
      mm_buddy = vd_buddy_alloc_init 0x400000 8, mm_next = (\<lambda>_. None), mm_entities = Map.empty\<rparr>"

text \<open>The result of \<open>vd_mm_alloc\<close>: an address in an arena, or a block of an entity.\<close>

datatype mm_ptr = Address umm | Payload "nat option"

definition vd_mm_alloc ::
  "vd_mm \<Rightarrow> memory \<Rightarrow> VD_MM_Tag \<Rightarrow> u64 \<Rightarrow> u64 \<Rightarrow> (mm_ptr \<times> vd_mm \<times> memory) option" where
  "vd_mm_alloc mm m tag sz entity_id =
     (case tag of
        VD_MM_GLOBAL \<Rightarrow>
          do { (p, a, m') \<leftarrow> vd_arena_alloc_t (mm_global mm) m sz 8; Some (Address p, mm\<lparr>mm_global := a\<rparr>, m') }
      | VD_MM_FRAME \<Rightarrow>
          do { (p, a, m') \<leftarrow> vd_arena_alloc_t (mm_frame mm) m sz 8; Some (Address p, mm\<lparr>mm_frame := a\<rparr>, m') }
      | VD_MM_ENTITY \<Rightarrow>
          do { (p, mm') \<leftarrow> vd_entity_alloc mm entity_id sz; Some (Payload p, mm', m) })"

definition vd_mm_end_frame :: "vd_mm \<Rightarrow> vd_mm" where
  "vd_mm_end_frame mm = mm\<lparr>mm_frame := vd_arena_reset (mm_frame mm)\<rparr>"

record VD_MM_Stats =
  ms_frame :: "u64 \<times> u64"
  ms_entity :: buddy_stats

definition vd_mm_get_stats :: "vd_mm \<Rightarrow> VD_MM_Stats option" where
  "vd_mm_get_stats mm =
     do { st \<leftarrow> vd_buddy_alloc_get_stats (mm_buddy mm);
          Some \<lparr>ms_frame = vd_arena_get_stats (mm_frame mm), ms_entity = st\<rparr> }"

text \<open>\<open>MemoryComponentDtor\<close> on an array of \<open>count\<close> components: it adds the first one each time.\<close>

fun MemoryComponentDtor :: "vd_mm \<Rightarrow> nat \<Rightarrow> nat \<Rightarrow> vd_mm option" where
  "MemoryComponentDtor mm opaque_info_ptr 0 = Some mm"
| "MemoryComponentDtor mm opaque_info_ptr (Suc count) =
     do { nx \<leftarrow> add_entity_allocation (mm_next mm) FreeList opaque_info_ptr;
          MemoryComponentDtor (mm\<lparr>mm_next := nx\<rparr>) opaque_info_ptr count }"

partial_function (option) gc_loop ::
  "(info_ref \<Rightarrow> nat option) \<Rightarrow> VD_BuddyAlloc \<Rightarrow> nat option \<Rightarrow> VD_BuddyAlloc option" where
  "gc_loop nx buddy curr_info =
     (case curr_info of
        None \<Rightarrow> Some buddy
      | Some p \<Rightarrow>
          do { (_, buddy') \<leftarrow> vd_buddy_alloc_realloc buddy (Some p) 0; gc_loop nx buddy' (nx (Block p)) })"

definition GarbageCollectTask :: "vd_mm \<Rightarrow> vd_mm option" where
  "GarbageCollectTask mm =
     do { buddy \<leftarrow> gc_loop (mm_next mm) (mm_buddy mm) (mm_next mm FreeList);
          Some (mm\<lparr>mm_buddy := buddy, mm_next := (mm_next mm)(FreeList := None)\<rparr>) }"

section \<open>Adding to a list\<close>

lemma add_first:
  "nx root = None \<Longrightarrow> root \<noteq> Block info \<Longrightarrow>
     add_entity_allocation nx root info = Some (nx(Block info := None, root := Some info))"
  by (subst add_entity_allocation.simps) simp

lemma add_known:
  "nx root = Some info \<Longrightarrow> add_entity_allocation nx root info = Some (nx(Block info := Some info))"
  by (subst add_entity_allocation.simps) simp

lemma add_more:
  "nx root = Some b \<Longrightarrow> b \<noteq> info \<Longrightarrow> root \<noteq> Block info \<Longrightarrow>
     add_entity_allocation nx root info = Some (nx(root := Some info, Block info := Some info))"
  by (subst add_entity_allocation.simps) (simp add: add_known fun_upd_twist)

text \<open>C30. Adding a block to a list that is empty links it; to a list that is not, it replaces the
  list by the block, whose \<open>next\<close> is the block itself, so the blocks listed before are lost.\<close>

theorem add_entity_allocation_spec:
  assumes "root \<noteq> Block info"
  shows "add_entity_allocation nx root info =
    (if nx root = None then Some (nx(Block info := None, root := Some info))
     else Some (nx(root := Some info, Block info := Some info)))"
proof (cases "nx root")
  case (Some b)
  then show ?thesis using assms add_more [of nx root b info] add_known [of nx root info]
    by (cases "b = info") (auto simp: fun_upd_idem)
qed (simp add: add_first assms)

theorem add_entity_allocation_spec_witness:
  "add_entity_allocation (\<lambda>r. if r = FreeList then Some 16 else None) FreeList 48 =
    (if (\<lambda>r. if r = FreeList then Some (16 :: nat) else None) FreeList = None
     then Some ((\<lambda>r. if r = FreeList then Some 16 else None)(Block 48 := None, FreeList := Some 48))
     else Some ((\<lambda>r. if r = FreeList then Some 16 else None)(FreeList := Some 48, Block 48 := Some 48)))"
  by (rule add_entity_allocation_spec) simp

section \<open>Collection\<close>

text \<open>A walk that reaches a block linked to itself does not return.\<close>

lemma gc_loop_self:
  assumes "nx (Block p) = Some p"
  shows "gc_loop nx buddy (Some p) = None"
proof -
  have "c = Some p \<and> nx (Block p) = Some p \<longrightarrow> False" if "gc_loop nx buddy c = Some b" for nx buddy c b
  proof (rule gc_loop.raw_induct [where P = "\<lambda>nx buddy c b. c = Some p \<and> nx (Block p) = Some p \<longrightarrow> False"])
    fix gc nx buddy c b
    assume ih: "\<And>nx buddy c b. gc nx buddy c = Some b \<Longrightarrow> c = Some p \<and> nx (Block p) = Some p \<longrightarrow> False"
      and eq: "(case c of None \<Rightarrow> Some buddy
        | Some p \<Rightarrow> do { (_, buddy') \<leftarrow> vd_buddy_alloc_realloc buddy (Some p) 0; gc nx buddy' (nx (Block p)) }) = Some b"
    show "c = Some p \<and> nx (Block p) = Some p \<longrightarrow> False"
    proof
      assume c: "c = Some p \<and> nx (Block p) = Some p"
      then obtain buddy' where "gc nx buddy' (Some p) = Some b" using eq by (auto simp: bind_Some_iff)
      from ih [OF this] c show False by simp
    qed
  qed (rule that)
  then show ?thesis using assms by (cases "gc_loop nx buddy (Some p)") auto
qed

text \<open>Dead entities with one block each, added one by one to an empty list, then a collection.\<close>

fun mm_die :: "vd_mm \<Rightarrow> nat list \<Rightarrow> vd_mm option" where
  "mm_die mm [] = Some mm"
| "mm_die mm (p # ps) = do { mm' \<leftarrow> MemoryComponentDtor mm p 1; mm_die mm' ps }"

lemma dtor_one: "mm_next mm FreeList = None \<Longrightarrow>
    MemoryComponentDtor mm p 1 = Some (mm\<lparr>mm_next := (mm_next mm)(Block p := None, FreeList := Some p)\<rparr>)"
  by (simp add: add_first)

lemma dtor_more: "mm_next mm FreeList \<noteq> None \<Longrightarrow>
    MemoryComponentDtor mm p 1 = Some (mm\<lparr>mm_next := (mm_next mm)(FreeList := Some p, Block p := Some p)\<rparr>)"
  using add_more [of "mm_next mm" FreeList _ p] add_known [of "mm_next mm" FreeList p]
  by (cases "mm_next mm FreeList = Some p") (auto simp: fun_upd_idem)

lemma die_spin:
  "mm_next mm FreeList = Some q \<Longrightarrow> mm_next mm (Block q) = Some q \<Longrightarrow> mm_die mm ps = Some mm' \<Longrightarrow>
     \<exists>q. mm_next mm' FreeList = Some q \<and> mm_next mm' (Block q) = Some q"
proof (induction ps arbitrary: mm q)
  case (Cons p ps)
  let ?mm = "mm\<lparr>mm_next := (mm_next mm)(FreeList := Some p, Block p := Some p)\<rparr>"
  have "mm_die ?mm ps = Some mm'"
    using Cons.prems dtor_more [of mm p] by (simp del: MemoryComponentDtor.simps)
  then show ?case using Cons.IH [of ?mm p] by simp
qed auto

lemma die_total: "\<exists>mm'. mm_die mm ps = Some mm'"
proof (induction ps arbitrary: mm)
  case (Cons p ps)
  then show ?case using dtor_one [of mm p] dtor_more [of mm p]
    by (cases "mm_next mm FreeList = None") (simp_all del: MemoryComponentDtor.simps)
qed simp

text \<open>The garbage collection after one entity with one block has died releases that block; after
  two or more have died it does not return.\<close>

theorem GarbageCollectTask_dead:
  assumes "bd_inv (mm_buddy mm) U" and "mm_next mm FreeList = None"
    and "(x, s) \<in> U" and "p = x + unat (bd_alignment (mm_buddy mm))"
  shows "(\<exists>mm1 mm2. mm_die mm [p] = Some mm1 \<and> GarbageCollectTask mm1 = Some mm2
      \<and> bd_inv (mm_buddy mm2) (U - {(x, s)}) \<and> mm_next mm2 FreeList = None)
    \<and> (\<exists>mm1. mm_die mm (p # q # ps) = Some mm1 \<and> GarbageCollectTask mm1 = None)"
proof
  let ?n1 = "(mm_next mm)(Block p := None, FreeList := Some p)"
  let ?mm1 = "mm\<lparr>mm_next := ?n1\<rparr>"
  have d1: "mm_die mm [p] = Some ?mm1" using dtor_one [OF assms(2)] by (simp del: MemoryComponentDtor.simps)
  obtain b where b: "vd_buddy_alloc_realloc (mm_buddy mm) (Some p) 0 = Some (None, b)" "bd_inv b (U - {(x, s)})"
    using bd_free_step [OF assms(1,3)] assms(4) by blast
  have "gc_loop ?n1 (mm_buddy mm) (Some p) = Some b"
    using b(1) by (subst gc_loop.simps) (simp add: gc_loop.simps [of _ b None])
  then have "GarbageCollectTask ?mm1 = Some (?mm1\<lparr>mm_buddy := b, mm_next := ?n1(FreeList := None)\<rparr>)"
    by (simp add: GarbageCollectTask_def)
  with d1 b(2) show "\<exists>mm1 mm2. mm_die mm [p] = Some mm1 \<and> GarbageCollectTask mm1 = Some mm2
      \<and> bd_inv (mm_buddy mm2) (U - {(x, s)}) \<and> mm_next mm2 FreeList = None" by fastforce
  let ?n2 = "?n1(FreeList := Some q, Block q := Some q)"
  let ?mm2 = "mm\<lparr>mm_next := ?n2\<rparr>"
  have d2: "mm_die mm (p # q # ps) = mm_die ?mm2 ps"
    using dtor_one [OF assms(2), of p] dtor_more [of ?mm1 q] by (simp del: MemoryComponentDtor.simps)
  obtain mm3 where mm3: "mm_die ?mm2 ps = Some mm3" using die_total by blast
  then obtain r where "mm_next mm3 FreeList = Some r" "mm_next mm3 (Block r) = Some r"
    using die_spin [of ?mm2 q ps mm3] by auto
  then have "GarbageCollectTask mm3 = None" by (simp add: GarbageCollectTask_def gc_loop_self)
  with d2 mm3 show "\<exists>mm1. mm_die mm (p # q # ps) = Some mm1 \<and> GarbageCollectTask mm1 = None" by auto
qed

text \<open>One block in use, of an application that has just started.\<close>

definition demo_mm :: vd_mm where
  "demo_mm = (vd_mm_init 0x1000 0x500000)
     \<lparr>mm_buddy := \<lparr>bd_mem = [0 \<mapsto> \<lparr>bb_size = 64, bb_is_free = False\<rparr>], bd_tail = 64, bd_alignment = 16\<rparr>\<rparr>"

theorem GarbageCollectTask_dead_witness:
  "(\<exists>mm1 mm2. mm_die demo_mm [16] = Some mm1 \<and> GarbageCollectTask mm1 = Some mm2
      \<and> bd_inv (mm_buddy mm2) {} \<and> mm_next mm2 FreeList = None)
    \<and> (\<exists>mm1. mm_die demo_mm [16, 48] = Some mm1 \<and> GarbageCollectTask mm1 = None)"
  using GarbageCollectTask_dead [of demo_mm "{(0, 64)}" 0 64 16 48 "[]"] bd_one_block
  by (simp add: demo_mm_def vd_mm_init_def del: mm_die.simps)

section \<open>Allocation\<close>

text \<open>The first two blocks of an entity are linked from its component, a third one cuts the second
  off.\<close>

lemma third_block_lost:
  assumes "a \<noteq> b" and "a \<noteq> c" and "b \<noteq> c" and "nx (Block a) = None"
  shows "\<exists>n1 n2. add_entity_allocation nx (Block a) b = Some n1 \<and> n1 (Block a) = Some b \<and> n1 (Block b) = None
    \<and> add_entity_allocation n1 (Block a) c = Some n2 \<and> n2 (Block a) = Some c \<and> n2 (Block c) = Some c"
  using assms add_first [of nx "Block a" b] add_more [of "nx(Block b := None, Block a := Some b)" "Block a" b c]
  by auto

text \<open>Memory of the frame lives for the frame: the block of an allocation is inside the frame
  arena, and ending the frame makes the whole arena free again without touching the other two
  lifetimes.\<close>

theorem vd_mm_frame:
  assumes "arena_inv_t (mm_frame mm)" and "uint sz < 2 ^ 61"
  shows "\<exists>p mm' m'. vd_mm_alloc mm m VD_MM_FRAME sz e = Some (Address p, mm', m')
    \<and> (p = 0 \<and> m' = m \<or> uint p + uint sz \<le> uint (a_end (mm_frame mm)) \<and> m' = mem_set m p 0 sz)
    \<and> mm_global (vd_mm_end_frame mm') = mm_global mm \<and> mm_buddy (vd_mm_end_frame mm') = mm_buddy mm
    \<and> a_begin (mm_frame (vd_mm_end_frame mm')) = a_data (mm_frame mm)"
proof -
  have al: "(2 :: u64) ^ 3 = 8" by simp
  obtain p a m' where r: "vd_arena_alloc_t (mm_frame mm) m sz 8 = Some (p, a, m')"
    "p = 0 \<and> m' = m \<or> uint p + uint sz \<le> uint (a_end (mm_frame mm)) \<and> m' = mem_set m p 0 sz"
    using vd_arena_alloc_t_block [OF assms(1) _ assms(2), of 3 m] unfolding al by auto
  have "a_data a = a_data (mm_frame mm)"
    using r(1) by (auto simp: vd_arena_alloc_t_def Let_def split: if_splits)
  with r show ?thesis by (simp add: vd_mm_alloc_def vd_mm_end_frame_def vd_arena_reset_def)
qed

theorem vd_mm_frame_witness:
  "\<exists>p mm' m'. vd_mm_alloc (vd_mm_init 0x1000 0x500000) (\<lambda>_. 7) VD_MM_FRAME 100 0 = Some (Address p, mm', m')
    \<and> a_begin (mm_frame (vd_mm_end_frame mm')) = 0x500000"
proof -
  have "arena_inv_t (mm_frame (vd_mm_init 0x1000 0x500000))" "uint (100 :: u64) < 2 ^ 61"
    by (simp_all add: vd_mm_init_def vd_arena_new_def arena_inv_t_def)
  from vd_mm_frame [OF this, of "\<lambda>_. 7" 0] show ?thesis by (auto simp: vd_mm_init_def vd_arena_new_def)
qed

end
