(* ===== verification/Fmt.thy ===== *)
theory Fmt
  imports Prelude
begin

text \<open>
  The formatting library lib/vd_fmt.h. The output is a buffer of characters and a position in it;
  an argument list is a list of values, as \<open>va_arg\<close> takes them; a conversion gets the position,
  the number of characters available from there and the arguments, and returns how many
  characters it needs, whether or not it has written them. The 21 characters \<open>wr\<close> that the
  integer conversions fill from the back are the list of the characters written so far. The
  digits \<open>snprintf\<close> makes of a double are a parameter.

  The lemmas show that the integer conversions print decimal numerals and never leave \<open>wr\<close> (for
  all widths but 8 bits, signed), that a format never writes outside the \<open>n\<close> characters it was
  given, and what formats without conversions give.
\<close>

section \<open>Arguments and conversions\<close>

datatype fmt_arg = AInt int | ASlice "char list" | ACstr "char list" | ADouble int

record fmt_state =
  fs_out :: "char list"
  fs_args :: "fmt_arg list"

text \<open>\<open>memcpy\<close> into the buffer.\<close>

definition fmt_write :: "char list \<Rightarrow> nat \<Rightarrow> char list \<Rightarrow> char list" where
  "fmt_write buf p xs = take p buf @ take (length buf - p) xs @ drop (p + length xs) buf"

text \<open>\<open>if (n < len) return len; memcpy(out, ..., len); return len;\<close>\<close>

definition fmt_emit :: "nat \<Rightarrow> nat \<Rightarrow> char list \<Rightarrow> fmt_state \<Rightarrow> nat \<times> fmt_state" where
  "fmt_emit p n xs st =
     (length xs, if n < length xs then st else st\<lparr>fs_out := fmt_write (fs_out st) p xs\<rparr>)"

section \<open>Integers\<close>

definition digit :: "nat \<Rightarrow> char" where
  "digit d = char_of (48 + d)"

definition VD_FMT__Digits_Lut :: "char list" where
  "VD_FMT__Digits_Lut =
     ''0001020304050607080910111213141516171819'' @
     ''2021222324252627282930313233343536373839'' @
     ''4041424344454647484950515253545556575859'' @
     ''6061626364656667686970717273747576777879'' @
     ''8081828384858687888990919293949596979899''"

text \<open>The value of an expression of a signed type of \<open>w\<close> bits (two's complement).\<close>

definition wrap_signed :: "nat \<Rightarrow> int \<Rightarrow> int" where
  "wrap_signed w v = (v + 2 ^ (w - 1)) mod 2 ^ w - 2 ^ (w - 1)"

definition to_int_type :: "bool \<Rightarrow> nat \<Rightarrow> int \<Rightarrow> int" where
  "to_int_type issigned w v = (if issigned then wrap_signed w v else v mod 2 ^ w)"

text \<open>Reading the table at an index of the type; a negative index is outside it.\<close>

definition lut_at :: "int \<Rightarrow> char option" where
  "lut_at i = (if 0 \<le> i \<and> i < 200 then Some (VD_FMT__Digits_Lut ! nat i) else None)"

text \<open>\<open>wr\<close> from \<open>next + 1\<close> on is \<open>acc\<close>. A write in front of \<open>wr\<close> is undefined.\<close>

function int_digits ::
  "bool \<Rightarrow> nat \<Rightarrow> int \<Rightarrow> int \<Rightarrow> char list \<Rightarrow> (int \<times> char list) option" where
  "int_digits issigned w v next acc =
     (if 100 \<le> v then
        let i = to_int_type issigned w ((v mod 100) * 2) in
        if next < 1 then None
        else
          do { c1 \<leftarrow> lut_at (i + 1); c0 \<leftarrow> lut_at i;
               int_digits issigned w (v div 100) (next - 2) (c0 # c1 # acc) }
      else if next < 0 then None
      else if v < 10 then
        Some (next, char_of (48 + v) # acc)
      else
        let i = to_int_type issigned w (v * 2) in
        if next < 1 then None
        else do { c1 \<leftarrow> lut_at (i + 1); c0 \<leftarrow> lut_at i; Some (next - 1, c0 # c1 # acc) })"
  by pat_completeness auto
termination
  by (relation "measure (\<lambda>(s, w, v, next, acc). nat v)") auto

declare int_digits.simps [simp del]

text \<open>
  \<open>v = -v\<close>: for the types of 32 and 64 bits the negation overflows at the least value, which is
  undefined; the smaller types are negated as \<open>int\<close> and converted back.
\<close>

definition int_negate :: "nat \<Rightarrow> int \<Rightarrow> int option" where
  "int_negate w v = (if 32 \<le> w \<and> v = - (2 ^ (w - 1)) then None else Some (wrap_signed w (- v)))"

definition vd_fmt__int_to_str ::
  "bool \<Rightarrow> nat \<Rightarrow> nat \<Rightarrow> nat \<Rightarrow> nat \<Rightarrow> fmt_state \<Rightarrow> (nat \<times> fmt_state) option" where
  "vd_fmt__int_to_str issigned w maxdigits p n st =
     (if n < maxdigits - 1 then Some (maxdigits, st)
      else
        case fs_args st of
          AInt a # args \<Rightarrow>
            let v = to_int_type issigned w a; sgn = (issigned \<and> v < 0) in
            do { v1 \<leftarrow> (if sgn then int_negate w v else Some v);
                 (next, wr) \<leftarrow> int_digits issigned w v1 (int maxdigits - 1) [];
                 (next', wr') \<leftarrow> (if sgn then (if next < 1 then None else Some (next - 1, CHR ''-'' # wr))
                                  else Some (next, wr));
                 Some (fmt_emit p n wr' (st\<lparr>fs_args := args\<rparr>)) }
        | _ \<Rightarrow> None)"

section \<open>The other conversions\<close>

definition vd_fmt__string_slice_to_str :: "nat \<Rightarrow> nat \<Rightarrow> fmt_state \<Rightarrow> (nat \<times> fmt_state) option" where
  "vd_fmt__string_slice_to_str p n st =
     (case fs_args st of
        ASlice s # args \<Rightarrow> Some (fmt_emit p n s (st\<lparr>fs_args := args\<rparr>))
      | _ \<Rightarrow> None)"

text \<open>A \<open>float\<close> is passed as a \<open>double\<close>, so taking it as a \<open>float\<close> is undefined.\<close>

definition vd_fmt__f32_to_str :: "nat \<Rightarrow> nat \<Rightarrow> fmt_state \<Rightarrow> (nat \<times> fmt_state) option" where
  "vd_fmt__f32_to_str p n st = None"

text \<open>\<open>snprintf(out, n, "%f", f)\<close> writes at most \<open>n - 1\<close> characters and a zero.\<close>

definition vd_fmt__f64_to_str ::
  "(int \<Rightarrow> char list) \<Rightarrow> nat \<Rightarrow> nat \<Rightarrow> fmt_state \<Rightarrow> (nat \<times> fmt_state) option" where
  "vd_fmt__f64_to_str print p n st =
     (case fs_args st of
        ADouble f # args \<Rightarrow>
          let s = print f; st1 = st\<lparr>fs_args := args\<rparr> in
          Some (length s, if n = 0 then st1
            else st1\<lparr>fs_out := fmt_write (fs_out st) p (take (n - 1) s @ [CHR 0x00])\<rparr>)
      | _ \<Rightarrow> None)"

definition vd_fmt__pathu32_to_str :: "nat \<Rightarrow> nat \<Rightarrow> fmt_state \<Rightarrow> (nat \<times> fmt_state) option" where
  "vd_fmt__pathu32_to_str p n st =
     (case fs_args st of
        ASlice s # args \<Rightarrow>
          Some (fmt_emit p n (map (\<lambda>c. if c = CHR 0x5C then CHR ''/'' else c) s) (st\<lparr>fs_args := args\<rparr>))
      | _ \<Rightarrow> None)"

definition vd_fmt__null_to_str :: "nat \<Rightarrow> nat \<Rightarrow> fmt_state \<Rightarrow> (nat \<times> fmt_state) option" where
  "vd_fmt__null_to_str p n st =
     Some (fmt_emit p n [CHR 0x00] st)"

definition vd_fmt__cstr :: "nat \<Rightarrow> nat \<Rightarrow> fmt_state \<Rightarrow> (nat \<times> fmt_state) option" where
  "vd_fmt__cstr p n st =
     (case fs_args st of
        ACstr s # args \<Rightarrow>
          Some (fmt_emit p n (takeWhile (\<lambda>c. c \<noteq> CHR 0x00) s) (st\<lparr>fs_args := args\<rparr>))
      | _ \<Rightarrow> None)"

section \<open>The table and the format\<close>

type_synonym fmt_proc = "nat \<Rightarrow> nat \<Rightarrow> fmt_state \<Rightarrow> (nat \<times> fmt_state) option"

definition VD_Fmt_Def_Lut :: "(int \<Rightarrow> char list) \<Rightarrow> (char list \<times> fmt_proc option) list" where
  "VD_Fmt_Def_Lut print =
     [(''i8'', Some (vd_fmt__int_to_str True 8 4)),
      (''i16'', Some (vd_fmt__int_to_str True 16 6)),
      (''i32'', Some (vd_fmt__int_to_str True 32 11)),
      (''i64'', Some (vd_fmt__int_to_str True 64 21)),
      (''u8'', Some (vd_fmt__int_to_str False 8 3)),
      (''u16'', Some (vd_fmt__int_to_str False 16 5)),
      (''u32'', Some (vd_fmt__int_to_str False 32 10)),
      (''u64'', Some (vd_fmt__int_to_str False 64 20)),
      (''f32'', Some vd_fmt__f32_to_str),
      (''f64'', Some (vd_fmt__f64_to_str print)),
      (''stru32'', Some vd_fmt__string_slice_to_str),
      (''stru64'', Some vd_fmt__string_slice_to_str),
      (''cstr'', Some vd_fmt__cstr),
      (''ptr'', None), (''ptrdiff'', None), (''size'', None), (''usize'', None),
      (''bool'', None), (''char'', None), (''void'', None),
      (''pathu32'', Some vd_fmt__pathu32_to_str),
      (''null'', Some vd_fmt__null_to_str)]"

text \<open>The search of the table; calling a null procedure is undefined.\<close>

fun fmt_lookup :: "(char list \<times> fmt_proc option) list \<Rightarrow> char list \<Rightarrow> fmt_proc option option" where
  "fmt_lookup [] name = None"
| "fmt_lookup ((s, p) # lut) name = (if s = name then Some p else fmt_lookup lut name)"

definition fmt_put :: "fmt_state \<Rightarrow> nat \<Rightarrow> nat \<Rightarrow> char \<Rightarrow> fmt_state" where
  "fmt_put st n nwrite c = (if nwrite < n then st\<lparr>fs_out := (fs_out st)[nwrite := c]\<rparr> else st)"

text \<open>The loop of \<open>vd_fmt_vsnfmt\<close> on the rest of the format.\<close>

function vsnfmt_loop ::
  "(char list \<times> fmt_proc option) list \<Rightarrow> nat \<Rightarrow> char list \<Rightarrow> nat \<Rightarrow> fmt_state \<Rightarrow> (nat \<times> fmt_state) option" where
  "vsnfmt_loop lut n [] nwrite st = Some (nwrite, st)"
| "vsnfmt_loop lut n (c # cs) nwrite st =
     (if c = CHR ''%'' \<and> cs \<noteq> [] \<and> hd cs = CHR ''{'' then
        let name = takeWhile (\<lambda>x. x \<noteq> CHR ''}'') (tl cs);
            rest = dropWhile (\<lambda>x. x \<noteq> CHR ''}'') (tl cs) in
        if rest = [] then Some (0, st)
        else
          case fmt_lookup lut name of
            None \<Rightarrow> Some (0, st)
          | Some None \<Rightarrow> None
          | Some (Some p) \<Rightarrow>
              do { (k, st') \<leftarrow> p nwrite (n - nwrite) st; vsnfmt_loop lut n (tl rest) (nwrite + k) st' }
      else vsnfmt_loop lut n cs (nwrite + 1) (fmt_put st n nwrite c))"
  by pat_completeness auto
termination
proof (relation "measure (\<lambda>(lut, n, f, nwrite, st). length f)", goal_cases)
  case (2 lut n c cs nwrite st name rest)
  have "length rest \<le> length (tl cs)" unfolding 2(3) by (rule length_dropWhile_le)
  then show ?case using 2 by (cases cs) auto
qed auto

text \<open>The format is a C string: it ends at the first zero.\<close>

definition vd_fmt_vsnfmt ::
  "(char list \<times> fmt_proc option) list \<Rightarrow> char list \<Rightarrow> nat \<Rightarrow> char list \<Rightarrow> fmt_arg list \<Rightarrow> (nat \<times> char list) option" where
  "vd_fmt_vsnfmt lut out n fmt args =
     do { (k, st) \<leftarrow> vsnfmt_loop lut n (takeWhile (\<lambda>c. c \<noteq> CHR 0x00) fmt) 0 \<lparr>fs_out = out, fs_args = args\<rparr>;
          Some (k, fs_out st) }"

text \<open>
  \<open>vd_snfmt\<close> and \<open>vd_snfmt_a\<close> (lib/fmt.c): a first pass without a buffer for the size, then the
  format on a new buffer of that size with the arguments from the start; the result is a slice.
\<close>

definition vd_snfmt ::
  "(char list \<times> fmt_proc option) list \<Rightarrow> char list \<Rightarrow> fmt_arg list \<Rightarrow> char list option" where
  "vd_snfmt lut fmt args =
     do { (ret, _) \<leftarrow> vd_fmt_vsnfmt lut [] 0 fmt args;
          (ret', data) \<leftarrow> vd_fmt_vsnfmt lut (replicate ret (CHR 0x00)) ret fmt args;
          Some (take ret' data) }"

section \<open>Decimal numerals\<close>

fun dec :: "nat \<Rightarrow> char list" where
  "dec n = (if n < 10 then [digit n] else dec (n div 10) @ [digit (n mod 10)])"

declare dec.simps [simp del]

definition dec_int :: "int \<Rightarrow> char list" where
  "dec_int a = (if a < 0 then CHR ''-'' # dec (nat (- a)) else dec (nat a))"

lemma dec_pair: "100 \<le> n \<Longrightarrow> dec n = dec (n div 100) @ [digit (n mod 100 div 10), digit (n mod 100 mod 10)]"
proof -
  assume n: "100 \<le> n"
  then have "dec n = dec (n div 10) @ [digit (n mod 10)]" by (simp add: dec.simps [of n])
  moreover have "\<not> n div 10 < 10" using n by simp
  then have "dec (n div 10) = dec (n div 10 div 10) @ [digit (n div 10 mod 10)]"
    by (subst dec.simps) (simp only: if_False)
  moreover have "n div 10 div 10 = n div 100" by (simp add: div_mult2_eq [symmetric])
  moreover have "n div 10 mod 10 = n mod 100 div 10" "n mod 10 = n mod 100 mod 10"
    using mod_mult2_eq [of n 10 10] by simp_all
  ultimately show ?thesis by simp
qed

lemma dec_two: "10 \<le> n \<Longrightarrow> n < 100 \<Longrightarrow> dec n = [digit (n div 10), digit (n mod 10)]"
proof -
  assume n: "10 \<le> n" "n < 100"
  then have "n div 10 < 10" by simp
  then have "dec (n div 10) = [digit (n div 10)]" by (subst dec.simps) (simp only: if_True)
  with n show ?thesis by (simp add: dec.simps [of n])
qed

lemma length_dec_pos: "0 < length (dec n)"
  by (subst dec.simps) simp

lemma length_dec: "n < 10 ^ k \<Longrightarrow> 0 < k \<Longrightarrow> length (dec n) \<le> k"
proof (induction n arbitrary: k rule: dec.induct)
  case (1 n)
  show ?case
  proof (cases "n < 10")
    case False
    with "1.prems" obtain j where k: "k = Suc j" "0 < j" by (cases k; cases "k - 1") auto
    then have "n div 10 < 10 ^ j" using "1.prems" by (simp add: less_mult_imp_div_less mult.commute)
    with "1.IH" False k show ?thesis by (simp add: dec.simps [of n])
  qed (use "1.prems" in \<open>simp add: dec.simps [of n]\<close>)
qed

lemma lut_pairs: "\<forall>k \<in> set [0..<100]. VD_FMT__Digits_Lut ! (2 * k) = digit (k div 10)
    \<and> VD_FMT__Digits_Lut ! (2 * k + 1) = digit (k mod 10)"
  by code_simp

lemma lut_at_pair:
  assumes "0 \<le> k" and "k < 100"
  shows "lut_at (k * 2) = Some (digit (nat k div 10))" and "lut_at (k * 2 + 1) = Some (digit (nat k mod 10))"
proof -
  have "nat k \<in> set [0..<100]" using assms by simp
  from lut_pairs [rule_format, OF this] show "lut_at (k * 2) = Some (digit (nat k div 10))"
    "lut_at (k * 2 + 1) = Some (digit (nat k mod 10))"
    using assms by (simp_all add: lut_at_def nat_mult_distrib nat_add_distrib mult.commute)
qed

lemma digit_int: "0 \<le> v \<Longrightarrow> v < 10 \<Longrightarrow> digit (nat v) = char_of (48 + v)"
proof -
  assume "0 \<le> v" "v < 10"
  then have "v = 0 \<or> v = 1 \<or> v = 2 \<or> v = 3 \<or> v = 4 \<or> v = 5 \<or> v = 6 \<or> v = 7 \<or> v = 8 \<or> v = 9" by presburger
  then show ?thesis by (elim disjE) (simp_all add: digit_def char_of_def bit_0)
qed

text \<open>The types in which the indices of the table fit.\<close>

definition fmt_wide :: "bool \<Rightarrow> nat \<Rightarrow> bool" where
  "fmt_wide s w \<longleftrightarrow> (if s then 9 \<le> w else 8 \<le> w)"

lemma to_int_type_small:
  assumes "fmt_wide s w" and "0 \<le> x" and "x < 200"
  shows "to_int_type s w x = x"
proof (cases s)
  case True
  have "(2::int) ^ 8 \<le> 2 ^ (w - 1)" using assms(1) True by (intro power_increasing) (auto simp: fmt_wide_def)
  moreover have "(2::int) ^ w = 2 * 2 ^ (w - 1)" using assms(1) True by (cases w) (auto simp: fmt_wide_def)
  ultimately show ?thesis using True assms by (simp add: to_int_type_def wrap_signed_def)
next
  case False
  have "(2::int) ^ 8 \<le> 2 ^ w" using assms(1) False by (intro power_increasing) (auto simp: fmt_wide_def)
  with False assms show ?thesis by (simp add: to_int_type_def)
qed

lemma int_digits_dec:
  "fmt_wide s w \<Longrightarrow> 0 \<le> v \<Longrightarrow> int (length (dec (nat v))) \<le> next + 1 \<Longrightarrow>
     int_digits s w v next acc = Some (next + 1 - int (length (dec (nat v))), dec (nat v) @ acc)"
proof (induction s w v "next" acc rule: int_digits.induct)
  case (1 s w v "next" acc)
  consider "100 \<le> v" | "v < 10" | "10 \<le> v" "v < 100" by linarith
  then show ?case
  proof cases
    case 1
    let ?k = "v mod 100"
    have k: "0 \<le> ?k" "?k < 100" "nat ?k = nat v mod 100" using "1.prems"(2) by (simp_all add: nat_mod_distrib)
    have d: "dec (nat v) = dec (nat (v div 100)) @ [digit (nat ?k div 10), digit (nat ?k mod 10)]"
      using dec_pair [of "nat v"] 1 "1.prems"(2) by (simp add: nat_div_distrib k(3))
    have t: "to_int_type s w (?k * 2) = ?k * 2" using to_int_type_small "1.prems"(1) k by simp
    have n: "\<not> next < 1" using "1.prems"(3) d length_dec_pos [of "nat (v div 100)"] by simp
    from "1.IH" [OF 1 _ n lut_at_pair(2) [OF k(1,2)] lut_at_pair(1) [OF k(1,2)]] "1.prems" d t
    have "int_digits s w (v div 100) (next - 2) (digit (nat ?k div 10) # digit (nat ?k mod 10) # acc) =
        Some (next + 1 - int (length (dec (nat v))), dec (nat v) @ acc)" by simp
    then show ?thesis using 1 n t lut_at_pair [OF k(1,2)] by (subst int_digits.simps) (simp add: Let_def)
  next
    case 2
    then have "nat v < 10" using "1.prems"(2) by simp
    then have "dec (nat v) = [digit (nat v)]" by (subst dec.simps) (simp only: if_True)
    then have "dec (nat v) = [char_of (48 + v)]" using 2 "1.prems"(2) by (simp add: digit_int)
    then show ?thesis using 2 "1.prems"(3) by (subst int_digits.simps) simp
  next
    case 3
    then have d: "dec (nat v) = [digit (nat v div 10), digit (nat v mod 10)]"
      using dec_two [of "nat v"] by simp
    have "to_int_type s w (v * 2) = v * 2" using to_int_type_small "1.prems"(1) 3 by simp
    then show ?thesis using 3 "1.prems"(3) d lut_at_pair [of v] by (subst int_digits.simps) (simp add: Let_def)
  qed
qed

section \<open>Integer conversions\<close>

text \<open>The rows of the table with more than 8 signed bits, with the digits of their largest value.\<close>

definition int_rows :: "(bool \<times> nat \<times> nat \<times> nat) set" where
  "int_rows = {(True, 16, 6, 5), (True, 32, 11, 10), (True, 64, 21, 19),
     (False, 8, 3, 3), (False, 16, 5, 5), (False, 32, 10, 10), (False, 64, 20, 20)}"

definition int_range :: "bool \<Rightarrow> nat \<Rightarrow> int set" where
  "int_range s w = (if s then {- (2 ^ (w - 1)) <..< 2 ^ (w - 1)} else {0 ..< 2 ^ w})"

lemma int_rows_fit:
  assumes "(s, w, d, k) \<in> int_rows" and "a \<in> int_range s w"
  shows "fmt_wide s w" and "nat \<bar>a\<bar> < 10 ^ k" and "0 < k" and "if s then k + 1 \<le> d else k \<le> d"
    and "to_int_type s w a = a" and "s \<Longrightarrow> a < 0 \<Longrightarrow> int_negate w a = Some (- a)"
proof -
  have w: "0 < w" "s \<Longrightarrow> 1 < w" and sz: "(2 :: int) ^ w = 2 * 2 ^ (w - 1)"
    using assms(1) by (auto simp: int_rows_def)
  show "fmt_wide s w" "0 < k" "if s then k + 1 \<le> d else k \<le> d"
    using assms(1) by (auto simp: int_rows_def fmt_wide_def)
  show "nat \<bar>a\<bar> < 10 ^ k" using assms by (auto simp: int_rows_def int_range_def nat_less_iff)
  show "to_int_type s w a = a"
    using assms(2) sz by (auto simp: int_range_def to_int_type_def wrap_signed_def)
  show "int_negate w a = Some (- a)" if "s" "a < 0"
    using assms(2) sz that by (auto simp: int_range_def int_negate_def wrap_signed_def)
qed

lemma int_to_str_ok:
  assumes row: "(s, w, d, k) \<in> int_rows" and a: "a \<in> int_range s w" and n: "d \<le> n"
    and st: "fs_args st = AInt a # args"
  shows "vd_fmt__int_to_str s w d p n st =
    Some (length (dec_int a), st\<lparr>fs_args := args, fs_out := fmt_write (fs_out st) p (dec_int a)\<rparr>)"
proof -
  note f = int_rows_fit [OF row a]
  let ?l = "int (length (dec (nat \<bar>a\<bar>)))"
  have l: "length (dec (nat \<bar>a\<bar>)) \<le> k" using length_dec [OF f(2,3)] .
  have le: "length (dec_int a) \<le> n" using l f(4) n a by (auto simp: dec_int_def int_range_def split: if_splits)
  have nd: "\<not> n < d - 1" using n by simp
  have g: "int_digits s w \<bar>a\<bar> (int d - 1) [] = Some (int d - ?l, dec (nat \<bar>a\<bar>))"
    using int_digits_dec [OF f(1), of "\<bar>a\<bar>" "int d - 1" "[]"] l f(4) by (simp split: if_splits)
  show ?thesis
  proof (cases "s \<and> a < 0")
    case True
    then have "\<bar>a\<bar> = - a" "\<not> int d - ?l < 1" using l f(4) by auto
    with g True f(5,6) st nd le show ?thesis by (simp add: vd_fmt__int_to_str_def fmt_emit_def Let_def dec_int_def)
  next
    case False
    then have "\<not> a < 0" using a by (auto simp: int_range_def split: if_splits)
    then have "\<bar>a\<bar> = a" by simp
    with g False f(5) st nd le \<open>\<not> a < 0\<close> show ?thesis
      by (auto simp add: vd_fmt__int_to_str_def fmt_emit_def Let_def dec_int_def)
  qed
qed

text \<open>C28. With room for the widest value of its type, an integer conversion writes exactly the
  decimal numeral of its argument and returns its length, for all seven types but \<open>int8_t\<close> and
  all their values but the least of a signed type.\<close>

theorem vd_fmt_int_decimal:
  assumes "(s, w, d, k) \<in> int_rows" and "a \<in> int_range s w" and "d \<le> n"
    and "fs_args st = AInt a # args"
  shows "vd_fmt__int_to_str s w d p n st =
    Some (length (dec_int a), st\<lparr>fs_args := args, fs_out := fmt_write (fs_out st) p (dec_int a)\<rparr>)"
  using assms by (rule int_to_str_ok)

theorem vd_fmt_int_decimal_witness:
  "vd_fmt__int_to_str True 32 11 0 16 \<lparr>fs_out = replicate 16 CHR ''.'', fs_args = [AInt (- 2147483647)]\<rparr> =
    Some (length (dec_int (- 2147483647)), \<lparr>fs_out = fmt_write (replicate 16 CHR ''.'') 0 (dec_int (- 2147483647)), fs_args = []\<rparr>)"
  using vd_fmt_int_decimal [of True 32 11 10 "- 2147483647" 16
      "\<lparr>fs_out = replicate 16 CHR ''.'', fs_args = [AInt (- 2147483647)]\<rparr>" "[]" 0]
  by (simp add: int_rows_def int_range_def)

text \<open>For \<open>int8_t\<close> the index into the table is an \<open>int8_t\<close> too, so from 64 to 99 it is negative.\<close>

lemma vd_fmt_i8_table:
  "vd_fmt__int_to_str True 8 4 0 16 \<lparr>fs_out = replicate 16 CHR ''.'', fs_args = [AInt 64]\<rparr> = None"
  by (simp add: vd_fmt__int_to_str_def to_int_type_def wrap_signed_def int_digits.simps lut_at_def Let_def)

text \<open>A conversion without room does not take its argument, so the next one gets it: the first pass
  of \<open>vd_snfmt\<close>, which has no room at all, takes the integer for a slice.\<close>

lemma vd_snfmt_int_then_slice:
  "vd_snfmt (VD_Fmt_Def_Lut print) ''%{i32}%{stru32}'' [AInt 1, ASlice ''a''] = None"
  by (simp add: vd_snfmt_def vd_fmt_vsnfmt_def VD_Fmt_Def_Lut_def vd_fmt__int_to_str_def
      vd_fmt__string_slice_to_str_def fmt_emit_def)

section \<open>Bounds\<close>

text \<open>What every conversion and the loop keep: outside the \<open>n\<close> characters from the position on, the
  buffer is unchanged.\<close>

definition fmt_kept :: "char list \<Rightarrow> nat \<Rightarrow> nat \<Rightarrow> char list \<Rightarrow> bool" where
  "fmt_kept buf p n buf' \<longleftrightarrow> length buf' = length buf \<and> (\<forall>i < length buf. i < p \<or> p + n \<le> i \<longrightarrow> buf' ! i = buf ! i)"

lemma fmt_kept_refl [simp]: "fmt_kept buf p n buf"
  by (simp add: fmt_kept_def)

lemma fmt_write_kept:
  "p + n \<le> length buf \<or> n = 0 \<Longrightarrow> length xs \<le> n \<Longrightarrow> fmt_kept buf p n (fmt_write buf p xs)"
  by (auto simp: fmt_kept_def fmt_write_def nth_append min_def)

lemma fmt_kept_weaken: "fmt_kept buf q k buf' \<Longrightarrow> p \<le> q \<Longrightarrow> q + k \<le> p + n \<Longrightarrow> fmt_kept buf p n buf'"
  by (auto simp: fmt_kept_def)

lemma fmt_kept_trans: "fmt_kept a p n b \<Longrightarrow> fmt_kept b p n c \<Longrightarrow> fmt_kept a p n c"
  by (simp add: fmt_kept_def)

definition fmt_proc_ok :: "fmt_proc \<Rightarrow> bool" where
  "fmt_proc_ok proc \<longleftrightarrow> (\<forall>p n st k st'. p + n \<le> length (fs_out st) \<or> n = 0 \<longrightarrow> proc p n st = Some (k, st') \<longrightarrow>
     fmt_kept (fs_out st) p n (fs_out st'))"

lemma fmt_emit_kept:
  "p + n \<le> length (fs_out st) \<or> n = 0 \<Longrightarrow> fmt_emit p n xs st = (k, st') \<Longrightarrow>
     fmt_kept (fs_out st) p n (fs_out st')"
  by (auto simp: fmt_emit_def intro!: fmt_write_kept split: if_splits)

lemma fmt_emit_args_kept:
  "p + n \<le> length (fs_out st) \<or> n = 0 \<Longrightarrow> fmt_emit p n xs (st\<lparr>fs_args := args\<rparr>) = (k, st') \<Longrightarrow>
     fmt_kept (fs_out st) p n (fs_out st')"
  using fmt_emit_kept [of p n "st\<lparr>fs_args := args\<rparr>"] by simp

lemma int_to_str_kept: "fmt_proc_ok (vd_fmt__int_to_str s w d)"
  unfolding fmt_proc_ok_def
proof (intro allI impI)
  fix p n k :: nat and st st' :: fmt_state
  assume b: "p + n \<le> length (fs_out st) \<or> n = 0" and e: "vd_fmt__int_to_str s w d p n st = Some (k, st')"
  show "fmt_kept (fs_out st) p n (fs_out st')"
  proof (cases "n < d - 1")
    case True
    with e show ?thesis by (simp add: vd_fmt__int_to_str_def)
  next
    case False
    then obtain a args where st: "fs_args st = AInt a # args"
      using e by (simp add: vd_fmt__int_to_str_def split: list.splits fmt_arg.splits)
    then obtain wr' where "fmt_emit p n wr' (st\<lparr>fs_args := args\<rparr>) = (k, st')"
      using e False by (auto simp: vd_fmt__int_to_str_def Let_def bind_Some_iff)
    with b show ?thesis by (rule fmt_emit_args_kept)
  qed
qed

lemma fmt_lookup_mem: "fmt_lookup lut name = Some p \<Longrightarrow> p \<in> set (map snd lut)"
  by (induction lut) (auto split: if_splits)

lemma fmt_lut_ok: "fmt_lookup (VD_Fmt_Def_Lut print) name = Some (Some proc) \<Longrightarrow> fmt_proc_ok proc"
proof -
  have f64: "fmt_proc_ok (vd_fmt__f64_to_str print)"
    by (auto simp: fmt_proc_ok_def vd_fmt__f64_to_str_def Let_def intro!: fmt_write_kept
        split: if_splits list.splits fmt_arg.splits)
  have "fmt_proc_ok vd_fmt__f32_to_str" "fmt_proc_ok vd_fmt__string_slice_to_str" "fmt_proc_ok vd_fmt__cstr"
    "fmt_proc_ok vd_fmt__pathu32_to_str" "fmt_proc_ok vd_fmt__null_to_str"
    by (auto simp: fmt_proc_ok_def vd_fmt__f32_to_str_def vd_fmt__string_slice_to_str_def
        vd_fmt__cstr_def vd_fmt__pathu32_to_str_def vd_fmt__null_to_str_def
        intro: fmt_emit_kept fmt_emit_args_kept split: list.splits fmt_arg.splits)
  with f64 int_to_str_kept have ok: "\<forall>p \<in> set (map snd (VD_Fmt_Def_Lut print)). \<forall>proc. p = Some proc \<longrightarrow> fmt_proc_ok proc"
    unfolding VD_Fmt_Def_Lut_def by simp
  assume "fmt_lookup (VD_Fmt_Def_Lut print) name = Some (Some proc)"
  then have "Some proc \<in> set (map snd (VD_Fmt_Def_Lut print))" by (rule fmt_lookup_mem)
  with ok show ?thesis by blast
qed

lemma vsnfmt_loop_kept:
  "(\<And>name proc. fmt_lookup lut name = Some (Some proc) \<Longrightarrow> fmt_proc_ok proc) \<Longrightarrow> n \<le> length (fs_out st) \<Longrightarrow>
     vsnfmt_loop lut n f nwrite st = Some (k, st') \<Longrightarrow> fmt_kept (fs_out st) 0 n (fs_out st')"
proof (induction lut n f nwrite st rule: vsnfmt_loop.induct)
  case (2 lut n c cs nwrite st)
  let ?rest = "dropWhile (\<lambda>x. x \<noteq> CHR ''}'') (tl cs)" and ?name = "takeWhile (\<lambda>x. x \<noteq> CHR ''}'') (tl cs)"
  show ?case
  proof (cases "c = CHR ''%'' \<and> cs \<noteq> [] \<and> hd cs = CHR ''{''")
    case esc: True
    show ?thesis
    proof (cases "?rest = []")
      case True
      with esc "2.prems"(3) show ?thesis by (simp add: Let_def del: dropWhile_eq_Nil_conv)
    next
      case rest: False
      show ?thesis
      proof (cases "fmt_lookup lut ?name")
        case None
        with rest esc "2.prems"(3) show ?thesis by (simp add: Let_def del: dropWhile_eq_Nil_conv)
      next
        case (Some r)
        with rest esc "2.prems"(3) obtain proc j st1 where p: "fmt_lookup lut ?name = Some (Some proc)"
          "proc nwrite (n - nwrite) st = Some (j, st1)" "vsnfmt_loop lut n (tl ?rest) (nwrite + j) st1 = Some (k, st')"
          by (auto simp: Let_def bind_Some_iff simp del: dropWhile_eq_Nil_conv split: option.splits)
      have kept: "fmt_kept (fs_out st) 0 n (fs_out st1)"
      proof (cases "nwrite \<le> n")
        case True
        then have "nwrite + (n - nwrite) \<le> length (fs_out st)" using "2.prems"(2) by simp
        then have "fmt_kept (fs_out st) nwrite (n - nwrite) (fs_out st1)"
          using "2.prems"(1) [OF p(1)] p(2) unfolding fmt_proc_ok_def by metis
        then show ?thesis using True by (auto elim: fmt_kept_weaken)
      next
        case False
        then have "n - nwrite = 0" by simp
        then have "fmt_kept (fs_out st) nwrite 0 (fs_out st1)"
          using "2.prems"(1) [OF p(1)] p(2) unfolding fmt_proc_ok_def by metis
        then show ?thesis by (auto simp: fmt_kept_def)
      qed
      have len: "n \<le> length (fs_out st1)" using kept "2.prems"(2) by (simp add: fmt_kept_def)
      have "fmt_kept (fs_out st1) 0 n (fs_out st')"
        by (rule "2.IH"(1) [OF esc refl refl rest p(1) refl p(2) refl _ len p(3)]) (rule "2.prems"(1))
      with kept show ?thesis by (rule fmt_kept_trans)
      qed
    qed
  next
    case False
    have kp: "fmt_kept (fs_out st) 0 n (fs_out (fmt_put st n nwrite c))"
      by (auto simp: fmt_put_def fmt_kept_def nth_list_update)
    have "fmt_kept (fs_out (fmt_put st n nwrite c)) 0 n (fs_out st')"
      using "2.IH"(2) [OF False "2.prems"(1)] "2.prems"(2,3) False kp by (auto simp: fmt_kept_def)
    with kp show ?thesis by (rule fmt_kept_trans)
  qed
qed simp

text \<open>C29. Whatever the format and the arguments, a call that returns has left every character of the
  buffer from position \<open>n\<close> on as it was.\<close>

theorem vd_fmt_vsnfmt_bounds:
  assumes "vd_fmt_vsnfmt (VD_Fmt_Def_Lut print) out n fmt args = Some (k, out')" and "n \<le> length out"
  shows "length out' = length out \<and> drop n out' = drop n out"
proof -
  obtain st where "vsnfmt_loop (VD_Fmt_Def_Lut print) n (takeWhile (\<lambda>c. c \<noteq> CHR 0x00) fmt) 0
      \<lparr>fs_out = out, fs_args = args\<rparr> = Some (k, st)" "fs_out st = out'"
    using assms(1) by (auto simp: vd_fmt_vsnfmt_def bind_Some_iff)
  moreover from this(1) have "fmt_kept (fs_out \<lparr>fs_out = out, fs_args = args\<rparr>) 0 n (fs_out st)"
    by (rule vsnfmt_loop_kept [rotated 2]) (use fmt_lut_ok assms(2) in auto)
  ultimately have "fmt_kept out 0 n out'" by simp
  then show ?thesis by (auto simp: fmt_kept_def intro!: nth_equalityI)
qed

section \<open>Text and slices\<close>

lemma fmt_write_append:
  "p + length xs + length ys \<le> length buf \<Longrightarrow>
     fmt_write (fmt_write buf p xs) (p + length xs) ys = fmt_write buf p (xs @ ys)"
  by (simp add: fmt_write_def add_ac)

lemma fmt_write_one: "p < length buf \<Longrightarrow> buf[p := c] = fmt_write buf p [c]"
  by (simp add: fmt_write_def upd_conv_take_nth_drop take_Cons')

lemma fmt_write_nil [simp]: "fmt_write buf p [] = buf"
  by (simp add: fmt_write_def)

lemma length_fmt_write [simp]: "p + length xs \<le> length buf \<Longrightarrow> length (fmt_write buf p xs) = length buf"
  by (simp add: fmt_write_def)

text \<open>A format of text and slices, its arguments and what it should give.\<close>

datatype fmt_piece = Text "char list" | Slice "char list"

fun piece_fmt :: "fmt_piece \<Rightarrow> char list" where
  "piece_fmt (Text s) = s"
| "piece_fmt (Slice s) = ''%{stru32}''"

fun piece_text :: "fmt_piece \<Rightarrow> char list" where
  "piece_text (Text s) = s"
| "piece_text (Slice s) = s"

fun piece_args :: "fmt_piece \<Rightarrow> fmt_arg list" where
  "piece_args (Text s) = []"
| "piece_args (Slice s) = [ASlice s]"

fun piece_ok :: "fmt_piece \<Rightarrow> bool" where
  "piece_ok (Text s) = (CHR ''%'' \<notin> set s \<and> CHR 0x00 \<notin> set s)"
| "piece_ok (Slice s) = True"

text \<open>Either there is no buffer, or it has room for the rest.\<close>

definition fmt_room :: "char list \<Rightarrow> nat \<Rightarrow> nat \<Rightarrow> nat \<Rightarrow> bool" where
  "fmt_room buf n nwrite len \<longleftrightarrow> n = 0 \<or> n = length buf \<and> nwrite + len \<le> n"

definition fmt_done :: "nat \<Rightarrow> char list \<Rightarrow> nat \<Rightarrow> char list \<Rightarrow> char list" where
  "fmt_done n buf p xs = (if n = 0 then buf else fmt_write buf p xs)"

lemma fmt_done_new: "fmt_done (length xs) (replicate (length xs) c) 0 xs = xs"
  by (cases xs) (simp_all add: fmt_done_def fmt_write_def)

lemma vsnfmt_text:
  "CHR ''%'' \<notin> set s \<Longrightarrow> fmt_room (fs_out st) n nwrite (length s) \<Longrightarrow>
     vsnfmt_loop lut n (s @ f) nwrite st =
     vsnfmt_loop lut n f (nwrite + length s) (st\<lparr>fs_out := fmt_done n (fs_out st) nwrite s\<rparr>)"
proof (induction s arbitrary: nwrite st)
  case Nil
  then show ?case by (simp add: fmt_done_def)
next
  case (Cons c s)
  let ?st = "fmt_put st n nwrite c"
  have "fmt_room (fs_out ?st) n (nwrite + 1) (length s)"
    using Cons.prems(2) by (auto simp: fmt_room_def fmt_put_def)
  moreover have "?st\<lparr>fs_out := fmt_done n (fs_out ?st) (nwrite + 1) s\<rparr> =
      st\<lparr>fs_out := fmt_done n (fs_out st) nwrite (c # s)\<rparr>"
    using Cons.prems(2) fmt_write_append [of nwrite "[c]" s "fs_out st"]
    by (auto simp: fmt_put_def fmt_done_def fmt_room_def fmt_write_one)
  ultimately show ?case using Cons.IH [of ?st "nwrite + 1"] Cons.prems(1) by (subst append_Cons, subst vsnfmt_loop.simps) auto
qed

lemma vsnfmt_slice:
  assumes "fs_args st = ASlice s # args" and "fmt_room (fs_out st) n nwrite (length s)"
  shows "vsnfmt_loop (VD_Fmt_Def_Lut print) n (''%{stru32}'' @ f) nwrite st =
    vsnfmt_loop (VD_Fmt_Def_Lut print) n f (nwrite + length s)
      (st\<lparr>fs_args := args, fs_out := fmt_done n (fs_out st) nwrite s\<rparr>)"
proof -
  have "fmt_emit nwrite (n - nwrite) s (st\<lparr>fs_args := args\<rparr>) =
      (length s, st\<lparr>fs_args := args, fs_out := fmt_done n (fs_out st) nwrite s\<rparr>)"
    using assms(2) by (auto simp: fmt_emit_def fmt_done_def fmt_room_def)
  moreover have "fmt_lookup (VD_Fmt_Def_Lut print) ''stru32'' = Some (Some vd_fmt__string_slice_to_str)"
    by (simp add: VD_Fmt_Def_Lut_def)
  ultimately show ?thesis using assms(1) by (simp add: vd_fmt__string_slice_to_str_def)
qed

lemma vsnfmt_pieces:
  "list_all piece_ok ps \<Longrightarrow> fs_args st = concat (map piece_args ps) \<Longrightarrow>
     fmt_room (fs_out st) n nwrite (length (concat (map piece_text ps))) \<Longrightarrow>
     vsnfmt_loop (VD_Fmt_Def_Lut print) n (concat (map piece_fmt ps)) nwrite st =
     Some (nwrite + length (concat (map piece_text ps)),
       \<lparr>fs_out = fmt_done n (fs_out st) nwrite (concat (map piece_text ps)), fs_args = []\<rparr>)"
proof (induction ps arbitrary: nwrite st)
  case Nil
  then show ?case by (simp add: fmt_done_def)
next
  case (Cons p ps)
  let ?s = "piece_text p" and ?r = "concat (map piece_text ps)"
  let ?st = "st\<lparr>fs_args := concat (map piece_args ps), fs_out := fmt_done n (fs_out st) nwrite ?s\<rparr>"
  have room: "fmt_room (fs_out st) n nwrite (length ?s)" using Cons.prems(3) by (auto simp: fmt_room_def)
  have "vsnfmt_loop (VD_Fmt_Def_Lut print) n (piece_fmt p @ concat (map piece_fmt ps)) nwrite st =
      vsnfmt_loop (VD_Fmt_Def_Lut print) n (concat (map piece_fmt ps)) (nwrite + length ?s) ?st"
  proof (cases p)
    case (Text s)
    then have "st\<lparr>fs_out := fmt_done n (fs_out st) nwrite s\<rparr> = ?st" using Cons.prems(2) by simp
    then show ?thesis using vsnfmt_text [of s st n nwrite] Cons.prems(1) room Text by simp
  next
    case (Slice s)
    then show ?thesis using vsnfmt_slice [of st s] Cons.prems(2) room by simp
  qed
  moreover have "fmt_room (fs_out ?st) n (nwrite + length ?s) (length ?r)"
    using Cons.prems(3) by (auto simp: fmt_room_def fmt_done_def)
  moreover have "fmt_done n (fmt_done n (fs_out st) nwrite ?s) (nwrite + length ?s) ?r =
      fmt_done n (fs_out st) nwrite (?s @ ?r)"
    using Cons.prems(3) by (auto simp: fmt_room_def fmt_done_def fmt_write_append)
  ultimately show ?case using Cons.IH [of ?st "nwrite + length ?s"] Cons.prems(1) by simp
qed

text \<open>\<open>vd_snfmt\<close> on a format of text and slices returns, and gives the text with the slices in
  place, from a buffer of exactly that size.\<close>

theorem vd_snfmt_slices:
  assumes "list_all piece_ok ps"
  shows "vd_snfmt (VD_Fmt_Def_Lut print) (concat (map piece_fmt ps)) (concat (map piece_args ps)) =
    Some (concat (map piece_text ps))"
proof -
  let ?f = "concat (map piece_fmt ps)" and ?r = "concat (map piece_text ps)" and ?a = "concat (map piece_args ps)"
  have "CHR 0x00 \<notin> set (piece_fmt p)" if "p \<in> set ps" for p
    using assms that by (cases p) (auto simp: list_all_iff)
  then have "\<forall>c \<in> set ?f. c \<noteq> CHR 0x00" by auto
  then have z: "takeWhile (\<lambda>c. c \<noteq> CHR 0x00) ?f = ?f" by (simp add: takeWhile_eq_all_conv)
  have v: "vd_fmt_vsnfmt (VD_Fmt_Def_Lut print) buf n ?f ?a = Some (length ?r, fmt_done n buf 0 ?r)"
    if "n = 0 \<or> n = length buf \<and> length ?r \<le> n" for buf n
    using vsnfmt_pieces [OF assms, of "\<lparr>fs_out = buf, fs_args = ?a\<rparr>" n 0] that
    by (simp add: vd_fmt_vsnfmt_def z fmt_room_def)
  have d: "fmt_done (length ?r) (replicate (length ?r) CHR 0x00) 0 ?r = ?r"
    by (rule fmt_done_new)
  show ?thesis using v [of 0 "[]"] v [of "length ?r" "replicate (length ?r) CHR 0x00"] d
    by (simp add: vd_snfmt_def)
qed

theorem vd_snfmt_slices_witness:
  "vd_snfmt (VD_Fmt_Def_Lut (\<lambda>_. [])) ''%{stru32} %{stru32}'' [ASlice ''Hello'', ASlice ''World''] =
    Some ''Hello World''"
  using vd_snfmt_slices [of "[Slice ''Hello'', Text '' '', Slice ''World'']" "\<lambda>_. []"] by simp

lemma vd_fmt_bounds_run:
  "vd_fmt_vsnfmt (VD_Fmt_Def_Lut (\<lambda>_. [])) ''......'' 4 ''ab%{stru32}'' [ASlice ''cdef''] = Some (6, ''ab....'')"
  by (simp add: vd_fmt_vsnfmt_def VD_Fmt_Def_Lut_def vd_fmt__string_slice_to_str_def fmt_emit_def fmt_put_def)

theorem vd_fmt_vsnfmt_bounds_witness:
  "length ''ab....'' = length ''......'' \<and> drop 4 ''ab....'' = drop 4 ''......''"
  by (rule vd_fmt_vsnfmt_bounds [OF vd_fmt_bounds_run]) simp

end
