(* ===== verification/Descalloc.thy ===== *)
theory Descalloc
  imports Dynarray
begin

text \<open>
  The descriptor allocator of ng/src/r/descriptor_allocator.c: descriptor sets come from a list of
  descriptor pools, a pool that is exhausted moves to a second list, and new pools are created in
  growing sizes.

  The Vulkan device and the allocators of the memory manager are parameters
  (\<open>vk_descriptors\<close>): functions on a state \<open>'v\<close> of the device that the model does not look into.
  Handles are numbers. \<open>abort\<close> in \<open>VD_VK_CHECK\<close> is \<open>None\<close>; a descriptor set that was never
  written (an indeterminate local variable) is \<open>None\<close> in the result.
\<close>

section \<open>Definitions\<close>

datatype vk_alloc_result =
  VK_SUCCESS nat | VK_ERROR_OUT_OF_POOL_MEMORY | VK_ERROR_FRAGMENTED_POOL | VK_ERROR_OTHER

record VkWriteDescriptorSet =
  w_dstBinding :: int
  w_dstSet :: nat
  w_descriptorType :: nat
  w_descriptorCount :: nat
  w_pBufferInfo :: "nat option"
  w_pImageInfo :: "nat option"

record 'v vk_descriptors =
  VD_MM_FRAME_ALLOCATOR :: nat
  VD_MM_GLOBAL_ALLOCATOR :: nat
  vkCreateDescriptorPool :: "nat \<Rightarrow> nat \<Rightarrow> (nat \<times> nat) list \<Rightarrow> 'v \<Rightarrow> nat option \<times> 'v"
  vkAllocateDescriptorSets :: "nat \<Rightarrow> nat \<Rightarrow> nat \<Rightarrow> nat \<Rightarrow> 'v \<Rightarrow> vk_alloc_result \<times> 'v"
  vkResetDescriptorPool :: "nat \<Rightarrow> nat \<Rightarrow> 'v \<Rightarrow> 'v"
  vkDestroyDescriptorPool :: "nat \<Rightarrow> nat \<Rightarrow> 'v \<Rightarrow> 'v"
  vkUpdateDescriptorSets :: "nat \<Rightarrow> VkWriteDescriptorSet list \<Rightarrow> 'v \<Rightarrow> 'v"

text \<open>A ratio is a single precision number \<open>m / 2 ^ e\<close>, kept as \<open>(m, e)\<close>.\<close>

record VD_DescriptorPoolSizeRatio =
  ratio_type :: nat
  ratio_ratio :: "nat \<times> nat"

record VD_DescriptorAllocator =
  dsa_device :: nat
  dsa_ratios :: "VD_DescriptorPoolSizeRatio darray"
  dsa_full_pools :: "nat darray"
  dsa_free_pools :: "nat darray"
  dsa_sets_per_pool :: nat

text \<open>The conversion of a single precision product to \<open>u32\<close>; out of range it is undefined.\<close>

definition f32_mul_u32 :: "nat \<Rightarrow> nat \<Rightarrow> nat \<Rightarrow> nat option" where
  "f32_mul_u32 n m e = (let r = f32_mul_trunc n m e in if r < 2 ^ 32 then Some r else None)"

text \<open>The loop reads \<open>ratios->type\<close> and \<open>ratios->ratio\<close>, the first ratio, in every round.\<close>

fun pool_sizes_loop ::
  "VD_DescriptorPoolSizeRatio darray \<Rightarrow> nat \<Rightarrow> nat \<Rightarrow> (nat \<times> nat) darray \<Rightarrow> (nat \<times> nat) darray option" where
  "pool_sizes_loop ratios set_count 0 sizes = Some sizes"
| "pool_sizes_loop ratios set_count (Suc n) sizes =
     do { r \<leftarrow> array_get ratios 0;
          cnt \<leftarrow> f32_mul_u32 set_count (fst (ratio_ratio r)) (snd (ratio_ratio r));
          sizes' \<leftarrow> array_add sizes (ratio_type r, cnt);
          pool_sizes_loop ratios set_count n sizes' }"

definition create_pool ::
  "'v vk_descriptors \<Rightarrow> VD_DescriptorAllocator \<Rightarrow> nat \<Rightarrow> VD_DescriptorPoolSizeRatio darray \<Rightarrow> nat \<Rightarrow> 'v
     \<Rightarrow> (nat \<times> 'v) option" where
  "create_pool k d set_count ratios num_ratios v =
     do { a \<leftarrow> array_init (VD_MM_FRAME_ALLOCATOR k);
          pool_sizes \<leftarrow> pool_sizes_loop ratios set_count num_ratios a;
          sizes \<leftarrow> array_read pool_sizes;
          let (result, v') = vkCreateDescriptorPool k (dsa_device d) set_count sizes v;
          new_pool \<leftarrow> result;
          Some (new_pool, v') }"

definition get_pool ::
  "'v vk_descriptors \<Rightarrow> VD_DescriptorAllocator \<Rightarrow> 'v \<Rightarrow> (nat \<times> VD_DescriptorAllocator \<times> 'v) option" where
  "get_pool k d v =
     (if array_len (dsa_free_pools d) \<noteq> 0 then
        do { (p, free_pools) \<leftarrow> array_pop (dsa_free_pools d);
             Some (p, d\<lparr>dsa_free_pools := free_pools\<rparr>, v) }
      else
        do { (p, v') \<leftarrow> create_pool k d (dsa_sets_per_pool d) (dsa_ratios d) (array_len (dsa_ratios d)) v;
             n \<leftarrow> f32_mul_u32 (dsa_sets_per_pool d) 3 1;
             Some (p, d\<lparr>dsa_sets_per_pool := if 4092 < n then 4092 else n\<rparr>, v') })"

definition vd_descriptor_allocator_init ::
  "'v vk_descriptors \<Rightarrow> nat \<Rightarrow> nat \<Rightarrow> VD_DescriptorPoolSizeRatio list \<Rightarrow> 'v
     \<Rightarrow> (VD_DescriptorAllocator \<times> 'v) option" where
  "vd_descriptor_allocator_init k device initial_sets rs v =
     do { ratios0 \<leftarrow> array_init (VD_MM_GLOBAL_ALLOCATOR k);
          full_pools \<leftarrow> array_init (VD_MM_GLOBAL_ALLOCATOR k);
          free_pools0 \<leftarrow> array_init (VD_MM_GLOBAL_ALLOCATOR k);
          n \<leftarrow> f32_mul_u32 initial_sets 3 1;
          ratios \<leftarrow> run_ops (\<lambda>r a. array_add a r) rs ratios0;
          let d = \<lparr>dsa_device = device, dsa_ratios = ratios, dsa_full_pools = full_pools,
                   dsa_free_pools = free_pools0, dsa_sets_per_pool = n\<rparr>;
          (new_pool, v') \<leftarrow> create_pool k d initial_sets ratios (array_len ratios) v;
          free_pools \<leftarrow> array_add free_pools0 new_pool;
          Some (d\<lparr>dsa_free_pools := free_pools\<rparr>, v') }"

definition vd_descriptor_allocator_allocate ::
  "'v vk_descriptors \<Rightarrow> VD_DescriptorAllocator \<Rightarrow> nat \<Rightarrow> nat \<Rightarrow> 'v
     \<Rightarrow> (nat option \<times> VD_DescriptorAllocator \<times> 'v) option" where
  "vd_descriptor_allocator_allocate k d0 layout pnext v0 =
     do { (pool, d, v1) \<leftarrow> get_pool k d0 v0;
          let (result, v2) = vkAllocateDescriptorSets k (dsa_device d) pool layout pnext v1;
          (pool_to_use, ds, d', v3) \<leftarrow>
            (if result = VK_ERROR_OUT_OF_POOL_MEMORY \<or> result = VK_ERROR_FRAGMENTED_POOL then
               do { full_pools \<leftarrow> array_add (dsa_full_pools d) pool;
                    (pool', d', v3) \<leftarrow> get_pool k (d\<lparr>dsa_full_pools := full_pools\<rparr>) v2;
                    (case vkAllocateDescriptorSets k (dsa_device d') pool' layout pnext v3 of
                       (VK_SUCCESS ds, v4) \<Rightarrow> Some (pool', Some ds, d', v4)
                     | _ \<Rightarrow> None) }
             else Some (pool, (case result of VK_SUCCESS ds \<Rightarrow> Some ds | _ \<Rightarrow> None), d, v2));
          free_pools \<leftarrow> array_add (dsa_free_pools d') pool_to_use;
          Some (ds, d'\<lparr>dsa_free_pools := free_pools\<rparr>, v3) }"

definition vd_descriptor_allocator_clear ::
  "'v vk_descriptors \<Rightarrow> VD_DescriptorAllocator \<Rightarrow> 'v \<Rightarrow> (VD_DescriptorAllocator \<times> 'v) option" where
  "vd_descriptor_allocator_clear k d v =
     do { v1 \<leftarrow> array_each (\<lambda>p v. Some (vkResetDescriptorPool k (dsa_device d) p v))
                 (dsa_free_pools d) 0 (array_len (dsa_free_pools d)) v;
          (free_pools, v2) \<leftarrow> array_each
            (\<lambda>p (a, v). do { a' \<leftarrow> array_add a p; Some (a', vkResetDescriptorPool k (dsa_device d) p v) })
            (dsa_full_pools d) 0 (array_len (dsa_full_pools d)) (dsa_free_pools d, v1);
          full_pools \<leftarrow> array_clear (dsa_full_pools d);
          Some (d\<lparr>dsa_free_pools := free_pools, dsa_full_pools := full_pools\<rparr>, v2) }"

definition vd_descriptor_allocator_deinit ::
  "'v vk_descriptors \<Rightarrow> VD_DescriptorAllocator \<Rightarrow> 'v \<Rightarrow> 'v option" where
  "vd_descriptor_allocator_deinit k d v =
     do { v1 \<leftarrow> array_each (\<lambda>p v. Some (vkDestroyDescriptorPool k (dsa_device d) p v))
                 (dsa_free_pools d) 0 (array_len (dsa_free_pools d)) v;
          array_each (\<lambda>p v. Some (vkDestroyDescriptorPool k (dsa_device d) p v))
            (dsa_full_pools d) 0 (array_len (dsa_full_pools d)) v1 }"

text \<open>
  Writing descriptor sets. An entry holds a union of a buffer and an image description, an opaque
  number here; the write points to it as the one or as the other.
\<close>

datatype VD_R_DescriptorSetEntryType =
  VD_R_DESCRIPTOR_SET_ENTRY_BUFFER | VD_R_DESCRIPTOR_SET_ENTRY_IMAGE

record VD_R_DescriptorSetEntry =
  entry_binding :: int
  entry_type :: VD_R_DescriptorSetEntryType
  entry_t :: nat
  entry_info :: nat

definition write_of :: "nat \<Rightarrow> VD_R_DescriptorSetEntry \<Rightarrow> VkWriteDescriptorSet" where
  "write_of s e =
     \<lparr>w_dstBinding = entry_binding e, w_dstSet = s, w_descriptorType = entry_t e, w_descriptorCount = 1,
      w_pBufferInfo = (if entry_type e = VD_R_DESCRIPTOR_SET_ENTRY_BUFFER then Some (entry_info e) else None),
      w_pImageInfo = (if entry_type e = VD_R_DESCRIPTOR_SET_ENTRY_BUFFER then None
                      else if entry_type e = VD_R_DESCRIPTOR_SET_ENTRY_IMAGE then Some (entry_info e) else None)\<rparr>"

fun writes_loop ::
  "nat \<Rightarrow> VD_R_DescriptorSetEntry list \<Rightarrow> nat \<Rightarrow> nat \<Rightarrow> VkWriteDescriptorSet darray
     \<Rightarrow> VkWriteDescriptorSet darray option" where
  "writes_loop s es i 0 a = Some a"
| "writes_loop s es i (Suc n) a =
     do { e \<leftarrow> (if i < length es then Some (es ! i) else None);
          a' \<leftarrow> array_set a i (write_of s e);
          writes_loop s es (Suc i) n a' }"

definition vd_r_write_descriptor_sets ::
  "'v vk_descriptors \<Rightarrow> nat \<Rightarrow> nat \<Rightarrow> VD_R_DescriptorSetEntry list \<Rightarrow> nat \<Rightarrow> nat \<Rightarrow> 'v \<Rightarrow> 'v option" where
  "vd_r_write_descriptor_sets k s device es num_entries allocator v =
     do { a0 \<leftarrow> array_init allocator;
          a1 \<leftarrow> array_addn a0 num_entries;
          a2 \<leftarrow> writes_loop s es 0 num_entries a1;
          writes \<leftarrow> array_read a2;
          Some (vkUpdateDescriptorSets k device writes v) }"


section \<open>What the code relies on\<close>

text \<open>
  The documented effects of the calls. \<open>live\<close> is the set of the device's descriptor pools and
  \<open>fresh\<close> are those with nothing allocated from them since they were created or reset. The creation
  of a pool may fail and an allocation may have any result; an allocation leaves the pools as they
  are and uses up at most the pool it was made from.
\<close>

definition vk_driver :: "'v vk_descriptors \<Rightarrow> ('v \<Rightarrow> nat set) \<Rightarrow> ('v \<Rightarrow> nat set) \<Rightarrow> bool" where
  "vk_driver k live fresh \<longleftrightarrow>
     VD_MM_FRAME_ALLOCATOR k \<noteq> 0 \<and> VD_MM_GLOBAL_ALLOCATOR k \<noteq> 0 \<and>
     (\<forall>d c sizes v p v'. vkCreateDescriptorPool k d c sizes v = (Some p, v') \<longrightarrow>
        p \<notin> live v \<and> live v' = insert p (live v) \<and> fresh v' = insert p (fresh v)) \<and>
     (\<forall>d p l pn v r v'. p \<in> live v \<and> vkAllocateDescriptorSets k d p l pn v = (r, v') \<longrightarrow>
        live v' = live v \<and> fresh v - {p} \<subseteq> fresh v') \<and>
     (\<forall>d p v. p \<in> live v \<longrightarrow> live (vkResetDescriptorPool k d p v) = live v \<and>
        fresh (vkResetDescriptorPool k d p v) = insert p (fresh v)) \<and>
     (\<forall>d p v. p \<in> live v \<longrightarrow> live (vkDestroyDescriptorPool k d p v) = live v - {p})"

text \<open>
  A device that does not give the allocator what it needs for the layouts \<open>ls\<close>: it cannot create
  a pool with \<open>n\<close> entries of the type \<open>t\<close>, it fails an allocation for another reason than a full
  pool, or it refuses one from an empty pool. The last is what a layout meets that needs
  descriptors of another type than \<open>t\<close>.
\<close>

definition device_fails ::
  "'v vk_descriptors \<Rightarrow> ('v \<Rightarrow> nat set) \<Rightarrow> ('v \<Rightarrow> nat set) \<Rightarrow> nat set \<Rightarrow> nat \<Rightarrow> nat \<Rightarrow> bool" where
  "device_fails k live fresh ls t n \<longleftrightarrow>
     (\<exists>d c cnt v. 0 < cnt \<and> fst (vkCreateDescriptorPool k d c (replicate n (t, cnt)) v) = None) \<or>
     (\<exists>d p l pn v. p \<in> live v \<and> l \<in> ls \<and> fst (vkAllocateDescriptorSets k d p l pn v) = VK_ERROR_OTHER) \<or>
     (\<exists>d p l pn v. p \<in> live v \<and> p \<in> fresh v \<and> l \<in> ls \<and>
        (\<forall>s. fst (vkAllocateDescriptorSets k d p l pn v) \<noteq> VK_SUCCESS s))"

lemma vk_create:
  "vk_driver k live fresh \<Longrightarrow> vkCreateDescriptorPool k d c sizes v = (Some p, v') \<Longrightarrow>
     p \<notin> live v \<and> live v' = insert p (live v) \<and> fresh v' = insert p (fresh v)"
  unfolding vk_driver_def by (elim conjE) metis

lemma vk_allocate:
  "vk_driver k live fresh \<Longrightarrow> p \<in> live v \<Longrightarrow> vkAllocateDescriptorSets k d p l pn v = (r, v') \<Longrightarrow>
     live v' = live v \<and> fresh v - {p} \<subseteq> fresh v'"
  unfolding vk_driver_def by (elim conjE) metis

lemma vk_reset:
  "vk_driver k live fresh \<Longrightarrow> p \<in> live v \<Longrightarrow>
     live (vkResetDescriptorPool k d p v) = live v \<and>
     fresh (vkResetDescriptorPool k d p v) = insert p (fresh v)"
  by (simp add: vk_driver_def)

lemma vk_destroy:
  "vk_driver k live fresh \<Longrightarrow> p \<in> live v \<Longrightarrow> live (vkDestroyDescriptorPool k d p v) = live v - {p}"
  by (simp add: vk_driver_def)

lemma vk_allocators:
  "vk_driver k live fresh \<Longrightarrow> VD_MM_FRAME_ALLOCATOR k \<noteq> 0 \<and> VD_MM_GLOBAL_ALLOCATOR k \<noteq> 0"
  by (simp add: vk_driver_def)

lemma fails_create:
  "vkCreateDescriptorPool k d c (replicate n (t, cnt)) v = (None, v') \<Longrightarrow> 0 < cnt \<Longrightarrow>
     device_fails k live fresh ls t n"
  unfolding device_fails_def by (metis fst_conv)

lemma fails_other:
  "vkAllocateDescriptorSets k d p l pn v = (VK_ERROR_OTHER, v') \<Longrightarrow> p \<in> live v \<Longrightarrow> l \<in> ls \<Longrightarrow>
     device_fails k live fresh ls t n"
  unfolding device_fails_def by (metis fst_conv)

lemma fails_fresh:
  "vkAllocateDescriptorSets k d p l pn v = (r, v') \<Longrightarrow> \<forall>s. r \<noteq> VK_SUCCESS s \<Longrightarrow>
     p \<in> live v \<Longrightarrow> p \<in> fresh v \<Longrightarrow> l \<in> ls \<Longrightarrow> device_fails k live fresh ls t n"
  unfolding device_fails_def by (metis fst_conv)

section \<open>Pools\<close>

lemma f32_mul_u32_pos:
  assumes "0 < c" and "c \<le> 2 ^ 22" and "2 ^ e \<le> m" and "m \<le> 256 * 2 ^ e"
  shows "\<exists>r. f32_mul_u32 c m e = Some r \<and> 0 < r"
proof -
  have c: "f32_round c = c" using assms(2) by (intro f32_round_exact) simp
  have "1 * 2 ^ e \<le> c * m" using assms(1,3) by (intro mult_le_mono) auto
  then have "2 ^ e \<le> f32_round (c * m)" using f32_round_lower [of e "c * m"] by simp
  then have pos: "0 < f32_mul_trunc c m e" by (simp add: f32_mul_trunc_def c div_greater_zero_iff)
  have "f32_round (c * m) \<le> 2 * (c * m)" by (rule f32_round_double)
  also have "\<dots> \<le> 2 * (2 ^ 22 * (256 * 2 ^ e))" using assms(2,4) by (intro mult_le_mono) auto
  also have "\<dots> = 2 ^ 31 * 2 ^ e" by simp
  finally have "f32_mul_trunc c m e \<le> 2 ^ 31 * 2 ^ e div 2 ^ e"
    unfolding f32_mul_trunc_def c by (rule div_le_mono)
  then have "f32_mul_trunc c m e < 2 ^ 32" by simp
  with pos show ?thesis by (simp add: f32_mul_u32_def Let_def)
qed

lemma grow_sets: "0 < c \<Longrightarrow> c \<le> 2 ^ 22 \<Longrightarrow> f32_mul_u32 c 3 1 = Some (3 * c div 2)"
  by (simp add: f32_mul_u32_def f32_mul_trunc_def f32_round_exact mult.commute Let_def)

definition ratio_ok :: "VD_DescriptorPoolSizeRatio \<Rightarrow> bool" where
  "ratio_ok r \<longleftrightarrow> 2 ^ snd (ratio_ratio r) \<le> fst (ratio_ratio r) \<and> fst (ratio_ratio r) \<le> 256 * 2 ^ snd (ratio_ratio r)"

text \<open>Every entry of a new pool has the type and the ratio of the first ratio.\<close>

lemma pool_sizes_loop_eq:
  assumes "holds ratios (r # rs)" and "f32_mul_u32 c (fst (ratio_ratio r)) (snd (ratio_ratio r)) = Some cnt"
  shows "holds a xs \<Longrightarrow> \<exists>a'. pool_sizes_loop ratios c n a = Some a' \<and> holds a' (xs @ replicate n (ratio_type r, cnt))"
proof (induction n arbitrary: a xs)
  case (Suc n)
  obtain a1 where a1: "array_add a (ratio_type r, cnt) = Some a1" "holds a1 (xs @ [(ratio_type r, cnt)])"
    using array_add_holds [OF Suc.prems] by blast
  with Suc.IH [OF a1(2)] show ?case using assms by (simp add: holds_get)
qed simp

lemma create_pool_eq:
  assumes "holds ratios (r # rs)" and "f32_mul_u32 c (fst (ratio_ratio r)) (snd (ratio_ratio r)) = Some cnt"
    and "VD_MM_FRAME_ALLOCATOR k \<noteq> 0"
  shows "create_pool k d c ratios n v =
     (case vkCreateDescriptorPool k (dsa_device d) c (replicate n (ratio_type r, cnt)) v of
        (Some p, v') \<Rightarrow> Some (p, v') | (None, v') \<Rightarrow> None)"
proof -
  obtain a :: "(nat \<times> nat) darray" where a: "array_init (VD_MM_FRAME_ALLOCATOR k) = Some a" "holds a []"
    using array_init_holds [OF assms(3)] by blast
  obtain a' where "pool_sizes_loop ratios c n a = Some a'" "holds a' (replicate n (ratio_type r, cnt))"
    using pool_sizes_loop_eq [OF assms(1,2) a(2)] by auto
  then show ?thesis
    by (simp add: create_pool_def a array_read_holds split: prod.split option.split)
qed

text \<open>
  The invariant: the two lists and the pools \<open>ps\<close> that an operation has in its hands share no pool,
  and with the pools \<open>L\<close> of other owners they are the pools of the device; every pool that is not
  exhausted, except the one in use at the end of the list, is empty.
\<close>

definition ds_core ::
  "'v vk_descriptors \<Rightarrow> ('v \<Rightarrow> nat set) \<Rightarrow> ('v \<Rightarrow> nat set) \<Rightarrow> nat set
     \<Rightarrow> VD_DescriptorPoolSizeRatio \<Rightarrow> VD_DescriptorPoolSizeRatio list \<Rightarrow> VD_DescriptorAllocator \<Rightarrow> 'v
     \<Rightarrow> nat list \<Rightarrow> nat list \<Rightarrow> nat list \<Rightarrow> bool" where
  "ds_core k live fresh L r rs d v us fs ps \<longleftrightarrow>
     vk_driver k live fresh \<and> ratio_ok r \<and>
     holds (dsa_ratios d) (r # rs) \<and> holds (dsa_full_pools d) us \<and> holds (dsa_free_pools d) fs \<and>
     distinct (us @ fs @ ps) \<and> set (us @ fs @ ps) \<inter> L = {} \<and> live v = set (us @ fs @ ps) \<union> L \<and>
     0 < dsa_sets_per_pool d \<and> dsa_sets_per_pool d \<le> 2 ^ 22"

definition ds_inv ::
  "'v vk_descriptors \<Rightarrow> ('v \<Rightarrow> nat set) \<Rightarrow> ('v \<Rightarrow> nat set) \<Rightarrow> nat set
     \<Rightarrow> VD_DescriptorPoolSizeRatio \<Rightarrow> VD_DescriptorPoolSizeRatio list \<Rightarrow> VD_DescriptorAllocator \<Rightarrow> 'v
     \<Rightarrow> nat list \<Rightarrow> nat list \<Rightarrow> bool" where
  "ds_inv k live fresh L r rs d v us fs \<longleftrightarrow>
     ds_core k live fresh L r rs d v us fs [] \<and> set (butlast fs) \<subseteq> fresh v"

text \<open>The same while the pool \<open>p\<close> is out of both lists; the pools left are all empty.\<close>

definition ds_hold ::
  "'v vk_descriptors \<Rightarrow> ('v \<Rightarrow> nat set) \<Rightarrow> ('v \<Rightarrow> nat set) \<Rightarrow> nat set
     \<Rightarrow> VD_DescriptorPoolSizeRatio \<Rightarrow> VD_DescriptorPoolSizeRatio list \<Rightarrow> VD_DescriptorAllocator \<Rightarrow> 'v
     \<Rightarrow> nat list \<Rightarrow> nat list \<Rightarrow> nat \<Rightarrow> bool" where
  "ds_hold k live fresh L r rs d v us fs p \<longleftrightarrow>
     ds_core k live fresh L r rs d v us fs [p] \<and> set fs \<subseteq> fresh v"

text \<open>Creating a pool aborts only when the device fails.\<close>

lemma create_pool_spec:
  assumes "vk_driver k live fresh" and "ratio_ok r" and "holds ratios (r # rs)"
    and "0 < c" and "c \<le> 2 ^ 22"
  shows "(create_pool k d c ratios n v = None \<and> device_fails k live fresh ls (ratio_type r) n) \<or>
    (\<exists>p v'. create_pool k d c ratios n v = Some (p, v') \<and> p \<notin> live v \<and>
       live v' = insert p (live v) \<and> fresh v' = insert p (fresh v))"
proof -
  obtain cnt where cnt: "f32_mul_u32 c (fst (ratio_ratio r)) (snd (ratio_ratio r)) = Some cnt" "0 < cnt"
    using f32_mul_u32_pos [OF assms(4,5)] assms(2) unfolding ratio_ok_def by blast
  have fr: "VD_MM_FRAME_ALLOCATOR k \<noteq> 0" using vk_allocators [OF assms(1)] by simp
  obtain r' v' where c: "vkCreateDescriptorPool k (dsa_device d) c (replicate n (ratio_type r, cnt)) v = (r', v')"
    by fastforce
  note eq = create_pool_eq [OF assms(3) cnt(1) fr, of d n v, unfolded c, simplified]
  show ?thesis
  proof (cases r')
    case None
    then show ?thesis using fails_create [OF c [unfolded None] cnt(2), of live fresh ls] eq by simp
  next
    case (Some p)
    then show ?thesis using vk_create [OF assms(1) c [unfolded Some]] eq by simp
  qed
qed

lemma get_pool_spec:
  assumes "ds_inv k live fresh L r rs d v us fs"
  shows "(get_pool k d v = None \<and> device_fails k live fresh ls (ratio_type r) (Suc (length rs))) \<or>
    (\<exists>p d' v' fs'. get_pool k d v = Some (p, d', v') \<and>
      ds_hold k live fresh L r rs d' v' us fs' p \<and> (set fs \<subseteq> fresh v \<longrightarrow> p \<in> fresh v'))"
proof (cases "fs = []")
  case True
  have i: "vk_driver k live fresh" "ratio_ok r"
    "holds (dsa_ratios d) (r # rs)" "0 < dsa_sets_per_pool d" "dsa_sets_per_pool d \<le> 2 ^ 22"
    and h: "holds (dsa_free_pools d) []"
    using assms True by (simp_all add: ds_inv_def ds_core_def)
  have len: "array_len (dsa_free_pools d) = 0" "array_len (dsa_ratios d) = Suc (length rs)"
    using holds_len [OF h] holds_len [OF i(3)] by simp_all
  let ?n = "if 4092 < 3 * dsa_sets_per_pool d div 2 then 4092 else 3 * dsa_sets_per_pool d div 2"
  consider "create_pool k d (dsa_sets_per_pool d) (dsa_ratios d) (Suc (length rs)) v = None"
      "device_fails k live fresh ls (ratio_type r) (Suc (length rs))"
    | p v' where "create_pool k d (dsa_sets_per_pool d) (dsa_ratios d) (Suc (length rs)) v = Some (p, v')"
      "p \<notin> live v" "live v' = insert p (live v)" "fresh v' = insert p (fresh v)"
    using create_pool_spec [OF i, of d "Suc (length rs)" v ls] by metis
  then show ?thesis
  proof cases
    case 1
    then show ?thesis by (simp add: get_pool_def len)
  next
    case (2 p v')
    have "get_pool k d v = Some (p, d\<lparr>dsa_sets_per_pool := ?n\<rparr>, v')"
      by (simp add: get_pool_def len 2(1) grow_sets [OF i(4,5), simplified])
    moreover have "ds_hold k live fresh L r rs (d\<lparr>dsa_sets_per_pool := ?n\<rparr>) v' us [] p"
      using assms True 2(2-4) by (auto simp: ds_inv_def ds_hold_def ds_core_def)
    ultimately show ?thesis using 2(4) by blast
  qed
next
  case False
  have h: "holds (dsa_free_pools d) fs" using assms by (simp add: ds_inv_def ds_core_def)
  obtain a where a: "array_pop (dsa_free_pools d) = Some (last fs, a)" "holds a (butlast fs)"
    using array_pop_holds [OF h False] by blast
  obtain fs' p where fs: "fs = fs' @ [p]" using False by (meson rev_exhaust)
  have "get_pool k d v = Some (p, d\<lparr>dsa_free_pools := a\<rparr>, v)"
    using a(1) by (simp add: get_pool_def holds_len [OF h] fs)
  moreover have "ds_hold k live fresh L r rs (d\<lparr>dsa_free_pools := a\<rparr>) v us fs' p"
    using assms a(2) by (simp add: ds_inv_def ds_hold_def ds_core_def fs)
  ultimately show ?thesis unfolding fs by auto
qed

lemma ds_hold_release:
  assumes "ds_hold k live fresh L r rs d v us fs p"
  shows "\<exists>a. array_add (dsa_free_pools d) p = Some a \<and>
    ds_inv k live fresh L r rs (d\<lparr>dsa_free_pools := a\<rparr>) v us (fs @ [p])"
proof -
  obtain a where "array_add (dsa_free_pools d) p = Some a" "holds a (fs @ [p])"
    using assms array_add_holds [of "dsa_free_pools d" fs p] unfolding ds_hold_def ds_core_def by metis
  then show ?thesis using assms by (simp add: ds_hold_def ds_inv_def ds_core_def)
qed

lemma ds_hold_full:
  assumes "ds_hold k live fresh L r rs d v us fs p"
  shows "\<exists>a. array_add (dsa_full_pools d) p = Some a \<and>
    ds_inv k live fresh L r rs (d\<lparr>dsa_full_pools := a\<rparr>) v (us @ [p]) fs \<and> set fs \<subseteq> fresh v"
proof -
  obtain a where "array_add (dsa_full_pools d) p = Some a" "holds a (us @ [p])"
    using assms array_add_holds [of "dsa_full_pools d" us p] unfolding ds_hold_def ds_core_def by metis
  moreover have "set (butlast fs) \<subseteq> set fs" by (auto dest: in_set_butlastD)
  ultimately show ?thesis using assms by (auto simp: ds_hold_def ds_inv_def ds_core_def)
qed

lemma ds_hold_alloc:
  assumes "ds_hold k live fresh L r rs d v us fs p"
    and "vkAllocateDescriptorSets k (dsa_device d) p l pn v = (res, v')"
  shows "ds_hold k live fresh L r rs d v' us fs p" and "p \<in> live v"
proof -
  have drv: "vk_driver k live fresh" and p: "p \<in> live v"
    using assms(1) by (simp_all add: ds_hold_def ds_core_def)
  show "p \<in> live v" by (rule p)
  show "ds_hold k live fresh L r rs d v' us fs p"
    using assms(1) vk_allocate [OF drv p assms(2)] by (auto simp: ds_hold_def ds_core_def)
qed

section \<open>Allocation\<close>

text \<open>An allocation keeps the invariant whatever the device answers; that it aborts or returns an
  indeterminate set is due to the device.\<close>

lemma allocate_spec:
  assumes "ds_inv k live fresh L r rs d v us fs" and "l \<in> ls"
  shows "(vd_descriptor_allocator_allocate k d l pn v = None \<and>
      device_fails k live fresh ls (ratio_type r) (Suc (length rs))) \<or>
    (\<exists>s d' v' us' fs'. vd_descriptor_allocator_allocate k d l pn v = Some (s, d', v') \<and>
      ds_inv k live fresh L r rs d' v' us' fs' \<and>
      (s = None \<longrightarrow> device_fails k live fresh ls (ratio_type r) (Suc (length rs))))" (is "?none \<or> ?some")
proof -
  let ?F = "device_fails k live fresh ls (ratio_type r) (Suc (length rs))"
  note run = vd_descriptor_allocator_allocate_def
  consider "get_pool k d v = None" "?F"
    | p d1 v1 fs1 where "get_pool k d v = Some (p, d1, v1)" "ds_hold k live fresh L r rs d1 v1 us fs1 p"
    using get_pool_spec [OF assms(1), of ls] by metis
  then show ?thesis
  proof cases
    case 1
    then show ?thesis by (simp add: run)
  next
    case g: (2 p d1 v1 fs1)
    obtain res v2 where r: "vkAllocateDescriptorSets k (dsa_device d1) p l pn v1 = (res, v2)" by fastforce
    note h = ds_hold_alloc [OF g(2) r]
    show ?thesis
    proof (cases "res = VK_ERROR_OUT_OF_POOL_MEMORY \<or> res = VK_ERROR_FRAGMENTED_POOL")
      case False
      obtain a where a: "array_add (dsa_free_pools d1) p = Some a"
        "ds_inv k live fresh L r rs (d1\<lparr>dsa_free_pools := a\<rparr>) v2 us (fs1 @ [p])"
        using ds_hold_release [OF h(1)] by blast
      have "vd_descriptor_allocator_allocate k d l pn v =
          Some (case res of VK_SUCCESS ds \<Rightarrow> Some ds | _ \<Rightarrow> None, d1\<lparr>dsa_free_pools := a\<rparr>, v2)"
        using False by (simp add: run g(1) r a(1) Let_def)
      moreover have "?F" if "(case res of VK_SUCCESS ds \<Rightarrow> Some ds | _ \<Rightarrow> None) = (None :: nat option)"
      proof -
        have "res = VK_ERROR_OTHER" using that False by (cases res) auto
        with r have "vkAllocateDescriptorSets k (dsa_device d1) p l pn v1 = (VK_ERROR_OTHER, v2)" by simp
        then show ?thesis using h(2) assms(2) by (rule fails_other)
      qed
      ultimately show ?thesis using a(2) by (intro disjI2 exI conjI impI)
    next
      case full: True
      obtain a where a: "array_add (dsa_full_pools d1) p = Some a"
        "ds_inv k live fresh L r rs (d1\<lparr>dsa_full_pools := a\<rparr>) v2 (us @ [p]) fs1" "set fs1 \<subseteq> fresh v2"
        using ds_hold_full [OF h(1)] by blast
      consider "get_pool k (d1\<lparr>dsa_full_pools := a\<rparr>) v2 = None" "?F"
        | q d3 v3 fs3 where "get_pool k (d1\<lparr>dsa_full_pools := a\<rparr>) v2 = Some (q, d3, v3)"
          "ds_hold k live fresh L r rs d3 v3 (us @ [p]) fs3 q" "q \<in> fresh v3"
        using get_pool_spec [OF a(2), of ls] a(3) by metis
      then show ?thesis
      proof cases
        case 1
        then show ?thesis using full by (simp add: run g(1) r a(1) Let_def)
      next
        case q: (2 q d3 v3 fs3)
        obtain res' v4 where r': "vkAllocateDescriptorSets k (dsa_device d3) q l pn v3 = (res', v4)" by fastforce
        note h' = ds_hold_alloc [OF q(2) r']
        show ?thesis
        proof (cases "\<exists>s. res' = VK_SUCCESS s")
          case True
          then obtain s where s: "res' = VK_SUCCESS s" by blast
          obtain b where b: "array_add (dsa_free_pools d3) q = Some b"
            "ds_inv k live fresh L r rs (d3\<lparr>dsa_free_pools := b\<rparr>) v4 (us @ [p]) (fs3 @ [q])"
            using ds_hold_release [OF h'(1)] by blast
          have "vd_descriptor_allocator_allocate k d l pn v = Some (Some s, d3\<lparr>dsa_free_pools := b\<rparr>, v4)"
            using full by (simp add: run g(1) r a(1) q(1) r' s b(1) Let_def)
          then show ?thesis using b(2) by blast
        next
          case False
          then have "\<forall>s. res' \<noteq> VK_SUCCESS s" by simp
          with r' have "?F" using h'(2) q(3) assms(2) by (rule fails_fresh)
          moreover have "vd_descriptor_allocator_allocate k d l pn v = None"
            using full False by (cases res') (auto simp: run g(1) r a(1) q(1) r' Let_def)
          ultimately show ?thesis by simp
        qed
      qed
    qed
  qed
qed


section \<open>Reset and release\<close>

lemma reset_all:
  "vk_driver k live fresh \<Longrightarrow> set ps \<subseteq> live v \<Longrightarrow>
     \<exists>v'. run_ops (\<lambda>p v. Some (vkResetDescriptorPool k dev p v)) ps v = Some v' \<and>
       live v' = live v \<and> fresh v' = set ps \<union> fresh v"
proof (induction ps arbitrary: v)
  case (Cons p ps)
  note r = vk_reset [OF Cons.prems(1), of p v dev]
  have "set ps \<subseteq> live (vkResetDescriptorPool k dev p v)" using r Cons.prems(2) by simp
  from Cons.IH [OF Cons.prems(1) this] show ?case using r Cons.prems(2) by auto
qed simp

lemma reset_all_add:
  "vk_driver k live fresh \<Longrightarrow> set ps \<subseteq> live v \<Longrightarrow> holds a xs \<Longrightarrow>
     \<exists>a' v'. run_ops (\<lambda>p (a, v). do { a' \<leftarrow> array_add a p; Some (a', vkResetDescriptorPool k dev p v) }) ps (a, v)
         = Some (a', v') \<and>
       holds a' (xs @ ps) \<and> live v' = live v \<and> fresh v' = set ps \<union> fresh v"
proof (induction ps arbitrary: a xs v)
  case (Cons p ps)
  note r = vk_reset [OF Cons.prems(1), of p v dev]
  obtain a1 where a1: "array_add a p = Some a1" "holds a1 (xs @ [p])"
    using array_add_holds [OF Cons.prems(3)] by blast
  have "set ps \<subseteq> live (vkResetDescriptorPool k dev p v)" using r Cons.prems(2) by simp
  from Cons.IH [OF Cons.prems(1) this a1(2)] show ?case using r Cons.prems(2) a1(1) by auto
qed simp

lemma destroy_all:
  "vk_driver k live fresh \<Longrightarrow> set ps \<subseteq> live v \<Longrightarrow> distinct ps \<Longrightarrow>
     \<exists>v'. run_ops (\<lambda>p v. Some (vkDestroyDescriptorPool k dev p v)) ps v = Some v' \<and> live v' = live v - set ps"
proof (induction ps arbitrary: v)
  case (Cons p ps)
  have d: "live (vkDestroyDescriptorPool k dev p v) = live v - {p}"
    using vk_destroy [OF Cons.prems(1)] Cons.prems(2) by simp
  have "set ps \<subseteq> live (vkDestroyDescriptorPool k dev p v)" "distinct ps" using d Cons.prems(2,3) by auto
  from Cons.IH [OF Cons.prems(1) this] d show ?case by auto
qed simp

lemma clear_spec:
  assumes "ds_inv k live fresh L r rs d v us fs"
  shows "\<exists>d' v'. vd_descriptor_allocator_clear k d v = Some (d', v') \<and>
    ds_inv k live fresh L r rs d' v' [] (fs @ us)"
proof -
  have drv: "vk_driver k live fresh"
    and f: "holds (dsa_free_pools d) fs" and u: "holds (dsa_full_pools d) us"
    and l: "set fs \<subseteq> live v" "set us \<subseteq> live v"
    using assms unfolding ds_inv_def ds_core_def by auto
  obtain v1 where v1: "run_ops (\<lambda>p v. Some (vkResetDescriptorPool k (dsa_device d) p v)) fs v = Some v1"
    "live v1 = live v" "fresh v1 = set fs \<union> fresh v"
    using reset_all [OF drv l(1)] by blast
  have l': "set us \<subseteq> live v1" using l(2) v1(2) by simp
  obtain a v2 where v2:
    "run_ops (\<lambda>p (a, v). do { a' \<leftarrow> array_add a p; Some (a', vkResetDescriptorPool k (dsa_device d) p v) })
       us (dsa_free_pools d, v1) = Some (a, v2)"
    "holds a (fs @ us)" "live v2 = live v1" "fresh v2 = set us \<union> fresh v1"
    using reset_all_add [OF drv l' f] by blast
  obtain b where b: "array_clear (dsa_full_pools d) = Some b" "holds b []"
    using array_clear_holds [OF u] by blast
  have "vd_descriptor_allocator_clear k d v
      = Some (d\<lparr>dsa_free_pools := a, dsa_full_pools := b\<rparr>, v2)"
    by (simp add: vd_descriptor_allocator_clear_def array_each_holds [OF f] array_each_holds [OF u] v1(1) v2(1) b(1))
  moreover have "ds_inv k live fresh L r rs (d\<lparr>dsa_free_pools := a, dsa_full_pools := b\<rparr>) v2 [] (fs @ us)"
    using assms v1(2,3) v2(2-4) b(2)
    by (auto simp: ds_inv_def ds_core_def butlast_append dest: in_set_butlastD)
  ultimately show ?thesis by blast
qed

lemma deinit_spec:
  assumes "ds_inv k live fresh L r rs d v us fs"
  shows "\<exists>v'. vd_descriptor_allocator_deinit k d v = Some v' \<and> live v' = L"
proof -
  have drv: "vk_driver k live fresh"
    and f: "holds (dsa_free_pools d) fs" and u: "holds (dsa_full_pools d) us"
    and l: "live v = set us \<union> set fs \<union> L" "distinct us" "distinct fs" "set us \<inter> set fs = {}"
      "(set us \<union> set fs) \<inter> L = {}"
    using assms by (simp_all add: ds_inv_def ds_core_def)
  have lf: "set fs \<subseteq> live v" using l(1) by auto
  obtain v1 where v1: "run_ops (\<lambda>p v. Some (vkDestroyDescriptorPool k (dsa_device d) p v)) fs v = Some v1"
    "live v1 = live v - set fs"
    using destroy_all [OF drv lf l(3)] by blast
  have lu: "set us \<subseteq> live v1" using l v1(2) by auto
  obtain v2 where v2: "run_ops (\<lambda>p v. Some (vkDestroyDescriptorPool k (dsa_device d) p v)) us v1 = Some v2"
    "live v2 = live v1 - set us"
    using destroy_all [OF drv lu l(2)] by blast
  have "live v2 = L" using v1(2) v2(2) l by auto
  then show ?thesis
    by (simp add: vd_descriptor_allocator_deinit_def array_each_holds [OF f] array_each_holds [OF u] v1(1) v2(1))
qed

lemma init_spec:
  assumes "vk_driver k live fresh" and "ratio_ok r"
    and "0 < initial_sets" and "initial_sets \<le> 2 ^ 21"
  shows "(vd_descriptor_allocator_init k device initial_sets (r # rs) v = None \<and>
      device_fails k live fresh ls (ratio_type r) (Suc (length rs))) \<or>
    (\<exists>d v' p. vd_descriptor_allocator_init k device initial_sets (r # rs) v = Some (d, v') \<and>
      ds_inv k live fresh (live v) r rs d v' [] [p])"
proof -
  have g: "VD_MM_GLOBAL_ALLOCATOR k \<noteq> 0" using vk_allocators [OF assms(1)] by simp
  obtain a :: "VD_DescriptorPoolSizeRatio darray" where a: "array_init (VD_MM_GLOBAL_ALLOCATOR k) = Some a" "holds a []"
    using array_init_holds [OF g] by blast
  obtain b :: "nat darray" where b: "array_init (VD_MM_GLOBAL_ALLOCATOR k) = Some b" "holds b []"
    using array_init_holds [OF g] by blast
  obtain a' where a': "run_ops (\<lambda>r a. array_add a r) (r # rs) a = Some a'" "holds a' (r # rs)"
    using arr.snoc_all [OF a(2), of "r # rs"] by auto
  have c: "initial_sets \<le> 2 ^ 22" using assms(4) by simp
  let ?d = "\<lparr>dsa_device = device, dsa_ratios = a', dsa_full_pools = b, dsa_free_pools = b,
    dsa_sets_per_pool = 3 * initial_sets div 2\<rparr>"
  have init: "vd_descriptor_allocator_init k device initial_sets (r # rs) v =
      do { (new_pool, v') \<leftarrow> create_pool k ?d initial_sets a' (Suc (length rs)) v;
           free_pools \<leftarrow> array_add b new_pool; Some (?d\<lparr>dsa_free_pools := free_pools\<rparr>, v') }"
    using a'(1) holds_len [OF a'(2)]
    by (simp add: vd_descriptor_allocator_init_def a(1) b(1) grow_sets [OF assms(3) c, simplified]
      del: run_ops.simps)
  consider "create_pool k ?d initial_sets a' (Suc (length rs)) v = None"
      "device_fails k live fresh ls (ratio_type r) (Suc (length rs))"
    | p v' where "create_pool k ?d initial_sets a' (Suc (length rs)) v = Some (p, v')"
      "p \<notin> live v" "live v' = insert p (live v)"
    using create_pool_spec [OF assms(1,2) a'(2) assms(3) c, of ?d "Suc (length rs)" v ls] by metis
  then show ?thesis
  proof cases
    case 1
    then show ?thesis by (simp add: init)
  next
    case p: (2 p v')
    obtain f where f: "array_add b p = Some f" "holds f [p]" using array_add_holds [OF b(2)] by auto
    have "ds_inv k live fresh (live v) r rs (?d\<lparr>dsa_free_pools := f\<rparr>) v' [] [p]"
      using assms a'(2) b(2) f(2) p(2,3) by (auto simp: ds_inv_def ds_core_def)
    moreover have "vd_descriptor_allocator_init k device initial_sets (r # rs) v = Some (?d\<lparr>dsa_free_pools := f\<rparr>, v')"
      by (simp add: init p(1) f(1))
    ultimately show ?thesis by blast
  qed
qed

section \<open>Runs\<close>

datatype ds_cmd = Allocate nat nat | Clear

text \<open>A run collects the descriptor sets that the allocations returned; \<open>None\<close> is the indeterminate
  one.\<close>

fun ds_op :: "'v vk_descriptors \<Rightarrow> ds_cmd \<Rightarrow> VD_DescriptorAllocator \<times> 'v \<times> nat option list
    \<Rightarrow> (VD_DescriptorAllocator \<times> 'v \<times> nat option list) option" where
  "ds_op k (Allocate l pn) (d, v, sets) =
     do { (s, d', v') \<leftarrow> vd_descriptor_allocator_allocate k d l pn v; Some (d', v', sets @ [s]) }"
| "ds_op k Clear (d, v, sets) = do { (d', v') \<leftarrow> vd_descriptor_allocator_clear k d v; Some (d', v', sets) }"

fun ds_layouts :: "ds_cmd \<Rightarrow> nat set" where
  "ds_layouts (Allocate l pn) = {l}"
| "ds_layouts Clear = {}"

lemma ds_op_spec:
  assumes "ds_inv k live fresh L r rs d v us fs" and "ds_layouts c \<subseteq> ls"
  shows "(ds_op k c (d, v, sets) = None \<and> device_fails k live fresh ls (ratio_type r) (Suc (length rs))) \<or>
    (\<exists>d' v' sets' us' fs'. ds_op k c (d, v, sets) = Some (d', v', sets') \<and>
      ds_inv k live fresh L r rs d' v' us' fs' \<and>
      (None \<in> set sets' \<longrightarrow> None \<in> set sets \<or> device_fails k live fresh ls (ratio_type r) (Suc (length rs))))"
proof (cases c)
  case (Allocate l pn)
  then have "l \<in> ls" using assms(2) by simp
  from allocate_spec [OF assms(1) this, of pn] show ?thesis unfolding Allocate by fastforce
next
  case Clear
  then show ?thesis using clear_spec [OF assms(1)] by fastforce
qed

text \<open>The state of a run: the invariant, and every set is one the device returned unless it fails.\<close>

definition ds_state ::
  "'v vk_descriptors \<Rightarrow> ('v \<Rightarrow> nat set) \<Rightarrow> ('v \<Rightarrow> nat set) \<Rightarrow> nat set \<Rightarrow> nat set
     \<Rightarrow> VD_DescriptorPoolSizeRatio \<Rightarrow> VD_DescriptorPoolSizeRatio list
     \<Rightarrow> VD_DescriptorAllocator \<times> 'v \<times> nat option list \<Rightarrow> bool" where
  "ds_state k live fresh ls L r rs = (\<lambda>(d, v, sets). (\<exists>us fs. ds_inv k live fresh L r rs d v us fs) \<and>
     (None \<in> set sets \<longrightarrow> device_fails k live fresh ls (ratio_type r) (Suc (length rs))))"

lemma ds_op_state:
  assumes "ds_state k live fresh ls L r rs s" and "ds_layouts c \<subseteq> ls"
  shows "case ds_op k c s of Some t \<Rightarrow> ds_state k live fresh ls L r rs t
    | None \<Rightarrow> device_fails k live fresh ls (ratio_type r) (Suc (length rs))"
proof -
  obtain d v sets us fs where s: "s = (d, v, sets)" "ds_inv k live fresh L r rs d v us fs"
    "None \<in> set sets \<longrightarrow> device_fails k live fresh ls (ratio_type r) (Suc (length rs))"
    using assms(1) by (cases s) (auto simp: ds_state_def)
  from ds_op_spec [OF s(2) assms(2), of sets] s(3) show ?thesis
    unfolding s(1) ds_state_def by (elim disjE exE conjE) auto
qed

interpretation ds: op_invariant "ds_op k" "\<lambda>c. ds_layouts c \<subseteq> ls" "ds_state k live fresh ls L r rs"
  for k live fresh ls L r rs
  by unfold_locales (use ds_op_state in fastforce)

text \<open>With a device that does not fail, no command aborts.\<close>

interpretation ds_ok: op_total "ds_op k" "\<lambda>c. ds_layouts c \<subseteq> ls"
  "\<lambda>s. ds_state k live fresh ls L r rs s \<and> \<not> device_fails k live fresh ls (ratio_type r) (Suc (length rs))"
  for k live fresh ls L r rs
proof
  show "\<exists>t. ds_op k c s = Some t"
    if "ds_state k live fresh ls L r rs s \<and> \<not> device_fails k live fresh ls (ratio_type r) (Suc (length rs))"
      "ds_layouts c \<subseteq> ls" for s c
    using ds_op_state [of k live fresh ls L r rs s c] that by (cases "ds_op k c s") auto
qed (use ds_op_state in fastforce)

definition ds_session ::
  "'v vk_descriptors \<Rightarrow> nat \<Rightarrow> nat \<Rightarrow> VD_DescriptorPoolSizeRatio list \<Rightarrow> ds_cmd list \<Rightarrow> 'v
     \<Rightarrow> (VD_DescriptorAllocator \<times> 'v \<times> nat option list) option" where
  "ds_session k device initial_sets rs cs v =
     do { (d, v0) \<leftarrow> vd_descriptor_allocator_init k device initial_sets rs v; run_ops (ds_op k) cs (d, v0, []) }"

text \<open>C8. Whatever the device answers to the calls of an initialisation and of any sequence of
  allocations and resets, a run that does not abort can be released, and the release destroys
  exactly the pools that the allocator created, each of them once. The run only aborts, or returns
  a set that was never written, because of the device: it fails to create a pool, or it fails one
  of the allocations for another reason than a full pool, or even from an empty pool. The pools of
  the program all have the type of the first ratio only, so that the last happens for the layouts
  that need descriptors of other types.\<close>

theorem vd_descriptor_allocator_run:
  assumes "vk_driver k live fresh" and "ratio_ok r"
    and "0 < initial_sets" and "initial_sets \<le> 2 ^ 21"
  shows "case ds_session k device initial_sets (r # rs) cs v of
      Some (d, v1, sets) \<Rightarrow>
        (\<exists>v2. vd_descriptor_allocator_deinit k d v1 = Some v2 \<and> live v2 = live v) \<and>
        (None \<notin> set sets \<or>
         device_fails k live fresh (\<Union>c \<in> set cs. ds_layouts c) (ratio_type r) (Suc (length rs)))
    | None \<Rightarrow> device_fails k live fresh (\<Union>c \<in> set cs. ds_layouts c) (ratio_type r) (Suc (length rs))"
proof -
  let ?ls = "\<Union>c \<in> set cs. ds_layouts c" and ?i = "vd_descriptor_allocator_init k device initial_sets (r # rs) v"
  let ?F = "device_fails k live fresh ?ls (ratio_type r) (Suc (length rs))"
  let ?S = "ds_state k live fresh ?ls (live v) r rs"
  have cs: "list_all (\<lambda>c. ds_layouts c \<subseteq> ?ls) cs" by (auto simp: list_all_iff)
  consider "?i = None" "?F" | d v0 p where "?i = Some (d, v0)" "ds_inv k live fresh (live v) r rs d v0 [] [p]"
    using init_spec [OF assms, of device rs v ?ls] by metis
  then show ?thesis
  proof cases
    case 1
    then show ?thesis by (simp add: ds_session_def)
  next
    case i: (2 d v0 p)
    then have s: "?S (d, v0, [])" by (auto simp: ds_state_def)
    have run: "ds_session k device initial_sets (r # rs) cs v = run_ops (ds_op k) cs (d, v0, [])"
      by (simp add: ds_session_def i(1))
    show ?thesis
    proof (cases "run_ops (ds_op k) cs (d, v0, [])")
      case None
      then have "?F" using ds_ok.run_defined [OF cs, of k live fresh "live v" r rs "(d, v0, [])"] s by auto
      then show ?thesis by (simp add: run None)
    next
      case (Some t)
      then have "?S t" using ds.run_inv [OF cs s] by simp
      then show ?thesis
        using deinit_spec by (cases t) (fastforce simp: run Some ds_state_def)
    qed
  qed
qed


text \<open>A device whose pools have room for one set each of layout 1; from other layouts it only has
  errors.\<close>

definition demo_device :: "(nat list \<times> nat list) vk_descriptors" where
  "demo_device = \<lparr>VD_MM_FRAME_ALLOCATOR = 1, VD_MM_GLOBAL_ALLOCATOR = 2,
     vkCreateDescriptorPool = (\<lambda>d c sizes (l, e). (Some (Suc (sum_list l)), (Suc (sum_list l) # l, Suc (sum_list l) # e))),
     vkAllocateDescriptorSets = (\<lambda>d p lay pn (l, e).
       if lay = 1 \<and> p \<in> set e then (VK_SUCCESS p, (l, filter (\<lambda>q. q \<noteq> p) e))
       else (VK_ERROR_OUT_OF_POOL_MEMORY, (l, e))),
     vkResetDescriptorPool = (\<lambda>d p (l, e). (l, p # e)),
     vkDestroyDescriptorPool = (\<lambda>d p (l, e). (filter (\<lambda>q. q \<noteq> p) l, e)),
     vkUpdateDescriptorSets = (\<lambda>d ws v. v)\<rparr>"

lemma sum_list_fresh: "Suc (sum_list l) \<notin> set (l :: nat list)"
  using member_le_sum_list [of "Suc (sum_list l)" l] by auto

lemma demo_device_driver: "vk_driver demo_device (\<lambda>v. set (fst v)) (\<lambda>v. set (snd v))"
  by (auto simp: vk_driver_def demo_device_def sum_list_fresh split: if_splits)

lemma demo_device_ok: "\<not> device_fails demo_device (\<lambda>v. set (fst v)) (\<lambda>v. set (snd v)) {1} t n"
  by (auto simp: device_fails_def demo_device_def split: if_splits)

theorem vd_descriptor_allocator_run_witness:
  "\<exists>d v1 sets v2.
    ds_session demo_device 9 10
      [\<lparr>ratio_type = 6, ratio_ratio = (3, 0)\<rparr>, \<lparr>ratio_type = 1, ratio_ratio = (4, 0)\<rparr>]
      [Allocate 1 0, Allocate 1 0, Clear, Allocate 1 0, Allocate 1 0, Allocate 1 0] ([], []) = Some (d, v1, sets) \<and>
    None \<notin> set sets \<and> vd_descriptor_allocator_deinit demo_device d v1 = Some v2 \<and> fst v2 = []"
proof -
  let ?r = "\<lparr>ratio_type = 6, ratio_ratio = (3, 0)\<rparr>"
  let ?cs = "[Allocate 1 0, Allocate 1 0, Clear, Allocate 1 0, Allocate 1 0, Allocate 1 0]"
  have "(\<Union>c \<in> set ?cs. ds_layouts c) = {1}" by simp
  then show ?thesis
    using vd_descriptor_allocator_run [OF demo_device_driver, where r = ?r and initial_sets = 10 and device = 9
        and rs = "[\<lparr>ratio_type = 1, ratio_ratio = (4, 0)\<rparr>]" and cs = ?cs and v = "([], [])"] demo_device_ok
    by (auto simp: ratio_ok_def split: option.splits)
qed

text \<open>The second ratio plays no part: every entry of the new pool has the type of the first one.\<close>

lemma create_pool_first_ratio:
  assumes "holds ratios (r # rs)" and "ratio_ok r" and "0 < c" and "c \<le> 2 ^ 22"
    and "VD_MM_FRAME_ALLOCATOR k \<noteq> 0" and "create_pool k d c ratios (Suc (length rs)) v = Some (p, v')"
  shows "\<exists>sizes. vkCreateDescriptorPool k (dsa_device d) c sizes v = (Some p, v') \<and>
    length sizes = Suc (length rs) \<and> fst ` set sizes = {ratio_type r}"
proof -
  obtain cnt where cnt: "f32_mul_u32 c (fst (ratio_ratio r)) (snd (ratio_ratio r)) = Some cnt"
    using f32_mul_u32_pos [OF assms(3,4)] assms(2) unfolding ratio_ok_def by blast
  show ?thesis
    using assms(6) unfolding create_pool_eq [OF assms(1) cnt assms(5)]
    by (intro exI [of _ "replicate (Suc (length rs)) (ratio_type r, cnt)"]) (auto split: prod.splits option.splits)
qed

section \<open>Writing descriptor sets\<close>

lemma writes_loop_spec:
  "da_len h \<le> da_cap h \<Longrightarrow> length (da_slots h) = da_cap h \<Longrightarrow> da_allocator h \<noteq> 0 \<Longrightarrow> i + n = da_len h \<Longrightarrow>
     da_len h \<le> length es \<Longrightarrow> take i (da_slots h) = map (\<lambda>e. Some (write_of s e)) (take i es) \<Longrightarrow>
     \<exists>a. writes_loop s es i n (Some h) = Some a \<and> holds a (map (write_of s) (take (da_len h) es))"
proof (induction n arbitrary: i h)
  case 0
  then show ?case by (simp add: holds_def)
next
  case (Suc n)
  let ?h = "h\<lparr>da_slots := (da_slots h)[i := Some (write_of s (es ! i))]\<rparr>"
  have "take (Suc i) (da_slots ?h) = map (\<lambda>e. Some (write_of s e)) (take (Suc i) es)"
    using Suc.prems by (simp add: take_Suc_update take_Suc_conv_app_nth)
  then have "\<exists>a. writes_loop s es (Suc i) n (Some ?h) = Some a \<and> holds a (map (write_of s) (take (da_len ?h) es))"
    using Suc.prems by (intro Suc.IH) simp_all
  then show ?case using Suc.prems by (simp add: array_set_def)
qed

text \<open>Writing descriptor sets updates the device once, with one write for each entry in order, which
  points to the entry as what its tag says.\<close>

theorem vd_r_write_descriptor_sets_correct:
  assumes "allocator \<noteq> 0" and "n \<le> length es"
  shows "vd_r_write_descriptor_sets k s device es n allocator v
    = Some (vkUpdateDescriptorSets k device (map (write_of s) (take n es)) v)"
proof -
  obtain a0 :: "VkWriteDescriptorSet darray" where a0: "array_init allocator = Some a0" "holds a0 []"
    using array_init_holds [OF assms(1)] by blast
  obtain h where h: "array_check_grow a0 n = Some (Some h)" "holds (Some h) []" "n \<le> da_cap h"
    using check_grow_holds [OF a0(2), of n] by auto
  obtain a where "writes_loop s es 0 n (Some (h\<lparr>da_len := n\<rparr>)) = Some a" "holds a (map (write_of s) (take n es))"
    using writes_loop_spec [of "h\<lparr>da_len := n\<rparr>" 0 n es s] h(2,3) assms(2) by (auto simp: holds_def)
  then show ?thesis
    using h(1,2) by (simp add: vd_r_write_descriptor_sets_def a0(1) array_addn_def holds_def [of "Some h"] array_read_holds)
qed

theorem vd_r_write_descriptor_sets_correct_witness:
  "vd_r_write_descriptor_sets demo_device 5 9
     [\<lparr>entry_binding = 0, entry_type = VD_R_DESCRIPTOR_SET_ENTRY_BUFFER, entry_t = 6, entry_info = 100\<rparr>,
      \<lparr>entry_binding = 1, entry_type = VD_R_DESCRIPTOR_SET_ENTRY_IMAGE, entry_t = 1, entry_info = 200\<rparr>] 2 1 ([], [])
   = Some (vkUpdateDescriptorSets demo_device 9
       (map (write_of 5) (take 2
         [\<lparr>entry_binding = 0, entry_type = VD_R_DESCRIPTOR_SET_ENTRY_BUFFER, entry_t = 6, entry_info = 100\<rparr>,
          \<lparr>entry_binding = 1, entry_type = VD_R_DESCRIPTOR_SET_ENTRY_IMAGE, entry_t = 1, entry_info = 200\<rparr>])) ([], []))"
  by (rule vd_r_write_descriptor_sets_correct) simp_all

end
