(* ===== verification/Deletion.thy ===== *)
theory Deletion
  imports Dynarray "HOL-Library.Multiset"
begin

text \<open>
  The deletion queue of ng/src/r/deletion_queue.c: GPU objects are pushed on one list for each kind and
  destroyed together by a flush. The functions that destroy an object belong to the renderer and to
  Vulkan; they are parameters (\<open>dq_device\<close>) on a state \<open>'v\<close>. Handles are numbers.
\<close>

section \<open>Definitions\<close>

record VD_DeletionQueuePipelineAndLayout =
  pl_pipeline :: nat
  pl_layout :: nat

record VD_R_GPUMesh =
  mesh_vertex :: nat
  mesh_index :: nat

record VD_DeletionQueue =
  dq_images :: "nat darray"
  dq_pipeline_and_layouts :: "VD_DeletionQueuePipelineAndLayout darray"
  dq_meshes :: "VD_R_GPUMesh darray"
  dq_buffers :: "nat darray"
  dq_allocated_images :: "nat darray"
  dq_allocator :: nat

record 'v dq_device =
  vd_renderer_destroy_texture :: "nat \<Rightarrow> 'v \<Rightarrow> 'v"
  vd_renderer_destroy_buffer :: "nat \<Rightarrow> 'v \<Rightarrow> 'v"
  vkDestroyPipelineLayout :: "nat \<Rightarrow> 'v \<Rightarrow> 'v"
  vkDestroyPipeline :: "nat \<Rightarrow> 'v \<Rightarrow> 'v"
  vkDestroyImage :: "nat \<Rightarrow> 'v \<Rightarrow> 'v"

definition vd_deletion_queue_init :: "nat \<Rightarrow> VD_DeletionQueue option" where
  "vd_deletion_queue_init allocator =
     do { images \<leftarrow> array_init allocator;
          pipeline_and_layouts \<leftarrow> array_init allocator;
          meshes \<leftarrow> array_init allocator;
          buffers \<leftarrow> array_init allocator;
          allocated_images \<leftarrow> array_init allocator;
          Some \<lparr>dq_images = images, dq_pipeline_and_layouts = pipeline_and_layouts, dq_meshes = meshes,
                dq_buffers = buffers, dq_allocated_images = allocated_images, dq_allocator = allocator\<rparr> }"

definition vd_deletion_queue_push_pipeline_and_layout ::
  "VD_DeletionQueue \<Rightarrow> nat \<Rightarrow> nat \<Rightarrow> VD_DeletionQueue option" where
  "vd_deletion_queue_push_pipeline_and_layout dq pipeline layout =
     do { a \<leftarrow> array_add (dq_pipeline_and_layouts dq) \<lparr>pl_pipeline = pipeline, pl_layout = layout\<rparr>;
          Some (dq\<lparr>dq_pipeline_and_layouts := a\<rparr>) }"

definition vd_deletion_queue_push_vkimage :: "VD_DeletionQueue \<Rightarrow> nat \<Rightarrow> VD_DeletionQueue option" where
  "vd_deletion_queue_push_vkimage dq img =
     do { a \<leftarrow> array_add (dq_images dq) img; Some (dq\<lparr>dq_images := a\<rparr>) }"

definition vd_deletion_queue_push_image :: "VD_DeletionQueue \<Rightarrow> nat \<Rightarrow> VD_DeletionQueue option" where
  "vd_deletion_queue_push_image dq img =
     do { a \<leftarrow> array_add (dq_allocated_images dq) img; Some (dq\<lparr>dq_allocated_images := a\<rparr>) }"

definition vd_deletion_queue_push_gpumesh :: "VD_DeletionQueue \<Rightarrow> VD_R_GPUMesh \<Rightarrow> VD_DeletionQueue option" where
  "vd_deletion_queue_push_gpumesh dq mesh =
     do { a \<leftarrow> array_add (dq_meshes dq) mesh; Some (dq\<lparr>dq_meshes := a\<rparr>) }"

definition vd_deletion_queue_push_buffer :: "VD_DeletionQueue \<Rightarrow> nat \<Rightarrow> VD_DeletionQueue option" where
  "vd_deletion_queue_push_buffer dq buffer =
     do { a \<leftarrow> array_add (dq_buffers dq) buffer; Some (dq\<lparr>dq_buffers := a\<rparr>) }"

definition array_for :: "('a \<Rightarrow> 'v \<Rightarrow> 'v) \<Rightarrow> 'a darray \<Rightarrow> 'v \<Rightarrow> 'v option" where
  "array_for f a v = array_each (\<lambda>x v. Some (f x v)) a 0 (array_len a) v"

definition vd_deletion_queue_flush :: "'v dq_device \<Rightarrow> VD_DeletionQueue \<Rightarrow> 'v \<Rightarrow> (VD_DeletionQueue \<times> 'v) option" where
  "vd_deletion_queue_flush r dq v =
     do { v1 \<leftarrow> array_for (vd_renderer_destroy_texture r) (dq_allocated_images dq) v;
          v2 \<leftarrow> array_for (vd_renderer_destroy_buffer r) (dq_buffers dq) v1;
          buffers \<leftarrow> array_clear (dq_buffers dq);
          v3 \<leftarrow> array_for (\<lambda>m v. vd_renderer_destroy_buffer r (mesh_vertex m) (vd_renderer_destroy_buffer r (mesh_index m) v))
                 (dq_meshes dq) v2;
          meshes \<leftarrow> array_clear (dq_meshes dq);
          v4 \<leftarrow> array_for (\<lambda>p v. vkDestroyPipeline r (pl_pipeline p) (vkDestroyPipelineLayout r (pl_layout p) v))
                 (dq_pipeline_and_layouts dq) v3;
          pipeline_and_layouts \<leftarrow> array_clear (dq_pipeline_and_layouts dq);
          v5 \<leftarrow> array_for (vkDestroyImage r) (dq_images dq) v4;
          images \<leftarrow> array_clear (dq_images dq);
          Some (dq\<lparr>dq_buffers := buffers, dq_meshes := meshes, dq_pipeline_and_layouts := pipeline_and_layouts,
                   dq_images := images\<rparr>, v5) }"

definition vd_deletion_queue_deinit :: "'v dq_device \<Rightarrow> VD_DeletionQueue \<Rightarrow> 'v \<Rightarrow> (VD_DeletionQueue \<times> 'v) option" where
  "vd_deletion_queue_deinit r dq v = vd_deletion_queue_flush r dq v"

section \<open>The queue as lists\<close>

record dq_abs =
  abs_images :: "nat list"
  abs_pipelines :: "VD_DeletionQueuePipelineAndLayout list"
  abs_meshes :: "VD_R_GPUMesh list"
  abs_buffers :: "nat list"
  abs_textures :: "nat list"

definition dq_holds :: "VD_DeletionQueue \<Rightarrow> dq_abs \<Rightarrow> bool" where
  "dq_holds dq q \<longleftrightarrow> holds (dq_images dq) (abs_images q) \<and> holds (dq_pipeline_and_layouts dq) (abs_pipelines q) \<and>
     holds (dq_meshes dq) (abs_meshes q) \<and> holds (dq_buffers dq) (abs_buffers q) \<and>
     holds (dq_allocated_images dq) (abs_textures q)"

datatype dq_push =
  Push_Pipeline nat nat | Push_VkImage nat | Push_Image nat | Push_Mesh VD_R_GPUMesh | Push_Buffer nat

fun dq_op :: "dq_push \<Rightarrow> VD_DeletionQueue \<Rightarrow> VD_DeletionQueue option" where
  "dq_op (Push_Pipeline p l) dq = vd_deletion_queue_push_pipeline_and_layout dq p l"
| "dq_op (Push_VkImage i) dq = vd_deletion_queue_push_vkimage dq i"
| "dq_op (Push_Image i) dq = vd_deletion_queue_push_image dq i"
| "dq_op (Push_Mesh m) dq = vd_deletion_queue_push_gpumesh dq m"
| "dq_op (Push_Buffer b) dq = vd_deletion_queue_push_buffer dq b"

fun dq_abs_op :: "dq_push \<Rightarrow> dq_abs \<Rightarrow> dq_abs" where
  "dq_abs_op (Push_Pipeline p l) q = q\<lparr>abs_pipelines := abs_pipelines q @ [\<lparr>pl_pipeline = p, pl_layout = l\<rparr>]\<rparr>"
| "dq_abs_op (Push_VkImage i) q = q\<lparr>abs_images := abs_images q @ [i]\<rparr>"
| "dq_abs_op (Push_Image i) q = q\<lparr>abs_textures := abs_textures q @ [i]\<rparr>"
| "dq_abs_op (Push_Mesh m) q = q\<lparr>abs_meshes := abs_meshes q @ [m]\<rparr>"
| "dq_abs_op (Push_Buffer b) q = q\<lparr>abs_buffers := abs_buffers q @ [b]\<rparr>"

definition dq_empty :: dq_abs where
  "dq_empty = \<lparr>abs_images = [], abs_pipelines = [], abs_meshes = [], abs_buffers = [], abs_textures = []\<rparr>"

lemma array_for_holds: "holds a xs \<Longrightarrow> array_for f a v = Some (fold f xs v)"
proof -
  have "run_ops (\<lambda>x v. Some (f x v)) xs v = Some (fold f xs v)" by (induction xs arbitrary: v) simp_all
  then show "holds a xs \<Longrightarrow> array_for f a v = Some (fold f xs v)"
    by (simp add: array_for_def array_each_holds)
qed

lemma dq_init_holds:
  assumes "allocator \<noteq> 0"
  shows "\<exists>dq. vd_deletion_queue_init allocator = Some dq \<and> dq_holds dq dq_empty"
proof -
  obtain a1 :: "nat darray" where a1: "array_init allocator = Some a1" "holds a1 []"
    using array_init_holds [OF assms] by blast
  obtain a2 :: "VD_DeletionQueuePipelineAndLayout darray" where a2: "array_init allocator = Some a2" "holds a2 []"
    using array_init_holds [OF assms] by blast
  obtain a3 :: "VD_R_GPUMesh darray" where a3: "array_init allocator = Some a3" "holds a3 []"
    using array_init_holds [OF assms] by blast
  show ?thesis using a1 a2 a3 by (simp add: vd_deletion_queue_init_def dq_holds_def dq_empty_def)
qed

lemma dq_op_holds:
  assumes "dq_holds dq q"
  shows "\<exists>dq'. dq_op c dq = Some dq' \<and> dq_holds dq' (dq_abs_op c q)"
proof (cases c)
  case (Push_Pipeline p l)
  then show ?thesis
    using assms array_add_holds [of "dq_pipeline_and_layouts dq" "abs_pipelines q" "\<lparr>pl_pipeline = p, pl_layout = l\<rparr>"]
    by (auto simp: dq_holds_def vd_deletion_queue_push_pipeline_and_layout_def)
next
  case (Push_VkImage i)
  then show ?thesis
    using assms array_add_holds [of "dq_images dq" "abs_images q" i]
    by (auto simp: dq_holds_def vd_deletion_queue_push_vkimage_def)
next
  case (Push_Image i)
  then show ?thesis
    using assms array_add_holds [of "dq_allocated_images dq" "abs_textures q" i]
    by (auto simp: dq_holds_def vd_deletion_queue_push_image_def)
next
  case (Push_Mesh m)
  then show ?thesis
    using assms array_add_holds [of "dq_meshes dq" "abs_meshes q" m]
    by (auto simp: dq_holds_def vd_deletion_queue_push_gpumesh_def)
next
  case (Push_Buffer b)
  then show ?thesis
    using assms array_add_holds [of "dq_buffers dq" "abs_buffers q" b]
    by (auto simp: dq_holds_def vd_deletion_queue_push_buffer_def)
qed

lemma dq_run_holds:
  "dq_holds dq q \<Longrightarrow> \<exists>dq'. run_ops dq_op cs dq = Some dq' \<and> dq_holds dq' (fold dq_abs_op cs q)"
proof (induction cs arbitrary: dq q)
  case (Cons c cs)
  obtain dq1 where "dq_op c dq = Some dq1" "dq_holds dq1 (dq_abs_op c q)"
    using dq_op_holds [OF Cons.prems] by blast
  with Cons.IH [of dq1 "dq_abs_op c q"] show ?case by simp
qed simp

section \<open>Flushing\<close>

text \<open>What a flush does to the device, by the contents of the queue.\<close>

definition dq_destroy :: "'v dq_device \<Rightarrow> dq_abs \<Rightarrow> 'v \<Rightarrow> 'v" where
  "dq_destroy r q =
     fold (vkDestroyImage r) (abs_images q)
     \<circ> fold (\<lambda>p v. vkDestroyPipeline r (pl_pipeline p) (vkDestroyPipelineLayout r (pl_layout p) v)) (abs_pipelines q)
     \<circ> fold (\<lambda>m v. vd_renderer_destroy_buffer r (mesh_vertex m) (vd_renderer_destroy_buffer r (mesh_index m) v))
         (abs_meshes q)
     \<circ> fold (vd_renderer_destroy_buffer r) (abs_buffers q)
     \<circ> fold (vd_renderer_destroy_texture r) (abs_textures q)"

lemma flush_holds:
  assumes "dq_holds dq q"
  shows "\<exists>dq'. vd_deletion_queue_flush r dq v = Some (dq', dq_destroy r q v) \<and>
    dq_holds dq' (dq_empty\<lparr>abs_textures := abs_textures q\<rparr>)"
proof -
  have h: "holds (dq_images dq) (abs_images q)" "holds (dq_pipeline_and_layouts dq) (abs_pipelines q)"
    "holds (dq_meshes dq) (abs_meshes q)" "holds (dq_buffers dq) (abs_buffers q)"
    "holds (dq_allocated_images dq) (abs_textures q)"
    using assms by (simp_all add: dq_holds_def)
  obtain a where a: "array_clear (dq_images dq) = Some a" "holds a []" using array_clear_holds [OF h(1)] by blast
  obtain b where b: "array_clear (dq_pipeline_and_layouts dq) = Some b" "holds b []"
    using array_clear_holds [OF h(2)] by blast
  obtain c where c: "array_clear (dq_meshes dq) = Some c" "holds c []" using array_clear_holds [OF h(3)] by blast
  obtain d where d: "array_clear (dq_buffers dq) = Some d" "holds d []" using array_clear_holds [OF h(4)] by blast
  show ?thesis
    using h(5) a b c d
    by (simp add: vd_deletion_queue_flush_def dq_destroy_def dq_holds_def dq_empty_def
      array_for_holds [OF h(1)] array_for_holds [OF h(2)] array_for_holds [OF h(3)] array_for_holds [OF h(4)]
      array_for_holds [OF h(5)])
qed

text \<open>
  The renderer creates and destroys; a device that keeps a log shows the calls. Each object is one entry,
  in the order of the calls.
\<close>

datatype dq_event = Texture_Gone nat | Buffer_Gone nat | Layout_Gone nat | Pipeline_Gone nat | Image_Gone nat

definition log_device :: "dq_event list dq_device" where
  "log_device = \<lparr>vd_renderer_destroy_texture = (\<lambda>x v. v @ [Texture_Gone x]),
     vd_renderer_destroy_buffer = (\<lambda>x v. v @ [Buffer_Gone x]),
     vkDestroyPipelineLayout = (\<lambda>x v. v @ [Layout_Gone x]),
     vkDestroyPipeline = (\<lambda>x v. v @ [Pipeline_Gone x]),
     vkDestroyImage = (\<lambda>x v. v @ [Image_Gone x])\<rparr>"

fun push_events :: "dq_push \<Rightarrow> dq_event list" where
  "push_events (Push_Pipeline p l) = [Layout_Gone l, Pipeline_Gone p]"
| "push_events (Push_VkImage i) = [Image_Gone i]"
| "push_events (Push_Image i) = [Texture_Gone i]"
| "push_events (Push_Mesh m) = [Buffer_Gone (mesh_index m), Buffer_Gone (mesh_vertex m)]"
| "push_events (Push_Buffer b) = [Buffer_Gone b]"

definition abs_events :: "dq_abs \<Rightarrow> dq_event list" where
  "abs_events q = map Texture_Gone (abs_textures q) @ map Buffer_Gone (abs_buffers q)
     @ concat (map (\<lambda>m. [Buffer_Gone (mesh_index m), Buffer_Gone (mesh_vertex m)]) (abs_meshes q))
     @ concat (map (\<lambda>p. [Layout_Gone (pl_layout p), Pipeline_Gone (pl_pipeline p)]) (abs_pipelines q))
     @ map Image_Gone (abs_images q)"

lemma fold_log: "(\<And>x v. f x v = v @ g x) \<Longrightarrow> fold f xs v = v @ concat (map g xs)"
  by (induction xs arbitrary: v) simp_all

lemma dq_destroy_log: "dq_destroy log_device q v = v @ abs_events q"
  unfolding dq_destroy_def abs_events_def log_device_def
  by (simp add: fold_log [where g = "\<lambda>x. [Texture_Gone x]"] fold_log [where g = "\<lambda>x. [Buffer_Gone x]"]
    fold_log [where g = "\<lambda>x. [Image_Gone x]"]
    fold_log [where g = "\<lambda>m. [Buffer_Gone (mesh_index m), Buffer_Gone (mesh_vertex m)]"]
    fold_log [where g = "\<lambda>p. [Layout_Gone (pl_layout p), Pipeline_Gone (pl_pipeline p)]"] concat_map_singleton)


lemma abs_events_push: "mset (abs_events (dq_abs_op c q)) = mset (abs_events q) + mset (push_events c)"
  by (cases c) (simp_all add: abs_events_def)

lemma abs_events_run:
  "mset (abs_events (fold dq_abs_op cs q)) = mset (abs_events q) + mset (concat (map push_events cs))"
  by (induction cs arbitrary: q) (simp_all add: abs_events_push)

fun texture_of :: "dq_push \<Rightarrow> nat list" where
  "texture_of (Push_Image i) = [i]"
| "texture_of _ = []"

lemma textures_run: "abs_textures (fold dq_abs_op cs q) = abs_textures q @ concat (map texture_of cs)"
proof (induction cs arbitrary: q)
  case (Cons c cs)
  then show ?case by (cases c) simp_all
qed simp

text \<open>C20. After any sequence of pushes a flush destroys everything that was pushed, each object once,
  and empties every list but the one of the allocated images: the next flush destroys exactly those
  textures a second time.\<close>

theorem vd_deletion_queue_flush_twice:
  assumes "allocator \<noteq> 0"
  shows "\<exists>dq0 dq1 dq2 dq3 log. vd_deletion_queue_init allocator = Some dq0 \<and> run_ops dq_op cs dq0 = Some dq1 \<and>
    vd_deletion_queue_flush log_device dq1 [] = Some (dq2, log) \<and>
    mset log = mset (concat (map push_events cs)) \<and>
    vd_deletion_queue_flush log_device dq2 [] = Some (dq3, map Texture_Gone (concat (map texture_of cs)))"
proof -
  let ?q = "fold dq_abs_op cs dq_empty"
  obtain dq0 where dq0: "vd_deletion_queue_init allocator = Some dq0" "dq_holds dq0 dq_empty"
    using dq_init_holds [OF assms] by blast
  obtain dq1 where dq1: "run_ops dq_op cs dq0 = Some dq1" "dq_holds dq1 ?q"
    using dq_run_holds [OF dq0(2)] by blast
  obtain dq2 where dq2: "vd_deletion_queue_flush log_device dq1 [] = Some (dq2, abs_events ?q)"
    "dq_holds dq2 (dq_empty\<lparr>abs_textures := abs_textures ?q\<rparr>)"
    using flush_holds [OF dq1(2), of log_device "[]"] by (auto simp: dq_destroy_log)
  obtain dq3 where "vd_deletion_queue_flush log_device dq2 [] = Some (dq3, map Texture_Gone (abs_textures ?q))"
    using flush_holds [OF dq2(2), of log_device "[]"] by (auto simp: dq_destroy_log abs_events_def dq_empty_def)
  then have dq3: "vd_deletion_queue_flush log_device dq2 [] = Some (dq3, map Texture_Gone (concat (map texture_of cs)))"
    by (simp add: textures_run) (simp add: dq_empty_def)
  have "mset (abs_events ?q) = mset (concat (map push_events cs))"
    by (simp add: abs_events_run) (simp add: abs_events_def dq_empty_def)
  then show ?thesis using dq0(1) dq1(1) dq2(1) dq3 by blast
qed

theorem vd_deletion_queue_flush_twice_witness:
  "\<exists>dq0 dq1 dq2 dq3 log. vd_deletion_queue_init 1 = Some dq0 \<and>
    run_ops dq_op [Push_Image 7, Push_Mesh \<lparr>mesh_vertex = 1, mesh_index = 2\<rparr>, Push_Buffer 3] dq0 = Some dq1 \<and>
    vd_deletion_queue_flush log_device dq1 [] = Some (dq2, log) \<and>
    mset log = mset (concat (map push_events
      [Push_Image 7, Push_Mesh \<lparr>mesh_vertex = 1, mesh_index = 2\<rparr>, Push_Buffer 3])) \<and>
    vd_deletion_queue_flush log_device dq2 [] = Some (dq3, map Texture_Gone (concat (map texture_of
      [Push_Image 7, Push_Mesh \<lparr>mesh_vertex = 1, mesh_index = 2\<rparr>, Push_Buffer 3])))"
  by (rule vd_deletion_queue_flush_twice) simp

end
