(* ===== verification/Clexer.thy ===== *)
theory Clexer
  imports Prelude
begin

text \<open>
  The tokens of the C parser in lib/vd_c.h. The text is a list of bytes with a separate length; reading
  outside the text is \<open>None\<close>. A byte is read as a signed \<open>char\<close>, so the byte 255 is the number -1,
  which also stands for the end of the text.
\<close>

section \<open>Definitions\<close>

datatype VD_C_T =
    VD_C_TEOF | VD_C_TUNKNOWN | VD_C_TWHITESPACE | VD_C_TKEYWORD | VD_C_TIDENT | VD_C_TADDITION
  | VD_C_TSUBTRACTION | VD_C_TSTAR | VD_C_TDIVISION | VD_C_TINCREMENTATION | VD_C_TDECREMENTATION
  | VD_C_TPAREN_ENTER | VD_C_TPAREN_EXIT | VD_C_TBRACE_ENTER | VD_C_TBRACE_EXIT | VD_C_TID

record VD__CToken =
  tok_line :: int
  tok_column :: int
  tok_type :: VD_C_T

text \<open>The stash of tokens is allocated and never used; \<open>lex_stash\<close> keeps what was put there.\<close>

record VD__CParserInstance =
  lex_str :: "char list"
  lex_i :: nat
  lex_len :: nat
  lex_line :: int
  lex_column :: int
  lex_stash_cap :: nat
  lex_stash_size :: nat
  lex_stash :: "VD__CToken list"

definition char_int :: "char \<Rightarrow> int" where
  "char_int c = (let n = of_char c :: int in if n < 128 then n else n - 256)"

definition str_at :: "char list \<Rightarrow> nat \<Rightarrow> int option" where
  "str_at s i = (if i < length s then Some (char_int (s ! i)) else None)"

definition vd_c__newline :: "int \<Rightarrow> bool" where
  "vd_c__newline c \<longleftrightarrow> c = char_int (CHR 0x0A)"

definition vd_c__getchar :: "VD__CParserInstance \<Rightarrow> (int \<times> VD__CParserInstance) option" where
  "vd_c__getchar inst =
     (if lex_len inst \<le> lex_i inst then Some (-1, inst)
      else do { c \<leftarrow> str_at (lex_str inst) (lex_i inst); Some (c, inst\<lparr>lex_i := lex_i inst + 1\<rparr>) })"

definition vd_c__peekchar :: "VD__CParserInstance \<Rightarrow> int option" where
  "vd_c__peekchar inst =
     (if lex_len inst \<le> lex_i inst then Some (-1) else str_at (lex_str inst) (lex_i inst))"

definition vd_c__retchar :: "VD__CParserInstance \<Rightarrow> (int \<times> VD__CParserInstance) option" where
  "vd_c__retchar inst =
     (if lex_i inst = 0 then None
      else let inst' = inst\<lparr>lex_i := lex_i inst - 1\<rparr> in do { c \<leftarrow> vd_c__peekchar inst'; Some (c, inst') })"

definition vd_c__get :: "VD__CParserInstance \<Rightarrow> (int \<times> VD__CParserInstance) option" where
  "vd_c__get inst =
     do { (c, inst) \<leftarrow> vd_c__getchar inst;
          Some (c, if vd_c__newline c then inst\<lparr>lex_line := lex_line inst + 1, lex_column := 1\<rparr>
                   else if c \<noteq> -1 then inst\<lparr>lex_column := lex_column inst + 1\<rparr> else inst) }"

text \<open>The loop that recomputes the column does not change its index.\<close>

partial_function (option) unget_loop :: "char list \<Rightarrow> int \<Rightarrow> int \<Rightarrow> int option" where
  "unget_loop s i col =
     (if 0 \<le> i then
        do { c \<leftarrow> str_at s (nat i);
             if vd_c__newline c then Some col else unget_loop s i (col + 1) }
      else Some col)"

definition vd_c__unget :: "VD__CParserInstance \<Rightarrow> VD__CParserInstance option" where
  "vd_c__unget inst =
     do { (c, inst) \<leftarrow> vd_c__retchar inst;
          if vd_c__newline c then
            do { col \<leftarrow> unget_loop (lex_str inst) (int (lex_i inst) - 1) 1;
                 Some (inst\<lparr>lex_line := lex_line inst - 1, lex_column := col\<rparr>) }
          else Some inst }"

definition vd_c__tnew :: "VD__CParserInstance \<Rightarrow> VD_C_T \<Rightarrow> VD__CToken" where
  "vd_c__tnew inst t = \<lparr>tok_line = lex_line inst, tok_column = lex_column inst, tok_type = t\<rparr>"

partial_function (option) comment_loop :: "VD__CParserInstance \<Rightarrow> VD__CParserInstance option" where
  "comment_loop inst =
     do { (y, inst) \<leftarrow> vd_c__get inst;
          if \<not> vd_c__newline y \<and> y \<noteq> -1 then comment_loop inst else Some inst }"

partial_function (option) vd_c__tnext :: "VD__CParserInstance \<Rightarrow> (VD__CToken \<times> VD__CParserInstance) option" where
  "vd_c__tnext inst =
     do { (c, inst) \<leftarrow> vd_c__get inst;
          if c = char_int (CHR ''/'') then
            do { p \<leftarrow> vd_c__peekchar inst;
                 if p = char_int (CHR ''/'') then
                   do { inst \<leftarrow> comment_loop inst; vd_c__tnext inst }
                 else Some (vd_c__tnew inst VD_C_TDIVISION, inst) }
          else if c = char_int (CHR '' '') \<or> c = char_int (CHR 0x09) then vd_c__tnext inst
          else if c = char_int (CHR ''+'') then
            do { p \<leftarrow> vd_c__peekchar inst;
                 if p = char_int (CHR ''+'') then
                   do { (_, inst) \<leftarrow> vd_c__getchar inst; Some (vd_c__tnew inst VD_C_TINCREMENTATION, inst) }
                 else Some (vd_c__tnew inst VD_C_TADDITION, inst) }
          else if c = char_int (CHR ''-'') then
            do { p \<leftarrow> vd_c__peekchar inst;
                 if p = char_int (CHR ''-'') then
                   do { (_, inst) \<leftarrow> vd_c__getchar inst; Some (vd_c__tnew inst VD_C_TDECREMENTATION, inst) }
                 else Some (vd_c__tnew inst VD_C_TSUBTRACTION, inst) }
          else if c = char_int (CHR ''*'') then Some (vd_c__tnew inst VD_C_TSTAR, inst)
          else if c = char_int (CHR ''('') then Some (vd_c__tnew inst VD_C_TPAREN_ENTER, inst)
          else if c = char_int (CHR '')'') then Some (vd_c__tnew inst VD_C_TPAREN_EXIT, inst)
          else if c = char_int (CHR ''{'') then Some (vd_c__tnew inst VD_C_TBRACE_ENTER, inst)
          else if c = char_int (CHR ''}'') then Some (vd_c__tnew inst VD_C_TBRACE_EXIT, inst)
          else Some (vd_c__tnew inst VD_C_TUNKNOWN, inst) }"

text \<open>\<open>vd_c_parse\<close> sets the lexer up and ends without a result; what it builds is the instance.\<close>

definition vd_c_parse :: "char list \<Rightarrow> nat \<Rightarrow> VD__CParserInstance" where
  "vd_c_parse str len =
     \<lparr>lex_str = str, lex_i = 0, lex_len = len, lex_line = 1, lex_column = 1,
      lex_stash_cap = 4, lex_stash_size = 0, lex_stash = []\<rparr>"

section \<open>Reading\<close>

text \<open>The characters that are left, and an instance that has the right to read them.\<close>

definition lex_rest :: "VD__CParserInstance \<Rightarrow> int list" where
  "lex_rest inst = map char_int (drop (lex_i inst) (take (lex_len inst) (lex_str inst)))"

definition lex_ok :: "VD__CParserInstance \<Rightarrow> bool" where
  "lex_ok inst \<longleftrightarrow> lex_len inst \<le> length (lex_str inst)"

lemma lex_rest_step:
  assumes "lex_ok inst" and "lex_i inst < lex_len inst"
  shows "lex_rest inst = char_int (lex_str inst ! lex_i inst) # lex_rest (inst\<lparr>lex_i := lex_i inst + 1\<rparr>)"
proof -
  have "drop (lex_i inst) (take (lex_len inst) (lex_str inst))
      = lex_str inst ! lex_i inst # drop (Suc (lex_i inst)) (take (lex_len inst) (lex_str inst))"
    using assms by (subst Cons_nth_drop_Suc [symmetric]) (simp_all add: lex_ok_def)
  then show ?thesis by (simp add: lex_rest_def)
qed

lemma getchar_spec:
  "lex_ok inst \<Longrightarrow> vd_c__getchar inst =
     (case lex_rest inst of [] \<Rightarrow> Some (-1, inst) | c # cs \<Rightarrow> Some (c, inst\<lparr>lex_i := lex_i inst + 1\<rparr>))"
proof (cases "lex_i inst < lex_len inst")
  case True
  assume "lex_ok inst"
  with True show ?thesis using lex_rest_step [OF \<open>lex_ok inst\<close> True]
    by (simp add: vd_c__getchar_def str_at_def lex_ok_def)
next
  case False
  then show ?thesis by (simp add: vd_c__getchar_def lex_rest_def)
qed

lemma peekchar_spec: "lex_ok inst \<Longrightarrow> vd_c__peekchar inst = (case lex_rest inst of [] \<Rightarrow> Some (-1) | c # cs \<Rightarrow> Some c)"
proof (cases "lex_i inst < lex_len inst")
  case True
  assume "lex_ok inst"
  with True show ?thesis using lex_rest_step [OF \<open>lex_ok inst\<close> True]
    by (simp add: vd_c__peekchar_def str_at_def lex_ok_def)
next
  case False
  then show ?thesis by (simp add: vd_c__peekchar_def lex_rest_def)
qed

lemma lex_rest_Suc:
  assumes "lex_ok inst" and "lex_rest inst = c # cs"
  shows "lex_rest (inst\<lparr>lex_i := lex_i inst + 1\<rparr>) = cs"
proof -
  have "lex_i inst < lex_len inst" using assms(2) by (cases "lex_i inst < lex_len inst") (simp_all add: lex_rest_def)
  from lex_rest_step [OF assms(1) this] assms(2) show ?thesis by simp
qed


text \<open>
  Every step keeps the text and moves forward in it, and the line is one more for each newline that was
  read: the line and the number of newlines left have a constant sum.
\<close>

definition newlines :: "int list \<Rightarrow> int" where
  "newlines cs = int (length (filter (\<lambda>c. c = 10) cs))"

definition lex_to :: "VD__CParserInstance \<Rightarrow> VD__CParserInstance \<Rightarrow> bool" where
  "lex_to inst inst' \<longleftrightarrow> lex_ok inst' \<and> lex_str inst' = lex_str inst \<and> lex_len inst' = lex_len inst \<and>
     lex_i inst \<le> lex_i inst' \<and>
     lex_line inst' + newlines (lex_rest inst') = lex_line inst + newlines (lex_rest inst)"

lemma lex_to_trans: "lex_to a b \<Longrightarrow> lex_to b c \<Longrightarrow> lex_to a c"
  by (simp add: lex_to_def)

lemma lex_to_ok: "lex_to a b \<Longrightarrow> lex_ok b"
  by (simp add: lex_to_def)

lemma char_int_simps:
  "char_int (CHR 0x0A) = 10" "char_int (CHR 0x09) = 9" "char_int (CHR '' '') = 32"
  "char_int (CHR ''/'') = 47" "char_int (CHR ''+'') = 43" "char_int (CHR ''-'') = 45"
  "char_int (CHR ''*'') = 42" "char_int (CHR ''('') = 40" "char_int (CHR '')'') = 41"
  "char_int (CHR ''{'') = 123" "char_int (CHR ''}'') = 125"
  by (simp_all add: char_int_def of_char_def)

definition hd_or_eof :: "int list \<Rightarrow> int" where
  "hd_or_eof cs = (case cs of [] \<Rightarrow> -1 | c # _ \<Rightarrow> c)"

lemma peek_eq: "lex_ok inst \<Longrightarrow> vd_c__peekchar inst = Some (hd_or_eof (lex_rest inst))"
  by (simp add: peekchar_spec hd_or_eof_def split: list.split)

lemma lex_ok_more:
  "lex_ok (inst\<lparr>lex_line := l, lex_column := c\<rparr>) = lex_ok inst" "lex_ok (inst\<lparr>lex_column := c\<rparr>) = lex_ok inst"
  "lex_ok (inst\<lparr>lex_i := i\<rparr>) = lex_ok inst"
  "lex_rest (inst\<lparr>lex_line := l, lex_column := c\<rparr>) = lex_rest inst"
  "lex_rest (inst\<lparr>lex_column := c\<rparr>) = lex_rest inst"
  "lex_ok (inst\<lparr>lex_line := l\<rparr>) = lex_ok inst" "lex_rest (inst\<lparr>lex_line := l\<rparr>) = lex_rest inst"
  by (simp_all add: lex_ok_def lex_rest_def)

lemma getchar_step:
  assumes "lex_ok inst" and "hd_or_eof (lex_rest inst) \<noteq> 10"
  shows "\<exists>inst'. vd_c__getchar inst = Some (hd_or_eof (lex_rest inst), inst') \<and> lex_to inst inst' \<and>
    lex_rest inst' = tl (lex_rest inst)"
proof (cases "lex_rest inst")
  case Nil
  then show ?thesis using assms(1) by (simp add: getchar_spec hd_or_eof_def lex_to_def)
next
  case (Cons c cs)
  then show ?thesis using assms lex_rest_Suc [OF assms(1) Cons]
    by (simp add: getchar_spec hd_or_eof_def lex_to_def lex_ok_more newlines_def)
qed

lemma get_step:
  assumes "lex_ok inst"
  shows "\<exists>inst'. vd_c__get inst = Some (hd_or_eof (lex_rest inst), inst') \<and> lex_to inst inst' \<and>
    lex_rest inst' = tl (lex_rest inst)"
proof (cases "lex_rest inst")
  case Nil
  then show ?thesis using assms
    by (simp add: vd_c__get_def getchar_spec hd_or_eof_def lex_to_def vd_c__newline_def char_int_simps)
next
  case (Cons c cs)
  then show ?thesis using assms lex_rest_Suc [OF assms Cons]
    by (simp add: vd_c__get_def getchar_spec hd_or_eof_def lex_to_def lex_ok_more newlines_def
      vd_c__newline_def char_int_simps)
qed

lemma comment_loop_spec:
  "lex_ok inst \<Longrightarrow> \<exists>inst'. comment_loop inst = Some inst' \<and> lex_to inst inst' \<and>
     lex_rest inst' = tl (dropWhile (\<lambda>y. y \<noteq> 10 \<and> y \<noteq> -1) (lex_rest inst))"
proof (induction "lex_rest inst" arbitrary: inst)
  case Nil
  obtain i1 where "vd_c__get inst = Some (-1, i1)" "lex_to inst i1" "lex_rest i1 = []"
    using get_step [OF Nil.prems] Nil.hyps by (auto simp: hd_or_eof_def)
  then show ?case using Nil.hyps by (subst comment_loop.simps) (simp add: vd_c__newline_def char_int_simps)
next
  case (Cons c cs)
  obtain i1 where i1: "vd_c__get inst = Some (c, i1)" "lex_to inst i1" "lex_rest i1 = cs"
    using get_step [OF Cons.prems] Cons.hyps(2) [symmetric] by (auto simp: hd_or_eof_def)
  show ?case
  proof (cases "c \<noteq> 10 \<and> c \<noteq> -1")
    case True
    obtain i2 where "comment_loop i1 = Some i2" "lex_to i1 i2"
      "lex_rest i2 = tl (dropWhile (\<lambda>y. y \<noteq> 10 \<and> y \<noteq> -1) cs)"
      using Cons.hyps(1) [OF i1(3) [symmetric] lex_to_ok [OF i1(2)]] i1(3) by auto
    then show ?thesis using True i1 lex_to_trans Cons.hyps(2) [symmetric]
      by (subst comment_loop.simps) (auto simp: vd_c__newline_def char_int_simps)
  next
    case False
    then show ?thesis using i1 Cons.hyps(2) [symmetric]
      by (subst comment_loop.simps) (auto simp: vd_c__newline_def char_int_simps)
  qed
qed

section \<open>Tokens\<close>

text \<open>
  What a token is, on the characters that are left: blanks and line comments are skipped, then one or
  two characters decide. Letters, newlines and the end of the text are unknown.
\<close>

lemma dropWhile_shorter: "length (tl (dropWhile P cs)) \<le> length cs"
  using length_dropWhile_le [of P cs] by (simp add: le_trans [OF diff_le_self])

function (sequential) lex_skip :: "int list \<Rightarrow> int list" where
  "lex_skip [] = []"
| "lex_skip (c # cs) =
     (if c = 32 \<or> c = 9 then lex_skip cs
      else if c = 47 \<and> hd_or_eof cs = 47 then lex_skip (tl (dropWhile (\<lambda>y. y \<noteq> 10 \<and> y \<noteq> -1) cs))
      else c # cs)"
  by pat_completeness auto
termination
  by (relation "measure length") (auto simp: less_Suc_eq_le dropWhile_shorter intro: dropWhile_shorter [simplified])

definition lex_token :: "int list \<Rightarrow> VD_C_T \<times> int list" where
  "lex_token cs =
     (let c = hd_or_eof cs; d = hd_or_eof (tl cs); one = tl cs; two = tl (tl cs) in
      if c = 47 then (VD_C_TDIVISION, one)
      else if c = 43 then (if d = 43 then (VD_C_TINCREMENTATION, two) else (VD_C_TADDITION, one))
      else if c = 45 then (if d = 45 then (VD_C_TDECREMENTATION, two) else (VD_C_TSUBTRACTION, one))
      else if c = 42 then (VD_C_TSTAR, one)
      else if c = 40 then (VD_C_TPAREN_ENTER, one)
      else if c = 41 then (VD_C_TPAREN_EXIT, one)
      else if c = 123 then (VD_C_TBRACE_ENTER, one)
      else if c = 125 then (VD_C_TBRACE_EXIT, one)
      else (VD_C_TUNKNOWN, one))"

definition tnext_ok :: "VD__CParserInstance \<Rightarrow> VD__CToken \<Rightarrow> VD__CParserInstance \<Rightarrow> bool" where
  "tnext_ok inst tok inst' \<longleftrightarrow> lex_to inst inst' \<and> tok_line tok = lex_line inst' \<and>
     (tok_type tok, lex_rest inst') = lex_token (lex_skip (lex_rest inst))"

lemma tnext_skip:
  assumes "lex_to inst i1" and "lex_skip (lex_rest inst) = lex_skip (lex_rest i1)" and "tnext_ok i1 tok i2"
  shows "tnext_ok inst tok i2"
  using assms lex_to_trans by (auto simp: tnext_ok_def)

lemma tnext_spec: "lex_ok inst \<Longrightarrow> \<exists>tok inst'. vd_c__tnext inst = Some (tok, inst') \<and> tnext_ok inst tok inst'"
proof (induction "length (lex_rest inst)" arbitrary: inst rule: less_induct)
  case less
  let ?cs = "lex_rest inst" and ?c = "hd_or_eof (lex_rest inst)"
  obtain i1 where i1: "vd_c__get inst = Some (?c, i1)" "lex_to inst i1" "lex_rest i1 = tl ?cs"
    using get_step [OF less.prems] by blast
  note ok1 = lex_to_ok [OF i1(2)] and peek = peek_eq [OF lex_to_ok [OF i1(2)]]
  note step = vd_c__tnext.simps [of inst] i1(1) peek char_int_simps
  consider (blank) "?c = 32 \<or> ?c = 9" | (comment) "?c = 47" "hd_or_eof (tl ?cs) = 47"
    | (plus) "?c = 43" | (minus) "?c = 45"
    | (one) "?c \<noteq> 32" "?c \<noteq> 9" "?c = 47 \<longrightarrow> hd_or_eof (tl ?cs) \<noteq> 47" "?c \<noteq> 43" "?c \<noteq> 45"
    by blast
  then show ?case
  proof cases
    case blank
    then obtain c cs where cs: "?cs = c # cs" "c = 32 \<or> c = 9" by (cases ?cs) (auto simp: hd_or_eof_def)
    then have "length (lex_rest i1) < length ?cs" using i1(3) by simp
    then obtain tok i2 where "vd_c__tnext i1 = Some (tok, i2)" "tnext_ok i1 tok i2" using less.hyps ok1 by blast
    then show ?thesis using blank cs i1 tnext_skip [OF i1(2), of tok i2] by (auto simp: step)
  next
    case comment
    then obtain cs where cs: "?cs = 47 # cs" "hd_or_eof cs = 47" by (cases ?cs) (auto simp: hd_or_eof_def)
    obtain i2 where i2: "comment_loop i1 = Some i2" "lex_to i1 i2"
      "lex_rest i2 = tl (dropWhile (\<lambda>y. y \<noteq> 10 \<and> y \<noteq> -1) cs)"
      using comment_loop_spec [OF ok1] cs i1(3) by auto
    then have "length (lex_rest i2) < length ?cs"
      using dropWhile_shorter [of "\<lambda>y. y \<noteq> 10 \<and> y \<noteq> -1" cs] cs(1) by simp
    then obtain tok i3 where t: "vd_c__tnext i2 = Some (tok, i3)" "tnext_ok i2 tok i3"
      using less.hyps lex_to_ok [OF i2(2)] by blast
    have "tnext_ok inst tok i3"
      using tnext_skip [OF lex_to_trans [OF i1(2) i2(2)] _ t(2)] cs i2(3) by simp
    then show ?thesis using comment cs i1(3) i2(1) t(1) by (auto simp: step)
  next
    case plus
    have "\<exists>i2. vd_c__getchar i1 = Some (43, i2) \<and> lex_to i1 i2 \<and> lex_rest i2 = tl (tl ?cs)"
      if "hd_or_eof (tl ?cs) = 43" using getchar_step [OF ok1] i1(3) that by auto
    moreover have "lex_skip ?cs = ?cs" using plus by (cases ?cs) (auto simp: hd_or_eof_def)
    ultimately show ?thesis using plus i1(2,3) lex_to_trans [OF i1(2)]
      by (cases "hd_or_eof (tl ?cs) = 43") (auto simp: step tnext_ok_def lex_token_def vd_c__tnew_def Let_def)
  next
    case minus
    have "\<exists>i2. vd_c__getchar i1 = Some (45, i2) \<and> lex_to i1 i2 \<and> lex_rest i2 = tl (tl ?cs)"
      if "hd_or_eof (tl ?cs) = 45" using getchar_step [OF ok1] i1(3) that by auto
    moreover have "lex_skip ?cs = ?cs" using minus by (cases ?cs) (auto simp: hd_or_eof_def)
    ultimately show ?thesis using minus i1(2,3) lex_to_trans [OF i1(2)]
      by (cases "hd_or_eof (tl ?cs) = 45") (auto simp: step tnext_ok_def lex_token_def vd_c__tnew_def Let_def)
  next
    case one
    have "lex_skip ?cs = ?cs" using one by (cases ?cs) (auto simp: hd_or_eof_def)
    then show ?thesis using one i1(2,3) by (auto simp: step tnext_ok_def lex_token_def vd_c__tnew_def Let_def)
  qed
qed


lemma lex_skip_length: "length (lex_skip cs) \<le> length cs"
proof (induction cs rule: lex_skip.induct)
  case (2 c cs)
  then show ?case using dropWhile_shorter [of "\<lambda>y. y \<noteq> 10 \<and> y \<noteq> -1" cs] by auto
qed simp

lemma lex_token_shorter:
  "snd (lex_token cs) = tl cs \<or> snd (lex_token cs) = tl (tl cs)"
  by (simp add: lex_token_def Let_def)

lemma lex_token_progress: "cs \<noteq> [] \<Longrightarrow> length (snd (lex_token (lex_skip cs))) < length cs"
  using lex_skip_length [of cs] lex_token_shorter [of "lex_skip cs"]
  by (cases "lex_skip cs") auto

lemma lex_token_eof: "lex_token (lex_skip []) = (VD_C_TUNKNOWN, [])"
  by (simp add: lex_token_def hd_or_eof_def Let_def)

lemma tnext_full:
  assumes "lex_ok inst"
  shows "\<exists>tok inst'. vd_c__tnext inst = Some (tok, inst') \<and>
    (tok_type tok, lex_rest inst') = lex_token (lex_skip (lex_rest inst)) \<and>
    tok_line tok = lex_line inst' \<and>
    lex_line inst' + newlines (lex_rest inst') = lex_line inst + newlines (lex_rest inst) \<and>
    (if lex_rest inst = [] then lex_rest inst' = [] \<and> tok_type tok = VD_C_TUNKNOWN
     else length (lex_rest inst') < length (lex_rest inst))"
proof -
  obtain tok inst' where t: "vd_c__tnext inst = Some (tok, inst')" "tnext_ok inst tok inst'"
    using tnext_spec [OF assms] by blast
  then have e: "(tok_type tok, lex_rest inst') = lex_token (lex_skip (lex_rest inst))" by (simp add: tnext_ok_def)
  have p: "if lex_rest inst = [] then lex_rest inst' = [] \<and> tok_type tok = VD_C_TUNKNOWN
     else length (lex_rest inst') < length (lex_rest inst)"
  proof (cases "lex_rest inst = []")
    case True
    then show ?thesis using e by (simp only: lex_token_eof) simp
  next
    case False
    have "lex_rest inst' = snd (lex_token (lex_skip (lex_rest inst)))" using e by (metis snd_conv)
    then show ?thesis using lex_token_progress [OF False] False by simp
  qed
  from t e p show ?thesis by (intro exI [of _ tok] exI [of _ inst']) (simp add: tnext_ok_def lex_to_def)
qed

text \<open>C7. Reading a token ends on every text: blanks and line comments are skipped, the token is the one
  that the next one or two characters say, the line counts the newlines that were read, and every token
  but the one at the end of the text uses up at least one character. The end of the text, like every
  character without a token of its own, gives an unknown token.\<close>

theorem vd_c__tnext_correct:
  assumes "lex_len inst \<le> length (lex_str inst)"
  shows "\<exists>tok inst'. vd_c__tnext inst = Some (tok, inst') \<and>
    (tok_type tok, lex_rest inst') = lex_token (lex_skip (lex_rest inst)) \<and>
    tok_line tok = lex_line inst' \<and>
    lex_line inst' + newlines (lex_rest inst') = lex_line inst + newlines (lex_rest inst) \<and>
    (if lex_rest inst = [] then lex_rest inst' = [] \<and> tok_type tok = VD_C_TUNKNOWN
     else length (lex_rest inst') < length (lex_rest inst))"
  using assms by (intro tnext_full) (simp add: lex_ok_def)

text \<open>A line comment, then an increment on the second line.\<close>

theorem vd_c__tnext_correct_witness:
  "\<exists>tok inst'. vd_c__tnext (vd_c_parse ''//a\<newline>++*'' 7) = Some (tok, inst') \<and>
    tok_type tok = VD_C_TINCREMENTATION \<and> lex_rest inst' = [42] \<and> tok_line tok = 2"
proof -
  have r: "lex_rest (vd_c_parse ''//a\<newline>++*'' 7) = [47, 47, 97, 10, 43, 43, 42]"
    by (simp add: lex_rest_def vd_c_parse_def char_int_def of_char_def)
  have t: "lex_token (lex_skip [47, 47, 97, 10, 43, 43, 42]) = (VD_C_TINCREMENTATION, [42])"
    by (simp add: lex_token_def hd_or_eof_def Let_def)
  have n: "newlines [47, 47, 97, 10, 43, 43, 42] = 1" "newlines [42] = 0" by (simp_all add: newlines_def)
  have l: "lex_line (vd_c_parse ''//a\<newline>++*'' 7) = 1" by (simp add: vd_c_parse_def)
  show ?thesis
    using vd_c__tnext_correct [of "vd_c_parse ''//a\<newline>++*'' 7", unfolded r t n l]
    by (auto simp: vd_c_parse_def n)
qed

section \<open>Giving a character back\<close>

lemma char_int_10: "char_int c = 10 \<longleftrightarrow> c = CHR 0x0A"
proof
  assume c: "char_int c = 10"
  have b: "(of_char c :: int) < 256"
    using nat_of_char_less_256 [of c] of_nat_of_char [of c, where ?'a = int] by linarith
  have "(of_char c :: int) = 10" using c b unfolding char_int_def Let_def by (simp split: if_splits)
  moreover have "(of_char (CHR 0x0A) :: int) = 10" by (simp add: of_char_def)
  ultimately have "(of_char c :: int) = of_char (CHR 0x0A)" by simp
  then show "c = CHR 0x0A" by (simp only: of_char_eq_iff)
qed (simp add: char_int_simps)

lemma unget_loop_spins:
  assumes "0 \<le> i" and "nat i < length s" and "s ! nat i \<noteq> CHR 0x0A"
  shows "unget_loop s i col = None"
proof -
  have c: "char_int (s ! nat i) \<noteq> 10" using assms(3) by (simp add: char_int_10)
  have "s' = s \<and> j = i \<longrightarrow> False" if "unget_loop s' j col = Some r" for s' j col r
  proof (rule unget_loop.raw_induct [where P = "\<lambda>s' j col r. s' = s \<and> j = i \<longrightarrow> False"])
    fix ul s' j col r
    assume ih: "\<And>s' j col r. ul s' j col = Some r \<Longrightarrow> s' = s \<and> j = i \<longrightarrow> False"
      and eq: "(if 0 \<le> j then do { c \<leftarrow> str_at s' (nat j);
          if vd_c__newline c then Some col else ul s' j (col + 1) } else Some col) = Some r"
    show "s' = s \<and> j = i \<longrightarrow> False"
    proof
      assume e: "s' = s \<and> j = i"
      then have "ul s i (col + 1) = Some r"
        using eq assms c by (simp add: str_at_def vd_c__newline_def char_int_simps)
      from ih [OF this] show False by simp
    qed
  qed (rule that)
  then show ?thesis by (cases "unget_loop s i col") auto
qed

text \<open>
  Giving a newline back ends only if the newline opens the text or follows another one: the search for
  the start of the line does not move.
\<close>

lemma vd_c__unget_newline:
  assumes "lex_ok inst" and "lex_i inst = Suc i" and "i < lex_len inst" and "lex_str inst ! i = CHR 0x0A"
  shows "vd_c__unget inst =
    (if i = 0 \<or> lex_str inst ! (i - 1) = CHR 0x0A
     then Some (inst\<lparr>lex_i := i, lex_line := lex_line inst - 1, lex_column := 1\<rparr>) else None)"
proof -
  have r: "vd_c__retchar inst = Some (10, inst\<lparr>lex_i := i\<rparr>)"
    using assms by (simp add: vd_c__retchar_def vd_c__peekchar_def str_at_def lex_ok_def char_int_simps)
  show ?thesis
  proof (cases "i = 0")
    case True
    then show ?thesis using assms
      by (simp add: vd_c__unget_def r vd_c__newline_def char_int_simps unget_loop.simps [of _ "-1"])
  next
    case False
    have n: "int i - 1 = int (i - 1)" using False by simp
    have u: "unget_loop (lex_str inst) (int (i - 1)) 1 = (if lex_str inst ! (i - 1) = CHR 0x0A then Some 1 else None)"
    proof (cases "lex_str inst ! (i - 1) = CHR 0x0A")
      case True
      then show ?thesis using assms
        by (subst unget_loop.simps) (simp add: str_at_def lex_ok_def vd_c__newline_def char_int_simps)
    next
      case False
      then show ?thesis using assms unget_loop_spins [of "int (i - 1)" "lex_str inst" 1]
        by (simp add: lex_ok_def)
    qed
    then have u': "unget_loop (lex_str inst) (int i - 1) 1
        = (if lex_str inst ! (i - 1) = CHR 0x0A then Some 1 else None)" by (simp only: n)
    show ?thesis using False assms by (simp add: vd_c__unget_def r vd_c__newline_def char_int_simps u')
  qed
qed

end
