(* ===== verification/Meta.thy ===== *)
theory Meta
  imports Hash Dynarray
begin

text \<open>
  The type registry of lib/vd_meta.h and the storage it uses: its own growable array (a copy of the one
  in lib/array.h without the allocator in the header), a block arena for temporary memory and a character
  buffer. Counts are naturals, bounded by the memory of the objects; type identifiers are 64-bit words.

  A registered name or field list is copied by the code; here it is a value, so the copy is the value
  itself. The two members of the union in a field are two components of the record: the flags say which
  one is in use. The functions of an intrusive array are known by a number, 0 where the code has a null
  pointer.
\<close>

section \<open>Descriptors\<close>

datatype VD_Meta_TypeClass =
  VD_META_TYPE_PRIMITIVE | VD_META_TYPE_STRING | VD_META_TYPE_ARRAY | VD_META_TYPE_OBJECT

datatype VD_Meta_PrimitiveType =
    VD_META_PRIMITIVE_TYPE_I8 | VD_META_PRIMITIVE_TYPE_U8 | VD_META_PRIMITIVE_TYPE_I16
  | VD_META_PRIMITIVE_TYPE_U16 | VD_META_PRIMITIVE_TYPE_I32 | VD_META_PRIMITIVE_TYPE_U32
  | VD_META_PRIMITIVE_TYPE_I64 | VD_META_PRIMITIVE_TYPE_U64 | VD_META_PRIMITIVE_TYPE_F32
  | VD_META_PRIMITIVE_TYPE_F64 | VD_META_PRIMITIVE_TYPE_CHAR8

datatype VD_Meta_StringType = VD_META_STRING_TYPE_CSTRING | VD_META_STRING_TYPE_SLICE

definition VD_META_SUCCESS :: int where "VD_META_SUCCESS = 0"
definition VD_META_DESCRIPTOR_NOT_FOUND :: int where "VD_META_DESCRIPTOR_NOT_FOUND = -1"
definition VD_META_INVALID_JSON :: int where "VD_META_INVALID_JSON = -2"
definition VD_META_INVALID_TYPE :: int where "VD_META_INVALID_TYPE = -3"
definition VD_META_TYPE_NOT_FOUND :: int where "VD_META_TYPE_NOT_FOUND = -4"
definition VD_META_TYPE_MISMATCH :: int where "VD_META_TYPE_MISMATCH = -5"

lemmas meta_codes = VD_META_SUCCESS_def VD_META_DESCRIPTOR_NOT_FOUND_def VD_META_INVALID_JSON_def
  VD_META_INVALID_TYPE_def VD_META_TYPE_NOT_FOUND_def VD_META_TYPE_MISMATCH_def

definition VD_META_FIELD_FLAG_FIXED_ARRAY :: u32 where "VD_META_FIELD_FLAG_FIXED_ARRAY = 1"
definition VD_META_FIELD_FLAG_INTRUSIVE_ARRAY :: u32 where "VD_META_FIELD_FLAG_INTRUSIVE_ARRAY = 2"

record VD_Meta_Field =
  mf_name :: "char list"
  mf_type :: u64
  mf_offset :: nat
  mf_flags :: u32
  mf_fixed_len :: nat
  mf_props :: nat

record VD_Meta_Descriptor =
  md_name :: "char list"
  md_type_class :: VD_Meta_TypeClass
  md_size :: nat
  md_id :: u64
  md_primitive :: VD_Meta_PrimitiveType
  md_fields :: "VD_Meta_Field list"
  md_array_sub_id :: u64
  md_array_len :: nat
  md_string :: VD_Meta_StringType
  md_string_len_id :: u64
  md_string_len_offset :: nat

text \<open>A descriptor with everything the initialiser does not name set to zero.\<close>

definition meta_desc :: "char list \<Rightarrow> VD_Meta_TypeClass \<Rightarrow> nat \<Rightarrow> VD_Meta_PrimitiveType \<Rightarrow> VD_Meta_Descriptor" where
  "meta_desc n c s p =
     \<lparr>md_name = n, md_type_class = c, md_size = s, md_id = 0, md_primitive = p, md_fields = [],
      md_array_sub_id = 0, md_array_len = 0, md_string = VD_META_STRING_TYPE_CSTRING, md_string_len_id = 0,
      md_string_len_offset = 0\<rparr>"

section \<open>The growable array\<close>

record 'a VD_Meta__Array =
  ma_len :: nat
  ma_cap :: nat
  ma_slots :: "'a option list"

type_synonym 'a meta_array = "'a VD_Meta__Array option"

definition VD_META_ARRAY_LEN :: "'a meta_array \<Rightarrow> nat" where
  "VD_META_ARRAY_LEN a = (case a of None \<Rightarrow> 0 | Some h \<Rightarrow> ma_len h)"

definition VD_META_ARRAY_CAP :: "'a meta_array \<Rightarrow> nat" where
  "VD_META_ARRAY_CAP a = (case a of None \<Rightarrow> 0 | Some h \<Rightarrow> ma_cap h)"

definition vd_meta__array_grow :: "'a meta_array \<Rightarrow> nat \<Rightarrow> nat \<Rightarrow> 'a meta_array" where
  "vd_meta__array_grow a addlen mincap =
     (let min_len = VD_META_ARRAY_LEN a + addlen;
          mincap1 = (if mincap < min_len then min_len else mincap) in
      if mincap1 \<le> VD_META_ARRAY_CAP a then a
      else
        let mincap2 = (if mincap1 < 2 * VD_META_ARRAY_CAP a then 2 * VD_META_ARRAY_CAP a
                       else if mincap1 < 4 then 4 else mincap1) in
        Some (case a of
            None \<Rightarrow> \<lparr>ma_len = 0, ma_cap = mincap2, ma_slots = replicate mincap2 None\<rparr>
          | Some h \<Rightarrow> h\<lparr>ma_cap := mincap2, ma_slots := ma_slots h @ replicate (mincap2 - ma_cap h) None\<rparr>))"

definition VD_META_ARRAY_CHECK_GROW :: "'a meta_array \<Rightarrow> nat \<Rightarrow> 'a meta_array" where
  "VD_META_ARRAY_CHECK_GROW a n =
     (if a = None \<or> VD_META_ARRAY_CAP a < VD_META_ARRAY_LEN a + n then vd_meta__array_grow a n 0 else a)"

definition VD_META_ARRAY_ADD :: "'a meta_array \<Rightarrow> 'a \<Rightarrow> 'a meta_array" where
  "VD_META_ARRAY_ADD a x =
     map_option (\<lambda>h. h\<lparr>ma_len := ma_len h + 1, ma_slots := (ma_slots h)[ma_len h := Some x]\<rparr>)
       (VD_META_ARRAY_CHECK_GROW a 1)"

definition VD_META_ARRAY_ADDN :: "'a meta_array \<Rightarrow> nat \<Rightarrow> 'a meta_array" where
  "VD_META_ARRAY_ADDN a n = map_option (\<lambda>h. h\<lparr>ma_len := ma_len h + n\<rparr>) (VD_META_ARRAY_CHECK_GROW a n)"

definition meta_array_get :: "'a meta_array \<Rightarrow> nat \<Rightarrow> 'a option" where
  "meta_array_get a i = do { h \<leftarrow> a; if i < ma_len h then ma_slots h ! i else None }"

text \<open>
  The default functions of an intrusive array: they add an element (with null, an unwritten slot) and
  read the length.
\<close>

definition vd_meta__intrusive_array_add_default_proc :: "'a meta_array \<Rightarrow> 'a option \<Rightarrow> 'a meta_array" where
  "vd_meta__intrusive_array_add_default_proc array element =
     (let array' = (if array = None \<or> VD_META_ARRAY_CAP array < VD_META_ARRAY_LEN array + 1
                    then vd_meta__array_grow array 1 0 else array) in
      map_option (\<lambda>h. h\<lparr>ma_slots := (case element of None \<Rightarrow> ma_slots h
                                          | Some x \<Rightarrow> (ma_slots h)[ma_len h := Some x]),
                        ma_len := ma_len h + 1\<rparr>) array')"

definition vd_meta__intrusive_array_len_default_proc :: "'a meta_array \<Rightarrow> nat" where
  "vd_meta__intrusive_array_len_default_proc array = VD_META_ARRAY_LEN array"

text \<open>The array is the one of lib/array.h without its allocator.\<close>

definition as_darray :: "'a meta_array \<Rightarrow> 'a darray" where
  "as_darray = map_option (\<lambda>h. \<lparr>da_len = ma_len h, da_cap = ma_cap h, da_allocator = 1, da_slots = ma_slots h\<rparr>)"

definition meta_holds :: "'a meta_array \<Rightarrow> 'a list \<Rightarrow> bool" where
  "meta_holds a xs \<longleftrightarrow> (if a = None then xs = [] else holds (as_darray a) xs)"

lemma as_darray_len: "array_len (as_darray a) = VD_META_ARRAY_LEN a" "array_cap (as_darray a) = VD_META_ARRAY_CAP a"
  by (cases a; simp add: as_darray_def array_len_def array_cap_def VD_META_ARRAY_LEN_def VD_META_ARRAY_CAP_def)+

lemma meta_grow_eq: "vd_array_grow (as_darray a) addlen mincap 1 = Some (as_darray (vd_meta__array_grow a addlen mincap))"
  unfolding vd_array_grow_def vd_meta__array_grow_def as_darray_len Let_def grown_cap_def
  by (cases a) (auto simp: as_darray_def)

text \<open>The growable array of the type registry is the one of the engine: with a live allocator both
  grow to the same array.\<close>

theorem vd_meta__array_grow_eq:
  "vd_array_grow (as_darray a) addlen mincap 1 = Some (as_darray (vd_meta__array_grow a addlen mincap))"
  by (rule meta_grow_eq)

lemma meta_check_grow_eq:
  "a \<noteq> None \<Longrightarrow> array_check_grow (as_darray a) n = Some (as_darray (VD_META_ARRAY_CHECK_GROW a n))"
proof -
  assume "a \<noteq> None"
  then obtain h where h: "a = Some h" by auto
  have d: "as_darray a = Some \<lparr>da_len = ma_len h, da_cap = ma_cap h, da_allocator = 1, da_slots = ma_slots h\<rparr>"
    by (simp add: h as_darray_def)
  have alc: "array_alc (as_darray a) = 1" by (simp add: d array_alc_def)
  have "array_check_grow (as_darray a) n =
      (if ma_cap h < ma_len h + n then vd_array_grow (as_darray a) n 0 1 else Some (as_darray a))"
    unfolding array_check_grow_def alc by (simp add: d)
  then show ?thesis
    unfolding meta_grow_eq by (simp add: VD_META_ARRAY_CHECK_GROW_def h VD_META_ARRAY_LEN_def VD_META_ARRAY_CAP_def)
qed

lemma meta_add_eq: "a \<noteq> None \<Longrightarrow> array_add (as_darray a) x = Some (as_darray (VD_META_ARRAY_ADD a x))"
proof -
  assume a: "a \<noteq> None"
  then obtain h where h: "VD_META_ARRAY_CHECK_GROW a 1 = Some h"
    by (cases "VD_META_ARRAY_CHECK_GROW a 1") (auto simp: VD_META_ARRAY_CHECK_GROW_def vd_meta__array_grow_def Let_def
      split: if_splits)
  show ?thesis
    unfolding array_add_def meta_check_grow_eq [OF a] VD_META_ARRAY_ADD_def h by (simp add: as_darray_def)
qed

lemma meta_holds_empty: "meta_holds None []"
  by (simp add: meta_holds_def)

lemma meta_add_first: "VD_META_ARRAY_ADD None x = Some \<lparr>ma_len = 1, ma_cap = 4, ma_slots = [Some x, None, None, None]\<rparr>"
proof -
  have "vd_meta__array_grow (None :: 'a meta_array) 1 0 = Some \<lparr>ma_len = 0, ma_cap = 4, ma_slots = replicate 4 None\<rparr>"
    by (simp add: vd_meta__array_grow_def VD_META_ARRAY_LEN_def VD_META_ARRAY_CAP_def)
  then show ?thesis
    by (simp add: VD_META_ARRAY_ADD_def VD_META_ARRAY_CHECK_GROW_def) (simp add: numeral_eq_Suc)
qed

lemma meta_holds_add: "meta_holds a xs \<Longrightarrow> meta_holds (VD_META_ARRAY_ADD a x) (xs @ [x])"
proof (cases a)
  case None
  assume "meta_holds a xs"
  then have "xs = []" by (simp add: meta_holds_def None)
  then show ?thesis unfolding None meta_add_first by (simp add: meta_holds_def as_darray_def holds_def)
next
  case (Some h)
  assume "meta_holds a xs"
  then have "holds (as_darray a) xs" by (simp add: meta_holds_def Some)
  then obtain d where d: "array_add (as_darray a) x = Some d" "holds d (xs @ [x])"
    using array_add_holds [of "as_darray a" xs x] by auto
  have ne: "a \<noteq> None" by (simp add: Some)
  have "Some (as_darray (VD_META_ARRAY_ADD a x)) = Some d"
    by (rule trans [OF meta_add_eq [OF ne, symmetric] d(1)])
  then have e: "as_darray (VD_META_ARRAY_ADD a x) = d" by (rule option.inject [THEN iffD1])
  have "VD_META_ARRAY_ADD a x \<noteq> None"
  proof
    assume "VD_META_ARRAY_ADD a x = None"
    then have "d = None" using e by (simp add: as_darray_def)
    then show False using d(2) by (simp add: holds_def)
  qed
  then show ?thesis using d(2) by (simp add: meta_holds_def e)
qed

lemma meta_holds_len: "meta_holds a xs \<Longrightarrow> VD_META_ARRAY_LEN a = length xs"
  using holds_len [of "as_darray a" xs]
  by (cases a) (auto simp: meta_holds_def as_darray_len VD_META_ARRAY_LEN_def)

lemma meta_holds_get: "meta_holds a xs \<Longrightarrow> meta_array_get a i = (if i < length xs then Some (xs ! i) else None)"
proof (cases a)
  case (Some h)
  assume "meta_holds a xs"
  then have "holds (as_darray a) xs" by (simp add: meta_holds_def Some)
  then have "array_get (as_darray a) i = (if i < length xs then Some (xs ! i) else None)" by (rule holds_get)
  then show ?thesis by (simp add: Some as_darray_def array_get_def meta_array_get_def split: if_splits)
qed (simp add: meta_holds_def meta_array_get_def)

lemma intrusive_add_default: "vd_meta__intrusive_array_add_default_proc a (Some x) = VD_META_ARRAY_ADD a x"
  unfolding vd_meta__intrusive_array_add_default_proc_def VD_META_ARRAY_ADD_def VD_META_ARRAY_CHECK_GROW_def
    Let_def option.case by (rule option.map_cong [OF refl]) simp

section \<open>The registry\<close>

record VD_Meta__IDEntry =
  ide_id :: u64
  ide_name :: "char list"

record VD_Meta_Registry =
  reg_table :: "VD_Meta_Descriptor meta_array list"
  reg_table_cap :: nat
  reg_type_ids :: "VD_Meta__IDEntry meta_array list"
  reg_type_ids_cap :: nat
  reg_next_id :: u64

definition str_bytes :: "char list \<Rightarrow> u8 list" where
  "str_bytes = map of_char"

definition meta_id_index :: "VD_Meta_Registry \<Rightarrow> u64 \<Rightarrow> nat" where
  "meta_id_index reg i = unat (vd_meta__hash (u64_bytes i) 0x23320) mod reg_table_cap reg"

definition meta_name_index :: "VD_Meta_Registry \<Rightarrow> char list \<Rightarrow> nat" where
  "meta_name_index reg n = unat (vd_meta__hash (str_bytes n) 0x29024) mod reg_type_ids_cap reg"

definition vd_meta_register :: "VD_Meta_Registry \<Rightarrow> VD_Meta_Descriptor \<Rightarrow> u64 \<times> VD_Meta_Registry" where
  "vd_meta_register reg0 descriptor =
     (let (copy_desc, reg) =
            (if md_id descriptor = 0
             then (descriptor\<lparr>md_id := reg_next_id reg0\<rparr>, reg0\<lparr>reg_next_id := reg_next_id reg0 + 1\<rparr>)
             else (descriptor, reg0));
          idindex = meta_id_index reg (md_id copy_desc);
          nameindex = meta_name_index reg (md_name descriptor);
          identry = \<lparr>ide_id = md_id copy_desc, ide_name = md_name copy_desc\<rparr> in
      (md_id copy_desc,
       reg\<lparr>reg_type_ids := (reg_type_ids reg)[nameindex := VD_META_ARRAY_ADD (reg_type_ids reg ! nameindex) identry],
           reg_table := (reg_table reg)[idindex := VD_META_ARRAY_ADD (reg_table reg ! idindex) copy_desc]\<rparr>))"

text \<open>The loops over a bucket from index \<open>i\<close> with \<open>n\<close> entries to go; a missing id is 0, a missing
  descriptor null.\<close>

fun meta_find_id :: "VD_Meta__IDEntry meta_array \<Rightarrow> char list \<Rightarrow> nat \<Rightarrow> nat \<Rightarrow> u64 option" where
  "meta_find_id b name i 0 = Some 0"
| "meta_find_id b name i (Suc n) =
     do { entry \<leftarrow> meta_array_get b i;
          if ide_name entry = name then Some (ide_id entry) else meta_find_id b name (Suc i) n }"

definition vd_meta_get_id :: "VD_Meta_Registry \<Rightarrow> char list \<Rightarrow> u64 option" where
  "vd_meta_get_id reg name =
     (let b = reg_type_ids reg ! meta_name_index reg name in meta_find_id b name 0 (VD_META_ARRAY_LEN b))"

fun meta_find_desc :: "VD_Meta_Descriptor meta_array \<Rightarrow> u64 \<Rightarrow> nat \<Rightarrow> nat \<Rightarrow> VD_Meta_Descriptor option option" where
  "meta_find_desc b key i 0 = Some None"
| "meta_find_desc b key i (Suc n) =
     do { desc \<leftarrow> meta_array_get b i;
          if md_id desc = key then Some (Some desc) else meta_find_desc b key (Suc i) n }"

definition vd_meta_get_descriptor :: "VD_Meta_Registry \<Rightarrow> u64 \<Rightarrow> VD_Meta_Descriptor option option" where
  "vd_meta_get_descriptor reg key =
     (let b = reg_table reg ! meta_id_index reg key in meta_find_desc b key 0 (VD_META_ARRAY_LEN b))"

definition meta_default_types :: "VD_Meta_Descriptor list" where
  "meta_default_types =
     [meta_desc ''int8_t'' VD_META_TYPE_PRIMITIVE 1 VD_META_PRIMITIVE_TYPE_I8,
      meta_desc ''uint8_t'' VD_META_TYPE_PRIMITIVE 1 VD_META_PRIMITIVE_TYPE_U8,
      meta_desc ''int16_t'' VD_META_TYPE_PRIMITIVE 2 VD_META_PRIMITIVE_TYPE_I16,
      meta_desc ''uint16_t'' VD_META_TYPE_PRIMITIVE 2 VD_META_PRIMITIVE_TYPE_U16,
      meta_desc ''int32_t'' VD_META_TYPE_PRIMITIVE 4 VD_META_PRIMITIVE_TYPE_I32,
      meta_desc ''uint32_t'' VD_META_TYPE_PRIMITIVE 4 VD_META_PRIMITIVE_TYPE_U32,
      meta_desc ''int64_t'' VD_META_TYPE_PRIMITIVE 8 VD_META_PRIMITIVE_TYPE_I64,
      meta_desc ''uint64_t'' VD_META_TYPE_PRIMITIVE 8 VD_META_PRIMITIVE_TYPE_U64,
      meta_desc ''float'' VD_META_TYPE_PRIMITIVE 4 VD_META_PRIMITIVE_TYPE_F32,
      meta_desc ''double'' VD_META_TYPE_PRIMITIVE 8 VD_META_PRIMITIVE_TYPE_F64,
      meta_desc ''char'' VD_META_TYPE_PRIMITIVE 1 VD_META_PRIMITIVE_TYPE_CHAR8,
      meta_desc ''CString'' VD_META_TYPE_STRING 8 VD_META_PRIMITIVE_TYPE_I8]"

definition meta_register_all :: "VD_Meta_Descriptor list \<Rightarrow> VD_Meta_Registry \<Rightarrow> VD_Meta_Registry" where
  "meta_register_all ds reg = fold (\<lambda>d reg. snd (vd_meta_register reg d)) ds reg"

definition vd_meta_init :: VD_Meta_Registry where
  "vd_meta_init = meta_register_all meta_default_types
     \<lparr>reg_table = replicate 256 None, reg_table_cap = 256, reg_type_ids = replicate 256 None,
      reg_type_ids_cap = 256, reg_next_id = 1\<rparr>"

section \<open>What the registry holds\<close>

text \<open>
  Each bucket holds, in the order of registration, the entries whose key hashes to it. \<open>log\<close> is the
  list of all registered descriptors.
\<close>

definition entry_of :: "VD_Meta_Descriptor \<Rightarrow> VD_Meta__IDEntry" where
  "entry_of d = \<lparr>ide_id = md_id d, ide_name = md_name d\<rparr>"

definition reg_holds :: "VD_Meta_Registry \<Rightarrow> VD_Meta_Descriptor list \<Rightarrow> bool" where
  "reg_holds reg log \<longleftrightarrow>
     0 < reg_table_cap reg \<and> length (reg_table reg) = reg_table_cap reg \<and>
     0 < reg_type_ids_cap reg \<and> length (reg_type_ids reg) = reg_type_ids_cap reg \<and>
     (\<forall>i < reg_table_cap reg. meta_holds (reg_table reg ! i) (filter (\<lambda>d. meta_id_index reg (md_id d) = i) log)) \<and>
     (\<forall>i < reg_type_ids_cap reg. meta_holds (reg_type_ids reg ! i)
        (map entry_of (filter (\<lambda>d. meta_name_index reg (md_name d) = i) log)))"

text \<open>The descriptor as it is stored, and the log after a registration.\<close>

definition stored :: "VD_Meta_Registry \<Rightarrow> VD_Meta_Descriptor \<Rightarrow> VD_Meta_Descriptor" where
  "stored reg d = (if md_id d = 0 then d\<lparr>md_id := reg_next_id reg\<rparr> else d)"

lemma index_bounds:
  "reg_holds reg log \<Longrightarrow> meta_id_index reg k < length (reg_table reg)"
  "reg_holds reg log \<Longrightarrow> meta_name_index reg n < length (reg_type_ids reg)"
  by (simp_all add: reg_holds_def meta_id_index_def meta_name_index_def)

lemma register_eq:
  "vd_meta_register reg d = (md_id (stored reg d),
     reg\<lparr>reg_next_id := (if md_id d = 0 then reg_next_id reg + 1 else reg_next_id reg),
         reg_type_ids := (reg_type_ids reg)[meta_name_index reg (md_name d) :=
           VD_META_ARRAY_ADD (reg_type_ids reg ! meta_name_index reg (md_name d)) (entry_of (stored reg d))],
         reg_table := (reg_table reg)[meta_id_index reg (md_id (stored reg d)) :=
           VD_META_ARRAY_ADD (reg_table reg ! meta_id_index reg (md_id (stored reg d))) (stored reg d)]\<rparr>)"
  by (simp add: vd_meta_register_def stored_def entry_of_def meta_id_index_def meta_name_index_def Let_def)

lemma stored_name: "md_name (stored reg d) = md_name d"
  by (simp add: stored_def)

lemma register_holds:
  assumes "reg_holds reg log"
  shows "reg_holds (snd (vd_meta_register reg d)) (log @ [stored reg d])"
proof -
  let ?r = "snd (vd_meta_register reg d)" and ?d = "stored reg d"
  let ?i = "meta_id_index reg (md_id ?d)" and ?j = "meta_name_index reg (md_name d)"
  have ix: "meta_id_index ?r = meta_id_index reg" "meta_name_index ?r = meta_name_index reg"
    "reg_table_cap ?r = reg_table_cap reg" "reg_type_ids_cap ?r = reg_type_ids_cap reg"
    by (simp_all add: register_eq meta_id_index_def meta_name_index_def fun_eq_iff)
  have t: "reg_table ?r = (reg_table reg)[?i := VD_META_ARRAY_ADD (reg_table reg ! ?i) ?d]"
    and n: "reg_type_ids ?r = (reg_type_ids reg)[?j := VD_META_ARRAY_ADD (reg_type_ids reg ! ?j) (entry_of ?d)]"
    by (simp_all add: register_eq)
  have bi: "?i < reg_table_cap reg" and bj: "?j < reg_type_ids_cap reg"
    using assms by (simp_all add: reg_holds_def meta_id_index_def meta_name_index_def)
  have "meta_holds (reg_table ?r ! i) (filter (\<lambda>d. meta_id_index reg (md_id d) = i) (log @ [?d]))"
    if "i < reg_table_cap reg" for i
    using assms that bi unfolding t
    by (cases "i = ?i") (auto simp: reg_holds_def nth_list_update intro: meta_holds_add)
  moreover have "meta_holds (reg_type_ids ?r ! i)
      (map entry_of (filter (\<lambda>d. meta_name_index reg (md_name d) = i) (log @ [?d])))"
    if "i < reg_type_ids_cap reg" for i
    using assms that bj unfolding n
    by (cases "i = ?j") (auto simp: reg_holds_def nth_list_update stored_name intro: meta_holds_add)
  ultimately show ?thesis
    using assms unfolding reg_holds_def ix by (simp add: t n)
qed

lemma find_id_spec:
  "meta_holds b es \<Longrightarrow> i + n = length es \<Longrightarrow>
     meta_find_id b name i n = Some (case List.find (\<lambda>e. ide_name e = name) (drop i es) of None \<Rightarrow> 0 | Some e \<Rightarrow> ide_id e)"
proof (induction n arbitrary: i)
  case (Suc n)
  then have "drop i es = es ! i # drop (Suc i) es" by (simp add: Cons_nth_drop_Suc)
  with Suc show ?case by (simp add: meta_holds_get)
qed simp

lemma find_desc_spec:
  "meta_holds b ds \<Longrightarrow> i + n = length ds \<Longrightarrow>
     meta_find_desc b key i n = Some (List.find (\<lambda>d. md_id d = key) (drop i ds))"
proof (induction n arbitrary: i)
  case (Suc n)
  then have "drop i ds = ds ! i # drop (Suc i) ds" by (simp add: Cons_nth_drop_Suc)
  with Suc show ?case by (simp add: meta_holds_get)
qed simp

lemma find_filter: "(\<And>x. P x \<Longrightarrow> Q x) \<Longrightarrow> List.find P (filter Q xs) = List.find P xs"
  by (induction xs) auto

lemma find_map: "List.find P (map f xs) = map_option f (List.find (\<lambda>x. P (f x)) xs)"
  by (induction xs) auto

lemma get_descriptor_holds:
  assumes "reg_holds reg log"
  shows "vd_meta_get_descriptor reg key = Some (List.find (\<lambda>d. md_id d = key) log)"
proof -
  let ?i = "meta_id_index reg key"
  have "?i < reg_table_cap reg" using assms by (simp add: reg_holds_def meta_id_index_def)
  then have h: "meta_holds (reg_table reg ! ?i) (filter (\<lambda>d. meta_id_index reg (md_id d) = ?i) log)"
    using assms by (simp add: reg_holds_def)
  show ?thesis
    using find_desc_spec [OF h, of 0 _ key] find_filter [of "\<lambda>d. md_id d = key" "\<lambda>d. meta_id_index reg (md_id d) = ?i" log]
    by (simp add: vd_meta_get_descriptor_def meta_holds_len [OF h])
qed

lemma get_id_holds:
  assumes "reg_holds reg log"
  shows "vd_meta_get_id reg name = Some (case List.find (\<lambda>d. md_name d = name) log of None \<Rightarrow> 0 | Some d \<Rightarrow> md_id d)"
proof -
  let ?i = "meta_name_index reg name"
  have "?i < reg_type_ids_cap reg" using assms by (simp add: reg_holds_def meta_name_index_def)
  then have h: "meta_holds (reg_type_ids reg ! ?i) (map entry_of (filter (\<lambda>d. meta_name_index reg (md_name d) = ?i) log))"
    using assms by (simp add: reg_holds_def)
  show ?thesis
    using find_id_spec [OF h, of 0 _ name] find_filter [of "\<lambda>d. md_name d = name" "\<lambda>d. meta_name_index reg (md_name d) = ?i" log]
    by (auto simp: vd_meta_get_id_def meta_holds_len [OF h] find_map entry_of_def split: option.splits)
qed


text \<open>New types are numbered in the order of their registration.\<close>

fun number :: "nat \<Rightarrow> VD_Meta_Descriptor list \<Rightarrow> VD_Meta_Descriptor list" where
  "number k [] = []"
| "number k (d # ds) = d\<lparr>md_id := of_nat k\<rparr> # number (Suc k) ds"

lemma register_all_holds:
  "reg_holds reg log \<Longrightarrow> reg_next_id reg = of_nat k \<Longrightarrow> list_all (\<lambda>d. md_id d = 0) ds \<Longrightarrow>
     reg_holds (meta_register_all ds reg) (log @ number k ds) \<and>
     reg_next_id (meta_register_all ds reg) = of_nat (k + length ds)"
proof (induction ds arbitrary: reg log k)
  case (Cons d ds)
  let ?r = "snd (vd_meta_register reg d)"
  have st: "stored reg d = d\<lparr>md_id := of_nat k\<rparr>" using Cons.prems by (simp add: stored_def)
  have "reg_holds ?r (log @ [d\<lparr>md_id := of_nat k\<rparr>])" using register_holds [OF Cons.prems(1), of d] by (simp add: st)
  moreover have "reg_next_id ?r = of_nat (Suc k)" using Cons.prems by (simp add: register_eq add.commute)
  ultimately show ?case using Cons.IH [of ?r "log @ [d\<lparr>md_id := of_nat k\<rparr>]" "Suc k"] Cons.prems(3)
    by (simp add: meta_register_all_def)
qed (simp add: meta_register_all_def)

lemma register_all_append: "meta_register_all (ds @ es) reg = meta_register_all es (meta_register_all ds reg)"
  by (simp add: meta_register_all_def)

lemma init_holds:
  assumes "list_all (\<lambda>d. md_id d = 0) ds"
  shows "reg_holds (meta_register_all ds vd_meta_init) (number 1 (meta_default_types @ ds))"
proof -
  have "reg_holds \<lparr>reg_table = replicate 256 None, reg_table_cap = 256, reg_type_ids = replicate 256 None,
      reg_type_ids_cap = 256, reg_next_id = 1\<rparr> []"
    by (simp add: reg_holds_def meta_holds_empty)
  moreover have "list_all (\<lambda>d. md_id d = 0) (meta_default_types @ ds)"
    using assms by (simp add: meta_default_types_def meta_desc_def)
  ultimately show ?thesis
    using register_all_holds [where k = 1 and ds = "meta_default_types @ ds"]
    by (fastforce simp: vd_meta_init_def register_all_append)
qed

lemma number_nth: "i < length ds \<Longrightarrow> number k ds ! i = (ds ! i)\<lparr>md_id := of_nat (k + i)\<rparr>"
proof (induction ds arbitrary: k i)
  case (Cons d ds)
  then show ?case by (cases i) simp_all
qed simp

lemma number_length [simp]: "length (number k ds) = length ds"
  by (induction ds arbitrary: k) simp_all

lemma number_names: "map md_name (number k ds) = map md_name ds"
  by (induction ds arbitrary: k) simp_all

lemma number_ids: "map md_id (number k ds) = map of_nat [k..<k + length ds]"
proof (induction ds arbitrary: k)
  case (Cons d ds)
  have "[k..<k + length (d # ds)] = k # [Suc k..<Suc k + length ds]" by (subst upt_rec) simp
  then show ?case using Cons by simp
qed simp

lemma of_nat_u64_inj:
  assumes "a < 2 ^ 64" and "b < 2 ^ 64"
  shows "(of_nat a :: u64) = of_nat b \<longleftrightarrow> a = b"
proof
  assume e: "(of_nat a :: u64) = of_nat b"
  have "unat (of_nat a :: u64) = a" using assms(1) by (intro unat_of_nat_lt) simp
  moreover have "unat (of_nat b :: u64) = b" using assms(2) by (intro unat_of_nat_lt) simp
  ultimately show "a = b" using e by metis
qed (rule arg_cong)

lemma number_ids_distinct: "k + length ds < 2 ^ 64 \<Longrightarrow> distinct (map md_id (number k ds))"
  unfolding number_ids by (auto simp: distinct_map inj_on_def of_nat_u64_inj)

lemma find_distinct: "distinct (map f xs) \<Longrightarrow> i < length xs \<Longrightarrow> List.find (\<lambda>x. f x = f (xs ! i)) xs = Some (xs ! i)"
proof (induction xs arbitrary: i)
  case (Cons x xs)
  then show ?case by (cases i) auto
qed simp

lemma registry_resolves:
  assumes "list_all (\<lambda>d. md_id d = 0) ds" and "distinct (map md_name (meta_default_types @ ds))"
    and "length ds < 2 ^ 63" and "i < length (meta_default_types @ ds)"
  shows "vd_meta_get_id (meta_register_all ds vd_meta_init) (md_name ((meta_default_types @ ds) ! i)) = Some (of_nat (i + 1))
    \<and> vd_meta_get_descriptor (meta_register_all ds vd_meta_init) (of_nat (i + 1))
      = Some (Some (((meta_default_types @ ds) ! i)\<lparr>md_id := of_nat (i + 1)\<rparr>))"
proof -
  let ?all = "meta_default_types @ ds"
  note h = init_holds [OF assms(1)]
  have twelve: "length meta_default_types = 12" by (simp add: meta_default_types_def)
  have n: "number 1 ?all ! i = (?all ! i)\<lparr>md_id := of_nat (i + 1)\<rparr>" using number_nth [OF assms(4), of 1] by simp
  have i: "i < length (number 1 ?all)" using assms(4) by simp
  have "List.find (\<lambda>d. md_name d = md_name (number 1 ?all ! i)) (number 1 ?all) = Some (number 1 ?all ! i)"
    using assms(2) i by (intro find_distinct) (simp_all only: number_names)
  then have a: "List.find (\<lambda>d. md_name d = md_name (?all ! i)) (number 1 ?all) = Some (number 1 ?all ! i)"
    unfolding n by simp
  have "1 + length ?all < 2 ^ 64" using assms(3) twelve by simp
  then have "List.find (\<lambda>d. md_id d = md_id (number 1 ?all ! i)) (number 1 ?all) = Some (number 1 ?all ! i)"
    using i by (intro find_distinct number_ids_distinct)
  then have b: "List.find (\<lambda>d. md_id d = of_nat (i + 1)) (number 1 ?all) = Some (number 1 ?all ! i)"
    unfolding n by simp
  show ?thesis
    unfolding get_id_holds [OF h] get_descriptor_holds [OF h] a b n by simp
qed

text \<open>C18. In a registry that has been initialised and then given new types under new names, every name
  leads to the identifier that the type was given, and the identifier to the descriptor that was
  registered: the default types come first, in the order of their declaration.\<close>

theorem vd_meta_registry_lookup:
  assumes "list_all (\<lambda>d. md_id d = 0) ds" and "distinct (map md_name (meta_default_types @ ds))"
    and "length ds < 2 ^ 63" and "i < length (meta_default_types @ ds)"
  shows "vd_meta_get_id (meta_register_all ds vd_meta_init) (md_name ((meta_default_types @ ds) ! i)) = Some (of_nat (i + 1))
    \<and> vd_meta_get_descriptor (meta_register_all ds vd_meta_init) (of_nat (i + 1))
      = Some (Some (((meta_default_types @ ds) ! i)\<lparr>md_id := of_nat (i + 1)\<rparr>))"
  using assms by (rule registry_resolves)

text \<open>A type with one field of type \<open>int32_t\<close>, which has the number 5.\<close>

definition demo_type :: VD_Meta_Descriptor where
  "demo_type = (meta_desc ''Health'' VD_META_TYPE_OBJECT 4 VD_META_PRIMITIVE_TYPE_I8)
     \<lparr>md_fields := [\<lparr>mf_name = ''hp'', mf_type = 5, mf_offset = 0, mf_flags = 0, mf_fixed_len = 0, mf_props = 0\<rparr>]\<rparr>"

lemma demo_type_new:
  "list_all (\<lambda>d. md_id d = 0) [demo_type]" "distinct (map md_name (meta_default_types @ [demo_type]))"
  by (simp_all add: demo_type_def meta_default_types_def meta_desc_def)

lemma demo_type_nth: "(meta_default_types @ [demo_type]) ! 12 = demo_type" "12 < length (meta_default_types @ [demo_type])"
  by (simp_all add: meta_default_types_def)

theorem vd_meta_registry_lookup_witness:
  "vd_meta_get_id (meta_register_all [demo_type] vd_meta_init) ''Health'' = Some 13 \<and>
   vd_meta_get_descriptor (meta_register_all [demo_type] vd_meta_init) 13 = Some (Some (demo_type\<lparr>md_id := 13\<rparr>))"
  using vd_meta_registry_lookup [OF demo_type_new _ demo_type_nth(2)]
  unfolding demo_type_nth(1) by (simp add: demo_type_def meta_desc_def)

text \<open>A name that was never registered has the identifier 0, which no type has.\<close>

lemma vd_meta_get_id_missing:
  assumes "list_all (\<lambda>d. md_id d = 0) ds" and "name \<notin> set (map md_name (meta_default_types @ ds))"
  shows "vd_meta_get_id (meta_register_all ds vd_meta_init) name = Some 0"
proof -
  have "name \<notin> set (map md_name (number 1 (meta_default_types @ ds)))" unfolding number_names by (rule assms(2))
  then have "List.find (\<lambda>d. md_name d = name) (number 1 (meta_default_types @ ds)) = None"
    unfolding find_None_iff set_map by blast
  then show ?thesis using get_id_holds [OF init_holds [OF assms(1)], of name] by simp
qed

end
