(* ===== verification/Metamem.thy ===== *)
theory Metamem
  imports Prelude
begin

text \<open>
  The temporary memory of lib/vd_meta.h: the block arena and the character buffer. A block is the list
  of its bytes, the current block is the head of the list, and a pointer into the arena is the number of
  a block, counted from the first one, with an offset. The buffer is the list of its cells, with \<open>None\<close>
  for a byte that was never written. Sizes are naturals, bounded by the memory.
\<close>

section \<open>The block arena\<close>

record VD_Meta__ArenaBlock =
  blk_len :: nat
  blk_data :: "u8 list"

definition blk_cap :: "VD_Meta__ArenaBlock \<Rightarrow> nat" where
  "blk_cap b = length (blk_data b)"

record VD_Meta__Arena =
  mar_blocks :: "VD_Meta__ArenaBlock list"
  mar_block_size :: nat

definition new_block :: "u8 list \<Rightarrow> VD_Meta__ArenaBlock" where
  "new_block bytes = \<lparr>blk_len = 0, blk_data = bytes\<rparr>"

text \<open>\<open>fresh\<close> is the memory that the allocator hands out for a block, with whatever it contains.\<close>

definition vd_meta__arena_init :: "(nat \<Rightarrow> u8 list) \<Rightarrow> VD_Meta__Arena" where
  "vd_meta__arena_init fresh = \<lparr>mar_blocks = [new_block (fresh 1024)], mar_block_size = 1024\<rparr>"

definition vd_meta__arena_push ::
  "(nat \<Rightarrow> u8 list) \<Rightarrow> VD_Meta__Arena \<Rightarrow> nat \<Rightarrow> ((nat \<times> nat) option \<times> VD_Meta__Arena) option" where
  "vd_meta__arena_push fresh a len =
     (if mar_block_size a < len then Some (None, a)
      else (case mar_blocks a of
          [] \<Rightarrow> None
        | b # bs \<Rightarrow>
            let blocks = (if blk_cap b < blk_len b + len then new_block (fresh (mar_block_size a)) # b # bs else b # bs);
                c = hd blocks in
            Some (Some (length blocks - 1, blk_len c),
                  a\<lparr>mar_blocks := c\<lparr>blk_len := blk_len c + len\<rparr> # tl blocks\<rparr>)))"

definition arena_read :: "VD_Meta__Arena \<Rightarrow> nat \<times> nat \<Rightarrow> nat \<Rightarrow> u8 list option" where
  "arena_read a p n =
     (let bs = rev (mar_blocks a) in
      if fst p < length bs \<and> snd p + n \<le> blk_cap (bs ! fst p)
      then Some (take n (drop (snd p) (blk_data (bs ! fst p)))) else None)"

definition arena_write :: "VD_Meta__Arena \<Rightarrow> nat \<times> nat \<Rightarrow> u8 list \<Rightarrow> VD_Meta__Arena option" where
  "arena_write a p xs =
     (let bs = rev (mar_blocks a) in
      if fst p < length bs \<and> snd p + length xs \<le> blk_cap (bs ! fst p) then
        let b = bs ! fst p;
            d = take (snd p) (blk_data b) @ xs @ drop (snd p + length xs) (blk_data b) in
        Some (a\<lparr>mar_blocks := rev (bs[fst p := b\<lparr>blk_data := d\<rparr>])\<rparr>)
      else None)"

definition vd_meta__arena_alloc_proc ::
  "(nat \<Rightarrow> u8 list) \<Rightarrow> VD_Meta__Arena \<Rightarrow> nat \<times> nat \<Rightarrow> nat \<Rightarrow> nat \<Rightarrow> ((nat \<times> nat) option \<times> VD_Meta__Arena) option" where
  "vd_meta__arena_alloc_proc fresh a ptr prevsize newsize =
     (if newsize = 0 then Some (None, a)
      else do { (newptr, a') \<leftarrow> vd_meta__arena_push fresh a newsize;
                (case newptr of
                   None \<Rightarrow> Some (None, a')
                 | Some p \<Rightarrow>
                     if 0 < prevsize then
                       do { xs \<leftarrow> arena_read a' ptr prevsize; a'' \<leftarrow> arena_write a' p xs; Some (Some p, a'') }
                     else Some (Some p, a')) })"

text \<open>Freeing walks the chain and calls the allocator on each block; the numbers of the blocks, in the
  order of the calls.\<close>

fun arena_free_loop :: "VD_Meta__ArenaBlock list \<Rightarrow> nat list" where
  "arena_free_loop [] = []"
| "arena_free_loop (b # bs) = length bs # arena_free_loop bs"

definition vd_meta__arena_free :: "VD_Meta__Arena \<Rightarrow> nat list \<times> VD_Meta__Arena" where
  "vd_meta__arena_free a = (arena_free_loop (mar_blocks a), a\<lparr>mar_blocks := []\<rparr>)"

lemma arena_free_all: "fst (vd_meta__arena_free a) = rev [0..<length (mar_blocks a)]"
proof -
  have "arena_free_loop bs = rev [0..<length bs]" for bs by (induction bs) simp_all
  then show ?thesis by (simp add: vd_meta__arena_free_def)
qed

definition arena_wf :: "(nat \<Rightarrow> u8 list) \<Rightarrow> VD_Meta__Arena \<Rightarrow> bool" where
  "arena_wf fresh a \<longleftrightarrow> mar_blocks a \<noteq> [] \<and> length (fresh (mar_block_size a)) = mar_block_size a \<and>
     (\<forall>b \<in> set (mar_blocks a). blk_len b \<le> blk_cap b)"

text \<open>What a block number and an offset below the length of the block stand for: memory in use.\<close>

definition arena_used :: "VD_Meta__Arena \<Rightarrow> (nat \<times> nat) set" where
  "arena_used a = {(n, i). n < length (mar_blocks a) \<and> i < blk_len (rev (mar_blocks a) ! n)}"

lemma arena_push_spec:
  assumes "arena_wf fresh a" and "len \<le> mar_block_size a"
  shows "\<exists>n off a'. vd_meta__arena_push fresh a len = Some (Some (n, off), a') \<and> arena_wf fresh a' \<and>
    mar_block_size a' = mar_block_size a \<and>
    arena_used a' = arena_used a \<union> {n} \<times> {off..<off + len} \<and> arena_used a \<inter> {n} \<times> {off..<off + len} = {} \<and>
    n < length (mar_blocks a') \<and> off + len \<le> blk_cap (rev (mar_blocks a') ! n)"
proof -
  obtain b bs where b: "mar_blocks a = b # bs" using assms(1) by (cases "mar_blocks a") (auto simp: arena_wf_def)
  show ?thesis
  proof (cases "blk_cap b < blk_len b + len")
    case True
    let ?c = "new_block (fresh (mar_block_size a))"
    let ?a = "a\<lparr>mar_blocks := ?c\<lparr>blk_len := len\<rparr> # b # bs\<rparr>"
    have p: "vd_meta__arena_push fresh a len = Some (Some (Suc (length bs), 0), ?a)"
      using True assms(2) by (simp add: vd_meta__arena_push_def b new_block_def Let_def)
    have "arena_used ?a = arena_used a \<union> {Suc (length bs)} \<times> {0..<0 + len}"
      by (auto simp: arena_used_def b nth_append less_Suc_eq split: if_splits)
    moreover have "arena_used a \<inter> {Suc (length bs)} \<times> {0..<0 + len} = {}"
      by (auto simp: arena_used_def b)
    moreover have "arena_wf fresh ?a" using assms by (simp add: arena_wf_def b new_block_def blk_cap_def)
    moreover have "0 + len \<le> blk_cap (rev (mar_blocks ?a) ! Suc (length bs))"
      using assms by (simp add: nth_append new_block_def blk_cap_def arena_wf_def)
    ultimately show ?thesis using p by fastforce
  next
    case False
    let ?a = "a\<lparr>mar_blocks := b\<lparr>blk_len := blk_len b + len\<rparr> # bs\<rparr>"
    have p: "vd_meta__arena_push fresh a len = Some (Some (length bs, blk_len b), ?a)"
      using False assms(2) by (simp add: vd_meta__arena_push_def b Let_def)
    have "arena_used ?a = arena_used a \<union> {length bs} \<times> {blk_len b..<blk_len b + len}"
      by (auto simp: arena_used_def b nth_append less_Suc_eq split: if_splits)
    moreover have "arena_used a \<inter> {length bs} \<times> {blk_len b..<blk_len b + len} = {}"
      by (auto simp: arena_used_def b nth_append)
    moreover have "arena_wf fresh ?a" using assms False by (auto simp: arena_wf_def b blk_cap_def)
    moreover have "blk_len b + len \<le> blk_cap (rev (mar_blocks ?a) ! length bs)"
      using False by (simp add: nth_append blk_cap_def)
    ultimately show ?thesis using p by fastforce
  qed
qed

section \<open>The buffer\<close>

record VD_Meta__Buffer =
  mb_ptr :: "char option list"
  mb_len :: nat
  mb_cap :: nat

definition mb_empty :: VD_Meta__Buffer where
  "mb_empty = \<lparr>mb_ptr = [], mb_len = 0, mb_cap = 0\<rparr>"

text \<open>A reallocation keeps the bytes below the length and leaves the rest unwritten.\<close>

definition vd_meta__buffer_ensure_add :: "VD_Meta__Buffer \<Rightarrow> nat \<Rightarrow> VD_Meta__Buffer" where
  "vd_meta__buffer_ensure_add b len =
     (if mb_cap b < mb_len b + len then
        let cap = mb_cap b * 2 + len in
        b\<lparr>mb_cap := cap, mb_ptr := take (mb_len b) (mb_ptr b) @ replicate (cap - mb_len b) None\<rparr>
      else b)"

definition buffer_put :: "VD_Meta__Buffer \<Rightarrow> char list \<Rightarrow> VD_Meta__Buffer" where
  "buffer_put b s =
     b\<lparr>mb_ptr := take (mb_len b) (mb_ptr b) @ map Some s @ drop (mb_len b + length s) (mb_ptr b)\<rparr>"

definition vd_meta__buffer_pushstr :: "VD_Meta__Buffer \<Rightarrow> char list \<Rightarrow> VD_Meta__Buffer" where
  "vd_meta__buffer_pushstr b s =
     (let b' = buffer_put (vd_meta__buffer_ensure_add b (length s)) s in b'\<lparr>mb_len := mb_len b' + length s\<rparr>)"

definition vd_meta__buffer_push_zeroes :: "VD_Meta__Buffer \<Rightarrow> nat \<Rightarrow> VD_Meta__Buffer" where
  "vd_meta__buffer_push_zeroes b n =
     (let b' = buffer_put (vd_meta__buffer_ensure_add b n) (replicate n (CHR 0x00)) in b'\<lparr>mb_len := mb_len b' + n\<rparr>)"

definition vd_meta__buffer_now :: "VD_Meta__Buffer \<Rightarrow> nat" where
  "vd_meta__buffer_now b = mb_len b"

definition vd_meta__buffer_clear :: "VD_Meta__Buffer \<Rightarrow> VD_Meta__Buffer" where
  "vd_meta__buffer_clear b = b\<lparr>mb_len := 0\<rparr>"

definition vd_meta__buffer_free :: "VD_Meta__Buffer \<Rightarrow> VD_Meta__Buffer" where
  "vd_meta__buffer_free b = b\<lparr>mb_ptr := [], mb_len := 0, mb_cap := 0\<rparr>"

definition vd_meta__buffer_pushchar :: "VD_Meta__Buffer \<Rightarrow> char \<Rightarrow> VD_Meta__Buffer" where
  "vd_meta__buffer_pushchar b c =
     (let b' = buffer_put (vd_meta__buffer_ensure_add b 1) [c] in b'\<lparr>mb_len := mb_len b' + 1\<rparr>)"

definition vd_meta__buffer_terminate :: "VD_Meta__Buffer \<Rightarrow> VD_Meta__Buffer" where
  "vd_meta__buffer_terminate b = buffer_put (vd_meta__buffer_ensure_add b 1) [CHR 0x00]"

text \<open>The string at an offset of the buffer, up to its terminator; a byte that was never written has no
  value.\<close>

fun cstr_of :: "char option list \<Rightarrow> char list option" where
  "cstr_of [] = None"
| "cstr_of (None # cs) = None"
| "cstr_of (Some c # cs) = (if c = CHR 0x00 then Some [] else map_option (\<lambda>s. c # s) (cstr_of cs))"

definition vd_meta__buffer_get :: "VD_Meta__Buffer \<Rightarrow> nat \<Rightarrow> char list option" where
  "vd_meta__buffer_get b offset = cstr_of (drop offset (mb_ptr b))"

definition buf_holds :: "VD_Meta__Buffer \<Rightarrow> char list \<Rightarrow> bool" where
  "buf_holds b t \<longleftrightarrow> mb_len b = length t \<and> mb_len b \<le> mb_cap b \<and> length (mb_ptr b) = mb_cap b \<and>
     take (length t) (mb_ptr b) = map Some t"

lemma buf_empty: "buf_holds mb_empty []"
  by (simp add: buf_holds_def mb_empty_def)

lemma ensure_add_holds:
  "buf_holds b t \<Longrightarrow> buf_holds (vd_meta__buffer_ensure_add b n) t \<and> length t + n \<le> mb_cap (vd_meta__buffer_ensure_add b n)"
  by (auto simp: buf_holds_def vd_meta__buffer_ensure_add_def Let_def)

lemma buffer_put_holds:
  assumes "buf_holds b t" and "length t + length s \<le> mb_cap b"
  shows "buf_holds ((buffer_put b s)\<lparr>mb_len := mb_len (buffer_put b s) + length s\<rparr>) (t @ s)"
  using assms by (simp add: buf_holds_def buffer_put_def)

lemma pushstr_holds: "buf_holds b t \<Longrightarrow> buf_holds (vd_meta__buffer_pushstr b s) (t @ s)"
  using ensure_add_holds [of b t "length s"] buffer_put_holds
  by (simp add: vd_meta__buffer_pushstr_def Let_def)

lemma pushchar_holds: "buf_holds b t \<Longrightarrow> buf_holds (vd_meta__buffer_pushchar b c) (t @ [c])"
  using ensure_add_holds [of b t 1] buffer_put_holds [of "vd_meta__buffer_ensure_add b 1" t "[c]"]
  by (simp add: vd_meta__buffer_pushchar_def Let_def)

lemma push_zeroes_holds: "buf_holds b t \<Longrightarrow> buf_holds (vd_meta__buffer_push_zeroes b n) (t @ replicate n (CHR 0x00))"
  using ensure_add_holds [of b t n] buffer_put_holds [of "vd_meta__buffer_ensure_add b n" t "replicate n (CHR 0x00)"]
  by (simp add: vd_meta__buffer_push_zeroes_def Let_def)

lemma clear_holds: "buf_holds b t \<Longrightarrow> buf_holds (vd_meta__buffer_clear b) []"
  by (simp add: buf_holds_def vd_meta__buffer_clear_def)

lemma cstr_of_terminated:
  "CHR 0x00 \<notin> set s \<Longrightarrow> cstr_of (map Some s @ Some (CHR 0x00) # rest) = Some s"
  by (induction s) auto

lemma terminate_holds:
  assumes "buf_holds b (t @ s)" and "CHR 0x00 \<notin> set s"
  shows "buf_holds (vd_meta__buffer_terminate b) (t @ s) \<and> vd_meta__buffer_get (vd_meta__buffer_terminate b) (length t) = Some s"
proof -
  let ?e = "vd_meta__buffer_ensure_add b 1"
  have e: "buf_holds ?e (t @ s)" "length (t @ s) + 1 \<le> mb_cap ?e" using ensure_add_holds [OF assms(1), of 1] by auto
  then have p: "mb_ptr (vd_meta__buffer_terminate b)
      = map Some t @ map Some s @ Some (CHR 0x00) # drop (length (t @ s) + 1) (mb_ptr ?e)"
    by (simp add: vd_meta__buffer_terminate_def buffer_put_def buf_holds_def)
  have "vd_meta__buffer_get (vd_meta__buffer_terminate b) (length t) = Some s"
    using cstr_of_terminated [OF assms(2)] by (simp add: vd_meta__buffer_get_def p)
  moreover have "buf_holds (vd_meta__buffer_terminate b) (t @ s)"
    using e unfolding buf_holds_def p by (simp add: vd_meta__buffer_terminate_def buffer_put_def)
  ultimately show ?thesis by simp
qed

end
