(* ===== verification/Metajson.thy ===== *)
theory Metajson
  imports Meta Metamem Fmt
begin

text \<open>
  Writing and parsing objects as JSON, of lib/vd_meta.h.

  An object is memory at an address: a map from addresses to the scalar that is stored there, where a
  store destroys whatever it overlaps. A \<open>char *\<close> is the string it points to (the code never changes
  a string after it has been allocated).
  The text that is parsed is the list of its characters; behind it is a terminating zero, which is what
  \<open>strtol\<close> and its relatives run into.

  Parameters (\<open>meta_env\<close>) are the conversions of floating point numbers of the C library and the
  functions on intrusive arrays, which an application may replace. \<open>None\<close> is a result that C does not
  define (a null descriptor or an uninitialised key that is used, memory that does not hold a value of the
  type) or one for which the fuel, the depth of nested objects, was not enough.
\<close>

section \<open>Memory\<close>

datatype mval = VInt VD_Meta_PrimitiveType int | VFloat VD_Meta_PrimitiveType int | VChar char | VStr "char list"

type_synonym meta_mem = "nat \<Rightarrow> mval option"

fun prim_size :: "VD_Meta_PrimitiveType \<Rightarrow> nat" where
  "prim_size VD_META_PRIMITIVE_TYPE_I8 = 1"
| "prim_size VD_META_PRIMITIVE_TYPE_U8 = 1"
| "prim_size VD_META_PRIMITIVE_TYPE_I16 = 2"
| "prim_size VD_META_PRIMITIVE_TYPE_U16 = 2"
| "prim_size VD_META_PRIMITIVE_TYPE_I32 = 4"
| "prim_size VD_META_PRIMITIVE_TYPE_U32 = 4"
| "prim_size VD_META_PRIMITIVE_TYPE_I64 = 8"
| "prim_size VD_META_PRIMITIVE_TYPE_U64 = 8"
| "prim_size VD_META_PRIMITIVE_TYPE_F32 = 4"
| "prim_size VD_META_PRIMITIVE_TYPE_F64 = 8"
| "prim_size VD_META_PRIMITIVE_TYPE_CHAR8 = 1"

definition prim_signed :: "VD_Meta_PrimitiveType \<Rightarrow> bool" where
  "prim_signed pt \<longleftrightarrow> pt \<in> {VD_META_PRIMITIVE_TYPE_I8, VD_META_PRIMITIVE_TYPE_I16, VD_META_PRIMITIVE_TYPE_I32,
     VD_META_PRIMITIVE_TYPE_I64}"

fun val_size :: "mval \<Rightarrow> nat" where
  "val_size (VInt pt i) = prim_size pt"
| "val_size (VFloat pt x) = prim_size pt"
| "val_size (VChar c) = 1"
| "val_size (VStr s) = 8"

definition mem_store :: "nat \<Rightarrow> mval \<Rightarrow> meta_mem \<Rightarrow> meta_mem" where
  "mem_store a v m = (\<lambda>x. if x = a then Some v else
     (case m x of None \<Rightarrow> None
      | Some w \<Rightarrow> if x < a + val_size v \<and> a < x + val_size w then None else Some w))"

definition mem_clear :: "nat \<Rightarrow> nat \<Rightarrow> meta_mem \<Rightarrow> meta_mem" where
  "mem_clear a n m = (\<lambda>x.
     (case m x of None \<Rightarrow> None | Some w \<Rightarrow> if x < a + n \<and> a < x + val_size w then None else Some w))"

definition read_int :: "meta_mem \<Rightarrow> nat \<Rightarrow> VD_Meta_PrimitiveType \<Rightarrow> int option" where
  "read_int m a pt = (case m a of Some (VInt pt' i) \<Rightarrow> if pt' = pt then Some i else None | _ \<Rightarrow> None)"

definition read_float :: "meta_mem \<Rightarrow> nat \<Rightarrow> VD_Meta_PrimitiveType \<Rightarrow> int option" where
  "read_float m a pt = (case m a of Some (VFloat pt' i) \<Rightarrow> if pt' = pt then Some i else None | _ \<Rightarrow> None)"

definition read_char :: "meta_mem \<Rightarrow> nat \<Rightarrow> char option" where
  "read_char m a = (case m a of Some (VChar c) \<Rightarrow> Some c | _ \<Rightarrow> None)"

definition read_str :: "meta_mem \<Rightarrow> nat \<Rightarrow> char list option" where
  "read_str m a = (case m a of Some (VStr s) \<Rightarrow> Some s | _ \<Rightarrow> None)"

record meta_env =
  env_reg :: VD_Meta_Registry
  env_print_float :: "VD_Meta_PrimitiveType \<Rightarrow> int \<Rightarrow> char list"
  env_strtod :: "VD_Meta_PrimitiveType \<Rightarrow> char list \<Rightarrow> int \<times> nat"
  env_props :: nat
  env_array_ptr :: "meta_mem \<Rightarrow> nat \<Rightarrow> nat"
  env_array_len :: "nat \<Rightarrow> meta_mem \<Rightarrow> nat \<Rightarrow> nat"
  env_array_add :: "nat \<Rightarrow> nat \<Rightarrow> nat \<Rightarrow> meta_mem \<Rightarrow> meta_mem"

definition has_flag :: "VD_Meta_Field \<Rightarrow> u32 \<Rightarrow> bool" where
  "has_flag f flag \<longleftrightarrow> mf_flags f AND flag \<noteq> 0"

section \<open>Writing\<close>

definition push_spaces :: "int \<Rightarrow> VD_Meta__Buffer \<Rightarrow> VD_Meta__Buffer" where
  "push_spaces pretty b = ((\<lambda>b. vd_meta__buffer_pushchar b (CHR '' '')) ^^ nat pretty) b"

definition push_pretty :: "int \<Rightarrow> char \<Rightarrow> VD_Meta__Buffer \<Rightarrow> VD_Meta__Buffer" where
  "push_pretty pretty c b = (if 0 \<le> pretty then vd_meta__buffer_pushchar b c else b)"

text \<open>Writers of a value at an address with a type, into a buffer, with an indentation; the integer is
  the return code.\<close>

type_synonym desc_writer = "nat \<Rightarrow> u64 \<Rightarrow> VD_Meta__Buffer \<Rightarrow> int \<Rightarrow> (int \<times> VD_Meta__Buffer) option"

fun write_array_loop ::
  "desc_writer \<Rightarrow> nat \<Rightarrow> VD_Meta_Descriptor option \<Rightarrow> u64 \<Rightarrow> nat \<Rightarrow> int \<Rightarrow> nat \<Rightarrow> nat \<Rightarrow> VD_Meta__Buffer
     \<Rightarrow> VD_Meta__Buffer option" where
  "write_array_loop wd base sub t len pretty i 0 b = Some b"
| "write_array_loop wd base sub t len pretty i (Suc n) b =
     do { d \<leftarrow> sub;
          (_, b1) \<leftarrow> wd (base + i * md_size d) t (push_spaces pretty b) pretty;
          let b2 = (if i < len - 1 then vd_meta__buffer_pushstr b1 '','' else b1);
          write_array_loop wd base sub t len pretty (Suc i) n (push_pretty pretty (CHR 0x0A) b2) }"

text \<open>The two branches for arrays differ in the address and the length of the elements only.\<close>

definition write_array ::
  "meta_env \<Rightarrow> desc_writer \<Rightarrow> nat \<Rightarrow> nat \<Rightarrow> u64 \<Rightarrow> VD_Meta__Buffer \<Rightarrow> int \<Rightarrow> VD_Meta__Buffer option" where
  "write_array env wd base len t b pretty =
     (let b1 = push_pretty pretty (CHR 0x0A) b;
          b2 = vd_meta__buffer_pushstr (push_spaces pretty b1) ''['';
          b3 = push_pretty pretty (CHR 0x0A) b2;
          pretty1 = (if 0 \<le> pretty then pretty + 4 else pretty) in
      do { sub \<leftarrow> vd_meta_get_descriptor (env_reg env) t;
           b4 \<leftarrow> write_array_loop wd base sub t len pretty1 0 len b3;
           let pretty2 = (if 0 \<le> pretty1 then pretty1 - 4 else pretty1);
           Some (vd_meta__buffer_pushstr (push_spaces pretty2 b4) '']'') })"

definition vd_meta__write_json_field ::
  "meta_env \<Rightarrow> desc_writer \<Rightarrow> meta_mem \<Rightarrow> nat \<Rightarrow> VD_Meta_Field \<Rightarrow> VD_Meta__Buffer \<Rightarrow> int
     \<Rightarrow> (int \<times> VD_Meta__Buffer) option" where
  "vd_meta__write_json_field env wd m object field b pretty =
     do { b' \<leftarrow>
            (if has_flag field VD_META_FIELD_FLAG_FIXED_ARRAY then
               write_array env wd (object + mf_offset field) (mf_fixed_len field) (mf_type field) b pretty
             else if has_flag field VD_META_FIELD_FLAG_INTRUSIVE_ARRAY then
               write_array env wd (env_array_ptr env m (object + mf_offset field))
                 (env_array_len env (env_props env) m (object + mf_offset field)) (mf_type field) b pretty
             else map_option snd (wd (object + mf_offset field) (mf_type field) b pretty));
          Some (0, b') }"

fun write_fields_loop ::
  "meta_env \<Rightarrow> desc_writer \<Rightarrow> meta_mem \<Rightarrow> nat \<Rightarrow> VD_Meta_Field list \<Rightarrow> VD_Meta__Buffer \<Rightarrow> int
     \<Rightarrow> VD_Meta__Buffer option" where
  "write_fields_loop env wd m object [] b pretty = Some b"
| "write_fields_loop env wd m object (f # fs) b pretty =
     (let b1 = vd_meta__buffer_pushstr (push_spaces pretty b) ''\"'';
          b2 = vd_meta__buffer_pushstr b1 (mf_name f);
          b3 = vd_meta__buffer_pushstr b2 ''\":'';
          b4 = push_pretty pretty (CHR '' '') b3 in
      do { (_, b5) \<leftarrow> vd_meta__write_json_field env wd m object f b4 pretty;
           let b6 = (if fs \<noteq> [] then vd_meta__buffer_pushstr b5 '','' else b5);
           write_fields_loop env wd m object fs (push_pretty pretty (CHR 0x0A) b6) pretty })"

definition vd_meta__write_json_object ::
  "meta_env \<Rightarrow> desc_writer \<Rightarrow> meta_mem \<Rightarrow> nat \<Rightarrow> u64 \<Rightarrow> VD_Meta__Buffer \<Rightarrow> int \<Rightarrow> (int \<times> VD_Meta__Buffer) option" where
  "vd_meta__write_json_object env wd m object t b pretty =
     do { desc \<leftarrow> vd_meta_get_descriptor (env_reg env) t;
          (case desc of
             None \<Rightarrow> Some (VD_META_DESCRIPTOR_NOT_FOUND, b)
           | Some d \<Rightarrow>
               let b1 = push_pretty pretty (CHR 0x0A) (vd_meta__buffer_pushchar b (CHR ''{''));
                   pretty1 = (if 0 \<le> pretty then pretty + 4 else pretty);
                   b2 = vd_meta__buffer_pushstr (push_spaces pretty1 b1) ''\"--vd-meta-type-name--\":'';
                   b3 = push_pretty pretty1 (CHR '' '') b2;
                   b4 = vd_meta__buffer_pushstr b3 ''\"'';
                   b5 = vd_meta__buffer_pushstr b4 (md_name d);
                   b6 = vd_meta__buffer_pushstr b5 ''\"'';
                   b7 = vd_meta__buffer_pushstr b6 '','';
                   b8 = push_pretty pretty1 (CHR 0x0A) b7 in
               do { b9 \<leftarrow> write_fields_loop env wd m object (md_fields d) b8 pretty1;
                    let pretty2 = (if 0 \<le> pretty1 then (if pretty1 - 4 < 0 then 0 else pretty1 - 4) else pretty1);
                    Some (0, vd_meta__buffer_pushchar (push_spaces pretty2 b9) (CHR ''}'')) }) }"

text \<open>\<open>snprintf\<close> into 32 bytes keeps 31 characters.\<close>

definition write_primitive ::
  "meta_env \<Rightarrow> meta_mem \<Rightarrow> nat \<Rightarrow> VD_Meta_PrimitiveType \<Rightarrow> VD_Meta__Buffer \<Rightarrow> VD_Meta__Buffer option" where
  "write_primitive env m a pt b =
     (if pt = VD_META_PRIMITIVE_TYPE_CHAR8 then
        do { c \<leftarrow> read_char m a;
             Some (vd_meta__buffer_pushstr (vd_meta__buffer_pushchar (vd_meta__buffer_pushstr b ''\"'') c) ''\"'') }
      else if pt = VD_META_PRIMITIVE_TYPE_F32 \<or> pt = VD_META_PRIMITIVE_TYPE_F64 then
        do { x \<leftarrow> read_float m a pt; Some (vd_meta__buffer_pushstr b (take 31 (env_print_float env pt x))) }
      else do { i \<leftarrow> read_int m a pt; Some (vd_meta__buffer_pushstr b (take 31 (dec_int i))) })"

primrec vd_meta__write_json_descriptor :: "nat \<Rightarrow> meta_env \<Rightarrow> meta_mem \<Rightarrow> desc_writer" where
  "vd_meta__write_json_descriptor 0 env m object t b pretty = None"
| "vd_meta__write_json_descriptor (Suc n) env m object t b pretty =
     do { desc \<leftarrow> vd_meta_get_descriptor (env_reg env) t;
          (case desc of
             None \<Rightarrow> Some (VD_META_DESCRIPTOR_NOT_FOUND, b)
           | Some d \<Rightarrow>
               (case md_type_class d of
                  VD_META_TYPE_STRING \<Rightarrow>
                    (case md_string d of
                       VD_META_STRING_TYPE_CSTRING \<Rightarrow>
                         do { s \<leftarrow> read_str m object;
                              Some (0, vd_meta__buffer_pushstr (vd_meta__buffer_pushstr
                                         (vd_meta__buffer_pushstr b ''\"'') s) ''\"'') }
                     | VD_META_STRING_TYPE_SLICE \<Rightarrow> Some (0, b))
                | VD_META_TYPE_PRIMITIVE \<Rightarrow> do { b' \<leftarrow> write_primitive env m object (md_primitive d) b; Some (0, b') }
                | VD_META_TYPE_OBJECT \<Rightarrow>
                    do { (_, b') \<leftarrow> vd_meta__write_json_object env (vd_meta__write_json_descriptor n env m) m object t b pretty;
                         Some (0, b') }
                | VD_META_TYPE_ARRAY \<Rightarrow> Some (0, b))) }"

text \<open>The buffer is the output: its cells and its length.\<close>

definition vd_meta_write_json :: "nat \<Rightarrow> meta_env \<Rightarrow> meta_mem \<Rightarrow> nat \<Rightarrow> u64 \<Rightarrow> int \<Rightarrow> (int \<times> VD_Meta__Buffer) option" where
  "vd_meta_write_json n env m object t pretty =
     do { (_, b) \<leftarrow> vd_meta__write_json_object env (vd_meta__write_json_descriptor n env m) m object t mb_empty pretty;
          Some (0, vd_meta__buffer_terminate b) }"

end
