(* ===== verification/Metaparse.thy ===== *)
theory Metaparse
  imports Metajson
begin

text \<open>
  The JSON parser of lib/vd_meta.h, as it is: recursive descent over slices of the text, each a copy
  that is applied to its parent on success. See \<open>Metajson\<close> for the memory and the parameters.
\<close>

section \<open>Slices\<close>

record VD_Meta__Slice =
  sl_str :: "char list"
  sl_pos :: nat

definition slice_of :: "char list \<Rightarrow> VD_Meta__Slice" where
  "slice_of s = \<lparr>sl_str = s, sl_pos = 0\<rparr>"

definition vd_meta__slice_at_end :: "VD_Meta__Slice \<Rightarrow> bool" where
  "vd_meta__slice_at_end s \<longleftrightarrow> length (sl_str s) \<le> sl_pos s"

definition vd_meta__slice_expect_char :: "VD_Meta__Slice \<Rightarrow> char \<Rightarrow> bool \<times> VD_Meta__Slice" where
  "vd_meta__slice_expect_char s c =
     (if length (sl_str s) \<le> sl_pos s then (False, s)
      else if sl_str s ! sl_pos s \<noteq> c then (False, s)
      else (True, s\<lparr>sl_pos := sl_pos s + 1\<rparr>))"

definition vd_meta__slice_peek_char :: "VD_Meta__Slice \<Rightarrow> char \<Rightarrow> bool" where
  "vd_meta__slice_peek_char s c = (if length (sl_str s) \<le> sl_pos s then False else sl_str s ! sl_pos s = c)"

definition vd_meta__slice_read_char :: "VD_Meta__Slice \<Rightarrow> char \<times> VD_Meta__Slice" where
  "vd_meta__slice_read_char s =
     (if length (sl_str s) \<le> sl_pos s then (CHR 0x00, s) else (sl_str s ! sl_pos s, s\<lparr>sl_pos := sl_pos s + 1\<rparr>))"

definition json_space :: "char \<Rightarrow> bool" where
  "json_space c \<longleftrightarrow> c = CHR '' '' \<or> c = CHR 0x09 \<or> c = CHR 0x0A \<or> c = CHR 0x0D"

function vd_meta__slice_skip_whitespace :: "VD_Meta__Slice \<Rightarrow> VD_Meta__Slice" where
  "vd_meta__slice_skip_whitespace s =
     (if sl_pos s < length (sl_str s) \<and> json_space (sl_str s ! sl_pos s)
      then vd_meta__slice_skip_whitespace (s\<lparr>sl_pos := sl_pos s + 1\<rparr>) else s)"
  by pat_completeness auto
termination by (relation "measure (\<lambda>s. length (sl_str s) - sl_pos s)") auto

declare vd_meta__slice_skip_whitespace.simps [simp del]

definition VD_META__SLICE_COPY :: "VD_Meta__Slice \<Rightarrow> VD_Meta__Slice" where
  "VD_META__SLICE_COPY s = \<lparr>sl_str = drop (sl_pos s) (sl_str s), sl_pos = 0\<rparr>"

definition VD_META__SLICE_APPLY :: "VD_Meta__Slice \<Rightarrow> VD_Meta__Slice \<Rightarrow> VD_Meta__Slice" where
  "VD_META__SLICE_APPLY s t = t\<lparr>sl_pos := sl_pos t + sl_pos s\<rparr>"

definition find_field :: "VD_Meta_Descriptor \<Rightarrow> char list \<Rightarrow> VD_Meta_Field option" where
  "find_field d name = List.find (\<lambda>f. mf_name f = name) (md_fields d)"

section \<open>Strings and values to skip\<close>

definition json_escape :: "char \<Rightarrow> char" where
  "json_escape e =
     (if e = CHR 0x5C then CHR 0x5C else if e = CHR ''\"'' then CHR ''\"'' else if e = CHR ''/'' then CHR ''/''
      else if e = CHR ''b'' then CHR 0x08 else if e = CHR ''f'' then CHR 0x0C else if e = CHR ''n'' then CHR 0x0A
      else if e = CHR ''r'' then CHR 0x0D else if e = CHR ''t'' then CHR 0x09 else e)"

function json_string_loop ::
  "char \<Rightarrow> VD_Meta__Slice \<Rightarrow> VD_Meta__Buffer \<Rightarrow> char \<times> VD_Meta__Slice \<times> VD_Meta__Buffer" where
  "json_string_loop c s b =
     (if c = CHR ''\"'' \<or> c = CHR 0x00 then (c, s, b)
      else
        let (s', b') = (if c = CHR 0x5C
              then (let (e, s') = vd_meta__slice_read_char s in (s', vd_meta__buffer_pushchar b (json_escape e)))
              else (s, vd_meta__buffer_pushchar b c));
            (c', s'') = vd_meta__slice_read_char s' in
        json_string_loop c' s'' b')"
  by pat_completeness auto
termination
  by (relation "measure (\<lambda>(c, s, b). if c = CHR 0x00 then 0 else Suc (length (sl_str s) - sl_pos s))")
    (auto simp: vd_meta__slice_read_char_def split: if_splits)

declare json_string_loop.simps [simp del]

text \<open>The result is whether a string was read, the string (\<open>None\<close>: \<open>*key\<close> was not written), the slice
  and the buffer.\<close>

definition vd_meta__parse_json_string ::
  "VD_Meta__Slice \<Rightarrow> VD_Meta__Buffer \<Rightarrow> bool \<times> char list option \<times> VD_Meta__Slice \<times> VD_Meta__Buffer" where
  "vd_meta__parse_json_string sl b =
     (let (ok, s) = vd_meta__slice_expect_char (VD_META__SLICE_COPY sl) (CHR ''\"'') in
      if \<not> ok then (False, None, sl, b)
      else
        let (c, s1) = vd_meta__slice_read_char s;
            start = vd_meta__buffer_now b;
            (c', s2, b1) = json_string_loop c s1 b in
        if c' = CHR 0x00 then (False, None, sl, b1)
        else
          let b2 = vd_meta__buffer_terminate b1 in
          (True, vd_meta__buffer_get b2 start, VD_META__SLICE_APPLY s2 sl, b2))"

function vd_meta__json_skip_value :: "int \<Rightarrow> int \<Rightarrow> VD_Meta__Slice \<Rightarrow> bool \<times> VD_Meta__Slice" where
  "vd_meta__json_skip_value num_brackets num_braces sl =
     (let (c, s) = vd_meta__slice_read_char sl in
      if c = CHR 0x00 then (False, s)
      else if c = CHR ''['' then vd_meta__json_skip_value (num_brackets + 1) num_braces s
      else if c = CHR '']'' then vd_meta__json_skip_value (num_brackets - 1) num_braces s
      else if c = CHR ''{'' then vd_meta__json_skip_value num_brackets (num_braces + 1) s
      else if c = CHR ''}'' then vd_meta__json_skip_value num_brackets (num_braces - 1) s
      else if c = CHR '','' \<and> num_brackets = 0 \<and> num_braces = 0 then (True, s)
      else vd_meta__json_skip_value num_brackets num_braces s)"
  by pat_completeness auto
termination
  by (relation "measure (\<lambda>(_, _, s). length (sl_str s) - sl_pos s)")
    (auto simp: vd_meta__slice_read_char_def split: if_splits)

declare vd_meta__json_skip_value.simps [simp del]

section \<open>Fields that are arrays\<close>

definition field_props :: "meta_env \<Rightarrow> VD_Meta_Field \<Rightarrow> nat" where
  "field_props env f = (if mf_props f \<noteq> 0 then mf_props f else env_props env)"

text \<open>\<open>Some None\<close> is a null pointer.\<close>

definition vd_meta_field_array_add ::
  "meta_env \<Rightarrow> VD_Meta_Descriptor option \<Rightarrow> VD_Meta_Field \<Rightarrow> nat \<Rightarrow> meta_mem \<Rightarrow> (nat option \<times> meta_mem) option" where
  "vd_meta_field_array_add env field_desc f object m =
     (if \<not> has_flag f VD_META_FIELD_FLAG_INTRUSIVE_ARRAY then Some (None, m)
      else
        let loc = object + mf_offset f; l = env_array_len env (field_props env f) m loc in
        do { d \<leftarrow> field_desc;
             let m' = env_array_add env (field_props env f) loc (md_size d) m;
             Some (Some (env_array_ptr env m' loc + l * md_size d), m') })"

definition vd_meta_field_array_len :: "meta_env \<Rightarrow> VD_Meta_Field \<Rightarrow> nat \<Rightarrow> meta_mem \<Rightarrow> nat" where
  "vd_meta_field_array_len env f object m =
     (if \<not> has_flag f VD_META_FIELD_FLAG_INTRUSIVE_ARRAY \<or> \<not> has_flag f VD_META_FIELD_FLAG_FIXED_ARRAY then 0
      else if has_flag f VD_META_FIELD_FLAG_FIXED_ARRAY then mf_fixed_len f
      else env_array_len env (field_props env f) m (object + mf_offset f))"

text \<open>The setter computes the place of the item and stores nothing.\<close>

definition vd_meta_field_array_set :: "meta_env \<Rightarrow> VD_Meta_Field \<Rightarrow> nat \<Rightarrow> nat \<Rightarrow> 'v \<Rightarrow> meta_mem \<Rightarrow> meta_mem" where
  "vd_meta_field_array_set env f i object new_value m = m"

definition vd_meta_field_array_get :: "VD_Meta_Descriptor option \<Rightarrow> VD_Meta_Field \<Rightarrow> nat \<Rightarrow> nat \<Rightarrow> nat option option" where
  "vd_meta_field_array_get field_desc f i object =
     (if \<not> has_flag f VD_META_FIELD_FLAG_FIXED_ARRAY then Some None
      else do { d \<leftarrow> field_desc; Some (Some (object + mf_offset f + i * md_size d)) })"

section \<open>Numbers\<close>

definition c_isspace :: "char \<Rightarrow> bool" where
  "c_isspace c \<longleftrightarrow> c \<in> {CHR '' '', CHR 0x09, CHR 0x0A, CHR 0x0B, CHR 0x0C, CHR 0x0D}"

definition c_isdigit :: "char \<Rightarrow> bool" where
  "c_isdigit c \<longleftrightarrow> 48 \<le> (of_char c :: nat) \<and> (of_char c :: nat) \<le> 57"

definition c_digits :: "char list \<Rightarrow> nat" where
  "c_digits ds = foldl (\<lambda>n c. 10 * n + (of_char c - 48)) 0 ds"

text \<open>
  \<open>strtol\<close>, \<open>strtoul\<close> and their wider forms with base 10, on 64-bit \<open>long\<close>: the value and the number
  of characters that were used. Without digits nothing is used and the value is 0.
\<close>

definition c_sign :: "char list \<Rightarrow> nat" where
  "c_sign r = (case r of [] \<Rightarrow> 0 | c # cs \<Rightarrow> if c = CHR ''+'' \<or> c = CHR ''-'' then 1 else 0)"

definition c_strtol :: "bool \<Rightarrow> char list \<Rightarrow> int \<times> nat" where
  "c_strtol issigned s =
     (let r = dropWhile c_isspace s;
          neg = (r \<noteq> [] \<and> hd r = CHR ''-'');
          ds = takeWhile c_isdigit (drop (c_sign r) r);
          n = int (c_digits ds);
          v = (if neg then - n else n) in
      if ds = [] then (0, 0)
      else
        (if issigned then max (- (2 ^ 63)) (min (2 ^ 63 - 1) v) else if 2 ^ 64 \<le> n then 2 ^ 64 - 1 else v mod 2 ^ 64,
         length (takeWhile c_isspace s) + c_sign r + length ds))"

definition parse_number ::
  "VD_Meta_PrimitiveType \<Rightarrow> VD_Meta__Slice \<Rightarrow> nat \<Rightarrow> meta_mem \<Rightarrow> VD_Meta__Slice \<times> meta_mem" where
  "parse_number pt s object m =
     (let (v, used) = c_strtol (prim_signed pt) (sl_str s);
          w = to_int_type (prim_signed pt) (8 * prim_size pt) v in
      (s\<lparr>sl_pos := sl_pos s + used\<rparr>, mem_store object (VInt pt w) m))"

definition parse_float ::
  "meta_env \<Rightarrow> VD_Meta_PrimitiveType \<Rightarrow> VD_Meta__Slice \<Rightarrow> nat \<Rightarrow> meta_mem \<Rightarrow> VD_Meta__Slice \<times> meta_mem" where
  "parse_float env pt s object m =
     (let (v, used) = env_strtod env pt (sl_str s) in
      (s\<lparr>sl_pos := sl_pos s + used\<rparr>, mem_store object (VFloat pt v) m))"

section \<open>The parser\<close>

type_synonym parse_state = "VD_Meta__Slice \<times> VD_Meta__Buffer \<times> meta_mem"
type_synonym parse_result = "(int \<times> parse_state) option"

text \<open>A parser of an object: its type, its address and the state.\<close>

type_synonym object_parser = "u64 \<Rightarrow> nat \<Rightarrow> parse_state \<Rightarrow> parse_result"

definition vd_meta__parse_json_descriptor ::
  "meta_env \<Rightarrow> object_parser \<Rightarrow> VD_Meta_Field \<Rightarrow> VD_Meta_Descriptor option \<Rightarrow> nat \<Rightarrow> parse_state \<Rightarrow> parse_result" where
  "vd_meta__parse_json_descriptor env po field desc object st =
     (let (sl, b, m) = st; s = VD_META__SLICE_COPY sl in
      if vd_meta__slice_peek_char s (CHR ''{'') then
        do { (ret, s', b', m') \<leftarrow> po (mf_type field) object (s, b, m);
             if ret < 0 then Some (ret, sl, b', m')
             else Some (0, VD_META__SLICE_APPLY s' sl, b', m') }
      else
        do { d \<leftarrow> desc;
             (case md_type_class d of
                VD_META_TYPE_PRIMITIVE \<Rightarrow>
                  (if md_primitive d = VD_META_PRIMITIVE_TYPE_CHAR8 then
                     (let (ok1, s1) = vd_meta__slice_expect_char s (CHR ''\"'') in
                      if \<not> ok1 then Some (0, sl, b, m)
                      else
                        let (c, s2) = vd_meta__slice_read_char s1;
                            m' = mem_store object (VChar c) m;
                            (ok2, s3) = vd_meta__slice_expect_char s2 (CHR ''\"'') in
                        if ok2 then Some (0, VD_META__SLICE_APPLY s3 sl, b, m') else Some (0, sl, b, m'))
                   else if md_primitive d = VD_META_PRIMITIVE_TYPE_F32 \<or> md_primitive d = VD_META_PRIMITIVE_TYPE_F64 then
                     (let (s', m') = parse_float env (md_primitive d) s object m in
                      Some (0, VD_META__SLICE_APPLY s' sl, b, m'))
                   else
                     (let (s', m') = parse_number (md_primitive d) s object m in
                      Some (0, VD_META__SLICE_APPLY s' sl, b, m')))
              | VD_META_TYPE_STRING \<Rightarrow>
                  (case md_string d of
                     VD_META_STRING_TYPE_CSTRING \<Rightarrow>
                       (let (ok, key, s', b') = vd_meta__parse_json_string s b in
                        if ok then do { k \<leftarrow> key;
                                        Some (0, VD_META__SLICE_APPLY s' sl, b', mem_store object (VStr k) m) }
                        else Some (0, sl, b', m))
                   | VD_META_STRING_TYPE_SLICE \<Rightarrow> Some (0, sl, b, m))
              | _ \<Rightarrow> Some (0, sl, b, m)) })"

text \<open>One element, in the two ways an array field can ask for it; a negative code stops the loop.\<close>

definition parse_fixed_element ::
  "meta_env \<Rightarrow> object_parser \<Rightarrow> VD_Meta_Field \<Rightarrow> VD_Meta_Descriptor option \<Rightarrow> nat \<Rightarrow> nat \<Rightarrow> parse_state \<Rightarrow> parse_result" where
  "parse_fixed_element env po field field_desc i object st =
     (if \<not> has_flag field VD_META_FIELD_FLAG_FIXED_ARRAY then Some (0, st)
      else if mf_fixed_len field \<le> i then Some (VD_META_INVALID_JSON, st)
      else do { ptr \<leftarrow> vd_meta_field_array_get field_desc field i object;
                p \<leftarrow> ptr;
                vd_meta__parse_json_descriptor env po field field_desc p st })"

definition parse_intrusive_element ::
  "meta_env \<Rightarrow> object_parser \<Rightarrow> VD_Meta_Field \<Rightarrow> VD_Meta_Descriptor option \<Rightarrow> nat \<Rightarrow> parse_state \<Rightarrow> parse_result" where
  "parse_intrusive_element env po field field_desc object st =
     (if \<not> has_flag field VD_META_FIELD_FLAG_INTRUSIVE_ARRAY then Some (0, st)
      else
        let (s, b, m) = st in
        do { (ptr, m') \<leftarrow> vd_meta_field_array_add env field_desc field object m;
             p \<leftarrow> ptr;
             vd_meta__parse_json_descriptor env po field field_desc p (s, b, m') })"

partial_function (option) array_loop ::
  "meta_env \<Rightarrow> object_parser \<Rightarrow> VD_Meta_Field \<Rightarrow> VD_Meta_Descriptor option \<Rightarrow> nat \<Rightarrow> nat \<Rightarrow> parse_state \<Rightarrow> parse_result" where
  "array_loop env po field field_desc object i st =
     (let (s0, b0, m0) = st in
      do { (r1, st1) \<leftarrow> parse_fixed_element env po field field_desc i object (vd_meta__slice_skip_whitespace s0, b0, m0);
           if r1 < 0 then Some (r1, st1)
           else
             do { (r2, s2, b2, m2) \<leftarrow> parse_intrusive_element env po field field_desc object st1;
                  if r2 < 0 then Some (r2, s2, b2, m2)
                  else if fst (vd_meta__slice_expect_char s2 (CHR '']'')) then
                    Some (0, snd (vd_meta__slice_expect_char s2 (CHR '']'')), b2, m2)
                  else if \<not> fst (vd_meta__slice_expect_char s2 (CHR '','')) then Some (VD_META_INVALID_JSON, s2, b2, m2)
                  else array_loop env po field field_desc object (Suc i)
                         (snd (vd_meta__slice_expect_char s2 (CHR '','')), b2, m2) } })"

text \<open>\<open>!field->flags & FLAG\<close> negates first: the test is true exactly for a field without flags.\<close>

definition vd_meta__parse_json_field ::
  "meta_env \<Rightarrow> object_parser \<Rightarrow> VD_Meta_Field \<Rightarrow> nat \<Rightarrow> parse_state \<Rightarrow> parse_result" where
  "vd_meta__parse_json_field env po field object st =
     (let (sl, b, m) = st; s = vd_meta__slice_skip_whitespace (VD_META__SLICE_COPY sl) in
      do { desc \<leftarrow> vd_meta_get_descriptor (env_reg env) (mf_type field);
           if vd_meta__slice_peek_char s (CHR ''['') then
             (let nf = (if mf_flags field = 0 then 1 else 0 :: u32) in
              if nf AND VD_META_FIELD_FLAG_FIXED_ARRAY \<noteq> 0 \<or> nf AND VD_META_FIELD_FLAG_INTRUSIVE_ARRAY \<noteq> 0
              then Some (VD_META_INVALID_JSON, sl, b, m)
              else
                do { (ret, s', b', m') \<leftarrow>
                       array_loop env po field desc object 0 (snd (vd_meta__slice_expect_char s (CHR ''['')), b, m);
                     if ret < 0 then Some (ret, sl, b', m')
                     else Some (0, VD_META__SLICE_APPLY s' sl, b', m') })
           else
             (case desc of
                None \<Rightarrow> Some (VD_META_DESCRIPTOR_NOT_FOUND, sl, b, m)
              | Some d \<Rightarrow>
                  do { (ret, s', b', m') \<leftarrow> vd_meta__parse_json_descriptor env po field desc object (s, b, m);
                       if ret < 0 then Some (ret, sl, b', m')
                       else Some (0, VD_META__SLICE_APPLY s' sl, b', m') }) })"

text \<open>
  The loop over the members of an object; \<open>pf\<close> parses the value of a field. The test of the key's
  return code, \<open>!r < 0\<close>, is never true.
\<close>

partial_function (option) object_loop ::
  "(VD_Meta_Field \<Rightarrow> nat \<Rightarrow> parse_state \<Rightarrow> parse_result) \<Rightarrow> VD_Meta_Descriptor \<Rightarrow> nat \<Rightarrow> parse_state \<Rightarrow> parse_result" where
  "object_loop pf d out_object st =
     (let (s0, b0, m0) = st;
          (ok, key, s1, b1) = vd_meta__parse_json_string (vd_meta__slice_skip_whitespace s0) b0;
          s2 = vd_meta__slice_skip_whitespace s1 in
      if \<not> fst (vd_meta__slice_expect_char s2 (CHR '':'')) then Some (VD_META_INVALID_JSON, s2, b1, m0)
      else
        let s3 = vd_meta__slice_skip_whitespace (snd (vd_meta__slice_expect_char s2 (CHR '':''))) in
        do { k \<leftarrow> key;
             (case find_field d k of
                None \<Rightarrow>
                  (if fst (vd_meta__json_skip_value 0 0 s3)
                   then object_loop pf d out_object (snd (vd_meta__json_skip_value 0 0 s3), b1, m0)
                   else Some (VD_META_INVALID_JSON, snd (vd_meta__json_skip_value 0 0 s3), b1, m0))
              | Some field \<Rightarrow>
                  do { (ret, s4, b4, m4) \<leftarrow> pf field (out_object + mf_offset field) (s3, b1, m0);
                       if ret < 0 then Some (ret, s4, b4, m4)
                       else
                         let s5 = vd_meta__slice_skip_whitespace s4 in
                         if fst (vd_meta__slice_expect_char s5 (CHR ''}'')) then
                           Some (0, snd (vd_meta__slice_expect_char s5 (CHR ''}'')), b4, m4)
                         else if \<not> fst (vd_meta__slice_expect_char s5 (CHR '','')) then
                           Some (VD_META_INVALID_JSON, s5, b4, m4)
                         else object_loop pf d out_object (snd (vd_meta__slice_expect_char s5 (CHR '','')), b4, m4) }) })"

primrec vd_meta__parse_json_object :: "nat \<Rightarrow> meta_env \<Rightarrow> object_parser" where
  "vd_meta__parse_json_object 0 env t out_object st = None"
| "vd_meta__parse_json_object (Suc n) env t out_object st =
     (let (sl, b, m) = st in
      do { desc \<leftarrow> vd_meta_get_descriptor (env_reg env) t;
           (case desc of
              None \<Rightarrow> Some (VD_META_DESCRIPTOR_NOT_FOUND, sl, b, m)
            | Some d \<Rightarrow>
                let s = vd_meta__slice_skip_whitespace (VD_META__SLICE_COPY sl) in
                if \<not> fst (vd_meta__slice_expect_char s (CHR ''{'')) then Some (VD_META_INVALID_JSON, sl, b, m)
                else
                  do { (ret, s', b', m') \<leftarrow>
                         object_loop (vd_meta__parse_json_field env (vd_meta__parse_json_object n env)) d out_object
                           (snd (vd_meta__slice_expect_char s (CHR ''{'')), b, m);
                       if ret < 0 then Some (ret, sl, b', m')
                       else Some (0, VD_META__SLICE_APPLY s' sl, b', m') }) })"

text \<open>The result is the code and the type that was written to \<open>*actual_type\<close>, if any.\<close>

partial_function (option) object_type_loop ::
  "VD_Meta_Registry \<Rightarrow> u64 \<Rightarrow> VD_Meta__Slice \<Rightarrow> VD_Meta__Buffer \<Rightarrow> (int \<times> u64 option \<times> VD_Meta__Buffer) option" where
  "object_type_loop reg expected_type s0 b0 =
     (let s1 = vd_meta__slice_skip_whitespace s0 in
      if fst (vd_meta__slice_expect_char s1 (CHR ''}'')) then
        (if expected_type \<noteq> 0 then Some (0, Some expected_type, b0) else Some (VD_META_TYPE_NOT_FOUND, None, b0))
      else if vd_meta__slice_at_end s1 then Some (VD_META_INVALID_JSON, None, b0)
      else
        let (ok, key, s2, b1) = vd_meta__parse_json_string s1 b0;
            s3 = vd_meta__slice_skip_whitespace s2 in
        if \<not> fst (vd_meta__slice_expect_char s3 (CHR '':'')) then Some (VD_META_INVALID_JSON, None, b1)
        else
          let s4 = vd_meta__slice_skip_whitespace (snd (vd_meta__slice_expect_char s3 (CHR '':''))) in
          do { k \<leftarrow> key;
               if k = ''--vd-meta-type-name--'' then
                 (let (ok', type_name, s5, b2) = vd_meta__parse_json_string s4 b1 in
                  do { tn \<leftarrow> type_name;
                       i \<leftarrow> vd_meta_get_id reg tn;
                       if i = 0 then Some (VD_META_INVALID_TYPE, None, b2)
                       else if expected_type \<noteq> 0 \<and> i \<noteq> expected_type then Some (VD_META_TYPE_MISMATCH, Some i, b2)
                       else Some (0, Some i, b2) })
               else
                 (let s5 = vd_meta__slice_skip_whitespace (snd (vd_meta__json_skip_value 0 0 s4)) in
                  object_type_loop reg expected_type (snd (vd_meta__slice_expect_char s5 (CHR '',''))) b1) })"

definition vd_meta__json_get_object_type ::
  "VD_Meta_Registry \<Rightarrow> u64 \<Rightarrow> VD_Meta__Slice \<Rightarrow> VD_Meta__Buffer \<Rightarrow> (int \<times> u64 option \<times> VD_Meta__Buffer) option" where
  "vd_meta__json_get_object_type reg expected_type sl b =
     (let s = vd_meta__slice_skip_whitespace (VD_META__SLICE_COPY sl) in
      if \<not> fst (vd_meta__slice_expect_char s (CHR ''{'')) then Some (VD_META_INVALID_JSON, None, b)
      else object_type_loop reg expected_type (snd (vd_meta__slice_expect_char s (CHR ''{''))) b)"

text \<open>
  The result is the code, the type and the object that were handed out, and the memory. The temporary
  arena is set up and freed around the two passes and nothing else uses it.
\<close>

definition vd_meta_parse_json ::
  "nat \<Rightarrow> meta_env \<Rightarrow> (nat \<Rightarrow> nat) \<Rightarrow> u64 \<Rightarrow> char list \<Rightarrow> meta_mem
     \<Rightarrow> (int \<times> u64 option \<times> nat option \<times> meta_mem) option" where
  "vd_meta_parse_json n env alloc t json m =
     (let sl = slice_of json in
      do { (r, actual, b) \<leftarrow> vd_meta__json_get_object_type (env_reg env) t sl mb_empty;
           if r \<noteq> 0 then Some (r, None, None, m)
           else
             do { actual_type \<leftarrow> actual;
                  desc \<leftarrow> vd_meta_get_descriptor (env_reg env) actual_type;
                  (case desc of
                     None \<Rightarrow> Some (VD_META_DESCRIPTOR_NOT_FOUND, None, None, m)
                   | Some d \<Rightarrow>
                       let out_object = alloc (md_size d) in
                       do { (r', _, _, m') \<leftarrow> vd_meta__parse_json_object n env actual_type out_object
                              (sl, vd_meta__buffer_clear b, mem_clear out_object (md_size d) m);
                            Some (r', Some actual_type, Some out_object, m') }) } })"

end
