(* ===== verification/Metatext.thy ===== *)
theory Metatext
  imports Metaparse
begin

text \<open>
  What the writer produces: the text of a value as a function, and the proof that the writer appends
  exactly this text to its buffer. Values are trees of integers, characters, strings and objects; arrays
  and floating point numbers are left out here.
\<close>

section \<open>Values in memory\<close>

datatype jval = JInt VD_Meta_PrimitiveType int | JChar char | JStr "char list" | JObj "jval list"

type_synonym descs = "u64 \<Rightarrow> VD_Meta_Descriptor option"

definition env_descs :: "meta_env \<Rightarrow> descs \<Rightarrow> bool" where
  "env_descs env D \<longleftrightarrow> (\<forall>t. vd_meta_get_descriptor (env_reg env) t = Some (D t))"

definition int_prim :: "VD_Meta_PrimitiveType \<Rightarrow> bool" where
  "int_prim pt \<longleftrightarrow> pt \<noteq> VD_META_PRIMITIVE_TYPE_F32 \<and> pt \<noteq> VD_META_PRIMITIVE_TYPE_F64 \<and> pt \<noteq> VD_META_PRIMITIVE_TYPE_CHAR8"

definition prim_range :: "VD_Meta_PrimitiveType \<Rightarrow> int set" where
  "prim_range pt = (if prim_signed pt then {- (2 ^ (8 * prim_size pt - 1))..<2 ^ (8 * prim_size pt - 1)}
                    else {0..<2 ^ (8 * prim_size pt)})"

text \<open>The memory at an address, seen with a type, holds a value.\<close>

fun held :: "descs \<Rightarrow> meta_mem \<Rightarrow> nat \<Rightarrow> u64 \<Rightarrow> jval \<Rightarrow> bool"
  and held_fields :: "descs \<Rightarrow> meta_mem \<Rightarrow> nat \<Rightarrow> VD_Meta_Field list \<Rightarrow> jval list \<Rightarrow> bool" where
  "held D m a t (JInt pt i) =
     (case D t of None \<Rightarrow> False
      | Some d \<Rightarrow> md_type_class d = VD_META_TYPE_PRIMITIVE \<and> md_primitive d = pt \<and> int_prim pt \<and>
                  i \<in> prim_range pt \<and> m a = Some (VInt pt i))"
| "held D m a t (JChar c) =
     (case D t of None \<Rightarrow> False
      | Some d \<Rightarrow> md_type_class d = VD_META_TYPE_PRIMITIVE \<and> md_primitive d = VD_META_PRIMITIVE_TYPE_CHAR8 \<and>
                  m a = Some (VChar c))"
| "held D m a t (JStr s) =
     (case D t of None \<Rightarrow> False
      | Some d \<Rightarrow> md_type_class d = VD_META_TYPE_STRING \<and> md_string d = VD_META_STRING_TYPE_CSTRING \<and>
                  m a = Some (VStr s))"
| "held D m a t (JObj vs) =
     (case D t of None \<Rightarrow> False
      | Some d \<Rightarrow> md_type_class d = VD_META_TYPE_OBJECT \<and> held_fields D m a (md_fields d) vs)"
| "held_fields D m a [] [] = True"
| "held_fields D m a (f # fs) (v # vs) =
     (mf_flags f = 0 \<and> held D m (a + mf_offset f) (mf_type f) v \<and> held_fields D m a fs vs)"
| "held_fields D m a _ _ = False"

section \<open>The text of a value\<close>

definition tx_nl :: "int \<Rightarrow> char list" where "tx_nl p = (if 0 \<le> p then [CHR 0x0A] else [])"
definition tx_sp1 :: "int \<Rightarrow> char list" where "tx_sp1 p = (if 0 \<le> p then [CHR '' ''] else [])"
definition tx_sp :: "int \<Rightarrow> char list" where "tx_sp p = replicate (nat p) (CHR '' '')"
definition tx_in :: "int \<Rightarrow> int" where "tx_in p = (if 0 \<le> p then p + 4 else p)"
definition tx_out :: "int \<Rightarrow> int" where
  "tx_out p = (if 0 \<le> p then (if p - 4 < 0 then 0 else p - 4) else p)"

fun jtext :: "descs \<Rightarrow> int \<Rightarrow> u64 \<Rightarrow> jval \<Rightarrow> char list"
  and jfields :: "descs \<Rightarrow> int \<Rightarrow> VD_Meta_Field list \<Rightarrow> jval list \<Rightarrow> char list" where
  "jtext D p t (JInt pt i) = dec_int i"
| "jtext D p t (JChar c) = [CHR ''\"'', c, CHR ''\"'']"
| "jtext D p t (JStr s) = CHR ''\"'' # s @ [CHR ''\"'']"
| "jtext D p t (JObj vs) =
     (case D t of None \<Rightarrow> []
      | Some d \<Rightarrow> CHR ''{'' # tx_nl p @ tx_sp (tx_in p) @ ''\"--vd-meta-type-name--\":'' @ tx_sp1 (tx_in p)
          @ ''\"'' @ md_name d @ ''\",'' @ tx_nl (tx_in p) @ jfields D (tx_in p) (md_fields d) vs
          @ tx_sp (tx_out (tx_in p)) @ ''}'')"
| "jfields D p [] vs = []"
| "jfields D p (f # fs) [] = []"
| "jfields D p (f # fs) (v # vs) =
     tx_sp p @ ''\"'' @ mf_name f @ ''\":'' @ tx_sp1 p @ jtext D p (mf_type f) v
     @ (if fs \<noteq> [] then '','' else []) @ tx_nl p @ jfields D p fs vs"

section \<open>The writer writes the text\<close>

lemma push_spaces_holds: "buf_holds b t \<Longrightarrow> buf_holds (push_spaces p b) (t @ tx_sp p)"
proof -
  have "buf_holds b t \<Longrightarrow> buf_holds (((\<lambda>b. vd_meta__buffer_pushchar b (CHR '' '')) ^^ n) b) (t @ replicate n (CHR '' ''))"
    for n
  proof (induction n)
    case (Suc n)
    then have "buf_holds (((\<lambda>b. vd_meta__buffer_pushchar b (CHR '' '')) ^^ Suc n) b)
        ((t @ replicate n (CHR '' '')) @ [CHR '' ''])"
      using pushchar_holds by (simp del: append_assoc)
    then show ?case by (simp add: replicate_append_same)
  qed simp
  then show "buf_holds b t \<Longrightarrow> buf_holds (push_spaces p b) (t @ tx_sp p)" by (simp add: push_spaces_def tx_sp_def)
qed

lemma push_newline_holds: "buf_holds b t \<Longrightarrow> buf_holds (push_pretty p (CHR 0x0A) b) (t @ tx_nl p)"
  by (simp add: push_pretty_def tx_nl_def pushchar_holds)

lemma push_blank_holds: "buf_holds b t \<Longrightarrow> buf_holds (push_pretty p (CHR '' '') b) (t @ tx_sp1 p)"
  by (simp add: push_pretty_def tx_sp1_def pushchar_holds)

lemmas push_holds = push_spaces_holds push_newline_holds push_blank_holds pushstr_holds pushchar_holds

lemma dec_length: "n < 10 ^ k \<Longrightarrow> 0 < k \<Longrightarrow> length (dec n) \<le> k"
proof (induction n arbitrary: k rule: dec.induct)
  case (1 n)
  show ?case
  proof (cases "n < 10")
    case True
    then show ?thesis using "1.prems" by (simp add: dec.simps [of n])
  next
    case False
    then have "1 < k" using "1.prems" by (cases "k = 1") auto
    then obtain j where j: "k = Suc j" "0 < j" by (cases k) auto
    have "n div 10 < 10 ^ j" using "1.prems"(1) j(1) by (simp add: less_mult_imp_div_less mult.commute)
    then have "length (dec (n div 10)) \<le> j" using "1.IH" False j(2) by simp
    then show ?thesis using False j(1) by (simp add: dec.simps [of n])
  qed
qed

lemma prim_range_64: "i \<in> prim_range pt \<Longrightarrow> - (2 ^ 63) \<le> i \<and> i < 2 ^ 64"
  by (cases pt) (auto simp: prim_range_def prim_signed_def split: if_splits)

lemma dec_int_length: "i \<in> prim_range pt \<Longrightarrow> length (dec_int i) \<le> 31"
proof -
  assume "i \<in> prim_range pt"
  then have b: "- (2 ^ 63) \<le> i" "i < 2 ^ 64" using prim_range_64 by auto
  have "nat \<bar>i\<bar> < 10 ^ 30" using b by auto
  then have "length (dec (nat \<bar>i\<bar>)) \<le> 30" by (rule dec_length) simp
  then show ?thesis by (auto simp: dec_int_def split: if_splits)
qed

text \<open>A writer of the values of a list of fields, from some fuel on.\<close>

definition wr :: "meta_env \<Rightarrow> descs \<Rightarrow> meta_mem \<Rightarrow> nat \<Rightarrow> nat \<Rightarrow> u64 \<Rightarrow> jval \<Rightarrow> bool" where
  "wr env D m n a t v \<longleftrightarrow> (\<forall>b x p. buf_holds b x \<longrightarrow>
     (\<exists>b'. vd_meta__write_json_descriptor n env m a t b p = Some (0, b') \<and> buf_holds b' (x @ jtext D p t v)))"

fun wr_fields :: "meta_env \<Rightarrow> descs \<Rightarrow> meta_mem \<Rightarrow> nat \<Rightarrow> nat \<Rightarrow> VD_Meta_Field list \<Rightarrow> jval list \<Rightarrow> bool" where
  "wr_fields env D m n a (f # fs) (v # vs) =
     (mf_flags f = 0 \<and> wr env D m n (a + mf_offset f) (mf_type f) v \<and> wr_fields env D m n a fs vs)"
| "wr_fields env D m n a fs vs = (fs = [] \<and> vs = [])"

lemma write_fields_holds:
  "wr_fields env D m n a fs vs \<Longrightarrow> buf_holds b x \<Longrightarrow>
     \<exists>b'. write_fields_loop env (vd_meta__write_json_descriptor n env m) m a fs b p = Some b' \<and>
       buf_holds b' (x @ jfields D p fs vs)"
proof (induction fs arbitrary: vs b x)
  case Nil
  then show ?case by (cases vs) auto
next
  case (Cons f fs)
  then obtain v vs' where vs: "vs = v # vs'" by (cases vs) auto
  have w: "mf_flags f = 0" "wr env D m n (a + mf_offset f) (mf_type f) v" "wr_fields env D m n a fs vs'"
    using Cons.prems(1) by (simp_all add: vs)
  define b4 where "b4 = push_pretty p (CHR '' '') (vd_meta__buffer_pushstr (vd_meta__buffer_pushstr
    (vd_meta__buffer_pushstr (push_spaces p b) ''\"'') (mf_name f)) ''\":'')"
  let ?x4 = "((((x @ tx_sp p) @ ''\"'') @ mf_name f) @ ''\":'') @ tx_sp1 p"
  have "buf_holds b4 ?x4" unfolding b4_def by (intro push_holds Cons.prems(2))
  then obtain b5 where b5: "vd_meta__write_json_descriptor n env m (a + mf_offset f) (mf_type f) b4 p = Some (0, b5)"
    "buf_holds b5 (?x4 @ jtext D p (mf_type f) v)"
    using w(2) unfolding wr_def by blast
  have field: "vd_meta__write_json_field env (vd_meta__write_json_descriptor n env m) m a f b4 p = Some (0, b5)"
    using w(1) b5(1) by (simp add: vd_meta__write_json_field_def has_flag_def)
  define b6 where "b6 = (if fs \<noteq> [] then vd_meta__buffer_pushstr b5 '','' else b5)"
  let ?x6 = "(?x4 @ jtext D p (mf_type f) v) @ (if fs \<noteq> [] then '','' else [])"
  have "buf_holds b6 ?x6" using b5(2) pushstr_holds [OF b5(2), of "'',''"] by (auto simp: b6_def)
  then have "buf_holds (push_pretty p (CHR 0x0A) b6) (?x6 @ tx_nl p)" by (rule push_newline_holds)
  from Cons.IH [OF w(3) this] obtain b' where
    "write_fields_loop env (vd_meta__write_json_descriptor n env m) m a fs (push_pretty p (CHR 0x0A) b6) p = Some b'"
    "buf_holds b' ((?x6 @ tx_nl p) @ jfields D p fs vs')"
    by blast
  then show ?case
    using field by (simp add: vs Let_def b4_def [symmetric] b6_def [symmetric])
qed

lemma write_object_holds:
  assumes "env_descs env D" and "D t = Some d" and "wr_fields env D m n a (md_fields d) vs" and "buf_holds b x"
  shows "\<exists>b'. vd_meta__write_json_object env (vd_meta__write_json_descriptor n env m) m a t b p = Some (0, b') \<and>
    buf_holds b' (x @ jtext D p t (JObj vs))"
proof -
  let ?q = "tx_in p"
  define b8 where "b8 = push_pretty ?q (CHR 0x0A) (vd_meta__buffer_pushstr (vd_meta__buffer_pushstr
    (vd_meta__buffer_pushstr (vd_meta__buffer_pushstr (push_pretty ?q (CHR '' '') (vd_meta__buffer_pushstr
      (push_spaces ?q (push_pretty p (CHR 0x0A) (vd_meta__buffer_pushchar b (CHR ''{'')))) ''\"--vd-meta-type-name--\":''))
      ''\"'') (md_name d)) ''\"'') '','')"
  let ?x8 = "((((((((x @ ''{'') @ tx_nl p) @ tx_sp ?q) @ ''\"--vd-meta-type-name--\":'') @ tx_sp1 ?q) @ ''\"'')
    @ md_name d) @ ''\"'') @ '','' @ tx_nl ?q"
  have "buf_holds b8 ((((((((((x @ ''{'') @ tx_nl p) @ tx_sp ?q) @ ''\"--vd-meta-type-name--\":'') @ tx_sp1 ?q) @ ''\"'')
    @ md_name d) @ ''\"'') @ '','') @ tx_nl ?q)"
    unfolding b8_def by (intro push_holds assms(4))
  then have "buf_holds b8 ?x8" by simp
  from write_fields_holds [OF assms(3) this, of ?q] obtain b9 where b9:
    "write_fields_loop env (vd_meta__write_json_descriptor n env m) m a (md_fields d) b8 ?q = Some b9"
    "buf_holds b9 (?x8 @ jfields D ?q (md_fields d) vs)"
    by blast
  have "buf_holds (vd_meta__buffer_pushchar (push_spaces (tx_out ?q) b9) (CHR ''}''))
      ((?x8 @ jfields D ?q (md_fields d) vs) @ tx_sp (tx_out ?q) @ ''}'')"
    using push_holds(5) [OF push_spaces_holds [OF b9(2), of "tx_out ?q"], of "CHR ''}''"] by simp
  moreover have "vd_meta__write_json_object env (vd_meta__write_json_descriptor n env m) m a t b p
      = Some (0, vd_meta__buffer_pushchar (push_spaces (tx_out ?q) b9) (CHR ''}''))"
    using assms(1,2) b9(1)
    by (simp add: vd_meta__write_json_object_def env_descs_def Let_def tx_in_def [symmetric] b8_def [symmetric] tx_out_def)
  ultimately show ?thesis using assms(2) by simp
qed


text \<open>The depth of nested objects is the fuel that the writer needs.\<close>

fun depth :: "jval \<Rightarrow> nat" and depth_list :: "jval list \<Rightarrow> nat" where
  "depth (JObj vs) = Suc (depth_list vs)"
| "depth _ = 1"
| "depth_list [] = 0"
| "depth_list (v # vs) = max (depth v) (depth_list vs)"

lemmas jval_induct = depth_depth_list.induct [case_names JObj JInt JChar JStr Nil Cons]

lemma write_held:
  "env_descs env D \<Longrightarrow> held D m a t v \<Longrightarrow> depth v \<le> n \<Longrightarrow> wr env D m n a t v"
  "env_descs env D \<Longrightarrow> held_fields D m a fs vs \<Longrightarrow> depth_list vs \<le> n \<Longrightarrow> wr_fields env D m n a fs vs"
proof (induction v and vs arbitrary: a t n and a fs n rule: jval_induct)
  case (JObj vs)
  then obtain k where n: "n = Suc k" "depth_list vs \<le> k" by (cases n) auto
  obtain d where d: "D t = Some d" "md_type_class d = VD_META_TYPE_OBJECT" "held_fields D m a (md_fields d) vs"
    using JObj.prems(2) by (auto split: option.splits)
  have w: "wr_fields env D m k a (md_fields d) vs" using JObj.IH JObj.prems(1) d(3) n(2) by blast
  have "vd_meta_get_descriptor (env_reg env) t = Some (Some d)" using JObj.prems(1) d(1) by (simp add: env_descs_def)
  note desc = this
  show ?case unfolding wr_def n(1)
  proof (intro allI impI)
    fix b x p assume "buf_holds b x"
    from write_object_holds [OF JObj.prems(1) d(1) w this, of p] obtain b' where
      "vd_meta__write_json_object env (vd_meta__write_json_descriptor k env m) m a t b p = Some (0, b')"
      "buf_holds b' (x @ jtext D p t (JObj vs))"
      by blast
    then show "\<exists>b'. vd_meta__write_json_descriptor (Suc k) env m a t b p = Some (0, b') \<and>
        buf_holds b' (x @ jtext D p t (JObj vs))"
      using desc d(2) by (simp del: jtext.simps)
  qed
next
  case (JInt pt i)
  then obtain k where n: "n = Suc k" by (cases n) auto
  obtain d where d: "D t = Some d" "md_type_class d = VD_META_TYPE_PRIMITIVE" "md_primitive d = pt" "int_prim pt"
    "i \<in> prim_range pt" "m a = Some (VInt pt i)"
    using JInt.prems(2) by (auto split: option.splits)
  have "vd_meta_get_descriptor (env_reg env) t = Some (Some d)" using JInt.prems(1) d(1) by (simp add: env_descs_def)
  then show ?case unfolding wr_def n
    using d(2-6) dec_int_length [OF d(5)]
    by (auto simp: write_primitive_def int_prim_def read_int_def intro: pushstr_holds)
next
  case (JChar c)
  then obtain k where n: "n = Suc k" by (cases n) auto
  obtain d where d: "D t = Some d" "md_type_class d = VD_META_TYPE_PRIMITIVE"
    "md_primitive d = VD_META_PRIMITIVE_TYPE_CHAR8" "m a = Some (VChar c)"
    using JChar.prems(2) by (auto split: option.splits)
  have "vd_meta_get_descriptor (env_reg env) t = Some (Some d)" using JChar.prems(1) d(1) by (simp add: env_descs_def)
  moreover have "buf_holds (vd_meta__buffer_pushstr (vd_meta__buffer_pushchar (vd_meta__buffer_pushstr b ''\"'') c) ''\"'')
      (x @ [CHR ''\"'', c, CHR ''\"''])" if "buf_holds b x" for b x
    using pushstr_holds [OF pushchar_holds [OF pushstr_holds [OF that]], of "''\"''" c "''\"''"] by simp
  ultimately show ?case unfolding wr_def n using d(2-4) by (auto simp: write_primitive_def read_char_def)
next
  case (JStr s)
  then obtain k where n: "n = Suc k" by (cases n) auto
  obtain d where d: "D t = Some d" "md_type_class d = VD_META_TYPE_STRING"
    "md_string d = VD_META_STRING_TYPE_CSTRING" "m a = Some (VStr s)"
    using JStr.prems(2) by (auto split: option.splits)
  have "vd_meta_get_descriptor (env_reg env) t = Some (Some d)" using JStr.prems(1) d(1) by (simp add: env_descs_def)
  moreover have "buf_holds (vd_meta__buffer_pushstr (vd_meta__buffer_pushstr (vd_meta__buffer_pushstr b ''\"'') s) ''\"'')
      (x @ CHR ''\"'' # s @ [CHR ''\"''])" if "buf_holds b x" for b x
    using pushstr_holds [OF pushstr_holds [OF pushstr_holds [OF that]], of "''\"''" s "''\"''"] by simp
  ultimately show ?case unfolding wr_def n using d(2-4) by (auto simp: read_str_def)
next
  case Nil
  then show ?case by (cases fs) auto
next
  case (Cons v vs)
  then show ?case by (cases fs) auto
qed

end
