(* ===== verification/Metascan.thy ===== *)
theory Metascan
  imports Metatext
begin

text \<open>
  What the scanning functions of the parser do, in terms of the text that is left in a slice: each moves
  the slice by a number of characters.
\<close>

section \<open>Moving a slice\<close>

definition rest :: "VD_Meta__Slice \<Rightarrow> char list" where
  "rest s = drop (sl_pos s) (sl_str s)"

definition adv :: "nat \<Rightarrow> VD_Meta__Slice \<Rightarrow> VD_Meta__Slice" where
  "adv n s = s\<lparr>sl_pos := sl_pos s + n\<rparr>"

lemma rest_adv [simp]: "rest (adv n s) = drop n (rest s)"
  by (simp add: rest_def adv_def add.commute)

lemma adv_adv [simp]: "adv m (adv n s) = adv (n + m) s"
  by (simp add: adv_def)

lemma adv_0 [simp]: "adv 0 s = s"
  by (simp add: adv_def)

lemma rest_copy [simp]: "rest (VD_META__SLICE_COPY s) = rest s"
  by (simp add: rest_def VD_META__SLICE_COPY_def)

lemma sl_str_copy [simp]: "sl_str (VD_META__SLICE_COPY s) = rest s"
  by (simp add: rest_def VD_META__SLICE_COPY_def)

lemma apply_copy [simp]: "VD_META__SLICE_APPLY (adv n (VD_META__SLICE_COPY s)) s = adv n s"
  by (simp add: adv_def VD_META__SLICE_COPY_def VD_META__SLICE_APPLY_def)

lemma rest_cons: "rest s = c # xs \<Longrightarrow> sl_pos s < length (sl_str s) \<and> sl_str s ! sl_pos s = c"
  by (metis drop_eq_Nil list.distinct(1) list.sel(1) hd_drop_conv_nth not_le_imp_less rest_def)

lemma rest_nil: "rest s = [] \<longleftrightarrow> length (sl_str s) \<le> sl_pos s"
  by (simp add: rest_def)

lemma expect_cons:
  "rest s = c' # xs \<Longrightarrow> vd_meta__slice_expect_char s c = (if c' = c then (True, adv 1 s) else (False, s))"
  using rest_cons [of s c' xs] by (simp add: vd_meta__slice_expect_char_def adv_def)

lemma peek_cons: "rest s = c' # xs \<Longrightarrow> vd_meta__slice_peek_char s c = (c' = c)"
  using rest_cons [of s c' xs] by (simp add: vd_meta__slice_peek_char_def)

lemma read_cons: "rest s = c # xs \<Longrightarrow> vd_meta__slice_read_char s = (c, adv 1 s)"
  using rest_cons [of s c xs] by (simp add: vd_meta__slice_read_char_def adv_def)

lemma skip_spaces:
  "rest s = w @ xs \<Longrightarrow> list_all json_space w \<Longrightarrow> xs = [] \<or> \<not> json_space (hd xs) \<Longrightarrow>
     vd_meta__slice_skip_whitespace s = adv (length w) s"
proof (induction w arbitrary: s)
  case Nil
  have "\<not> (sl_pos s < length (sl_str s) \<and> json_space (sl_str s ! sl_pos s))"
    using Nil rest_cons [of s "hd xs" "tl xs"] by (cases xs) (auto simp: rest_nil)
  then have "vd_meta__slice_skip_whitespace s = s"
    by (subst vd_meta__slice_skip_whitespace.simps) (rule if_not_P)
  then show ?case by simp
next
  case (Cons c w)
  have "sl_pos s < length (sl_str s) \<and> sl_str s ! sl_pos s = c" using rest_cons [of s c "w @ xs"] Cons.prems(1) by simp
  then have "vd_meta__slice_skip_whitespace s = vd_meta__slice_skip_whitespace (adv 1 s)"
    using Cons.prems(2) by (subst vd_meta__slice_skip_whitespace.simps) (simp add: adv_def)
  also have "\<dots> = adv (length w) (adv 1 s)" using Cons.prems by (intro Cons.IH) simp_all
  finally show ?case by simp
qed

section \<open>Strings\<close>

definition plain :: "char list \<Rightarrow> bool" where
  "plain s \<longleftrightarrow> CHR ''\"'' \<notin> set s \<and> CHR 0x5C \<notin> set s \<and> CHR 0x00 \<notin> set s"

lemma plain_simps [simp]: "plain []" "plain (c # s) \<longleftrightarrow> c \<noteq> CHR ''\"'' \<and> c \<noteq> CHR 0x5C \<and> c \<noteq> CHR 0x00 \<and> plain s"
  by (auto simp: plain_def)

lemma string_loop_plain:
  "c # rest s = t @ CHR ''\"'' # ys \<Longrightarrow> plain t \<Longrightarrow> buf_holds b x \<Longrightarrow>
     \<exists>b'. json_string_loop c s b = (CHR ''\"'', adv (length t) s, b') \<and> buf_holds b' (x @ t)"
proof (induction t arbitrary: c s b x)
  case Nil
  then show ?case by (simp add: json_string_loop.simps)
next
  case (Cons d t)
  then have c: "c = d" "rest s = t @ CHR ''\"'' # ys" "c \<noteq> CHR ''\"''" "c \<noteq> CHR 0x5C" "c \<noteq> CHR 0x00" by auto
  obtain e es where e: "rest s = e # es" using c(2) by (cases t) auto
  have r: "vd_meta__slice_read_char s = (e, adv 1 s)" by (rule read_cons [OF e])
  have "e # rest (adv 1 s) = t @ CHR ''\"'' # ys" using e c(2) by simp
  from Cons.IH [OF this _ pushchar_holds [OF Cons.prems(3), of c]] Cons.prems(2) obtain b' where
    "json_string_loop e (adv 1 s) (vd_meta__buffer_pushchar b c) = (CHR ''\"'', adv (length t) (adv 1 s), b')"
    "buf_holds b' ((x @ [c]) @ t)"
    by auto
  then show ?case using c r by (subst json_string_loop.simps) simp
qed

lemma parse_string_plain:
  assumes "rest s = CHR ''\"'' # t @ CHR ''\"'' # ys" and "plain t" and "buf_holds b x"
  shows "\<exists>b'. vd_meta__parse_json_string s b = (True, Some t, adv (length t + 2) s, b') \<and> buf_holds b' (x @ t)"
proof -
  let ?s = "VD_META__SLICE_COPY s"
  have e: "vd_meta__slice_expect_char ?s (CHR ''\"'') = (True, adv 1 ?s)"
    using expect_cons [of ?s "CHR ''\"''" "t @ CHR ''\"'' # ys" "CHR ''\"''"] assms(1) by simp
  obtain c cs where c: "t @ CHR ''\"'' # ys = c # cs" by (cases t) auto
  have r: "vd_meta__slice_read_char (adv 1 ?s) = (c, adv 2 ?s)"
    using read_cons [of "adv 1 ?s" c cs] assms(1) c by (simp add: numeral_2_eq_2)
  have "c # rest (adv 2 ?s) = t @ CHR ''\"'' # ys" using assms(1) c by (simp add: numeral_2_eq_2)
  then obtain b1 where b1: "json_string_loop c (adv 2 ?s) b = (CHR ''\"'', adv (length t) (adv 2 ?s), b1)"
    "buf_holds b1 (x @ t)"
    using string_loop_plain assms(2,3) by blast
  have t: "buf_holds (vd_meta__buffer_terminate b1) (x @ t)"
    "vd_meta__buffer_get (vd_meta__buffer_terminate b1) (vd_meta__buffer_now b) = Some t"
    using terminate_holds [OF b1(2)] assms(2,3) by (auto simp: plain_def vd_meta__buffer_now_def buf_holds_def)
  show ?thesis
    using t b1(1) by (simp add: vd_meta__parse_json_string_def e r [unfolded One_nat_def] add.commute)
qed

text \<open>A value to skip that holds neither brackets nor commas.\<close>

definition flat :: "char list \<Rightarrow> bool" where
  "flat s \<longleftrightarrow> (\<forall>c \<in> set s. c \<noteq> CHR ''['' \<and> c \<noteq> CHR '']'' \<and> c \<noteq> CHR ''{'' \<and> c \<noteq> CHR ''}'' \<and> c \<noteq> CHR '','' \<and> c \<noteq> CHR 0x00)"

lemma skip_flat:
  "rest s = t @ CHR '','' # ys \<Longrightarrow> flat t \<Longrightarrow> vd_meta__json_skip_value 0 0 s = (True, adv (length t + 1) s)"
proof (induction t arbitrary: s)
  case Nil
  then show ?case using read_cons [of s "CHR '',''" ys] by (subst vd_meta__json_skip_value.simps) simp
next
  case (Cons c t)
  have r: "vd_meta__slice_read_char s = (c, adv 1 s)" using read_cons Cons.prems(1) by simp
  have "vd_meta__json_skip_value 0 0 (adv 1 s) = (True, adv (length t + 1) (adv 1 s))"
    using Cons.prems by (intro Cons.IH) (simp_all add: flat_def)
  then show ?case using Cons.prems(2) r by (subst vd_meta__json_skip_value.simps) (simp add: flat_def)
qed

section \<open>Numbers\<close>

lemma digit_val: "d < 10 \<Longrightarrow> (of_char (digit d) :: nat) = 48 + d"
  by (simp add: digit_def)

lemma digit_isdigit: "d < 10 \<Longrightarrow> c_isdigit (digit d)"
  by (simp add: c_isdigit_def digit_val)

lemma dec_digits: "list_all c_isdigit (dec n) \<and> dec n \<noteq> []"
proof (induction n rule: dec.induct)
  case (1 n)
  then show ?case by (cases "n < 10") (simp_all add: dec.simps [of n] digit_isdigit)
qed

lemma c_digits_snoc: "c_digits (ds @ [c]) = 10 * c_digits ds + (of_char c - 48)"
  by (simp add: c_digits_def)

lemma c_digits_dec: "c_digits (dec n) = n"
proof (induction n rule: dec.induct)
  case (1 n)
  show ?case
  proof (cases "n < 10")
    case True
    then show ?thesis by (simp add: dec.simps [of n] c_digits_def digit_val)
  next
    case False
    then have "c_digits (dec n) = 10 * (n div 10) + n mod 10"
      using 1 by (simp add: dec.simps [of n] c_digits_snoc digit_val)
    then show ?thesis by simp
  qed
qed

lemma isdigit_not: "c_isdigit c \<Longrightarrow> \<not> c_isspace c \<and> c \<noteq> CHR ''-'' \<and> c \<noteq> CHR ''+''"
  by (auto simp: c_isdigit_def c_isspace_def of_char_def)

lemma takeWhile_digits:
  "list_all c_isdigit ds \<Longrightarrow> ys = [] \<or> \<not> c_isdigit (hd ys) \<Longrightarrow> takeWhile c_isdigit (ds @ ys) = ds"
  by (induction ds) (cases ys; auto)+

lemma strtol_dec_int:
  assumes "i \<in> prim_range pt" and "ys = [] \<or> \<not> c_isdigit (hd ys)"
  shows "c_strtol (prim_signed pt) (dec_int i @ ys) = (i, length (dec_int i))"
proof -
  have b: "- (2 ^ 63) \<le> i" "i < 2 ^ 64" using prim_range_64 [OF assms(1)] by auto
  have s: "prim_signed pt \<Longrightarrow> i < 2 ^ 63" "\<not> prim_signed pt \<Longrightarrow> 0 \<le> i"
    using assms(1) by (cases pt; auto simp: prim_range_def prim_signed_def)+
  define n where "n = nat \<bar>i\<bar>"
  obtain c cs where c: "dec n = c # cs" "c_isdigit c" using dec_digits [of n] by (cases "dec n") auto
  have tw: "takeWhile c_isdigit (dec n @ ys) = dec n" using takeWhile_digits dec_digits assms(2) by blast
  show ?thesis
  proof (cases "i < 0")
    case True
    have d: "dec_int i = CHR ''-'' # dec n" using True by (simp add: dec_int_def n_def)
    have r: "dropWhile c_isspace (dec_int i @ ys) = CHR ''-'' # dec n @ ys" "takeWhile c_isspace (dec_int i @ ys) = []"
      by (simp_all add: d c_isspace_def)
    have sg: "c_sign (CHR ''-'' # dec n @ ys) = 1" by (simp add: c_sign_def)
    have "prim_signed pt" "dec n \<noteq> []" "- int n = i" using s True c by (auto simp: n_def)
    then show ?thesis
      using b unfolding c_strtol_def r by (simp add: Let_def sg tw c_digits_dec d)
  next
    case False
    have d: "dec_int i = dec n" using False by (simp add: dec_int_def n_def)
    have r: "dropWhile c_isspace (dec_int i @ ys) = dec n @ ys" "takeWhile c_isspace (dec_int i @ ys) = []"
      using c isdigit_not [OF c(2)] by (simp_all add: d)
    have sg: "c_sign (dec n @ ys) = 0" using c isdigit_not [OF c(2)] by (simp add: c_sign_def)
    have hd: "hd (dec n @ ys) \<noteq> CHR ''-''" "dec n \<noteq> []" using c isdigit_not [OF c(2)] by simp_all
    have "int n = i" using False by (simp add: n_def)
    then show ?thesis
      using hd b s False unfolding c_strtol_def r by (auto simp: Let_def sg tw c_digits_dec d)
  qed
qed

lemma to_int_type_range: "i \<in> prim_range pt \<Longrightarrow> to_int_type (prim_signed pt) (8 * prim_size pt) i = i"
proof -
  have "- (2 ^ (w - 1)) \<le> i \<Longrightarrow> i < 2 ^ (w - 1) \<Longrightarrow> 0 < w \<Longrightarrow> wrap_signed w i = i" for w
  proof -
    assume a: "- (2 ^ (w - 1)) \<le> i" "i < 2 ^ (w - 1)" "0 < w"
    have "(2 :: int) ^ w = 2 * 2 ^ (w - 1)" using a(3) by (metis power_Suc Suc_diff_1)
    then show "wrap_signed w i = i" using a by (simp add: wrap_signed_def mod_pos_pos_trivial)
  qed
  moreover have "0 < prim_size pt" by (cases pt) simp_all
  ultimately show "i \<in> prim_range pt \<Longrightarrow> to_int_type (prim_signed pt) (8 * prim_size pt) i = i"
    by (auto simp: to_int_type_def prim_range_def mod_pos_pos_trivial split: if_splits)
qed

end
