(* ===== verification/Metaround.thy ===== *)
theory Metaround
  imports Metascan
begin

text \<open>
  Reading back what was written: the parser, given the text of a value, stores the same value. The
  objects have no arrays and no floating point fields, and the strings in them need no escapes (the
  writer does not write any).
\<close>

section \<open>Values that can be written and read\<close>

definition ty_size :: "descs \<Rightarrow> u64 \<Rightarrow> nat" where
  "ty_size D t = (case D t of None \<Rightarrow> 0 | Some d \<Rightarrow> md_size d)"

text \<open>The fields lie inside the object and do not overlap.\<close>

fun laid_out :: "descs \<Rightarrow> nat \<Rightarrow> VD_Meta_Field list \<Rightarrow> bool" where
  "laid_out D n [] = True"
| "laid_out D n (f # fs) =
     (mf_offset f + ty_size D (mf_type f) \<le> n \<and>
      (\<forall>g \<in> set fs. mf_offset f + ty_size D (mf_type f) \<le> mf_offset g \<or>
                    mf_offset g + ty_size D (mf_type g) \<le> mf_offset f) \<and>
      laid_out D n fs)"

fun good :: "descs \<Rightarrow> u64 \<Rightarrow> jval \<Rightarrow> bool" and good_fields :: "descs \<Rightarrow> VD_Meta_Field list \<Rightarrow> jval list \<Rightarrow> bool" where
  "good D t (JInt pt i) =
     (case D t of None \<Rightarrow> False
      | Some d \<Rightarrow> md_type_class d = VD_META_TYPE_PRIMITIVE \<and> md_primitive d = pt \<and> int_prim pt \<and>
                  i \<in> prim_range pt \<and> md_size d = prim_size pt)"
| "good D t (JChar c) =
     (case D t of None \<Rightarrow> False
      | Some d \<Rightarrow> md_type_class d = VD_META_TYPE_PRIMITIVE \<and> md_primitive d = VD_META_PRIMITIVE_TYPE_CHAR8 \<and>
                  md_size d = 1)"
| "good D t (JStr s) =
     (case D t of None \<Rightarrow> False
      | Some d \<Rightarrow> md_type_class d = VD_META_TYPE_STRING \<and> md_string d = VD_META_STRING_TYPE_CSTRING \<and>
                  md_size d = 8 \<and> plain s)"
| "good D t (JObj vs) =
     (case D t of None \<Rightarrow> False
      | Some d \<Rightarrow> md_type_class d = VD_META_TYPE_OBJECT \<and> md_fields d \<noteq> [] \<and> plain (md_name d) \<and> flat (md_name d) \<and>
                  distinct (map mf_name (md_fields d)) \<and> ''--vd-meta-type-name--'' \<notin> mf_name ` set (md_fields d) \<and>
                  laid_out D (md_size d) (md_fields d) \<and> good_fields D (md_fields d) vs)"
| "good_fields D [] [] = True"
| "good_fields D (f # fs) (v # vs) =
     (mf_flags f = 0 \<and> plain (mf_name f) \<and> good D (mf_type f) v \<and> good_fields D fs vs)"
| "good_fields D _ _ = False"

section \<open>Separation\<close>

text \<open>The cells that do not touch \<open>S\<close> are the same.\<close>

definition frame :: "meta_mem \<Rightarrow> meta_mem \<Rightarrow> nat set \<Rightarrow> bool" where
  "frame m m' S \<longleftrightarrow> (\<forall>x w. m x = Some w \<longrightarrow> {x..<x + val_size w} \<inter> S = {} \<longrightarrow> m' x = Some w)"

lemma frame_trans: "frame m m' S \<Longrightarrow> frame m' m'' T \<Longrightarrow> frame m m'' (S \<union> T)"
  unfolding frame_def Int_Un_distrib Un_empty by blast

lemma frame_mono: "frame m m' S \<Longrightarrow> S \<subseteq> T \<Longrightarrow> frame m m' T"
  unfolding frame_def by blast

lemma val_size_pos: "0 < val_size v"
proof -
  have "0 < prim_size pt" for pt by (cases pt) simp_all
  then show ?thesis by (cases v) simp_all
qed

lemma store_frame: "frame m (mem_store a v m) {a..<a + val_size v}"
  unfolding frame_def
proof (intro allI impI)
  fix x w assume x: "m x = Some w" and d: "{x..<x + val_size w} \<inter> {a..<a + val_size v} = {}"
  have "x \<noteq> a"
  proof
    assume "x = a"
    then have "a \<in> {x..<x + val_size w} \<inter> {a..<a + val_size v}" using val_size_pos by simp
    with d show False by simp
  qed
  moreover have "\<not> (x < a + val_size v \<and> a < x + val_size w)"
  proof
    assume "x < a + val_size v \<and> a < x + val_size w"
    then have "max x a \<in> {x..<x + val_size w} \<inter> {a..<a + val_size v}" using val_size_pos [of v] val_size_pos [of w] by auto
    with d show False by simp
  qed
  ultimately show "mem_store a v m x = Some w" using x by (simp add: mem_store_def)
qed

lemma store_at [simp]: "mem_store a v m a = Some v"
  by (simp add: mem_store_def)

text \<open>A value that is held outside of \<open>S\<close> stays.\<close>

lemma held_frame:
  "good D t v \<Longrightarrow> held D m a t v \<Longrightarrow> frame m m' S \<Longrightarrow> {a..<a + ty_size D t} \<inter> S = {} \<Longrightarrow> held D m' a t v"
  "good_fields D fs vs \<Longrightarrow> held_fields D m a fs vs \<Longrightarrow> frame m m' S \<Longrightarrow>
     \<forall>f \<in> set fs. {a + mf_offset f..<a + mf_offset f + ty_size D (mf_type f)} \<inter> S = {} \<Longrightarrow> held_fields D m' a fs vs"
proof (induction v and vs arbitrary: a t and a fs rule: jval_induct)
  case (JObj vs)
  obtain d where d: "D t = Some d" "md_type_class d = VD_META_TYPE_OBJECT" "held_fields D m a (md_fields d) vs"
    "good_fields D (md_fields d) vs" "laid_out D (md_size d) (md_fields d)"
    using JObj.prems(1,2) by (auto split: option.splits)
  have "mf_offset f + ty_size D (mf_type f) \<le> md_size d" if "f \<in> set (md_fields d)" for f
  proof -
    have "laid_out D n fs \<Longrightarrow> f \<in> set fs \<Longrightarrow> mf_offset f + ty_size D (mf_type f) \<le> n" for n fs
      by (induction fs) auto
    then show ?thesis using d(5) that by blast
  qed
  then have "\<forall>f \<in> set (md_fields d). {a + mf_offset f..<a + mf_offset f + ty_size D (mf_type f)} \<subseteq> {a..<a + ty_size D t}"
    using d(1) by (auto simp: ty_size_def)
  then have "\<forall>f \<in> set (md_fields d). {a + mf_offset f..<a + mf_offset f + ty_size D (mf_type f)} \<inter> S = {}"
    using JObj.prems(4) by blast
  then have "held_fields D m' a (md_fields d) vs" using JObj.IH d(3,4) JObj.prems(3) by blast
  then show ?case using d(1,2) by simp
next
  case (JInt pt i)
  then show ?case by (auto simp: frame_def ty_size_def split: option.splits)
next
  case (JChar c)
  then show ?case by (auto simp: frame_def ty_size_def split: option.splits)
next
  case (JStr s)
  then show ?case by (auto simp: frame_def ty_size_def split: option.splits)
next
  case Nil
  then show ?case by (cases fs) auto
next
  case (Cons v vs)
  then obtain f fs' where fs: "fs = f # fs'" by (cases fs) auto
  have "held D m' (a + mf_offset f) (mf_type f) v"
    using Cons.prems by (intro Cons.IH(1)) (auto simp: fs)
  moreover have "held_fields D m' a fs' vs" using Cons.prems by (intro Cons.IH(2)) (auto simp: fs)
  ultimately show ?case using Cons.prems(2) by (simp add: fs)
qed

section \<open>Parsing a value\<close>

definition follow :: "char list \<Rightarrow> bool" where
  "follow ys \<longleftrightarrow> ys = [] \<or> \<not> c_isdigit (hd ys)"

text \<open>The parser of the value of a field reads the text of \<open>v\<close>, whatever follows it.\<close>

definition pv :: "meta_env \<Rightarrow> descs \<Rightarrow> nat \<Rightarrow> VD_Meta_Field \<Rightarrow> jval \<Rightarrow> bool" where
  "pv env D n f v \<longleftrightarrow> (\<forall>p a m s b x ys. rest s = jtext D p (mf_type f) v @ ys \<longrightarrow> follow ys \<longrightarrow> buf_holds b x \<longrightarrow>
     (\<exists>b' x' m'. vd_meta__parse_json_descriptor env (vd_meta__parse_json_object n env) f (D (mf_type f)) a (s, b, m)
          = Some (0, adv (length (jtext D p (mf_type f) v)) s, b', m') \<and> buf_holds b' x' \<and>
        held D m' a (mf_type f) v \<and> frame m m' {a..<a + ty_size D (mf_type f)}))"

fun pv_fields :: "meta_env \<Rightarrow> descs \<Rightarrow> nat \<Rightarrow> VD_Meta_Field list \<Rightarrow> jval list \<Rightarrow> bool" where
  "pv_fields env D n (f # fs) (v # vs) = (pv env D n f v \<and> pv_fields env D n fs vs)"
| "pv_fields env D n fs vs = (fs = [] \<and> vs = [])"

lemma dec_int_head: "\<exists>c cs. dec_int i = c # cs \<and> c \<noteq> CHR ''{'' \<and> c \<noteq> CHR ''['' \<and> \<not> json_space c"
proof -
  obtain c cs where c: "dec (nat \<bar>i\<bar>) = c # cs" "c_isdigit c"
    using dec_digits [of "nat \<bar>i\<bar>"] by (cases "dec (nat \<bar>i\<bar>)") auto
  have "c \<noteq> CHR ''{'' \<and> c \<noteq> CHR ''['' \<and> \<not> json_space c"
    using c(2) by (auto simp: c_isdigit_def json_space_def of_char_def)
  then show ?thesis using c(1) by (auto simp: dec_int_def json_space_def)
qed

lemma jtext_head:
  "good D t v \<Longrightarrow> \<exists>c cs. jtext D p t v = c # cs \<and> c \<noteq> CHR ''['' \<and> \<not> json_space c"
proof (cases v)
  case (JInt pt i)
  then show ?thesis using dec_int_head [of i] by auto
qed (auto simp: json_space_def split: option.splits)

lemma pv_int: "good D (mf_type f) (JInt pt i) \<Longrightarrow> pv env D n f (JInt pt i)"
  unfolding pv_def
proof (intro allI impI)
  fix p a m s b x ys
  assume g: "good D (mf_type f) (JInt pt i)" and r: "rest s = jtext D p (mf_type f) (JInt pt i) @ ys"
    and fo: "follow ys" and b: "buf_holds b x"
  obtain d where d: "D (mf_type f) = Some d" "md_type_class d = VD_META_TYPE_PRIMITIVE" "md_primitive d = pt" "int_prim pt"
    "i \<in> prim_range pt" "md_size d = prim_size pt"
    using g by (auto split: option.splits)
  obtain c cs where c: "dec_int i = c # cs" "c \<noteq> CHR ''{''" using dec_int_head by blast
  have r': "rest (VD_META__SLICE_COPY s) = c # cs @ ys" using r c(1) by simp
  have st: "c_strtol (prim_signed pt) (rest s) = (i, length (dec_int i))"
    using strtol_dec_int [OF d(5)] fo r by (simp add: follow_def)
  have num: "parse_number pt (VD_META__SLICE_COPY s) a m
      = (adv (length (dec_int i)) (VD_META__SLICE_COPY s), mem_store a (VInt pt i) m)"
    by (simp add: parse_number_def st to_int_type_range [OF d(5)] adv_def [symmetric])
  have "vd_meta__parse_json_descriptor env (vd_meta__parse_json_object n env) f (D (mf_type f)) a (s, b, m)
      = Some (0, adv (length (dec_int i)) s, b, mem_store a (VInt pt i) m)"
    using d(2-4) c(2) by (simp add: vd_meta__parse_json_descriptor_def peek_cons [OF r'] d(1) int_prim_def num)
  moreover have "held D (mem_store a (VInt pt i) m) a (mf_type f) (JInt pt i)" using d by simp
  moreover have "frame m (mem_store a (VInt pt i) m) {a..<a + ty_size D (mf_type f)}"
    using store_frame [of m a "VInt pt i"] d(1,6) by (simp add: ty_size_def)
  ultimately show "\<exists>b' x' m'. vd_meta__parse_json_descriptor env (vd_meta__parse_json_object n env) f (D (mf_type f)) a (s, b, m)
      = Some (0, adv (length (jtext D p (mf_type f) (JInt pt i))) s, b', m') \<and> buf_holds b' x' \<and>
      held D m' a (mf_type f) (JInt pt i) \<and> frame m m' {a..<a + ty_size D (mf_type f)}"
    using b by fastforce
qed

lemma pv_char: "good D (mf_type f) (JChar c) \<Longrightarrow> pv env D n f (JChar c)"
  unfolding pv_def
proof (intro allI impI)
  fix p a m s b x ys
  assume g: "good D (mf_type f) (JChar c)" and r: "rest s = jtext D p (mf_type f) (JChar c) @ ys" and b: "buf_holds b x"
  obtain d where d: "D (mf_type f) = Some d" "md_type_class d = VD_META_TYPE_PRIMITIVE"
    "md_primitive d = VD_META_PRIMITIVE_TYPE_CHAR8" "md_size d = 1"
    using g by (auto split: option.splits)
  let ?s = "VD_META__SLICE_COPY s"
  have r0: "rest ?s = CHR ''\"'' # c # CHR ''\"'' # ys" and r1: "rest (adv 1 ?s) = c # CHR ''\"'' # ys"
    and r2: "rest (adv 2 ?s) = CHR ''\"'' # ys"
    using r by (simp_all add: numeral_2_eq_2)
  have "vd_meta__parse_json_descriptor env (vd_meta__parse_json_object n env) f (D (mf_type f)) a (s, b, m)
      = Some (0, adv 3 s, b, mem_store a (VChar c) m)"
    using d(2,3) expect_cons [OF r0, of "CHR ''\"''"] read_cons [OF r1] expect_cons [OF r2, of "CHR ''\"''"]
    by (simp add: vd_meta__parse_json_descriptor_def peek_cons [OF r0] d(1) numeral_2_eq_2 numeral_3_eq_3)
  moreover have "frame m (mem_store a (VChar c) m) {a..<a + ty_size D (mf_type f)}"
    using store_frame [of m a "VChar c"] d(1,4) by (simp add: ty_size_def)
  ultimately show "\<exists>b' x' m'. vd_meta__parse_json_descriptor env (vd_meta__parse_json_object n env) f (D (mf_type f)) a (s, b, m)
      = Some (0, adv (length (jtext D p (mf_type f) (JChar c))) s, b', m') \<and> buf_holds b' x' \<and>
      held D m' a (mf_type f) (JChar c) \<and> frame m m' {a..<a + ty_size D (mf_type f)}"
    using b d by (fastforce simp: numeral_3_eq_3)
qed

lemma pv_str: "good D (mf_type f) (JStr t) \<Longrightarrow> pv env D n f (JStr t)"
  unfolding pv_def
proof (intro allI impI)
  fix p a m s b x ys
  assume g: "good D (mf_type f) (JStr t)" and r: "rest s = jtext D p (mf_type f) (JStr t) @ ys" and b: "buf_holds b x"
  obtain d where d: "D (mf_type f) = Some d" "md_type_class d = VD_META_TYPE_STRING"
    "md_string d = VD_META_STRING_TYPE_CSTRING" "md_size d = 8" "plain t"
    using g by (auto split: option.splits)
  let ?s = "VD_META__SLICE_COPY s"
  have r0: "rest ?s = CHR ''\"'' # t @ CHR ''\"'' # ys" using r by simp
  obtain b' where b': "vd_meta__parse_json_string ?s b = (True, Some t, adv (length t + 2) ?s, b')" "buf_holds b' (x @ t)"
    using parse_string_plain [OF r0 d(5) b] by blast
  have "vd_meta__parse_json_descriptor env (vd_meta__parse_json_object n env) f (D (mf_type f)) a (s, b, m)
      = Some (0, adv (length t + 2) s, b', mem_store a (VStr t) m)"
    unfolding vd_meta__parse_json_descriptor_def
    using d(2,3) b'(1) by (simp add: peek_cons [OF r0] d(1) del: add_2_eq_Suc')
  moreover have "frame m (mem_store a (VStr t) m) {a..<a + ty_size D (mf_type f)}"
    using store_frame [of m a "VStr t"] d(1,4) by (simp add: ty_size_def)
  ultimately show "\<exists>b' x' m'. vd_meta__parse_json_descriptor env (vd_meta__parse_json_object n env) f (D (mf_type f)) a (s, b, m)
      = Some (0, adv (length (jtext D p (mf_type f) (JStr t))) s, b', m') \<and> buf_holds b' x' \<and>
      held D m' a (mf_type f) (JStr t) \<and> frame m m' {a..<a + ty_size D (mf_type f)}"
    using b'(2) d by fastforce
qed

section \<open>Parsing the members of an object\<close>

definition eats :: "VD_Meta__Slice \<Rightarrow> VD_Meta__Slice \<Rightarrow> char list \<Rightarrow> bool" where
  "eats s s' ys \<longleftrightarrow> (\<exists>u. rest s = u @ ys \<and> s' = adv (length u) s)"

lemma eats_rest: "eats s s' ys \<Longrightarrow> rest s' = ys"
  by (auto simp: eats_def)

lemma eats_refl: "eats s s (rest s)"
  by (simp add: eats_def)

lemma eats_trans: "eats s s' ys \<Longrightarrow> eats s' s'' zs \<Longrightarrow> eats s s'' zs"
proof -
  assume "eats s s' ys" "eats s' s'' zs"
  then obtain u v where "rest s = u @ ys" "s' = adv (length u) s" "rest s' = v @ zs" "s'' = adv (length v) s'"
    by (auto simp: eats_def)
  then have "rest s = (u @ v) @ zs" "s'' = adv (length (u @ v)) s" by simp_all
  then show "eats s s'' zs" unfolding eats_def by blast
qed

lemma eats_adv: "rest s = u @ ys \<Longrightarrow> eats s (adv (length u) s) ys"
  by (auto simp: eats_def)

lemma eats_skip:
  "rest s = w @ xs \<Longrightarrow> list_all json_space w \<Longrightarrow> xs = [] \<or> \<not> json_space (hd xs) \<Longrightarrow>
     eats s (vd_meta__slice_skip_whitespace s) xs"
  using skip_spaces [of s w xs] by (simp add: eats_adv)

lemma eats_expect:
  "rest s = c # xs \<Longrightarrow> \<exists>s'. vd_meta__slice_expect_char s c = (True, s') \<and> eats s s' xs"
  using expect_cons [of s c xs c] eats_adv [of s "[c]" xs] by auto

lemma skip_none: "rest s = xs \<Longrightarrow> xs = [] \<or> \<not> json_space (hd xs) \<Longrightarrow> vd_meta__slice_skip_whitespace s = s"
  using skip_spaces [of s "[]" xs] by simp

lemma tx_spaces [simp]: "list_all json_space (tx_nl p)" "list_all json_space (tx_sp p)" "list_all json_space (tx_sp1 p)"
  by (simp_all add: tx_nl_def tx_sp_def tx_sp1_def json_space_def list_all_iff)

text \<open>A key with its colon, up to the value.\<close>

lemma key_scan:
  assumes r: "rest s = w @ CHR ''\"'' # k @ CHR ''\"'' # CHR '':'' # w' @ c # xs"
    and w: "list_all json_space w" "list_all json_space w'" "\<not> json_space c" and k: "plain k" and b: "buf_holds b x"
  shows "\<exists>s0 s1 s2 s3 b1. vd_meta__slice_skip_whitespace s = s0 \<and>
    vd_meta__parse_json_string s0 b = (True, Some k, s1, b1) \<and> buf_holds b1 (x @ k) \<and>
    vd_meta__slice_skip_whitespace s1 = s1 \<and> vd_meta__slice_expect_char s1 (CHR '':'') = (True, s2) \<and>
    vd_meta__slice_skip_whitespace s2 = s3 \<and> eats s s0 (rest s0) \<and> eats s s3 (c # xs) \<and>
    rest s0 = CHR ''\"'' # k @ CHR ''\"'' # CHR '':'' # w' @ c # xs"
proof -
  let ?s0 = "vd_meta__slice_skip_whitespace s"
  have e0: "eats s ?s0 (CHR ''\"'' # k @ CHR ''\"'' # CHR '':'' # w' @ c # xs)"
    using r w(1) by (rule eats_skip) (simp add: json_space_def)
  note r0 = eats_rest [OF e0]
  obtain b1 where b1: "vd_meta__parse_json_string ?s0 b = (True, Some k, adv (length k + 2) ?s0, b1)" "buf_holds b1 (x @ k)"
    using parse_string_plain [OF r0 k b] by blast
  let ?s1 = "adv (length k + 2) ?s0"
  have r1: "rest ?s1 = CHR '':'' # w' @ c # xs" by (simp add: r0)
  have e1: "eats ?s0 ?s1 (CHR '':'' # w' @ c # xs)"
    using eats_adv [of ?s0 "CHR ''\"'' # k @ [CHR ''\"'']"] r0 by simp
  have k1: "vd_meta__slice_skip_whitespace ?s1 = ?s1" using r1 by (rule skip_none) (simp add: json_space_def)
  obtain s2 where s2: "vd_meta__slice_expect_char ?s1 (CHR '':'') = (True, s2)" "eats ?s1 s2 (w' @ c # xs)"
    using eats_expect [OF r1] by blast
  have e3: "eats s2 (vd_meta__slice_skip_whitespace s2) (c # xs)"
    using eats_rest [OF s2(2)] w(2) by (rule eats_skip) (simp add: w(3))
  have "eats s (vd_meta__slice_skip_whitespace s2) (c # xs)"
    using e0 e1 s2(2) e3 by (blast intro: eats_trans)
  then show ?thesis using b1 k1 s2(1) e0 r0 by metis
qed

lemma field_reads:
  assumes env: "env_descs env D" and pv: "pv env D n f v" and g: "good D (mf_type f) v"
    and r: "rest s = jtext D p (mf_type f) v @ ys" and fo: "follow ys" and b: "buf_holds b x"
  shows "\<exists>s' b' x' m'. vd_meta__parse_json_field env (vd_meta__parse_json_object n env) f a (s, b, m)
      = Some (0, s', b', m') \<and> eats s s' ys \<and> buf_holds b' x' \<and>
    held D m' a (mf_type f) v \<and> frame m m' {a..<a + ty_size D (mf_type f)}"
proof -
  let ?c = "VD_META__SLICE_COPY s" and ?k = "length (jtext D p (mf_type f) v)"
  obtain c cs where c: "jtext D p (mf_type f) v = c # cs" "c \<noteq> CHR ''[''" "\<not> json_space c"
    using jtext_head [OF g] by blast
  have r': "rest ?c = c # cs @ ys" using r c(1) by simp
  have sk: "vd_meta__slice_skip_whitespace ?c = ?c" using r' by (rule skip_none) (simp add: c(3))
  have pk: "\<not> vd_meta__slice_peek_char ?c (CHR ''['')" using peek_cons [OF r'] c(2) by simp
  have "rest ?c = jtext D p (mf_type f) v @ ys" using r by simp
  from pv [unfolded pv_def, rule_format, OF this fo b] obtain b' x' m' where
    po: "vd_meta__parse_json_descriptor env (vd_meta__parse_json_object n env) f (D (mf_type f)) a (?c, b, m)
      = Some (0, adv ?k ?c, b', m')" and b': "buf_holds b' x'"
    and h: "held D m' a (mf_type f) v" "frame m m' {a..<a + ty_size D (mf_type f)}"
    by blast
  have d: "vd_meta_get_descriptor (env_reg env) (mf_type f) = Some (D (mf_type f))"
    using env by (simp add: env_descs_def)
  obtain d' where d': "D (mf_type f) = Some d'" using g by (cases v) (auto split: option.splits)
  have "vd_meta__parse_json_field env (vd_meta__parse_json_object n env) f a (s, b, m) = Some (0, adv ?k s, b', m')"
    unfolding vd_meta__parse_json_field_def
    using po pk by (simp add: d sk d')
  moreover have "eats s (adv ?k s) ys" using r by (rule eats_adv)
  ultimately show ?thesis using b' h by blast
qed

definition extents :: "descs \<Rightarrow> nat \<Rightarrow> VD_Meta_Field list \<Rightarrow> nat set" where
  "extents D a fs = (\<Union>f \<in> set fs. {a + mf_offset f..<a + mf_offset f + ty_size D (mf_type f)})"

lemma laid_out_apart:
  "laid_out D k (f # fs) \<Longrightarrow> {a + mf_offset f..<a + mf_offset f + ty_size D (mf_type f)} \<inter> extents D a fs = {}"
  unfolding extents_def by fastforce

lemma extents_within: "laid_out D k fs \<Longrightarrow> extents D a fs \<subseteq> {a..<a + k}"
  unfolding extents_def by (induction fs) auto

text \<open>One member with a known key.\<close>

lemma object_loop_field:
  assumes env: "env_descs env D" and find: "find_field d (mf_name f) = Some f" and pv: "pv env D n f v"
    and g: "good D (mf_type f) v" and k: "plain (mf_name f)"
    and r: "rest s = w @ CHR ''\"'' # mf_name f @ CHR ''\"'' # CHR '':'' # w' @ jtext D p (mf_type f) v @ w'' @ z # zs"
    and w: "list_all json_space w" "list_all json_space w'" "list_all json_space w''" "\<not> json_space z"
    and fo: "follow (w'' @ z # zs)" and b: "buf_holds b x"
  shows "\<exists>s' b' x' m'. eats s s' (z # zs) \<and> buf_holds b' x' \<and> held D m' (a + mf_offset f) (mf_type f) v \<and>
    frame m m' {a + mf_offset f..<a + mf_offset f + ty_size D (mf_type f)} \<and>
    object_loop (vd_meta__parse_json_field env (vd_meta__parse_json_object n env)) d a (s, b, m) =
      (if z = CHR ''}'' then Some (0, adv 1 s', b', m')
       else if z \<noteq> CHR '','' then Some (VD_META_INVALID_JSON, s', b', m')
       else object_loop (vd_meta__parse_json_field env (vd_meta__parse_json_object n env)) d a (adv 1 s', b', m'))"
proof -
  obtain c cs where c: "jtext D p (mf_type f) v = c # cs" "\<not> json_space c" using jtext_head [OF g] by blast
  have "rest s = w @ CHR ''\"'' # mf_name f @ CHR ''\"'' # CHR '':'' # w' @ c # cs @ w'' @ z # zs" using r c(1) by simp
  from key_scan [OF this w(1,2) c(2) k b] obtain s0 s1 s2 s3 b1 where
    ks: "vd_meta__slice_skip_whitespace s = s0" "vd_meta__parse_json_string s0 b = (True, Some (mf_name f), s1, b1)"
      "vd_meta__slice_skip_whitespace s1 = s1" "vd_meta__slice_expect_char s1 (CHR '':'') = (True, s2)"
      "vd_meta__slice_skip_whitespace s2 = s3"
    and b1: "buf_holds b1 (x @ mf_name f)" and e3: "eats s s3 (c # cs @ w'' @ z # zs)"
    by blast
  have r3: "rest s3 = jtext D p (mf_type f) v @ w'' @ z # zs" using eats_rest [OF e3] c(1) by simp
  obtain s4 b' x' m' where f4: "vd_meta__parse_json_field env (vd_meta__parse_json_object n env) f (a + mf_offset f) (s3, b1, m)
      = Some (0, s4, b', m')" and e4: "eats s3 s4 (w'' @ z # zs)" and b': "buf_holds b' x'"
    and h: "held D m' (a + mf_offset f) (mf_type f) v"
      "frame m m' {a + mf_offset f..<a + mf_offset f + ty_size D (mf_type f)}"
    using field_reads [OF env pv g r3 fo b1, of "a + mf_offset f" m] by blast
  define s5 where "s5 = vd_meta__slice_skip_whitespace s4"
  have e5: "eats s4 s5 (z # zs)"
    unfolding s5_def using eats_rest [OF e4] w(3) by (rule eats_skip) (simp add: w(4))
  have es: "eats s s5 (z # zs)" using e3 e4 e5 by (blast intro: eats_trans)
  have x: "vd_meta__slice_expect_char s5 q = (if z = q then (True, adv 1 s5) else (False, s5))" for q
    using expect_cons [OF eats_rest [OF e5]] .
  have "object_loop (vd_meta__parse_json_field env (vd_meta__parse_json_object n env)) d a (s, b, m) =
      (if z = CHR ''}'' then Some (0, adv 1 s5, b', m')
       else if z \<noteq> CHR '','' then Some (VD_META_INVALID_JSON, s5, b', m')
       else object_loop (vd_meta__parse_json_field env (vd_meta__parse_json_object n env)) d a (adv 1 s5, b', m'))"
    by (subst object_loop.simps) (simp add: ks find f4 s5_def [symmetric] x del: One_nat_def)
  with es b' h show ?thesis by blast
qed

lemma follow_space: "list_all json_space w \<Longrightarrow> \<not> c_isdigit z \<Longrightarrow> follow (w @ z # zs)"
proof -
  have "json_space c \<Longrightarrow> \<not> c_isdigit c" for c by (auto simp: json_space_def c_isdigit_def of_char_def)
  then show "list_all json_space w \<Longrightarrow> \<not> c_isdigit z \<Longrightarrow> follow (w @ z # zs)" by (cases w) (auto simp: follow_def)
qed

lemma comma_close [simp]: "\<not> c_isdigit (CHR '','')" "\<not> json_space (CHR '','')" "\<not> c_isdigit (CHR ''}'')"
  "\<not> json_space (CHR ''}'')"
  by (simp_all add: json_space_def c_isdigit_def of_char_def)

lemma eats_one: "rest s = c # xs \<Longrightarrow> eats s (adv 1 s) xs"
  using eats_adv [of s "[c]" xs] by simp

lemma object_loop_fields:
  assumes env: "env_descs env D"
  shows "\<forall>f \<in> set fs. find_field d (mf_name f) = Some f \<Longrightarrow> pv_fields env D n fs vs \<Longrightarrow> good_fields D fs vs \<Longrightarrow>
    laid_out D k fs \<Longrightarrow> fs \<noteq> [] \<Longrightarrow> rest s = w @ jfields D p fs vs @ tx_sp q @ CHR ''}'' # ys \<Longrightarrow>
    list_all json_space w \<Longrightarrow> buf_holds b x \<Longrightarrow>
    \<exists>s' b' x' m'. object_loop (vd_meta__parse_json_field env (vd_meta__parse_json_object n env)) d a (s, b, m)
        = Some (0, s', b', m') \<and> eats s s' ys \<and> buf_holds b' x' \<and> held_fields D m' a fs vs \<and> frame m m' (extents D a fs)"
proof (induction fs arbitrary: vs w s b x m)
  case (Cons f fs)
  obtain v vs' where vs: "vs = v # vs'" using Cons.prems(3) by (cases vs) auto
  have find: "find_field d (mf_name f) = Some f" and pv: "pv env D n f v" and g: "good D (mf_type f) v"
    and fl: "mf_flags f = 0" and kp: "plain (mf_name f)"
    using Cons.prems by (simp_all add: vs)
  have g': "good_fields D fs vs'" using Cons.prems(3) by (simp add: vs)
  let ?ext = "{a + mf_offset f..<a + mf_offset f + ty_size D (mf_type f)}"
  have w: "list_all json_space (w @ tx_sp p)" using Cons.prems(7) by simp
  show ?case
  proof (cases "fs = []")
    case True
    then have vs': "vs' = []" using g' by (cases vs') auto
    have "rest s = (w @ tx_sp p) @ CHR ''\"'' # mf_name f @ CHR ''\"'' # CHR '':'' # tx_sp1 p @ jtext D p (mf_type f) v
        @ (tx_nl p @ tx_sp q) @ CHR ''}'' # ys"
      using Cons.prems(6) by (simp add: vs vs' True)
    from object_loop_field [OF env find pv g kp this w _ _ _ follow_space Cons.prems(8), of a m] obtain s' b' x' m' where
      o: "eats s s' (CHR ''}'' # ys)" "buf_holds b' x'" "held D m' (a + mf_offset f) (mf_type f) v" "frame m m' ?ext"
      "object_loop (vd_meta__parse_json_field env (vd_meta__parse_json_object n env)) d a (s, b, m) = Some (0, adv 1 s', b', m')"
      by auto
    have "eats s (adv 1 s') ys" by (rule eats_trans [OF o(1) eats_one [OF eats_rest [OF o(1)]]])
    moreover have "held_fields D m' a (f # fs) vs" using o(3) fl by (simp add: vs vs' True)
    moreover have "frame m m' (extents D a (f # fs))" using o(4) by (simp add: extents_def True)
    ultimately show ?thesis using o(2,5) by blast
  next
    case False
    have "rest s = (w @ tx_sp p) @ CHR ''\"'' # mf_name f @ CHR ''\"'' # CHR '':'' # tx_sp1 p @ jtext D p (mf_type f) v
        @ [] @ CHR '','' # tx_nl p @ jfields D p fs vs' @ tx_sp q @ CHR ''}'' # ys"
      using Cons.prems(6) by (simp add: vs False)
    from object_loop_field [OF env find pv g kp this w _ _ _ follow_space Cons.prems(8), of a m] obtain s1 b1 x1 m1 where
      o: "eats s s1 (CHR '','' # tx_nl p @ jfields D p fs vs' @ tx_sp q @ CHR ''}'' # ys)"
      "buf_holds b1 x1" "held D m1 (a + mf_offset f) (mf_type f) v" "frame m m1 ?ext"
      "object_loop (vd_meta__parse_json_field env (vd_meta__parse_json_object n env)) d a (s, b, m)
        = object_loop (vd_meta__parse_json_field env (vd_meta__parse_json_object n env)) d a (adv 1 s1, b1, m1)"
      by auto
    have e1: "eats s1 (adv 1 s1) (tx_nl p @ jfields D p fs vs' @ tx_sp q @ CHR ''}'' # ys)"
      by (rule eats_one [OF eats_rest [OF o(1)]])
    have "\<forall>f \<in> set fs. find_field d (mf_name f) = Some f" "pv_fields env D n fs vs'" "laid_out D k fs"
      using Cons.prems(1,2,4) by (simp_all add: vs)
    from Cons.IH [OF this(1,2) g' this(3) False eats_rest [OF e1] _ o(2), of m1] obtain s' b' x' m' where
      i: "object_loop (vd_meta__parse_json_field env (vd_meta__parse_json_object n env)) d a (adv 1 s1, b1, m1)
        = Some (0, s', b', m')" "eats (adv 1 s1) s' ys" "buf_holds b' x'" "held_fields D m' a fs vs'"
      "frame m1 m' (extents D a fs)"
      by auto
    have "held D m' (a + mf_offset f) (mf_type f) v"
      using g o(3) i(5) laid_out_apart [OF Cons.prems(4)] by (rule held_frame(1))
    then have "held_fields D m' a (f # fs) vs" using i(4) fl by (simp add: vs)
    moreover have "frame m m' (extents D a (f # fs))"
      using frame_trans [OF o(4) i(5)] by (simp add: extents_def)
    moreover have "eats s s' ys" using o(1) e1 i(2) by (blast intro: eats_trans)
    ultimately show ?thesis using i(1,3) o(5) by metis
  qed
qed simp

text \<open>The first member, with the name of the type, is skipped.\<close>

lemma object_loop_type_name:
  assumes r: "rest s = w @ ''\"--vd-meta-type-name--\":'' @ w' @ CHR ''\"'' # t @ CHR ''\"'' # CHR '','' # ys"
    and w: "list_all json_space w" "list_all json_space w'" and t: "flat t" and b: "buf_holds b x"
    and find: "find_field d ''--vd-meta-type-name--'' = None"
  shows "\<exists>s' b'. eats s s' ys \<and> buf_holds b' (x @ ''--vd-meta-type-name--'') \<and>
    object_loop pf d a (s, b, m) = object_loop pf d a (s', b', m)"
proof -
  let ?k = "''--vd-meta-type-name--''"
  have p: "plain ?k" by simp
  have q: "\<not> json_space (CHR ''\"'')" by (simp add: json_space_def)
  have "rest s = w @ CHR ''\"'' # ?k @ CHR ''\"'' # CHR '':'' # w' @ CHR ''\"'' # t @ CHR ''\"'' # CHR '','' # ys" using r by simp
  from key_scan [OF this w q p b] obtain s0 s1 s2 s3 b1 where
    ks: "vd_meta__slice_skip_whitespace s = s0" "vd_meta__parse_json_string s0 b = (True, Some ?k, s1, b1)"
      "vd_meta__slice_skip_whitespace s1 = s1" "vd_meta__slice_expect_char s1 (CHR '':'') = (True, s2)"
      "vd_meta__slice_skip_whitespace s2 = s3"
    and b1: "buf_holds b1 (x @ ?k)" and e3: "eats s s3 (CHR ''\"'' # t @ CHR ''\"'' # CHR '','' # ys)"
    by blast
  let ?u = "CHR ''\"'' # t @ [CHR ''\"'']"
  have "rest s3 = ?u @ CHR '','' # ys" using eats_rest [OF e3] by simp
  moreover have "flat ?u" using t by (simp add: flat_def)
  ultimately have sk: "vd_meta__json_skip_value 0 0 s3 = (True, adv (length ?u + 1) s3)" by (rule skip_flat)
  have "rest s3 = (?u @ [CHR '','']) @ ys" using eats_rest [OF e3] by simp
  then have "eats s3 (adv (length (?u @ [CHR '',''])) s3) ys" by (rule eats_adv)
  then have "eats s3 (adv (length ?u + 1) s3) ys" by simp
  then have "eats s (adv (length ?u + 1) s3) ys" by (rule eats_trans [OF e3])
  moreover have "object_loop pf d a (s, b, m) = object_loop pf d a (adv (length ?u + 1) s3, b1, m)"
    by (subst object_loop.simps) (simp only: ks sk find Let_def prod.case fst_conv snd_conv option.case simp_thms if_True if_False bind.bind_lunit)
  ultimately show ?thesis using b1 by blast
qed

section \<open>Parsing an object\<close>

lemma eats_all: "eats s s' ys \<Longrightarrow> rest s = u @ ys \<Longrightarrow> s' = adv (length u) s"
  by (auto simp: eats_def)

lemma find_field_mem: "distinct (map mf_name (md_fields d)) \<Longrightarrow> f \<in> set (md_fields d) \<Longrightarrow> find_field d (mf_name f) = Some f"
  using find_distinct [of mf_name "md_fields d"] by (auto simp: find_field_def in_set_conv_nth)

lemma find_field_none: "k \<notin> mf_name ` set (md_fields d) \<Longrightarrow> find_field d k = None"
  by (auto simp: find_field_def find_None_iff)

lemma parse_object_reads:
  assumes env: "env_descs env D" and d: "D t = Some d" and g: "good D t (JObj vs)"
    and pv: "pv_fields env D n (md_fields d) vs" and r: "rest s = jtext D p t (JObj vs) @ ys" and b: "buf_holds b x"
  shows "\<exists>b' x' m'. vd_meta__parse_json_object (Suc n) env t a (s, b, m)
      = Some (0, adv (length (jtext D p t (JObj vs))) s, b', m') \<and> buf_holds b' x' \<and>
    held D m' a t (JObj vs) \<and> frame m m' {a..<a + ty_size D t}"
proof -
  have gd: "md_type_class d = VD_META_TYPE_OBJECT" "md_fields d \<noteq> []" "flat (md_name d)"
    "distinct (map mf_name (md_fields d))" "''--vd-meta-type-name--'' \<notin> mf_name ` set (md_fields d)"
    "laid_out D (md_size d) (md_fields d)" "good_fields D (md_fields d) vs"
    using g by (simp_all add: d)
  let ?c = "VD_META__SLICE_COPY s" and ?pf = "vd_meta__parse_json_field env (vd_meta__parse_json_object n env)"
  let ?q = "tx_in p"
  let ?tail = "jfields D ?q (md_fields d) vs @ tx_sp (tx_out ?q) @ CHR ''}'' # ys"
  have r0: "rest ?c = CHR ''{'' # (tx_nl p @ tx_sp ?q) @ ''\"--vd-meta-type-name--\":'' @ tx_sp1 ?q
      @ CHR ''\"'' # md_name d @ CHR ''\"'' # CHR '','' # tx_nl ?q @ ?tail"
    using r by (simp add: d)
  have sk: "vd_meta__slice_skip_whitespace ?c = ?c" using r0 by (rule skip_none) (simp add: json_space_def)
  obtain s1 where s1: "vd_meta__slice_expect_char ?c (CHR ''{'') = (True, s1)"
    "eats ?c s1 ((tx_nl p @ tx_sp ?q) @ ''\"--vd-meta-type-name--\":'' @ tx_sp1 ?q
      @ CHR ''\"'' # md_name d @ CHR ''\"'' # CHR '','' # tx_nl ?q @ ?tail)"
    using eats_expect [OF r0] by blast
  have w: "list_all json_space (tx_nl p @ tx_sp ?q)" by simp
  from object_loop_type_name [OF eats_rest [OF s1(2)] w tx_spaces(3) gd(3) b find_field_none [OF gd(5)], of ?pf a m]
  obtain s2 b2 where s2: "eats s1 s2 (tx_nl ?q @ ?tail)" "buf_holds b2 (x @ ''--vd-meta-type-name--'')"
    "object_loop ?pf d a (s1, b, m) = object_loop ?pf d a (s2, b2, m)"
    by blast
  have find: "\<forall>f \<in> set (md_fields d). find_field d (mf_name f) = Some f" using find_field_mem [OF gd(4)] by blast
  from object_loop_fields [OF env find pv gd(7,6,2) eats_rest [OF s2(1)] tx_spaces(1) s2(2), of a m]
  obtain s3 b3 x3 m3 where s3: "object_loop ?pf d a (s2, b2, m) = Some (0, s3, b3, m3)" "eats s2 s3 ys" "buf_holds b3 x3"
    "held_fields D m3 a (md_fields d) vs" "frame m m3 (extents D a (md_fields d))"
    by blast
  have e: "eats ?c s3 ys" using s1(2) s2(1) s3(2) by (blast intro: eats_trans)
  have "rest ?c = jtext D p t (JObj vs) @ ys" using r by simp
  with e have s3': "s3 = adv (length (jtext D p t (JObj vs))) ?c" by (rule eats_all)
  have "vd_meta_get_descriptor (env_reg env) t = Some (Some d)" using env d by (simp add: env_descs_def)
  moreover have "object_loop ?pf d a (s1, b, m) = Some (0, adv (length (jtext D p t (JObj vs))) ?c, b3, m3)"
    using s2(3) s3(1) s3' by (simp only:)
  ultimately have o: "vd_meta__parse_json_object (Suc n) env t a (s, b, m)
      = Some (0, adv (length (jtext D p t (JObj vs))) s, b3, m3)"
    unfolding vd_meta__parse_json_object.simps
    by (simp only: sk s1(1) Let_def prod.case fst_conv snd_conv option.case bind.bind_lunit simp_thms if_True if_False
        apply_copy less_irrefl)
  moreover have "frame m m3 {a..<a + ty_size D t}"
    using frame_mono [OF s3(5) extents_within [OF gd(6), of a]] by (simp add: ty_size_def d)
  moreover have "held D m3 a t (JObj vs)" using s3(4) d gd(1) by simp
  ultimately show ?thesis using s3(3) o by blast
qed

lemma pv_obj:
  assumes env: "env_descs env D" and d: "D (mf_type f) = Some d" and g: "good D (mf_type f) (JObj vs)"
    and pv: "pv_fields env D n (md_fields d) vs"
  shows "pv env D (Suc n) f (JObj vs)"
  unfolding pv_def
proof (intro allI impI)
  fix p a m s b x ys
  assume r: "rest s = jtext D p (mf_type f) (JObj vs) @ ys" and b: "buf_holds b x"
  have r0: "rest (VD_META__SLICE_COPY s) = jtext D p (mf_type f) (JObj vs) @ ys" using r by simp
  obtain cs where "jtext D p (mf_type f) (JObj vs) = CHR ''{'' # cs" by (simp add: d)
  then have pk: "vd_meta__slice_peek_char (VD_META__SLICE_COPY s) (CHR ''{'')" using peek_cons r0 by fastforce
  from parse_object_reads [OF env d g pv r0 b, of a m] obtain b' x' m' where
    o: "vd_meta__parse_json_object (Suc n) env (mf_type f) a (VD_META__SLICE_COPY s, b, m)
      = Some (0, adv (length (jtext D p (mf_type f) (JObj vs))) (VD_META__SLICE_COPY s), b', m')" "buf_holds b' x'"
    "held D m' a (mf_type f) (JObj vs)" "frame m m' {a..<a + ty_size D (mf_type f)}"
    by blast
  have "vd_meta__parse_json_descriptor env (vd_meta__parse_json_object (Suc n) env) f (D (mf_type f)) a (s, b, m)
      = Some (0, adv (length (jtext D p (mf_type f) (JObj vs))) s, b', m')"
    unfolding vd_meta__parse_json_descriptor_def
    using o(1) pk by (simp del: jtext.simps vd_meta__parse_json_object.simps)
  with o(2-4) show "\<exists>b' x' m'. vd_meta__parse_json_descriptor env (vd_meta__parse_json_object (Suc n) env) f (D (mf_type f)) a (s, b, m)
      = Some (0, adv (length (jtext D p (mf_type f) (JObj vs))) s, b', m') \<and> buf_holds b' x' \<and>
      held D m' a (mf_type f) (JObj vs) \<and> frame m m' {a..<a + ty_size D (mf_type f)}"
    by blast
qed

lemma good_pv:
  "env_descs env D \<Longrightarrow> good D (mf_type f) v \<Longrightarrow> depth v \<le> n \<Longrightarrow> pv env D n f v"
  "env_descs env D \<Longrightarrow> good_fields D fs vs \<Longrightarrow> depth_list vs \<le> n \<Longrightarrow> pv_fields env D n fs vs"
proof (induction v and vs arbitrary: f n and fs n rule: jval_induct)
  case (JObj vs)
  then obtain k where n: "n = Suc k" "depth_list vs \<le> k" by (cases n) auto
  obtain d where d: "D (mf_type f) = Some d" "good_fields D (md_fields d) vs"
    using JObj.prems(2) by (auto split: option.splits)
  show ?case unfolding n(1) by (rule pv_obj [OF JObj.prems(1) d(1) JObj.prems(2) JObj.IH [OF JObj.prems(1) d(2) n(2)]])
next
  case (JInt pt i)
  then show ?case by (intro pv_int)
next
  case (JChar c)
  then show ?case by (intro pv_char)
next
  case (JStr s)
  then show ?case by (intro pv_str)
next
  case Nil
  then show ?case by (cases fs) auto
next
  case (Cons v vs)
  then show ?case by (cases fs) auto
qed

section \<open>The round trip\<close>

lemma get_type_reads:
  assumes d: "D t = Some d" and g: "good D t (JObj vs)" and i: "vd_meta_get_id reg (md_name d) = Some i" "i \<noteq> 0"
    and e: "expected = 0 \<or> expected = i" and r: "rest s = jtext D p t (JObj vs) @ ys" and b: "buf_holds b x"
  shows "\<exists>b' x'. vd_meta__json_get_object_type reg expected s b = Some (0, Some i, b') \<and> buf_holds b' x'"
proof -
  have gd: "plain (md_name d)" using g by (simp add: d)
  let ?c = "VD_META__SLICE_COPY s" and ?q = "tx_in p" and ?k = "''--vd-meta-type-name--''"
  obtain xs where r0: "rest ?c = CHR ''{'' # (tx_nl p @ tx_sp ?q) @ CHR ''\"'' # ?k @ CHR ''\"'' # CHR '':'' # tx_sp1 ?q
      @ CHR ''\"'' # md_name d @ CHR ''\"'' # xs"
    using r by (simp add: d)
  have sk: "vd_meta__slice_skip_whitespace ?c = ?c" using r0 by (rule skip_none) (simp add: json_space_def)
  obtain s1 where s1: "vd_meta__slice_expect_char ?c (CHR ''{'') = (True, s1)"
    "eats ?c s1 ((tx_nl p @ tx_sp ?q) @ CHR ''\"'' # ?k @ CHR ''\"'' # CHR '':'' # tx_sp1 ?q
      @ CHR ''\"'' # md_name d @ CHR ''\"'' # xs)"
    using eats_expect [OF r0] by blast
  have w: "list_all json_space (tx_nl p @ tx_sp ?q)" "\<not> json_space (CHR ''\"'')" "plain ?k"
    by (simp_all add: json_space_def)
  from key_scan [OF eats_rest [OF s1(2)] w(1) tx_spaces(3) w(2,3) b] obtain s2 s3 s4 s5 b1 where
    ks: "vd_meta__slice_skip_whitespace s1 = s2" "vd_meta__parse_json_string s2 b = (True, Some ?k, s3, b1)"
      "vd_meta__slice_skip_whitespace s3 = s3" "vd_meta__slice_expect_char s3 (CHR '':'') = (True, s4)"
      "vd_meta__slice_skip_whitespace s4 = s5"
    and b1: "buf_holds b1 (x @ ?k)" and e5: "eats s1 s5 (CHR ''\"'' # md_name d @ CHR ''\"'' # xs)"
    and r2: "rest s2 = CHR ''\"'' # ?k @ CHR ''\"'' # CHR '':'' # tx_sp1 ?q @ CHR ''\"'' # md_name d @ CHR ''\"'' # xs"
    by blast
  obtain b2 where b2: "vd_meta__parse_json_string s5 b1 = (True, Some (md_name d), adv (length (md_name d) + 2) s5, b2)"
    "buf_holds b2 ((x @ ?k) @ md_name d)"
    using parse_string_plain [OF eats_rest [OF e5] gd b1] by blast
  have x2: "vd_meta__slice_expect_char s2 (CHR ''}'') = (False, s2)" "\<not> vd_meta__slice_at_end s2"
    using expect_cons [OF r2] rest_cons [OF r2] by (simp_all add: vd_meta__slice_at_end_def)
  have "object_type_loop reg expected s1 b = Some (0, Some i, b2)"
    using e i(2) by (subst object_type_loop.simps)
      (simp only: ks x2 b2(1) i(1) Let_def prod.case fst_conv snd_conv bind.bind_lunit simp_thms if_True if_False, auto)
  then have "vd_meta__json_get_object_type reg expected s b = Some (0, Some i, b2)"
    by (simp only: vd_meta__json_get_object_type_def sk s1(1) Let_def fst_conv snd_conv simp_thms if_False)
  with b2(2) show ?thesis by blast
qed

definition buf_text :: "VD_Meta__Buffer \<Rightarrow> char list" where
  "buf_text b = map the (take (mb_len b) (mb_ptr b))"

lemma buf_text_holds: "buf_holds b t \<Longrightarrow> buf_text b = t"
  by (simp add: buf_text_def buf_holds_def comp_def)

lemma write_json_text:
  assumes env: "env_descs env D" and d: "D t = Some d" and h: "held D m a t (JObj vs)" and n: "depth (JObj vs) \<le> n"
  shows "\<exists>b. vd_meta_write_json n env m a t p = Some (0, b) \<and> buf_text b = jtext D p t (JObj vs)"
proof -
  have "held_fields D m a (md_fields d) vs" "depth_list vs \<le> n" using h n by (simp_all add: d)
  then have "wr_fields env D m n a (md_fields d) vs" using write_held(2) [OF env] by blast
  from write_object_holds [OF env d this buf_empty, of p] obtain b where
    b: "vd_meta__write_json_object env (vd_meta__write_json_descriptor n env m) m a t mb_empty p = Some (0, b)"
      "buf_holds b (jtext D p t (JObj vs) @ [])"
    by auto
  have "buf_holds (vd_meta__buffer_terminate b) (jtext D p t (JObj vs))" using terminate_holds [OF b(2)] by simp
  from buf_text_holds [OF this] show ?thesis using b(1) by (simp add: vd_meta_write_json_def)
qed

lemma clear_frame: "0 < k \<Longrightarrow> frame m (mem_clear a k m) {a..<a + k}"
  unfolding frame_def
proof (intro allI impI)
  fix x w assume k: "0 < k" and x: "m x = Some w" and d: "{x..<x + val_size w} \<inter> {a..<a + k} = {}"
  have "\<not> (x < a + k \<and> a < x + val_size w)"
  proof
    assume "x < a + k \<and> a < x + val_size w"
    then have "max x a \<in> {x..<x + val_size w} \<inter> {a..<a + k}" using val_size_pos [of w] k by auto
    with d show False by simp
  qed
  then show "mem_clear a k m x = Some w" using x by (simp add: mem_clear_def)
qed

lemma parse_json_text:
  assumes env: "env_descs env D" and d: "D t = Some d" and g: "good D t (JObj vs)" and z: "0 < md_size d"
    and i: "vd_meta_get_id (env_reg env) (md_name d) = Some t" "t \<noteq> 0"
    and e: "expected = 0 \<or> expected = t" and n: "depth (JObj vs) \<le> n"
  shows "\<exists>m'. vd_meta_parse_json n env alloc expected (jtext D p t (JObj vs)) m0
      = Some (0, Some t, Some (alloc (md_size d)), m') \<and> held D m' (alloc (md_size d)) t (JObj vs) \<and>
    frame m0 m' {alloc (md_size d)..<alloc (md_size d) + md_size d}"
proof -
  let ?x = "jtext D p t (JObj vs)" and ?a = "alloc (md_size d)"
  have r: "rest (slice_of ?x) = ?x @ []" by (simp add: rest_def slice_of_def)
  obtain b1 x1 where b1: "vd_meta__json_get_object_type (env_reg env) expected (slice_of ?x) mb_empty = Some (0, Some t, b1)"
    "buf_holds b1 x1"
    using get_type_reads [OF d g i e r buf_empty] by blast
  obtain k where k: "n = Suc k" "depth_list vs \<le> k" using n by (cases n) auto
  have "good_fields D (md_fields d) vs" using g by (simp add: d)
  then have "pv_fields env D k (md_fields d) vs" using good_pv(2) [OF env _ k(2)] by blast
  from parse_object_reads [OF env d g this r clear_holds [OF b1(2)], of ?a "mem_clear ?a (md_size d) m0"]
  obtain b' x' m' where o: "vd_meta__parse_json_object (Suc k) env t ?a
      (slice_of ?x, vd_meta__buffer_clear b1, mem_clear ?a (md_size d) m0) = Some (0, adv (length ?x) (slice_of ?x), b', m')"
    "held D m' ?a t (JObj vs)" "frame (mem_clear ?a (md_size d) m0) m' {?a..<?a + ty_size D t}"
    by blast
  have desc: "vd_meta_get_descriptor (env_reg env) t = Some (Some d)" using env d by (simp add: env_descs_def)
  have "vd_meta_parse_json n env alloc expected ?x m0 = Some (0, Some t, Some ?a, m')"
    using b1(1) desc o(1) by (simp add: vd_meta_parse_json_def Let_def k(1) del: jtext.simps vd_meta__parse_json_object.simps)
  moreover have "frame m0 m' {?a..<?a + md_size d}"
    using frame_trans [OF clear_frame [OF z] o(3)] by (simp add: ty_size_def d)
  ultimately show ?thesis using o(2) by blast
qed

text \<open>C4. What the library writes for an object of a limited kind (\<open>good\<close>) it reads back as the same object,
  whatever indentation was asked for. The object may hold objects, strings, characters and integers of every
  width; the claim is not about objects with floating point numbers, with arrays, with a quote or a
  backslash in a string or a name, with a bracket or a comma in the name of a type, or without fields,
  which the code does not read back in general. From a fuel of the depth of the object on both directions succeed, the identifier of the type is
  found from the text, the fields of the new object are the fields of the old one, and no other memory than
  that of the new object is changed.\<close>

theorem vd_meta_json_roundtrip:
  assumes "env_descs env D" and "D t = Some d" and "good D t (JObj vs)" and "held D m a t (JObj vs)"
    and "0 < md_size d" and "vd_meta_get_id (env_reg env) (md_name d) = Some t" and "t \<noteq> 0"
    and "expected = 0 \<or> expected = t" and "depth (JObj vs) \<le> n"
  shows "\<exists>b m'. vd_meta_write_json n env m a t p = Some (0, b) \<and>
    vd_meta_parse_json n env alloc expected (buf_text b) m0 = Some (0, Some t, Some (alloc (md_size d)), m') \<and>
    held D m' (alloc (md_size d)) t (JObj vs) \<and>
    frame m0 m' {alloc (md_size d)..<alloc (md_size d) + md_size d}"
  using write_json_text [OF assms(1,2,4,9), of p] parse_json_text [OF assms(1-3,5-9), where p = p and alloc = alloc and ?m0.0 = m0]
  by (metis (no_types))

text \<open>A player with an integer, a string and a nested object of the type \<open>Health\<close>.\<close>

definition demo_field :: "char list \<Rightarrow> u64 \<Rightarrow> nat \<Rightarrow> VD_Meta_Field" where
  "demo_field k t off = \<lparr>mf_name = k, mf_type = t, mf_offset = off, mf_flags = 0, mf_fixed_len = 0, mf_props = 0\<rparr>"

definition demo_player :: VD_Meta_Descriptor where
  "demo_player = (meta_desc ''Player'' VD_META_TYPE_OBJECT 24 VD_META_PRIMITIVE_TYPE_I8)
     \<lparr>md_fields := [demo_field ''score'' 5 0, demo_field ''name'' 12 8, demo_field ''health'' 13 16]\<rparr>"

definition demo_env :: meta_env where
  "demo_env = \<lparr>env_reg = meta_register_all [demo_type, demo_player] vd_meta_init,
     env_print_float = (\<lambda>_ _. []), env_strtod = (\<lambda>_ _. (0, 0)), env_props = 0, env_array_ptr = (\<lambda>_ _. 0),
     env_array_len = (\<lambda>_ _ _. 0), env_array_add = (\<lambda>_ _ _ m. m)\<rparr>"

definition demo_descs :: descs where
  "demo_descs t = List.find (\<lambda>d. md_id d = t) (number 1 (meta_default_types @ [demo_type, demo_player]))"

lemma demo_list: "list_all (\<lambda>d. md_id d = 0) [demo_type, demo_player]"
  "distinct (map md_name (meta_default_types @ [demo_type, demo_player]))"
  by (simp_all add: demo_type_def demo_player_def meta_default_types_def meta_desc_def)

lemma demo_env_descs: "env_descs demo_env demo_descs"
  unfolding env_descs_def demo_descs_def
  using get_descriptor_holds [OF init_holds [OF demo_list(1)]] by (simp add: demo_env_def)

lemma demo_resolves:
  "i < 14 \<Longrightarrow> vd_meta_get_id (env_reg demo_env) (md_name ((meta_default_types @ [demo_type, demo_player]) ! i)) = Some (of_nat (i + 1))
    \<and> demo_descs (of_nat (i + 1)) = Some (((meta_default_types @ [demo_type, demo_player]) ! i)\<lparr>md_id := of_nat (i + 1)\<rparr>)"
  using registry_resolves [OF demo_list, of i] demo_env_descs
  by (simp add: demo_env_def env_descs_def meta_default_types_def)

lemma demo_descs_eval:
  "demo_descs 5 = Some ((meta_desc ''int32_t'' VD_META_TYPE_PRIMITIVE 4 VD_META_PRIMITIVE_TYPE_I32)\<lparr>md_id := 5\<rparr>)"
  "demo_descs 12 = Some ((meta_desc ''CString'' VD_META_TYPE_STRING 8 VD_META_PRIMITIVE_TYPE_I8)\<lparr>md_id := 12\<rparr>)"
  "demo_descs 13 = Some (demo_type\<lparr>md_id := 13\<rparr>)" "demo_descs 14 = Some (demo_player\<lparr>md_id := 14\<rparr>)"
  using demo_resolves [of 4] demo_resolves [of 11] demo_resolves [of 12] demo_resolves [of 13]
  by (simp_all add: meta_default_types_def)

definition demo_mem :: meta_mem where
  "demo_mem = [0 \<mapsto> VInt VD_META_PRIMITIVE_TYPE_I32 (-7), 8 \<mapsto> VStr ''Bo'', 16 \<mapsto> VInt VD_META_PRIMITIVE_TYPE_I32 90]"

definition demo_value :: jval where
  "demo_value = JObj [JInt VD_META_PRIMITIVE_TYPE_I32 (-7), JStr ''Bo'', JObj [JInt VD_META_PRIMITIVE_TYPE_I32 90]]"

lemma demo_good: "good demo_descs 14 demo_value"
  by (simp add: demo_value_def demo_descs_eval demo_player_def demo_type_def demo_field_def meta_desc_def int_prim_def
      prim_range_def prim_signed_def flat_def ty_size_def)

lemma demo_held: "held demo_descs demo_mem 0 14 demo_value"
  by (simp add: demo_value_def demo_mem_def demo_descs_eval demo_player_def demo_type_def demo_field_def meta_desc_def
      int_prim_def prim_range_def prim_signed_def)

theorem vd_meta_json_roundtrip_witness:
  "\<exists>b m'. vd_meta_write_json 3 demo_env demo_mem 0 14 0 = Some (0, b) \<and>
    vd_meta_parse_json 3 demo_env (\<lambda>_. 64) 0 (buf_text b) demo_mem = Some (0, Some 14, Some 64, m') \<and>
    held demo_descs m' 64 14 demo_value \<and> frame demo_mem m' {64..<88}"
proof -
  have "demo_descs 14 = Some (demo_player\<lparr>md_id := 14\<rparr>)" by (rule demo_descs_eval(4))
  moreover have "vd_meta_get_id (env_reg demo_env) ''Player'' = Some 14"
    using demo_resolves [of 13] by (simp add: meta_default_types_def demo_player_def meta_desc_def)
  moreover have "depth demo_value \<le> 3" by (simp add: demo_value_def)
  ultimately show ?thesis
    using vd_meta_json_roundtrip [OF demo_env_descs _ demo_good [unfolded demo_value_def] demo_held [unfolded demo_value_def],
        where expected = 0 and n = 3 and p = 0 and alloc = "\<lambda>_. 64" and ?m0.0 = demo_mem]
    by (simp add: demo_player_def meta_desc_def demo_value_def)
qed

end
