(* ===== verification/Mesh.thy ===== *)
theory Mesh
  imports Complex_Main Prelude
begin

text \<open>
  The generated meshes and images of ng/src/r/types.c: a sphere, a box and a checkerboard. The arithmetic
  of the target and the functions of the C library and of the vendored matrix library are a parameter
  (\<open>f_ops\<close>) on two abstract types of numbers, \<open>'f\<close> for \<open>float\<close> and \<open>'d\<close> for \<open>double\<close>; \<open>exact_ops\<close> is the
  arithmetic without rounding, for what the meshes are meant to be. An array that is filled through an index is a list of slots, \<open>None\<close> while
  nothing was written. Sizes and indices are \<open>int\<close>; an operation on them that overflows has no result.
\<close>

section \<open>Arrays and numbers\<close>

definition c_int :: "int \<Rightarrow> int option" where
  "c_int x = (if - (2 ^ 31) \<le> x \<and> x < 2 ^ 31 then Some x else None)"

text \<open>\<open>xs[i] = v\<close>\<close>

definition put :: "'a option list \<Rightarrow> int \<Rightarrow> 'a \<Rightarrow> 'a option list option" where
  "put xs i v = (if 0 \<le> i \<and> i < int (length xs) then Some (xs[nat i := Some v]) else None)"

text \<open>Memory of the allocator for \<open>n\<close> elements; the size is converted to \<open>size_t\<close>, so a negative one is huge.\<close>

definition alloc_array :: "int \<Rightarrow> 'a option list option" where
  "alloc_array n = (if 0 \<le> n then Some (replicate (nat n) None) else None)"

record ('f, 'd) f_ops =
  f_of_int :: "int \<Rightarrow> 'f"
  f_mul :: "'f \<Rightarrow> 'f \<Rightarrow> 'f"
  f_div :: "'f \<Rightarrow> 'f \<Rightarrow> 'f"
  f_neg :: "'f \<Rightarrow> 'f"
  d_of_f :: "'f \<Rightarrow> 'd"
  f_of_d :: "'d \<Rightarrow> 'f"
  d_mul :: "'d \<Rightarrow> 'd \<Rightarrow> 'd"
  d_div :: "'d \<Rightarrow> 'd \<Rightarrow> 'd"
  sinf :: "'f \<Rightarrow> 'f"
  cosf :: "'f \<Rightarrow> 'f"
  GLM_PI :: 'd
  glm_vec3_normalize :: "'f \<times> 'f \<times> 'f \<Rightarrow> 'f \<times> 'f \<times> 'f"
  glm_perspective_rh_zo :: "'f \<Rightarrow> 'f \<Rightarrow> 'f \<Rightarrow> 'f \<Rightarrow> 'f list list"
  glm_mat4_mul :: "'f list list \<Rightarrow> 'f list list \<Rightarrow> 'f list list"


section \<open>Sphere\<close>


text \<open>The loop \<open>for (int i = i0; i < n; ++i)\<close>: the body takes the counter and the state.\<close>

function for_loop :: "int \<Rightarrow> int \<Rightarrow> (int \<Rightarrow> 's \<Rightarrow> 's option) \<Rightarrow> 's \<Rightarrow> 's option" where
  "for_loop i n body s = (if i < n then do { s' \<leftarrow> body i s; for_loop (i + 1) n body s' } else Some s)"
  by pat_completeness auto
termination by (relation "measure (\<lambda>(i, n, _, _). nat (n - i))") auto

declare for_loop.simps [simp del]




section \<open>Box\<close>






section \<open>Checkerboard\<close>

text \<open>\<open>%\<close> truncates towards zero; the counters are not negative here.\<close>

definition vd_r_generate_checkerboard :: "u32 \<Rightarrow> u32 \<Rightarrow> int \<Rightarrow> int \<Rightarrow> (u32 option list \<times> nat) option" where
  "vd_r_generate_checkerboard even_color odd_color width height =
     do { cells \<leftarrow> c_int (width * height);
          result0 \<leftarrow> alloc_array cells;
          result \<leftarrow> for_loop 0 width (\<lambda>x. for_loop 0 height (\<lambda>y xs.
            do { row \<leftarrow> c_int (y * width);
                 i \<leftarrow> c_int (row + x);
                 put xs i (if (x mod 2) XOR (y mod 2) \<noteq> 0 then even_color else odd_color) })) result0;
          Some (result, 4 * nat cells) }"

section \<open>Projection\<close>

definition vd_r_perspective :: "('f, 'd) f_ops \<Rightarrow> 'f \<Rightarrow> 'f \<Rightarrow> 'f \<Rightarrow> 'f \<Rightarrow> 'f list list" where
  "vd_r_perspective F fov aspect znear zfar =
     (let n = f_of_int F; reverse_z = map (map n) [[1, 0, 0, 0], [0, 1, 0, 0], [0, 0, -1, 0], [0, 0, 1, 1]] in
      glm_mat4_mul F reverse_z (glm_perspective_rh_zo F fov aspect znear zfar))"

section \<open>Loops\<close>

lemma for_loop_done: "n \<le> i \<Longrightarrow> for_loop i n body s = Some s"
  by (simp add: for_loop.simps [of i])

lemma for_loop_step: "i < n \<Longrightarrow> for_loop i n body s = do { s' \<leftarrow> body i s; for_loop (i + 1) n body s' }"
  by (simp add: for_loop.simps [of i])

lemma for_loop_inv:
  assumes "a \<le> b" and "I a s" and "\<And>i s. a \<le> i \<Longrightarrow> i < b \<Longrightarrow> I i s \<Longrightarrow> \<exists>s'. body i s = Some s' \<and> I (i + 1) s'"
  shows "\<exists>s'. for_loop a b body s = Some s' \<and> I b s'"
  using assms
proof (induction "nat (b - a)" arbitrary: a s)
  case 0
  then show ?case by (simp add: for_loop_done)
next
  case (Suc k)
  then have lt: "a < b" by simp
  obtain s' where s': "body a s = Some s'" "I (a + 1) s'" using Suc.prems lt by (metis order_refl)
  have "\<exists>t. for_loop (a + 1) b body s' = Some t \<and> I b t"
    using Suc.hyps(2) lt s'(2) Suc.prems(3) by (intro Suc.hyps(1)) simp_all
  then show ?case using lt s'(1) by (simp add: for_loop_step)
qed




section \<open>The sphere\<close>


definition quad :: "int \<Rightarrow> int \<Rightarrow> int \<Rightarrow> u32 list" where
  "quad rings lat lon =
     (let first = lat * (rings + 1) + lon; second = first + rings + 1 in
      map of_int [first, second, first + 1, second, second + 1, first + 1])"



lemma c_int_some: "0 \<le> x \<Longrightarrow> x < 2 ^ 31 \<Longrightarrow> c_int x = Some x"
  by (simp add: c_int_def)




lemma quad_length [simp]: "length (quad rings lat lon) = 6"
  by (simp add: quad_def Let_def)




















section \<open>The box\<close>

















section \<open>The checkerboard\<close>

definition checker :: "u32 \<Rightarrow> u32 \<Rightarrow> int \<Rightarrow> int \<Rightarrow> u32" where
  "checker even_color odd_color x y = (if odd (x + y) then even_color else odd_color)"

lemma checker_xor: "((x mod 2) XOR (y mod 2) \<noteq> (0 :: int)) \<longleftrightarrow> odd (x + y)"
proof -
  have "x mod 2 = (if even x then 0 else 1)" "y mod 2 = (if even y then 0 else 1)"
    by (simp_all add: even_iff_mod_2_eq_zero odd_iff_mod_2_eq_one)
  then show ?thesis by (auto simp: even_add)
qed

lemma cell_bound: "0 \<le> x \<Longrightarrow> x < w \<Longrightarrow> 0 \<le> y \<Longrightarrow> y < h \<Longrightarrow> 0 \<le> y * w + x \<and> y * w + x < w * (h :: int)"
proof -
  assume a: "0 \<le> x" "x < w" "0 \<le> y" "y < h"
  then have "(y + 1) * w \<le> h * w" by (intro mult_right_mono) simp_all
  moreover have "0 \<le> y * w" using a by simp
  ultimately show ?thesis using a by (simp add: algebra_simps)
qed

lemma cell_inj:
  "0 \<le> x \<Longrightarrow> x < w \<Longrightarrow> 0 \<le> x' \<Longrightarrow> x' < w \<Longrightarrow> y * w + x = y' * w + x' \<longleftrightarrow> x = x' \<and> y = (y' :: int)"
proof -
  assume a: "0 \<le> x" "x < w" "0 \<le> x'" "x' < w"
  have "(y * w + x) mod w = x" "(y' * w + x') mod w = x'" "(y * w + x) div w = y" "(y' * w + x') div w = y'"
    using a by simp_all
  then show ?thesis by metis
qed

text \<open>The cells left of column \<open>x\<close>, and the cells of column \<open>x\<close> above row \<open>y\<close>, are painted.\<close>

definition painted :: "u32 \<Rightarrow> u32 \<Rightarrow> int \<Rightarrow> int \<Rightarrow> int \<Rightarrow> int \<Rightarrow> u32 option list \<Rightarrow> bool" where
  "painted e d w h x y xs \<longleftrightarrow> int (length xs) = w * h \<and>
     (\<forall>x' y'. 0 \<le> x' \<and> x' < w \<and> 0 \<le> y' \<and> y' < h \<and> (x' < x \<or> x' = x \<and> y' < y) \<longrightarrow>
        xs ! nat (y' * w + x') = Some (checker e d x' y'))"

lemma painted_put:
  assumes "painted e d w h x y xs" and "0 \<le> x" "x < w" "0 \<le> y" "y < h"
  shows "painted e d w h x (y + 1) (xs[nat (y * w + x) := Some (checker e d x y)])"
  unfolding painted_def
proof (intro conjI allI impI)
  fix x' y' assume a: "0 \<le> x' \<and> x' < w \<and> 0 \<le> y' \<and> y' < h \<and> (x' < x \<or> x' = x \<and> y' < y + 1)"
  have b: "0 \<le> y' * w + x'" "y' * w + x' < w * h" "0 \<le> y * w + x" "y * w + x < w * h"
    using cell_bound a assms(2-5) by blast+
  show "xs[nat (y * w + x) := Some (checker e d x y)] ! nat (y' * w + x') = Some (checker e d x' y')"
  proof (cases "x' = x \<and> y' = y")
    case True
    moreover have "nat (y * w + x) < length xs" using b assms(1) unfolding painted_def by linarith
    ultimately show ?thesis by simp
  next
    case False
    then have "y * w + x \<noteq> y' * w + x'" using cell_inj [of x w x' y y'] a assms(2,3) by auto
    then have "nat (y * w + x) \<noteq> nat (y' * w + x')" using b by simp
    moreover have "x' < x \<or> x' = x \<and> y' < y" using a False by auto
    ultimately show ?thesis using assms(1) a by (simp add: painted_def)
  qed
qed (use assms(1) in \<open>simp add: painted_def\<close>)

lemma painted_column: "painted e d w h x h xs \<Longrightarrow> painted e d w h (x + 1) 0 xs"
  unfolding painted_def
proof (elim conjE, intro conjI allI impI)
  fix x' y' assume p: "\<forall>x' y'. 0 \<le> x' \<and> x' < w \<and> 0 \<le> y' \<and> y' < h \<and> (x' < x \<or> x' = x \<and> y' < h) \<longrightarrow>
      xs ! nat (y' * w + x') = Some (checker e d x' y')"
    and a: "0 \<le> x' \<and> x' < w \<and> 0 \<le> y' \<and> y' < h \<and> (x' < x + 1 \<or> x' = x + 1 \<and> y' < 0)"
  have "x' < x \<or> x' = x" using a by linarith
  then show "xs ! nat (y' * w + x') = Some (checker e d x' y')" using p a by blast
qed

lemma checkerboard_runs:
  assumes "0 \<le> w" "0 \<le> h" "w * h < 2 ^ 31"
  shows "\<exists>xs. vd_r_generate_checkerboard e d w h = Some (xs, 4 * nat (w * h)) \<and> painted e d w h w 0 xs"
proof -
  let ?body = "\<lambda>x y xs. do { row \<leftarrow> c_int (y * w); i \<leftarrow> c_int (row + x);
    put xs i (if (x mod 2) XOR (y mod 2) \<noteq> 0 then e else d) }"
  have "\<exists>xs. for_loop 0 w (\<lambda>x. for_loop 0 h (?body x)) (replicate (nat (w * h)) None) = Some xs \<and> (0 \<le> w \<and> painted e d w h w 0 xs)"
  proof (rule for_loop_inv [where I = "\<lambda>x xs. 0 \<le> x \<and> painted e d w h x 0 xs"])
    fix x xs assume x: "0 \<le> x" "x < w" and i: "0 \<le> x \<and> painted e d w h x 0 xs"
    have "\<exists>ys. for_loop 0 h (?body x) xs = Some ys \<and> (0 \<le> h \<and> painted e d w h x h ys)"
    proof (rule for_loop_inv [where I = "\<lambda>y ys. 0 \<le> y \<and> painted e d w h x y ys"])
      fix y ys assume y: "0 \<le> y" "y < h" and p: "0 \<le> y \<and> painted e d w h x y ys"
      have b: "0 \<le> y * w" "y * w + x < w * h" using cell_bound x y by auto
      then have "c_int (y * w) = Some (y * w)" "c_int (y * w + x) = Some (y * w + x)"
        using x assms(3) by (simp_all add: c_int_some)
      moreover have "int (length ys) = w * h" using p by (simp add: painted_def)
      ultimately show "\<exists>zs. ?body x y ys = Some zs \<and> (0 \<le> y + 1 \<and> painted e d w h x (y + 1) zs)"
        using painted_put [of e d w h x y ys] p x y b
        by (simp add: put_def checker_xor checker_def)
    qed (use assms(2) i in simp_all)
    then show "\<exists>ys. for_loop 0 h (?body x) xs = Some ys \<and> (0 \<le> x + 1 \<and> painted e d w h (x + 1) 0 ys)"
      using x painted_column by fastforce
  qed (use assms in \<open>auto simp: painted_def\<close>)
  moreover have "c_int (w * h) = Some (w * h)" using assms by (simp add: c_int_some)
  ultimately show ?thesis
    using assms by (auto simp: vd_r_generate_checkerboard_def alloc_array_def)
qed

text \<open>When its size fits an \<open>int\<close>, every cell of a checkerboard is painted, with the colour of the parity
  of its column and row, so that neighbours differ when the colours do.\<close>

theorem vd_r_generate_checkerboard_correct:
  assumes "0 \<le> w" "0 \<le> h" "w * h < (2 :: int) ^ 31"
  shows "\<exists>xs. vd_r_generate_checkerboard e d w h = Some (xs, 4 * nat (w * h)) \<and> length xs = nat (w * h) \<and>
    (\<forall>x y. 0 \<le> x \<and> x < w \<and> 0 \<le> y \<and> y < h \<longrightarrow> xs ! nat (y * w + x) = Some (if odd (x + y) then e else d))"
proof -
  obtain xs where "vd_r_generate_checkerboard e d w h = Some (xs, 4 * nat (w * h))" "painted e d w h w 0 xs"
    using checkerboard_runs [OF assms] by blast
  then show ?thesis by (intro exI [of _ xs]) (auto simp: painted_def checker_def)
qed

theorem vd_r_generate_checkerboard_correct_witness:
  "\<exists>xs. vd_r_generate_checkerboard 7 9 4 2 = Some (xs, 32) \<and> length xs = 8 \<and> xs ! 5 = Some 9 \<and> xs ! 6 = Some 7"
proof -
  obtain xs where xs: "vd_r_generate_checkerboard 7 9 4 2 = Some (xs, 32)" "length xs = 8"
    "\<forall>x y. 0 \<le> x \<and> x < 4 \<and> 0 \<le> y \<and> y < 2 \<longrightarrow> xs ! nat (y * 4 + x) = Some (if odd (x + y) then 7 else 9)"
    using vd_r_generate_checkerboard_correct [of 4 2 7 9] by auto
  from spec [OF spec [OF xs(3), of 1], of 1] spec [OF spec [OF xs(3), of 2], of 1] xs(1,2) show ?thesis by simp
qed

end
