(* ===== verification/Svma.thy ===== *)
theory Svma
  imports Dynarray
begin

text \<open>
  The device memory of ng/src/r/svma.c: a wrapper of the Vulkan memory allocator (VMA) that can keep a list
  of what was allocated and from where, and reports at the end what was not freed.

  The device, with VMA, is a parameter (\<open>gpu\<close>): functions on a state \<open>'v\<close> that the model does not look
  into. Handles are 64-bit words. An entry of the list is allocated once and never released; its address is
  its number, counted from 1. \<open>abort\<close> in \<open>VD_VK_CHECK\<close> is \<open>None\<close>.
\<close>

section \<open>The device\<close>

record VkBufferCreateInfo =
  bci_usage :: u32
  bci_size :: u64

record VkExtent3D =
  ext_width :: u32
  ext_height :: u32
  ext_depth :: u32

text \<open>The members that the code sets always to the same value (a two-dimensional image with one layer and
  one sample and optimal tiling) are left out.\<close>

record VkImageCreateInfo =
  ici_format :: u32
  ici_extent :: VkExtent3D
  ici_usage :: u32
  ici_mipLevels :: u32

record VmaAllocationCreateInfo =
  aci_usage :: u32
  aci_flags :: u32
  aci_requiredFlags :: u32

record 'v gpu =
  vd_memory_get_system_allocator :: nat
  vmaCreateAllocator :: "u64 \<Rightarrow> u64 \<Rightarrow> u64 \<Rightarrow> 'v \<Rightarrow> u64 option \<times> 'v"
  vmaDestroyAllocator :: "u64 \<Rightarrow> 'v \<Rightarrow> 'v"
  vmaCreateBuffer :: "u64 \<Rightarrow> VkBufferCreateInfo \<Rightarrow> VmaAllocationCreateInfo \<Rightarrow> 'v \<Rightarrow> (u64 \<times> u64) option \<times> 'v"
  vmaCreateImage :: "u64 \<Rightarrow> VkImageCreateInfo \<Rightarrow> VmaAllocationCreateInfo \<Rightarrow> 'v \<Rightarrow> (u64 \<times> u64) option \<times> 'v"
  vmaDestroyBuffer :: "u64 \<Rightarrow> u64 \<Rightarrow> u64 \<Rightarrow> 'v \<Rightarrow> 'v"
  vmaDestroyImage :: "u64 \<Rightarrow> u64 \<Rightarrow> u64 \<Rightarrow> 'v \<Rightarrow> 'v"
  vmaSetAllocationUserData :: "u64 \<Rightarrow> u64 \<Rightarrow> nat \<Rightarrow> 'v \<Rightarrow> 'v"
  vmaGetAllocationInfo :: "u64 \<Rightarrow> u64 \<Rightarrow> 'v \<Rightarrow> nat \<times> u64"
  vmaMapMemory :: "u64 \<Rightarrow> u64 \<Rightarrow> 'v \<Rightarrow> u64 option \<times> 'v"
  vmaUnmapMemory :: "u64 \<Rightarrow> u64 \<Rightarrow> 'v \<Rightarrow> 'v"
  vkGetBufferDeviceAddress :: "u64 \<Rightarrow> u64 \<Rightarrow> 'v \<Rightarrow> u64"
  vkCreateImageView :: "u64 \<Rightarrow> u32 \<Rightarrow> u64 \<Rightarrow> u32 \<Rightarrow> 'v \<Rightarrow> u64 option \<times> 'v"
  vkDestroyImageView :: "u64 \<Rightarrow> u64 \<Rightarrow> 'v \<Rightarrow> 'v"
  vd_vk_create_shader_module :: "u64 \<Rightarrow> u8 list \<Rightarrow> 'v \<Rightarrow> u64 option \<times> 'v"
  vkDestroyShaderModule :: "u64 \<Rightarrow> u64 \<Rightarrow> 'v \<Rightarrow> 'v"

section \<open>Definitions\<close>

record AllocationTracking =
  tr_file :: "char list"
  tr_line :: nat

record ArrayEntry =
  ae_tracking :: AllocationTracking
  ae_used :: bool

record SVMA =
  svma_instance :: u64
  svma_physical_device :: u64
  svma_device :: u64
  svma_track :: bool
  svma_allocator :: u64
  svma_allocations :: "nat darray"
  svma_entries :: "ArrayEntry list"

record SVMAInitInfo =
  sii_instance :: u64
  sii_physical_device :: u64
  sii_device :: u64
  sii_track :: bool

definition svma_create :: SVMA where
  "svma_create = \<lparr>svma_instance = 0, svma_physical_device = 0, svma_device = 0, svma_track = False,
     svma_allocator = 0, svma_allocations = None, svma_entries = []\<rparr>"

definition svma_init :: "'v gpu \<Rightarrow> SVMA \<Rightarrow> SVMAInitInfo \<Rightarrow> 'v \<Rightarrow> (int \<times> SVMA \<times> 'v) option" where
  "svma_init k s info v =
     (let s1 = s\<lparr>svma_device := sii_device info, svma_instance := sii_instance info,
                 svma_physical_device := sii_physical_device info, svma_track := sii_track info\<rparr> in
      do { allocations \<leftarrow> (if svma_track s1 then array_init (vd_memory_get_system_allocator k)
                           else Some (svma_allocations s1));
           let (r, v') = vmaCreateAllocator k (sii_device info) (sii_physical_device info) (sii_instance info) v;
           allocator \<leftarrow> r;
           Some (0, s1\<lparr>svma_allocations := allocations, svma_allocator := allocator\<rparr>, v') })"

text \<open>A new entry, in the list and as the user data of the allocation.\<close>

definition track_allocation :: "'v gpu \<Rightarrow> SVMA \<Rightarrow> AllocationTracking \<Rightarrow> u64 \<Rightarrow> 'v \<Rightarrow> (SVMA \<times> 'v) option" where
  "track_allocation k s tracking alloc v =
     (if svma_track s then
        let entries = svma_entries s @ [\<lparr>ae_tracking = tracking, ae_used = True\<rparr>]; entry = length entries in
        do { allocations \<leftarrow> array_add (svma_allocations s) entry;
             Some (s\<lparr>svma_entries := entries, svma_allocations := allocations\<rparr>,
                   vmaSetAllocationUserData k (svma_allocator s) alloc entry v) }
      else Some (s, v))"

text \<open>The results are the buffer and the allocation.\<close>

definition svma_create_buffer ::
  "'v gpu \<Rightarrow> VkBufferCreateInfo \<Rightarrow> VmaAllocationCreateInfo \<Rightarrow> AllocationTracking \<Rightarrow> SVMA \<times> 'v
     \<Rightarrow> ((u64 \<times> u64) \<times> SVMA \<times> 'v) option" where
  "svma_create_buffer k buffer_info allocation_info tracking st =
     (let (s, v) = st; (r, v1) = vmaCreateBuffer k (svma_allocator s) buffer_info allocation_info v in
      do { (buffer, alloc) \<leftarrow> r;
           st' \<leftarrow> track_allocation k s tracking alloc v1;
           Some ((buffer, alloc), st') })"

definition svma_create_texture ::
  "'v gpu \<Rightarrow> VkImageCreateInfo \<Rightarrow> VmaAllocationCreateInfo \<Rightarrow> AllocationTracking \<Rightarrow> SVMA \<times> 'v
     \<Rightarrow> ((u64 \<times> u64) \<times> SVMA \<times> 'v) option" where
  "svma_create_texture k image_info allocation_info tracking st =
     (let (s, v) = st; (r, v1) = vmaCreateImage k (svma_allocator s) image_info allocation_info v in
      do { (img, alloc) \<leftarrow> r;
           st' \<leftarrow> track_allocation k s tracking alloc v1;
           Some ((img, alloc), st') })"

definition free_allocation :: "'v gpu \<Rightarrow> SVMA \<Rightarrow> u64 \<Rightarrow> 'v \<Rightarrow> SVMA option" where
  "free_allocation k s alloc v =
     (if svma_track s then
        let p = fst (vmaGetAllocationInfo k (svma_allocator s) alloc v) in
        if 1 \<le> p \<and> p \<le> length (svma_entries s) then
          Some (s\<lparr>svma_entries := (svma_entries s)[p - 1 := (svma_entries s ! (p - 1))\<lparr>ae_used := False\<rparr>]\<rparr>)
        else None
      else Some s)"

definition svma_free_buffer :: "'v gpu \<Rightarrow> u64 \<Rightarrow> u64 \<Rightarrow> SVMA \<times> 'v \<Rightarrow> (SVMA \<times> 'v) option" where
  "svma_free_buffer k buffer alloc st =
     (let (s, v) = st in
      do { s' \<leftarrow> free_allocation k s alloc v; Some (s', vmaDestroyBuffer k (svma_allocator s') buffer alloc v) })"

definition svma_free_texture :: "'v gpu \<Rightarrow> u64 \<Rightarrow> u64 \<Rightarrow> SVMA \<times> 'v \<Rightarrow> (SVMA \<times> 'v) option" where
  "svma_free_texture k img alloc st =
     (let (s, v) = st in
      do { s' \<leftarrow> free_allocation k s alloc v; Some (s', vmaDestroyImage k (svma_allocator s') img alloc v) })"

definition svma_map :: "'v gpu \<Rightarrow> u64 \<Rightarrow> SVMA \<times> 'v \<Rightarrow> (u64 \<times> SVMA \<times> 'v) option" where
  "svma_map k alloc st =
     (let (s, v) = st; (r, v') = vmaMapMemory k (svma_allocator s) alloc v in do { p \<leftarrow> r; Some (p, s, v') })"

definition svma_unmap :: "'v gpu \<Rightarrow> u64 \<Rightarrow> SVMA \<times> 'v \<Rightarrow> SVMA \<times> 'v" where
  "svma_unmap k alloc st = (let (s, v) = st in (s, vmaUnmapMemory k (svma_allocator s) alloc v))"

definition svma_get_size :: "'v gpu \<Rightarrow> u64 \<Rightarrow> SVMA \<times> 'v \<Rightarrow> u64" where
  "svma_get_size k alloc st = (let (s, v) = st in snd (vmaGetAllocationInfo k (svma_allocator s) alloc v))"

text \<open>The results are the code, the lines of the log and the device.\<close>

definition svma_deinit :: "'v gpu \<Rightarrow> SVMA \<times> 'v \<Rightarrow> (int \<times> AllocationTracking list \<times> 'v) option" where
  "svma_deinit k st =
     (let (s, v) = st in
      do { log \<leftarrow> array_each
             (\<lambda>p log. if 1 \<le> p \<and> p \<le> length (svma_entries s) then
                let e = svma_entries s ! (p - 1) in Some (if ae_used e then log @ [ae_tracking e] else log)
              else None)
             (svma_allocations s) 0 (array_len (svma_allocations s)) [];
           Some (0, log, vmaDestroyAllocator k (svma_allocator s) v) })"

section \<open>What the code relies on\<close>

text \<open>
  The documented behaviour of the device. \<open>live\<close> is the set of the objects that exist and \<open>ud\<close> the user data
  of the allocations: a new object did not exist before, and destroying an object removes it and no other;
  the user data of an allocation are what was set last. Creation may fail.
\<close>

datatype gpu_object = GAllocation u64 | GView u64 | GModule u64 | GSetLayout u64 | GSampler u64 | GPipelineLayout u64
  | GPipeline u64
  | GSwapchain u64 | GSurface u64 | GFence u64 | GSemaphore u64 | GCommandPool u64

definition gpu_creates :: "('v \<Rightarrow> gpu_object set) \<Rightarrow> ('v \<Rightarrow> u64 \<Rightarrow> nat) \<Rightarrow> 'v \<Rightarrow> gpu_object \<Rightarrow> 'v \<Rightarrow> bool" where
  "gpu_creates live ud v x v' \<longleftrightarrow> x \<notin> live v \<and> live v' = insert x (live v) \<and>
     (\<forall>a. GAllocation a \<in> live v \<longrightarrow> ud v' a = ud v a)"

definition gpu_destroys :: "('v \<Rightarrow> gpu_object set) \<Rightarrow> ('v \<Rightarrow> u64 \<Rightarrow> nat) \<Rightarrow> 'v \<Rightarrow> gpu_object \<Rightarrow> 'v \<Rightarrow> bool" where
  "gpu_destroys live ud v x v' \<longleftrightarrow> live v' = live v - {x} \<and> (\<forall>a. GAllocation a \<in> live v' \<longrightarrow> ud v' a = ud v a)"

definition gpu_keeps :: "('v \<Rightarrow> gpu_object set) \<Rightarrow> ('v \<Rightarrow> u64 \<Rightarrow> nat) \<Rightarrow> 'v \<Rightarrow> 'v \<Rightarrow> bool" where
  "gpu_keeps live ud v v' \<longleftrightarrow> live v' = live v \<and> (\<forall>a. GAllocation a \<in> live v \<longrightarrow> ud v' a = ud v a)"

definition gpu_driver :: "'v gpu \<Rightarrow> ('v \<Rightarrow> gpu_object set) \<Rightarrow> ('v \<Rightarrow> u64 \<Rightarrow> nat) \<Rightarrow> bool" where
  "gpu_driver k live ud \<longleftrightarrow>
     vd_memory_get_system_allocator k \<noteq> 0 \<and>
     (\<forall>d p i v r v'. vmaCreateAllocator k d p i v = (r, v') \<longrightarrow> gpu_keeps live ud v v') \<and>
     (\<forall>m bi ai v b a v'. vmaCreateBuffer k m bi ai v = (Some (b, a), v') \<longrightarrow> gpu_creates live ud v (GAllocation a) v') \<and>
     (\<forall>m ii ai v b a v'. vmaCreateImage k m ii ai v = (Some (b, a), v') \<longrightarrow> gpu_creates live ud v (GAllocation a) v') \<and>
     (\<forall>m b a v. GAllocation a \<in> live v \<longrightarrow> gpu_destroys live ud v (GAllocation a) (vmaDestroyBuffer k m b a v)) \<and>
     (\<forall>m b a v. GAllocation a \<in> live v \<longrightarrow> gpu_destroys live ud v (GAllocation a) (vmaDestroyImage k m b a v)) \<and>
     (\<forall>m a p v. GAllocation a \<in> live v \<longrightarrow> live (vmaSetAllocationUserData k m a p v) = live v \<and>
        (\<forall>b. GAllocation b \<in> live v \<longrightarrow> ud (vmaSetAllocationUserData k m a p v) b = (if b = a then p else ud v b))) \<and>
     (\<forall>m a v. GAllocation a \<in> live v \<longrightarrow> fst (vmaGetAllocationInfo k m a v) = ud v a) \<and>
     (\<forall>m a v r v'. vmaMapMemory k m a v = (r, v') \<longrightarrow> gpu_keeps live ud v v') \<and>
     (\<forall>m a v. gpu_keeps live ud v (vmaUnmapMemory k m a v)) \<and>
     (\<forall>d f i s v x v'. vkCreateImageView k d f i s v = (Some x, v') \<longrightarrow> gpu_creates live ud v (GView x) v') \<and>
     (\<forall>d x v. GView x \<in> live v \<longrightarrow> gpu_destroys live ud v (GView x) (vkDestroyImageView k d x v)) \<and>
     (\<forall>d c v x v'. vd_vk_create_shader_module k d c v = (Some x, v') \<longrightarrow> gpu_creates live ud v (GModule x) v') \<and>
     (\<forall>d x v. GModule x \<in> live v \<longrightarrow> gpu_destroys live ud v (GModule x) (vkDestroyShaderModule k d x v))"

section \<open>The entries and the device\<close>

text \<open>\<open>own\<close> is the allocation of every entry, in the order of their creation; the entries in use and the
  allocations that exist belong to each other.\<close>

definition svma_inv :: "('v \<Rightarrow> gpu_object set) \<Rightarrow> ('v \<Rightarrow> u64 \<Rightarrow> nat) \<Rightarrow> u64 list \<Rightarrow> SVMA \<Rightarrow> 'v \<Rightarrow> bool" where
  "svma_inv live ud own s v \<longleftrightarrow>
     svma_track s \<and> length own = length (svma_entries s) \<and>
     holds (svma_allocations s) [1..<Suc (length own)] \<and>
     (\<forall>i < length own. ae_used (svma_entries s ! i) \<longrightarrow> GAllocation (own ! i) \<in> live v \<and> ud v (own ! i) = Suc i) \<and>
     (\<forall>a. GAllocation a \<in> live v \<longrightarrow> (\<exists>i < length own. own ! i = a \<and> ae_used (svma_entries s ! i)))"

definition tracked :: "u64 list \<Rightarrow> ArrayEntry list \<Rightarrow> (u64 \<times> AllocationTracking) list" where
  "tracked own es = map (\<lambda>i. (own ! i, ae_tracking (es ! i))) (filter (\<lambda>i. ae_used (es ! i)) [0..<length own])"

lemma tracked_snoc:
  assumes "length own = length es"
  shows "tracked (own @ [a]) (es @ [e]) = tracked own es @ (if ae_used e then [(a, ae_tracking e)] else [])"
proof -
  have "filter (\<lambda>i. ae_used ((es @ [e]) ! i)) [0..<length own] = filter (\<lambda>i. ae_used (es ! i)) [0..<length own]"
    using assms by (intro filter_cong) (simp_all add: nth_append)
  moreover have "map (\<lambda>i. ((own @ [a]) ! i, ae_tracking ((es @ [e]) ! i))) (filter (\<lambda>i. ae_used (es ! i)) [0..<length own])
      = map (\<lambda>i. (own ! i, ae_tracking (es ! i))) (filter (\<lambda>i. ae_used (es ! i)) [0..<length own])"
    using assms by (intro map_cong) (auto simp: nth_append)
  ultimately show ?thesis using assms by (simp add: tracked_def nth_append)
qed

lemma tracked_release:
  assumes "length own = length es" and "i < length own" and "\<forall>j < length own. own ! j = own ! i \<and> ae_used (es ! j) \<longrightarrow> j = i"
  shows "tracked own (es[i := (es ! i)\<lparr>ae_used := False\<rparr>]) = filter (\<lambda>x. fst x \<noteq> own ! i) (tracked own es)"
proof -
  let ?es = "es[i := (es ! i)\<lparr>ae_used := False\<rparr>]"
  have u: "ae_used (?es ! j) \<longleftrightarrow> ae_used (es ! j) \<and> own ! j \<noteq> own ! i" if "j < length own" for j
    using that assms by (cases "j = i") auto
  have f: "filter (\<lambda>j. ae_used (?es ! j)) [0..<length own] = filter (\<lambda>j. ae_used (es ! j) \<and> own ! j \<noteq> own ! i) [0..<length own]"
    using u by (intro filter_cong) simp_all
  have m: "ae_tracking (?es ! j) = ae_tracking (es ! j)" if "j < length own" for j
    using that assms by (cases "j = i") auto
  show ?thesis
    unfolding tracked_def f filter_map using m
    by (auto simp: comp_def conj_commute intro!: map_cong)
qed

lemma driver_buffer:
  "gpu_driver k live ud \<Longrightarrow> vmaCreateBuffer k m bi ai v = (Some (b, a), v') \<Longrightarrow> gpu_creates live ud v (GAllocation a) v'"
  unfolding gpu_driver_def by (elim conjE) blast

lemma driver_image:
  "gpu_driver k live ud \<Longrightarrow> vmaCreateImage k m ii ai v = (Some (b, a), v') \<Longrightarrow> gpu_creates live ud v (GAllocation a) v'"
  unfolding gpu_driver_def by (elim conjE) blast

lemma driver_destroy_buffer:
  "gpu_driver k live ud \<Longrightarrow> GAllocation a \<in> live v \<Longrightarrow> gpu_destroys live ud v (GAllocation a) (vmaDestroyBuffer k m b a v)"
  by (simp add: gpu_driver_def)

lemma driver_destroy_image:
  "gpu_driver k live ud \<Longrightarrow> GAllocation a \<in> live v \<Longrightarrow> gpu_destroys live ud v (GAllocation a) (vmaDestroyImage k m b a v)"
  by (simp add: gpu_driver_def)

lemma driver_set_data:
  "gpu_driver k live ud \<Longrightarrow> GAllocation a \<in> live v \<Longrightarrow> live (vmaSetAllocationUserData k m a p v) = live v \<and>
     (\<forall>b. GAllocation b \<in> live v \<longrightarrow> ud (vmaSetAllocationUserData k m a p v) b = (if b = a then p else ud v b))"
  by (simp add: gpu_driver_def)

lemma driver_get_data:
  "gpu_driver k live ud \<Longrightarrow> GAllocation a \<in> live v \<Longrightarrow> fst (vmaGetAllocationInfo k m a v) = ud v a"
  by (simp add: gpu_driver_def)

lemma driver_init:
  "gpu_driver k live ud \<Longrightarrow> vmaCreateAllocator k d p i v = (r, v') \<Longrightarrow> gpu_keeps live ud v v'"
  unfolding gpu_driver_def by (elim conjE) blast

lemma track_allocation_spec:
  assumes d: "gpu_driver k live ud" and i: "svma_inv live ud own s v" and c: "gpu_creates live ud v (GAllocation a) v1"
  shows "\<exists>s' v'. track_allocation k s tr a v1 = Some (s', v') \<and> svma_inv live ud (own @ [a]) s' v' \<and>
    tracked (own @ [a]) (svma_entries s') = tracked own (svma_entries s) @ [(a, tr)] \<and>
    live v' = insert (GAllocation a) (live v)"
proof -
  let ?n = "length own" and ?e = "\<lparr>ae_tracking = tr, ae_used = True\<rparr>"
  have n: "length own = length (svma_entries s)" and tr: "svma_track s"
    and h: "holds (svma_allocations s) [1..<Suc ?n]" using i by (auto simp: svma_inv_def)
  obtain al where al: "array_add (svma_allocations s) (Suc ?n) = Some al" "holds al ([1..<Suc ?n] @ [Suc ?n])"
    using array_add_holds [OF h] by blast
  let ?s = "s\<lparr>svma_entries := svma_entries s @ [?e], svma_allocations := al\<rparr>"
  let ?v = "vmaSetAllocationUserData k (svma_allocator s) a (Suc ?n) v1"
  have live1: "live v1 = insert (GAllocation a) (live v)" "GAllocation a \<notin> live v" "\<forall>b. GAllocation b \<in> live v \<longrightarrow> ud v1 b = ud v b"
    using c by (auto simp: gpu_creates_def)
  have dat: "live ?v = live v1" "\<forall>b. GAllocation b \<in> live v1 \<longrightarrow> ud ?v b = (if b = a then Suc ?n else ud v1 b)"
    using driver_set_data [OF d, of a v1 "svma_allocator s" "Suc ?n"] live1(1) by auto
  have run: "track_allocation k s tr a v1 = Some (?s, ?v)" using tr al(1) by (simp add: track_allocation_def n Let_def)
  have used: "GAllocation (own ! j) \<in> live v \<and> ud v (own ! j) = Suc j" if "j < ?n" "ae_used (svma_entries s ! j)" for j
    using i that by (auto simp: svma_inv_def)
  have "svma_inv live ud (own @ [a]) ?s ?v"
    unfolding svma_inv_def
  proof (intro conjI allI impI)
    fix j assume j: "j < length (own @ [a])" "ae_used (svma_entries ?s ! j)"
    show "GAllocation ((own @ [a]) ! j) \<in> live ?v"
      using j used [of j] n live1 dat by (cases "j = ?n") (auto simp: nth_append)
    show "ud ?v ((own @ [a]) ! j) = Suc j"
    proof (cases "j = ?n")
      case True
      then show ?thesis using dat live1(1) by simp
    next
      case False
      then have u: "GAllocation (own ! j) \<in> live v" "ud v (own ! j) = Suc j" using j n used [of j] by (auto simp: nth_append)
      then have "own ! j \<noteq> a" using live1(2) by auto
      then show ?thesis using False j u dat live1 by (simp add: nth_append)
    qed
  next
    fix b assume b: "GAllocation b \<in> live ?v"
    show "\<exists>j < length (own @ [a]). (own @ [a]) ! j = b \<and> ae_used (svma_entries ?s ! j)"
    proof (cases "b = a")
      case True
      then show ?thesis using n by (intro exI [of _ ?n]) (simp add: nth_append)
    next
      case False
      then have "GAllocation b \<in> live v" using b dat(1) live1(1) by simp
      then obtain j where "j < ?n" "own ! j = b" "ae_used (svma_entries s ! j)" using i by (auto simp: svma_inv_def)
      then show ?thesis using n by (intro exI [of _ j]) (simp add: nth_append)
    qed
  qed (use tr n al(2) in \<open>simp_all add: upt_Suc\<close>)
  then show ?thesis using run tracked_snoc [OF n, of a ?e] dat(1) live1(1) by auto
qed

lemma free_allocation_spec:
  assumes d: "gpu_driver k live ud" and i: "svma_inv live ud own s v" and a: "GAllocation a \<in> live v"
    and c: "gpu_destroys live ud v (GAllocation a) v'"
  shows "\<exists>s'. free_allocation k s a v = Some s' \<and> svma_allocator s' = svma_allocator s \<and> svma_inv live ud own s' v' \<and>
    tracked own (svma_entries s') = filter (\<lambda>x. fst x \<noteq> a) (tracked own (svma_entries s))"
proof -
  let ?es = "svma_entries s"
  have n: "length own = length ?es" and tr: "svma_track s" using i by (auto simp: svma_inv_def)
  have used: "GAllocation (own ! j) \<in> live v \<and> ud v (own ! j) = Suc j" if "j < length own" "ae_used (?es ! j)" for j
    using i that by (auto simp: svma_inv_def)
  obtain j where j: "j < length own" "own ! j = a" "ae_used (?es ! j)" using i a by (auto simp: svma_inv_def)
  have uj: "ud v a = Suc j" using used [OF j(1,3)] j(2) by simp
  have one: "\<forall>l < length own. own ! l = own ! j \<and> ae_used (?es ! l) \<longrightarrow> l = j"
  proof (intro allI impI)
    fix l assume "l < length own" "own ! l = own ! j \<and> ae_used (?es ! l)"
    then have "ud v a = Suc l" using used [of l] j(2) by simp
    then show "l = j" using uj by simp
  qed
  have live': "live v' = live v - {GAllocation a}" "\<forall>b. GAllocation b \<in> live v' \<longrightarrow> ud v' b = ud v b"
    using c by (auto simp: gpu_destroys_def)
  let ?s = "s\<lparr>svma_entries := ?es[j := (?es ! j)\<lparr>ae_used := False\<rparr>]\<rparr>"
  have run: "free_allocation k s a v = Some ?s"
    using tr driver_get_data [OF d a, of "svma_allocator s"] uj j(1) n by (simp add: free_allocation_def)
  have "svma_inv live ud own ?s v'"
    unfolding svma_inv_def
  proof (intro conjI allI impI)
    fix l assume l: "l < length own" "ae_used (svma_entries ?s ! l)"
    have "l \<noteq> j" using l n by (auto simp: nth_list_update)
    then have "ae_used (?es ! l)" using l(2) by simp
    then have "own ! l \<noteq> a" using one l(1) j(2) \<open>l \<noteq> j\<close> by metis
    then show "GAllocation (own ! l) \<in> live v'" "ud v' (own ! l) = Suc l"
      using used [OF l(1) \<open>ae_used (?es ! l)\<close>] live' by simp_all
  next
    fix b assume "GAllocation b \<in> live v'"
    then have "GAllocation b \<in> live v" "b \<noteq> a" using live'(1) by auto
    then obtain l where "l < length own" "own ! l = b" "ae_used (?es ! l)" using i by (auto simp: svma_inv_def)
    then show "\<exists>l < length own. own ! l = b \<and> ae_used (svma_entries ?s ! l)"
      using \<open>b \<noteq> a\<close> j(2) by (intro exI [of _ l]) (cases "l = j"; auto)
  qed (use i in \<open>auto simp: svma_inv_def\<close>)
  then show ?thesis using run tracked_release [OF n j(1) one] j(2) by simp
qed

text \<open>The loop over the list at the end reports the entries that are in use.\<close>

lemma svma_deinit_spec:
  assumes "svma_inv live ud own s v"
  shows "svma_deinit k (s, v) = Some (0, map snd (tracked own (svma_entries s)), vmaDestroyAllocator k (svma_allocator s) v)"
proof -
  let ?es = "svma_entries s"
  define f where "f = (\<lambda>p log. if 1 \<le> p \<and> p \<le> length ?es then
    let e = ?es ! (p - 1) in Some (if ae_used e then log @ [ae_tracking e] else log) else None)"
  have n: "length own = length ?es" and h: "holds (svma_allocations s) [1..<Suc (length own)]"
    using assms by (auto simp: svma_inv_def)
  have step: "m < length ?es \<Longrightarrow> f (Suc m) log = Some (log @ (if ae_used (?es ! m) then [ae_tracking (?es ! m)] else []))" for m log
    by (simp add: f_def Let_def)
  have "m \<le> length ?es \<Longrightarrow> run_ops f [1..<Suc m] log
      = Some (log @ map (\<lambda>i. ae_tracking (?es ! i)) (filter (\<lambda>i. ae_used (?es ! i)) [0..<m]))" for m log
    by (induction m arbitrary: log) (simp_all add: run_ops_append step)
  then have "run_ops f [1..<Suc (length own)] [] = Some (map snd (tracked own ?es))"
    using n by (simp add: tracked_def comp_def)
  then have "array_each f (svma_allocations s) 0 (array_len (svma_allocations s)) [] = Some (map snd (tracked own ?es))"
    using array_each_holds [OF h, of f "[]"] by simp
  then show ?thesis by (simp add: svma_deinit_def f_def)
qed

section \<open>The report\<close>

datatype svma_event = Created u64 AllocationTracking | Freed u64

text \<open>What a client did with a new wrapper: it frees only what exists.\<close>

inductive svma_run :: "'v gpu \<Rightarrow> ('v \<Rightarrow> gpu_object set) \<Rightarrow> SVMA \<times> 'v \<Rightarrow> svma_event list \<Rightarrow> SVMA \<times> 'v \<Rightarrow> bool"
  for k live st0 where
  start: "svma_run k live st0 [] st0"
| create_buffer: "svma_run k live st0 evs st \<Longrightarrow> svma_create_buffer k bi ai tr st = Some ((b, a), st') \<Longrightarrow>
    svma_run k live st0 (evs @ [Created a tr]) st'"
| create_texture: "svma_run k live st0 evs st \<Longrightarrow> svma_create_texture k ii ai tr st = Some ((b, a), st') \<Longrightarrow>
    svma_run k live st0 (evs @ [Created a tr]) st'"
| free_buffer: "svma_run k live st0 evs st \<Longrightarrow> GAllocation a \<in> live (snd st) \<Longrightarrow>
    svma_free_buffer k b a st = Some st' \<Longrightarrow> svma_run k live st0 (evs @ [Freed a]) st'"
| free_texture: "svma_run k live st0 evs st \<Longrightarrow> GAllocation a \<in> live (snd st) \<Longrightarrow>
    svma_free_texture k b a st = Some st' \<Longrightarrow> svma_run k live st0 (evs @ [Freed a]) st'"

text \<open>What was created and not freed since, in the order of creation.\<close>

definition after_event :: "svma_event \<Rightarrow> (u64 \<times> AllocationTracking) list \<Rightarrow> (u64 \<times> AllocationTracking) list" where
  "after_event e xs = (case e of Created a tr \<Rightarrow> xs @ [(a, tr)] | Freed a \<Rightarrow> filter (\<lambda>x. fst x \<noteq> a) xs)"

definition not_freed :: "svma_event list \<Rightarrow> (u64 \<times> AllocationTracking) list" where
  "not_freed evs = fold after_event evs []"

definition svma_at :: "('v \<Rightarrow> gpu_object set) \<Rightarrow> ('v \<Rightarrow> u64 \<Rightarrow> nat) \<Rightarrow> (u64 \<times> AllocationTracking) list \<Rightarrow> SVMA \<times> 'v \<Rightarrow> bool" where
  "svma_at live ud xs st \<longleftrightarrow> (\<exists>own. svma_inv live ud own (fst st) (snd st) \<and> tracked own (svma_entries (fst st)) = xs)"

lemma create_buffer_at:
  assumes "gpu_driver k live ud" and "svma_at live ud xs st" and "svma_create_buffer k bi ai tr st = Some ((b, a), st')"
  shows "svma_at live ud (xs @ [(a, tr)]) st' \<and> GAllocation a \<notin> live (snd st) \<and>
    live (snd st') = insert (GAllocation a) (live (snd st))"
proof -
  obtain own where own: "svma_inv live ud own (fst st) (snd st)" "tracked own (svma_entries (fst st)) = xs"
    using assms(2) by (auto simp: svma_at_def)
  obtain v1 where v1: "vmaCreateBuffer k (svma_allocator (fst st)) bi ai (snd st) = (Some (b, a), v1)"
    "track_allocation k (fst st) tr a v1 = Some st'"
    using assms(3) by (auto simp: svma_create_buffer_def bind_Some_iff split: prod.splits)
  note c = driver_buffer [OF assms(1) v1(1)]
  from track_allocation_spec [OF assms(1) own(1) c, of tr] v1(2) own(2) c show ?thesis
    by (cases st') (auto simp: svma_at_def gpu_creates_def)
qed

lemma create_texture_at:
  assumes "gpu_driver k live ud" and "svma_at live ud xs st" and "svma_create_texture k ii ai tr st = Some ((b, a), st')"
  shows "svma_at live ud (xs @ [(a, tr)]) st' \<and> GAllocation a \<notin> live (snd st) \<and>
    live (snd st') = insert (GAllocation a) (live (snd st))"
proof -
  obtain own where own: "svma_inv live ud own (fst st) (snd st)" "tracked own (svma_entries (fst st)) = xs"
    using assms(2) by (auto simp: svma_at_def)
  obtain v1 where v1: "vmaCreateImage k (svma_allocator (fst st)) ii ai (snd st) = (Some (b, a), v1)"
    "track_allocation k (fst st) tr a v1 = Some st'"
    using assms(3) by (auto simp: svma_create_texture_def bind_Some_iff split: prod.splits)
  note c = driver_image [OF assms(1) v1(1)]
  from track_allocation_spec [OF assms(1) own(1) c, of tr] v1(2) own(2) c show ?thesis
    by (cases st') (auto simp: svma_at_def gpu_creates_def)
qed

lemma free_buffer_at:
  assumes "gpu_driver k live ud" and "svma_at live ud xs st" and "GAllocation a \<in> live (snd st)"
  shows "\<exists>st'. svma_free_buffer k b a st = Some st' \<and> svma_at live ud (filter (\<lambda>x. fst x \<noteq> a) xs) st' \<and>
    live (snd st') = live (snd st) - {GAllocation a}"
proof -
  obtain own where own: "svma_inv live ud own (fst st) (snd st)" "tracked own (svma_entries (fst st)) = xs"
    using assms(2) by (auto simp: svma_at_def)
  note c = driver_destroy_buffer [OF assms(1,3), of "svma_allocator (fst st)" b]
  from free_allocation_spec [OF assms(1) own(1) assms(3) c] own(2) c show ?thesis
    by (auto simp: svma_free_buffer_def svma_at_def gpu_destroys_def split: prod.splits)
qed

lemma free_texture_at:
  assumes "gpu_driver k live ud" and "svma_at live ud xs st" and "GAllocation a \<in> live (snd st)"
  shows "\<exists>st'. svma_free_texture k b a st = Some st' \<and> svma_at live ud (filter (\<lambda>x. fst x \<noteq> a) xs) st' \<and>
    live (snd st') = live (snd st) - {GAllocation a}"
proof -
  obtain own where own: "svma_inv live ud own (fst st) (snd st)" "tracked own (svma_entries (fst st)) = xs"
    using assms(2) by (auto simp: svma_at_def)
  note c = driver_destroy_image [OF assms(1,3), of "svma_allocator (fst st)" b]
  from free_allocation_spec [OF assms(1) own(1) assms(3) c] own(2) c show ?thesis
    by (auto simp: svma_free_texture_def svma_at_def gpu_destroys_def split: prod.splits)
qed

lemmas svma_at_ops = create_buffer_at create_texture_at

lemma not_freed_snoc: "not_freed (evs @ [e]) = after_event e (not_freed evs)"
  by (simp add: not_freed_def)

lemma svma_run_at:
  "svma_run k live st0 evs st \<Longrightarrow> gpu_driver k live ud \<Longrightarrow> svma_at live ud [] st0 \<Longrightarrow> svma_at live ud (not_freed evs) st"
proof (induction rule: svma_run.induct)
  case start
  then show ?case by (simp add: not_freed_def)
next
  case (create_buffer evs st bi ai tr b a st')
  then show ?case using create_buffer_at [of k live ud "not_freed evs" st bi ai tr b a st']
    by (simp add: not_freed_snoc after_event_def)
next
  case (create_texture evs st ii ai tr b a st')
  then show ?case using create_texture_at [of k live ud "not_freed evs" st ii ai tr b a st']
    by (simp add: not_freed_snoc after_event_def)
next
  case (free_buffer evs st a b st')
  then show ?case using free_buffer_at [of k live ud "not_freed evs" st a b] by (simp add: not_freed_snoc after_event_def)
next
  case (free_texture evs st a b st')
  then show ?case using free_texture_at [of k live ud "not_freed evs" st a b] by (simp add: not_freed_snoc after_event_def)
qed

lemma svma_init_at:
  assumes "gpu_driver k live ud" and "\<forall>a. GAllocation a \<notin> live v" and "sii_track info"
    and "svma_init k svma_create info v = Some (c, s, v')"
  shows "c = 0 \<and> svma_at live ud [] (s, v') \<and> live v' = live v"
proof -
  have "vd_memory_get_system_allocator k \<noteq> 0" using assms(1) by (simp add: gpu_driver_def)
  from array_init_holds [OF this] obtain al :: "nat darray" where
    al: "array_init (vd_memory_get_system_allocator k) = Some al" "holds al []" by blast
  obtain r where r: "vmaCreateAllocator k (sii_device info) (sii_physical_device info) (sii_instance info) v = (Some r, v')"
    and s: "c = 0" "svma_track s" "svma_allocations s = al" "svma_entries s = []"
    using assms(3,4) al(1) by (auto simp: svma_init_def svma_create_def Let_def bind_Some_iff split: prod.splits)
  have "live v' = live v" using driver_init [OF assms(1) r] by (simp add: gpu_keeps_def)
  then show ?thesis
    using assms(2) s al(2) by (auto simp: svma_at_def svma_inv_def tracked_def intro!: exI [of _ "[]"])
qed

text \<open>C33. A wrapper that tracks reports at the end exactly the allocations that were created and not freed,
  each with the place it was created at, in the order of their creation: whatever buffers and textures a
  client created, and freed as long as they existed.\<close>

theorem svma_deinit_reports_leaks:
  assumes "gpu_driver k live ud" and "\<forall>a. GAllocation a \<notin> live v" and "sii_track info"
    and "svma_init k svma_create info v = Some (c, st0)" and "svma_run k live st0 evs st"
  shows "\<exists>v'. svma_deinit k st = Some (0, map snd (not_freed evs), v')"
proof -
  have "svma_at live ud [] st0" using svma_init_at [OF assms(1-3)] assms(4) by (cases st0) blast
  then have "svma_at live ud (not_freed evs) st" using svma_run_at [OF assms(5,1)] by blast
  then show ?thesis using svma_deinit_spec by (cases st) (fastforce simp: svma_at_def)
qed

section \<open>A device\<close>

text \<open>A device that numbers its objects: the state is the next number, the objects and the user data.\<close>

type_synonym demo_gpu_state = "u64 \<times> gpu_object list \<times> (u64 \<Rightarrow> nat)"

definition demo_new :: "(u64 \<Rightarrow> gpu_object) \<Rightarrow> demo_gpu_state \<Rightarrow> u64 option \<times> demo_gpu_state" where
  "demo_new f st = (let (n, xs, u) = st in if f n \<in> set xs then (None, st) else (Some n, n + 1, f n # xs, u))"

definition demo_del :: "gpu_object \<Rightarrow> demo_gpu_state \<Rightarrow> demo_gpu_state" where
  "demo_del x st = (let (n, xs, u) = st in (n, filter (\<lambda>y. y \<noteq> x) xs, u))"

definition demo_gpu :: "demo_gpu_state gpu" where
  "demo_gpu = \<lparr>vd_memory_get_system_allocator = 1,
     vmaCreateAllocator = (\<lambda>_ _ _ v. (Some 1, v)), vmaDestroyAllocator = (\<lambda>_ v. v),
     vmaCreateBuffer = (\<lambda>_ _ _ v. (case demo_new GAllocation v of (r, v') \<Rightarrow> (map_option (\<lambda>a. (a, a)) r, v'))),
     vmaCreateImage = (\<lambda>_ _ _ v. (case demo_new GAllocation v of (r, v') \<Rightarrow> (map_option (\<lambda>a. (a, a)) r, v'))),
     vmaDestroyBuffer = (\<lambda>_ _ a. demo_del (GAllocation a)), vmaDestroyImage = (\<lambda>_ _ a. demo_del (GAllocation a)),
     vmaSetAllocationUserData = (\<lambda>_ a p (n, xs, u). (n, xs, u(a := p))),
     vmaGetAllocationInfo = (\<lambda>_ a (n, xs, u). (u a, 0)),
     vmaMapMemory = (\<lambda>_ _ v. (Some 0, v)), vmaUnmapMemory = (\<lambda>_ _ v. v), vkGetBufferDeviceAddress = (\<lambda>_ _ _. 0),
     vkCreateImageView = (\<lambda>_ _ _ _. demo_new GView), vkDestroyImageView = (\<lambda>_ x. demo_del (GView x)),
     vd_vk_create_shader_module = (\<lambda>_ _. demo_new GModule), vkDestroyShaderModule = (\<lambda>_ x. demo_del (GModule x))\<rparr>"

definition demo_live :: "demo_gpu_state \<Rightarrow> gpu_object set" where
  "demo_live st = set (fst (snd st))"

definition demo_ud :: "demo_gpu_state \<Rightarrow> u64 \<Rightarrow> nat" where
  "demo_ud st = snd (snd st)"

lemma demo_gpu_driver: "gpu_driver demo_gpu demo_live demo_ud"
  by (auto simp: gpu_driver_def demo_gpu_def gpu_creates_def gpu_destroys_def gpu_keeps_def demo_new_def demo_del_def
      demo_live_def demo_ud_def split: if_splits prod.splits)

definition demo_bi :: VkBufferCreateInfo where "demo_bi = \<lparr>bci_usage = 0, bci_size = 64\<rparr>"
definition demo_ai :: VmaAllocationCreateInfo where "demo_ai = \<lparr>aci_usage = 1, aci_flags = 0, aci_requiredFlags = 0\<rparr>"

lemma demo_create:
  assumes "svma_at demo_live demo_ud xs st" and "snd st = (n, ys, u)" and "GAllocation n \<notin> set ys"
  shows "\<exists>st' u'. svma_create_buffer demo_gpu bi ai tr st = Some ((n, n), st') \<and> snd st' = (n + 1, GAllocation n # ys, u')"
proof -
  obtain own where own: "svma_inv demo_live demo_ud own (fst st) (snd st)" using assms(1) by (auto simp: svma_at_def)
  then have tr: "svma_track (fst st)" and h: "holds (svma_allocations (fst st)) [1..<Suc (length own)]"
    by (auto simp: svma_inv_def)
  obtain al where "array_add (svma_allocations (fst st)) (Suc (length (svma_entries (fst st)))) = Some al"
    using array_add_holds [OF h] by blast
  then show ?thesis
    using tr assms(2,3)
    by (cases st) (simp add: svma_create_buffer_def track_allocation_def demo_gpu_def demo_new_def Let_def)
qed

theorem svma_deinit_reports_leaks_witness:
  "\<exists>st0 evs st v'. svma_init demo_gpu svma_create \<lparr>sii_instance = 0, sii_physical_device = 0, sii_device = 0, sii_track = True\<rparr>
      (1, [], \<lambda>_. 0) = Some (0, st0) \<and> svma_run demo_gpu demo_live st0 evs st \<and> length evs = 3 \<and>
    svma_deinit demo_gpu st = Some (0, [\<lparr>tr_file = ''geo.c'', tr_line = 40\<rparr>], v')"
proof -
  let ?info = "\<lparr>sii_instance = 0, sii_physical_device = 0, sii_device = 0, sii_track = True\<rparr>"
    and ?v0 = "(1, [], \<lambda>_. 0) :: demo_gpu_state"
  define tr where "tr = (\<lambda>n. \<lparr>tr_file = ''geo.c'', tr_line = n\<rparr>)"
  obtain st0 where i: "svma_init demo_gpu svma_create ?info ?v0 = Some (0, st0)" "snd st0 = ?v0"
    by (simp add: svma_init_def svma_create_def demo_gpu_def array_init_def vd_array_grow_def array_len_def array_cap_def Let_def)
  have none: "\<forall>a. GAllocation a \<notin> demo_live ?v0" by (simp add: demo_live_def)
  have at0: "svma_at demo_live demo_ud [] st0"
    using svma_init_at [OF demo_gpu_driver none, of ?info] i(1) by (cases st0) simp
  have r0: "svma_run demo_gpu demo_live st0 [] st0" by (rule svma_run.start)
  obtain st1 u1 where c1: "svma_create_buffer demo_gpu demo_bi demo_ai (tr 17) st0 = Some ((1, 1), st1)"
    "snd st1 = (1 + 1, [GAllocation 1], u1)"
    using demo_create [OF at0 i(2)] by fastforce
  note r1 = svma_run.create_buffer [OF r0 c1(1)]
  have at1: "svma_at demo_live demo_ud ([] @ [(1, tr 17)]) st1"
    using create_buffer_at [OF demo_gpu_driver at0 c1(1)] by blast
  obtain st2 u2 where c2: "svma_create_buffer demo_gpu demo_bi demo_ai (tr 40) st1 = Some ((1 + 1, 1 + 1), st2)"
    "snd st2 = (1 + 1 + 1, GAllocation (1 + 1) # [GAllocation 1], u2)"
    using demo_create [OF at1 c1(2)] by fastforce
  note r2 = svma_run.create_buffer [OF r1 c2(1)]
  have at2: "svma_at demo_live demo_ud (([] @ [(1, tr 17)]) @ [(1 + 1, tr 40)]) st2"
    using create_buffer_at [OF demo_gpu_driver at1 c2(1)] by blast
  have l: "GAllocation 1 \<in> demo_live (snd st2)" by (simp add: c2(2) demo_live_def)
  obtain st3 where f: "svma_free_buffer demo_gpu 1 1 st2 = Some st3"
    using free_buffer_at [OF demo_gpu_driver at2 l] by blast
  note r3 = svma_run.free_buffer [OF r2 l f]
  have "\<exists>v'. svma_deinit demo_gpu st3 = Some (0, map snd (not_freed ((([] @ [Created 1 (tr 17)]) @ [Created (1 + 1) (tr 40)]) @ [Freed 1])), v')"
    by (rule svma_deinit_reports_leaks [OF demo_gpu_driver none _ i(1) r3]) simp
  then show ?thesis
    using i(1) r3 by (fastforce simp: not_freed_def after_event_def tr_def)
qed

end
