(* ===== verification/Owned.thy ===== *)
theory Owned
  imports Handlemap
begin

text \<open>
  Handle maps whose objects own resources: the meshes, textures and shaders of the renderer. The function
  \<open>on_free_object\<close> of a map releases what an object owns; here it is a function \<open>f\<close> on the bytes of the
  object, which it may change in place, and on the state \<open>'r\<close> of the rest of the program.

  The locale \<open>counted_owner\<close> says what such a map relies on: \<open>f\<close> releases exactly the resources that the
  bytes name. Its lemmas say that registering, copying and dropping keep every resource of a registered
  object alive, release it with the last reference, and that the end of the map releases the rest.
\<close>

section \<open>Dropping with a function that frees\<close>

definition drop_handle_with ::
  "(u8 list \<Rightarrow> 'r \<Rightarrow> (u8 list \<times> 'r) option) \<Rightarrow> vd_handlemap \<Rightarrow> vd_handle \<Rightarrow> 'r
     \<Rightarrow> (vd_handle \<times> vd_handlemap \<times> 'r) option" where
  "drop_handle_with f m h r =
     do { (h', m') \<leftarrow> vd_handle_drop m h;
          if hm_freed m' = hm_freed m then Some (h', m', r)
          else do { slot \<leftarrow> vd_handle_use m h;
                    i \<leftarrow> slot;
                    s \<leftarrow> hm_metadata m' i;
                    (bytes, r') \<leftarrow> f (hs_value s) r;
                    Some (h', m'\<lparr>hm_arr := (hm_arr m')[i := Some (s\<lparr>hs_value := bytes\<rparr>)]\<rparr>, r') } }"

definition handlemap_deinit_with ::
  "(u8 list \<Rightarrow> 'r \<Rightarrow> (u8 list \<times> 'r) option) \<Rightarrow> vd_handlemap \<Rightarrow> 'r \<Rightarrow> 'r option" where
  "handlemap_deinit_with f m r =
     do { freed \<leftarrow> vd_handlemap__deinit m;
          run_ops (\<lambda>bytes r. map_option snd (f bytes r)) (drop (length (hm_freed m)) freed) r }"

text \<open>Writing through the pointer that \<open>USE_HANDLE\<close> gives.\<close>

definition write_object :: "vd_handlemap \<Rightarrow> nat \<Rightarrow> u8 list \<Rightarrow> vd_handlemap option" where
  "write_object m i bytes =
     do { s \<leftarrow> hm_metadata m i; Some (m\<lparr>hm_arr := (hm_arr m)[i := Some (s\<lparr>hs_value := bytes\<rparr>)]\<rparr>) }"

section \<open>What the objects own\<close>

definition slot_owns :: "(u8 list \<Rightarrow> 'o set) \<Rightarrow> hm_slot \<Rightarrow> 'o set" where
  "slot_owns owns s = (if hs_id s = 0 then {} else owns (hs_value s))"

definition owned :: "(u8 list \<Rightarrow> 'o set) \<Rightarrow> vd_handlemap \<Rightarrow> nat \<Rightarrow> 'o set" where
  "owned owns m i = (case hm_metadata m i of None \<Rightarrow> {} | Some s \<Rightarrow> slot_owns owns s)"

text \<open>A slot holds a counted object with references and valid bytes, or one that was freed.\<close>

definition counted_slot :: "(u8 list \<Rightarrow> bool) \<Rightarrow> hm_slot \<Rightarrow> bool" where
  "counted_slot valid s \<longleftrightarrow>
     hs_refmode s = VD_HANDLEMAP_REF_MODE_COUNT \<and> (hs_id s \<noteq> 0 \<longrightarrow> 1 \<le> hs_refcount s \<and> valid (hs_value s))"

text \<open>\<open>L\<close> are the resources of others and \<open>lv\<close> all resources.\<close>

definition owner_inv :: "(u8 list \<Rightarrow> bool) \<Rightarrow> (u8 list \<Rightarrow> 'o set) \<Rightarrow> nat \<Rightarrow> 'o set \<Rightarrow> vd_handlemap \<Rightarrow> 'o set \<Rightarrow> bool" where
  "owner_inv valid owns elsize L m lv \<longleftrightarrow>
     hm_inv m \<and> hm_elsize m = elsize \<and>
     (\<forall>i < hm_arr_len m. \<forall>s. hm_metadata m i = Some s \<longrightarrow> counted_slot valid s) \<and>
     (\<forall>i < hm_arr_len m. \<forall>j < hm_arr_len m. i \<noteq> j \<longrightarrow> owned owns m i \<inter> owned owns m j = {}) \<and>
     (\<forall>i < hm_arr_len m. owned owns m i \<inter> L = {}) \<and> lv = L \<union> (\<Union>i < hm_arr_len m. owned owns m i)"

lemma owner_invD:
  assumes "owner_inv valid owns elsize L m lv"
  shows "hm_inv m" "hm_elsize m = elsize" "i < hm_arr_len m \<Longrightarrow> hm_metadata m i = Some s \<Longrightarrow> counted_slot valid s"
    "i < hm_arr_len m \<Longrightarrow> j < hm_arr_len m \<Longrightarrow> i \<noteq> j \<Longrightarrow> owned owns m i \<inter> owned owns m j = {}"
    "i < hm_arr_len m \<Longrightarrow> owned owns m i \<inter> L = {}" "lv = L \<union> (\<Union>i < hm_arr_len m. owned owns m i)"
  using assms unfolding owner_inv_def by simp_all

text \<open>A handle to an object that has not been freed.\<close>

definition hm_object :: "vd_handlemap \<Rightarrow> vd_handle \<Rightarrow> hm_slot \<Rightarrow> bool" where
  "hm_object m h s \<longleftrightarrow> hm_live_id m h \<and> hm_metadata m (unat (vh_id h) - 1) = Some s \<and> hs_id s \<noteq> 0"

lemma hm_object_slot:
  assumes "owner_inv valid owns elsize L m lv" and "hm_object m h s"
  shows "unat (vh_id h) - 1 < hm_arr_len m" and "hm_slot_ok elsize (unat (vh_id h) - 1) s" and "counted_slot valid s"
    and "hs_refcount s \<ge> 1" and "valid (hs_value s)" and "slot_owns owns s \<subseteq> lv" and "vd_handle_use m h = Some (Some (unat (vh_id h) - 1))"
proof -
  let ?i = "unat (vh_id h) - 1"
  show i: "?i < hm_arr_len m" using assms(2) by (auto simp: hm_object_def hm_live_id_def)
  note inv = owner_invD(1,2) [OF assms(1)]
  obtain s' where "hm_metadata m ?i = Some s'" "hm_slot_ok (hm_elsize m) ?i s'"
    using hm_slot_registered [OF inv(1)] assms(2) unfolding hm_object_def by blast
  then show "hm_slot_ok elsize ?i s" using assms(2) inv(2) by (simp add: hm_object_def)
  show c: "counted_slot valid s" using owner_invD(3) [OF assms(1) i] assms(2) by (simp add: hm_object_def)
  then show "hs_refcount s \<ge> 1" "valid (hs_value s)" using assms(2) by (simp_all add: counted_slot_def hm_object_def)
  have "owned owns m ?i = slot_owns owns s" using assms(2) by (simp add: owned_def hm_object_def)
  then show "slot_owns owns s \<subseteq> lv" using owner_invD(6) [OF assms(1)] i by blast
  show "vd_handle_use m h = Some (Some ?i)" using hm_use_registered [OF inv(1)] assms(2) by (simp add: hm_object_def)
qed

text \<open>Replacing the contents of a slot.\<close>

lemma owner_inv_put:
  assumes inv: "owner_inv valid owns elsize L m lv" and i: "i < hm_arr_len m" and ok: "hm_slot_ok elsize i s" "counted_slot valid s"
    and old: "owned owns m i = X" and new: "slot_owns owns s = Y" and apart: "Y \<inter> (lv - X) = {}"
  shows "owner_inv valid owns elsize L (hm_put m i s) ((lv - X) \<union> Y)"
proof -
  note h = owner_invD(1,2) [OF inv]
  have len: "i < length (hm_arr m)" using h(1) i by (auto simp: hm_inv_def)
  have meta: "hm_metadata (hm_put m i s) j = (if j = i then Some s else hm_metadata m j)" for j
    by (rule hm_put_metadata [OF len])
  have ow: "owned owns (hm_put m i s) j = (if j = i then Y else owned owns m j)" for j
    using new by (simp add: owned_def meta)
  note lv = owner_invD(6) [OF inv]
  have dj: "owned owns m j \<inter> X = {}" if "j < hm_arr_len m" "j \<noteq> i" for j
    using owner_invD(4) [OF inv that(1) i that(2)] old by simp
  have dL: "X \<inter> L = {}" using owner_invD(5) [OF inv i] old by simp
  have rest: "lv - X = L \<union> (\<Union>j \<in> {..<hm_arr_len m} - {i}. owned owns m j)"
  proof
    show "lv - X \<subseteq> L \<union> (\<Union>j \<in> {..<hm_arr_len m} - {i}. owned owns m j)" using old unfolding lv by auto
    show "L \<union> (\<Union>j \<in> {..<hm_arr_len m} - {i}. owned owns m j) \<subseteq> lv - X" using dj dL unfolding lv by fastforce
  qed
  have un: "(\<Union>j < hm_arr_len m. owned owns (hm_put m i s) j) = (\<Union>j \<in> {..<hm_arr_len m} - {i}. owned owns m j) \<union> Y"
    using i by (auto simp: ow split: if_splits)
  have yj: "owned owns m j \<inter> Y = {}" if "j < hm_arr_len m" "j \<noteq> i" for j
  proof -
    have "owned owns m j \<subseteq> lv - X" using that unfolding rest by auto
    then show ?thesis using apart by blast
  qed
  have yL: "Y \<inter> L = {}" using apart rest by blast
  show ?thesis
    unfolding owner_inv_def
  proof (intro conjI allI impI)
    show "hm_inv (hm_put m i s)" using hm_put_inv [OF h(1) i] ok(1) h(2) by simp
    show "hm_elsize (hm_put m i s) = elsize" using h(2) by simp
    show "(lv - X) \<union> Y = L \<union> (\<Union>j < hm_arr_len (hm_put m i s). owned owns (hm_put m i s) j)"
      using un rest by auto
  next
    fix a t assume "a < hm_arr_len (hm_put m i s)" "hm_metadata (hm_put m i s) a = Some t"
    then show "counted_slot valid t" using ok(2) owner_invD(3) [OF inv, of a t] by (auto simp: meta split: if_splits)
  next
    fix a b assume "a < hm_arr_len (hm_put m i s)" "b < hm_arr_len (hm_put m i s)" "a \<noteq> b"
    then show "owned owns (hm_put m i s) a \<inter> owned owns (hm_put m i s) b = {}"
      using yj [of a] yj [of b] owner_invD(4) [OF inv, of a b] by (auto simp: ow)
  next
    fix a assume "a < hm_arr_len (hm_put m i s)"
    then show "owned owns (hm_put m i s) a \<inter> L = {}" using yL owner_invD(5) [OF inv, of a] by (simp add: ow)
  qed
qed

lemma owner_inv_same:
  assumes "owner_inv valid owns elsize L m lv" and "i < hm_arr_len m" and "hm_slot_ok elsize i s" "counted_slot valid s"
    and "owned owns m i = slot_owns owns s"
  shows "owner_inv valid owns elsize L (hm_put m i s) lv"
proof -
  have "owned owns m i \<subseteq> lv" using owner_invD(6) [OF assms(1)] assms(2) by blast
  then have "(lv - owned owns m i) \<union> slot_owns owns s = lv" using assms(5) by blast
  then show ?thesis using owner_inv_put [OF assms(1-4) refl refl] assms(5) by auto
qed

lemma owner_inv_freed [simp]: "owner_inv valid owns elsize L (m\<lparr>hm_freed := xs\<rparr>) lv = owner_inv valid owns elsize L m lv"
  by (simp add: owner_inv_def owned_def)

lemma owner_inv_init:
  assumes "vd_handlemap__init elsize cap = Some m" and "0 < cap"
  shows "owner_inv valid owns elsize lv m lv"
proof -
  have m: "hm_arr_len m = 0" "hm_elsize m = elsize"
    using assms(1) by (auto simp: vd_handlemap__init_def split: if_splits)
  have "hm_inv m" by (rule hm_init_inv [OF assms])
  then show ?thesis using m by (simp add: owner_inv_def)
qed

text \<open>A new object whose resources are not those of anyone else.\<close>

lemma owner_register:
  assumes inv: "owner_inv valid owns elsize L m lv" and g: "hm_bytes elsize (length (hm_arr m) * 2) < 2 ^ 64"
    and v: "length b = elsize" "valid b" and fresh: "owns b \<inter> lv = {}"
  shows "\<exists>h m' s. vd_handlemap__register m b VD_HANDLEMAP_REF_MODE_COUNT = Some (h, m') \<and>
    owner_inv valid owns elsize L m' (lv \<union> owns b) \<and> hm_object m' h s \<and> hs_value s = b \<and> hs_refcount s = 1"
proof -
  note hi = owner_invD(1,2) [OF inv]
  let ?h = "\<lparr>vh_id = hm_next_id m, vh_map = True\<rparr>" and ?n = "hm_arr_len m"
  let ?s = "\<lparr>hs_refcount = 1, hs_refmode = VD_HANDLEMAP_REF_MODE_COUNT, hs_id = hm_next_id m, hs_value = b\<rparr>"
  have n60: "?n < 2 ^ 60" using hi(1) by (rule hm_len_bound)
  have u: "unat (hm_next_id m) = Suc ?n"
    using hi(1) n60 by (metis hm_inv_def hm_Suc_word unat_of_nat_lt)
  have g': "hm_bytes (hm_elsize m) (length (hm_arr m) * 2) < 2 ^ 64" and v': "hm_elsize m \<le> length b"
    using g v(1) hi(2) by simp_all
  obtain m' where m': "vd_handlemap__register m b VD_HANDLEMAP_REF_MODE_COUNT = Some (?h, m')" "hm_inv m'"
    "hm_arr_len m' = Suc ?n" "hm_elsize m' = hm_elsize m" "hm_metadata m' ?n = Some ?s"
    "\<forall>j < ?n. hm_metadata m' j = hm_metadata m j"
    using hm_register_step [OF hi(1) g' v', of VD_HANDLEMAP_REF_MODE_COUNT] v(1) hi(2) by (metis take_all order_refl)
  have ids: "hm_next_id m \<noteq> 0" using u by auto
  have on: "owned owns m' ?n = owns b" using m'(5) ids by (simp add: owned_def slot_owns_def)
  have oj: "owned owns m' j = owned owns m j" if "j < ?n" for j using m'(6) that by (simp add: owned_def)
  have sub: "owned owns m j \<subseteq> lv" if "j < ?n" for j using owner_invD(6) [OF inv] that by blast
  have "owner_inv valid owns elsize L m' (lv \<union> owns b)"
    unfolding owner_inv_def
  proof (intro conjI allI impI)
    show "lv \<union> owns b = L \<union> (\<Union>i < hm_arr_len m'. owned owns m' i)"
      using owner_invD(6) [OF inv] by (auto simp: m'(3) lessThan_Suc on oj)
  next
    fix i t assume "i < hm_arr_len m'" "hm_metadata m' i = Some t"
    then show "counted_slot valid t"
      using owner_invD(3) [OF inv, of i t] m'(3,5,6) v(2) by (cases "i = ?n") (auto simp: counted_slot_def)
  next
    fix i j assume "i < hm_arr_len m'" "j < hm_arr_len m'" "i \<noteq> j"
    then show "owned owns m' i \<inter> owned owns m' j = {}"
      using owner_invD(4) [OF inv, of i j] sub [of i] sub [of j] fresh m'(3)
      by (cases "i = ?n"; cases "j = ?n") (auto simp: on oj)
  next
    fix i assume "i < hm_arr_len m'"
    then show "owned owns m' i \<inter> L = {}"
      using owner_invD(5) [OF inv, of i] owner_invD(6) [OF inv] fresh m'(3) by (cases "i = ?n") (auto simp: on oj)
  qed (use m' hi(2) in simp_all)
  moreover have "hm_object m' ?h ?s" using m'(3,5) u ids by (simp add: hm_object_def hm_live_id_def)
  ultimately show ?thesis using m'(1) by (intro exI [of _ ?h] exI [of _ m'] exI [of _ ?s]) simp
qed

lemma owner_copy:
  assumes inv: "owner_inv valid owns elsize L m lv" and h: "hm_object m h s" and c: "hs_refcount s + 1 < 2 ^ 31"
  shows "\<exists>m'. vd_handlemap_copy m h = Some (h, m') \<and> owner_inv valid owns elsize L m' lv \<and>
    hm_object m' h (s\<lparr>hs_refcount := hs_refcount s + 1\<rparr>)"
proof -
  note o = hm_object_slot [OF inv h]
  note hi = owner_invD(1,2) [OF inv]
  let ?i = "unat (vh_id h) - 1" and ?s = "s\<lparr>hs_refcount := hs_refcount s + 1\<rparr>"
  have "vd_handlemap_copy m h = Some (h, hm_put m ?i ?s)"
    using hm_copy_count [OF hi(1), of h s] h o(3) c by (simp add: hm_object_def counted_slot_def)
  moreover have "owner_inv valid owns elsize L (hm_put m ?i ?s) lv"
    using o h by (intro owner_inv_same [OF inv o(1)])
      (auto simp: hm_slot_ok_def counted_slot_def owned_def slot_owns_def hm_object_def)
  moreover have "?i < length (hm_arr m)" using hi(1) o(1) by (auto simp: hm_inv_def)
  then have "hm_object (hm_put m ?i ?s) h ?s" using h by (simp add: hm_object_def hm_live_id_def hm_put_metadata)
  ultimately show ?thesis by blast
qed

text \<open>Overwriting an object in place, after what it owned was released.\<close>

lemma write_object_owner:
  assumes inv: "owner_inv valid owns elsize L m lv" and h: "hm_object m h s"
    and b: "length b = elsize" "valid b" "owns b \<inter> (lv - owns (hs_value s)) = {}"
  shows "\<exists>m'. write_object m (unat (vh_id h) - 1) b = Some m' \<and>
    owner_inv valid owns elsize L m' ((lv - owns (hs_value s)) \<union> owns b) \<and> hm_object m' h (s\<lparr>hs_value := b\<rparr>)"
proof -
  note o = hm_object_slot [OF inv h]
  let ?i = "unat (vh_id h) - 1" and ?s = "s\<lparr>hs_value := b\<rparr>"
  have ow: "owned owns m ?i = owns (hs_value s)" "slot_owns owns ?s = owns b"
    using h by (simp_all add: owned_def slot_owns_def hm_object_def)
  have "owner_inv valid owns elsize L (hm_put m ?i ?s) ((lv - owns (hs_value s)) \<union> owns b)"
    using o(2-4) b ow by (intro owner_inv_put [OF inv o(1)]) (auto simp: hm_slot_ok_def counted_slot_def)
  moreover have "write_object m ?i b = Some (hm_put m ?i ?s)"
    using h by (simp add: write_object_def hm_object_def hm_put_def)
  moreover have "?i < length (hm_arr m)" using owner_invD(1) [OF inv] o(1) by (auto simp: hm_inv_def)
  then have "hm_object (hm_put m ?i ?s) h ?s" using h by (simp add: hm_object_def hm_live_id_def hm_put_metadata)
  ultimately show ?thesis by blast
qed

text \<open>Several maps over the same resources: the objects of one are resources of others for the next, in
  any order.\<close>

definition owned_all :: "(u8 list \<Rightarrow> 'o set) \<Rightarrow> vd_handlemap \<Rightarrow> 'o set" where
  "owned_all owns m = (\<Union>i < hm_arr_len m. owned owns m i)"

lemma owner_inv_total:
  assumes "owner_inv valid owns elsize L m lv"
  shows "lv = L \<union> owned_all owns m" and "L \<inter> owned_all owns m = {}"
  using owner_invD(5,6) [OF assms] by (auto simp: owned_all_def)

lemma owner_inv_rest:
  assumes "owner_inv valid owns elsize L m lv" and "L' \<inter> owned_all owns m = {}"
  shows "owner_inv valid owns elsize L' m (L' \<union> owned_all owns m)"
  using assms(1) assms(2) unfolding owner_inv_def owned_all_def by blast

lemma owner_swap:
  assumes "owner_inv valid1 owns1 n1 L m1 lv" and "owner_inv valid2 owns2 n2 K m2 L"
  obtains L' where "owner_inv valid2 owns2 n2 L' m2 lv" and "owner_inv valid1 owns1 n1 K m1 L'"
proof
  note t = owner_inv_total [OF assms(1)] owner_inv_total [OF assms(2)]
  have "owner_inv valid2 owns2 n2 (K \<union> owned_all owns1 m1) m2 ((K \<union> owned_all owns1 m1) \<union> owned_all owns2 m2)"
    using t by (intro owner_inv_rest [OF assms(2)]) blast
  moreover have "(K \<union> owned_all owns1 m1) \<union> owned_all owns2 m2 = lv" using t by blast
  ultimately show "owner_inv valid2 owns2 n2 (K \<union> owned_all owns1 m1) m2 lv" by simp
  show "owner_inv valid1 owns1 n1 K m1 (K \<union> owned_all owns1 m1)"
    using t by (intro owner_inv_rest [OF assms(1)]) blast
qed

lemma owner_inv_other_new:
  assumes "owner_inv valid owns elsize L m lv" and "x \<notin> lv"
  shows "owner_inv valid owns elsize (insert x L) m (insert x lv)"
proof -
  note t = owner_inv_total [OF assms(1)]
  have "owner_inv valid owns elsize (insert x L) m (insert x L \<union> owned_all owns m)"
    using t assms(2) by (intro owner_inv_rest [OF assms(1)]) blast
  then show ?thesis using t(1) by simp
qed

lemma owner_inv_other_gone:
  assumes "owner_inv valid owns elsize L m lv" and "x \<in> L"
  shows "owner_inv valid owns elsize (L - {x}) m (lv - {x})" and "x \<in> lv"
proof -
  note t = owner_inv_total [OF assms(1)]
  have "owner_inv valid owns elsize (L - {x}) m ((L - {x}) \<union> owned_all owns m)"
    using t by (intro owner_inv_rest [OF assms(1)]) blast
  moreover have "(L - {x}) \<union> owned_all owns m = lv - {x}" using t assms(2) by blast
  ultimately show "owner_inv valid owns elsize (L - {x}) m (lv - {x})" by simp
  show "x \<in> lv" using t assms(2) by blast
qed

lemma deinit_loop_frees:
  "hm_deinit_loop xs freed = Some ys \<Longrightarrow>
     ys = freed @ map (hs_value \<circ> the) (filter (\<lambda>x. hs_id (the x) \<noteq> 0) xs)"
  by (induction xs freed rule: hm_deinit_loop.induct) (auto split: if_splits)

lemma deinit_loop_total: "list_all (\<lambda>x. x \<noteq> None) xs \<Longrightarrow> \<exists>ys. hm_deinit_loop xs freed = Some ys"
  by (induction xs freed rule: hm_deinit_loop.induct) auto

text \<open>Dropping the last reference calls the function and clears the slot.\<close>

lemma drop_last:
  assumes inv: "owner_inv valid owns elsize L m lv" and h: "hm_object m h s" and one: "hs_refcount s = 1"
    and f: "f (hs_value s) r = Some (b', r')" "length b' = elsize"
  shows "\<exists>m'. drop_handle_with f m h r = Some (h\<lparr>vh_id := 0\<rparr>, m', r') \<and>
    owner_inv valid owns elsize L m' (lv - owns (hs_value s))"
proof -
  note o = hm_object_slot [OF inv h]
  let ?i = "unat (vh_id h) - 1" and ?s = "s\<lparr>hs_refcount := 0, hs_id := 0, hs_value := b'\<rparr>"
  have len: "?i < length (hm_arr m)" using owner_invD(1) [OF inv] o(1) by (auto simp: hm_inv_def)
  have ow: "owned owns m ?i = owns (hs_value s)" "slot_owns owns ?s = {}"
    using h by (simp_all add: owned_def slot_owns_def hm_object_def)
  have d: "vd_handle_drop m h = Some (h\<lparr>vh_id := 0\<rparr>,
    (hm_put m ?i (s\<lparr>hs_refcount := 0, hs_id := 0\<rparr>))\<lparr>hm_freed := hm_freed m @ [hs_value s]\<rparr>)"
    using hm_drop_count [OF owner_invD(1) [OF inv], of h s] h o(3,4) one by (simp add: hm_object_def counted_slot_def)
  have "owner_inv valid owns elsize L (hm_put m ?i ?s) ((lv - owns (hs_value s)) \<union> {})"
    using o(2,3) f(2) ow by (intro owner_inv_put [OF inv o(1)]) (auto simp: hm_slot_ok_def counted_slot_def)
  moreover have "drop_handle_with f m h r = Some (h\<lparr>vh_id := 0\<rparr>, (hm_put m ?i ?s)\<lparr>hm_freed := hm_freed m @ [hs_value s]\<rparr>, r')"
    using d f(1) o(7) len by (simp add: drop_handle_with_def hm_put_metadata) (simp add: hm_put_def)
  ultimately show ?thesis by simp
qed

text \<open>Dropping another reference only counts.\<close>

lemma drop_more:
  assumes inv: "owner_inv valid owns elsize L m lv" and h: "hm_object m h s" and more: "hs_refcount s \<noteq> 1"
  shows "\<exists>m'. drop_handle_with f m h r = Some (h\<lparr>vh_id := 0\<rparr>, m', r) \<and> owner_inv valid owns elsize L m' lv \<and>
    hm_object m' h (s\<lparr>hs_refcount := hs_refcount s - 1\<rparr>)"
proof -
  note o = hm_object_slot [OF inv h]
  let ?i = "unat (vh_id h) - 1" and ?s = "s\<lparr>hs_refcount := hs_refcount s - 1\<rparr>"
  have len: "?i < length (hm_arr m)" using owner_invD(1) [OF inv] o(1) by (auto simp: hm_inv_def)
  have d: "vd_handle_drop m h = Some (h\<lparr>vh_id := 0\<rparr>, hm_put m ?i ?s)"
    using hm_drop_count [OF owner_invD(1) [OF inv], of h s] h o(3,4) more by (simp add: hm_object_def counted_slot_def)
  have "owner_inv valid owns elsize L (hm_put m ?i ?s) lv"
    using o(2-5) more h by (intro owner_inv_same [OF inv o(1)])
      (auto simp: hm_slot_ok_def counted_slot_def slot_owns_def owned_def hm_object_def)
  moreover have "hm_object (hm_put m ?i ?s) h ?s" using h len by (simp add: hm_object_def hm_live_id_def hm_put_metadata)
  ultimately show ?thesis using d by (simp add: drop_handle_with_def)
qed

section \<open>Maps whose objects are freed by a function\<close>

locale counted_owner =
  fixes f :: "u8 list \<Rightarrow> 'r \<Rightarrow> (u8 list \<times> 'r) option" and valid :: "u8 list \<Rightarrow> bool" and owns :: "u8 list \<Rightarrow> 'o set" and live :: "'r \<Rightarrow> 'o set"
    and ok :: "'r \<Rightarrow> bool" and elsize :: nat
  assumes f_frees: "ok r \<Longrightarrow> length b = elsize \<Longrightarrow> valid b \<Longrightarrow> owns b \<subseteq> live r \<Longrightarrow>
    \<exists>b' r'. f b r = Some (b', r') \<and> length b' = elsize \<and> ok r' \<and> live r' = live r - owns b"
begin

text \<open>The last reference frees the object, and no other.\<close>

lemma drop_object:
  assumes inv: "owner_inv valid owns elsize L m (live r)" and r: "ok r" and h: "hm_object m h s"
  shows "\<exists>m' r'. drop_handle_with f m h r = Some (h\<lparr>vh_id := 0\<rparr>, m', r') \<and> owner_inv valid owns elsize L m' (live r') \<and> ok r' \<and>
    live r' = (if hs_refcount s = 1 then live r - owns (hs_value s) else live r)"
proof (cases "hs_refcount s = 1")
  case False
  then show ?thesis using drop_more [OF inv h, of f r] r by auto
next
  case True
  note o = hm_object_slot [OF inv h]
  have b: "length (hs_value s) = elsize" using o(2) by (simp add: hm_slot_ok_def)
  have "slot_owns owns s = owns (hs_value s)" using h by (simp add: slot_owns_def hm_object_def)
  then obtain b' r' where f: "f (hs_value s) r = Some (b', r')" "length b' = elsize" "ok r'" "live r' = live r - owns (hs_value s)"
    using f_frees [OF r b o(5)] o(6) by auto
  show ?thesis using drop_last [of valid owns elsize L m "live r" h s f r, OF inv h True f(1,2)] f(3,4) True by auto
qed

text \<open>The end of the map frees the objects that are left.\<close>

lemma free_all:
  "ok r \<Longrightarrow> distinct ks \<Longrightarrow> \<forall>i \<in> set ks. length (g i) = elsize \<and> valid (g i) \<and> owns (g i) \<subseteq> live r \<Longrightarrow>
     \<forall>i \<in> set ks. \<forall>j \<in> set ks. i \<noteq> j \<longrightarrow> owns (g i) \<inter> owns (g j) = {} \<Longrightarrow>
     \<exists>r'. run_ops (\<lambda>bytes r. map_option snd (f bytes r)) (map g ks) r = Some r' \<and> ok r' \<and>
       live r' = live r - (\<Union>i \<in> set ks. owns (g i))"
proof (induction ks arbitrary: r)
  case (Cons k ks)
  obtain b' r1 where r1: "f (g k) r = Some (b', r1)" "ok r1" "live r1 = live r - owns (g k)"
    using f_frees [of r "g k"] Cons.prems(1,3) by auto
  have "owns (g i) \<subseteq> live r1" if i: "i \<in> set ks" for i
  proof -
    have "owns (g k) \<inter> owns (g i) = {}" using Cons.prems(2,4) i by (metis distinct.simps(2) list.set_intros)
    then show ?thesis using Cons.prems(3) i r1(3) by auto
  qed
  then have "\<exists>r'. run_ops (\<lambda>bytes r. map_option snd (f bytes r)) (map g ks) r1 = Some r' \<and> ok r' \<and>
      live r' = live r1 - (\<Union>i \<in> set ks. owns (g i))"
    using Cons.prems by (intro Cons.IH [OF r1(2)]) simp_all
  then show ?case using r1 by auto
qed simp

lemma deinit_objects:
  assumes inv: "owner_inv valid owns elsize L m (live r)" and r: "ok r"
  shows "\<exists>r'. handlemap_deinit_with f m r = Some r' \<and> ok r' \<and> live r' = L"
proof -
  note hi = owner_invD(1,2) [OF inv]
  let ?n = "hm_arr_len m" and ?g = "\<lambda>i. hs_value (the (hm_arr m ! i))"
  let ?ks = "filter (\<lambda>i. hs_id (the (hm_arr m ! i)) \<noteq> 0) [0..<?n]"
  have n: "?n \<le> length (hm_arr m)" using hi(1) by (simp add: hm_inv_def)
  have slot: "\<exists>s. hm_arr m ! i = Some s \<and> hm_slot_ok elsize i s" if "i < ?n" for i
    using hi that by (auto simp: hm_inv_def)
  have ow: "owned owns m i = (if hs_id (the (hm_arr m ! i)) = 0 then {} else owns (?g i))" if i: "i < ?n" for i
    using slot [OF i] n i by (auto simp: owned_def slot_owns_def hm_metadata_def)
  have take: "take ?n (hm_arr m) = map (\<lambda>i. hm_arr m ! i) [0..<?n]" using n by (intro nth_equalityI) simp_all
  have "list_all (\<lambda>x. x \<noteq> None) (take ?n (hm_arr m))" using slot by (fastforce simp: take list_all_iff)
  then have "vd_handlemap__deinit m = Some (hm_freed m @ map ?g ?ks)"
    using deinit_loop_total [of "take ?n (hm_arr m)" "hm_freed m"] deinit_loop_frees n
    by (fastforce simp: vd_handlemap__deinit_def take filter_map comp_def)
  then have d: "handlemap_deinit_with f m r = run_ops (\<lambda>bytes r. map_option snd (f bytes r)) (map ?g ?ks) r"
    by (simp add: handlemap_deinit_with_def)
  have len: "length (?g i) = elsize" if "i < ?n" for i using slot [OF that] by (auto simp: hm_slot_ok_def)
  have vl: "valid (?g i)" if "i < ?n" "hs_id (the (hm_arr m ! i)) \<noteq> 0" for i
    using slot [OF that(1)] owner_invD(3) [OF inv that(1)] n that by (auto simp: counted_slot_def hm_metadata_def)
  have un: "(\<Union>i < ?n. owned owns m i) = (\<Union>i \<in> set ?ks. owns (?g i))" by (auto simp: ow)
  have "live r - (\<Union>i \<in> set ?ks. owns (?g i)) = L"
    using owner_invD(5,6) [OF inv] unfolding un [symmetric] by blast
  moreover have "\<forall>i \<in> set ?ks. \<forall>j \<in> set ?ks. i \<noteq> j \<longrightarrow> owns (?g i) \<inter> owns (?g j) = {}"
  proof (intro ballI impI)
    fix i j assume "i \<in> set ?ks" "j \<in> set ?ks" "i \<noteq> j"
    then show "owns (?g i) \<inter> owns (?g j) = {}" using owner_invD(4) [OF inv, of i j] by (simp add: ow)
  qed
  moreover have "\<forall>i \<in> set ?ks. length (?g i) = elsize \<and> valid (?g i) \<and> owns (?g i) \<subseteq> live r"
  proof
    fix i assume i: "i \<in> set ?ks"
    then have "owns (?g i) \<subseteq> (\<Union>i < ?n. owned owns m i)" unfolding un by blast
    then show "length (?g i) = elsize \<and> valid (?g i) \<and> owns (?g i) \<subseteq> live r" using len [of i] vl [of i] i owner_invD(6) [OF inv] by auto
  qed
  ultimately show ?thesis using free_all [OF r, of ?ks ?g] d by simp
qed

end

end
