(* ===== verification/Bytes.thy ===== *)
theory Bytes
  imports Hash
begin

text \<open>
  Objects as bytes: a handle map copies an object into its slot. A record whose members are 64-bit words is
  the list of their bytes, least significant first; two 32-bit members share a word.
\<close>

definition load_u64 :: "u8 list \<Rightarrow> u64" where
  "load_u64 bs = foldr (\<lambda>b w. ucast b OR push_bit 8 w) bs 0"

definition words_bytes :: "u64 list \<Rightarrow> u8 list" where
  "words_bytes ws = concat (map u64_bytes ws)"

fun bytes_words :: "u8 list \<Rightarrow> u64 list" where
  "bytes_words bs = (if length bs < 8 then [] else load_u64 (take 8 bs) # bytes_words (drop 8 bs))"

declare bytes_words.simps [simp del]

definition pack_u32 :: "u32 \<Rightarrow> u32 \<Rightarrow> u64" where
  "pack_u32 lo hi = ucast lo OR push_bit 32 (ucast hi)"

definition low_u32 :: "u64 \<Rightarrow> u32" where "low_u32 w = ucast w"
definition high_u32 :: "u64 \<Rightarrow> u32" where "high_u32 w = ucast (drop_bit 32 w)"

lemma u64_bytes_length [simp]: "length (u64_bytes w) = 8"
  by (simp add: u64_bytes_def)

lemma words_bytes_length [simp]: "length (words_bytes ws) = 8 * length ws"
  by (induction ws) (simp_all add: words_bytes_def)

lemma load_u64_bytes: "load_u64 (u64_bytes w) = w"
proof (rule bit_word_eqI)
  fix n assume n: "n < LENGTH(64)"
  then consider "n < 8" | "8 \<le> n" "n < 16" | "16 \<le> n" "n < 24" | "24 \<le> n" "n < 32" | "32 \<le> n" "n < 40"
    | "40 \<le> n" "n < 48" | "48 \<le> n" "n < 56" | "56 \<le> n" by linarith
  then show "bit (load_u64 (u64_bytes w)) n = bit w n"
    using n by cases (auto simp: load_u64_def u64_bytes_def bit_simps)
qed

lemma bytes_words_bytes [simp]: "bytes_words (words_bytes ws) = ws"
proof (induction ws)
  case Nil
  show ?case by (simp add: words_bytes_def bytes_words.simps)
next
  case (Cons w ws)
  have "words_bytes (w # ws) = u64_bytes w @ words_bytes ws" by (simp add: words_bytes_def)
  then show ?case using Cons by (subst bytes_words.simps) (simp add: load_u64_bytes)
qed

lemma pack_u32_low [simp]: "low_u32 (pack_u32 lo hi) = lo"
proof (rule bit_word_eqI)
  fix n assume "n < LENGTH(32)"
  then show "bit (low_u32 (pack_u32 lo hi)) n = bit lo n" by (auto simp: low_u32_def pack_u32_def bit_simps)
qed

lemma pack_u32_high [simp]: "high_u32 (pack_u32 lo hi) = hi"
proof (rule bit_word_eqI)
  fix n assume "n < LENGTH(32)"
  then show "bit (high_u32 (pack_u32 lo hi)) n = bit hi n"
    by (auto simp: high_u32_def pack_u32_def bit_simps dest: bit_imp_le_length)
qed

end
