(* ===== verification/Geo.thy ===== *)
theory Geo
  imports Svma Owned Bytes
begin

text \<open>
  The meshes on the device: ng/src/r/geo_system.c. A mesh is two buffers, for indices and for vertices, kept
  in a handle map whose function on the last drop frees both. The wrapper of the allocator is shared with the
  other systems, so it is part of the state that every operation takes and returns.
\<close>

section \<open>Definitions\<close>

definition VK_BUFFER_USAGE_TRANSFER_SRC_BIT :: u32 where "VK_BUFFER_USAGE_TRANSFER_SRC_BIT = 0x1"
definition VK_BUFFER_USAGE_TRANSFER_DST_BIT :: u32 where "VK_BUFFER_USAGE_TRANSFER_DST_BIT = 0x2"
definition VK_BUFFER_USAGE_UNIFORM_TEXEL_BUFFER_BIT :: u32 where "VK_BUFFER_USAGE_UNIFORM_TEXEL_BUFFER_BIT = 0x4"
definition VK_BUFFER_USAGE_STORAGE_TEXEL_BUFFER_BIT :: u32 where "VK_BUFFER_USAGE_STORAGE_TEXEL_BUFFER_BIT = 0x8"
definition VK_BUFFER_USAGE_UNIFORM_BUFFER_BIT :: u32 where "VK_BUFFER_USAGE_UNIFORM_BUFFER_BIT = 0x10"
definition VK_BUFFER_USAGE_STORAGE_BUFFER_BIT :: u32 where "VK_BUFFER_USAGE_STORAGE_BUFFER_BIT = 0x20"
definition VK_BUFFER_USAGE_INDEX_BUFFER_BIT :: u32 where "VK_BUFFER_USAGE_INDEX_BUFFER_BIT = 0x40"
definition VK_BUFFER_USAGE_VERTEX_BUFFER_BIT :: u32 where "VK_BUFFER_USAGE_VERTEX_BUFFER_BIT = 0x80"
definition VK_BUFFER_USAGE_SHADER_DEVICE_ADDRESS_BIT :: u32 where "VK_BUFFER_USAGE_SHADER_DEVICE_ADDRESS_BIT = 0x20000"
definition VMA_MEMORY_USAGE_UNKNOWN :: u32 where "VMA_MEMORY_USAGE_UNKNOWN = 0"
definition VMA_MEMORY_USAGE_GPU_ONLY :: u32 where "VMA_MEMORY_USAGE_GPU_ONLY = 1"
definition VMA_MEMORY_USAGE_CPU_ONLY :: u32 where "VMA_MEMORY_USAGE_CPU_ONLY = 2"
definition VMA_MEMORY_USAGE_CPU_TO_GPU :: u32 where "VMA_MEMORY_USAGE_CPU_TO_GPU = 3"
definition VMA_MEMORY_USAGE_GPU_TO_CPU :: u32 where "VMA_MEMORY_USAGE_GPU_TO_CPU = 4"
definition VMA_ALLOCATION_CREATE_MAPPED_BIT :: u32 where "VMA_ALLOCATION_CREATE_MAPPED_BIT = 4"

text \<open>The members of the mesh in their order in memory.\<close>

record gpu_mesh =
  gm_vertex_buffer :: u64
  gm_vertex_allocation :: u64
  gm_index_buffer :: u64
  gm_index_allocation :: u64
  gm_vertex_buffer_address :: u64
  gm_num_vertices :: u64
  gm_num_indices :: u64

definition mesh_bytes :: "gpu_mesh \<Rightarrow> u8 list" where
  "mesh_bytes g = words_bytes [gm_vertex_buffer g, gm_vertex_allocation g, gm_index_buffer g, gm_index_allocation g,
     gm_vertex_buffer_address g, gm_num_vertices g, gm_num_indices g]"

definition mesh_of :: "u8 list \<Rightarrow> gpu_mesh" where
  "mesh_of b = (let w = bytes_words b in
     \<lparr>gm_vertex_buffer = w ! 0, gm_vertex_allocation = w ! 1, gm_index_buffer = w ! 2, gm_index_allocation = w ! 3,
      gm_vertex_buffer_address = w ! 4, gm_num_vertices = w ! 5, gm_num_indices = w ! 6\<rparr>)"

record VD_R_GeoSystem =
  geo_meshes :: vd_handlemap
  geo_device :: u64

record VD_R_MeshCreateInfo =
  mci_num_vertices :: u64
  mci_num_indices :: u64

definition vd_r_geo_system_init :: "u64 \<Rightarrow> (int \<times> VD_R_GeoSystem) option" where
  "vd_r_geo_system_init device =
     do { meshes \<leftarrow> vd_handlemap__init 56 64; Some (0, \<lparr>geo_meshes = meshes, geo_device = device\<rparr>) }"

text \<open>The sizes of an index and of a vertex are 4 and 48 bytes.\<close>

definition create_buffers ::
  "'v gpu \<Rightarrow> VD_R_GeoSystem \<Rightarrow> VD_R_MeshCreateInfo \<Rightarrow> SVMA \<times> 'v \<Rightarrow> (gpu_mesh \<times> SVMA \<times> 'v) option" where
  "create_buffers k g info st =
     (let ai = \<lparr>aci_usage = VMA_MEMORY_USAGE_GPU_ONLY, aci_flags = VMA_ALLOCATION_CREATE_MAPPED_BIT, aci_requiredFlags = 0\<rparr> in
      do { ((ib, ia), st1) \<leftarrow> svma_create_buffer k
             \<lparr>bci_usage = VK_BUFFER_USAGE_INDEX_BUFFER_BIT OR VK_BUFFER_USAGE_TRANSFER_DST_BIT,
              bci_size = mci_num_indices info * 4\<rparr> ai \<lparr>tr_file = ''geo_system.c'', tr_line = 35\<rparr> st;
           ((vb, va), st2) \<leftarrow> svma_create_buffer k
             \<lparr>bci_usage = VK_BUFFER_USAGE_VERTEX_BUFFER_BIT OR VK_BUFFER_USAGE_TRANSFER_DST_BIT
                OR VK_BUFFER_USAGE_SHADER_DEVICE_ADDRESS_BIT,
              bci_size = mci_num_vertices info * 48\<rparr> ai \<lparr>tr_file = ''geo_system.c'', tr_line = 54\<rparr> st1;
           Some (\<lparr>gm_vertex_buffer = vb, gm_vertex_allocation = va, gm_index_buffer = ib, gm_index_allocation = ia,
                  gm_vertex_buffer_address = vkGetBufferDeviceAddress k (geo_device g) vb (snd st2),
                  gm_num_vertices = mci_num_vertices info, gm_num_indices = mci_num_indices info\<rparr>, st2) })"

text \<open>The function of the map on the bytes of a mesh; it clears the address in place.\<close>

definition free_geo :: "'v gpu \<Rightarrow> u8 list \<Rightarrow> SVMA \<times> 'v \<Rightarrow> (u8 list \<times> SVMA \<times> 'v) option" where
  "free_geo k object st =
     (let m = mesh_of object in
      do { st1 \<leftarrow> svma_free_buffer k (gm_index_buffer m) (gm_index_allocation m) st;
           st2 \<leftarrow> svma_free_buffer k (gm_vertex_buffer m) (gm_vertex_allocation m) st1;
           Some (mesh_bytes (m\<lparr>gm_vertex_buffer_address := 0\<rparr>), st2) })"

definition vd_r_geo_system_new ::
  "'v gpu \<Rightarrow> VD_R_GeoSystem \<Rightarrow> VD_R_MeshCreateInfo \<Rightarrow> SVMA \<times> 'v \<Rightarrow> (vd_handle \<times> VD_R_GeoSystem \<times> SVMA \<times> 'v) option" where
  "vd_r_geo_system_new k g info st =
     do { (result, st') \<leftarrow> create_buffers k g info st;
          (h, meshes) \<leftarrow> vd_handlemap__register (geo_meshes g) (mesh_bytes result) VD_HANDLEMAP_REF_MODE_COUNT;
          Some (h, g\<lparr>geo_meshes := meshes\<rparr>, st') }"

definition sgeo_resize ::
  "'v gpu \<Rightarrow> VD_R_GeoSystem \<Rightarrow> vd_handle \<Rightarrow> VD_R_MeshCreateInfo \<Rightarrow> SVMA \<times> 'v \<Rightarrow> (int \<times> VD_R_GeoSystem \<times> SVMA \<times> 'v) option" where
  "sgeo_resize k g mesh info st =
     do { slot \<leftarrow> vd_handle_use (geo_meshes g) mesh;
          i \<leftarrow> slot;
          s \<leftarrow> hm_metadata (geo_meshes g) i;
          let meshptr = mesh_of (hs_value s);
          if gm_num_vertices meshptr < mci_num_vertices info \<or> gm_num_indices meshptr < mci_num_indices info then
            do { (_, st1) \<leftarrow> free_geo k (hs_value s) st;
                 (result, st2) \<leftarrow> create_buffers k g info st1;
                 meshes \<leftarrow> write_object (geo_meshes g) i (mesh_bytes result);
                 Some (0, g\<lparr>geo_meshes := meshes\<rparr>, st2) }
          else Some (0, g, st) }"

definition vd_r_geo_system_deinit :: "'v gpu \<Rightarrow> VD_R_GeoSystem \<Rightarrow> SVMA \<times> 'v \<Rightarrow> (SVMA \<times> 'v) option" where
  "vd_r_geo_system_deinit k g st = handlemap_deinit_with (free_geo k) (geo_meshes g) st"

section \<open>What a mesh owns\<close>

lemma mesh_of_bytes [simp]: "mesh_of (mesh_bytes g) = g"
  by (simp add: mesh_of_def mesh_bytes_def)

lemma mesh_bytes_length [simp]: "length (mesh_bytes g) = 56"
  by (simp add: mesh_bytes_def)

definition mesh_owns :: "u8 list \<Rightarrow> gpu_object set" where
  "mesh_owns b = {GAllocation (gm_index_allocation (mesh_of b)), GAllocation (gm_vertex_allocation (mesh_of b))}"

definition mesh_valid :: "u8 list \<Rightarrow> bool" where
  "mesh_valid b \<longleftrightarrow> gm_index_allocation (mesh_of b) \<noteq> gm_vertex_allocation (mesh_of b)"

text \<open>A device that behaves as documented, and a wrapper that is consistent with it.\<close>

definition gpu_ok :: "'v gpu \<Rightarrow> ('v \<Rightarrow> gpu_object set) \<Rightarrow> ('v \<Rightarrow> u64 \<Rightarrow> nat) \<Rightarrow> SVMA \<times> 'v \<Rightarrow> bool" where
  "gpu_ok k live ud st \<longleftrightarrow> gpu_driver k live ud \<and> (\<exists>xs. svma_at live ud xs st)"

lemma gpu_ok_others:
  assumes "gpu_ok k live ud (c, v)" and "\<forall>a. GAllocation a \<in> live v' \<longleftrightarrow> GAllocation a \<in> live v"
    and "\<forall>a. GAllocation a \<in> live v \<longrightarrow> ud v' a = ud v a"
  shows "gpu_ok k live ud (c, v')"
  using assms by (auto simp: gpu_ok_def svma_at_def svma_inv_def)

lemma gpu_ok_free:
  assumes "gpu_ok k live ud st" and "GAllocation a \<in> live (snd st)"
  shows "\<exists>st'. svma_free_buffer k b a st = Some st' \<and> gpu_ok k live ud st' \<and> live (snd st') = live (snd st) - {GAllocation a}"
  using assms free_buffer_at [of k live ud _ st a b] unfolding gpu_ok_def by blast

lemma gpu_ok_create:
  assumes "gpu_ok k live ud st" and "svma_create_buffer k bi ai tr st = Some ((b, a), st')"
  shows "gpu_ok k live ud st' \<and> GAllocation a \<notin> live (snd st) \<and> live (snd st') = insert (GAllocation a) (live (snd st))"
  using assms create_buffer_at [of k live ud _ st bi ai tr b a st'] unfolding gpu_ok_def by blast

lemma free_geo_spec:
  assumes "gpu_ok k live ud st" and "mesh_valid b" and "mesh_owns b \<subseteq> live (snd st)"
  shows "\<exists>b' st'. free_geo k b st = Some (b', st') \<and> length b' = 56 \<and> gpu_ok k live ud st' \<and>
    live (snd st') = live (snd st) - mesh_owns b"
proof -
  let ?m = "mesh_of b"
  have "GAllocation (gm_index_allocation ?m) \<in> live (snd st)" using assms(3) by (simp add: mesh_owns_def)
  from gpu_ok_free [OF assms(1) this, of "gm_index_buffer ?m"] obtain st1 where
    st1: "svma_free_buffer k (gm_index_buffer ?m) (gm_index_allocation ?m) st = Some st1" "gpu_ok k live ud st1"
    "live (snd st1) = live (snd st) - {GAllocation (gm_index_allocation ?m)}"
    by blast
  have "GAllocation (gm_vertex_allocation ?m) \<in> live (snd st1)"
    using assms(2,3) st1(3) by (simp add: mesh_owns_def mesh_valid_def)
  from gpu_ok_free [OF st1(2) this, of "gm_vertex_buffer ?m"] obtain st2 where
    st2: "svma_free_buffer k (gm_vertex_buffer ?m) (gm_vertex_allocation ?m) st1 = Some st2" "gpu_ok k live ud st2"
    "live (snd st2) = live (snd st1) - {GAllocation (gm_vertex_allocation ?m)}"
    by blast
  have "live (snd st2) = live (snd st) - mesh_owns b" using st1(3) st2(3) by (auto simp: mesh_owns_def)
  then show ?thesis using st1(1) st2(1,2) by (simp add: free_geo_def Let_def)
qed

interpretation geo: counted_owner "free_geo k" mesh_valid mesh_owns "\<lambda>st. live (snd st)" "gpu_ok k live ud" 56 for k live ud
  by unfold_locales (rule free_geo_spec)

lemma create_buffers_spec:
  assumes "gpu_ok k live ud st" and "create_buffers k g info st = Some (m, st')"
  shows "gpu_ok k live ud st' \<and> mesh_valid (mesh_bytes m) \<and> mesh_owns (mesh_bytes m) \<inter> live (snd st) = {} \<and>
    live (snd st') = live (snd st) \<union> mesh_owns (mesh_bytes m) \<and>
    gm_num_vertices m = mci_num_vertices info \<and> gm_num_indices m = mci_num_indices info"
proof -
  obtain bi1 ai1 tr1 ib ia st1 bi2 ai2 tr2 vb va where
    c: "svma_create_buffer k bi1 ai1 tr1 st = Some ((ib, ia), st1)" "svma_create_buffer k bi2 ai2 tr2 st1 = Some ((vb, va), st')"
    and m: "gm_index_allocation m = ia" "gm_vertex_allocation m = va"
      "gm_num_vertices m = mci_num_vertices info" "gm_num_indices m = mci_num_indices info"
    using assms(2) unfolding create_buffers_def Let_def by (auto simp: bind_Some_iff split: prod.splits)
  note s1 = gpu_ok_create [OF assms(1) c(1)]
  note s2 = gpu_ok_create [OF conjunct1 [OF s1] c(2)]
  show ?thesis using s1 s2 m by (auto simp: mesh_valid_def mesh_owns_def)
qed

section \<open>The operations\<close>

definition geo_at :: "gpu_object set \<Rightarrow> VD_R_GeoSystem \<Rightarrow> gpu_object set \<Rightarrow> bool" where
  "geo_at L g lv \<longleftrightarrow> owner_inv mesh_valid mesh_owns 56 L (geo_meshes g) lv"

lemma geo_init:
  "\<exists>g. vd_r_geo_system_init device = Some (0, g) \<and> geo_at lv g lv"
  using owner_inv_init [of 56 64 _ mesh_valid mesh_owns lv]
  by (simp add: vd_r_geo_system_init_def vd_handlemap__init_def hm_bytes_def geo_at_def)

lemma geo_new:
  assumes "gpu_ok k live ud st" and "geo_at L g (live (snd st))" and "hm_bytes 56 (length (hm_arr (geo_meshes g)) * 2) < 2 ^ 64"
    and "vd_r_geo_system_new k g info st = Some (h, g', st')"
  shows "gpu_ok k live ud st' \<and> geo_at L g' (live (snd st'))"
proof -
  obtain m where m: "create_buffers k g info st = Some (m, st')"
    and r: "vd_handlemap__register (geo_meshes g) (mesh_bytes m) VD_HANDLEMAP_REF_MODE_COUNT = Some (h, geo_meshes g')"
    using assms(4) by (auto simp: vd_r_geo_system_new_def bind_Some_iff split: prod.splits)
  note c = create_buffers_spec [OF assms(1) m]
  have "\<exists>h m' s. vd_handlemap__register (geo_meshes g) (mesh_bytes m) VD_HANDLEMAP_REF_MODE_COUNT = Some (h, m') \<and>
    owner_inv mesh_valid mesh_owns 56 L m' (live (snd st) \<union> mesh_owns (mesh_bytes m)) \<and> hm_object m' h s \<and>
    hs_value s = mesh_bytes m \<and> hs_refcount s = 1"
    using assms(2,3) c by (intro owner_register) (simp_all add: geo_at_def)
  then show ?thesis using r c by (auto simp: geo_at_def)
qed

text \<open>A resized mesh has room for what was asked; other meshes are as they were.\<close>

lemma geo_resize:
  assumes "gpu_ok k live ud st" and "geo_at L g (live (snd st))" and "hm_object (geo_meshes g) h s"
    and "sgeo_resize k g h info st = Some (c, g', st')"
  shows "gpu_ok k live ud st' \<and> geo_at L g' (live (snd st')) \<and> c = 0 \<and>
    (\<exists>s'. hm_object (geo_meshes g') h s' \<and> mci_num_vertices info \<le> gm_num_vertices (mesh_of (hs_value s')) \<and>
       mci_num_indices info \<le> gm_num_indices (mesh_of (hs_value s')))"
proof -
  let ?i = "unat (vh_id h) - 1" and ?m = "mesh_of (hs_value s)"
  have inv: "owner_inv mesh_valid mesh_owns 56 L (geo_meshes g) (live (snd st))" using assms(2) by (simp add: geo_at_def)
  note o = hm_object_slot [OF inv assms(3)]
  have use: "hm_metadata (geo_meshes g) ?i = Some s" using assms(3) by (simp add: hm_object_def)
  have owns: "mesh_owns (hs_value s) \<subseteq> live (snd st)" using o(6) assms(3) by (simp add: slot_owns_def hm_object_def)
  show ?thesis
  proof (cases "gm_num_vertices ?m < mci_num_vertices info \<or> gm_num_indices ?m < mci_num_indices info")
    case False
    then have "c = 0" "g' = g" "st' = st" using assms(4) o(7) use by (auto simp: sgeo_resize_def Let_def)
    then show ?thesis using assms(1-3) False by (auto simp: not_less)
  next
    case True
    obtain b st1 where f: "free_geo k (hs_value s) st = Some (b, st1)" "gpu_ok k live ud st1"
      "live (snd st1) = live (snd st) - mesh_owns (hs_value s)"
      using free_geo_spec [OF assms(1) o(5) owns] by blast
    obtain m where m: "create_buffers k g info st1 = Some (m, st')" "c = 0"
      "write_object (geo_meshes g) ?i (mesh_bytes m) = Some (geo_meshes g')"
      using assms(4) o(7) use True f(1) by (auto simp: sgeo_resize_def Let_def bind_Some_iff split: prod.splits)
    note c = create_buffers_spec [OF f(2) m(1)]
    have "\<exists>m'. write_object (geo_meshes g) ?i (mesh_bytes m) = Some m' \<and>
      owner_inv mesh_valid mesh_owns 56 L m' ((live (snd st) - mesh_owns (hs_value s)) \<union> mesh_owns (mesh_bytes m)) \<and>
      hm_object m' h (s\<lparr>hs_value := mesh_bytes m\<rparr>)"
      using c f(3) by (intro write_object_owner [OF inv assms(3)]) simp_all
    then have "geo_at L g' (live (snd st'))" "hm_object (geo_meshes g') h (s\<lparr>hs_value := mesh_bytes m\<rparr>)"
      using m(3) c f(3) by (auto simp: geo_at_def)
    then show ?thesis using c m(2) by (auto intro!: exI [of _ "s\<lparr>hs_value := mesh_bytes m\<rparr>"])
  qed
qed

lemma geo_deinit:
  assumes "gpu_ok k live ud st" and "geo_at L g (live (snd st))"
  shows "\<exists>st'. vd_r_geo_system_deinit k g st = Some st' \<and> gpu_ok k live ud st' \<and> live (snd st') = L"
  using geo.deinit_objects [of L "geo_meshes g" live st k ud] assms by (simp add: geo_at_def vd_r_geo_system_deinit_def)

end
