(* ===== verification/Texsys.thy ===== *)
theory Texsys
  imports Geo
begin

text \<open>
  The textures on the device: ng/src/r/texture_system.c. A texture is an image with its memory and a view of
  it, kept in a handle map whose function on the last drop destroys the view and frees the image.
\<close>

section \<open>Definitions\<close>

definition VK_FORMAT_D32_SFLOAT :: u32 where "VK_FORMAT_D32_SFLOAT = 126"
definition VK_IMAGE_ASPECT_COLOR_BIT :: u32 where "VK_IMAGE_ASPECT_COLOR_BIT = 1"
definition VK_IMAGE_ASPECT_DEPTH_BIT :: u32 where "VK_IMAGE_ASPECT_DEPTH_BIT = 2"
definition VK_IMAGE_USAGE_TRANSFER_DST_BIT :: u32 where "VK_IMAGE_USAGE_TRANSFER_DST_BIT = 2"
definition VK_MEMORY_PROPERTY_DEVICE_LOCAL_BIT :: u32 where "VK_MEMORY_PROPERTY_DEVICE_LOCAL_BIT = 1"

record Texture =
  tex_image :: u64
  tex_view :: u64
  tex_allocation :: u64
  tex_extent :: VkExtent3D
  tex_format :: u32

definition texture_bytes :: "Texture \<Rightarrow> u8 list" where
  "texture_bytes t = words_bytes [tex_image t, tex_view t, tex_allocation t,
     pack_u32 (ext_width (tex_extent t)) (ext_height (tex_extent t)), pack_u32 (ext_depth (tex_extent t)) (tex_format t)]"

definition texture_at :: "u8 list \<Rightarrow> Texture" where
  "texture_at b = (let w = bytes_words b in
     \<lparr>tex_image = w ! 0, tex_view = w ! 1, tex_allocation = w ! 2,
      tex_extent = \<lparr>ext_width = low_u32 (w ! 3), ext_height = high_u32 (w ! 3), ext_depth = low_u32 (w ! 4)\<rparr>,
      tex_format = high_u32 (w ! 4)\<rparr>)"

record VD_R_TextureSystem =
  ts_image_handles :: vd_handlemap
  ts_device :: u64

record VD_R_TextureCreateInfo =
  tci_extent :: VkExtent3D
  tci_format :: u32
  tci_usage :: u32
  tci_mipmapping_on :: bool

definition vd_texture_system_init :: "u64 \<Rightarrow> (int \<times> VD_R_TextureSystem) option" where
  "vd_texture_system_init device =
     do { handles \<leftarrow> vd_handlemap__init 40 64; Some (0, \<lparr>ts_image_handles = handles, ts_device = device\<rparr>) }"

text \<open>
  The number of mip levels, \<open>floorf(log2f(n)) + 1\<close> for the larger extent \<open>n\<close>. The logarithm is taken as
  exact, which the float is for the extents below \<open>2 ^ 20\<close>; for \<open>n = 0\<close> it is \<open>-inf\<close>, and its conversion to
  an integer is not defined.
\<close>

fun floor_log2 :: "nat \<Rightarrow> nat" where
  "floor_log2 n = (if n \<le> 1 then 0 else floor_log2 (n div 2) + 1)"

declare floor_log2.simps [simp del]

definition texture_mip_levels :: "VD_R_TextureCreateInfo \<Rightarrow> u32 option" where
  "texture_mip_levels info =
     (if tci_mipmapping_on info then
        let n = max (unat (ext_width (tci_extent info))) (unat (ext_height (tci_extent info))) in
        if n = 0 then None else Some (of_nat (floor_log2 n) + 1)
      else Some 1)"

definition create_texture ::
  "'v gpu \<Rightarrow> VD_R_TextureSystem \<Rightarrow> VD_R_TextureCreateInfo \<Rightarrow> SVMA \<times> 'v \<Rightarrow> (Texture \<times> SVMA \<times> 'v) option" where
  "create_texture k ts info st =
     do { mip_levels \<leftarrow> texture_mip_levels info;
          ((img, alloc), s1, v1) \<leftarrow> svma_create_texture k
            \<lparr>ici_format = tci_format info, ici_extent = tci_extent info,
             ici_usage = tci_usage info OR VK_IMAGE_USAGE_TRANSFER_DST_BIT, ici_mipLevels = mip_levels\<rparr>
            \<lparr>aci_usage = VMA_MEMORY_USAGE_GPU_ONLY, aci_flags = 0, aci_requiredFlags = VK_MEMORY_PROPERTY_DEVICE_LOCAL_BIT\<rparr>
            \<lparr>tr_file = ''texture_system.c'', tr_line = 51\<rparr> st;
          let aspect_flags = (if tci_format info = VK_FORMAT_D32_SFLOAT then VK_IMAGE_ASPECT_DEPTH_BIT
                              else VK_IMAGE_ASPECT_COLOR_BIT);
          let (r, v2) = vkCreateImageView k (ts_device ts) (tci_format info) img aspect_flags v1;
          view \<leftarrow> r;
          Some (\<lparr>tex_image = img, tex_view = view, tex_allocation = alloc, tex_extent = tci_extent info,
                 tex_format = tci_format info\<rparr>, s1, v2) }"

definition vd_texture_system_new ::
  "'v gpu \<Rightarrow> VD_R_TextureSystem \<Rightarrow> VD_R_TextureCreateInfo \<Rightarrow> SVMA \<times> 'v
     \<Rightarrow> (vd_handle \<times> VD_R_TextureSystem \<times> SVMA \<times> 'v) option" where
  "vd_texture_system_new k ts info st =
     do { (result, st') \<leftarrow> create_texture k ts info st;
          (h, handles) \<leftarrow> vd_handlemap__register (ts_image_handles ts) (texture_bytes result) VD_HANDLEMAP_REF_MODE_COUNT;
          Some (h, ts\<lparr>ts_image_handles := handles\<rparr>, st') }"

definition free_texture :: "'v gpu \<Rightarrow> u64 \<Rightarrow> u8 list \<Rightarrow> SVMA \<times> 'v \<Rightarrow> (u8 list \<times> SVMA \<times> 'v) option" where
  "free_texture k device object st =
     (let t = texture_at object; (s, v) = st in
      do { st' \<leftarrow> svma_free_texture k (tex_image t) (tex_allocation t) (s, vkDestroyImageView k device (tex_view t) v);
           Some (object, st') })"

definition vd_texture_system_deinit :: "'v gpu \<Rightarrow> VD_R_TextureSystem \<Rightarrow> SVMA \<times> 'v \<Rightarrow> (SVMA \<times> 'v) option" where
  "vd_texture_system_deinit k ts st = handlemap_deinit_with (free_texture k (ts_device ts)) (ts_image_handles ts) st"

section \<open>Mip levels\<close>

lemma floor_log2_bounds: "0 < n \<Longrightarrow> 2 ^ floor_log2 n \<le> n \<and> n < 2 ^ (floor_log2 n + 1)"
proof (induction n rule: floor_log2.induct)
  case (1 n)
  show ?case
  proof (cases "n \<le> 1")
    case True
    then show ?thesis using 1(2) by (subst (1 2) floor_log2.simps) simp
  next
    case False
    then have l: "floor_log2 n = floor_log2 (n div 2) + 1" by (simp add: floor_log2.simps [of n])
    have "2 ^ floor_log2 (n div 2) \<le> n div 2 \<and> n div 2 < 2 ^ (floor_log2 (n div 2) + 1)" using False 1 by simp
    then show ?thesis unfolding l power_Suc Suc_eq_plus1 [symmetric] by linarith
  qed
qed

text \<open>The chain of a texture with mip levels ends at its first level of one texel.\<close>

lemma texture_mip_levels_chain:
  assumes "tci_mipmapping_on info" and "n = max (unat (ext_width (tci_extent info))) (unat (ext_height (tci_extent info)))"
    and "texture_mip_levels info = Some l"
  shows "n div 2 ^ (unat l - 1) = 1 \<and> 1 \<le> unat l \<and> unat l \<le> 32"
proof -
  have n: "n \<noteq> 0" "n < 2 ^ 32" and l: "l = of_nat (floor_log2 n) + 1"
    using assms unsigned_less [of "ext_width (tci_extent info)"] unsigned_less [of "ext_height (tci_extent info)"]
    by (auto simp: texture_mip_levels_def Let_def split: if_splits)
  have b: "2 ^ floor_log2 n \<le> n" "n < 2 ^ (floor_log2 n + 1)" using floor_log2_bounds [of n] n(1) by simp_all
  have "floor_log2 n < 32"
  proof (rule ccontr)
    assume "\<not> floor_log2 n < 32"
    then have "(2::nat) ^ 32 \<le> 2 ^ floor_log2 n" by (intro power_increasing) simp_all
    then show False using b(1) n(2) by linarith
  qed
  moreover have "unat l = floor_log2 n + 1"
  proof -
    have "l = of_nat (floor_log2 n + 1)" using l by simp
    then show ?thesis using \<open>floor_log2 n < 32\<close> by (simp only:) (rule unat_of_nat_lt, simp)
  qed
  moreover have "n div 2 ^ floor_log2 n = 1" using b by (intro div_nat_eqI) simp_all
  ultimately show ?thesis by simp
qed

section \<open>What a texture owns\<close>

lemma texture_at_bytes [simp]: "texture_at (texture_bytes t) = t"
  by (simp add: texture_at_def texture_bytes_def)

lemma texture_bytes_length [simp]: "length (texture_bytes t) = 40"
  by (simp add: texture_bytes_def)

definition texture_owns :: "u8 list \<Rightarrow> gpu_object set" where
  "texture_owns b = {GAllocation (tex_allocation (texture_at b)), GView (tex_view (texture_at b))}"

lemma driver_view:
  assumes "gpu_driver k live ud" and "vkCreateImageView k d f i a v = (Some x, v')"
  shows "gpu_creates live ud v (GView x) v'"
  using assms unfolding gpu_driver_def by (elim conjE) metis

lemma gpu_ok_view:
  assumes "gpu_ok k live ud (s, v)" and "vkCreateImageView k d f i a v = (Some x, v')"
  shows "gpu_ok k live ud (s, v') \<and> GView x \<notin> live v \<and> live v' = insert (GView x) (live v)"
proof -
  have "gpu_creates live ud v (GView x) v'"
    using assms driver_view by (auto simp: gpu_ok_def)
  then show ?thesis using assms(1) by (auto simp: gpu_ok_def svma_at_def svma_inv_def gpu_creates_def)
qed

lemma gpu_ok_view_gone:
  assumes "gpu_ok k live ud (s, v)" and "GView x \<in> live v"
  shows "gpu_ok k live ud (s, vkDestroyImageView k d x v) \<and> live (vkDestroyImageView k d x v) = live v - {GView x}"
proof -
  have "gpu_destroys live ud v (GView x) (vkDestroyImageView k d x v)" using assms by (simp add: gpu_ok_def gpu_driver_def)
  then show ?thesis using assms(1) by (auto simp: gpu_ok_def svma_at_def svma_inv_def gpu_destroys_def)
qed

lemma gpu_ok_free_texture:
  assumes "gpu_ok k live ud st" and "GAllocation a \<in> live (snd st)"
  shows "\<exists>st'. svma_free_texture k b a st = Some st' \<and> gpu_ok k live ud st' \<and> live (snd st') = live (snd st) - {GAllocation a}"
  using assms free_texture_at [of k live ud _ st a b] unfolding gpu_ok_def by blast

lemma free_texture_spec:
  assumes "gpu_ok k live ud st" and "texture_owns b \<subseteq> live (snd st)"
  shows "\<exists>b' st'. free_texture k d b st = Some (b', st') \<and> length b' = length b \<and> gpu_ok k live ud st' \<and>
    live (snd st') = live (snd st) - texture_owns b"
proof -
  obtain s v where st: "st = (s, v)" by (cases st)
  let ?t = "texture_at b" and ?v = "vkDestroyImageView k d (tex_view (texture_at b)) v"
  have "gpu_ok k live ud (s, ?v) \<and> live ?v = live v - {GView (tex_view ?t)}"
    using assms by (intro gpu_ok_view_gone) (simp_all add: st texture_owns_def)
  moreover from this have "GAllocation (tex_allocation ?t) \<in> live (snd (s, ?v))"
    using assms(2) by (simp add: st texture_owns_def)
  ultimately obtain st' where "svma_free_texture k (tex_image ?t) (tex_allocation ?t) (s, ?v) = Some st'" "gpu_ok k live ud st'"
    "live (snd st') = live v - {GView (tex_view ?t)} - {GAllocation (tex_allocation ?t)}"
    using gpu_ok_free_texture [of k live ud "(s, ?v)" "tex_allocation ?t" "tex_image ?t"] by auto
  then show ?thesis by (auto simp: free_texture_def st texture_owns_def)
qed

interpretation tex: counted_owner "free_texture k d" "\<lambda>_. True" texture_owns "\<lambda>st. live (snd st)" "gpu_ok k live ud" 40
  for k d live ud
proof unfold_locales
  fix st :: "SVMA \<times> 'a" and b :: "u8 list"
  assume "gpu_ok k live ud st" "length b = 40" "texture_owns b \<subseteq> live (snd st)"
  from free_texture_spec [OF this(1,3), of d] this(2)
  show "\<exists>b' st'. free_texture k d b st = Some (b', st') \<and> length b' = 40 \<and> gpu_ok k live ud st' \<and>
    live (snd st') = live (snd st) - texture_owns b" by simp
qed

lemma gpu_ok_create_texture:
  assumes "gpu_ok k live ud st" and "svma_create_texture k ii ai tr st = Some ((b, a), st')"
  shows "gpu_ok k live ud st' \<and> GAllocation a \<notin> live (snd st) \<and> live (snd st') = insert (GAllocation a) (live (snd st))"
  using assms create_texture_at [of k live ud _ st ii ai tr b a st'] unfolding gpu_ok_def by blast

lemma create_texture_spec:
  assumes "gpu_ok k live ud st" and "create_texture k ts info st = Some (t, st')"
  shows "gpu_ok k live ud st' \<and> texture_owns (texture_bytes t) \<inter> live (snd st) = {} \<and>
    live (snd st') = live (snd st) \<union> texture_owns (texture_bytes t) \<and>
    tex_extent t = tci_extent info \<and> tex_format t = tci_format info"
proof -
  obtain l where l: "texture_mip_levels info = Some l" using assms(2) by (auto simp: create_texture_def bind_Some_iff)
  let ?c = "svma_create_texture k \<lparr>ici_format = tci_format info, ici_extent = tci_extent info,
      ici_usage = tci_usage info OR VK_IMAGE_USAGE_TRANSFER_DST_BIT, ici_mipLevels = l\<rparr>
    \<lparr>aci_usage = VMA_MEMORY_USAGE_GPU_ONLY, aci_flags = 0, aci_requiredFlags = VK_MEMORY_PROPERTY_DEVICE_LOCAL_BIT\<rparr>
    \<lparr>tr_file = ''texture_system.c'', tr_line = 51\<rparr> st"
  obtain img alloc s1 v1 where c: "?c = Some ((img, alloc), s1, v1)"
    using assms(2) l by (auto simp: create_texture_def bind_Some_iff)
  let ?v = "vkCreateImageView k (ts_device ts) (tci_format info) img
    (if tci_format info = VK_FORMAT_D32_SFLOAT then VK_IMAGE_ASPECT_DEPTH_BIT else VK_IMAGE_ASPECT_COLOR_BIT) v1"
  obtain view v2 where v: "?v = (Some view, v2)"
    using assms(2) l c by (cases ?v) (auto simp: create_texture_def bind_Some_iff Let_def)
  have t: "tex_allocation t = alloc" "tex_view t = view" "st' = (s1, v2)" "tex_extent t = tci_extent info"
      "tex_format t = tci_format info"
    using assms(2) l c v by (auto simp: create_texture_def Let_def)
  note s1 = gpu_ok_create_texture [OF assms(1) c]
  note s2 = gpu_ok_view [OF conjunct1 [OF s1] v]
  show ?thesis using s1 s2 t by (auto simp: texture_owns_def)
qed

section \<open>The operations\<close>

definition tex_at :: "gpu_object set \<Rightarrow> VD_R_TextureSystem \<Rightarrow> gpu_object set \<Rightarrow> bool" where
  "tex_at L ts lv \<longleftrightarrow> owner_inv (\<lambda>_. True) texture_owns 40 L (ts_image_handles ts) lv"

lemma tex_init:
  "\<exists>ts. vd_texture_system_init device = Some (0, ts) \<and> tex_at lv ts lv"
  using owner_inv_init [of 40 64 _ "\<lambda>_. True" texture_owns lv]
  by (simp add: vd_texture_system_init_def vd_handlemap__init_def hm_bytes_def tex_at_def)

lemma tex_new:
  assumes "gpu_ok k live ud st" and "tex_at L ts (live (snd st))"
    and "hm_bytes 40 (length (hm_arr (ts_image_handles ts)) * 2) < 2 ^ 64"
    and "vd_texture_system_new k ts info st = Some (h, ts', st')"
  shows "gpu_ok k live ud st' \<and> tex_at L ts' (live (snd st'))"
proof -
  obtain t where t: "create_texture k ts info st = Some (t, st')"
    and r: "vd_handlemap__register (ts_image_handles ts) (texture_bytes t) VD_HANDLEMAP_REF_MODE_COUNT = Some (h, ts_image_handles ts')"
    using assms(4) by (auto simp: vd_texture_system_new_def bind_Some_iff split: prod.splits)
  note c = create_texture_spec [OF assms(1) t]
  have "\<exists>h m' s. vd_handlemap__register (ts_image_handles ts) (texture_bytes t) VD_HANDLEMAP_REF_MODE_COUNT = Some (h, m') \<and>
    owner_inv (\<lambda>_. True) texture_owns 40 L m' (live (snd st) \<union> texture_owns (texture_bytes t)) \<and> hm_object m' h s \<and>
    hs_value s = texture_bytes t \<and> hs_refcount s = 1"
    using assms(2,3) c by (intro owner_register) (simp_all add: tex_at_def)
  then show ?thesis using r c by (auto simp: tex_at_def)
qed

lemma tex_deinit:
  assumes "gpu_ok k live ud st" and "tex_at L ts (live (snd st))"
  shows "\<exists>st'. vd_texture_system_deinit k ts st = Some st' \<and> gpu_ok k live ud st' \<and> live (snd st') = L"
  using tex.deinit_objects [of L "ts_image_handles ts" live st k ud] assms
  by (simp add: tex_at_def vd_texture_system_deinit_def)

end
