(* ===== verification/Sshader.thy ===== *)
theory Sshader
  imports Texsys
begin

text \<open>
  The shaders: ng/src/r/sshader.c. A shader is a module of the device with its stage, made from byte code or
  from a source text. The compiler (glslang behind shdc) is a parameter: a function from the text and the
  stage to the byte code, or to nothing when the text has errors.
\<close>

section \<open>Definitions\<close>

datatype VD_SHDC_ShaderStage = VD_SHDC_SHADER_STAGE_VERTEX | VD_SHDC_SHADER_STAGE_FRAGMENT
  | VD_SHDC_SHADER_STAGE_COMPUTE | VD_SHDC_SHADER_STAGE_GEOMETRY

definition VK_SHADER_STAGE_VERTEX_BIT :: u32 where "VK_SHADER_STAGE_VERTEX_BIT = 0x1"
definition VK_SHADER_STAGE_GEOMETRY_BIT :: u32 where "VK_SHADER_STAGE_GEOMETRY_BIT = 0x8"
definition VK_SHADER_STAGE_FRAGMENT_BIT :: u32 where "VK_SHADER_STAGE_FRAGMENT_BIT = 0x10"

record GPUShader =
  gs_module :: u64
  gs_stage :: u32

text \<open>The last four bytes are padding.\<close>

definition shader_bytes :: "GPUShader \<Rightarrow> u8 list" where
  "shader_bytes g = words_bytes [gs_module g, pack_u32 (gs_stage g) 0]"

definition shader_at :: "u8 list \<Rightarrow> GPUShader" where
  "shader_at b = (let w = bytes_words b in \<lparr>gs_module = w ! 0, gs_stage = low_u32 (w ! 1)\<rparr>)"

record SShader =
  ss_shaders :: vd_handlemap
  ss_device :: u64

text \<open>A null pointer or a length of zero is the empty list.\<close>

record GPUShaderCreateInfo =
  sci_stage :: u32
  sci_bytecode :: "u8 list"
  sci_sourcecode :: "u8 list"

definition vd_r_sshader_init :: "u64 \<Rightarrow> (int \<times> SShader) option" where
  "vd_r_sshader_init device =
     do { shaders \<leftarrow> vd_handlemap__init 16 64; Some (0, \<lparr>ss_shaders = shaders, ss_device = device\<rparr>) }"

definition shader_stage_of :: "u32 \<Rightarrow> VD_SHDC_ShaderStage option" where
  "shader_stage_of stage =
     (if stage = VK_SHADER_STAGE_VERTEX_BIT then Some VD_SHDC_SHADER_STAGE_VERTEX
      else if stage = VK_SHADER_STAGE_GEOMETRY_BIT then Some VD_SHDC_SHADER_STAGE_GEOMETRY
      else if stage = VK_SHADER_STAGE_FRAGMENT_BIT then Some VD_SHDC_SHADER_STAGE_FRAGMENT
      else None)"

text \<open>The byte code of a shader: \<open>Inl\<close> when the compiler refuses the text; \<open>exit\<close> on another stage is \<open>None\<close>.\<close>

definition shader_bytecode ::
  "(u8 list \<Rightarrow> VD_SHDC_ShaderStage \<Rightarrow> u8 list option) \<Rightarrow> GPUShaderCreateInfo \<Rightarrow> (unit + u8 list) option" where
  "shader_bytecode vd_shdc_compile info =
     (if sci_sourcecode info \<noteq> [] then
        do { stage \<leftarrow> shader_stage_of (sci_stage info);
             Some (case vd_shdc_compile (sci_sourcecode info) stage of None \<Rightarrow> Inl () | Some code \<Rightarrow> Inr code) }
      else Some (Inr (sci_bytecode info)))"

definition vd_r_sshader_new ::
  "'v gpu \<Rightarrow> (u8 list \<Rightarrow> VD_SHDC_ShaderStage \<Rightarrow> u8 list option) \<Rightarrow> SShader \<Rightarrow> GPUShaderCreateInfo \<Rightarrow> 'v
     \<Rightarrow> (vd_handle \<times> SShader \<times> 'v) option" where
  "vd_r_sshader_new k vd_shdc_compile ss info v =
     do { compiled \<leftarrow> shader_bytecode vd_shdc_compile info;
          case compiled of
            Inl _ \<Rightarrow> Some (INVALID_HANDLE, ss, v)
          | Inr bytecode \<Rightarrow>
              (let (r, v') = vd_vk_create_shader_module k (ss_device ss) bytecode v in
               do { module \<leftarrow> r;
                    (h, shaders) \<leftarrow> vd_handlemap__register (ss_shaders ss)
                      (shader_bytes \<lparr>gs_module = module, gs_stage = sci_stage info\<rparr>) VD_HANDLEMAP_REF_MODE_COUNT;
                    Some (h, ss\<lparr>ss_shaders := shaders\<rparr>, v') }) }"

definition free_shader :: "'v gpu \<Rightarrow> u64 \<Rightarrow> u8 list \<Rightarrow> 'v \<Rightarrow> (u8 list \<times> 'v) option" where
  "free_shader k device object v = Some (object, vkDestroyShaderModule k device (gs_module (shader_at object)) v)"

definition vd_r_sshader_deinit :: "'v gpu \<Rightarrow> SShader \<Rightarrow> 'v \<Rightarrow> 'v option" where
  "vd_r_sshader_deinit k ss v = handlemap_deinit_with (free_shader k (ss_device ss)) (ss_shaders ss) v"

section \<open>What a shader owns\<close>

lemma shader_at_bytes [simp]: "shader_at (shader_bytes g) = g"
  by (simp add: shader_at_def shader_bytes_def)

lemma shader_bytes_length [simp]: "length (shader_bytes g) = 16"
  by (simp add: shader_bytes_def)

definition shader_owns :: "u8 list \<Rightarrow> gpu_object set" where
  "shader_owns b = {GModule (gs_module (shader_at b))}"

lemma driver_module:
  assumes "gpu_driver k live ud" and "vd_vk_create_shader_module k d c v = (Some x, v')"
  shows "gpu_creates live ud v (GModule x) v'"
  using assms unfolding gpu_driver_def by (elim conjE) metis

lemma gpu_ok_module:
  assumes "gpu_ok k live ud (s, v)" and "vd_vk_create_shader_module k d c v = (Some x, v')"
  shows "gpu_ok k live ud (s, v') \<and> GModule x \<notin> live v \<and> live v' = insert (GModule x) (live v)"
proof -
  have "gpu_creates live ud v (GModule x) v'" using assms driver_module by (auto simp: gpu_ok_def)
  then show ?thesis using assms(1) by (auto simp: gpu_ok_def svma_at_def svma_inv_def gpu_creates_def)
qed

lemma free_shader_spec:
  assumes "gpu_ok k live ud (s, v)" and "shader_owns b \<subseteq> live v"
  shows "\<exists>b' v'. free_shader k d b v = Some (b', v') \<and> length b' = length b \<and> gpu_ok k live ud (s, v') \<and>
    live v' = live v - shader_owns b"
proof -
  let ?v = "vkDestroyShaderModule k d (gs_module (shader_at b)) v"
  have "gpu_destroys live ud v (GModule (gs_module (shader_at b))) ?v"
    using assms by (simp add: gpu_ok_def gpu_driver_def shader_owns_def)
  then show ?thesis
    using assms(1) by (auto simp: free_shader_def shader_owns_def gpu_ok_def svma_at_def svma_inv_def gpu_destroys_def)
qed

interpretation shd: counted_owner "free_shader k d" "\<lambda>_. True" shader_owns live "\<lambda>v. gpu_ok k live ud (s, v)" 16
  for k d live ud s
proof unfold_locales
  fix v :: 'a and b :: "u8 list"
  assume "gpu_ok k live ud (s, v)" "length b = 16" "shader_owns b \<subseteq> live v"
  from free_shader_spec [OF this(1,3), of d] this(2)
  show "\<exists>b' v'. free_shader k d b v = Some (b', v') \<and> length b' = 16 \<and> gpu_ok k live ud (s, v') \<and>
    live v' = live v - shader_owns b" by simp
qed

section \<open>The operations\<close>

definition shd_at :: "gpu_object set \<Rightarrow> SShader \<Rightarrow> gpu_object set \<Rightarrow> bool" where
  "shd_at L ss lv \<longleftrightarrow> owner_inv (\<lambda>_. True) shader_owns 16 L (ss_shaders ss) lv"

lemma shd_init:
  "\<exists>ss. vd_r_sshader_init device = Some (0, ss) \<and> shd_at lv ss lv"
  using owner_inv_init [of 16 64 _ "\<lambda>_. True" shader_owns lv]
  by (simp add: vd_r_sshader_init_def vd_handlemap__init_def hm_bytes_def shd_at_def)

lemma shd_new:
  assumes "gpu_ok k live ud (s, v)" and "shd_at L ss (live v)"
    and "hm_bytes 16 (length (hm_arr (ss_shaders ss)) * 2) < 2 ^ 64"
    and "vd_r_sshader_new k vd_shdc_compile ss info v = Some (h, ss', v')"
  shows "gpu_ok k live ud (s, v') \<and> shd_at L ss' (live v')"
proof -
  obtain c where c: "shader_bytecode vd_shdc_compile info = Some c"
    using assms(4) by (auto simp: vd_r_sshader_new_def bind_Some_iff)
  show ?thesis
  proof (cases c)
    case (Inl u)
    then show ?thesis using assms(1,2,4) c by (simp add: vd_r_sshader_new_def)
  next
    case (Inr code)
    let ?c = "vd_vk_create_shader_module k (ss_device ss) code v"
    obtain x v1 where x: "?c = (Some x, v1)"
      using assms(4) c Inr by (cases ?c) (auto simp: vd_r_sshader_new_def bind_Some_iff)
    let ?b = "shader_bytes \<lparr>gs_module = x, gs_stage = sci_stage info\<rparr>"
    have v': "v' = v1" and r: "vd_handlemap__register (ss_shaders ss) ?b VD_HANDLEMAP_REF_MODE_COUNT = Some (h, ss_shaders ss')"
      using assms(4) c Inr x by (auto simp: vd_r_sshader_new_def bind_Some_iff)
    note m = gpu_ok_module [OF assms(1) x]
    have "\<exists>h m' s. vd_handlemap__register (ss_shaders ss) ?b VD_HANDLEMAP_REF_MODE_COUNT = Some (h, m') \<and>
      owner_inv (\<lambda>_. True) shader_owns 16 L m' (live v \<union> shader_owns ?b) \<and> hm_object m' h s \<and> hs_value s = ?b \<and> hs_refcount s = 1"
      using assms(2,3) m by (intro owner_register) (simp_all add: shd_at_def shader_owns_def)
    then show ?thesis using r m v' by (auto simp: shd_at_def shader_owns_def)
  qed
qed

text \<open>A text that does not compile gives the invalid handle and changes nothing.\<close>

lemma vd_r_sshader_new_error:
  assumes "sci_sourcecode info \<noteq> []" and "shader_stage_of (sci_stage info) = Some stage"
    and "vd_shdc_compile (sci_sourcecode info) stage = None"
  shows "vd_r_sshader_new k vd_shdc_compile ss info v = Some (INVALID_HANDLE, ss, v)"
  using assms by (simp add: vd_r_sshader_new_def shader_bytecode_def)

lemma shd_deinit:
  assumes "gpu_ok k live ud (s, v)" and "shd_at L ss (live v)"
  shows "\<exists>v'. vd_r_sshader_deinit k ss v = Some v' \<and> gpu_ok k live ud (s, v') \<and> live v' = L"
  using shd.deinit_objects [of L "ss_shaders ss" live v k ud s] assms by (simp add: shd_at_def vd_r_sshader_deinit_def)

end
