(* ===== verification/Resources.thy ===== *)
theory Resources
  imports Sshader
begin

text \<open>
  What the renderer keeps on the device: the parts of ng/src/renderer.c that own the texture, mesh and shader
  systems and the wrapper of the device memory, and that hand out buffers. The swapchain, the pipelines and
  the materials are not part of this model; the windows' images and other buffers are those that clients
  create and destroy here.
\<close>

section \<open>Definitions\<close>

record VD_Renderer =
  rn_textures :: VD_R_TextureSystem
  rn_geos :: VD_R_GeoSystem
  rn_sshader :: SShader

definition init_systems :: "u64 \<Rightarrow> VD_Renderer option" where
  "init_systems device =
     do { (_, ts) \<leftarrow> vd_texture_system_init device;
          (_, g) \<leftarrow> vd_r_geo_system_init device;
          (_, ss) \<leftarrow> vd_r_sshader_init device;
          Some \<lparr>rn_textures = ts, rn_geos = g, rn_sshader = ss\<rparr> }"

definition vd_renderer_create_buffer ::
  "'v gpu \<Rightarrow> u64 \<Rightarrow> u32 \<Rightarrow> u32 \<Rightarrow> SVMA \<times> 'v \<Rightarrow> ((u64 \<times> u64) \<times> SVMA \<times> 'v) option" where
  "vd_renderer_create_buffer k size' flags usage st =
     svma_create_buffer k \<lparr>bci_usage = flags, bci_size = size'\<rparr>
       \<lparr>aci_usage = usage, aci_flags = VMA_ALLOCATION_CREATE_MAPPED_BIT, aci_requiredFlags = 0\<rparr>
       \<lparr>tr_file = ''renderer.c'', tr_line = 1946\<rparr> st"

definition vd_renderer_destroy_buffer :: "'v gpu \<Rightarrow> u64 \<times> u64 \<Rightarrow> SVMA \<times> 'v \<Rightarrow> (SVMA \<times> 'v) option" where
  "vd_renderer_destroy_buffer k buffer st = svma_free_buffer k (fst buffer) (snd buffer) st"

definition vd_renderer_create_texture ::
  "'v gpu \<Rightarrow> VD_Renderer \<Rightarrow> VD_R_TextureCreateInfo \<Rightarrow> SVMA \<times> 'v \<Rightarrow> (vd_handle \<times> VD_Renderer \<times> SVMA \<times> 'v) option" where
  "vd_renderer_create_texture k r info st =
     do { (h, ts, st') \<leftarrow> vd_texture_system_new k (rn_textures r) info st; Some (h, r\<lparr>rn_textures := ts\<rparr>, st') }"

definition vd_renderer_create_mesh ::
  "'v gpu \<Rightarrow> VD_Renderer \<Rightarrow> VD_R_MeshCreateInfo \<Rightarrow> SVMA \<times> 'v \<Rightarrow> (vd_handle \<times> VD_Renderer \<times> SVMA \<times> 'v) option" where
  "vd_renderer_create_mesh k r info st =
     do { (h, g, st') \<leftarrow> vd_r_geo_system_new k (rn_geos r) info st; Some (h, r\<lparr>rn_geos := g\<rparr>, st') }"

definition vd_renderer_create_shader ::
  "'v gpu \<Rightarrow> (u8 list \<Rightarrow> VD_SHDC_ShaderStage \<Rightarrow> u8 list option) \<Rightarrow> VD_Renderer \<Rightarrow> GPUShaderCreateInfo \<Rightarrow> SVMA \<times> 'v
     \<Rightarrow> (vd_handle \<times> VD_Renderer \<times> SVMA \<times> 'v) option" where
  "vd_renderer_create_shader k vd_shdc_compile r info st =
     do { (h, ss, v') \<leftarrow> vd_r_sshader_new k vd_shdc_compile (rn_sshader r) info (snd st);
          Some (h, r\<lparr>rn_sshader := ss\<rparr>, fst st, v') }"

text \<open>\<open>DROP_HANDLE\<close> on a handle of each system, with the function of its map.\<close>

definition drop_texture ::
  "'v gpu \<Rightarrow> VD_Renderer \<Rightarrow> vd_handle \<Rightarrow> SVMA \<times> 'v \<Rightarrow> (vd_handle \<times> VD_Renderer \<times> SVMA \<times> 'v) option" where
  "drop_texture k r h st =
     do { (h', m, st') \<leftarrow> drop_handle_with (free_texture k (ts_device (rn_textures r))) (ts_image_handles (rn_textures r)) h st;
          Some (h', r\<lparr>rn_textures := (rn_textures r)\<lparr>ts_image_handles := m\<rparr>\<rparr>, st') }"

definition drop_mesh ::
  "'v gpu \<Rightarrow> VD_Renderer \<Rightarrow> vd_handle \<Rightarrow> SVMA \<times> 'v \<Rightarrow> (vd_handle \<times> VD_Renderer \<times> SVMA \<times> 'v) option" where
  "drop_mesh k r h st =
     do { (h', m, st') \<leftarrow> drop_handle_with (free_geo k) (geo_meshes (rn_geos r)) h st;
          Some (h', r\<lparr>rn_geos := (rn_geos r)\<lparr>geo_meshes := m\<rparr>\<rparr>, st') }"

definition drop_shader ::
  "'v gpu \<Rightarrow> VD_Renderer \<Rightarrow> vd_handle \<Rightarrow> SVMA \<times> 'v \<Rightarrow> (vd_handle \<times> VD_Renderer \<times> SVMA \<times> 'v) option" where
  "drop_shader k r h st =
     do { (h', m, v') \<leftarrow> drop_handle_with (free_shader k (ss_device (rn_sshader r))) (ss_shaders (rn_sshader r)) h (snd st);
          Some (h', r\<lparr>rn_sshader := (rn_sshader r)\<lparr>ss_shaders := m\<rparr>\<rparr>, fst st, v') }"


section \<open>Runs\<close>

text \<open>
  What a client does: it copies and drops only handles to objects that exist, and destroys only buffers that
  it created; \<open>bs\<close> are the allocations of its buffers. A map that grows must fit the address space, and a
  count must fit its type.
\<close>

inductive renderer_run ::
  "'v gpu \<Rightarrow> (u8 list \<Rightarrow> VD_SHDC_ShaderStage \<Rightarrow> u8 list option) \<Rightarrow> VD_Renderer \<Rightarrow> SVMA \<times> 'v
     \<Rightarrow> u64 set \<Rightarrow> VD_Renderer \<Rightarrow> SVMA \<times> 'v \<Rightarrow> bool"
  for k vd_shdc_compile r0 st0 where
  start: "renderer_run k vd_shdc_compile r0 st0 {} r0 st0"
| create_texture: "renderer_run k vd_shdc_compile r0 st0 bs r st \<Longrightarrow>
    hm_bytes 40 (length (hm_arr (ts_image_handles (rn_textures r))) * 2) < 2 ^ 64 \<Longrightarrow>
    vd_renderer_create_texture k r info st = Some (h, r', st') \<Longrightarrow> renderer_run k vd_shdc_compile r0 st0 bs r' st'"
| create_mesh: "renderer_run k vd_shdc_compile r0 st0 bs r st \<Longrightarrow>
    hm_bytes 56 (length (hm_arr (geo_meshes (rn_geos r))) * 2) < 2 ^ 64 \<Longrightarrow>
    vd_renderer_create_mesh k r minfo st = Some (h, r', st') \<Longrightarrow> renderer_run k vd_shdc_compile r0 st0 bs r' st'"
| create_shader: "renderer_run k vd_shdc_compile r0 st0 bs r st \<Longrightarrow>
    hm_bytes 16 (length (hm_arr (ss_shaders (rn_sshader r))) * 2) < 2 ^ 64 \<Longrightarrow>
    vd_renderer_create_shader k vd_shdc_compile r sinfo st = Some (h, r', st') \<Longrightarrow>
    renderer_run k vd_shdc_compile r0 st0 bs r' st'"
| resize_mesh: "renderer_run k vd_shdc_compile r0 st0 bs r st \<Longrightarrow> hm_object (geo_meshes (rn_geos r)) h s \<Longrightarrow>
    sgeo_resize k (rn_geos r) h minfo st = Some (c, g, st') \<Longrightarrow>
    renderer_run k vd_shdc_compile r0 st0 bs (r\<lparr>rn_geos := g\<rparr>) st'"
| copy_texture: "renderer_run k vd_shdc_compile r0 st0 bs r st \<Longrightarrow> hm_object (ts_image_handles (rn_textures r)) h s \<Longrightarrow>
    hs_refcount s + 1 < 2 ^ 31 \<Longrightarrow> vd_handlemap_copy (ts_image_handles (rn_textures r)) h = Some (h', m) \<Longrightarrow>
    renderer_run k vd_shdc_compile r0 st0 bs (r\<lparr>rn_textures := (rn_textures r)\<lparr>ts_image_handles := m\<rparr>\<rparr>) st"
| copy_mesh: "renderer_run k vd_shdc_compile r0 st0 bs r st \<Longrightarrow> hm_object (geo_meshes (rn_geos r)) h s \<Longrightarrow>
    hs_refcount s + 1 < 2 ^ 31 \<Longrightarrow> vd_handlemap_copy (geo_meshes (rn_geos r)) h = Some (h', m) \<Longrightarrow>
    renderer_run k vd_shdc_compile r0 st0 bs (r\<lparr>rn_geos := (rn_geos r)\<lparr>geo_meshes := m\<rparr>\<rparr>) st"
| copy_shader: "renderer_run k vd_shdc_compile r0 st0 bs r st \<Longrightarrow> hm_object (ss_shaders (rn_sshader r)) h s \<Longrightarrow>
    hs_refcount s + 1 < 2 ^ 31 \<Longrightarrow> vd_handlemap_copy (ss_shaders (rn_sshader r)) h = Some (h', m) \<Longrightarrow>
    renderer_run k vd_shdc_compile r0 st0 bs (r\<lparr>rn_sshader := (rn_sshader r)\<lparr>ss_shaders := m\<rparr>\<rparr>) st"
| drop_texture: "renderer_run k vd_shdc_compile r0 st0 bs r st \<Longrightarrow> hm_object (ts_image_handles (rn_textures r)) h s \<Longrightarrow>
    drop_texture k r h st = Some (h', r', st') \<Longrightarrow> renderer_run k vd_shdc_compile r0 st0 bs r' st'"
| drop_mesh: "renderer_run k vd_shdc_compile r0 st0 bs r st \<Longrightarrow> hm_object (geo_meshes (rn_geos r)) h s \<Longrightarrow>
    drop_mesh k r h st = Some (h', r', st') \<Longrightarrow> renderer_run k vd_shdc_compile r0 st0 bs r' st'"
| drop_shader: "renderer_run k vd_shdc_compile r0 st0 bs r st \<Longrightarrow> hm_object (ss_shaders (rn_sshader r)) h s \<Longrightarrow>
    drop_shader k r h st = Some (h', r', st') \<Longrightarrow> renderer_run k vd_shdc_compile r0 st0 bs r' st'"
| create_buffer: "renderer_run k vd_shdc_compile r0 st0 bs r st \<Longrightarrow>
    vd_renderer_create_buffer k sz flags usage st = Some ((b, a), st') \<Longrightarrow>
    renderer_run k vd_shdc_compile r0 st0 (insert a bs) r st'"
| destroy_buffer: "renderer_run k vd_shdc_compile r0 st0 bs r st \<Longrightarrow> a \<in> bs \<Longrightarrow>
    vd_renderer_destroy_buffer k (b, a) st = Some st' \<Longrightarrow> renderer_run k vd_shdc_compile r0 st0 (bs - {a}) r st'"

section \<open>Who owns what\<close>

text \<open>Of the objects \<open>lv\<close>, the meshes own those outside \<open>K\<close>, the textures those of \<open>K\<close> outside \<open>L\<close>, and the
  shaders those of \<open>L\<close> outside \<open>O'\<close>.\<close>

definition systems_at :: "gpu_object set \<Rightarrow> VD_Renderer \<Rightarrow> gpu_object set \<Rightarrow> bool" where
  "systems_at O' r lv \<longleftrightarrow> (\<exists>K L. geo_at K (rn_geos r) lv \<and> tex_at L (rn_textures r) K \<and> shd_at O' (rn_sshader r) L)"

lemma owner_swap_ex:
  assumes "owner_inv valid1 owns1 n1 L m1 lv" and "owner_inv valid2 owns2 n2 K m2 L"
  shows "\<exists>L'. owner_inv valid2 owns2 n2 L' m2 lv \<and> owner_inv valid1 owns1 n1 K m1 L'"
  by (rule owner_swap [OF assms]) blast

lemma geo_tex_swap: "geo_at K g lv \<Longrightarrow> tex_at L ts K \<Longrightarrow> \<exists>K'. tex_at K' ts lv \<and> geo_at L g K'"
  and tex_geo_swap: "tex_at K ts lv \<Longrightarrow> geo_at L g K \<Longrightarrow> \<exists>K'. geo_at K' g lv \<and> tex_at L ts K'"
  and tex_shd_swap: "tex_at K ts lv \<Longrightarrow> shd_at L ss K \<Longrightarrow> \<exists>K'. shd_at K' ss lv \<and> tex_at L ts K'"
  and shd_tex_swap: "shd_at K ss lv \<Longrightarrow> tex_at L ts K \<Longrightarrow> \<exists>K'. tex_at K' ts lv \<and> shd_at L ss K'"
  and geo_shd_swap: "geo_at K g lv \<Longrightarrow> shd_at L ss K \<Longrightarrow> \<exists>K'. shd_at K' ss lv \<and> geo_at L g K'"
  and shd_geo_swap: "shd_at K ss lv \<Longrightarrow> geo_at L g K \<Longrightarrow> \<exists>K'. geo_at K' g lv \<and> shd_at L ss K'"
  unfolding geo_at_def tex_at_def shd_at_def by (rule owner_swap_ex; assumption)+

lemma systems_at_tex:
  "systems_at O' r lv \<longleftrightarrow> (\<exists>K L. tex_at K (rn_textures r) lv \<and> geo_at L (rn_geos r) K \<and> shd_at O' (rn_sshader r) L)"
  unfolding systems_at_def using geo_tex_swap tex_geo_swap by blast

lemma systems_at_shd:
  "systems_at O' r lv \<longleftrightarrow> (\<exists>K L. shd_at K (rn_sshader r) lv \<and> geo_at L (rn_geos r) K \<and> tex_at O' (rn_textures r) L)"
proof
  assume "systems_at O' r lv"
  then obtain K L where "geo_at K (rn_geos r) lv" "tex_at L (rn_textures r) K" "shd_at O' (rn_sshader r) L"
    by (auto simp: systems_at_def)
  moreover obtain L' where L: "shd_at L' (rn_sshader r) K" "tex_at O' (rn_textures r) L'"
    using tex_shd_swap calculation(2,3) by blast
  moreover obtain K' where "shd_at K' (rn_sshader r) lv" "geo_at L' (rn_geos r) K'"
    using geo_shd_swap calculation(1) L(1) by blast
  ultimately show "\<exists>K L. shd_at K (rn_sshader r) lv \<and> geo_at L (rn_geos r) K \<and> tex_at O' (rn_textures r) L" by blast
next
  assume "\<exists>K L. shd_at K (rn_sshader r) lv \<and> geo_at L (rn_geos r) K \<and> tex_at O' (rn_textures r) L"
  then obtain K L where k: "shd_at K (rn_sshader r) lv" "geo_at L (rn_geos r) K" and l: "tex_at O' (rn_textures r) L" by blast
  obtain K' where k': "geo_at K' (rn_geos r) lv" "shd_at L (rn_sshader r) K'" using shd_geo_swap [OF k] by blast
  then show "systems_at O' r lv" using shd_tex_swap [OF k'(2) l] by (auto simp: systems_at_def)
qed

lemma owner_new_ex:
  assumes "owner_inv valid owns n K m lv" and "x \<notin> lv"
  shows "owner_inv valid owns n (insert x K) m (insert x lv) \<and> x \<notin> K"
  using owner_inv_other_new [OF assms] owner_inv_total(1) [OF assms(1)] assms(2) by blast

lemma owner_gone_ex:
  assumes "owner_inv valid owns n K m lv" and "x \<in> K"
  shows "owner_inv valid owns n (K - {x}) m (lv - {x}) \<and> x \<in> lv"
  using owner_inv_other_gone [OF assms] by simp

lemma other_new:
  "geo_at K g lv \<Longrightarrow> x \<notin> lv \<Longrightarrow> geo_at (insert x K) g (insert x lv) \<and> x \<notin> K"
  "tex_at K ts lv \<Longrightarrow> x \<notin> lv \<Longrightarrow> tex_at (insert x K) ts (insert x lv) \<and> x \<notin> K"
  "shd_at K ss lv \<Longrightarrow> x \<notin> lv \<Longrightarrow> shd_at (insert x K) ss (insert x lv) \<and> x \<notin> K"
  unfolding geo_at_def tex_at_def shd_at_def by (rule owner_new_ex; assumption)+

lemma other_gone:
  "geo_at K g lv \<Longrightarrow> x \<in> K \<Longrightarrow> geo_at (K - {x}) g (lv - {x}) \<and> x \<in> lv"
  "tex_at K ts lv \<Longrightarrow> x \<in> K \<Longrightarrow> tex_at (K - {x}) ts (lv - {x}) \<and> x \<in> lv"
  "shd_at K ss lv \<Longrightarrow> x \<in> K \<Longrightarrow> shd_at (K - {x}) ss (lv - {x}) \<and> x \<in> lv"
  unfolding geo_at_def tex_at_def shd_at_def by (rule owner_gone_ex; assumption)+

lemma systems_at_new: "systems_at O' r lv \<Longrightarrow> x \<notin> lv \<Longrightarrow> systems_at (insert x O') r (insert x lv)"
  unfolding systems_at_def by (elim exE conjE) (meson other_new)

lemma systems_at_gone: "systems_at O' r lv \<Longrightarrow> x \<in> O' \<Longrightarrow> systems_at (O' - {x}) r (lv - {x}) \<and> x \<in> lv"
  unfolding systems_at_def by (elim exE conjE) (meson other_gone)

definition renderer_ok :: "'v gpu \<Rightarrow> ('v \<Rightarrow> gpu_object set) \<Rightarrow> ('v \<Rightarrow> u64 \<Rightarrow> nat) \<Rightarrow> u64 set \<Rightarrow> VD_Renderer \<Rightarrow> SVMA \<times> 'v \<Rightarrow> bool" where
  "renderer_ok k live ud bs r st \<longleftrightarrow> gpu_ok k live ud st \<and> systems_at (GAllocation ` bs) r (live (snd st))"

text \<open>What one system does to its own objects keeps the others.\<close>

lemma texture_step:
  assumes "renderer_ok k live ud bs r st"
    and "\<And>K. tex_at K (rn_textures r) (live (snd st)) \<Longrightarrow> gpu_ok k live ud st' \<and> tex_at K ts (live (snd st'))"
  shows "renderer_ok k live ud bs (r\<lparr>rn_textures := ts\<rparr>) st'"
proof -
  obtain K L where "tex_at K (rn_textures r) (live (snd st))" "geo_at L (rn_geos r) K" "shd_at (GAllocation ` bs) (rn_sshader r) L"
    using assms(1) by (auto simp: renderer_ok_def systems_at_tex)
  then show ?thesis using assms(2) by (auto simp: renderer_ok_def systems_at_tex)
qed

lemma mesh_step:
  assumes "renderer_ok k live ud bs r st"
    and "\<And>K. geo_at K (rn_geos r) (live (snd st)) \<Longrightarrow> gpu_ok k live ud st' \<and> geo_at K g (live (snd st'))"
  shows "renderer_ok k live ud bs (r\<lparr>rn_geos := g\<rparr>) st'"
proof -
  obtain K L where "geo_at K (rn_geos r) (live (snd st))" "tex_at L (rn_textures r) K" "shd_at (GAllocation ` bs) (rn_sshader r) L"
    using assms(1) by (auto simp: renderer_ok_def systems_at_def)
  then show ?thesis using assms(2) by (auto simp: renderer_ok_def systems_at_def)
qed

lemma shader_step:
  assumes "renderer_ok k live ud bs r st"
    and "\<And>K. shd_at K (rn_sshader r) (live (snd st)) \<Longrightarrow> gpu_ok k live ud st' \<and> shd_at K ss (live (snd st'))"
  shows "renderer_ok k live ud bs (r\<lparr>rn_sshader := ss\<rparr>) st'"
proof -
  obtain K L where "shd_at K (rn_sshader r) (live (snd st))" "geo_at L (rn_geos r) K" "tex_at (GAllocation ` bs) (rn_textures r) L"
    using assms(1) by (auto simp: renderer_ok_def systems_at_shd)
  then show ?thesis using assms(2) by (auto simp: renderer_ok_def systems_at_shd)
qed

lemma tex_drop:
  assumes "gpu_ok k live ud st" and "tex_at K ts (live (snd st))" and "hm_object (ts_image_handles ts) h s"
    and "drop_handle_with (free_texture k d) (ts_image_handles ts) h st = Some (h', m, st')"
  shows "gpu_ok k live ud st' \<and> tex_at K (ts\<lparr>ts_image_handles := m\<rparr>) (live (snd st'))"
  using tex.drop_object [of K "ts_image_handles ts" live st k ud h s d] assms by (auto simp: tex_at_def)

lemma geo_drop:
  assumes "gpu_ok k live ud st" and "geo_at K g (live (snd st))" and "hm_object (geo_meshes g) h s"
    and "drop_handle_with (free_geo k) (geo_meshes g) h st = Some (h', m, st')"
  shows "gpu_ok k live ud st' \<and> geo_at K (g\<lparr>geo_meshes := m\<rparr>) (live (snd st'))"
  using geo.drop_object [of K "geo_meshes g" live st k ud h s] assms by (auto simp: geo_at_def)

lemma shd_drop:
  assumes "gpu_ok k live ud (c, v)" and "shd_at K ss (live v)" and "hm_object (ss_shaders ss) h s"
    and "drop_handle_with (free_shader k d) (ss_shaders ss) h v = Some (h', m, v')"
  shows "gpu_ok k live ud (c, v') \<and> shd_at K (ss\<lparr>ss_shaders := m\<rparr>) (live v')"
  using shd.drop_object [of K "ss_shaders ss" live v k ud c h s d] assms by (auto simp: shd_at_def)

lemma drop_texture_ok:
  assumes "renderer_ok k live ud bs r st" and "hm_object (ts_image_handles (rn_textures r)) h s"
    and "drop_texture k r h st = Some (h', r', st')"
  shows "renderer_ok k live ud bs r' st'"
proof -
  obtain m where m: "drop_handle_with (free_texture k (ts_device (rn_textures r))) (ts_image_handles (rn_textures r)) h st = Some (h', m, st')"
    and r': "r' = r\<lparr>rn_textures := (rn_textures r)\<lparr>ts_image_handles := m\<rparr>\<rparr>"
    using assms(3) by (auto simp: drop_texture_def bind_Some_iff split: prod.splits)
  have "gpu_ok k live ud st" using assms(1) by (simp add: renderer_ok_def)
  then show ?thesis
    unfolding r' by (intro texture_step [OF assms(1)] tex_drop [OF _ _ assms(2) m])
qed

lemma drop_mesh_ok:
  assumes "renderer_ok k live ud bs r st" and "hm_object (geo_meshes (rn_geos r)) h s"
    and "drop_mesh k r h st = Some (h', r', st')"
  shows "renderer_ok k live ud bs r' st'"
proof -
  obtain m where m: "drop_handle_with (free_geo k) (geo_meshes (rn_geos r)) h st = Some (h', m, st')"
    and r': "r' = r\<lparr>rn_geos := (rn_geos r)\<lparr>geo_meshes := m\<rparr>\<rparr>"
    using assms(3) by (auto simp: drop_mesh_def bind_Some_iff split: prod.splits)
  have "gpu_ok k live ud st" using assms(1) by (simp add: renderer_ok_def)
  then show ?thesis
    unfolding r' by (intro mesh_step [OF assms(1)] geo_drop [OF _ _ assms(2) m])
qed

lemma drop_shader_ok:
  assumes "renderer_ok k live ud bs r st" and "hm_object (ss_shaders (rn_sshader r)) h s"
    and "drop_shader k r h st = Some (h', r', st')"
  shows "renderer_ok k live ud bs r' st'"
proof -
  obtain m v' where m: "drop_handle_with (free_shader k (ss_device (rn_sshader r))) (ss_shaders (rn_sshader r)) h (snd st) = Some (h', m, v')"
    and r': "r' = r\<lparr>rn_sshader := (rn_sshader r)\<lparr>ss_shaders := m\<rparr>\<rparr>" "st' = (fst st, v')"
    using assms(3) by (auto simp: drop_shader_def bind_Some_iff split: prod.splits)
  have "gpu_ok k live ud (fst st, snd st)" using assms(1) by (simp add: renderer_ok_def)
  then show ?thesis
    unfolding r' using shd_drop [OF _ _ assms(2) m, where c = "fst st"] by (intro shader_step [OF assms(1)]) simp
qed

lemma create_buffer_ok:
  assumes ok: "renderer_ok k live ud bs r st" and c: "vd_renderer_create_buffer k sz flags usage st = Some ((b, a), st')"
  shows "renderer_ok k live ud (insert a bs) r st'"
proof -
  have g: "gpu_ok k live ud st" using ok by (simp add: renderer_ok_def)
  note c = gpu_ok_create [OF g c [unfolded vd_renderer_create_buffer_def]]
  show ?thesis using ok c systems_at_new [of "GAllocation ` bs" r _ "GAllocation a"] by (simp add: renderer_ok_def)
qed

lemma destroy_buffer_ok:
  assumes ok: "renderer_ok k live ud bs r st" and "a \<in> bs" and "vd_renderer_destroy_buffer k (b, a) st = Some st'"
  shows "renderer_ok k live ud (bs - {a}) r st'"
proof -
  have gpu: "gpu_ok k live ud st" and sys: "systems_at (GAllocation ` bs) r (live (snd st))"
    using ok by (simp_all add: renderer_ok_def)
  have "GAllocation a \<in> GAllocation ` bs" using assms(2) by blast
  note g = systems_at_gone [OF sys this]
  obtain st1 where "svma_free_buffer k b a st = Some st1" "gpu_ok k live ud st1" "live (snd st1) = live (snd st) - {GAllocation a}"
    using gpu_ok_free [OF gpu conjunct2 [OF g], of b] by blast
  then have "gpu_ok k live ud st' \<and> live (snd st') = live (snd st) - {GAllocation a}"
    using assms(3) by (simp add: vd_renderer_destroy_buffer_def)
  moreover have "GAllocation ` (bs - {a}) = GAllocation ` bs - {GAllocation a}" by auto
  ultimately show ?thesis using g by (simp add: renderer_ok_def)
qed

lemma hm_object_all:
  assumes "owner_inv valid owns n L m lv" and "hm_object m h s"
  shows "owns (hs_value s) \<subseteq> lv - L"
proof -
  let ?i = "unat (vh_id h) - 1"
  have "owned owns m ?i = owns (hs_value s)" using assms(2) by (simp add: owned_def slot_owns_def hm_object_def)
  moreover have "?i < hm_arr_len m" by (rule hm_object_slot(1) [OF assms])
  ultimately have "owns (hs_value s) \<subseteq> owned_all owns m" by (auto simp: owned_all_def)
  then show ?thesis using owner_inv_total [OF assms(1)] by blast
qed

lemma renderer_run_ok:
  "renderer_run k vd_shdc_compile r0 st0 bs r st \<Longrightarrow> renderer_ok k live ud {} r0 st0 \<Longrightarrow> renderer_ok k live ud bs r st"
proof (induction rule: renderer_run.induct)
  case start
  then show ?case .
next
  case (create_texture bs r st info h r' st')
  then have ok: "renderer_ok k live ud bs r st" by simp
  then have "gpu_ok k live ud st" by (simp add: renderer_ok_def)
  then show ?case using create_texture(2,3) tex_new [of k live ud st _ "rn_textures r" info h _ st']
    by (auto simp: vd_renderer_create_texture_def bind_Some_iff intro!: texture_step [OF ok])
next
  case (create_mesh bs r st minfo h r' st')
  then have ok: "renderer_ok k live ud bs r st" by simp
  then have "gpu_ok k live ud st" by (simp add: renderer_ok_def)
  then show ?case using create_mesh(2,3) geo_new [of k live ud st _ "rn_geos r" minfo h _ st']
    by (auto simp: vd_renderer_create_mesh_def bind_Some_iff intro!: mesh_step [OF ok])
next
  case (create_shader bs r st sinfo h r' st')
  then have ok: "renderer_ok k live ud bs r st" by simp
  then have "gpu_ok k live ud (fst st, snd st)" by (simp add: renderer_ok_def)
  then show ?case using create_shader(2,3) shd_new [of k live ud "fst st" "snd st" _ "rn_sshader r" vd_shdc_compile sinfo h]
    by (auto simp: vd_renderer_create_shader_def bind_Some_iff intro!: shader_step [OF ok])
next
  case (resize_mesh bs r st h s minfo c g st')
  then have ok: "renderer_ok k live ud bs r st" by simp
  then have "gpu_ok k live ud st" by (simp add: renderer_ok_def)
  then show ?case using resize_mesh(2,3) geo_resize [of k live ud st _ "rn_geos r" h s minfo c g st']
    by (auto intro!: mesh_step [OF ok])
next
  case (copy_texture bs r st h s h' m)
  then have ok: "renderer_ok k live ud bs r st" by simp
  then have "gpu_ok k live ud st" by (simp add: renderer_ok_def)
  then show ?case using owner_copy [OF _ copy_texture(2,3)] copy_texture(4)
    by (fastforce simp: tex_at_def intro!: texture_step [OF ok])
next
  case (copy_mesh bs r st h s h' m)
  then have ok: "renderer_ok k live ud bs r st" by simp
  then have "gpu_ok k live ud st" by (simp add: renderer_ok_def)
  then show ?case using owner_copy [OF _ copy_mesh(2,3)] copy_mesh(4)
    by (fastforce simp: geo_at_def intro!: mesh_step [OF ok])
next
  case (copy_shader bs r st h s h' m)
  then have ok: "renderer_ok k live ud bs r st" by simp
  then have "gpu_ok k live ud st" by (simp add: renderer_ok_def)
  then show ?case using owner_copy [OF _ copy_shader(2,3)] copy_shader(4)
    by (fastforce simp: shd_at_def intro!: shader_step [OF ok])
next
  case (drop_texture bs r st h s h' r' st')
  then show ?case using drop_texture_ok by blast
next
  case (drop_mesh bs r st h s h' r' st')
  then show ?case using drop_mesh_ok by blast
next
  case (drop_shader bs r st h s h' r' st')
  then show ?case using drop_shader_ok by blast
next
  case (create_buffer bs r st sz flags usage b a st')
  then show ?case using create_buffer_ok by blast
next
  case (destroy_buffer bs r st a b st')
  then show ?case using destroy_buffer_ok by blast
qed

section \<open>The end of the renderer\<close>




lemma init_systems_ok:
  assumes "gpu_driver k live ud" and "live v = {}" and "sii_track info"
    and "svma_init k svma_create info v = Some (c, st0)" and "init_systems device = Some r0"
  shows "renderer_ok k live ud {} r0 st0"
proof -
  have st0: "svma_at live ud [] st0" "live (snd st0) = {}"
    using svma_init_at [OF assms(1) _ assms(3), of v c "fst st0" "snd st0"] assms(2,4) by simp_all
  obtain ts where ts: "vd_texture_system_init device = Some (0, ts)" "tex_at {} ts {}" using tex_init by blast
  obtain g where g: "vd_r_geo_system_init device = Some (0, g)" "geo_at {} g {}" using geo_init by blast
  obtain ss where ss: "vd_r_sshader_init device = Some (0, ss)" "shd_at {} ss {}" using shd_init by blast
  have "r0 = \<lparr>rn_textures = ts, rn_geos = g, rn_sshader = ss\<rparr>" using assms(5) ts(1) g(1) ss(1) by (simp add: init_systems_def)
  then show ?thesis using assms(1) st0 ts(2) g(2) ss(2) by (auto simp: renderer_ok_def systems_at_def gpu_ok_def)
qed

section \<open>A run on a device\<close>

definition demo_compile :: "u8 list \<Rightarrow> VD_SHDC_ShaderStage \<Rightarrow> u8 list option" where
  "demo_compile source stage = Some source"

definition demo_ti :: VD_R_TextureCreateInfo where
  "demo_ti = \<lparr>tci_extent = \<lparr>ext_width = 4, ext_height = 2, ext_depth = 1\<rparr>, tci_format = 37, tci_usage = 4, tci_mipmapping_on = False\<rparr>"

definition demo_mi :: VD_R_MeshCreateInfo where "demo_mi = \<lparr>mci_num_vertices = 4, mci_num_indices = 6\<rparr>"

definition demo_si :: GPUShaderCreateInfo where
  "demo_si = \<lparr>sci_stage = VK_SHADER_STAGE_VERTEX_BIT, sci_bytecode = [], sci_sourcecode = [7]\<rparr>"

lemma demo_create_image:
  assumes "svma_at demo_live demo_ud xs st" and "snd st = (n, ys, u)" and "GAllocation n \<notin> set ys"
  shows "\<exists>st' u'. svma_create_texture demo_gpu ii ai tr st = Some ((n, n), st') \<and> snd st' = (n + 1, GAllocation n # ys, u')"
proof -
  obtain own where own: "svma_inv demo_live demo_ud own (fst st) (snd st)" using assms(1) by (auto simp: svma_at_def)
  then have tr: "svma_track (fst st)" and h: "holds (svma_allocations (fst st)) [1..<Suc (length own)]"
    by (auto simp: svma_inv_def)
  obtain al where "array_add (svma_allocations (fst st)) (Suc (length (svma_entries (fst st)))) = Some al"
    using array_add_holds [OF h] by blast
  then show ?thesis
    using tr assms(2,3)
    by (cases st) (simp add: svma_create_texture_def track_allocation_def demo_gpu_def demo_new_def Let_def)
qed

lemma demo_texture:
  assumes ok: "gpu_ok demo_gpu demo_live demo_ud st" and v: "snd st = (n, ys, u)" "GAllocation n \<notin> set ys" "GView (n + 1) \<notin> set ys"
    and ts: "tex_at K ts (demo_live (snd st))" "hm_bytes 40 (length (hm_arr (ts_image_handles ts)) * 2) < 2 ^ 64"
  shows "\<exists>h ts' st' u' s. vd_texture_system_new demo_gpu ts demo_ti st = Some (h, ts', st') \<and>
    snd st' = (n + 2, GView (n + 1) # GAllocation n # ys, u') \<and> hm_object (ts_image_handles ts') h s"
proof -
  obtain xs where xs: "svma_at demo_live demo_ud xs st" using ok by (auto simp: gpu_ok_def)
  have mip: "texture_mip_levels demo_ti = Some 1" by (simp add: texture_mip_levels_def demo_ti_def)
  obtain s1 v1 u1 where c: "svma_create_texture demo_gpu
      \<lparr>ici_format = tci_format demo_ti, ici_extent = tci_extent demo_ti,
       ici_usage = tci_usage demo_ti OR VK_IMAGE_USAGE_TRANSFER_DST_BIT, ici_mipLevels = 1\<rparr>
      \<lparr>aci_usage = VMA_MEMORY_USAGE_GPU_ONLY, aci_flags = 0, aci_requiredFlags = VK_MEMORY_PROPERTY_DEVICE_LOCAL_BIT\<rparr>
      \<lparr>tr_file = ''texture_system.c'', tr_line = 51\<rparr> st = Some ((n, n), s1, v1)"
    and v1: "v1 = (n + 1, GAllocation n # ys, u1)"
    using demo_create_image [OF xs v(1,2)] by fastforce
  let ?v2 = "(n + 2, GView (n + 1) # GAllocation n # ys, u1)"
  have view: "vkCreateImageView demo_gpu d f i a v1 = (Some (n + 1), ?v2)" for d f i a
    using v(3) by (simp add: v1 demo_gpu_def demo_new_def)
  define t where "t = \<lparr>tex_image = n, tex_view = n + 1, tex_allocation = n, tex_extent = tci_extent demo_ti, tex_format = tci_format demo_ti\<rparr>"
  have ct: "create_texture demo_gpu ts demo_ti st = Some (t, s1, ?v2)"
    unfolding create_texture_def mip by (simp add: c view t_def)
  note cs = create_texture_spec [OF ok ct]
  obtain h m s where "vd_handlemap__register (ts_image_handles ts) (texture_bytes t) VD_HANDLEMAP_REF_MODE_COUNT = Some (h, m)"
    "hm_object m h s"
    using owner_register [of "\<lambda>_. True" texture_owns 40 K "ts_image_handles ts" "demo_live (snd st)" "texture_bytes t"] ts cs
    by (auto simp: tex_at_def)
  then show ?thesis using ct by (auto simp: vd_texture_system_new_def)
qed

lemma demo_mesh:
  assumes ok: "gpu_ok demo_gpu demo_live demo_ud st" and v: "snd st = (n, ys, u)" "GAllocation n \<notin> set ys" "GAllocation (n + 1) \<notin> set ys"
    and g: "geo_at K g (demo_live (snd st))" "hm_bytes 56 (length (hm_arr (geo_meshes g)) * 2) < 2 ^ 64"
  shows "\<exists>h g' st' u' s. vd_r_geo_system_new demo_gpu g demo_mi st = Some (h, g', st') \<and>
    snd st' = (n + 2, GAllocation (n + 1) # GAllocation n # ys, u') \<and> hm_object (geo_meshes g') h s"
proof -
  obtain xs where xs: "svma_at demo_live demo_ud xs st" using ok by (auto simp: gpu_ok_def)
  let ?ai = "\<lparr>aci_usage = VMA_MEMORY_USAGE_GPU_ONLY, aci_flags = VMA_ALLOCATION_CREATE_MAPPED_BIT, aci_requiredFlags = 0\<rparr>"
  let ?b1 = "\<lparr>bci_usage = VK_BUFFER_USAGE_INDEX_BUFFER_BIT OR VK_BUFFER_USAGE_TRANSFER_DST_BIT, bci_size = mci_num_indices demo_mi * 4\<rparr>"
  let ?b2 = "\<lparr>bci_usage = VK_BUFFER_USAGE_VERTEX_BUFFER_BIT OR VK_BUFFER_USAGE_TRANSFER_DST_BIT
      OR VK_BUFFER_USAGE_SHADER_DEVICE_ADDRESS_BIT, bci_size = mci_num_vertices demo_mi * 48\<rparr>"
  obtain st1 u1 where c1: "svma_create_buffer demo_gpu ?b1 ?ai \<lparr>tr_file = ''geo_system.c'', tr_line = 35\<rparr> st = Some ((n, n), st1)"
    "snd st1 = (n + 1, GAllocation n # ys, u1)"
    using demo_create [OF xs v(1,2)] by blast
  have xs1: "\<exists>xs. svma_at demo_live demo_ud xs st1" using gpu_ok_create [OF ok c1(1)] by (simp add: gpu_ok_def)
  have "GAllocation (n + 1) \<notin> set (GAllocation n # ys)" using v(3) by simp
  then obtain st2 u2 where c2: "svma_create_buffer demo_gpu ?b2 ?ai \<lparr>tr_file = ''geo_system.c'', tr_line = 54\<rparr> st1 = Some ((n + 1, n + 1), st2)"
    "snd st2 = (n + 1 + 1, GAllocation (n + 1) # GAllocation n # ys, u2)"
    using xs1 demo_create [OF _ c1(2)] by blast
  obtain mesh where cm: "create_buffers demo_gpu g demo_mi st = Some (mesh, st2)"
    using c1(1) c2(1) by (simp add: create_buffers_def)
  note cs = create_buffers_spec [OF ok cm]
  obtain h m s where "vd_handlemap__register (geo_meshes g) (mesh_bytes mesh) VD_HANDLEMAP_REF_MODE_COUNT = Some (h, m)"
    "hm_object m h s"
    using owner_register [of mesh_valid mesh_owns 56 K "geo_meshes g" "demo_live (snd st)" "mesh_bytes mesh"] g cs
    by (auto simp: geo_at_def)
  then show ?thesis using cm c2(2) by (auto simp: vd_r_geo_system_new_def)
qed

lemma demo_shader:
  assumes ok: "gpu_ok demo_gpu demo_live demo_ud (c, v)" and v: "v = (n, ys, u)" "GModule n \<notin> set ys"
    and s: "shd_at K ss (demo_live v)" "hm_bytes 16 (length (hm_arr (ss_shaders ss)) * 2) < 2 ^ 64"
  shows "\<exists>h ss' s. vd_r_sshader_new demo_gpu demo_compile ss demo_si v = Some (h, ss', (n + 1, GModule n # ys, u)) \<and>
    hm_object (ss_shaders ss') h s"
proof -
  let ?b = "shader_bytes \<lparr>gs_module = n, gs_stage = sci_stage demo_si\<rparr>"
  have "shader_owns ?b \<inter> demo_live v = {}" using v by (simp add: shader_owns_def demo_live_def)
  then obtain h m s where r: "vd_handlemap__register (ss_shaders ss) ?b VD_HANDLEMAP_REF_MODE_COUNT = Some (h, m)" "hm_object m h s"
    using owner_register [of "\<lambda>_. True" shader_owns 16 K "ss_shaders ss" "demo_live v" ?b] s by (auto simp: shd_at_def)
  have "vd_vk_create_shader_module demo_gpu d b v = (Some n, n + 1, GModule n # ys, u)" for d b
    using v by (simp add: demo_gpu_def demo_new_def)
  then have "vd_r_sshader_new demo_gpu demo_compile ss demo_si v = Some (h, ss\<lparr>ss_shaders := m\<rparr>, (n + 1, GModule n # ys, u))"
    using r(1) by (simp add: vd_r_sshader_new_def shader_bytecode_def demo_compile_def demo_si_def shader_stage_of_def)
  then show ?thesis using r(2) by auto
qed

lemma init_systems_bytes:
  assumes "init_systems device = Some r"
  shows "hm_bytes 40 (length (hm_arr (ts_image_handles (rn_textures r))) * 2) < 2 ^ 64"
    and "hm_bytes 56 (length (hm_arr (geo_meshes (rn_geos r))) * 2) < 2 ^ 64"
    and "hm_bytes 16 (length (hm_arr (ss_shaders (rn_sshader r))) * 2) < 2 ^ 64"
  using assms by (auto simp: init_systems_def vd_texture_system_init_def vd_r_geo_system_init_def vd_r_sshader_init_def
      vd_handlemap__init_def hm_bytes_def)

definition demo_info :: SVMAInitInfo where
  "demo_info = \<lparr>sii_instance = 0, sii_physical_device = 0, sii_device = 0, sii_track = True\<rparr>"

definition demo_v0 :: demo_gpu_state where "demo_v0 = (1, [], \<lambda>_. 0)"

text \<open>A texture, a mesh, a shader and a buffer.\<close>

lemma demo_scene:
  "\<exists>r0 st0 r st ht t hg m hs s. svma_init demo_gpu svma_create demo_info demo_v0 = Some (0, st0) \<and> init_systems 0 = Some r0 \<and>
     renderer_run demo_gpu demo_compile r0 st0 {6} r st \<and>
     hm_object (ts_image_handles (rn_textures r)) ht t \<and> hm_object (geo_meshes (rn_geos r)) hg m \<and>
     hm_object (ss_shaders (rn_sshader r)) hs s"
proof -
  obtain st0 where i: "svma_init demo_gpu svma_create demo_info demo_v0 = Some (0, st0)" "snd st0 = (1, [], \<lambda>_. 0)"
    by (simp add: svma_init_def svma_create_def demo_gpu_def demo_info_def demo_v0_def array_init_def vd_array_grow_def
        array_len_def array_cap_def Let_def)
  obtain r0 where r0: "init_systems 0 = Some r0"
    using tex_init [where device = 0 and lv = "{}"] geo_init [where device = 0 and lv = "{}"] shd_init [where device = 0 and lv = "{}"]
    by (auto simp: init_systems_def)
  note hb = init_systems_bytes [OF r0]
  have none: "demo_live demo_v0 = {}" by (simp add: demo_v0_def demo_live_def)
  note ok = renderer_run_ok [OF _ init_systems_ok [OF demo_gpu_driver none _ i(1) r0], unfolded demo_info_def, simplified]
  let ?run = "renderer_run demo_gpu demo_compile r0 st0"
  have run0: "?run {} r0 st0" by (rule renderer_run.start)
  obtain K0 where K0: "tex_at K0 (rn_textures r0) (demo_live (snd st0))"
    using ok [OF run0] by (auto simp: renderer_ok_def systems_at_tex)
  obtain ht ts st1 u1 t where c1: "vd_texture_system_new demo_gpu (rn_textures r0) demo_ti st0 = Some (ht, ts, st1)"
    "snd st1 = (1 + 2, [GView (1 + 1), GAllocation 1], u1)" "hm_object (ts_image_handles ts) ht t"
    using demo_texture [OF _ i(2) _ _ K0 hb(1)] ok [OF run0] by (auto simp: renderer_ok_def)
  let ?r1 = "r0\<lparr>rn_textures := ts\<rparr>"
  have run1: "?run {} ?r1 st1"
    using c1(1) hb(1) by (intro renderer_run.create_texture [OF run0, where info = demo_ti and h = ht]) (auto simp: vd_renderer_create_texture_def)
  obtain K1 where K1: "geo_at K1 (rn_geos ?r1) (demo_live (snd st1))"
    using ok [OF run1] by (auto simp: renderer_ok_def systems_at_def)
  obtain hg g st2 u2 m where c2: "vd_r_geo_system_new demo_gpu (rn_geos ?r1) demo_mi st1 = Some (hg, g, st2)"
    "snd st2 = (1 + 2 + 2, [GAllocation (1 + 2 + 1), GAllocation (1 + 2), GView (1 + 1), GAllocation 1], u2)"
    "hm_object (geo_meshes g) hg m"
    using demo_mesh [OF _ c1(2) _ _ K1] hb(2) ok [OF run1] by (auto simp: renderer_ok_def)
  let ?r2 = "?r1\<lparr>rn_geos := g\<rparr>"
  have run2: "?run {} ?r2 st2"
    using c2(1) hb(2) by (intro renderer_run.create_mesh [OF run1, where minfo = demo_mi and h = hg]) (auto simp: vd_renderer_create_mesh_def)
  obtain K2 where K2: "shd_at K2 (rn_sshader ?r2) (demo_live (snd st2))"
    using ok [OF run2] by (auto simp: renderer_ok_def systems_at_shd)
  let ?v3 = "(1 + 2 + 2 + 1, [GModule (1 + 2 + 2), GAllocation (1 + 2 + 1), GAllocation (1 + 2), GView (1 + 1), GAllocation 1], u2)"
  obtain hs ss s where c3: "vd_r_sshader_new demo_gpu demo_compile (rn_sshader ?r2) demo_si (snd st2) = Some (hs, ss, ?v3)"
    "hm_object (ss_shaders ss) hs s"
    using demo_shader [OF _ c2(2) _ K2, of "fst st2"] hb(3) ok [OF run2] by (auto simp: renderer_ok_def)
  let ?r3 = "?r2\<lparr>rn_sshader := ss\<rparr>" and ?st3 = "(fst st2, ?v3)"
  have run3: "?run {} ?r3 ?st3"
    using c3(1) hb(3) by (intro renderer_run.create_shader [OF run2, where sinfo = demo_si and h = hs]) (auto simp: vd_renderer_create_shader_def)
  obtain xs where "svma_at demo_live demo_ud xs ?st3" using ok [OF run3] by (auto simp: renderer_ok_def gpu_ok_def)
  from demo_create [OF this snd_conv] obtain st4 where
    "vd_renderer_create_buffer demo_gpu 64 16 3 ?st3 = Some ((6, 6), st4)"
    by (fastforce simp: vd_renderer_create_buffer_def)
  then have "?run {6} ?r3 st4" using renderer_run.create_buffer [OF run3] by blast
  then show ?thesis using i(1) r0 c1(3) c2(3) c3(2) by fastforce
qed



text \<open>C9. Every object that a handle of a client leads to exists on the device, and no two systems share one:
  the buffers of a mesh, the image and the view of a texture and the module of a shader live at least as long
  as their handles.\<close>

theorem renderer_objects_alive:
  assumes "gpu_driver k live ud" and "live v = {}" and "sii_track info"
    and "svma_init k svma_create info v = Some (c, st0)" and "init_systems device = Some r0"
    and "renderer_run k vd_shdc_compile r0 st0 bs r st"
    and "hm_object (ts_image_handles (rn_textures r)) ht t" and "hm_object (geo_meshes (rn_geos r)) hg m"
    and "hm_object (ss_shaders (rn_sshader r)) hs s"
  shows "texture_owns (hs_value t) \<union> mesh_owns (hs_value m) \<union> shader_owns (hs_value s) \<union> GAllocation ` bs \<subseteq> live (snd st)
    \<and> texture_owns (hs_value t) \<inter> mesh_owns (hs_value m) = {}
    \<and> (texture_owns (hs_value t) \<union> mesh_owns (hs_value m)) \<inter> GAllocation ` bs = {}"
proof -
  have ok: "renderer_ok k live ud bs r st"
    by (rule renderer_run_ok [OF assms(6) init_systems_ok [OF assms(1-5)]])
  obtain K L where g: "owner_inv mesh_valid mesh_owns 56 K (geo_meshes (rn_geos r)) (live (snd st))"
    and x: "owner_inv (\<lambda>_. True) texture_owns 40 L (ts_image_handles (rn_textures r)) K"
    and d: "owner_inv (\<lambda>_. True) shader_owns 16 (GAllocation ` bs) (ss_shaders (rn_sshader r)) L"
    using ok by (auto simp: renderer_ok_def systems_at_def geo_at_def tex_at_def shd_at_def)
  have o: "mesh_owns (hs_value m) \<subseteq> live (snd st) - K" "texture_owns (hs_value t) \<subseteq> K - L" "shader_owns (hs_value s) \<subseteq> L - GAllocation ` bs"
    using hm_object_all [OF g assms(8)] hm_object_all [OF x assms(7)] hm_object_all [OF d assms(9)] by simp_all
  have "K \<subseteq> live (snd st)" "L \<subseteq> K" "GAllocation ` bs \<subseteq> L"
    using owner_inv_total(1) [OF g] owner_inv_total(1) [OF x] owner_inv_total(1) [OF d] by blast+
  then show ?thesis using o by blast
qed

theorem renderer_objects_alive_witness:
  "\<exists>r0 st0 r st ht t. svma_init demo_gpu svma_create demo_info demo_v0 = Some (0, st0) \<and> init_systems 0 = Some r0 \<and>
     renderer_run demo_gpu demo_compile r0 st0 {6} r st \<and> hm_object (ts_image_handles (rn_textures r)) ht t \<and>
     texture_owns (hs_value t) \<subseteq> demo_live (snd st)"
proof -
  obtain r0 st0 r st ht t hg m hs s where i: "svma_init demo_gpu svma_create demo_info demo_v0 = Some (0, st0)" "init_systems 0 = Some r0"
    "renderer_run demo_gpu demo_compile r0 st0 {6} r st" "hm_object (ts_image_handles (rn_textures r)) ht t"
    "hm_object (geo_meshes (rn_geos r)) hg m" "hm_object (ss_shaders (rn_sshader r)) hs s"
    using demo_scene by blast
  have v: "demo_live demo_v0 = {}" "sii_track demo_info" by (simp_all add: demo_v0_def demo_live_def demo_info_def)
  have "texture_owns (hs_value t) \<subseteq> demo_live (snd st)" using renderer_objects_alive [OF demo_gpu_driver v i] by simp
  with i(1-4) show ?thesis by metis
qed

end
