(* ===== verification/Smat.thy ===== *)
theory Smat
  imports Resources
begin

text \<open>
  Materials: ng/src/r/smat.c. A blueprint is a pipeline with its layouts and the properties that its materials
  have; a material refers to its blueprint and has a uniform buffer for every property that is a structure.
  Both are kept in counted handle maps.

  The data of a structure are blocks of the memory of the program, numbered from 1. The calls of Vulkan for
  layouts, samplers and pipelines are a second parameter (\<open>mat_gpu\<close>), on the same state of the device.
\<close>

section \<open>Properties\<close>

datatype BindingType = BINDING_TYPE_INVALID | BINDING_TYPE_SAMPLER2D | BINDING_TYPE_STRUCT

record BindingInfo =
  bi_type :: BindingType
  bi_struct_size :: u64

text \<open>The union of a property is two words: a pointer in the first one, or a handle.\<close>

record MaterialProperty =
  mp_binding :: BindingInfo
  mp_word0 :: u64
  mp_word1 :: u64

definition mp_pstruct :: "MaterialProperty \<Rightarrow> u64" where "mp_pstruct p = mp_word0 p"

definition mp_sampler2d :: "MaterialProperty \<Rightarrow> vd_handle" where
  "mp_sampler2d p = \<lparr>vh_id = mp_word0 p, vh_map = (mp_word1 p \<noteq> 0)\<rparr>"

record PushConstantInfo =
  pc_type :: u32
  pc_size :: u64
  pc_stage :: u32

definition VK_DESCRIPTOR_TYPE_COMBINED_IMAGE_SAMPLER :: u32 where "VK_DESCRIPTOR_TYPE_COMBINED_IMAGE_SAMPLER = 1"
definition VK_DESCRIPTOR_TYPE_UNIFORM_BUFFER :: u32 where "VK_DESCRIPTOR_TYPE_UNIFORM_BUFFER = 6"

fun binding_type_to_vk_descriptor_type :: "BindingType \<Rightarrow> u32" where
  "binding_type_to_vk_descriptor_type BINDING_TYPE_INVALID = 0"
| "binding_type_to_vk_descriptor_type BINDING_TYPE_SAMPLER2D = VK_DESCRIPTOR_TYPE_COMBINED_IMAGE_SAMPLER"
| "binding_type_to_vk_descriptor_type BINDING_TYPE_STRUCT = VK_DESCRIPTOR_TYPE_UNIFORM_BUFFER"

definition SHADER_STAGE_VERT_BIT :: u32 where "SHADER_STAGE_VERT_BIT = 1"
definition SHADER_STAGE_FRAG_BIT :: u32 where "SHADER_STAGE_FRAG_BIT = 2"
definition SHADER_STAGE_COMP_BIT :: u32 where "SHADER_STAGE_COMP_BIT = 2"
definition VK_SHADER_STAGE_COMPUTE_BIT :: u32 where "VK_SHADER_STAGE_COMPUTE_BIT = 0x20"

definition vd_shader_stage_to_vk_shader_stage :: "u32 \<Rightarrow> u32" where
  "vd_shader_stage_to_vk_shader_stage stage =
     (let r0 = 0;
          r1 = (if stage AND SHADER_STAGE_VERT_BIT \<noteq> 0 then r0 OR VK_SHADER_STAGE_VERTEX_BIT else r0);
          r2 = (if stage AND SHADER_STAGE_FRAG_BIT \<noteq> 0 then r1 OR VK_SHADER_STAGE_FRAGMENT_BIT else r1);
          r3 = (if stage AND SHADER_STAGE_COMP_BIT \<noteq> 0 then r2 OR VK_SHADER_STAGE_COMPUTE_BIT else r2)
      in r3)"

text \<open>
  The blocks of the program, the pointer to the next one, and the copy of the properties. \<open>memcpy\<close> from a null
  pointer is not defined.
\<close>

type_synonym blocks = "u8 list list"

definition block_new :: "u8 list \<Rightarrow> blocks \<Rightarrow> u64 \<times> blocks" where
  "block_new bytes h = (of_nat (Suc (length h)), h @ [bytes])"

fun copy_properties :: "MaterialProperty list \<Rightarrow> blocks \<Rightarrow> (MaterialProperty list \<times> blocks) option" where
  "copy_properties [] h = Some ([], h)"
| "copy_properties (p # ps) h =
     do { (d, h') \<leftarrow>
            (if bi_type (mp_binding p) = BINDING_TYPE_STRUCT then
               (if mp_pstruct p = 0 then None
                else let (ptr, h') = block_new (replicate (unat (bi_struct_size (mp_binding p))) 0) h
                     in Some (p\<lparr>mp_word0 := ptr\<rparr>, h'))
             else Some (p, h));
          (ds, h'') \<leftarrow> copy_properties ps h';
          Some (d # ds, h'') }"

text \<open>The destination has room for eight properties.\<close>

definition alloc_copy_or_zero_properties ::
  "MaterialProperty list \<Rightarrow> nat \<Rightarrow> blocks \<Rightarrow> (MaterialProperty list \<times> blocks) option" where
  "alloc_copy_or_zero_properties src num_src h =
     (if num_src \<le> length src \<and> num_src \<le> 8 then copy_properties (take num_src src) h else None)"

section \<open>Objects\<close>

record GPUMaterialBlueprint =
  mb_pipeline :: u64
  mb_layout :: u64
  mb_property_layout :: u64
  mb_properties :: "MaterialProperty list"
  mb_push_constant_info :: PushConstantInfo

text \<open>\<open>gm_properties\<close> are the properties of the blueprint; the rest of the array is zero.\<close>

record GPUMaterial =
  ma_blueprint :: vd_handle
  ma_num_buffers :: u32
  ma_buffers :: "(u64 \<times> u64) list"
  ma_properties :: "MaterialProperty list"

definition type_word :: "BindingType \<Rightarrow> u64" where
  "type_word t = (case t of BINDING_TYPE_INVALID \<Rightarrow> 0 | BINDING_TYPE_SAMPLER2D \<Rightarrow> 1 | BINDING_TYPE_STRUCT \<Rightarrow> 2)"

definition word_type :: "u64 \<Rightarrow> BindingType" where
  "word_type w = (if w = 1 then BINDING_TYPE_SAMPLER2D else if w = 2 then BINDING_TYPE_STRUCT else BINDING_TYPE_INVALID)"

definition property_words :: "MaterialProperty \<Rightarrow> u64 list" where
  "property_words p = [type_word (bi_type (mp_binding p)), bi_struct_size (mp_binding p), mp_word0 p, mp_word1 p]"

text \<open>Eight properties in memory, of which the first ones are used.\<close>

definition properties_words :: "MaterialProperty list \<Rightarrow> u64 list" where
  "properties_words ps = take 32 (concat (map property_words ps) @ replicate 32 0)"

fun words_properties :: "nat \<Rightarrow> u64 list \<Rightarrow> MaterialProperty list" where
  "words_properties (Suc n) (t # z # a # b # ws) =
     \<lparr>mp_binding = \<lparr>bi_type = word_type t, bi_struct_size = z\<rparr>, mp_word0 = a, mp_word1 = b\<rparr> # words_properties n ws"
| "words_properties _ _ = []"

definition blueprint_bytes :: "GPUMaterialBlueprint \<Rightarrow> u8 list" where
  "blueprint_bytes b = (let pc = mb_push_constant_info b in
     words_bytes ([mb_pipeline b, mb_layout b, mb_property_layout b, of_nat (length (mb_properties b))]
       @ properties_words (mb_properties b) @ [ucast (pc_type pc), pc_size pc, ucast (pc_stage pc)]))"

definition blueprint_at :: "u8 list \<Rightarrow> GPUMaterialBlueprint" where
  "blueprint_at bytes = (let w = bytes_words bytes in
     \<lparr>mb_pipeline = w ! 0, mb_layout = w ! 1, mb_property_layout = w ! 2,
      mb_properties = words_properties (unat (w ! 3)) (take 32 (drop 4 w)),
      mb_push_constant_info = \<lparr>pc_type = ucast (w ! 36), pc_size = w ! 37, pc_stage = ucast (w ! 38)\<rparr>\<rparr>)"

definition material_bytes :: "GPUMaterial \<Rightarrow> u8 list" where
  "material_bytes m =
     words_bytes ([vh_id (ma_blueprint m), if vh_map (ma_blueprint m) then 1 else 0, ucast (ma_num_buffers m)]
       @ concat (map (\<lambda>(b, a). [b, a]) (ma_buffers m)) @ properties_words (ma_properties m))"

definition material_at :: "u8 list \<Rightarrow> GPUMaterial" where
  "material_at bytes = (let w = bytes_words bytes in
     \<lparr>ma_blueprint = \<lparr>vh_id = w ! 0, vh_map = (w ! 1 \<noteq> 0)\<rparr>, ma_num_buffers = ucast (w ! 2),
      ma_buffers = [(w ! 3, w ! 4), (w ! 5, w ! 6), (w ! 7, w ! 8)], ma_properties = words_properties 8 (take 32 (drop 9 w))\<rparr>)"

section \<open>The device\<close>

record PipelineStage =
  pst_module :: u64
  pst_stage :: u32

record VD_VK_PipelineBuildInfo =
  pbi_layout :: u64
  pbi_blend_on :: bool
  pbi_stages :: "PipelineStage list"
  pbi_topology :: u32
  pbi_cull_mode :: u32
  pbi_front_face :: u32
  pbi_depth_test :: "bool \<times> bool \<times> u32"
  pbi_multisample_on :: bool
  pbi_polygon_mode :: u32
  pbi_color_format :: u32
  pbi_depth_format :: u32

text \<open>A binding of a set layout is its number and its type, a range of push constants its stages and size.\<close>

record 'v mat_gpu =
  vkCreateDescriptorSetLayout :: "u64 \<Rightarrow> (u32 \<times> u32) list \<Rightarrow> 'v \<Rightarrow> u64 option \<times> 'v"
  vkDestroyDescriptorSetLayout :: "u64 \<Rightarrow> u64 \<Rightarrow> 'v \<Rightarrow> 'v"
  vkCreateSampler :: "u64 \<Rightarrow> 'v \<Rightarrow> u64 option \<times> 'v"
  vkDestroySampler :: "u64 \<Rightarrow> u64 \<Rightarrow> 'v \<Rightarrow> 'v"
  vkCreatePipelineLayout :: "u64 \<Rightarrow> u64 list \<Rightarrow> u32 \<times> u64 \<Rightarrow> 'v \<Rightarrow> u64 option \<times> 'v"
  vkDestroyPipelineLayout :: "u64 \<Rightarrow> u64 \<Rightarrow> 'v \<Rightarrow> 'v"
  vd_vk_build_pipeline :: "u64 \<Rightarrow> VD_VK_PipelineBuildInfo \<Rightarrow> 'v \<Rightarrow> u64 option \<times> 'v"
  vkDestroyPipeline :: "u64 \<Rightarrow> u64 \<Rightarrow> 'v \<Rightarrow> 'v"

text \<open>\<open>VD_VK_CHECK\<close>: a call that fails ends the program.\<close>

definition vk_check :: "u64 option \<times> 'v \<Rightarrow> (u64 \<times> 'v) option" where
  "vk_check r = (case r of (None, _) \<Rightarrow> None | (Some x, v) \<Rightarrow> Some (x, v))"

section \<open>Operations\<close>

record SMat =
  sm_materials :: vd_handlemap
  sm_blueprints :: vd_handlemap
  sm_device :: u64
  sm_set0_layout :: u64
  sm_set0_buffers :: "(u64 \<times> u64) list"
  sm_num_set0_buffers :: u32
  sm_linear :: u64
  sm_color_format :: u32
  sm_depth_format :: u32
  sm_default_push_constant :: PushConstantInfo

record SMatInitInfo =
  smi_device :: u64
  smi_set0_bindings :: "BindingInfo list"
  smi_default_push_constant :: PushConstantInfo
  smi_color_format :: u32
  smi_depth_format :: u32

text \<open>A uniform buffer for every structure; \<open>buffer_index\<close> stays 0, so each is stored in the first place.\<close>

fun uniform_buffers ::
  "'v gpu \<Rightarrow> nat \<Rightarrow> BindingInfo list \<Rightarrow> (u64 \<times> u64) list \<Rightarrow> SVMA \<times> 'v \<Rightarrow> ((u64 \<times> u64) list \<times> SVMA \<times> 'v) option" where
  "uniform_buffers k line [] buffers st = Some (buffers, st)"
| "uniform_buffers k line (b # bs) buffers st =
     (if bi_type b \<noteq> BINDING_TYPE_STRUCT then uniform_buffers k line bs buffers st
      else do { (buffer, st') \<leftarrow> svma_create_buffer k
                  \<lparr>bci_usage = VK_BUFFER_USAGE_UNIFORM_BUFFER_BIT, bci_size = bi_struct_size b\<rparr>
                  \<lparr>aci_usage = VMA_MEMORY_USAGE_CPU_TO_GPU, aci_flags = VMA_ALLOCATION_CREATE_MAPPED_BIT, aci_requiredFlags = 0\<rparr>
                  \<lparr>tr_file = ''smat.c'', tr_line = line\<rparr> st;
                uniform_buffers k line bs (buffers[0 := buffer]) st' })"

definition smat_init ::
  "'v gpu \<Rightarrow> 'v mat_gpu \<Rightarrow> SMatInitInfo \<Rightarrow> SVMA \<times> 'v \<Rightarrow> (int \<times> SMat \<times> SVMA \<times> 'v) option" where
  "smat_init k mk info st0 =
     (let (c, v0) = st0; device = smi_device info in
      do { (set0_layout, v1) \<leftarrow> vk_check (vkCreateDescriptorSetLayout mk device
             (map (\<lambda>b. (0, binding_type_to_vk_descriptor_type (bi_type b))) (smi_set0_bindings info)) v0);
           (linear, v2) \<leftarrow> vk_check (vkCreateSampler mk device v1);
           (buffers, st3) \<leftarrow> uniform_buffers k 76 (smi_set0_bindings info) [(0, 0), (0, 0), (0, 0)] (c, v2);
           materials \<leftarrow> vd_handlemap__init 328 64;
           blueprints \<leftarrow> vd_handlemap__init 312 64;
           Some (0, \<lparr>sm_materials = materials, sm_blueprints = blueprints, sm_device = device, sm_set0_layout = set0_layout,
             sm_set0_buffers = buffers, sm_num_set0_buffers = 1, sm_linear = linear,
             sm_color_format = smi_color_format info, sm_depth_format = smi_depth_format info,
             sm_default_push_constant = smi_default_push_constant info\<rparr>, st3) })"

definition smat_new_from_blueprint ::
  "'v gpu \<Rightarrow> SMat \<Rightarrow> vd_handle \<Rightarrow> blocks \<Rightarrow> SVMA \<times> 'v \<Rightarrow> (vd_handle \<times> SMat \<times> blocks \<times> SVMA \<times> 'v) option" where
  "smat_new_from_blueprint k s b h st =
     do { slot \<leftarrow> vd_handle_use (sm_blueprints s) b;
          i \<leftarrow> slot;
          o' \<leftarrow> hm_metadata (sm_blueprints s) i;
          let blueprint = blueprint_at (hs_value o');
          (copy, blueprints) \<leftarrow> vd_handlemap_copy (sm_blueprints s) b;
          (properties, h') \<leftarrow> alloc_copy_or_zero_properties (mb_properties blueprint) (length (mb_properties blueprint)) h;
          (buffers, st') \<leftarrow> uniform_buffers k 158 (map mp_binding (mb_properties blueprint)) [(0, 0), (0, 0), (0, 0)] st;
          (hnd, materials) \<leftarrow> vd_handlemap__register (sm_materials s)
            (material_bytes \<lparr>ma_blueprint = copy, ma_num_buffers = 0, ma_buffers = buffers, ma_properties = properties\<rparr>)
            VD_HANDLEMAP_REF_MODE_COUNT;
          Some (hnd, s\<lparr>sm_materials := materials, sm_blueprints := blueprints\<rparr>, h', st') }"

record MaterialBlueprint =
  bp_shaders :: "vd_handle list"
  bp_topology :: u32
  bp_polygon_mode :: u32
  bp_cull_mode :: u32
  bp_cull_face :: u32
  bp_push_constant_custom :: bool
  bp_push_constant_info :: PushConstantInfo
  bp_multisample_on :: bool
  bp_blend_on :: bool
  bp_depth_test :: "bool \<times> bool \<times> u32"
  bp_num_properties :: nat
  bp_properties :: "MaterialProperty list"

text \<open>The stages of a pipeline, from the handles of shaders.\<close>

fun shader_stages :: "vd_handlemap \<Rightarrow> vd_handle list \<Rightarrow> PipelineStage list option" where
  "shader_stages shaders [] = Some []"
| "shader_stages shaders (h # hs) =
     do { slot \<leftarrow> vd_handle_use shaders h;
          i \<leftarrow> slot;
          s \<leftarrow> hm_metadata shaders i;
          rest \<leftarrow> shader_stages shaders hs;
          let g = shader_at (hs_value s);
          Some (\<lparr>pst_module = gs_module g, pst_stage = gs_stage g\<rparr> # rest) }"

definition smat_new_blueprint ::
  "'v mat_gpu \<Rightarrow> vd_handlemap \<Rightarrow> SMat \<Rightarrow> MaterialBlueprint \<Rightarrow> blocks \<Rightarrow> 'v \<Rightarrow> (vd_handle \<times> SMat \<times> blocks \<times> 'v) option" where
  "smat_new_blueprint mk shaders s b h v =
     (let pc = (if bp_push_constant_custom b then bp_push_constant_info b else sm_default_push_constant s) in
      do { (properties, h') \<leftarrow> alloc_copy_or_zero_properties (bp_properties b) (bp_num_properties b) h;
           let bindings = map (\<lambda>p. (0, binding_type_to_vk_descriptor_type (bi_type (mp_binding p))))
                            (take (bp_num_properties b) (bp_properties b));
           (property_layout, v1) \<leftarrow> vk_check (vkCreateDescriptorSetLayout mk (sm_device s) bindings v);
           (layout, v2) \<leftarrow> vk_check (vkCreatePipelineLayout mk (sm_device s) [sm_set0_layout s, property_layout]
             (vd_shader_stage_to_vk_shader_stage (pc_stage pc), pc_size pc) v1);
           stages \<leftarrow> shader_stages shaders (bp_shaders b);
           (pipeline, v3) \<leftarrow> vk_check (vd_vk_build_pipeline mk (sm_device s)
             \<lparr>pbi_layout = layout, pbi_blend_on = bp_blend_on b, pbi_stages = stages, pbi_topology = bp_topology b,
              pbi_cull_mode = bp_cull_mode b, pbi_front_face = bp_cull_face b, pbi_depth_test = bp_depth_test b,
              pbi_multisample_on = bp_multisample_on b, pbi_polygon_mode = bp_polygon_mode b,
              pbi_color_format = sm_color_format s, pbi_depth_format = sm_depth_format s\<rparr> v2);
           (hnd, blueprints) \<leftarrow> vd_handlemap__register (sm_blueprints s)
             (blueprint_bytes \<lparr>mb_pipeline = pipeline, mb_layout = layout, mb_property_layout = property_layout,
                mb_properties = properties, mb_push_constant_info = pc\<rparr>) VD_HANDLEMAP_REF_MODE_COUNT;
           Some (hnd, s\<lparr>sm_blueprints := blueprints\<rparr>, h', v3) })"

definition free_material_blueprint :: "'v mat_gpu \<Rightarrow> u64 \<Rightarrow> u8 list \<Rightarrow> 'v \<Rightarrow> (u8 list \<times> 'v) option" where
  "free_material_blueprint mk device object v =
     (let b = blueprint_at object;
          v1 = vkDestroyDescriptorSetLayout mk device (mb_property_layout b) v;
          v2 = vkDestroyPipeline mk device (mb_pipeline b) v1 in
      Some (object, vkDestroyPipelineLayout mk device (mb_layout b) v2))"

fun free_buffers :: "'v gpu \<Rightarrow> (u64 \<times> u64) list \<Rightarrow> SVMA \<times> 'v \<Rightarrow> (SVMA \<times> 'v) option" where
  "free_buffers k [] st = Some st"
| "free_buffers k (b # bs) st = do { st' \<leftarrow> svma_free_buffer k (fst b) (snd b) st; free_buffers k bs st' }"

text \<open>\<open>DROP_HANDLE\<close> of a blueprint, and the function on the last drop of a material, which drops its blueprint:
  the handle in the object is cleared.\<close>

definition drop_blueprint ::
  "'v mat_gpu \<Rightarrow> u64 \<Rightarrow> vd_handle \<Rightarrow> vd_handlemap \<times> SVMA \<times> 'v \<Rightarrow> (vd_handle \<times> vd_handlemap \<times> SVMA \<times> 'v) option" where
  "drop_blueprint mk device b r =
     (let (blueprints, c, v) = r in
      do { (b', blueprints', v') \<leftarrow> drop_handle_with (free_material_blueprint mk device) blueprints b v;
           Some (b', blueprints', c, v') })"

definition free_material ::
  "'v gpu \<Rightarrow> 'v mat_gpu \<Rightarrow> u64 \<Rightarrow> u8 list \<Rightarrow> vd_handlemap \<times> SVMA \<times> 'v \<Rightarrow> (u8 list \<times> vd_handlemap \<times> SVMA \<times> 'v) option" where
  "free_material k mk device object r =
     (let material = material_at object; (blueprints, st) = r in
      if unat (ma_num_buffers material) \<le> 3 then
        do { st' \<leftarrow> free_buffers k (take (unat (ma_num_buffers material)) (ma_buffers material)) st;
             (b', r') \<leftarrow> drop_blueprint mk device (ma_blueprint material) (blueprints, st');
             Some (material_bytes (material\<lparr>ma_blueprint := b'\<rparr>), r') }
      else None)"

definition drop_material ::
  "'v gpu \<Rightarrow> 'v mat_gpu \<Rightarrow> SMat \<Rightarrow> vd_handle \<Rightarrow> SVMA \<times> 'v \<Rightarrow> (vd_handle \<times> SMat \<times> SVMA \<times> 'v) option" where
  "drop_material k mk s h st =
     do { (h', materials, blueprints, st') \<leftarrow> drop_handle_with (free_material k mk (sm_device s)) (sm_materials s) h (sm_blueprints s, st);
          Some (h', s\<lparr>sm_materials := materials, sm_blueprints := blueprints\<rparr>, st') }"

definition smat_deinit :: "'v gpu \<Rightarrow> 'v mat_gpu \<Rightarrow> SMat \<Rightarrow> SVMA \<times> 'v \<Rightarrow> (SVMA \<times> 'v) option" where
  "smat_deinit k mk s st =
     (if unat (sm_num_set0_buffers s) \<le> 3 then
        do { (c, v1) \<leftarrow> free_buffers k (take (unat (sm_num_set0_buffers s)) (sm_set0_buffers s)) st;
             let v2 = vkDestroyDescriptorSetLayout mk (sm_device s) (sm_set0_layout s) v1;
             let v3 = vkDestroySampler mk (sm_device s) (sm_linear s) v2;
             (blueprints, c', v4) \<leftarrow> handlemap_deinit_with (free_material k mk (sm_device s)) (sm_materials s) (sm_blueprints s, c, v3);
             v5 \<leftarrow> handlemap_deinit_with (free_material_blueprint mk (sm_device s)) blueprints v4;
             Some (c', v5) }
      else None)"

section \<open>Objects in memory\<close>

lemma properties_words_length [simp]: "length (properties_words ps) = 32"
  by (simp add: properties_words_def)

lemma word_type_word [simp]: "word_type (type_word t) = t"
  by (cases t) (simp_all add: type_word_def word_type_def)

lemma words_properties_words: "words_properties (length ps) (concat (map property_words ps) @ ws) = ps"
  by (induction ps) (simp_all add: property_words_def)

lemma property_words_length: "length (concat (map property_words ps)) = 4 * length ps"
  by (induction ps) (simp_all add: property_words_def)

lemma words_properties_take: "length ps \<le> 8 \<Longrightarrow> words_properties (length ps) (properties_words ps) = ps"
  by (simp add: properties_words_def property_words_length words_properties_words)

lemma blueprint_at_bytes:
  assumes "length (mb_properties b) \<le> 8"
  shows "mb_pipeline (blueprint_at (blueprint_bytes b)) = mb_pipeline b"
    and "mb_layout (blueprint_at (blueprint_bytes b)) = mb_layout b"
    and "mb_property_layout (blueprint_at (blueprint_bytes b)) = mb_property_layout b"
    and "mb_properties (blueprint_at (blueprint_bytes b)) = mb_properties b"
  using assms words_properties_take [OF assms]
  by (simp_all add: blueprint_at_def blueprint_bytes_def Let_def unat_of_nat_lt)

lemma blueprint_bytes_length [simp]: "length (blueprint_bytes b) = 312"
  by (simp add: blueprint_bytes_def Let_def)

lemma ucast_64_32 [simp]: "ucast (ucast (w :: u32) :: u64) = w"
  by (rule bit_word_eqI) (auto simp: bit_simps dest: bit_imp_le_length)

lemma material_at_bytes:
  assumes "length (ma_buffers m) = 3"
  shows "ma_blueprint (material_at (material_bytes m)) = ma_blueprint m"
    and "ma_num_buffers (material_at (material_bytes m)) = ma_num_buffers m"
  by (simp_all add: material_at_def material_bytes_def Let_def)

lemma material_bytes_length: "length (ma_buffers m) = 3 \<Longrightarrow> length (material_bytes m) = 328"
  by (auto simp: material_bytes_def length_Suc_conv numeral_3_eq_3)

lemma material_at_buffers [simp]: "length (ma_buffers (material_at b)) = 3"
  by (simp add: material_at_def Let_def)

text \<open>What the copy of the properties does: it is defined when no structure lacks its data, and then every
  structure of the copy is a new block of zeros, whatever the data were.\<close>

lemma copy_properties_spec:
  "copy_properties ps h = Some (ds, h') \<Longrightarrow> map mp_binding ds = map mp_binding ps"
  by (induction ps arbitrary: h ds h') (auto simp: bind_Some_iff block_new_def split: if_splits)

section \<open>What the code relies on\<close>

definition mat_driver :: "'v mat_gpu \<Rightarrow> ('v \<Rightarrow> gpu_object set) \<Rightarrow> ('v \<Rightarrow> u64 \<Rightarrow> nat) \<Rightarrow> bool" where
  "mat_driver mk live ud \<longleftrightarrow>
     (\<forall>d bs v x v'. vkCreateDescriptorSetLayout mk d bs v = (Some x, v') \<longrightarrow> gpu_creates live ud v (GSetLayout x) v') \<and>
     (\<forall>d x v. GSetLayout x \<in> live v \<longrightarrow> gpu_destroys live ud v (GSetLayout x) (vkDestroyDescriptorSetLayout mk d x v)) \<and>
     (\<forall>d v x v'. vkCreateSampler mk d v = (Some x, v') \<longrightarrow> gpu_creates live ud v (GSampler x) v') \<and>
     (\<forall>d x v. GSampler x \<in> live v \<longrightarrow> gpu_destroys live ud v (GSampler x) (vkDestroySampler mk d x v)) \<and>
     (\<forall>d ls r v x v'. vkCreatePipelineLayout mk d ls r v = (Some x, v') \<longrightarrow> gpu_creates live ud v (GPipelineLayout x) v') \<and>
     (\<forall>d x v. GPipelineLayout x \<in> live v \<longrightarrow> gpu_destroys live ud v (GPipelineLayout x) (vkDestroyPipelineLayout mk d x v)) \<and>
     (\<forall>d i v x v'. vd_vk_build_pipeline mk d i v = (Some x, v') \<longrightarrow> gpu_creates live ud v (GPipeline x) v') \<and>
     (\<forall>d x v. GPipeline x \<in> live v \<longrightarrow> gpu_destroys live ud v (GPipeline x) (vkDestroyPipeline mk d x v))"

lemma vk_check_Some: "vk_check r = Some (x, v) \<longleftrightarrow> r = (Some x, v)"
  by (auto simp: vk_check_def split: prod.splits option.splits)

lemma gpu_ok_creates:
  assumes "gpu_ok k live ud (c, v)" and "gpu_creates live ud v x v'" and "\<forall>a. x \<noteq> GAllocation a"
  shows "gpu_ok k live ud (c, v')"
  using assms(2,3) by (intro gpu_ok_others [OF assms(1)]) (auto simp: gpu_creates_def)

lemma gpu_ok_destroys:
  assumes "gpu_ok k live ud (c, v)" and "gpu_destroys live ud v x v'" and "\<forall>a. x \<noteq> GAllocation a"
  shows "gpu_ok k live ud (c, v')"
  using assms(2,3) by (intro gpu_ok_others [OF assms(1)]) (auto simp: gpu_destroys_def)

lemma driver_set_layout:
  "mat_driver mk live ud \<Longrightarrow> vkCreateDescriptorSetLayout mk d bs v = (Some x, v') \<Longrightarrow> gpu_creates live ud v (GSetLayout x) v'"
  unfolding mat_driver_def by (elim conjE) metis

lemma driver_sampler:
  "mat_driver mk live ud \<Longrightarrow> vkCreateSampler mk d v = (Some x, v') \<Longrightarrow> gpu_creates live ud v (GSampler x) v'"
  unfolding mat_driver_def by (elim conjE) metis

lemma driver_pipeline_layout:
  "mat_driver mk live ud \<Longrightarrow> vkCreatePipelineLayout mk d ls r v = (Some x, v') \<Longrightarrow> gpu_creates live ud v (GPipelineLayout x) v'"
  unfolding mat_driver_def by (elim conjE) metis

lemma driver_pipeline:
  "mat_driver mk live ud \<Longrightarrow> vd_vk_build_pipeline mk d i v = (Some x, v') \<Longrightarrow> gpu_creates live ud v (GPipeline x) v'"
  unfolding mat_driver_def by (elim conjE) metis

lemma driver_mat_destroys:
  assumes "mat_driver mk live ud"
  shows "GSetLayout x \<in> live v \<Longrightarrow> gpu_destroys live ud v (GSetLayout x) (vkDestroyDescriptorSetLayout mk d x v)"
    and "GSampler x \<in> live v \<Longrightarrow> gpu_destroys live ud v (GSampler x) (vkDestroySampler mk d x v)"
    and "GPipelineLayout x \<in> live v \<Longrightarrow> gpu_destroys live ud v (GPipelineLayout x) (vkDestroyPipelineLayout mk d x v)"
    and "GPipeline x \<in> live v \<Longrightarrow> gpu_destroys live ud v (GPipeline x) (vkDestroyPipeline mk d x v)"
  using assms unfolding mat_driver_def by simp_all

section \<open>Blueprints\<close>

definition blueprint_owns :: "u8 list \<Rightarrow> gpu_object set" where
  "blueprint_owns bytes = (let b = blueprint_at bytes in
     {GSetLayout (mb_property_layout b), GPipeline (mb_pipeline b), GPipelineLayout (mb_layout b)})"

lemma free_blueprint_spec:
  assumes "mat_driver mk live ud" and "gpu_ok k live ud (c, v)" and "blueprint_owns b \<subseteq> live v"
  shows "\<exists>v'. free_material_blueprint mk d b v = Some (b, v') \<and> gpu_ok k live ud (c, v') \<and> live v' = live v - blueprint_owns b"
proof -
  let ?b = "blueprint_at b"
  let ?v1 = "vkDestroyDescriptorSetLayout mk d (mb_property_layout ?b) v"
  let ?v2 = "vkDestroyPipeline mk d (mb_pipeline ?b) ?v1"
  let ?v3 = "vkDestroyPipelineLayout mk d (mb_layout ?b) ?v2"
  note ds = driver_mat_destroys [OF assms(1)]
  have d1: "gpu_destroys live ud v (GSetLayout (mb_property_layout ?b)) ?v1"
    using assms(3) by (intro ds) (simp add: blueprint_owns_def Let_def)
  then have d2: "gpu_destroys live ud ?v1 (GPipeline (mb_pipeline ?b)) ?v2"
    using assms(3) by (intro ds) (simp add: blueprint_owns_def Let_def gpu_destroys_def)
  with d1 have d3: "gpu_destroys live ud ?v2 (GPipelineLayout (mb_layout ?b)) ?v3"
    using assms(3) by (intro ds) (simp add: blueprint_owns_def Let_def gpu_destroys_def)
  have "gpu_ok k live ud (c, ?v3)"
    using gpu_ok_destroys [OF gpu_ok_destroys [OF gpu_ok_destroys [OF assms(2) d1] d2] d3] by simp
  moreover have "live ?v3 = live v - blueprint_owns b"
    using d1 d2 d3 by (auto simp: gpu_destroys_def blueprint_owns_def Let_def)
  ultimately show ?thesis by (simp add: free_material_blueprint_def Let_def)
qed

interpretation mbp: counted_owner "free_material_blueprint mk d" "\<lambda>_. True" blueprint_owns live
  "\<lambda>v. mat_driver mk live ud \<and> gpu_ok k live ud (c, v)" 312 for mk d live ud k c
proof unfold_locales
  fix v :: 'a and b :: "u8 list"
  assume "mat_driver mk live ud \<and> gpu_ok k live ud (c, v)" "length b = 312" "blueprint_owns b \<subseteq> live v"
  then show "\<exists>b' v'. free_material_blueprint mk d b v = Some (b', v') \<and> length b' = 312 \<and>
    (mat_driver mk live ud \<and> gpu_ok k live ud (c, v')) \<and> live v' = live v - blueprint_owns b"
    using free_blueprint_spec [of mk live ud k c v b d] by auto
qed

section \<open>Operations on materials\<close>

definition smat_ok ::
  "'v gpu \<Rightarrow> 'v mat_gpu \<Rightarrow> ('v \<Rightarrow> gpu_object set) \<Rightarrow> ('v \<Rightarrow> u64 \<Rightarrow> nat) \<Rightarrow> gpu_object set \<Rightarrow> SMat \<Rightarrow> SVMA \<times> 'v \<Rightarrow> bool" where
  "smat_ok k mk live ud L s st \<longleftrightarrow> gpu_ok k live ud st \<and> mat_driver mk live ud \<and>
     owner_inv (\<lambda>_. True) blueprint_owns 312 L (sm_blueprints s) (live (snd st)) \<and>
     owner_inv (\<lambda>_. True) (\<lambda>_. {}) 328 ({} :: gpu_object set) (sm_materials s) {}"

definition structs :: "BindingInfo list \<Rightarrow> nat" where
  "structs bs = length (filter (\<lambda>b. bi_type b = BINDING_TYPE_STRUCT) bs)"

lemma uniform_buffers_spec:
  "gpu_ok k live ud st \<Longrightarrow> uniform_buffers k line bs buffers st = Some (buffers', st') \<Longrightarrow>
     gpu_ok k live ud st' \<and> length buffers' = length buffers \<and>
     (\<exists>A. finite A \<and> card A = structs bs \<and> GAllocation ` A \<inter> live (snd st) = {} \<and>
        live (snd st') = live (snd st) \<union> GAllocation ` A)"
proof (induction bs arbitrary: buffers st)
  case Nil
  then show ?case by (auto simp: structs_def intro!: exI [of _ "{}"])
next
  case (Cons b bs)
  show ?case
  proof (cases "bi_type b = BINDING_TYPE_STRUCT")
    case False
    then show ?thesis using Cons.prems Cons.IH [of st buffers] by (simp add: structs_def)
  next
    case True
    obtain bi ai tr buf a st1 where c: "svma_create_buffer k bi ai tr st = Some ((buf, a), st1)"
      and r: "uniform_buffers k line bs (buffers[0 := (buf, a)]) st1 = Some (buffers', st')"
      using Cons.prems(2) True by (auto simp: bind_Some_iff)
    note g = gpu_ok_create [OF Cons.prems(1) c]
    from Cons.IH [OF conjunct1 [OF g] r] obtain A where A: "gpu_ok k live ud st'" "length buffers' = length buffers" "finite A"
      "card A = structs bs" "GAllocation ` A \<inter> live (snd st1) = {}" "live (snd st') = live (snd st1) \<union> GAllocation ` A"
      by auto
    have "a \<notin> A" using A(5) g by auto
    then have "card (insert a A) = structs (b # bs)" using A(3,4) True by (simp add: structs_def)
    moreover have "GAllocation ` insert a A \<inter> live (snd st) = {}" "live (snd st') = live (snd st) \<union> GAllocation ` insert a A"
      using A(5,6) g by auto
    ultimately show ?thesis using A(1-3) by blast
  qed
qed

lemma smat_init_ok:
  assumes "gpu_ok k live ud st" and "mat_driver mk live ud" and "smat_init k mk info st = Some (r, s, st')"
  shows "r = 0 \<and> smat_ok k mk live ud (live (snd st')) s st'"
proof -
  obtain c v where st: "st = (c, v)" by (cases st)
  obtain l v1 where l: "vkCreateDescriptorSetLayout mk (smi_device info)
      (map (\<lambda>b. (0, binding_type_to_vk_descriptor_type (bi_type b))) (smi_set0_bindings info)) v = (Some l, v1)"
    using assms(3) by (auto simp: smat_init_def st Let_def bind_Some_iff vk_check_Some)
  obtain x v2 where x: "vkCreateSampler mk (smi_device info) v1 = (Some x, v2)"
    using assms(3) l by (auto simp: smat_init_def st Let_def bind_Some_iff vk_check_Some)
  obtain bufs where b: "uniform_buffers k 76 (smi_set0_bindings info) [(0, 0), (0, 0), (0, 0)] (c, v2) = Some (bufs, st')"
    using assms(3) l x by (auto simp: smat_init_def st Let_def bind_Some_iff vk_check_Some)
  have "gpu_ok k live ud (c, v2)"
    using gpu_ok_creates [OF gpu_ok_creates [OF assms(1) [unfolded st] driver_set_layout [OF assms(2) l]] driver_sampler [OF assms(2) x]]
    by simp
  from uniform_buffers_spec [OF this b] have "gpu_ok k live ud st'" by simp
  moreover obtain ma bl where m: "vd_handlemap__init 328 64 = Some ma" "vd_handlemap__init 312 64 = Some bl"
    "r = 0" "sm_materials s = ma" "sm_blueprints s = bl"
    using assms(3) l x b by (auto simp: smat_init_def st Let_def bind_Some_iff vk_check_Some)
  ultimately show ?thesis
    using assms(2) by (simp add: smat_ok_def m owner_inv_init [OF m(1)] owner_inv_init [OF m(2)])
qed

lemma smat_new_blueprint_ok:
  assumes ok: "smat_ok k mk live ud L s (c, v)" and g: "hm_bytes 312 (length (hm_arr (sm_blueprints s)) * 2) < 2 ^ 64"
    and r: "smat_new_blueprint mk shaders s b h v = Some (hnd, s', h', v')"
  shows "\<exists>o'. smat_ok k mk live ud L s' (c, v') \<and> hm_object (sm_blueprints s') hnd o' \<and> hs_refcount o' = 1 \<and>
    map mp_binding (mb_properties (blueprint_at (hs_value o'))) = map mp_binding (take (bp_num_properties b) (bp_properties b)) \<and>
    length (mb_properties (blueprint_at (hs_value o'))) \<le> 8 \<and>
    blueprint_owns (hs_value o') \<inter> live v = {} \<and> live v' = live v \<union> blueprint_owns (hs_value o') \<and>
    sm_materials s' = sm_materials s \<and> sm_device s' = sm_device s"
proof -
  have gp: "gpu_ok k live ud (c, v)" and md: "mat_driver mk live ud"
    and bl: "owner_inv (\<lambda>_. True) blueprint_owns 312 L (sm_blueprints s) (live v)"
    using ok by (simp_all add: smat_ok_def)
  let ?pc = "if bp_push_constant_custom b then bp_push_constant_info b else sm_default_push_constant s"
  note simps = smat_new_blueprint_def Let_def bind_Some_iff vk_check_Some
  obtain ps where ps: "alloc_copy_or_zero_properties (bp_properties b) (bp_num_properties b) h = Some (ps, h')"
    using r by (auto simp: simps)
  let ?bs = "map (\<lambda>p. (0, binding_type_to_vk_descriptor_type (bi_type (mp_binding p)))) (take (bp_num_properties b) (bp_properties b))"
  obtain pl v1 where pl: "vkCreateDescriptorSetLayout mk (sm_device s) ?bs v = (Some pl, v1)"
    using r ps by (auto simp: simps)
  obtain la v2 where la: "vkCreatePipelineLayout mk (sm_device s) [sm_set0_layout s, pl]
      (vd_shader_stage_to_vk_shader_stage (pc_stage ?pc), pc_size ?pc) v1 = (Some la, v2)"
    using r ps pl by (auto simp: simps)
  obtain info pip bls where pip: "vd_vk_build_pipeline mk (sm_device s) info v2 = (Some pip, v')"
    and s': "s' = s\<lparr>sm_blueprints := bls\<rparr>"
    and reg: "vd_handlemap__register (sm_blueprints s) (blueprint_bytes \<lparr>mb_pipeline = pip, mb_layout = la, mb_property_layout = pl,
       mb_properties = ps, mb_push_constant_info = ?pc\<rparr>) VD_HANDLEMAP_REF_MODE_COUNT = Some (hnd, bls)"
    using r ps pl la by (auto simp: simps)
  let ?o = "\<lparr>mb_pipeline = pip, mb_layout = la, mb_property_layout = pl, mb_properties = ps, mb_push_constant_info = ?pc\<rparr>"
  have n: "bp_num_properties b \<le> 8" "copy_properties (take (bp_num_properties b) (bp_properties b)) h = Some (ps, h')"
    using ps by (auto simp: alloc_copy_or_zero_properties_def split: if_splits)
  note bind = copy_properties_spec [OF n(2)]
  have copy: "map mp_binding ps = map mp_binding (take (bp_num_properties b) (bp_properties b))" "length ps \<le> 8"
    using bind n(1) map_eq_imp_length_eq [OF bind] by simp_all
  note at = blueprint_at_bytes [of ?o, simplified, OF copy(2)]
  have owns: "blueprint_owns (blueprint_bytes ?o) = {GSetLayout pl, GPipeline pip, GPipelineLayout la}"
    by (simp add: blueprint_owns_def Let_def at)
  note c1 = driver_set_layout [OF md pl] and c2 = driver_pipeline_layout [OF md la] and c3 = driver_pipeline [OF md pip]
  have lv: "blueprint_owns (blueprint_bytes ?o) \<inter> live v = {}" "live v' = live v \<union> blueprint_owns (blueprint_bytes ?o)"
    using c1 c2 c3 by (auto simp: owns gpu_creates_def)
  have gp': "gpu_ok k live ud (c, v')"
    using gpu_ok_creates [OF gpu_ok_creates [OF gpu_ok_creates [OF gp c1] c2] c3] by simp
  obtain o' where o': "owner_inv (\<lambda>_. True) blueprint_owns 312 L bls (live v')" "hm_object bls hnd o'"
    "hs_value o' = blueprint_bytes ?o" "hs_refcount o' = 1"
    using owner_register [OF bl g, of "blueprint_bytes ?o"] lv reg by auto
  have "smat_ok k mk live ud L s' (c, v')" using ok gp' o'(1) by (simp add: s' smat_ok_def)
  then show ?thesis using o'(2-4) lv copy at by (intro exI [of _ o']) (simp add: s')
qed

text \<open>A new material holds a reference to its blueprint and says that it has no buffers.\<close>

lemma smat_new_from_blueprint_ok:
  assumes ok: "smat_ok k mk live ud L s st" and g: "hm_bytes 328 (length (hm_arr (sm_materials s)) * 2) < 2 ^ 64"
    and b: "hm_object (sm_blueprints s) b o'" "hs_refcount o' + 1 < 2 ^ 31"
    and r: "smat_new_from_blueprint k s b h st = Some (hnd, s', h', st')"
  shows "\<exists>A m. finite A \<and> card A = structs (map mp_binding (mb_properties (blueprint_at (hs_value o')))) \<and>
    GAllocation ` A \<inter> live (snd st) = {} \<and> live (snd st') = live (snd st) \<union> GAllocation ` A \<and>
    smat_ok k mk live ud (L \<union> GAllocation ` A) s' st' \<and>
    hm_object (sm_blueprints s') b (o'\<lparr>hs_refcount := hs_refcount o' + 1\<rparr>) \<and>
    hm_object (sm_materials s') hnd m \<and> hs_refcount m = 1 \<and> sm_device s' = sm_device s \<and>
    ma_num_buffers (material_at (hs_value m)) = 0 \<and> ma_blueprint (material_at (hs_value m)) = b"
proof -
  have gp: "gpu_ok k live ud st" and md: "mat_driver mk live ud"
    and bl: "owner_inv (\<lambda>_. True) blueprint_owns 312 L (sm_blueprints s) (live (snd st))"
    and ma: "owner_inv (\<lambda>_. True) (\<lambda>_. {}) 328 ({} :: gpu_object set) (sm_materials s) {}"
    using ok by (simp_all add: smat_ok_def)
  note use = hm_object_slot(7) [OF bl b(1)]
  have meta: "hm_metadata (sm_blueprints s) (unat (vh_id b) - 1) = Some o'" using b(1) by (simp add: hm_object_def)
  let ?ps = "mb_properties (blueprint_at (hs_value o'))"
  obtain bls where bls: "vd_handlemap_copy (sm_blueprints s) b = Some (b, bls)"
    "owner_inv (\<lambda>_. True) blueprint_owns 312 L bls (live (snd st))" "hm_object bls b (o'\<lparr>hs_refcount := hs_refcount o' + 1\<rparr>)"
    using owner_copy [OF bl b] by blast
  note simps = smat_new_from_blueprint_def Let_def bind_Some_iff use meta bls(1)
  obtain ps bufs where bufs: "uniform_buffers k 158 (map mp_binding ?ps) [(0, 0), (0, 0), (0, 0)] st = Some (bufs, st')"
    and reg: "vd_handlemap__register (sm_materials s)
      (material_bytes \<lparr>ma_blueprint = b, ma_num_buffers = 0, ma_buffers = bufs, ma_properties = ps\<rparr>)
      VD_HANDLEMAP_REF_MODE_COUNT = Some (hnd, sm_materials s')"
    and s': "s' = s\<lparr>sm_materials := sm_materials s', sm_blueprints := bls\<rparr>"
    using r by (auto simp: simps simp del: One_nat_def)
  let ?m = "\<lparr>ma_blueprint = b, ma_num_buffers = 0, ma_buffers = bufs, ma_properties = ps\<rparr>"
  from uniform_buffers_spec [OF gp bufs] obtain A where A: "gpu_ok k live ud st'" "length bufs = 3" "finite A"
    "card A = structs (map mp_binding ?ps)" "GAllocation ` A \<inter> live (snd st) = {}"
    "live (snd st') = live (snd st) \<union> GAllocation ` A"
    by auto
  have "length (material_bytes ?m) = 328" by (simp add: material_bytes_length A(2))
  from owner_register [OF ma g this] obtain m where m: "owner_inv (\<lambda>_. True) (\<lambda>_. {}) 328 ({} :: gpu_object set) (sm_materials s') {}"
    "hm_object (sm_materials s') hnd m" "hs_value m = material_bytes ?m" "hs_refcount m = 1"
    using reg by auto
  have bl': "owner_inv (\<lambda>_. True) blueprint_owns 312 (L \<union> GAllocation ` A) bls (live (snd st'))"
  proof -
    note t = owner_inv_total [OF bls(2)]
    have "owner_inv (\<lambda>_. True) blueprint_owns 312 (L \<union> GAllocation ` A) bls ((L \<union> GAllocation ` A) \<union> owned_all blueprint_owns bls)"
      using t A(5) by (intro owner_inv_rest [OF bls(2)]) blast
    moreover have "(L \<union> GAllocation ` A) \<union> owned_all blueprint_owns bls = live (snd st')" using t(1) A(6) by blast
    ultimately show ?thesis by simp
  qed
  have s: "sm_blueprints s' = bls" "sm_device s' = sm_device s" by (subst s', simp)+
  have "smat_ok k mk live ud (L \<union> GAllocation ` A) s' st'" using A(1) md bl' m(1) s(1) by (simp add: smat_ok_def)
  then show ?thesis
    using A(3-6) bls(3) m(2-4) s material_at_bytes [of ?m] A(2) by (intro exI [of _ A] exI [of _ m]) simp
qed

text \<open>Dropping the last reference to a material drops its reference to the blueprint and destroys no buffer.\<close>

lemma drop_material_ok:
  assumes ok: "smat_ok k mk live ud L s st" and m: "hm_object (sm_materials s) hnd m" "hs_refcount m = 1"
    and nb: "ma_num_buffers (material_at (hs_value m)) = 0" and b: "ma_blueprint (material_at (hs_value m)) = b"
    and o': "hm_object (sm_blueprints s) b o'" "hs_refcount o' \<noteq> 1"
  shows "\<exists>s'. drop_material k mk s hnd st = Some (hnd\<lparr>vh_id := 0\<rparr>, s', st) \<and> smat_ok k mk live ud L s' st \<and>
    hm_object (sm_blueprints s') b (o'\<lparr>hs_refcount := hs_refcount o' - 1\<rparr>) \<and> sm_device s' = sm_device s"
proof -
  have gp: "gpu_ok k live ud st" and md: "mat_driver mk live ud"
    and bl: "owner_inv (\<lambda>_. True) blueprint_owns 312 L (sm_blueprints s) (live (snd st))"
    and ma: "owner_inv (\<lambda>_. True) (\<lambda>_. {}) 328 ({} :: gpu_object set) (sm_materials s) {}"
    using ok by (simp_all add: smat_ok_def)
  obtain c v where st: "st = (c, v)" by (cases st)
  obtain bls where bls: "drop_handle_with (free_material_blueprint mk (sm_device s)) (sm_blueprints s) b v = Some (b\<lparr>vh_id := 0\<rparr>, bls, v)"
    "owner_inv (\<lambda>_. True) blueprint_owns 312 L bls (live (snd st))" "hm_object bls b (o'\<lparr>hs_refcount := hs_refcount o' - 1\<rparr>)"
    using drop_more [OF bl o', of "free_material_blueprint mk (sm_device s)" v] by blast
  let ?bytes = "material_bytes ((material_at (hs_value m))\<lparr>ma_blueprint := b\<lparr>vh_id := 0\<rparr>\<rparr>)"
  have f: "free_material k mk (sm_device s) (hs_value m) (sm_blueprints s, st) = Some (?bytes, bls, st)"
    using bls(1) nb b by (simp add: free_material_def drop_blueprint_def st Let_def)
  have "length ?bytes = 328" by (simp add: material_bytes_length)
  from drop_last [OF ma m, of "free_material k mk (sm_device s)", OF f this] obtain mats where
    mats: "drop_handle_with (free_material k mk (sm_device s)) (sm_materials s) hnd (sm_blueprints s, st) = Some (hnd\<lparr>vh_id := 0\<rparr>, mats, bls, st)"
    "owner_inv (\<lambda>_. True) (\<lambda>_. {}) 328 ({} :: gpu_object set) mats {}"
    by auto
  let ?s = "s\<lparr>sm_materials := mats, sm_blueprints := bls\<rparr>"
  have "drop_material k mk s hnd st = Some (hnd\<lparr>vh_id := 0\<rparr>, ?s, st)" using mats(1) by (simp add: drop_material_def)
  moreover have "smat_ok k mk live ud L ?s st" using gp md bls(2) mats(2) by (simp add: smat_ok_def)
  ultimately show ?thesis using bls(3) by (intro exI [of _ ?s]) simp
qed

text \<open>C15. A blueprint and a material of it, both dropped again: the layouts and the pipeline of the blueprint are
  destroyed, but every uniform buffer of the material is left on the device, one for every property that is a
  structure: the number of buffers that the material keeps is never set.\<close>

theorem smat_material_leaks_buffers:
  assumes "smat_ok k mk live ud L s (c, v)"
    and "hm_bytes 312 (length (hm_arr (sm_blueprints s)) * 2) < 2 ^ 64" and "hm_bytes 328 (length (hm_arr (sm_materials s)) * 2) < 2 ^ 64"
    and "smat_new_blueprint mk shaders s b h v = Some (hb, s1, h1, v1)"
    and "smat_new_from_blueprint k s1 hb h1 (c, v1) = Some (hm, s2, h2, st2)"
  shows "\<exists>s3 bls st4 A. drop_material k mk s2 hm st2 = Some (hm\<lparr>vh_id := 0\<rparr>, s3, st2) \<and>
    drop_blueprint mk (sm_device s3) hb (sm_blueprints s3, st2) = Some (hb\<lparr>vh_id := 0\<rparr>, bls, st4) \<and>
    live (snd st4) = live v \<union> GAllocation ` A \<and> GAllocation ` A \<inter> live v = {} \<and> finite A \<and>
    card A = structs (map mp_binding (take (bp_num_properties b) (bp_properties b)))"
proof -
  obtain o1 where o1: "smat_ok k mk live ud L s1 (c, v1)" "hm_object (sm_blueprints s1) hb o1" "hs_refcount o1 = 1"
    "map mp_binding (mb_properties (blueprint_at (hs_value o1))) = map mp_binding (take (bp_num_properties b) (bp_properties b))"
    "blueprint_owns (hs_value o1) \<inter> live v = {}" "live v1 = live v \<union> blueprint_owns (hs_value o1)" "sm_materials s1 = sm_materials s"
    using smat_new_blueprint_ok [OF assms(1,2,4)] by blast
  have g1: "hm_bytes 328 (length (hm_arr (sm_materials s1)) * 2) < 2 ^ 64" using assms(3) o1(7) by simp
  have "hs_refcount o1 + 1 < 2 ^ 31" using o1(3) by simp
  from smat_new_from_blueprint_ok [OF o1(1) g1 o1(2) this assms(5)] obtain A m where A: "finite A"
    "card A = structs (map mp_binding (mb_properties (blueprint_at (hs_value o1))))" "GAllocation ` A \<inter> live v1 = {}"
    "live (snd st2) = live v1 \<union> GAllocation ` A" "smat_ok k mk live ud (L \<union> GAllocation ` A) s2 st2"
    "hm_object (sm_blueprints s2) hb (o1\<lparr>hs_refcount := hs_refcount o1 + 1\<rparr>)" "hm_object (sm_materials s2) hm m" "hs_refcount m = 1"
    "ma_num_buffers (material_at (hs_value m)) = 0" "ma_blueprint (material_at (hs_value m)) = hb"
    by auto
  have two: "hs_refcount (o1\<lparr>hs_refcount := hs_refcount o1 + 1\<rparr>) \<noteq> 1" using o1(3) by simp
  have same: "o1\<lparr>hs_refcount := hs_refcount o1 + 1, hs_refcount := hs_refcount o1 + 1 - 1\<rparr> = o1" by (cases o1) simp
  obtain s3 where s3: "drop_material k mk s2 hm st2 = Some (hm\<lparr>vh_id := 0\<rparr>, s3, st2)" "smat_ok k mk live ud (L \<union> GAllocation ` A) s3 st2"
    "hm_object (sm_blueprints s3) hb o1"
    using drop_material_ok [OF A(5,7-10,6) two] same by auto
  obtain c2 v2 where st2: "st2 = (c2, v2)" by (cases st2)
  have bl: "owner_inv (\<lambda>_. True) blueprint_owns 312 (L \<union> GAllocation ` A) (sm_blueprints s3) (live v2)"
    and ok2: "mat_driver mk live ud \<and> gpu_ok k live ud (c2, v2)"
    using s3(2) by (simp_all add: smat_ok_def st2)
  obtain bls v4 where d: "drop_handle_with (free_material_blueprint mk (sm_device s3)) (sm_blueprints s3) hb v2 = Some (hb\<lparr>vh_id := 0\<rparr>, bls, v4)"
    "live v4 = live v2 - blueprint_owns (hs_value o1)"
    using mbp.drop_object [OF bl ok2 s3(3), of "sm_device s3"] o1(3) by auto
  have "blueprint_owns (hs_value o1) \<inter> GAllocation ` A = {}" by (auto simp: blueprint_owns_def Let_def)
  then have "live v4 = live v \<union> GAllocation ` A" using d(2) A(4) o1(5,6) by (auto simp: st2)
  moreover have "GAllocation ` A \<inter> live v = {}" using A(3) o1(6) by blast
  ultimately show ?thesis
    using s3(1) d(1) A(1,2) o1(4) by (intro exI [of _ s3] exI [of _ bls] exI [of _ "(c2, v4)"] exI [of _ A]) (simp add: drop_blueprint_def st2)
qed

definition demo_mat :: "demo_gpu_state mat_gpu" where
  "demo_mat = \<lparr>vkCreateDescriptorSetLayout = (\<lambda>_ _. demo_new GSetLayout), vkDestroyDescriptorSetLayout = (\<lambda>_ x. demo_del (GSetLayout x)),
     vkCreateSampler = (\<lambda>_. demo_new GSampler), vkDestroySampler = (\<lambda>_ x. demo_del (GSampler x)),
     vkCreatePipelineLayout = (\<lambda>_ _ _. demo_new GPipelineLayout), vkDestroyPipelineLayout = (\<lambda>_ x. demo_del (GPipelineLayout x)),
     vd_vk_build_pipeline = (\<lambda>_ _. demo_new GPipeline), vkDestroyPipeline = (\<lambda>_ x. demo_del (GPipeline x))\<rparr>"

lemma demo_mat_driver: "mat_driver demo_mat demo_live demo_ud"
  by (auto simp: mat_driver_def demo_mat_def gpu_creates_def gpu_destroys_def demo_new_def demo_del_def
      demo_live_def demo_ud_def split: if_splits prod.splits)

definition demo_pc :: PushConstantInfo where "demo_pc = \<lparr>pc_type = 0, pc_size = 80, pc_stage = SHADER_STAGE_VERT_BIT\<rparr>"

definition demo_smi :: SMatInitInfo where
  "demo_smi = \<lparr>smi_device = 0, smi_set0_bindings = [\<lparr>bi_type = BINDING_TYPE_STRUCT, bi_struct_size = 160\<rparr>],
     smi_default_push_constant = demo_pc, smi_color_format = 97, smi_depth_format = 126\<rparr>"

text \<open>A blueprint with a texture and a structure.\<close>

definition demo_bp :: MaterialBlueprint where
  "demo_bp = \<lparr>bp_shaders = [], bp_topology = 3, bp_polygon_mode = 0, bp_cull_mode = 2, bp_cull_face = 0,
     bp_push_constant_custom = False, bp_push_constant_info = demo_pc, bp_multisample_on = False, bp_blend_on = False,
     bp_depth_test = (True, True, 6), bp_num_properties = 2,
     bp_properties = [\<lparr>mp_binding = \<lparr>bi_type = BINDING_TYPE_SAMPLER2D, bi_struct_size = 0\<rparr>, mp_word0 = 1, mp_word1 = 1\<rparr>,
                      \<lparr>mp_binding = \<lparr>bi_type = BINDING_TYPE_STRUCT, bi_struct_size = 4\<rparr>, mp_word0 = 1, mp_word1 = 0\<rparr>]\<rparr>"

lemma smat_init_bytes:
  assumes "smat_init k mk info st = Some (r, s, st')"
  shows "hm_bytes 312 (length (hm_arr (sm_blueprints s)) * 2) < 2 ^ 64"
    and "hm_bytes 328 (length (hm_arr (sm_materials s)) * 2) < 2 ^ 64"
  using assms by (auto simp: smat_init_def Let_def bind_Some_iff vd_handlemap__init_def hm_bytes_def split: prod.splits if_splits)

lemma demo_smat:
  assumes "gpu_ok demo_gpu demo_live demo_ud (c, v)" and "v = (1, [], u)"
  shows "\<exists>s c1 u1. smat_init demo_gpu demo_mat demo_smi (c, v) =
    Some (0, s, c1, (4, [GAllocation 3, GSampler 2, GSetLayout 1], u1))"
proof -
  let ?v2 = "(3, [GSampler 2, GSetLayout 1], u) :: demo_gpu_state"
  have l: "vkCreateDescriptorSetLayout demo_mat d bs v = (Some 1, 2, [GSetLayout 1], u)"
    and x: "vkCreateSampler demo_mat d (2, [GSetLayout 1], u) = (Some 2, ?v2)" for d bs
    using assms(2) by (simp_all add: demo_mat_def demo_new_def)
  have ok: "gpu_ok demo_gpu demo_live demo_ud (c, ?v2)"
    using gpu_ok_creates [OF gpu_ok_creates [OF assms(1) driver_set_layout [OF demo_mat_driver l]] driver_sampler [OF demo_mat_driver x]]
    by simp
  then obtain xs where "svma_at demo_live demo_ud xs (c, ?v2)" by (auto simp: gpu_ok_def)
  from demo_create [OF this snd_conv] obtain c1 u1 where
    "svma_create_buffer demo_gpu \<lparr>bci_usage = VK_BUFFER_USAGE_UNIFORM_BUFFER_BIT, bci_size = 160\<rparr>
       \<lparr>aci_usage = VMA_MEMORY_USAGE_CPU_TO_GPU, aci_flags = VMA_ALLOCATION_CREATE_MAPPED_BIT, aci_requiredFlags = 0\<rparr>
       \<lparr>tr_file = ''smat.c'', tr_line = 76\<rparr> (c, ?v2) = Some ((3, 3), c1, (4, [GAllocation 3, GSampler 2, GSetLayout 1], u1))"
    by fastforce
  then show ?thesis
    using l x by (simp add: smat_init_def vk_check_def demo_smi_def vd_handlemap__init_def hm_bytes_def)
qed

lemma demo_blueprint:
  assumes ok: "smat_ok demo_gpu demo_mat demo_live demo_ud L s (c, v)" and v: "v = (4, [GAllocation 3, GSampler 2, GSetLayout 1], u)"
    and g: "hm_bytes 312 (length (hm_arr (sm_blueprints s)) * 2) < 2 ^ 64"
  shows "\<exists>hnd s' ps. smat_new_blueprint demo_mat shaders s demo_bp [] v =
     Some (hnd, s', [[0, 0, 0, 0]], (7, [GPipeline 6, GPipelineLayout 5, GSetLayout 4, GAllocation 3, GSampler 2, GSetLayout 1], u)) \<and>
     list_all (\<lambda>p. bi_type (mp_binding p) = BINDING_TYPE_STRUCT \<longrightarrow> mp_pstruct p \<noteq> 0) ps \<and>
     (\<exists>o'. hm_object (sm_blueprints s') hnd o' \<and> mb_properties (blueprint_at (hs_value o')) = ps)"
proof -
  have bl: "owner_inv (\<lambda>_. True) blueprint_owns 312 L (sm_blueprints s) (demo_live v)" using ok by (simp add: smat_ok_def)
  let ?ps = "[\<lparr>mp_binding = \<lparr>bi_type = BINDING_TYPE_SAMPLER2D, bi_struct_size = 0\<rparr>, mp_word0 = 1, mp_word1 = 1\<rparr>,
    \<lparr>mp_binding = \<lparr>bi_type = BINDING_TYPE_STRUCT, bi_struct_size = 4\<rparr>, mp_word0 = 1, mp_word1 = 0\<rparr>]"
  have four: "replicate 4 (0 :: u8) = [0, 0, 0, 0]" by (simp add: numeral_eq_Suc)
  have ps: "alloc_copy_or_zero_properties (bp_properties demo_bp) (bp_num_properties demo_bp) [] = Some (?ps, [[0, 0, 0, 0]])"
    by (simp add: alloc_copy_or_zero_properties_def demo_bp_def block_new_def mp_pstruct_def Let_def four)
  let ?o = "\<lparr>mb_pipeline = 6, mb_layout = 5, mb_property_layout = 4, mb_properties = ?ps, mb_push_constant_info = sm_default_push_constant s\<rparr>"
  note at = blueprint_at_bytes [of ?o, simplified]
  have "blueprint_owns (blueprint_bytes ?o) \<inter> demo_live v = {}" by (simp add: blueprint_owns_def Let_def at v demo_live_def)
  then obtain hnd m o' where r: "vd_handlemap__register (sm_blueprints s) (blueprint_bytes ?o) VD_HANDLEMAP_REF_MODE_COUNT = Some (hnd, m)"
    "hm_object m hnd o'" "hs_value o' = blueprint_bytes ?o"
    using owner_register [OF bl g, of "blueprint_bytes ?o"] by auto
  have "smat_new_blueprint demo_mat shaders s demo_bp [] v = Some (hnd, s\<lparr>sm_blueprints := m\<rparr>, [[0, 0, 0, 0]],
      (7, [GPipeline 6, GPipelineLayout 5, GSetLayout 4, GAllocation 3, GSampler 2, GSetLayout 1], u))"
    unfolding smat_new_blueprint_def ps using r(1) by (simp add: demo_mat_def demo_new_def demo_bp_def vk_check_def v Let_def)
  then show ?thesis using r(2,3) at by (intro exI [of _ hnd] exI [of _ "s\<lparr>sm_blueprints := m\<rparr>"] exI [of _ ?ps]) (auto simp: mp_pstruct_def)
qed

lemma demo_material:
  assumes ok: "smat_ok demo_gpu demo_mat demo_live demo_ud L s st" and v: "snd st = (n, ys, u)" "GAllocation n \<notin> set ys"
    and g: "hm_bytes 328 (length (hm_arr (sm_materials s)) * 2) < 2 ^ 64"
    and b: "hm_object (sm_blueprints s) b o'" "hs_refcount o' + 1 < 2 ^ 31"
    and ps: "mb_properties (blueprint_at (hs_value o')) = [p, q]" "bi_type (mp_binding p) = BINDING_TYPE_SAMPLER2D"
      "bi_type (mp_binding q) = BINDING_TYPE_STRUCT" "mp_pstruct q \<noteq> 0"
  shows "\<exists>hnd s' h' st'. smat_new_from_blueprint demo_gpu s b h st = Some (hnd, s', h', st')"
proof -
  have bl: "owner_inv (\<lambda>_. True) blueprint_owns 312 L (sm_blueprints s) (demo_live (snd st))"
    and ma: "owner_inv (\<lambda>_. True) (\<lambda>_. {}) 328 ({} :: gpu_object set) (sm_materials s) {}"
    and gp: "gpu_ok demo_gpu demo_live demo_ud st"
    using ok by (simp_all add: smat_ok_def)
  obtain bls where copy: "vd_handlemap_copy (sm_blueprints s) b = Some (b, bls)" using owner_copy [OF bl b] by blast
  obtain ps' h' where al: "alloc_copy_or_zero_properties [p, q] 2 h = Some (ps', h')"
    using ps(2-4) by (simp add: alloc_copy_or_zero_properties_def block_new_def Let_def)
  obtain xs where xs: "svma_at demo_live demo_ud xs st" using gp by (auto simp: gpu_ok_def)
  obtain st' where c: "svma_create_buffer demo_gpu \<lparr>bci_usage = VK_BUFFER_USAGE_UNIFORM_BUFFER_BIT, bci_size = bi_struct_size (mp_binding q)\<rparr>
     \<lparr>aci_usage = VMA_MEMORY_USAGE_CPU_TO_GPU, aci_flags = VMA_ALLOCATION_CREATE_MAPPED_BIT, aci_requiredFlags = 0\<rparr>
     \<lparr>tr_file = ''smat.c'', tr_line = 158\<rparr> st = Some ((n, n), st')"
    using demo_create [OF xs v] by blast
  then have u: "uniform_buffers demo_gpu 158 (map mp_binding [p, q]) [(0, 0), (0, 0), (0, 0)] st = Some ([(n, n), (0, 0), (0, 0)], st')"
    using ps(2,3) by simp
  let ?m = "\<lparr>ma_blueprint = b, ma_num_buffers = 0, ma_buffers = [(n, n), (0, 0), (0, 0)], ma_properties = ps'\<rparr>"
  have "length (material_bytes ?m) = 328" by (simp add: material_bytes_length)
  from owner_register [OF ma g this] obtain hnd mats where
    "vd_handlemap__register (sm_materials s) (material_bytes ?m) VD_HANDLEMAP_REF_MODE_COUNT = Some (hnd, mats)" by auto
  moreover have "hm_metadata (sm_blueprints s) (unat (vh_id b) - 1) = Some o'" using b(1) by (simp add: hm_object_def)
  ultimately show ?thesis
    unfolding smat_new_from_blueprint_def hm_object_slot(7) [OF bl b(1)] using copy al u ps(1)
    by (cases st' rule: prod_cases4) (simp add: numeral_2_eq_2)
qed

lemma demo_smat_init:
  "\<exists>c0 s c u. svma_init demo_gpu svma_create demo_info demo_v0 = Some (0, c0, 1, [], \<lambda>_. 0) \<and>
     gpu_ok demo_gpu demo_live demo_ud (c0, 1, [], \<lambda>_. 0) \<and>
     smat_init demo_gpu demo_mat demo_smi (c0, 1, [], \<lambda>_. 0) = Some (0, s, c, (4, [GAllocation 3, GSampler 2, GSetLayout 1], u))"
proof -
  obtain c0 where i: "svma_init demo_gpu svma_create demo_info demo_v0 = Some (0, c0, 1, [], \<lambda>_. 0)"
    by (simp add: svma_init_def svma_create_def demo_gpu_def demo_info_def demo_v0_def array_init_def vd_array_grow_def
        array_len_def array_cap_def Let_def)
  have "gpu_ok demo_gpu demo_live demo_ud (c0, 1, [], \<lambda>_. 0)"
    using svma_init_at [OF demo_gpu_driver _ _ i] by (auto simp: gpu_ok_def demo_gpu_driver demo_info_def demo_v0_def demo_live_def)
  note g0 = this
  obtain s c u where s: "smat_init demo_gpu demo_mat demo_smi (c0, 1, [], \<lambda>_. 0) =
    Some (0, s, c, (4, [GAllocation 3, GSampler 2, GSetLayout 1], u))"
    using demo_smat [OF g0 refl] by blast
  show ?thesis by (intro exI conjI) (rule i g0 s)+
qed

theorem smat_material_leaks_buffers_witness:
  "\<exists>shaders st0 s c v hb s1 h1 v1 hm s2 h2 st2 s3 bls st4 A. vd_handlemap__init 16 64 = Some shaders \<and>
     svma_init demo_gpu svma_create demo_info demo_v0 = Some (0, st0) \<and> smat_init demo_gpu demo_mat demo_smi st0 = Some (0, s, c, v) \<and>
     smat_new_blueprint demo_mat shaders s demo_bp [] v = Some (hb, s1, h1, v1) \<and>
     smat_new_from_blueprint demo_gpu s1 hb h1 (c, v1) = Some (hm, s2, h2, st2) \<and>
     drop_material demo_gpu demo_mat s2 hm st2 = Some (hm\<lparr>vh_id := 0\<rparr>, s3, st2) \<and>
     drop_blueprint demo_mat (sm_device s3) hb (sm_blueprints s3, st2) = Some (hb\<lparr>vh_id := 0\<rparr>, bls, st4) \<and>
     demo_live (snd st4) = demo_live v \<union> GAllocation ` A \<and> card A = 1"
proof -
  obtain shaders where sh: "vd_handlemap__init 16 64 = Some shaders" by (simp add: vd_handlemap__init_def hm_bytes_def)
  obtain c0 s c u where i: "svma_init demo_gpu svma_create demo_info demo_v0 = Some (0, c0, 1, [], \<lambda>_. 0)"
    and g0: "gpu_ok demo_gpu demo_live demo_ud (c0, 1, [], \<lambda>_. 0)"
    and s: "smat_init demo_gpu demo_mat demo_smi (c0, 1, [], \<lambda>_. 0) = Some (0, s, c, (4, [GAllocation 3, GSampler 2, GSetLayout 1], u))"
    using demo_smat_init by blast
  let ?v = "(4, [GAllocation 3, GSampler 2, GSetLayout 1], u) :: demo_gpu_state"
  have ok: "smat_ok demo_gpu demo_mat demo_live demo_ud (demo_live ?v) s (c, ?v)"
    using smat_init_ok [OF g0 demo_mat_driver s] by simp
  note hb = smat_init_bytes [OF s]
  obtain hnd s1 ps v1 o' where b: "smat_new_blueprint demo_mat shaders s demo_bp [] ?v = Some (hnd, s1, [[0, 0, 0, 0]], v1)"
    and v1: "v1 = (7, [GPipeline 6, GPipelineLayout 5, GSetLayout 4, GAllocation 3, GSampler 2, GSetLayout 1], u)"
    and ps: "list_all (\<lambda>p. bi_type (mp_binding p) = BINDING_TYPE_STRUCT \<longrightarrow> mp_pstruct p \<noteq> 0) ps"
      "hm_object (sm_blueprints s1) hnd o'" "mb_properties (blueprint_at (hs_value o')) = ps"
    using demo_blueprint [OF ok refl hb(1), of shaders] by blast
  obtain o1 where o1: "smat_ok demo_gpu demo_mat demo_live demo_ud (demo_live ?v) s1 (c, v1)" "hm_object (sm_blueprints s1) hnd o1"
    "hs_refcount o1 = 1" "sm_materials s1 = sm_materials s"
    "map mp_binding (mb_properties (blueprint_at (hs_value o1))) = map mp_binding (take (bp_num_properties demo_bp) (bp_properties demo_bp))"
    using smat_new_blueprint_ok [OF ok hb(1) b] by blast
  have same: "o' = o1" using ps(2) o1(2) by (simp add: hm_object_def)
  obtain p q where pq: "ps = [p, q]" "bi_type (mp_binding p) = BINDING_TYPE_SAMPLER2D" "bi_type (mp_binding q) = BINDING_TYPE_STRUCT"
    using o1(5) ps(3) same by (auto simp: demo_bp_def)
  have q: "mp_pstruct q \<noteq> 0" using ps(1) pq by simp
  obtain hm s2 h2 st2 where m: "smat_new_from_blueprint demo_gpu s1 hnd [[0, 0, 0, 0]] (c, v1) = Some (hm, s2, h2, st2)"
    using demo_material [OF o1(1) _ _ _ o1(2), of 7 _ u p q "[[0, 0, 0, 0]]"] v1 hb(2) o1(3,4) ps(3) same pq q by auto
  have "structs (map mp_binding (take (bp_num_properties demo_bp) (bp_properties demo_bp))) = 1"
    by (simp add: structs_def demo_bp_def)
  with smat_material_leaks_buffers [OF ok hb b m] obtain s3 bls st4 A where
    t: "drop_material demo_gpu demo_mat s2 hm st2 = Some (hm\<lparr>vh_id := 0\<rparr>, s3, st2)"
      "drop_blueprint demo_mat (sm_device s3) hnd (sm_blueprints s3, st2) = Some (hnd\<lparr>vh_id := 0\<rparr>, bls, st4)"
      "demo_live (snd st4) = demo_live ?v \<union> GAllocation ` A" "card A = 1"
    by auto
  show ?thesis by (intro exI conjI) (rule sh i s b m t)+
qed

end
