(* ===== verification/Smatset.thy ===== *)
theory Smatset
  imports Smat Descalloc
begin

text \<open>
  Preparing a material for drawing, the rest of ng/src/r/smat.c: two descriptor sets are allocated and written,
  one for the scene and one for the properties of the material.

  Descriptor sets come from the model of the descriptor allocator (\<open>Descalloc\<close>), on the same device. Writing
  to mapped memory and updating sets are further calls of the device (\<open>set_gpu\<close>).
\<close>

section \<open>Definitions\<close>

datatype SetWriteInfo = NoInfo | BufferInfo u64 u64 | ImageInfo u64 u64

text \<open>A buffer with the number of bytes, or an image view with a sampler.\<close>

record SetWrite =
  sw_dstBinding :: nat
  sw_descriptorType :: u32
  sw_info :: SetWriteInfo

record 'v set_gpu =
  write_mapped :: "u64 \<Rightarrow> u8 list \<Rightarrow> 'v \<Rightarrow> 'v"
  update_sets :: "u64 \<Rightarrow> nat option \<Rightarrow> SetWrite list \<Rightarrow> 'v \<Rightarrow> 'v"

text \<open>\<open>memcpy\<close> of \<open>n\<close> bytes from a pointer to a block.\<close>

definition block_read :: "blocks \<Rightarrow> u64 \<Rightarrow> nat \<Rightarrow> u8 list option" where
  "block_read h p n =
     (if p \<noteq> 0 \<and> unat p \<le> length h \<and> n \<le> length (h ! (unat p - 1)) then Some (take n (h ! (unat p - 1))) else None)"

definition upload_struct ::
  "'v gpu \<Rightarrow> 'v set_gpu \<Rightarrow> blocks \<Rightarrow> u64 \<times> u64 \<Rightarrow> MaterialProperty \<Rightarrow> SVMA \<times> 'v \<Rightarrow> (SVMA \<times> 'v) option" where
  "upload_struct k sg h buffer p st =
     do { (data, c, v) \<leftarrow> svma_map k (snd buffer) st;
          bytes \<leftarrow> block_read h (mp_pstruct p) (unat (bi_struct_size (mp_binding p)));
          Some (svma_unmap k (snd buffer) (c, write_mapped sg data bytes v)) }"

text \<open>The loop over the properties, with the index of the property and of the next buffer.\<close>

fun write_loop ::
  "'v gpu \<Rightarrow> 'v set_gpu \<Rightarrow> vd_handlemap \<Rightarrow> u64 \<Rightarrow> blocks \<Rightarrow> (u64 \<times> u64) list \<Rightarrow> nat \<Rightarrow> nat \<Rightarrow> MaterialProperty list \<Rightarrow> SVMA \<times> 'v
     \<Rightarrow> (SetWrite list \<times> SVMA \<times> 'v) option" where
  "write_loop k sg textures linear h buffers i bi [] st = Some ([], st)"
| "write_loop k sg textures linear h buffers i bi (p # ps) st =
     (let w = \<lparr>sw_dstBinding = i, sw_descriptorType = binding_type_to_vk_descriptor_type (bi_type (mp_binding p)), sw_info = NoInfo\<rparr> in
      case bi_type (mp_binding p) of
        BINDING_TYPE_STRUCT \<Rightarrow>
          (if bi < length buffers then
             do { st1 \<leftarrow> upload_struct k sg h (buffers ! bi) p st;
                  (ws, st2) \<leftarrow> write_loop k sg textures linear h buffers (i + 1) (bi + 1) ps st1;
                  Some (w\<lparr>sw_info := BufferInfo (fst (buffers ! bi)) (bi_struct_size (mp_binding p))\<rparr> # ws, st2) }
           else None)
      | BINDING_TYPE_SAMPLER2D \<Rightarrow>
          do { slot \<leftarrow> vd_handle_use textures (mp_sampler2d p);
               j \<leftarrow> slot;
               s \<leftarrow> hm_metadata textures j;
               (ws, st2) \<leftarrow> write_loop k sg textures linear h buffers (i + 1) bi ps st;
               Some (w\<lparr>sw_info := ImageInfo (tex_view (texture_at (hs_value s))) linear\<rparr> # ws, st2) }
      | BINDING_TYPE_INVALID \<Rightarrow>
          do { (ws, st2) \<leftarrow> write_loop k sg textures linear h buffers (i + 1) bi ps st; Some (w # ws, st2) })"

definition write_set ::
  "'v vk_descriptors \<Rightarrow> 'v gpu \<Rightarrow> 'v set_gpu \<Rightarrow> vd_handlemap \<Rightarrow> SMat \<Rightarrow> VD_DescriptorAllocator \<Rightarrow> blocks \<Rightarrow> (u64 \<times> u64) list \<Rightarrow> u64
     \<Rightarrow> MaterialProperty list \<Rightarrow> SVMA \<times> 'v \<Rightarrow> (nat option \<times> VD_DescriptorAllocator \<times> SVMA \<times> 'v) option" where
  "write_set kd k sg textures s d h buffers set_layout props st0 =
     (let (c, v0) = st0 in
      do { (return_set, d', v1) \<leftarrow> vd_descriptor_allocator_allocate kd d (unat set_layout) 0 v0;
           (writes, c', v2) \<leftarrow> write_loop k sg textures (sm_linear s) h buffers 0 0 props (c, v1);
           Some (return_set, d', c', update_sets sg (sm_device s) return_set writes v2) })"

text \<open>The descriptor allocator of the frame, as \<open>smat_begin_frame\<close> leaves it.\<close>

definition smat_begin_frame ::
  "'v vk_descriptors \<Rightarrow> VD_DescriptorAllocator \<Rightarrow> 'v \<Rightarrow> (VD_DescriptorAllocator \<times> 'v) option" where
  "smat_begin_frame kd d v = vd_descriptor_allocator_clear kd d v"

record GPUMaterialInstance =
  gi_material :: vd_handle
  gi_pass :: int
  gi_default_set :: "nat option"
  gi_property_set :: "nat option"

definition smat_prep ::
  "'v vk_descriptors \<Rightarrow> 'v gpu \<Rightarrow> 'v set_gpu \<Rightarrow> vd_handlemap \<Rightarrow> SMat \<Rightarrow> VD_DescriptorAllocator \<Rightarrow> blocks \<Rightarrow> vd_handle
     \<Rightarrow> MaterialProperty list \<Rightarrow> SVMA \<times> 'v \<Rightarrow> (GPUMaterialInstance \<times> VD_DescriptorAllocator \<times> SVMA \<times> 'v) option" where
  "smat_prep kd k sg textures s d h handle props st =
     do { (set0, d1, st1) \<leftarrow> write_set kd k sg textures s d h (sm_set0_buffers s) (sm_set0_layout s) props st;
          slot \<leftarrow> vd_handle_use (sm_materials s) handle;
          i \<leftarrow> slot;
          m \<leftarrow> hm_metadata (sm_materials s) i;
          let material = material_at (hs_value m);
          slot' \<leftarrow> vd_handle_use (sm_blueprints s) (ma_blueprint material);
          j \<leftarrow> slot';
          b \<leftarrow> hm_metadata (sm_blueprints s) j;
          let blueprint = blueprint_at (hs_value b);
          (property_set, d2, st2) \<leftarrow> write_set kd k sg textures s d1 h (ma_buffers material) (mb_property_layout blueprint)
            (take (length (mb_properties blueprint)) (ma_properties material)) st1;
          Some (\<lparr>gi_material = handle, gi_pass = 0, gi_default_set = set0, gi_property_set = property_set\<rparr>, d2, st2) }"

section \<open>What is written\<close>

text \<open>The buffer of a structure is the one of its rank among the structures.\<close>

definition rank :: "MaterialProperty list \<Rightarrow> nat \<Rightarrow> nat" where
  "rank ps i = length (filter (\<lambda>p. bi_type (mp_binding p) = BINDING_TYPE_STRUCT) (take i ps))"

definition view_of :: "vd_handlemap \<Rightarrow> MaterialProperty \<Rightarrow> u64" where
  "view_of textures p = tex_view (texture_at (hs_value (the (hm_metadata textures (unat (mp_word0 p) - 1)))))"

definition expected_write :: "vd_handlemap \<Rightarrow> u64 \<Rightarrow> (u64 \<times> u64) list \<Rightarrow> MaterialProperty list \<Rightarrow> nat \<Rightarrow> SetWrite" where
  "expected_write textures linear buffers ps i =
     (let p = ps ! i in
      \<lparr>sw_dstBinding = i, sw_descriptorType = binding_type_to_vk_descriptor_type (bi_type (mp_binding p)),
       sw_info = (case bi_type (mp_binding p) of
          BINDING_TYPE_STRUCT \<Rightarrow> BufferInfo (fst (buffers ! rank ps i)) (bi_struct_size (mp_binding p))
        | BINDING_TYPE_SAMPLER2D \<Rightarrow> ImageInfo (view_of textures p) linear
        | BINDING_TYPE_INVALID \<Rightarrow> NoInfo)\<rparr>)"

text \<open>
  The memory the structures go to. \<open>ptr\<close> gives the address of an allocation that was created mapped, as the
  uniform buffers are (\<open>VMA_ALLOCATION_CREATE_MAPPED_BIT\<close>), and \<open>content\<close> its bytes. Mapping such an allocation
  again is documented to succeed with the same address; nothing is assumed of other allocations. Bytes
  that are written at the address of an allocation replace its first bytes, and those of no other.
\<close>

definition mapped_memory ::
  "'v gpu \<Rightarrow> 'v set_gpu \<Rightarrow> ('v \<Rightarrow> u64 \<Rightarrow> u64 option) \<Rightarrow> ('v \<Rightarrow> u64 \<Rightarrow> u8 list) \<Rightarrow> bool" where
  "mapped_memory k sg ptr content \<longleftrightarrow>
     (\<forall>m a v x. ptr v a = Some x \<longrightarrow>
        (\<exists>v'. vmaMapMemory k m a v = (Some x, v') \<and> ptr v' = ptr v \<and> content v' = content v)) \<and>
     (\<forall>m a v x. ptr v a = Some x \<longrightarrow>
        ptr (vmaUnmapMemory k m a v) = ptr v \<and> content (vmaUnmapMemory k m a v) = content v) \<and>
     (\<forall>v a x bytes. ptr v a = Some x \<and> length bytes \<le> length (content v a) \<longrightarrow>
        ptr (write_mapped sg x bytes v) = ptr v \<and>
        content (write_mapped sg x bytes v) = (content v)(a := bytes @ drop (length bytes) (content v a)))"

definition struct_data :: "blocks \<Rightarrow> MaterialProperty \<Rightarrow> u8 list" where
  "struct_data h p = the (block_read h (mp_pstruct p) (unat (bi_struct_size (mp_binding p))))"

definition stored :: "blocks \<Rightarrow> MaterialProperty \<Rightarrow> u8 list \<Rightarrow> u8 list" where
  "stored h p old = struct_data h p @ drop (unat (bi_struct_size (mp_binding p))) old"

text \<open>A structure with its data and a mapped allocation that has room for it.\<close>

definition uploadable :: "('v \<Rightarrow> u64 \<Rightarrow> u64 option) \<Rightarrow> ('v \<Rightarrow> u64 \<Rightarrow> u8 list) \<Rightarrow> blocks \<Rightarrow> 'v \<Rightarrow> u64 \<Rightarrow> MaterialProperty \<Rightarrow> bool" where
  "uploadable ptr content h v a p \<longleftrightarrow>
     block_read h (mp_pstruct p) (unat (bi_struct_size (mp_binding p))) \<noteq> None \<and> ptr v a \<noteq> None \<and>
     unat (bi_struct_size (mp_binding p)) \<le> length (content v a)"

lemma struct_data_length:
  "block_read h (mp_pstruct p) (unat (bi_struct_size (mp_binding p))) \<noteq> None \<Longrightarrow>
     length (struct_data h p) = unat (bi_struct_size (mp_binding p))"
  by (auto simp: struct_data_def block_read_def split: if_splits)

lemma upload_struct_stores:
  assumes D: "mapped_memory k sg ptr content" and u: "uploadable ptr content h v (snd buffer) p"
  shows "\<exists>v'. upload_struct k sg h buffer p (c, v) = Some (c, v') \<and> ptr v' = ptr v \<and>
    content v' = (content v)(snd buffer := stored h p (content v (snd buffer)))"
proof -
  let ?a = "snd buffer" and ?d = "struct_data h p"
  obtain x where x: "ptr v ?a = Some x" using u by (auto simp: uploadable_def)
  have r: "block_read h (mp_pstruct p) (unat (bi_struct_size (mp_binding p))) = Some ?d"
    "length ?d = unat (bi_struct_size (mp_binding p))"
    using u struct_data_length by (auto simp: uploadable_def struct_data_def)
  obtain v1 where v1: "vmaMapMemory k (svma_allocator c) ?a v = (Some x, v1)" "ptr v1 = ptr v" "content v1 = content v"
    using D x unfolding mapped_memory_def by blast
  let ?v2 = "write_mapped sg x ?d v1"
  have v2: "ptr ?v2 = ptr v" "content ?v2 = (content v)(?a := stored h p (content v ?a))"
    using D x u v1(2,3) r(2) unfolding mapped_memory_def uploadable_def stored_def by metis+
  have "ptr (vmaUnmapMemory k (svma_allocator c) ?a ?v2) = ptr v"
    "content (vmaUnmapMemory k (svma_allocator c) ?a ?v2) = (content v)(?a := stored h p (content v ?a))"
    using D x v2 unfolding mapped_memory_def by metis+
  moreover have "upload_struct k sg h buffer p (c, v) = Some (c, vmaUnmapMemory k (svma_allocator c) ?a ?v2)"
    using v1(1) r(1) by (simp add: upload_struct_def svma_map_def svma_unmap_def)
  ultimately show ?thesis by blast
qed

lemma use_texture:
  assumes "hm_inv textures" and "hm_live_id textures (mp_sampler2d p)"
  shows "\<exists>s. vd_handle_use textures (mp_sampler2d p) = Some (Some (unat (mp_word0 p) - 1)) \<and>
    hm_metadata textures (unat (mp_word0 p) - 1) = Some s \<and> view_of textures p = tex_view (texture_at (hs_value s))"
proof -
  obtain s where "hm_metadata textures (unat (vh_id (mp_sampler2d p)) - 1) = Some s" using hm_slot_registered [OF assms] by blast
  then show ?thesis using hm_use_registered [OF assms] by (simp add: mp_sampler2d_def view_of_def)
qed

lemma rank_Suc: "i < length ps \<Longrightarrow> rank ps (Suc i) = rank ps i + (if bi_type (mp_binding (ps ! i)) = BINDING_TYPE_STRUCT then 1 else 0)"
  by (simp add: rank_def take_Suc_conv_app_nth)

lemma rank_le: "rank ps i \<le> structs (map mp_binding ps)"
proof -
  have "map mp_binding ps = map mp_binding (take i ps) @ map mp_binding (drop i ps)" by (simp flip: map_append)
  then have "structs (map mp_binding ps) = structs (map mp_binding (take i ps)) + structs (map mp_binding (drop i ps))"
    by (simp add: structs_def)
  then show ?thesis by (simp add: rank_def structs_def filter_map comp_def)
qed

text \<open>The allocation of a structure, and what the memory holds when the properties before \<open>i\<close> are written.\<close>

definition alloc_of :: "(u64 \<times> u64) list \<Rightarrow> MaterialProperty list \<Rightarrow> nat \<Rightarrow> u64" where
  "alloc_of buffers ps i = snd (buffers ! rank ps i)"

definition struct_at :: "MaterialProperty list \<Rightarrow> nat \<Rightarrow> bool" where
  "struct_at ps i \<longleftrightarrow> i < length ps \<and> bi_type (mp_binding (ps ! i)) = BINDING_TYPE_STRUCT"

definition holds_structs ::
  "blocks \<Rightarrow> (u64 \<times> u64) list \<Rightarrow> MaterialProperty list \<Rightarrow> nat \<Rightarrow> (u64 \<Rightarrow> u8 list) \<Rightarrow> (u64 \<Rightarrow> u8 list) \<Rightarrow> bool" where
  "holds_structs h buffers ps n f0 f \<longleftrightarrow>
     (\<forall>i. struct_at ps i \<and> i < n \<longrightarrow> f (alloc_of buffers ps i) = stored h (ps ! i) (f0 (alloc_of buffers ps i))) \<and>
     (\<forall>a. (\<forall>i. struct_at ps i \<and> i < n \<longrightarrow> a \<noteq> alloc_of buffers ps i) \<longrightarrow> f a = f0 a)"

lemma holds_structs_Suc:
  assumes "holds_structs h buffers ps n f0 f" and "struct_at ps n"
    and "\<forall>i. struct_at ps i \<and> i < n \<longrightarrow> alloc_of buffers ps i \<noteq> alloc_of buffers ps n"
  shows "holds_structs h buffers ps (Suc n) f0
    (f(alloc_of buffers ps n := stored h (ps ! n) (f (alloc_of buffers ps n))))"
proof -
  have "f (alloc_of buffers ps n) = f0 (alloc_of buffers ps n)" using assms(1,3) unfolding holds_structs_def by metis
  then show ?thesis using assms unfolding holds_structs_def by (auto simp: less_Suc_eq)
qed

lemma holds_structs_skip: "holds_structs h buffers ps n f0 f \<Longrightarrow> \<not> struct_at ps n \<Longrightarrow> holds_structs h buffers ps (Suc n) f0 f"
  unfolding holds_structs_def by (metis less_Suc_eq)

text \<open>Different structures go to different allocations.\<close>

definition apart :: "(u64 \<times> u64) list \<Rightarrow> MaterialProperty list \<Rightarrow> bool" where
  "apart buffers ps \<longleftrightarrow> (\<forall>i j. struct_at ps i \<and> struct_at ps j \<and> i \<noteq> j \<longrightarrow> alloc_of buffers ps i \<noteq> alloc_of buffers ps j)"

lemma write_loop_spec:
  assumes D: "mapped_memory k sg ptr content" and inv: "hm_inv textures"
    and room: "structs (map mp_binding all) \<le> length buffers"
    and tex: "\<forall>i < length all. bi_type (mp_binding (all ! i)) = BINDING_TYPE_SAMPLER2D \<longrightarrow> hm_live_id textures (mp_sampler2d (all ! i))"
    and up: "\<forall>i. struct_at all i \<longrightarrow> uploadable ptr content h v0 (alloc_of buffers all i) (all ! i)"
    and ap: "apart buffers all"
  shows "i \<le> length all \<Longrightarrow> ps = drop i all \<Longrightarrow> ptr v = ptr v0 \<Longrightarrow> holds_structs h buffers all i (content v0) (content v) \<Longrightarrow>
    \<exists>v'. write_loop k sg textures linear h buffers i (rank all i) ps (c, v)
      = Some (map (expected_write textures linear buffers all) [i..<length all], c, v') \<and>
      holds_structs h buffers all (length all) (content v0) (content v')"
proof (induction ps arbitrary: i v)
  case Nil
  then show ?case by simp
next
  case (Cons p ps)
  have i: "i < length all" "p = all ! i" "ps = drop (Suc i) all"
    using Cons.prems(1,2) by (metis drop_all list.distinct(1) not_less, metis nth_via_drop, metis drop_Suc tl_drop list.sel(3))
  have n: "[i..<length all] = i # [Suc i..<length all]" using i(1) by (simp add: upt_conv_Cons)
  have IH: "\<exists>v'. write_loop k sg textures linear h buffers (Suc i) (rank all (Suc i)) ps (c, v1)
      = Some (map (expected_write textures linear buffers all) [Suc i..<length all], c, v') \<and>
      holds_structs h buffers all (length all) (content v0) (content v')"
    if "ptr v1 = ptr v0" "holds_structs h buffers all (Suc i) (content v0) (content v1)" for v1
    using Cons.IH [of "Suc i" v1] i that by simp
  have skip: "\<exists>v'. write_loop k sg textures linear h buffers (Suc i) (rank all i) ps (c, v)
      = Some (map (expected_write textures linear buffers all) [Suc i..<length all], c, v') \<and>
      holds_structs h buffers all (length all) (content v0) (content v')"
    if no: "bi_type (mp_binding p) \<noteq> BINDING_TYPE_STRUCT"
  proof -
    have "\<not> struct_at all i" "rank all (Suc i) = rank all i" using no rank_Suc [OF i(1)] i(2) by (simp_all add: struct_at_def)
    then show ?thesis using IH [OF Cons.prems(3)] holds_structs_skip [OF Cons.prems(4)] by simp
  qed
  show ?case
  proof (cases "bi_type (mp_binding p)")
    case BINDING_TYPE_INVALID
    then show ?thesis using skip i(2) by (auto simp: n expected_write_def Let_def)
  next
    case BINDING_TYPE_SAMPLER2D
    obtain s where "vd_handle_use textures (mp_sampler2d p) = Some (Some (unat (mp_word0 p) - 1))"
      "hm_metadata textures (unat (mp_word0 p) - 1) = Some s" "view_of textures p = tex_view (texture_at (hs_value s))"
      using use_texture [OF inv, of p] tex i BINDING_TYPE_SAMPLER2D by auto
    then show ?thesis using skip BINDING_TYPE_SAMPLER2D i(2) by (auto simp: n expected_write_def Let_def)
  next
    case BINDING_TYPE_STRUCT
    then have si: "struct_at all i" and r: "rank all (Suc i) = Suc (rank all i)"
      using rank_Suc [OF i(1)] i(1,2) by (simp_all add: struct_at_def)
    then have b: "rank all i < length buffers" using rank_le [of all "Suc i"] room by simp
    let ?a = "alloc_of buffers all i"
    have other: "\<forall>j. struct_at all j \<and> j < i \<longrightarrow> alloc_of buffers all j \<noteq> ?a" using ap si by (auto simp: apart_def)
    then have "content v ?a = content v0 ?a" using Cons.prems(4) unfolding holds_structs_def by metis
    then have u: "uploadable ptr content h v (snd (buffers ! rank all i)) p"
      using up si i(2) Cons.prems(3) by (simp add: uploadable_def alloc_of_def)
    obtain v1 where v1: "upload_struct k sg h (buffers ! rank all i) p (c, v) = Some (c, v1)" "ptr v1 = ptr v"
      "content v1 = (content v)(?a := stored h p (content v ?a))"
      using upload_struct_stores [OF D u, of c] by (auto simp: alloc_of_def)
    have "ptr v1 = ptr v0" "holds_structs h buffers all (Suc i) (content v0) (content v1)"
      using v1(2,3) Cons.prems(3) holds_structs_Suc [OF Cons.prems(4) si other] i(2) by simp_all
    then show ?thesis using IH [of v1] BINDING_TYPE_STRUCT i(2) r b v1(1) by (auto simp: n expected_write_def Let_def)
  qed
qed

text \<open>C39. Writing a descriptor set, when every texture exists and every structure has its data and a buffer of its
  own that was created mapped and is large enough: each property gets the binding of its position with its
  own type; a structure is written from the buffer of its rank among the structures, a texture from the
  view of its image. Before that the data of each structure were copied to the front of its buffer, and
  no other memory of the device has changed.\<close>

theorem write_set_correct:
  assumes "vd_descriptor_allocator_allocate kd d (unat set_layout) 0 v = Some (return_set, d', v1)"
    and "mapped_memory k sg ptr content" and "hm_inv textures"
    and "structs (map mp_binding props) \<le> length buffers"
    and "\<forall>i < length props. bi_type (mp_binding (props ! i)) = BINDING_TYPE_SAMPLER2D \<longrightarrow>
      hm_live_id textures (mp_sampler2d (props ! i))"
    and "\<forall>i. struct_at props i \<longrightarrow> uploadable ptr content h v1 (alloc_of buffers props i) (props ! i)"
    and "apart buffers props"
  shows "\<exists>v2. write_set kd k sg textures s d h buffers set_layout props (c, v) =
      Some (return_set, d', c, update_sets sg (sm_device s) return_set
        (map (expected_write textures (sm_linear s) buffers props) [0..<length props]) v2) \<and>
    (\<forall>i. struct_at props i \<longrightarrow>
       content v2 (alloc_of buffers props i) =
         struct_data h (props ! i) @ drop (unat (bi_struct_size (mp_binding (props ! i)))) (content v1 (alloc_of buffers props i))) \<and>
    (\<forall>a. (\<forall>i. struct_at props i \<longrightarrow> a \<noteq> alloc_of buffers props i) \<longrightarrow> content v2 a = content v1 a)"
proof -
  have "rank props 0 = 0" "holds_structs h buffers props 0 (content v1) (content v1)"
    by (simp_all add: rank_def holds_structs_def)
  then obtain v2 where v2: "write_loop k sg textures (sm_linear s) h buffers 0 0 props (c, v1) =
      Some (map (expected_write textures (sm_linear s) buffers props) [0..<length props], c, v2)"
    "holds_structs h buffers props (length props) (content v1) (content v2)"
    using write_loop_spec [OF assms(2-7), of 0 props v1 "sm_linear s" c] by auto
  have "struct_at props i \<and> i < length props \<longleftrightarrow> struct_at props i" for i by (auto simp: struct_at_def)
  then show ?thesis
    using assms(1) v2 by (intro exI [of _ v2]) (simp add: write_set_def holds_structs_def stored_def)
qed

text \<open>A device that is only its mapped memory; an allocation without bytes does not exist.\<close>

type_synonym demo_bytes = "u64 \<Rightarrow> u8 list"

definition demo_map_gpu :: "demo_bytes gpu" where
  "demo_map_gpu = \<lparr>vd_memory_get_system_allocator = 1, vmaCreateAllocator = (\<lambda>_ _ _ v. (Some 1, v)),
     vmaDestroyAllocator = (\<lambda>_ v. v), vmaCreateBuffer = (\<lambda>_ _ _ v. (None, v)), vmaCreateImage = (\<lambda>_ _ _ v. (None, v)),
     vmaDestroyBuffer = (\<lambda>_ _ _ v. v), vmaDestroyImage = (\<lambda>_ _ _ v. v), vmaSetAllocationUserData = (\<lambda>_ _ _ v. v),
     vmaGetAllocationInfo = (\<lambda>_ _ _. (0, 0)), vmaMapMemory = (\<lambda>_ a v. (if v a = [] then None else Some a, v)),
     vmaUnmapMemory = (\<lambda>_ _ v. v), vkGetBufferDeviceAddress = (\<lambda>_ _ _. 0), vkCreateImageView = (\<lambda>_ _ _ _ v. (None, v)),
     vkDestroyImageView = (\<lambda>_ _ v. v), vd_vk_create_shader_module = (\<lambda>_ _ v. (None, v)), vkDestroyShaderModule = (\<lambda>_ _ v. v)\<rparr>"

definition demo_set_gpu :: "demo_bytes set_gpu" where
  "demo_set_gpu = \<lparr>write_mapped = (\<lambda>x bytes v. v(x := bytes @ drop (length bytes) (v x))), update_sets = (\<lambda>_ _ _ v. v)\<rparr>"

definition demo_ptr :: "demo_bytes \<Rightarrow> u64 \<Rightarrow> u64 option" where
  "demo_ptr v a = (if v a = [] then None else Some a)"

lemma demo_mapped_memory: "mapped_memory demo_map_gpu demo_set_gpu demo_ptr id"
  by (auto simp: mapped_memory_def demo_map_gpu_def demo_set_gpu_def demo_ptr_def fun_eq_iff split: if_splits)

definition demo_sets :: "demo_bytes vk_descriptors" where
  "demo_sets = \<lparr>VD_MM_FRAME_ALLOCATOR = 1, VD_MM_GLOBAL_ALLOCATOR = 2, vkCreateDescriptorPool = (\<lambda>_ _ _ v. (Some 8, v)),
     vkAllocateDescriptorSets = (\<lambda>_ _ _ _ v. (VK_SUCCESS 5, v)), vkResetDescriptorPool = (\<lambda>_ _ v. v),
     vkDestroyDescriptorPool = (\<lambda>_ _ v. v), vkUpdateDescriptorSets = (\<lambda>_ _ v. v)\<rparr>"

definition demo_pools :: VD_DescriptorAllocator where
  "demo_pools = \<lparr>dsa_device = 9, dsa_ratios = None, dsa_full_pools = None,
     dsa_free_pools = Some \<lparr>da_len = 1, da_cap = 2, da_allocator = 2, da_slots = [Some 7, None]\<rparr>, dsa_sets_per_pool = 10\<rparr>"

text \<open>A texture and a structure with four bytes, in a buffer of six.\<close>

theorem write_set_correct_witness:
  "\<exists>st0 s c v textures handle s' d' c' v2. smat_init demo_gpu demo_mat demo_smi st0 = Some (0, s, c, v) \<and> hm_object textures handle s' \<and>
     write_set demo_sets demo_map_gpu demo_set_gpu textures s demo_pools [[1, 2, 3, 4]] [(11, 12)] 3
       [\<lparr>mp_binding = \<lparr>bi_type = BINDING_TYPE_SAMPLER2D, bi_struct_size = 0\<rparr>, mp_word0 = vh_id handle, mp_word1 = if vh_map handle then 1 else 0\<rparr>,
        \<lparr>mp_binding = \<lparr>bi_type = BINDING_TYPE_STRUCT, bi_struct_size = 4\<rparr>, mp_word0 = 1, mp_word1 = 0\<rparr>]
       (c, (\<lambda>_. [])(12 := [9, 9, 9, 9, 9, 9]))
     = Some (Some 5, d', c', v2) \<and> v2 12 = [1, 2, 3, 4, 9, 9]"
proof -
  obtain m0 where m0: "vd_handlemap__init 40 64 = Some m0" "hm_bytes 40 (length (hm_arr m0) * 2) < 2 ^ 64"
    by (simp add: vd_handlemap__init_def hm_bytes_def)
  have inv0: "owner_inv (\<lambda>_. True) (\<lambda>_. {}) 40 ({} :: gpu_object set) m0 {}" by (rule owner_inv_init [OF m0(1)]) simp
  let ?t = "\<lparr>tex_image = 1, tex_view = 2, tex_allocation = 1, tex_extent = \<lparr>ext_width = 4, ext_height = 2, ext_depth = 1\<rparr>, tex_format = 37\<rparr>"
  obtain handle m s' where m: "owner_inv (\<lambda>_. True) (\<lambda>_. {}) 40 ({} :: gpu_object set) m {}" "hm_object m handle s'"
    using owner_register [OF inv0 m0(2), of "texture_bytes ?t"] by auto
  let ?p = "\<lparr>mp_binding = \<lparr>bi_type = BINDING_TYPE_SAMPLER2D, bi_struct_size = 0\<rparr>, mp_word0 = vh_id handle, mp_word1 = if vh_map handle then 1 else 0\<rparr>"
  let ?q = "\<lparr>mp_binding = \<lparr>bi_type = BINDING_TYPE_STRUCT, bi_struct_size = 4\<rparr>, mp_word0 = 1, mp_word1 = 0\<rparr>"
  let ?v = "(\<lambda>_. [])(12 := [9, 9, 9, 9, 9, 9]) :: demo_bytes" and ?h = "[[1, 2, 3, 4]] :: blocks"
  have live: "hm_live_id m (mp_sampler2d ?p)" using m(2) by (simp add: hm_object_def hm_live_id_def mp_sampler2d_def)
  have inv: "hm_inv m" by (rule owner_invD(1) [OF m(1)])
  have alloc: "\<exists>d'. vd_descriptor_allocator_allocate demo_sets demo_pools (unat (3 :: u64)) 0 ?v = Some (Some 5, d', ?v)"
    by (simp add: vd_descriptor_allocator_allocate_def get_pool_def demo_pools_def demo_sets_def array_len_def array_pop_def
        array_add_def array_check_grow_def vd_array_grow_def array_cap_def Let_def)
  then obtain d' where d': "vd_descriptor_allocator_allocate demo_sets demo_pools (unat (3 :: u64)) 0 ?v = Some (Some 5, d', ?v)" by blast
  have n: "structs (map mp_binding [?p, ?q]) \<le> length [(11 :: u64, 12 :: u64)]" by (simp add: structs_def)
  have one: "struct_at [?p, ?q] i \<longleftrightarrow> i = 1" for i by (auto simp: struct_at_def less_Suc_eq nth_Cons split: nat.splits)
  have a: "alloc_of [(11, 12)] [?p, ?q] 1 = 12" by (simp add: alloc_of_def rank_def)
  have t: "\<forall>i < length [?p, ?q]. bi_type (mp_binding ([?p, ?q] ! i)) = BINDING_TYPE_SAMPLER2D \<longrightarrow>
      hm_live_id m (mp_sampler2d ([?p, ?q] ! i))" using live by (auto simp: less_Suc_eq)
  have u: "\<forall>i. struct_at [?p, ?q] i \<longrightarrow> uploadable demo_ptr id ?h ?v (alloc_of [(11, 12)] [?p, ?q] i) ([?p, ?q] ! i)"
    using a by (simp add: one uploadable_def demo_ptr_def block_read_def mp_pstruct_def)
  have ap: "apart [(11, 12)] [?p, ?q]" by (simp add: apart_def one)
  obtain st0 s c v where s: "smat_init demo_gpu demo_mat demo_smi st0 = Some (0, s, c, v)" using demo_smat_init by blast
  from write_set_correct [OF d' demo_mapped_memory inv n t u ap, of s c] obtain v2 where
    v2: "write_set demo_sets demo_map_gpu demo_set_gpu m s demo_pools ?h [(11, 12)] 3 [?p, ?q] (c, ?v)
      = Some (Some 5, d', c, update_sets demo_set_gpu (sm_device s) (Some 5)
          (map (expected_write m (sm_linear s) [(11, 12)] [?p, ?q]) [0..<length [?p, ?q]]) v2)"
    "\<forall>i. struct_at [?p, ?q] i \<longrightarrow> id v2 (alloc_of [(11, 12)] [?p, ?q] i) = struct_data ?h ([?p, ?q] ! i) @
       drop (unat (bi_struct_size (mp_binding ([?p, ?q] ! i)))) (id ?v (alloc_of [(11, 12)] [?p, ?q] i))"
    by blast
  have "v2 12 = [1, 2, 3, 4, 9, 9]"
    using v2(2) a by (simp add: one struct_data_def block_read_def mp_pstruct_def)
  moreover have "update_sets demo_set_gpu x y z v2 = v2" for x y z by (simp add: demo_set_gpu_def)
  ultimately show ?thesis using s m(2) v2(1) by metis
qed

text \<open>The flag of the fragment stage is also the flag of the compute stage.\<close>

lemma shader_stage_fragment_is_compute:
  "vd_shader_stage_to_vk_shader_stage SHADER_STAGE_VERT_BIT = VK_SHADER_STAGE_VERTEX_BIT"
  "vd_shader_stage_to_vk_shader_stage SHADER_STAGE_FRAG_BIT = VK_SHADER_STAGE_FRAGMENT_BIT OR VK_SHADER_STAGE_COMPUTE_BIT"
  by (simp_all add: vd_shader_stage_to_vk_shader_stage_def SHADER_STAGE_VERT_BIT_def SHADER_STAGE_FRAG_BIT_def SHADER_STAGE_COMP_BIT_def
      VK_SHADER_STAGE_VERTEX_BIT_def VK_SHADER_STAGE_FRAGMENT_BIT_def VK_SHADER_STAGE_COMPUTE_BIT_def)

section \<open>The copy of the properties\<close>

definition has_struct :: "MaterialProperty \<Rightarrow> bool" where
  "has_struct p \<longleftrightarrow> bi_type (mp_binding p) = BINDING_TYPE_STRUCT"

definition lacks_data :: "MaterialProperty \<Rightarrow> bool" where
  "lacks_data p \<longleftrightarrow> has_struct p \<and> mp_pstruct p = 0"

definition zero_block :: "MaterialProperty \<Rightarrow> u8 list" where
  "zero_block p = replicate (unat (bi_struct_size (mp_binding p))) 0"

text \<open>The structures point to the blocks from number \<open>n + 1\<close> on.\<close>

fun repointed :: "nat \<Rightarrow> MaterialProperty list \<Rightarrow> MaterialProperty list" where
  "repointed n [] = []"
| "repointed n (p # ps) = (if has_struct p then p\<lparr>mp_word0 := of_nat (Suc n)\<rparr> # repointed (Suc n) ps else p # repointed n ps)"

lemma copy_properties_eq:
  "copy_properties ps h =
     (if list_ex lacks_data ps then None else Some (repointed (length h) ps, h @ map zero_block (filter has_struct ps)))"
  by (induction ps arbitrary: h) (auto simp: lacks_data_def has_struct_def zero_block_def block_new_def)

text \<open>C40. Copying the properties of a blueprint or a material: it is not defined when a structure comes without data,
  and when all have their data, the copy of each structure is a new block of zeros. What a client supplies as
  the initial value of a structure is lost, the two branches are exchanged.\<close>

theorem alloc_copy_or_zero_properties_exchanged:
  "alloc_copy_or_zero_properties src n h =
     (if n \<le> length src \<and> n \<le> 8 \<and> list_all (Not \<circ> lacks_data) (take n src)
      then Some (repointed (length h) (take n src), h @ map zero_block (filter has_struct (take n src)))
      else None)"
  by (auto simp: alloc_copy_or_zero_properties_def copy_properties_eq list_all_iff list_ex_iff)

end
