(* ===== verification/Upload.thy ===== *)
theory Upload
  imports Resources
begin

text \<open>
  Filling meshes: the part of ng/src/renderer.c that copies vertices and indices to the device, through a
  staging buffer and commands that are submitted and waited for. Bytes are lists; the contents of the memory of
  an allocation are part of the state of the device.
\<close>

section \<open>Definitions\<close>

record BufferCopy =
  cp_src :: u64
  cp_dst :: u64
  cp_srcOffset :: u64
  cp_dstOffset :: u64
  cp_size :: u64

text \<open>The commands that the renderer records here: copies between buffers, barriers on all mip levels and layers of an
  image that change its layout, and copies of a buffer to the first level of an image.\<close>

record VkImageMemoryBarrier2 =
  imb_image :: u64
  imb_srcStageMask :: u64
  imb_srcAccessMask :: u64
  imb_dstStageMask :: u64
  imb_dstAccessMask :: u64
  imb_oldLayout :: u32
  imb_newLayout :: u32
  imb_aspectMask :: u32

datatype command = CmdCopyBuffer BufferCopy | CmdImageBarrier VkImageMemoryBarrier2 | CmdCopyBufferToImage u64 u64 u32 VkExtent3D

text \<open>\<open>write_memory\<close> is \<open>memcpy\<close> to mapped memory; \<open>submit\<close> runs a list of
  recorded commands to their end, from the reset of the fence to the wait for it.\<close>

record 'v cmd_gpu =
  write_memory :: "u64 \<Rightarrow> u8 list \<Rightarrow> 'v \<Rightarrow> 'v"
  submit :: "command list \<Rightarrow> 'v \<Rightarrow> 'v option"

definition vd_renderer_map_buffer :: "'v gpu \<Rightarrow> u64 \<times> u64 \<Rightarrow> SVMA \<times> 'v \<Rightarrow> (u64 \<times> SVMA \<times> 'v) option" where
  "vd_renderer_map_buffer k buffer st = svma_map k (snd buffer) st"

definition vd_renderer_unmap_buffer :: "'v gpu \<Rightarrow> u64 \<times> u64 \<Rightarrow> SVMA \<times> 'v \<Rightarrow> SVMA \<times> 'v" where
  "vd_renderer_unmap_buffer k buffer st = svma_unmap k (snd buffer) st"

definition vd_renderer_imm_end :: "'v cmd_gpu \<Rightarrow> command list \<Rightarrow> SVMA \<times> 'v \<Rightarrow> (SVMA \<times> 'v) option" where
  "vd_renderer_imm_end cg cmd st = (let (c, v) = st in do { v' \<leftarrow> submit cg cmd v; Some (c, v') })"

record VD_R_MeshWriteInfo =
  mwi_mesh :: vd_handle
  mwi_vertices :: "u8 list"
  mwi_num_vertices :: u64
  mwi_indices :: "u8 list"
  mwi_num_indices :: u64

text \<open>The staging buffer with the vertices and behind them the indices.\<close>

definition fill_staging ::
  "'v gpu \<Rightarrow> 'v cmd_gpu \<Rightarrow> u8 list \<Rightarrow> u64 \<Rightarrow> u8 list \<Rightarrow> u64 \<Rightarrow> SVMA \<times> 'v \<Rightarrow> ((u64 \<times> u64) \<times> SVMA \<times> 'v) option" where
  "fill_staging k cg vertices bytes_vertices indices bytes_indices st =
     do { (staging, st1) \<leftarrow> vd_renderer_create_buffer k (bytes_indices + bytes_vertices)
            VK_BUFFER_USAGE_TRANSFER_SRC_BIT VMA_MEMORY_USAGE_CPU_ONLY st;
          (data, c, v) \<leftarrow> svma_map k (snd staging) st1;
          let v' = write_memory cg data vertices v;
          let v'' = write_memory cg (data + bytes_vertices) indices v';
          Some (staging, svma_unmap k (snd staging) (c, v'')) }"

text \<open>The sizes of the allocations, which the code asks for and does not use, are left out.\<close>

definition vd_renderer_write_mesh ::
  "'v gpu \<Rightarrow> 'v cmd_gpu \<Rightarrow> VD_Renderer \<Rightarrow> VD_R_MeshWriteInfo \<Rightarrow> SVMA \<times> 'v \<Rightarrow> (VD_Renderer \<times> SVMA \<times> 'v) option" where
  "vd_renderer_write_mesh k cg r info st =
     (let bytes_indices = 4 * mwi_num_indices info; bytes_vertices = 48 * mwi_num_vertices info in
      do { slot \<leftarrow> vd_handle_use (geo_meshes (rn_geos r)) (mwi_mesh info);
           i \<leftarrow> slot;
           (staging, st1) \<leftarrow> fill_staging k cg (mwi_vertices info) bytes_vertices (mwi_indices info) bytes_indices st;
           (_, g, st2) \<leftarrow> sgeo_resize k (rn_geos r) (mwi_mesh info)
             \<lparr>mci_num_vertices = mwi_num_vertices info, mci_num_indices = mwi_num_indices info\<rparr> st1;
           s \<leftarrow> hm_metadata (geo_meshes g) i;
           let mesh = (mesh_of (hs_value s))\<lparr>gm_num_vertices := mwi_num_vertices info, gm_num_indices := mwi_num_indices info\<rparr>;
           meshes \<leftarrow> write_object (geo_meshes g) i (mesh_bytes mesh);
           st3 \<leftarrow> vd_renderer_imm_end cg
             [CmdCopyBuffer \<lparr>cp_src = fst staging, cp_dst = gm_vertex_buffer mesh, cp_srcOffset = 0, cp_dstOffset = 0, cp_size = bytes_vertices\<rparr>,
               CmdCopyBuffer \<lparr>cp_src = fst staging, cp_dst = gm_index_buffer mesh, cp_srcOffset = bytes_vertices, cp_dstOffset = 0, cp_size = bytes_indices\<rparr>] st2;
           st4 \<leftarrow> vd_renderer_destroy_buffer k staging st3;
           Some (r\<lparr>rn_geos := g\<lparr>geo_meshes := meshes\<rparr>\<rparr>, st4) })"

text \<open>A mesh that is not kept in a map. The result is a local variable without an initial value, of which the
  numbers of vertices and indices are never set: it is an argument here.\<close>

definition vd_renderer_upload_mesh ::
  "'v gpu \<Rightarrow> 'v cmd_gpu \<Rightarrow> u64 \<Rightarrow> gpu_mesh \<Rightarrow> u8 list \<Rightarrow> u64 \<Rightarrow> u8 list \<Rightarrow> u64 \<Rightarrow> SVMA \<times> 'v \<Rightarrow> (gpu_mesh \<times> SVMA \<times> 'v) option" where
  "vd_renderer_upload_mesh k cg device result indices num_indices vertices num_vertices st =
     (let bytes_indices = 4 * num_indices; bytes_vertices = 48 * num_vertices in
      do { (ibuf, st1) \<leftarrow> vd_renderer_create_buffer k bytes_indices
             (VK_BUFFER_USAGE_INDEX_BUFFER_BIT OR VK_BUFFER_USAGE_TRANSFER_DST_BIT) VMA_MEMORY_USAGE_GPU_ONLY st;
           (vbuf, st2) \<leftarrow> vd_renderer_create_buffer k bytes_vertices
             (VK_BUFFER_USAGE_STORAGE_BUFFER_BIT OR VK_BUFFER_USAGE_TRANSFER_DST_BIT OR VK_BUFFER_USAGE_SHADER_DEVICE_ADDRESS_BIT)
             VMA_MEMORY_USAGE_GPU_ONLY st1;
           let address = vkGetBufferDeviceAddress k device (fst vbuf) (snd st2);
           (staging, st3) \<leftarrow> fill_staging k cg vertices bytes_vertices indices bytes_indices st2;
           st4 \<leftarrow> vd_renderer_imm_end cg
             [CmdCopyBuffer \<lparr>cp_src = fst staging, cp_dst = fst vbuf, cp_srcOffset = 0, cp_dstOffset = 0, cp_size = bytes_vertices\<rparr>,
               CmdCopyBuffer \<lparr>cp_src = fst staging, cp_dst = fst ibuf, cp_srcOffset = bytes_vertices, cp_dstOffset = 0, cp_size = bytes_indices\<rparr>] st3;
           st5 \<leftarrow> vd_renderer_destroy_buffer k staging st4;
           Some (result\<lparr>gm_vertex_buffer := fst vbuf, gm_vertex_allocation := snd vbuf, gm_index_buffer := fst ibuf,
                   gm_index_allocation := snd ibuf, gm_vertex_buffer_address := address\<rparr>, st5) })"

section \<open>What the code relies on\<close>

text \<open>
  The documented behaviour of buffers: \<open>mem\<close> is the contents of an allocation, \<open>bound\<close> the allocation of a
  buffer, and \<open>mapped v p a\<close> says that the pointer \<open>p\<close> is the start of the mapped allocation \<open>a\<close>. What is done to one
  allocation keeps the others that live.
\<close>

definition same_mem ::
  "('v \<Rightarrow> u64 \<Rightarrow> u8 list) \<Rightarrow> ('v \<Rightarrow> u64 \<Rightarrow> u64 option) \<Rightarrow> u64 \<Rightarrow> 'v \<Rightarrow> 'v \<Rightarrow> bool" where
  "same_mem mem bound a v v' \<longleftrightarrow> mem v' a = mem v a \<and> (\<forall>b. bound v b = Some a \<longrightarrow> bound v' b = Some a)"

definition overwrite :: "nat \<Rightarrow> u8 list \<Rightarrow> u8 list \<Rightarrow> u8 list" where
  "overwrite off bytes m = take off m @ bytes @ drop (off + length bytes) m"

definition run_copy :: "(u64 \<Rightarrow> u64 option) \<Rightarrow> BufferCopy \<Rightarrow> (u64 \<Rightarrow> u8 list) \<Rightarrow> u64 \<Rightarrow> u8 list" where
  "run_copy bound c m = (let s = the (bound (cp_src c)); d = the (bound (cp_dst c)) in
     m(d := overwrite (unat (cp_dstOffset c)) (take (unat (cp_size c)) (drop (unat (cp_srcOffset c)) (m s))) (m d)))"

definition copy_ok :: "gpu_object set \<Rightarrow> (u64 \<Rightarrow> u64 option) \<Rightarrow> (u64 \<Rightarrow> u8 list) \<Rightarrow> BufferCopy \<Rightarrow> bool" where
  "copy_ok lv bound m c \<longleftrightarrow> (\<exists>s d. bound (cp_src c) = Some s \<and> bound (cp_dst c) = Some d \<and> GAllocation s \<in> lv \<and> GAllocation d \<in> lv \<and>
     unat (cp_srcOffset c) + unat (cp_size c) \<le> length (m s) \<and> unat (cp_dstOffset c) + unat (cp_size c) \<le> length (m d))"

definition device_memory ::
  "'v gpu \<Rightarrow> 'v cmd_gpu \<Rightarrow> ('v \<Rightarrow> gpu_object set) \<Rightarrow> ('v \<Rightarrow> u64 \<Rightarrow> nat) \<Rightarrow> ('v \<Rightarrow> u64 \<Rightarrow> u8 list) \<Rightarrow> ('v \<Rightarrow> u64 \<Rightarrow> u64 option)
     \<Rightarrow> ('v \<Rightarrow> u64 \<Rightarrow> u64 \<Rightarrow> bool) \<Rightarrow> bool" where
  "device_memory k cg live ud mem bound mapped \<longleftrightarrow>
     (\<forall>m bi ai v b a v'. vmaCreateBuffer k m bi ai v = (Some (b, a), v') \<longrightarrow>
        bound v' b = Some a \<and> length (mem v' a) = unat (bci_size bi) \<and>
        (\<forall>x. GAllocation x \<in> live v \<longrightarrow> same_mem mem bound x v v')) \<and>
     (\<forall>m b a v. GAllocation a \<in> live v \<longrightarrow>
        (\<forall>x. GAllocation x \<in> live v \<longrightarrow> x \<noteq> a \<longrightarrow> same_mem mem bound x v (vmaDestroyBuffer k m b a v))) \<and>
     (\<forall>m a p v x. same_mem mem bound x v (vmaSetAllocationUserData k m a p v)) \<and>
     (\<forall>m a v p v'. vmaMapMemory k m a v = (Some p, v') \<longrightarrow> mapped v' p a \<and> (\<forall>x. same_mem mem bound x v v')) \<and>
     (\<forall>m a v x. same_mem mem bound x v (vmaUnmapMemory k m a v)) \<and>
     (\<forall>p a off bytes v. mapped v p a \<longrightarrow> off < 2 ^ 64 \<longrightarrow> off + length bytes \<le> length (mem v a) \<longrightarrow>
        (let v' = write_memory cg (p + of_nat off) bytes v in
         live v' = live v \<and> ud v' = ud v \<and> bound v' = bound v \<and> mapped v' = mapped v \<and> mem v' = (mem v)(a := overwrite off bytes (mem v a)))) \<and>
     (\<forall>c1 c2 v v'. submit cg [CmdCopyBuffer c1, CmdCopyBuffer c2] v = Some v' \<longrightarrow> copy_ok (live v) (bound v) (mem v) c1 \<longrightarrow>
        copy_ok (live v) (bound v) (run_copy (bound v) c1 (mem v)) c2 \<longrightarrow>
        live v' = live v \<and> ud v' = ud v \<and> bound v' = bound v \<and> mem v' = run_copy (bound v) c2 (run_copy (bound v) c1 (mem v)))"

lemma memory_create:
  "device_memory k cg live ud mem bound mapped \<Longrightarrow> vmaCreateBuffer k m bi ai v = (Some (b, a), v') \<Longrightarrow>
     bound v' b = Some a \<and> length (mem v' a) = unat (bci_size bi) \<and> (\<forall>x. GAllocation x \<in> live v \<longrightarrow> same_mem mem bound x v v')"
  unfolding device_memory_def by (elim conjE) metis

lemma memory_destroy:
  "device_memory k cg live ud mem bound mapped \<Longrightarrow> GAllocation a \<in> live v \<Longrightarrow> GAllocation x \<in> live v \<Longrightarrow> x \<noteq> a \<Longrightarrow>
     same_mem mem bound x v (vmaDestroyBuffer k m b a v)"
  unfolding device_memory_def by (elim conjE) metis

lemma memory_user_data: "device_memory k cg live ud mem bound mapped \<Longrightarrow> same_mem mem bound x v (vmaSetAllocationUserData k m a p v)"
  and memory_unmap: "device_memory k cg live ud mem bound mapped \<Longrightarrow> same_mem mem bound x v (vmaUnmapMemory k m a v)"
  by (simp_all add: device_memory_def)

lemma memory_map:
  "device_memory k cg live ud mem bound mapped \<Longrightarrow> vmaMapMemory k m a v = (Some p, v') \<Longrightarrow> mapped v' p a \<and> (\<forall>x. same_mem mem bound x v v')"
  unfolding device_memory_def by (elim conjE) metis

lemma memory_write:
  assumes "device_memory k cg live ud mem bound mapped" and "mapped v p a" and "off < 2 ^ 64" and "off + length bytes \<le> length (mem v a)"
    and "v' = write_memory cg (p + of_nat off) bytes v"
  shows "live v' = live v" "ud v' = ud v" "bound v' = bound v" "mapped v' = mapped v" "mem v' = (mem v)(a := overwrite off bytes (mem v a))"
  using assms unfolding device_memory_def Let_def by (elim conjE; metis)+

lemma memory_submit:
  assumes "device_memory k cg live ud mem bound mapped" and "submit cg [CmdCopyBuffer c1, CmdCopyBuffer c2] v = Some v'"
    and "copy_ok (live v) (bound v) (mem v) c1" and "copy_ok (live v) (bound v) (run_copy (bound v) c1 (mem v)) c2"
  shows "live v' = live v" "ud v' = ud v" "bound v' = bound v" "mem v' = run_copy (bound v) c2 (run_copy (bound v) c1 (mem v))"
  using assms unfolding device_memory_def by (elim conjE; metis)+

lemma same_mem_trans: "same_mem mem bound x v1 v2 \<Longrightarrow> same_mem mem bound x v2 v3 \<Longrightarrow> same_mem mem bound x v1 v3"
  by (simp add: same_mem_def)

section \<open>Buffers\<close>

lemma create_memory:
  assumes "device_memory k cg live ud mem bound mapped" and "svma_create_buffer k bi ai tr st = Some ((b, a), st')"
  shows "bound (snd st') b = Some a \<and> length (mem (snd st') a) = unat (bci_size bi) \<and>
    (\<forall>x. GAllocation x \<in> live (snd st) \<longrightarrow> same_mem mem bound x (snd st) (snd st'))"
proof -
  obtain v1 where v1: "vmaCreateBuffer k (svma_allocator (fst st)) bi ai (snd st) = (Some (b, a), v1)"
    and t: "track_allocation k (fst st) tr a v1 = Some st'"
    using assms(2) by (auto simp: svma_create_buffer_def bind_Some_iff split: prod.splits)
  note c = memory_create [OF assms(1) v1]
  have "\<forall>x. same_mem mem bound x v1 (snd st')"
    using t memory_user_data [OF assms(1)]
    by (auto simp: track_allocation_def Let_def bind_Some_iff same_mem_def split: if_splits)
  then have s: "same_mem mem bound x v1 (snd st')" for x by blast
  have "\<forall>x. GAllocation x \<in> live (snd st) \<longrightarrow> same_mem mem bound x (snd st) (snd st')"
    using c same_mem_trans [OF _ s] by blast
  then show ?thesis using c s [of a] by (simp add: same_mem_def)
qed

lemma free_memory:
  assumes "device_memory k cg live ud mem bound mapped" and "svma_free_buffer k b a st = Some st'"
    and "GAllocation a \<in> live (snd st)" and "GAllocation x \<in> live (snd st)" and "x \<noteq> a"
  shows "same_mem mem bound x (snd st) (snd st')"
  using assms(2) memory_destroy [OF assms(1,3-5)] by (auto simp: svma_free_buffer_def bind_Some_iff split: prod.splits)

lemma svma_map_Some:
  "svma_map k a (c, v) = Some (p, st') \<longleftrightarrow> (\<exists>v'. vmaMapMemory k (svma_allocator c) a v = (Some p, v') \<and> st' = (c, v'))"
  by (auto simp: svma_map_def bind_Some_iff split: prod.splits)

lemma map_keeps:
  assumes "gpu_ok k live ud (c, v)" and "vmaMapMemory k m a v = (Some p, v')"
  shows "gpu_ok k live ud (c, v') \<and> live v' = live v"
proof -
  have "gpu_keeps live ud v v'" using assms unfolding gpu_ok_def gpu_driver_def by (elim conjE) metis
  then show ?thesis using gpu_ok_others [OF assms(1)] by (auto simp: gpu_keeps_def)
qed

lemma unmap_keeps:
  assumes "gpu_ok k live ud (c, v)"
  shows "gpu_ok k live ud (c, vmaUnmapMemory k m a v) \<and> live (vmaUnmapMemory k m a v) = live v"
proof -
  have "gpu_keeps live ud v (vmaUnmapMemory k m a v)" using assms by (simp add: gpu_ok_def gpu_driver_def)
  then show ?thesis using gpu_ok_others [OF assms(1)] by (auto simp: gpu_keeps_def)
qed

lemma fill_staging_spec:
  assumes D: "device_memory k cg live ud mem bound mapped" and ok: "gpu_ok k live ud st"
    and len: "length vertices = unat bv" "length indices = unat bi" "unat bi + unat bv < 2 ^ 64"
    and f: "fill_staging k cg vertices bv indices bi st = Some ((b, a), st')"
  shows "gpu_ok k live ud st' \<and> GAllocation a \<notin> live (snd st) \<and> live (snd st') = insert (GAllocation a) (live (snd st)) \<and>
    bound (snd st') b = Some a \<and> mem (snd st') a = vertices @ indices \<and>
    (\<forall>x. GAllocation x \<in> live (snd st) \<longrightarrow> same_mem mem bound x (snd st) (snd st'))"
proof -
  obtain c1 v1 where c1: "vd_renderer_create_buffer k (bi + bv) VK_BUFFER_USAGE_TRANSFER_SRC_BIT VMA_MEMORY_USAGE_CPU_ONLY st = Some ((b, a), c1, v1)"
    using f by (auto simp: fill_staging_def bind_Some_iff Let_def)
  then have cb: "svma_create_buffer k \<lparr>bci_usage = VK_BUFFER_USAGE_TRANSFER_SRC_BIT, bci_size = bi + bv\<rparr>
      \<lparr>aci_usage = VMA_MEMORY_USAGE_CPU_ONLY, aci_flags = VMA_ALLOCATION_CREATE_MAPPED_BIT, aci_requiredFlags = 0\<rparr>
      \<lparr>tr_file = ''renderer.c'', tr_line = 1946\<rparr> st = Some ((b, a), c1, v1)"
    by (simp add: vd_renderer_create_buffer_def)
  note g1 = gpu_ok_create [OF ok cb] and m1 = create_memory [OF D cb]
  obtain p v2 where map: "vmaMapMemory k (svma_allocator c1) a v1 = (Some p, v2)"
    using f c1 by (auto simp: fill_staging_def bind_Some_iff svma_map_Some Let_def)
  let ?v3 = "write_memory cg p vertices v2"
  let ?v4 = "write_memory cg (p + bv) indices ?v3"
  let ?v5 = "vmaUnmapMemory k (svma_allocator c1) a ?v4"
  have st': "st' = (c1, ?v5)" using f c1 map by (simp add: fill_staging_def svma_map_def svma_unmap_def Let_def)
  note g2 = map_keeps [OF conjunct1 [OF g1] map] and m2 = memory_map [OF D map]
  have size1: "length (mem v1 a) = unat bi + unat bv"
    using m1 len(3) by (simp add: unat_word_ariths(1) mod_less)
  then have size2: "length (mem v2 a) = length vertices + length indices" using m2 len(1,2) by (simp add: same_mem_def)
  have w1: "live ?v3 = live v2" "ud ?v3 = ud v2" "bound ?v3 = bound v2" "mapped ?v3 = mapped v2"
    "mem ?v3 = (mem v2)(a := overwrite 0 vertices (mem v2 a))"
    using memory_write [OF D conjunct1 [OF m2], of 0 vertices ?v3] size2 by simp_all
  have fit: "length vertices + length indices \<le> length (mem ?v3 a)" using size2 by (simp add: w1(5) overwrite_def)
  have "mapped ?v3 p a" using m2 w1(4) by simp
  note w2 = memory_write [OF D this _ fit, of ?v4]
  have bv: "p + bv = p + of_nat (length vertices)" and small: "length vertices < 2 ^ 64" using len by simp_all
  have w2: "live ?v4 = live ?v3" "ud ?v4 = ud ?v3" "bound ?v4 = bound ?v3"
    "mem ?v4 = (mem ?v3)(a := overwrite (length vertices) indices (mem ?v3 a))"
    using w2 small bv by simp_all
  have g4: "gpu_ok k live ud (c1, ?v4)" "live ?v4 = live v1"
    using g1 g2 w1(1,2) w2(1,2) gpu_ok_others [of k live ud c1 v2 ?v4] by simp_all
  note g5 = unmap_keeps [OF g4(1), of "svma_allocator c1" a]
  note m5 = memory_unmap [OF D, of _ ?v4 "svma_allocator c1" a]
  have "mem ?v4 a = vertices @ indices" using size2 by (simp add: w2(4) w1(5) overwrite_def)
  then have "mem ?v5 a = vertices @ indices" using m5 [of a] by (simp add: same_mem_def)
  moreover have "bound ?v5 b = Some a"
    using m1 m2 m5 [of a] w1(3) w2(3) by (simp add: same_mem_def)
  moreover have "same_mem mem bound x (snd st) ?v5" if x: "GAllocation x \<in> live (snd st)" for x
  proof -
    have "x \<noteq> a" using x g1 by auto
    then have "same_mem mem bound x v2 ?v4" using w1(3,5) w2(3,4) by (simp add: same_mem_def)
    moreover have "same_mem mem bound x (snd st) v1" "same_mem mem bound x v1 v2" using m1 m2 x by simp_all
    ultimately show ?thesis using m5 [of x] same_mem_trans by metis
  qed
  ultimately show ?thesis using g1 g4(2) g5 by (simp add: st')
qed


section \<open>Meshes\<close>

text \<open>The buffers of a mesh are bound to its allocations, and these have room for what the mesh counts.\<close>

definition mesh_sized :: "('v \<Rightarrow> u64 \<Rightarrow> u8 list) \<Rightarrow> ('v \<Rightarrow> u64 \<Rightarrow> u64 option) \<Rightarrow> 'v \<Rightarrow> gpu_mesh \<Rightarrow> bool" where
  "mesh_sized mem bound v m \<longleftrightarrow>
     bound v (gm_vertex_buffer m) = Some (gm_vertex_allocation m) \<and> bound v (gm_index_buffer m) = Some (gm_index_allocation m) \<and>
     48 * unat (gm_num_vertices m) \<le> length (mem v (gm_vertex_allocation m)) \<and>
     4 * unat (gm_num_indices m) \<le> length (mem v (gm_index_allocation m))"

lemma mesh_sized_same:
  assumes "mesh_sized mem bound v m" and "same_mem mem bound (gm_vertex_allocation m) v v'" "same_mem mem bound (gm_index_allocation m) v v'"
  shows "mesh_sized mem bound v' m"
  using assms by (simp add: mesh_sized_def same_mem_def)

lemma create_buffers_memory:
  assumes D: "device_memory k cg live ud mem bound mapped" and ok: "gpu_ok k live ud st"
    and small: "48 * unat (mci_num_vertices info) < 2 ^ 64" "4 * unat (mci_num_indices info) < 2 ^ 64"
    and c: "create_buffers k g info st = Some (m, st')"
  shows "mesh_sized mem bound (snd st') m \<and> (\<forall>x. GAllocation x \<in> live (snd st) \<longrightarrow> same_mem mem bound x (snd st) (snd st'))"
proof -
  obtain u1 u2 ai tr1 tr2 st1 where
    c1: "svma_create_buffer k \<lparr>bci_usage = u1, bci_size = mci_num_indices info * 4\<rparr> ai tr1 st
      = Some ((gm_index_buffer m, gm_index_allocation m), st1)" and
    c2: "svma_create_buffer k \<lparr>bci_usage = u2, bci_size = mci_num_vertices info * 48\<rparr> ai tr2 st1
      = Some ((gm_vertex_buffer m, gm_vertex_allocation m), st')"
    and m: "gm_num_vertices m = mci_num_vertices info" "gm_num_indices m = mci_num_indices info"
    using c unfolding create_buffers_def Let_def by (auto simp: bind_Some_iff split: prod.splits)
  note l1 = gpu_ok_create [OF ok c1] and m1 = create_memory [OF D c1] and m2 = create_memory [OF D c2]
  have "unat (mci_num_indices info * 4) = 4 * unat (mci_num_indices info)"
    "unat (mci_num_vertices info * 48) = 48 * unat (mci_num_vertices info)"
    using small by (simp_all add: unat_word_ariths(2))
  moreover have "same_mem mem bound (gm_index_allocation m) (snd st1) (snd st')" using l1 m2 by blast
  ultimately have "mesh_sized mem bound (snd st') m" using m1 m2 m by (simp add: mesh_sized_def same_mem_def)
  moreover have "same_mem mem bound x (snd st) (snd st')" if "GAllocation x \<in> live (snd st)" for x
  proof (rule same_mem_trans)
    show "same_mem mem bound x (snd st) (snd st1)" using m1 that by blast
    show "same_mem mem bound x (snd st1) (snd st')" using m2 l1 that by blast
  qed
  ultimately show ?thesis by blast
qed

lemma free_geo_memory:
  assumes D: "device_memory k cg live ud mem bound mapped" and ok: "gpu_ok k live ud st"
    and b: "mesh_valid b" "mesh_owns b \<subseteq> live (snd st)" and f: "free_geo k b st = Some (b', st')"
    and x: "GAllocation x \<in> live (snd st) - mesh_owns b"
  shows "same_mem mem bound x (snd st) (snd st')"
proof -
  let ?m = "mesh_of b"
  obtain st1 where st1: "svma_free_buffer k (gm_index_buffer ?m) (gm_index_allocation ?m) st = Some st1"
    "svma_free_buffer k (gm_vertex_buffer ?m) (gm_vertex_allocation ?m) st1 = Some st'"
    using f by (auto simp: free_geo_def Let_def bind_Some_iff)
  have i: "GAllocation (gm_index_allocation ?m) \<in> live (snd st)" using b(2) by (simp add: mesh_owns_def)
  then have l1: "live (snd st1) = live (snd st) - {GAllocation (gm_index_allocation ?m)}"
    using gpu_ok_free [OF ok i, of "gm_index_buffer ?m"] st1(1) by auto
  show ?thesis
  proof (rule same_mem_trans)
    show "same_mem mem bound x (snd st) (snd st1)" using x by (intro free_memory [OF D st1(1) i]) (auto simp: mesh_owns_def)
    show "same_mem mem bound x (snd st1) (snd st')"
      using x b by (intro free_memory [OF D st1(2)]) (auto simp: mesh_owns_def mesh_valid_def l1)
  qed
qed

text \<open>A mesh after it was resized: its buffers are its old ones or fresh, and the others are as they were.\<close>

definition resized :: "('v \<Rightarrow> u64 \<Rightarrow> u8 list) \<Rightarrow> ('v \<Rightarrow> u64 \<Rightarrow> u64 option) \<Rightarrow> ('v \<Rightarrow> gpu_object set) \<Rightarrow> u8 list \<Rightarrow> VD_R_MeshCreateInfo
     \<Rightarrow> 'v \<Rightarrow> u8 list \<Rightarrow> 'v \<Rightarrow> bool" where
  "resized mem bound live b info v b' v' \<longleftrightarrow> mesh_sized mem bound v' (mesh_of b') \<and>
     mci_num_vertices info \<le> gm_num_vertices (mesh_of b') \<and> mci_num_indices info \<le> gm_num_indices (mesh_of b') \<and>
     mesh_valid b' \<and> mesh_owns b' \<inter> (live v - mesh_owns b) = {} \<and> live v' = (live v - mesh_owns b) \<union> mesh_owns b' \<and>
     (\<forall>x. GAllocation x \<in> live v - mesh_owns b \<longrightarrow> same_mem mem bound x v v')"

lemma resize_memory:
  assumes D: "device_memory k cg live ud mem bound mapped" and ok: "gpu_ok k live ud st"
    and g: "geo_at L g (live (snd st))" and h: "hm_object (geo_meshes g) h s"
    and sized: "mesh_sized mem bound (snd st) (mesh_of (hs_value s))"
    and small: "48 * unat (mci_num_vertices info) < 2 ^ 64" "4 * unat (mci_num_indices info) < 2 ^ 64"
    and r: "sgeo_resize k g h info st = Some (c, g', st')"
  shows "\<exists>b. hm_object (geo_meshes g') h (s\<lparr>hs_value := b\<rparr>) \<and> resized mem bound live (hs_value s) info (snd st) b (snd st')"
proof -
  let ?i = "unat (vh_id h) - 1" and ?m = "mesh_of (hs_value s)"
  have inv: "owner_inv mesh_valid mesh_owns 56 L (geo_meshes g) (live (snd st))" using g by (simp add: geo_at_def)
  note o = hm_object_slot [OF inv h]
  have use: "hm_metadata (geo_meshes g) ?i = Some s" using h by (simp add: hm_object_def)
  have owns: "mesh_owns (hs_value s) \<subseteq> live (snd st)" using o(6) h by (simp add: slot_owns_def hm_object_def)
  show ?thesis
  proof (cases "gm_num_vertices ?m < mci_num_vertices info \<or> gm_num_indices ?m < mci_num_indices info")
    case False
    then have "g' = g" "st' = st" using r o(7) use by (auto simp: sgeo_resize_def Let_def)
    then show ?thesis
      using h False o(5) owns sized by (intro exI [of _ "hs_value s"]) (auto simp: resized_def not_less same_mem_def)
  next
    case True
    obtain b st1 where f: "free_geo k (hs_value s) st = Some (b, st1)" "gpu_ok k live ud st1"
      "live (snd st1) = live (snd st) - mesh_owns (hs_value s)"
      using free_geo_spec [OF ok o(5) owns] by blast
    obtain m where m: "create_buffers k g info st1 = Some (m, st')"
      "write_object (geo_meshes g) ?i (mesh_bytes m) = Some (geo_meshes g')"
      using r o(7) use True f(1) by (auto simp: sgeo_resize_def Let_def bind_Some_iff split: prod.splits)
    note c = create_buffers_spec [OF f(2) m(1)] and cm = create_buffers_memory [OF D f(2) small m(1)]
    have "\<exists>m'. write_object (geo_meshes g) ?i (mesh_bytes m) = Some m' \<and>
      owner_inv mesh_valid mesh_owns 56 L m' ((live (snd st) - mesh_owns (hs_value s)) \<union> mesh_owns (mesh_bytes m)) \<and>
      hm_object m' h (s\<lparr>hs_value := mesh_bytes m\<rparr>)"
      using c f(3) by (intro write_object_owner [OF inv h]) simp_all
    then have obj: "hm_object (geo_meshes g') h (s\<lparr>hs_value := mesh_bytes m\<rparr>)" using m(2) by auto
    have "same_mem mem bound x (snd st) (snd st')" if x: "GAllocation x \<in> live (snd st) - mesh_owns (hs_value s)" for x
      using same_mem_trans [OF free_geo_memory [OF D ok o(5) owns f(1) x]] cm f(3) x by auto
    then have "resized mem bound live (hs_value s) info (snd st) (mesh_bytes m) (snd st')"
      using c cm f(3) by (simp add: resized_def)
    then show ?thesis using obj by blast
  qed
qed

text \<open>The two copies from the staging buffer.\<close>

lemma two_copies:
  assumes "bound sb = Some a" "bound vb = Some va" "bound ib = Some ia" and "a \<noteq> va" "a \<noteq> ia" "va \<noteq> ia"
    and "m a = vs @ is" "length vs = unat bv" "length is = unat bi" "unat bv \<le> length (m va)" "unat bi \<le> length (m ia)"
    and "{GAllocation a, GAllocation va, GAllocation ia} \<subseteq> lv"
    and c1: "c1 = \<lparr>cp_src = sb, cp_dst = vb, cp_srcOffset = 0, cp_dstOffset = 0, cp_size = bv\<rparr>"
    and c2: "c2 = \<lparr>cp_src = sb, cp_dst = ib, cp_srcOffset = bv, cp_dstOffset = 0, cp_size = bi\<rparr>"
  shows "copy_ok lv bound m c1" and "copy_ok lv bound (run_copy bound c1 m) c2"
    and "run_copy bound c2 (run_copy bound c1 m) =
      m(va := vs @ drop (length vs) (m va), ia := is @ drop (length is) (m ia))"
  using assms by (auto simp: copy_ok_def run_copy_def overwrite_def fun_eq_iff)

text \<open>Submitting the copies to a mesh and freeing the staging buffer.\<close>

lemma finish_upload:
  assumes D: "device_memory k cg live ud mem bound mapped" and ok: "renderer_ok k live ud bs r (c, v2)"
    and sized: "mesh_sized mem bound v2 m" and valid: "mesh_valid (mesh_bytes m)"
    and owns: "mesh_owns (mesh_bytes m) \<subseteq> live v2" and a: "a \<in> bs" "GAllocation a \<notin> mesh_owns (mesh_bytes m)"
    and src: "bound v2 sb = Some a" "mem v2 a = vs @ is"
    and len: "length vs = unat bv" "length is = unat bi" "unat bv = 48 * unat (gm_num_vertices m)" "unat bi = 4 * unat (gm_num_indices m)"
    and s: "vd_renderer_imm_end cg [CmdCopyBuffer c1, CmdCopyBuffer c2] (c, v2) = Some st3"
    and c1: "c1 = \<lparr>cp_src = sb, cp_dst = gm_vertex_buffer m, cp_srcOffset = 0, cp_dstOffset = 0, cp_size = bv\<rparr>"
    and c2: "c2 = \<lparr>cp_src = sb, cp_dst = gm_index_buffer m, cp_srcOffset = bv, cp_dstOffset = 0, cp_size = bi\<rparr>"
    and d: "vd_renderer_destroy_buffer k (sb, a) st3 = Some st4"
  shows "renderer_ok k live ud (bs - {a}) r st4" and "mesh_sized mem bound (snd st4) m"
    and "take (length vs) (mem (snd st4) (gm_vertex_allocation m)) = vs" and "take (length is) (mem (snd st4) (gm_index_allocation m)) = is"
    and "\<And>x. GAllocation x \<in> live v2 - mesh_owns (mesh_bytes m) \<Longrightarrow> x \<noteq> a \<Longrightarrow> same_mem mem bound x v2 (snd st4)"
proof -
  let ?va = "gm_vertex_allocation m" and ?ia = "gm_index_allocation m"
  obtain v3 where v3: "submit cg [CmdCopyBuffer c1, CmdCopyBuffer c2] v2 = Some v3" "st3 = (c, v3)"
    using s by (auto simp: vd_renderer_imm_end_def bind_Some_iff)
  have gpu: "gpu_ok k live ud (c, v2)" and sys: "systems_at (GAllocation ` bs) r (live v2)"
    using ok by (simp_all add: renderer_ok_def)
  have "GAllocation a \<in> GAllocation ` bs" using a(1) by blast
  then have live: "{GAllocation a, GAllocation ?va, GAllocation ?ia} \<subseteq> live v2"
    using systems_at_gone [OF sys] owns by (auto simp: mesh_owns_def)
  have ne: "a \<noteq> ?va" "a \<noteq> ?ia" "?va \<noteq> ?ia" using a(2) valid by (auto simp: mesh_owns_def mesh_valid_def)
  note b = sized [unfolded mesh_sized_def]
  have fit: "unat bv \<le> length (mem v2 ?va)" "unat bi \<le> length (mem v2 ?ia)" using b len(3,4) by simp_all
  have bnd: "bound v2 (gm_vertex_buffer m) = Some ?va" "bound v2 (gm_index_buffer m) = Some ?ia" using b by simp_all
  note cp = two_copies [where bound = "bound v2" and m = "mem v2", OF src(1) bnd ne src(2) len(1,2) fit live c1 c2]
  note v3s = memory_submit [OF D v3(1) cp(1,2), unfolded cp(3)]
  have "gpu_ok k live ud (c, v3)" using v3s(1,2) gpu_ok_others [OF gpu, of v3] by simp
  then have ok3: "renderer_ok k live ud bs r st3" using sys v3s(1) by (simp add: renderer_ok_def v3(2))
  show "renderer_ok k live ud (bs - {a}) r st4" by (rule destroy_buffer_ok [OF ok3 a(1) d])
  have keep: "same_mem mem bound x v3 (snd st4)" if "GAllocation x \<in> live v2" "x \<noteq> a" for x
    using free_memory [OF D d [unfolded vd_renderer_destroy_buffer_def], of x] that live v3s(1) by (simp add: v3(2))
  have k4: "same_mem mem bound ?va v3 (snd st4)" "same_mem mem bound ?ia v3 (snd st4)"
    using keep [of ?va] keep [of ?ia] ne live by simp_all
  have sized3: "mesh_sized mem bound v3 m" using b ne len by (simp add: mesh_sized_def v3s(3,4))
  then show "mesh_sized mem bound (snd st4) m" using k4 by (rule mesh_sized_same)
  show "take (length vs) (mem (snd st4) ?va) = vs" "take (length is) (mem (snd st4) ?ia) = is"
    using k4 ne by (simp_all add: same_mem_def v3s(4))
  show "same_mem mem bound x v2 (snd st4)" if x: "GAllocation x \<in> live v2 - mesh_owns (mesh_bytes m)" "x \<noteq> a" for x
  proof (rule same_mem_trans)
    show "same_mem mem bound x v2 v3" using x(1) by (auto simp: same_mem_def v3s(3,4) mesh_owns_def)
    show "same_mem mem bound x v3 (snd st4)" using x by (intro keep) simp_all
  qed
qed

section \<open>Written meshes\<close>

lemma write_mesh_steps:
  assumes h: "vd_handle_use (geo_meshes (rn_geos r)) (mwi_mesh info) = Some (Some i)"
    and w: "vd_renderer_write_mesh k cg r info st = Some (r', st')"
  obtains sb a st1 c g st2 s2 m ms st3 where
    "fill_staging k cg (mwi_vertices info) (48 * mwi_num_vertices info) (mwi_indices info) (4 * mwi_num_indices info) st = Some ((sb, a), st1)"
    "sgeo_resize k (rn_geos r) (mwi_mesh info) \<lparr>mci_num_vertices = mwi_num_vertices info, mci_num_indices = mwi_num_indices info\<rparr> st1
      = Some (c, g, st2)"
    "hm_metadata (geo_meshes g) i = Some s2"
    "m = (mesh_of (hs_value s2))\<lparr>gm_num_vertices := mwi_num_vertices info, gm_num_indices := mwi_num_indices info\<rparr>"
    "write_object (geo_meshes g) i (mesh_bytes m) = Some ms"
    "vd_renderer_imm_end cg
        [CmdCopyBuffer \<lparr>cp_src = sb, cp_dst = gm_vertex_buffer m, cp_srcOffset = 0, cp_dstOffset = 0, cp_size = 48 * mwi_num_vertices info\<rparr>,
          CmdCopyBuffer \<lparr>cp_src = sb, cp_dst = gm_index_buffer m, cp_srcOffset = 48 * mwi_num_vertices info, cp_dstOffset = 0,
            cp_size = 4 * mwi_num_indices info\<rparr>] st2 = Some st3"
    "vd_renderer_destroy_buffer k (sb, a) st3 = Some st'" "r' = r\<lparr>rn_geos := g\<lparr>geo_meshes := ms\<rparr>\<rparr>"
  using w h unfolding vd_renderer_write_mesh_def Let_def by (auto simp: bind_Some_iff split: prod.splits)

text \<open>The counts of a mesh may be set to what fits.\<close>

lemma mesh_counted:
  assumes "m = (mesh_of b)\<lparr>gm_num_vertices := nv, gm_num_indices := ni\<rparr>"
  shows "mesh_owns (mesh_bytes m) = mesh_owns b" and "mesh_valid (mesh_bytes m) = mesh_valid b"
    and "mesh_sized mem bound v (mesh_of b) \<Longrightarrow> nv \<le> gm_num_vertices (mesh_of b) \<Longrightarrow> ni \<le> gm_num_indices (mesh_of b) \<Longrightarrow>
      mesh_sized mem bound v m"
  using assms by (auto simp: mesh_owns_def mesh_valid_def mesh_sized_def word_le_nat_alt)

lemma write_counts:
  assumes ok: "renderer_ok k live ud bs (r\<lparr>rn_geos := g\<rparr>) st" and h: "hm_object (geo_meshes g) h s"
    and b: "length b = 56" "mesh_owns b = mesh_owns (hs_value s)" "mesh_valid b"
    and w: "write_object (geo_meshes g) (unat (vh_id h) - 1) b = Some ms"
  shows "renderer_ok k live ud bs (r\<lparr>rn_geos := g\<lparr>geo_meshes := ms\<rparr>\<rparr>) st" and "hm_object ms h (s\<lparr>hs_value := b\<rparr>)"
proof -
  have gpu: "gpu_ok k live ud st" using ok by (simp add: renderer_ok_def)
  have put: "geo_at K (g\<lparr>geo_meshes := ms\<rparr>) (live (snd st)) \<and> hm_object ms h (s\<lparr>hs_value := b\<rparr>)"
    if "geo_at K g (live (snd st))" for K
  proof -
    have inv: "owner_inv mesh_valid mesh_owns 56 K (geo_meshes g) (live (snd st))" using that by (simp add: geo_at_def)
    have owns: "mesh_owns (hs_value s) \<subseteq> live (snd st)"
      using hm_object_slot(6) [OF inv h] h by (simp add: slot_owns_def hm_object_def)
    then have "(live (snd st) - mesh_owns (hs_value s)) \<union> mesh_owns b = live (snd st)" using b(2) by blast
    then have "\<exists>m'. write_object (geo_meshes g) (unat (vh_id h) - 1) b = Some m' \<and>
      owner_inv mesh_valid mesh_owns 56 K m' (live (snd st)) \<and> hm_object m' h (s\<lparr>hs_value := b\<rparr>)"
      using write_object_owner [OF inv h b(1,3)] b(2) by simp
    then show ?thesis using w by (auto simp: geo_at_def)
  qed
  obtain K where "geo_at K g (live (snd st))" using ok by (auto simp: renderer_ok_def systems_at_def)
  then show "hm_object ms h (s\<lparr>hs_value := b\<rparr>)" using put by blast
  have "renderer_ok k live ud bs ((r\<lparr>rn_geos := g\<rparr>)\<lparr>rn_geos := g\<lparr>geo_meshes := ms\<rparr>\<rparr>) st"
    using gpu put by (intro mesh_step [OF ok]) simp
  then show "renderer_ok k live ud bs (r\<lparr>rn_geos := g\<lparr>geo_meshes := ms\<rparr>\<rparr>) st" by simp
qed

text \<open>What is known of a mesh after a write.\<close>

definition mesh_holds :: "('v \<Rightarrow> u64 \<Rightarrow> u8 list) \<Rightarrow> ('v \<Rightarrow> u64 \<Rightarrow> u64 option) \<Rightarrow> 'v \<Rightarrow> gpu_mesh \<Rightarrow> VD_R_MeshWriteInfo \<Rightarrow> bool" where
  "mesh_holds mem bound v m info \<longleftrightarrow> mesh_sized mem bound v m \<and>
     gm_num_vertices m = mwi_num_vertices info \<and> gm_num_indices m = mwi_num_indices info \<and>
     take (length (mwi_vertices info)) (mem v (gm_vertex_allocation m)) = mwi_vertices info \<and>
     take (length (mwi_indices info)) (mem v (gm_index_allocation m)) = mwi_indices info"

text \<open>C13. A written mesh holds the given vertices and indices on the device, with their numbers, in buffers that
  have room for them; the mesh keeps its handle and its count of references, the staging buffer is gone, and every
  other allocation that existed has its contents.\<close>

theorem write_mesh_uploads:
  assumes D: "device_memory k cg live ud mem bound mapped" and ok: "renderer_ok k live ud bs r st"
    and h: "hm_object (geo_meshes (rn_geos r)) (mwi_mesh info) s" and sized: "mesh_sized mem bound (snd st) (mesh_of (hs_value s))"
    and len: "length (mwi_vertices info) = 48 * unat (mwi_num_vertices info)" "length (mwi_indices info) = 4 * unat (mwi_num_indices info)"
      "length (mwi_vertices info) + length (mwi_indices info) < 2 ^ 64"
    and w: "vd_renderer_write_mesh k cg r info st = Some (r', st')"
  shows "renderer_ok k live ud bs r' st' \<and>
    (\<exists>b. hm_object (geo_meshes (rn_geos r')) (mwi_mesh info) (s\<lparr>hs_value := b\<rparr>) \<and> mesh_holds mem bound (snd st') (mesh_of b) info) \<and>
    (\<forall>x. GAllocation x \<in> live (snd st) - mesh_owns (hs_value s) \<longrightarrow> same_mem mem bound x (snd st) (snd st'))"
proof -
  let ?i = "unat (vh_id (mwi_mesh info)) - 1" and ?nv = "mwi_num_vertices info" and ?ni = "mwi_num_indices info"
  let ?mi = "\<lparr>mci_num_vertices = ?nv, mci_num_indices = ?ni\<rparr>" and ?own = "mesh_owns (hs_value s)"
  obtain K where K: "geo_at K (rn_geos r) (live (snd st))" using ok by (auto simp: renderer_ok_def systems_at_def)
  then have inv: "owner_inv mesh_valid mesh_owns 56 K (geo_meshes (rn_geos r)) (live (snd st))" by (simp add: geo_at_def)
  note o = hm_object_slot [OF inv h]
  have own: "?own \<subseteq> live (snd st)" using o(6) h by (simp add: slot_owns_def hm_object_def)
  from write_mesh_steps [OF o(7) w] obtain sb a st1 c g st2 s2 m ms st3 where
    f: "fill_staging k cg (mwi_vertices info) (48 * ?nv) (mwi_indices info) (4 * ?ni) st = Some ((sb, a), st1)"
    and z: "sgeo_resize k (rn_geos r) (mwi_mesh info) ?mi st1 = Some (c, g, st2)"
    and s2: "hm_metadata (geo_meshes g) ?i = Some s2" and m: "m = (mesh_of (hs_value s2))\<lparr>gm_num_vertices := ?nv, gm_num_indices := ?ni\<rparr>"
    and ms: "write_object (geo_meshes g) ?i (mesh_bytes m) = Some ms"
    and e: "vd_renderer_imm_end cg [CmdCopyBuffer \<lparr>cp_src = sb, cp_dst = gm_vertex_buffer m, cp_srcOffset = 0, cp_dstOffset = 0, cp_size = 48 * ?nv\<rparr>,
          CmdCopyBuffer \<lparr>cp_src = sb, cp_dst = gm_index_buffer m, cp_srcOffset = 48 * ?nv, cp_dstOffset = 0, cp_size = 4 * ?ni\<rparr>] st2 = Some st3"
    and d: "vd_renderer_destroy_buffer k (sb, a) st3 = Some st'" and r': "r' = r\<lparr>rn_geos := g\<lparr>geo_meshes := ms\<rparr>\<rparr>"
    by blast
  have n: "unat (48 * ?nv) = 48 * unat ?nv" "unat (4 * ?ni) = 4 * unat ?ni"
    using len by (simp_all add: unat_word_ariths(2))
  have gpu: "gpu_ok k live ud st" using ok by (simp add: renderer_ok_def)
  have "length (mwi_vertices info) = unat (48 * ?nv)" "length (mwi_indices info) = unat (4 * ?ni)"
    "unat (4 * ?ni) + unat (48 * ?nv) < 2 ^ 64"
    using len n by simp_all
  note st1 = fill_staging_spec [OF D gpu this f]
  have anew: "GAllocation a \<notin> live (snd st)" "live (snd st1) = insert (GAllocation a) (live (snd st))" using st1 by blast+
  have sys: "systems_at (GAllocation ` bs) r (live (snd st))" using ok by (simp add: renderer_ok_def)
  have ok1: "renderer_ok k live ud (insert a bs) r st1"
    using st1 systems_at_new [OF sys anew(1)] by (simp add: renderer_ok_def)
  have "a \<notin> bs" using systems_at_gone [OF sys, of "GAllocation a"] anew(1) by blast
  have K1: "geo_at (insert (GAllocation a) K) (rn_geos r) (live (snd st1))" using other_new(1) [OF K anew(1)] anew(2) by simp
  have same1: "same_mem mem bound x (snd st) (snd st1)" if "GAllocation x \<in> live (snd st)" for x using st1 that by blast
  have sized1: "mesh_sized mem bound (snd st1) (mesh_of (hs_value s))"
    using own by (intro mesh_sized_same [OF sized] same1) (auto simp: mesh_owns_def)
  have small: "48 * unat (mci_num_vertices ?mi) < 2 ^ 64" "4 * unat (mci_num_indices ?mi) < 2 ^ 64" using len by simp_all
  have gpu1: "gpu_ok k live ud st1" using ok1 by (simp add: renderer_ok_def)
  obtain b where b: "hm_object (geo_meshes g) (mwi_mesh info) (s\<lparr>hs_value := b\<rparr>)"
    and rz: "resized mem bound live (hs_value s) ?mi (snd st1) b (snd st2)"
    using resize_memory [OF D gpu1 K1 h sized1 small z] by blast
  have s2b: "hs_value s2 = b" using s2 b by (auto simp: hm_object_def)
  have ok2: "renderer_ok k live ud (insert a bs) (r\<lparr>rn_geos := g\<rparr>) st2"
    using geo_resize [OF gpu1 _ h z] by (intro mesh_step [OF ok1]) blast
  note mc = mesh_counted [OF m [unfolded s2b]]
  note rzd = rz [unfolded resized_def]
  note wc = write_counts [OF ok2 b _ _ _ ms]
  have wc: "renderer_ok k live ud (insert a bs) r' st2" "hm_object ms (mwi_mesh info) (s\<lparr>hs_value := mesh_bytes m\<rparr>)"
    using wc mc(1,2) rzd by (simp_all add: r')
  have a2: "GAllocation a \<in> live (snd st1) - ?own" using anew own by auto
  have fin: "mesh_sized mem bound (snd st2) m" "mesh_valid (mesh_bytes m)" "mesh_owns (mesh_bytes m) \<subseteq> live (snd st2)"
    "GAllocation a \<notin> mesh_owns (mesh_bytes m)" "bound (snd st2) sb = Some a" "mem (snd st2) a = mwi_vertices info @ mwi_indices info"
    using mc rzd a2 st1 by (auto simp: same_mem_def)
  have cnt: "gm_num_vertices m = ?nv" "gm_num_indices m = ?ni" using m by simp_all
  obtain c2 v2 where st2: "st2 = (c2, v2)" by (cases st2)
  have ln: "length (mwi_vertices info) = unat (48 * ?nv)" "length (mwi_indices info) = unat (4 * ?ni)"
    "unat (48 * ?nv) = 48 * unat (gm_num_vertices m)" "unat (4 * ?ni) = 4 * unat (gm_num_indices m)"
    using len n cnt by simp_all
  note up = finish_upload [OF D wc(1) [unfolded st2] fin(1-3) [unfolded st2 snd_conv] insertI1 fin(4) fin(5,6) [unfolded st2 snd_conv]
      ln e [unfolded st2] refl refl d]
  have "renderer_ok k live ud bs r' st'" using up(1) \<open>a \<notin> bs\<close> by simp
  moreover have "mesh_holds mem bound (snd st') (mesh_of (mesh_bytes m)) info" using up(2-4) cnt by (simp add: mesh_holds_def)
  moreover have "hm_object (geo_meshes (rn_geos r')) (mwi_mesh info) (s\<lparr>hs_value := mesh_bytes m\<rparr>)" using wc(2) by (simp add: r')
  moreover have "same_mem mem bound x (snd st) (snd st')" if x: "GAllocation x \<in> live (snd st) - ?own" for x
  proof (rule same_mem_trans [OF same_mem_trans])
    have x1: "GAllocation x \<in> live (snd st1) - ?own" using x anew(2) by blast
    show "same_mem mem bound x (snd st) (snd st1)" using x same1 by blast
    show "same_mem mem bound x (snd st1) (snd st2)" using rzd x1 by blast
    have "GAllocation x \<in> live v2 - mesh_owns (mesh_bytes m)" "x \<noteq> a" using rzd x1 x anew(1) mc(1) st2 by auto
    then show "same_mem mem bound x (snd st2) (snd st')" using up(5) st2 by simp
  qed
  ultimately show ?thesis by blast
qed

section \<open>A device with memory\<close>

text \<open>The device that numbers its objects, with the contents of its allocations, the one that is
  mapped, and the layouts and texels of its images.\<close>

type_synonym demo_memory = "demo_gpu_state \<times> (u64 \<Rightarrow> u8 list) \<times> u64 \<times> (u64 \<Rightarrow> u32 \<times> u8 list)"

definition lift_do :: "(demo_gpu_state \<Rightarrow> demo_gpu_state) \<Rightarrow> demo_memory \<Rightarrow> demo_memory" where
  "lift_do f v = (f (fst v), snd v)"

definition lift_get :: "(demo_gpu_state \<Rightarrow> 'r \<times> demo_gpu_state) \<Rightarrow> demo_memory \<Rightarrow> 'r \<times> demo_memory" where
  "lift_get f v = (let (r, v') = f (fst v) in (r, v', snd v))"

definition demo_mgpu :: "demo_memory gpu" where
  "demo_mgpu = \<lparr>vd_memory_get_system_allocator = 1,
     vmaCreateAllocator = (\<lambda>_ _ _ v. (Some 1, v)), vmaDestroyAllocator = (\<lambda>_ v. v),
     vmaCreateBuffer = (\<lambda>_ bi _ (v, m, c). let (r, v') = demo_new GAllocation v in
       (map_option (\<lambda>a. (a, a)) r, v', (case r of None \<Rightarrow> m | Some a \<Rightarrow> m(a := replicate (unat (bci_size bi)) 0)), c)),
     vmaCreateImage = (\<lambda>_ _ _. lift_get (\<lambda>v. case demo_new GAllocation v of (r, v') \<Rightarrow> (map_option (\<lambda>a. (a, a)) r, v'))),
     vmaDestroyBuffer = (\<lambda>_ _ a. lift_do (demo_del (GAllocation a))), vmaDestroyImage = (\<lambda>_ _ a. lift_do (demo_del (GAllocation a))),
     vmaSetAllocationUserData = (\<lambda>_ a p. lift_do (\<lambda>(n, xs, u). (n, xs, u(a := p)))),
     vmaGetAllocationInfo = (\<lambda>_ a v. (snd (snd (fst v)) a, 0)),
     vmaMapMemory = (\<lambda>_ a (v, m, c). (Some 4096, v, m, a, snd c)), vmaUnmapMemory = (\<lambda>_ _ v. v), vkGetBufferDeviceAddress = (\<lambda>_ _ _. 0),
     vkCreateImageView = (\<lambda>_ _ _ _. lift_get (demo_new GView)), vkDestroyImageView = (\<lambda>_ x. lift_do (demo_del (GView x))),
     vd_vk_create_shader_module = (\<lambda>_ _. lift_get (demo_new GModule)), vkDestroyShaderModule = (\<lambda>_ x. lift_do (demo_del (GModule x)))\<rparr>"

definition texel_bytes :: "VkExtent3D \<Rightarrow> nat" where
  "texel_bytes e = 4 * (unat (ext_width e) * unat (ext_height e) * unat (ext_depth e))"

definition run_command :: "command \<Rightarrow> (u64 \<Rightarrow> u8 list) \<times> (u64 \<Rightarrow> u32 \<times> u8 list) \<Rightarrow> (u64 \<Rightarrow> u8 list) \<times> (u64 \<Rightarrow> u32 \<times> u8 list)" where
  "run_command c = (\<lambda>(m, im). (case c of
     CmdCopyBuffer b \<Rightarrow> (run_copy Some b m, im)
   | CmdImageBarrier b \<Rightarrow> (m, im(imb_image b := (imb_newLayout b, snd (im (imb_image b)))))
   | CmdCopyBufferToImage b i l e \<Rightarrow> (m, im(i := (l, take (texel_bytes e) (m b))))))"

definition demo_cmd :: "demo_memory cmd_gpu" where
  "demo_cmd = \<lparr>write_memory = (\<lambda>p bytes (v, m, c). (v, m(fst c := overwrite (unat (p - 4096)) bytes (m (fst c))), c)),
     submit = (\<lambda>cs (v, m, c). Some (let (m', im') = fold run_command cs (m, snd c) in (v, m', fst c, im')))\<rparr>"

definition demo_bound :: "demo_memory \<Rightarrow> u64 \<Rightarrow> u64 option" where "demo_bound v = Some"

definition demo_mem :: "demo_memory \<Rightarrow> u64 \<Rightarrow> u8 list" where "demo_mem v = fst (snd v)"

definition demo_mapped :: "demo_memory \<Rightarrow> u64 \<Rightarrow> u64 \<Rightarrow> bool" where
  "demo_mapped v p a \<longleftrightarrow> p = 4096 \<and> a = fst (snd (snd v))"

lemma demo_mapped_tuple: "demo_mapped (v, m, c) = (\<lambda>p a. p = 4096 \<and> a = fst c)"
  by (simp add: fun_eq_iff demo_mapped_def)

abbreviation "mlive \<equiv> \<lambda>v :: demo_memory. demo_live (fst v)"
abbreviation "mud \<equiv> \<lambda>v :: demo_memory. demo_ud (fst v)"

lemma demo_mgpu_driver: "gpu_driver demo_mgpu mlive mud"
  by (auto simp: gpu_driver_def demo_mgpu_def gpu_creates_def gpu_destroys_def gpu_keeps_def demo_new_def demo_del_def
      lift_do_def lift_get_def demo_live_def demo_ud_def Let_def split: if_splits prod.splits)

lemma demo_device_memory: "device_memory demo_mgpu demo_cmd mlive mud demo_mem demo_bound demo_mapped"
  unfolding device_memory_def
  by (intro conjI) (auto simp: demo_mgpu_def demo_cmd_def run_command_def same_mem_def demo_new_def lift_do_def demo_live_def demo_ud_def demo_mem_def
      demo_bound_def demo_mapped_def demo_mapped_tuple Let_def take_bit_nat_eq_self unat_of_nat
      split: if_splits prod.splits option.splits)

text \<open>Every object has a number that was given out.\<close>

definition fresh_from :: "u64 \<Rightarrow> SVMA \<times> demo_memory \<Rightarrow> bool" where
  "fresh_from n st \<longleftrightarrow> gpu_ok demo_mgpu mlive mud st \<and> fst (fst (snd st)) = n \<and> (\<forall>a. GAllocation a \<in> mlive (snd st) \<longrightarrow> a < n)"

lemma demo_mcreate:
  assumes "fresh_from n st" and "n < 1000"
  shows "\<exists>st'. svma_create_buffer demo_mgpu bi ai tr st = Some ((n, n), st') \<and> fresh_from (n + 1) st'"
proof -
  obtain xs where "svma_at mlive mud xs st" using assms(1) by (auto simp: fresh_from_def gpu_ok_def)
  then obtain own where own: "svma_inv mlive mud own (fst st) (snd st)" by (auto simp: svma_at_def)
  then have tr: "svma_track (fst st)" and h: "holds (svma_allocations (fst st)) [1..<Suc (length own)]"
    by (auto simp: svma_inv_def)
  obtain al where al: "array_add (svma_allocations (fst st)) (Suc (length (svma_entries (fst st)))) = Some al"
    using array_add_holds [OF h] by blast
  obtain c ys u m p where st: "st = (c, (n, ys, u), m, p)" using assms(1) by (cases st) (auto simp: fresh_from_def)
  have "GAllocation n \<notin> set ys" using assms(1) by (auto simp: st fresh_from_def demo_live_def)
  then have "\<exists>st'. svma_create_buffer demo_mgpu bi ai tr st = Some ((n, n), st') \<and> fst (fst (snd st')) = n + 1"
    using tr al by (simp add: st svma_create_buffer_def track_allocation_def demo_mgpu_def demo_new_def lift_do_def Let_def)
  then obtain st' where st': "svma_create_buffer demo_mgpu bi ai tr st = Some ((n, n), st')" "fst (fst (snd st')) = n + 1" by blast
  have g: "gpu_ok demo_mgpu mlive mud st" using assms(1) by (simp add: fresh_from_def)
  note c = gpu_ok_create [OF g st'(1)]
  have "n < n + 1" using assms(2) by (simp add: word_less_nat_alt unat_word_ariths(1))
  then have "fresh_from (n + 1) st'"
    using c st'(2) assms(1) by (auto simp: fresh_from_def intro: less_trans)
  then show ?thesis using st'(1) by blast
qed

lemma demo_mfree:
  assumes "fresh_from n st" and "GAllocation a \<in> mlive (snd st)"
  shows "\<exists>st'. svma_free_buffer demo_mgpu b a st = Some st' \<and> fresh_from n st' \<and> mlive (snd st') = mlive (snd st) - {GAllocation a}"
proof -
  have g: "gpu_ok demo_mgpu mlive mud st" using assms(1) by (simp add: fresh_from_def)
  obtain st' where st': "svma_free_buffer demo_mgpu b a st = Some st'" "gpu_ok demo_mgpu mlive mud st'"
    "mlive (snd st') = mlive (snd st) - {GAllocation a}"
    using gpu_ok_free [OF g assms(2)] by blast
  have "fst (fst (snd st')) = fst (fst (snd st))"
    using st'(1) by (auto simp: svma_free_buffer_def bind_Some_iff demo_mgpu_def lift_do_def demo_del_def Let_def split: prod.splits)
  then show ?thesis using st' assms(1) by (auto simp: fresh_from_def)
qed

lemma demo_buffers:
  assumes "fresh_from n st" and "n < 900"
  shows "\<exists>m st'. create_buffers demo_mgpu g info st = Some (m, st') \<and> fresh_from (n + 2) st'"
proof -
  let ?ai = "\<lparr>aci_usage = VMA_MEMORY_USAGE_GPU_ONLY, aci_flags = VMA_ALLOCATION_CREATE_MAPPED_BIT, aci_requiredFlags = 0\<rparr>"
  have n: "n < 1000" "n + 1 < 1000" using assms(2) by (simp_all add: word_less_nat_alt unat_word_ariths(1))
  obtain st1 where 1: "svma_create_buffer demo_mgpu
      \<lparr>bci_usage = VK_BUFFER_USAGE_INDEX_BUFFER_BIT OR VK_BUFFER_USAGE_TRANSFER_DST_BIT, bci_size = mci_num_indices info * 4\<rparr>
      ?ai \<lparr>tr_file = ''geo_system.c'', tr_line = 35\<rparr> st = Some ((n, n), st1)" "fresh_from (n + 1) st1"
    using demo_mcreate [OF assms(1) n(1)] by blast
  obtain st2 where "svma_create_buffer demo_mgpu
      \<lparr>bci_usage = VK_BUFFER_USAGE_VERTEX_BUFFER_BIT OR VK_BUFFER_USAGE_TRANSFER_DST_BIT
         OR VK_BUFFER_USAGE_SHADER_DEVICE_ADDRESS_BIT, bci_size = mci_num_vertices info * 48\<rparr>
      ?ai \<lparr>tr_file = ''geo_system.c'', tr_line = 54\<rparr> st1 = Some ((n + 1, n + 1), st2)" "fresh_from (n + 1 + 1) st2"
    using demo_mcreate [OF 1(2) n(2)] by blast
  then show ?thesis using 1(1) by (simp add: create_buffers_def add.commute)
qed

lemma demo_new_mesh:
  assumes "fresh_from n st" and "n < 900" and ok: "renderer_ok demo_mgpu mlive mud bs r st"
    and "hm_bytes 56 (length (hm_arr (geo_meshes (rn_geos r))) * 2) < 2 ^ 64"
    and "48 * unat (mci_num_vertices info) < 2 ^ 64" "4 * unat (mci_num_indices info) < 2 ^ 64"
  shows "\<exists>h r' st' s. vd_renderer_create_mesh demo_mgpu r info st = Some (h, r', st') \<and> fresh_from (n + 2) st' \<and>
    renderer_ok demo_mgpu mlive mud bs r' st' \<and> hm_object (geo_meshes (rn_geos r')) h s \<and>
    mesh_sized demo_mem demo_bound (snd st') (mesh_of (hs_value s))"
proof -
  have gpu: "gpu_ok demo_mgpu mlive mud st" using assms(1) by (simp add: fresh_from_def)
  obtain mesh st' where c: "create_buffers demo_mgpu (rn_geos r) info st = Some (mesh, st')" "fresh_from (n + 2) st'"
    using demo_buffers [OF assms(1,2)] by blast
  note cs = create_buffers_spec [OF gpu c(1)] and cm = create_buffers_memory [OF demo_device_memory gpu assms(5,6) c(1)]
  obtain K where K: "geo_at K (rn_geos r) (mlive (snd st))" using ok by (auto simp: renderer_ok_def systems_at_def)
  obtain h m s where r: "vd_handlemap__register (geo_meshes (rn_geos r)) (mesh_bytes mesh) VD_HANDLEMAP_REF_MODE_COUNT = Some (h, m)"
    "hm_object m h s" "hs_value s = mesh_bytes mesh"
    using owner_register [of mesh_valid mesh_owns 56 K "geo_meshes (rn_geos r)" "mlive (snd st)" "mesh_bytes mesh"] K assms(4) cs
    by (auto simp: geo_at_def)
  have n: "vd_r_geo_system_new demo_mgpu (rn_geos r) info st = Some (h, (rn_geos r)\<lparr>geo_meshes := m\<rparr>, st')"
    using c(1) r(1) by (simp add: vd_r_geo_system_new_def)
  have "renderer_ok demo_mgpu mlive mud bs (r\<lparr>rn_geos := (rn_geos r)\<lparr>geo_meshes := m\<rparr>\<rparr>) st'"
    using geo_new [OF gpu _ assms(4) n] by (intro mesh_step [OF ok]) blast
  then show ?thesis using n c(2) r cm by (auto simp: vd_renderer_create_mesh_def)
qed

lemma demo_staging:
  assumes "fresh_from n st" and "n < 900"
  shows "\<exists>st'. fill_staging demo_mgpu demo_cmd vs bv is bi st = Some ((n, n), st') \<and> fst (fst (snd st')) = n + 1"
proof -
  have "n < 1000" using assms(2) by (rule less_trans) simp
  then obtain c v m p where "vd_renderer_create_buffer demo_mgpu (bi + bv) VK_BUFFER_USAGE_TRANSFER_SRC_BIT VMA_MEMORY_USAGE_CPU_ONLY st
      = Some ((n, n), c, v, m, p)" "fst v = n + 1"
    using demo_mcreate [OF assms(1)] by (fastforce simp: vd_renderer_create_buffer_def fresh_from_def)
  then show ?thesis
    by (simp add: fill_staging_def svma_map_def svma_unmap_def demo_mgpu_def demo_cmd_def Let_def)
qed

lemma demo_resize:
  assumes "fresh_from n st" and "n < 900" and g: "geo_at L g (mlive (snd st))" and h: "hm_object (geo_meshes g) h s"
  shows "\<exists>c g' st'. sgeo_resize demo_mgpu g h info st = Some (c, g', st')"
proof -
  have gpu: "gpu_ok demo_mgpu mlive mud st" using assms(1) by (simp add: fresh_from_def)
  have inv: "owner_inv mesh_valid mesh_owns 56 L (geo_meshes g) (mlive (snd st))" using g by (simp add: geo_at_def)
  note o = hm_object_slot [OF inv h]
  have use: "hm_metadata (geo_meshes g) (unat (vh_id h) - 1) = Some s" using h by (simp add: hm_object_def)
  have owns: "mesh_owns (hs_value s) \<subseteq> mlive (snd st)" using o(6) h by (simp add: slot_owns_def hm_object_def)
  let ?m = "mesh_of (hs_value s)"
  obtain st1 where st1: "svma_free_buffer demo_mgpu (gm_index_buffer ?m) (gm_index_allocation ?m) st = Some st1" "fresh_from n st1"
    "mlive (snd st1) = mlive (snd st) - {GAllocation (gm_index_allocation ?m)}"
    using demo_mfree [OF assms(1), of "gm_index_allocation ?m" "gm_index_buffer ?m"] owns by (auto simp: mesh_owns_def)
  have "GAllocation (gm_vertex_allocation ?m) \<in> mlive (snd st1)" using owns o(5) st1(3) by (auto simp: mesh_owns_def mesh_valid_def)
  then obtain st2 where st2: "svma_free_buffer demo_mgpu (gm_vertex_buffer ?m) (gm_vertex_allocation ?m) st1 = Some st2" "fresh_from n st2"
    using demo_mfree [OF st1(2)] by blast
  obtain m st' where "create_buffers demo_mgpu g info st2 = Some (m, st')" using demo_buffers [OF st2(2) assms(2)] by blast
  then show ?thesis
    using o(7) use st1(1) st2(1) by (cases st, cases st') (auto simp: sgeo_resize_def free_geo_def write_object_def Let_def)
qed

definition demo_write :: "vd_handle \<Rightarrow> VD_R_MeshWriteInfo" where
  "demo_write h = \<lparr>mwi_mesh = h, mwi_vertices = replicate 240 1, mwi_num_vertices = 5, mwi_indices = replicate 24 2, mwi_num_indices = 6\<rparr>"

lemma demo_submit:
  assumes "gpu_ok demo_mgpu mlive mud st" and "GAllocation n \<in> mlive (snd st)"
  shows "\<exists>st'. vd_renderer_imm_end demo_cmd cs st = Some st' \<and> gpu_ok demo_mgpu mlive mud st' \<and> GAllocation n \<in> mlive (snd st')"
proof -
  obtain c v m p where "st = (c, v, m, p)" by (cases st) auto
  moreover obtain m' im' where "fold run_command cs (m, snd p) = (m', im')" by fastforce
  ultimately show ?thesis using assms gpu_ok_others [of demo_mgpu mlive mud c "(v, m, p)" "(v, m', fst p, im')"]
    by (auto simp: demo_cmd_def vd_renderer_imm_end_def)
qed

lemma demo_write_mesh:
  assumes fr: "fresh_from n st" "n < 800" and ok: "renderer_ok demo_mgpu mlive mud bs r st"
    and h: "hm_object (geo_meshes (rn_geos r)) h s"
    and sized: "mesh_sized demo_mem demo_bound (snd st) (mesh_of (hs_value s))"
  shows "\<exists>r' st'. vd_renderer_write_mesh demo_mgpu demo_cmd r (demo_write h) st = Some (r', st')"
proof -
  let ?v = "replicate 240 1" and ?i = "replicate 24 2"
  have gpu: "gpu_ok demo_mgpu mlive mud st" using fr by (simp add: fresh_from_def)
  have n: "n < 900" "n + 1 < 900" using fr(2) by (simp_all add: word_less_nat_alt unat_word_ariths(1))
  obtain st1 where f: "fill_staging demo_mgpu demo_cmd ?v 240 ?i 24 st = Some ((n, n), st1)" "fst (fst (snd st1)) = n + 1"
    using demo_staging [OF fr(1) n(1)] by blast
  have "length ?v = unat (240 :: u64)" "length ?i = unat (24 :: u64)" "unat (24 :: u64) + unat (240 :: u64) < 2 ^ 64" by simp_all
  note st1 = fill_staging_spec [OF demo_device_memory gpu this f(1)]
  have "n < n + 1" using fr(2) by (simp add: word_less_nat_alt unat_word_ariths(1))
  then have fr1: "fresh_from (n + 1) st1" using st1 f(2) fr(1) by (auto simp: fresh_from_def intro: less_trans)
  have anew: "GAllocation n \<notin> mlive (snd st)" "mlive (snd st1) = insert (GAllocation n) (mlive (snd st))" using st1 by blast+
  obtain K where K: "geo_at K (rn_geos r) (mlive (snd st))" using ok by (auto simp: renderer_ok_def systems_at_def)
  have inv: "owner_inv mesh_valid mesh_owns 56 K (geo_meshes (rn_geos r)) (mlive (snd st))" using K by (simp add: geo_at_def)
  note o = hm_object_slot [OF inv h]
  have own: "mesh_owns (hs_value s) \<subseteq> mlive (snd st)" using o(6) h by (simp add: slot_owns_def hm_object_def)
  have K1: "geo_at (insert (GAllocation n) K) (rn_geos r) (mlive (snd st1))"
    using other_new(1) [OF K anew(1)] by (simp add: anew(2))
  let ?mi = "\<lparr>mci_num_vertices = 5, mci_num_indices = 6\<rparr>"
  obtain c g st2 where z: "sgeo_resize demo_mgpu (rn_geos r) h ?mi st1 = Some (c, g, st2)"
    using demo_resize [OF fr1 n(2) K1 h] by blast
  have sized1: "mesh_sized demo_mem demo_bound (snd st1) (mesh_of (hs_value s))"
    using own st1 by (intro mesh_sized_same [OF sized]) (auto simp: mesh_owns_def)
  have gpu1: "gpu_ok demo_mgpu mlive mud st1" using fr1 by (simp add: fresh_from_def)
  obtain b where b: "hm_object (geo_meshes g) h (s\<lparr>hs_value := b\<rparr>)"
    and rz: "resized demo_mem demo_bound mlive (hs_value s) ?mi (snd st1) b (snd st2)"
    using resize_memory [OF demo_device_memory gpu1 K1 h sized1 _ _ z] by auto
  have gpu2: "gpu_ok demo_mgpu mlive mud st2" using geo_resize [OF gpu1 K1 h z] by blast
  have live2: "GAllocation n \<in> mlive (snd st2)" using rz anew own by (auto simp: resized_def)
  let ?cs = "[CmdCopyBuffer \<lparr>cp_src = n, cp_dst = gm_vertex_buffer (mesh_of b), cp_srcOffset = 0, cp_dstOffset = 0, cp_size = 240\<rparr>,
     CmdCopyBuffer \<lparr>cp_src = n, cp_dst = gm_index_buffer (mesh_of b), cp_srcOffset = 240, cp_dstOffset = 0, cp_size = 24\<rparr>]"
  have "\<exists>st3 st4. vd_renderer_imm_end demo_cmd cs st2 = Some st3 \<and> vd_renderer_destroy_buffer demo_mgpu (n, n) st3 = Some st4" for cs
    using demo_submit [OF gpu2 live2, of cs] gpu_ok_free [of demo_mgpu mlive mud _ n n] unfolding vd_renderer_destroy_buffer_def fst_conv snd_conv by metis
  then obtain st3 st4 where "vd_renderer_imm_end demo_cmd ?cs st2 = Some st3" "vd_renderer_destroy_buffer demo_mgpu (n, n) st3 = Some st4"
    by blast
  then show ?thesis
    using o(7) f(1) z b
    by (cases st4) (auto simp: vd_renderer_write_mesh_def demo_write_def write_object_def hm_object_def Let_def)
qed

definition demo_mv0 :: demo_memory where "demo_mv0 = (demo_v0, \<lambda>_. [], 0, \<lambda>_. (0, []))"

lemma demo_start:
  "\<exists>st0 r0. svma_init demo_mgpu svma_create demo_info demo_mv0 = Some (0, st0) \<and> init_systems 0 = Some r0 \<and>
     renderer_ok demo_mgpu mlive mud {} r0 st0 \<and> fresh_from 1 st0"
proof -
  obtain st0 where i: "svma_init demo_mgpu svma_create demo_info demo_mv0 = Some (0, st0)" "snd st0 = demo_mv0"
    by (simp add: svma_init_def svma_create_def demo_mgpu_def demo_info_def demo_mv0_def demo_v0_def array_init_def vd_array_grow_def
        array_len_def array_cap_def Let_def)
  obtain r0 where r0: "init_systems 0 = Some r0"
    using tex_init [where device = 0 and lv = "{}"] geo_init [where device = 0 and lv = "{}"] shd_init [where device = 0 and lv = "{}"]
    by (auto simp: init_systems_def)
  have none: "mlive demo_mv0 = {}" by (simp add: demo_mv0_def demo_v0_def demo_live_def)
  have ok0: "renderer_ok demo_mgpu mlive mud {} r0 st0"
    using init_systems_ok [OF demo_mgpu_driver none _ i(1) r0] by (simp add: demo_info_def)
  then have "fresh_from 1 st0" by (simp add: fresh_from_def renderer_ok_def i(2) none) (simp add: demo_mv0_def demo_v0_def demo_live_def)
  then show ?thesis using i(1) r0 ok0 by blast
qed

theorem write_mesh_uploads_witness:
  "\<exists>st0 r0 h r st r' st' s. svma_init demo_mgpu svma_create demo_info demo_mv0 = Some (0, st0) \<and> init_systems 0 = Some r0 \<and>
     vd_renderer_create_mesh demo_mgpu r0 demo_mi st0 = Some (h, r, st) \<and>
     vd_renderer_write_mesh demo_mgpu demo_cmd r (demo_write h) st = Some (r', st') \<and>
     hm_object (geo_meshes (rn_geos r')) h s \<and>
     take 240 (demo_mem (snd st') (gm_vertex_allocation (mesh_of (hs_value s)))) = replicate 240 1"
proof -
  obtain st0 r0 where i: "svma_init demo_mgpu svma_create demo_info demo_mv0 = Some (0, st0)" and r0: "init_systems 0 = Some r0"
    and ok0: "renderer_ok demo_mgpu mlive mud {} r0 st0" and "fresh_from 1 st0"
    using demo_start by blast
  then obtain h r st s where c: "vd_renderer_create_mesh demo_mgpu r0 demo_mi st0 = Some (h, r, st)" "fresh_from (1 + 2) st"
    "renderer_ok demo_mgpu mlive mud {} r st" "hm_object (geo_meshes (rn_geos r)) h s"
    "mesh_sized demo_mem demo_bound (snd st) (mesh_of (hs_value s))"
    using demo_new_mesh [OF _ _ ok0 init_systems_bytes(2) [OF r0], of 1 demo_mi] by (auto simp: demo_mi_def)
  obtain r' st' where w: "vd_renderer_write_mesh demo_mgpu demo_cmd r (demo_write h) st = Some (r', st')"
    using demo_write_mesh [OF c(2) _ c(3-5)] by auto
  have "hm_object (geo_meshes (rn_geos r)) (mwi_mesh (demo_write h)) s" using c(4) by (simp add: demo_write_def)
  from write_mesh_uploads [OF demo_device_memory c(3) this c(5) _ _ _ w] obtain b where
    "hm_object (geo_meshes (rn_geos r')) h (s\<lparr>hs_value := b\<rparr>)" "mesh_holds demo_mem demo_bound (snd st') (mesh_of b) (demo_write h)"
    by (auto simp: demo_write_def)
  then show ?thesis
    using i r0 c(1) w by (intro exI [of _ st0] exI [of _ r0] exI [of _ h] exI [of _ r] exI [of _ st] exI [of _ r'] exI [of _ st']
        exI [of _ "s\<lparr>hs_value := b\<rparr>"]) (simp add: mesh_holds_def demo_write_def)
qed

end
