(* ===== verification/Texload.thy ===== *)
theory Texload
  imports Upload
begin

text \<open>
  Filling textures: the part of ng/src/renderer.c that copies texels to an image, and the barriers of lib/vd_vk.h
  around the copy. Texels are four bytes.
\<close>

section \<open>Definitions\<close>

definition VK_IMAGE_LAYOUT_UNDEFINED :: u32 where "VK_IMAGE_LAYOUT_UNDEFINED = 0"
definition VK_IMAGE_LAYOUT_SHADER_READ_ONLY_OPTIMAL :: u32 where "VK_IMAGE_LAYOUT_SHADER_READ_ONLY_OPTIMAL = 5"
definition VK_IMAGE_LAYOUT_TRANSFER_DST_OPTIMAL :: u32 where "VK_IMAGE_LAYOUT_TRANSFER_DST_OPTIMAL = 7"
definition VK_IMAGE_LAYOUT_DEPTH_ATTACHMENT_OPTIMAL :: u32 where "VK_IMAGE_LAYOUT_DEPTH_ATTACHMENT_OPTIMAL = 1000241000"
definition VK_PIPELINE_STAGE_2_ALL_COMMANDS_BIT :: u64 where "VK_PIPELINE_STAGE_2_ALL_COMMANDS_BIT = 0x10000"
definition VK_ACCESS_2_MEMORY_READ_BIT :: u64 where "VK_ACCESS_2_MEMORY_READ_BIT = 0x8000"
definition VK_ACCESS_2_MEMORY_WRITE_BIT :: u64 where "VK_ACCESS_2_MEMORY_WRITE_BIT = 0x10000"

definition vd_vk_image_transition :: "u64 \<Rightarrow> u32 \<Rightarrow> u32 \<Rightarrow> command" where
  "vd_vk_image_transition img old_layout new_layout = CmdImageBarrier
     \<lparr>imb_image = img,
      imb_srcStageMask = VK_PIPELINE_STAGE_2_ALL_COMMANDS_BIT,
      imb_srcAccessMask = VK_ACCESS_2_MEMORY_WRITE_BIT,
      imb_dstStageMask = VK_PIPELINE_STAGE_2_ALL_COMMANDS_BIT,
      imb_dstAccessMask = VK_ACCESS_2_MEMORY_WRITE_BIT OR VK_ACCESS_2_MEMORY_READ_BIT,
      imb_oldLayout = old_layout,
      imb_newLayout = new_layout,
      imb_aspectMask = (if new_layout = VK_IMAGE_LAYOUT_DEPTH_ATTACHMENT_OPTIMAL then VK_IMAGE_ASPECT_DEPTH_BIT
                        else VK_IMAGE_ASPECT_COLOR_BIT)\<rparr>"

text \<open>The size is computed with 32 bits. A size that is not the one of the caller is only logged (the first result);
  the copy reads as many bytes as were computed, whatever the caller has.\<close>

definition texture_data_size :: "VkExtent3D \<Rightarrow> u64" where
  "texture_data_size e = ucast (ext_width e * ext_height e * ext_depth e * 4 :: u32)"

definition vd_renderer_upload_texture_data ::
  "'v gpu \<Rightarrow> 'v cmd_gpu \<Rightarrow> Texture \<Rightarrow> u8 list \<Rightarrow> u64 \<Rightarrow> SVMA \<times> 'v \<Rightarrow> (bool \<times> SVMA \<times> 'v) option" where
  "vd_renderer_upload_texture_data k cg img data size' st =
     (let data_size = texture_data_size (tex_extent img); logged = (data_size \<noteq> size') in
      do { (staging, st1) \<leftarrow> vd_renderer_create_buffer k data_size VK_BUFFER_USAGE_TRANSFER_SRC_BIT VMA_MEMORY_USAGE_CPU_TO_GPU st;
           (staging_ptr, c, v) \<leftarrow> vd_renderer_map_buffer k staging st1;
           if length data < unat data_size then None
           else
             do { let v' = write_memory cg staging_ptr (take (unat data_size) data) v;
                  let st2 = vd_renderer_unmap_buffer k staging (c, v');
                  st3 \<leftarrow> vd_renderer_imm_end cg
                    [vd_vk_image_transition (tex_image img) VK_IMAGE_LAYOUT_UNDEFINED VK_IMAGE_LAYOUT_TRANSFER_DST_OPTIMAL,
                     CmdCopyBufferToImage (fst staging) (tex_image img) VK_IMAGE_LAYOUT_TRANSFER_DST_OPTIMAL (tex_extent img),
                     vd_vk_image_transition (tex_image img) VK_IMAGE_LAYOUT_TRANSFER_DST_OPTIMAL
                       VK_IMAGE_LAYOUT_SHADER_READ_ONLY_OPTIMAL] st2;
                  st4 \<leftarrow> vd_renderer_destroy_buffer k staging st3;
                  Some (logged, st4) } })"

section \<open>What the code relies on\<close>

text \<open>
  The documented behaviour of images: \<open>texels\<close> is the first level of an image, \<open>layout\<close> the layout of all its
  levels. What is done to buffers keeps images; a copy to an image is valid when the image is in the layout the
  command names and the buffer has the bytes of the region.
\<close>

definition same_images :: "('v \<Rightarrow> u64 \<Rightarrow> u8 list) \<Rightarrow> ('v \<Rightarrow> u64 \<Rightarrow> u32) \<Rightarrow> 'v \<Rightarrow> 'v \<Rightarrow> bool" where
  "same_images texels layout v v' \<longleftrightarrow> texels v' = texels v \<and> layout v' = layout v"

definition barrier_ok :: "u32 \<Rightarrow> VkImageMemoryBarrier2 \<Rightarrow> bool" where
  "barrier_ok current b \<longleftrightarrow> (imb_oldLayout b = VK_IMAGE_LAYOUT_UNDEFINED \<or> imb_oldLayout b = current) \<and>
     imb_aspectMask b = VK_IMAGE_ASPECT_COLOR_BIT"

definition device_images ::
  "'v gpu \<Rightarrow> 'v cmd_gpu \<Rightarrow> ('v \<Rightarrow> gpu_object set) \<Rightarrow> ('v \<Rightarrow> u64 \<Rightarrow> nat) \<Rightarrow> ('v \<Rightarrow> u64 \<Rightarrow> u8 list) \<Rightarrow> ('v \<Rightarrow> u64 \<Rightarrow> u64 option)
     \<Rightarrow> ('v \<Rightarrow> u64 \<Rightarrow> u8 list) \<Rightarrow> ('v \<Rightarrow> u64 \<Rightarrow> u32) \<Rightarrow> bool" where
  "device_images k cg live ud mem bound texels layout \<longleftrightarrow>
     (\<forall>m bi ai v r v'. vmaCreateBuffer k m bi ai v = (r, v') \<longrightarrow> same_images texels layout v v') \<and>
     (\<forall>m b a v. same_images texels layout v (vmaDestroyBuffer k m b a v)) \<and>
     (\<forall>m a p v. same_images texels layout v (vmaSetAllocationUserData k m a p v)) \<and>
     (\<forall>m a v r v'. vmaMapMemory k m a v = (r, v') \<longrightarrow> same_images texels layout v v') \<and>
     (\<forall>m a v. same_images texels layout v (vmaUnmapMemory k m a v)) \<and>
     (\<forall>p bytes v. same_images texels layout v (write_memory cg p bytes v)) \<and>
     (\<forall>b1 sb i e b2 a v v'. submit cg [CmdImageBarrier b1, CmdCopyBufferToImage sb i (imb_newLayout b1) e, CmdImageBarrier b2] v = Some v' \<longrightarrow>
        imb_image b1 = i \<longrightarrow> imb_image b2 = i \<longrightarrow> barrier_ok (layout v i) b1 \<longrightarrow> barrier_ok (imb_newLayout b1) b2 \<longrightarrow>
        imb_oldLayout b2 \<noteq> VK_IMAGE_LAYOUT_UNDEFINED \<longrightarrow>
        imb_newLayout b1 = VK_IMAGE_LAYOUT_TRANSFER_DST_OPTIMAL \<longrightarrow> bound v sb = Some a \<longrightarrow> GAllocation a \<in> live v \<longrightarrow>
        texel_bytes e \<le> length (mem v a) \<longrightarrow>
        live v' = live v \<and> ud v' = ud v \<and> bound v' = bound v \<and> mem v' = mem v \<and>
        layout v' = (layout v)(i := imb_newLayout b2) \<and> texels v' = (texels v)(i := take (texel_bytes e) (mem v a)))"

lemma images_keep:
  assumes "device_images k cg live ud mem bound texels layout"
  shows "vmaCreateBuffer k m bi ai v = (r, v') \<Longrightarrow> same_images texels layout v v'"
    and "same_images texels layout v (vmaDestroyBuffer k m b a v)"
    and "same_images texels layout v (vmaSetAllocationUserData k m a p v)"
    and "vmaMapMemory k m a v = (q, v'') \<Longrightarrow> same_images texels layout v v''"
    and "same_images texels layout v (vmaUnmapMemory k m a v)"
    and "same_images texels layout v (write_memory cg w bytes v)"
  using assms by (simp_all add: device_images_def)

lemma images_submit:
  assumes "device_images k cg live ud mem bound texels layout"
    and "submit cg [CmdImageBarrier b1, CmdCopyBufferToImage sb i (imb_newLayout b1) e, CmdImageBarrier b2] v = Some v'"
    and "imb_image b1 = i" "imb_image b2 = i" "barrier_ok (layout v i) b1" "barrier_ok (imb_newLayout b1) b2"
    and "imb_oldLayout b2 \<noteq> VK_IMAGE_LAYOUT_UNDEFINED" "imb_newLayout b1 = VK_IMAGE_LAYOUT_TRANSFER_DST_OPTIMAL"
    and "bound v sb = Some a" "GAllocation a \<in> live v" "texel_bytes e \<le> length (mem v a)"
  shows "live v' = live v" "ud v' = ud v" "bound v' = bound v" "mem v' = mem v"
    "layout v' = (layout v)(i := imb_newLayout b2)" "texels v' = (texels v)(i := take (texel_bytes e) (mem v a))"
  using assms unfolding device_images_def by (elim conjE; metis)+

lemma same_images_trans: "same_images t l v1 v2 \<Longrightarrow> same_images t l v2 v3 \<Longrightarrow> same_images t l v1 v3"
  by (simp add: same_images_def)

lemma create_images:
  assumes D: "device_images k cg live ud mem bound texels layout" and c: "svma_create_buffer k bi ai tr st = Some (r, st')"
  shows "same_images texels layout (snd st) (snd st')"
proof -
  obtain b a v1 where v1: "vmaCreateBuffer k (svma_allocator (fst st)) bi ai (snd st) = (Some (b, a), v1)"
    and t: "track_allocation k (fst st) tr a v1 = Some st'"
    using c by (auto simp: svma_create_buffer_def bind_Some_iff split: prod.splits)
  have "same_images texels layout v1 (snd st')"
    using t images_keep(3) [OF D]
    by (auto simp: track_allocation_def Let_def bind_Some_iff same_images_def split: if_splits)
  then show ?thesis by (rule same_images_trans [OF images_keep(1) [OF D v1]])
qed

lemma free_images:
  assumes "device_images k cg live ud mem bound texels layout" and "svma_free_buffer k b a st = Some st'"
  shows "same_images texels layout (snd st) (snd st')"
  using assms(2) images_keep(2) [OF assms(1)] by (auto simp: svma_free_buffer_def bind_Some_iff split: prod.splits)

section \<open>The upload\<close>

text \<open>The size is the number of bytes of the texels, as long as that has 32 bits.\<close>

lemma texture_data_size: "unat (texture_data_size e) = texel_bytes e mod 2 ^ 32"
proof -
  have "unat (ucast w :: u64) = unat w" for w :: u32
  proof -
    have "unat w < 2 ^ LENGTH(32)" by (rule unsigned_less)
    then show ?thesis by (simp add: unsigned_ucast_eq take_bit_nat_eq_self)
  qed
  moreover have "texel_bytes e = unat (ext_width e) * unat (ext_height e) * unat (ext_depth e) * 4" by (simp add: texel_bytes_def)
  ultimately show ?thesis by (simp add: texture_data_size_def unat_word_ariths(2) mod_mult_left_eq)
qed

lemma texture_staging:
  assumes D: "device_memory k cg live ud mem bound mapped" and I: "device_images k cg live ud mem bound texels layout"
    and ok: "gpu_ok k live ud st" and c: "vd_renderer_create_buffer k n flags usage st = Some ((b, a), st1)"
    and m: "vd_renderer_map_buffer k (b, a) st1 = Some (p, c, v)" and len: "length bytes = unat n"
    and st2: "st2 = vd_renderer_unmap_buffer k (b, a) (c, write_memory cg p bytes v)"
  shows "gpu_ok k live ud st2" and "GAllocation a \<notin> live (snd st)" and "live (snd st2) = insert (GAllocation a) (live (snd st))"
    and "bound (snd st2) b = Some a" and "mem (snd st2) a = bytes"
    and "\<And>x. GAllocation x \<in> live (snd st) \<Longrightarrow> same_mem mem bound x (snd st) (snd st2)"
    and "same_images texels layout (snd st) (snd st2)"
proof -
  obtain c1 v1 where st1: "st1 = (c1, v1)" by (cases st1)
  note cb = c [unfolded vd_renderer_create_buffer_def]
  note g1 = gpu_ok_create [OF ok cb] and m1 = create_memory [OF D cb] and i1 = create_images [OF I cb]
  have map: "vmaMapMemory k (svma_allocator c1) a v1 = (Some p, v)" and c: "c = c1"
    using m by (auto simp: vd_renderer_map_buffer_def svma_map_Some st1)
  let ?v3 = "write_memory cg p bytes v"
  let ?v4 = "vmaUnmapMemory k (svma_allocator c1) a ?v3"
  have st2: "st2 = (c1, ?v4)" using st2 c by (simp add: vd_renderer_unmap_buffer_def svma_unmap_def)
  note g2 = map_keeps [OF conjunct1 [OF g1, unfolded st1] map] and m2 = memory_map [OF D map]
  have len2: "length (mem v a) = length bytes" using m1 m2 len by (simp add: st1 same_mem_def)
  have w: "live ?v3 = live v" "ud ?v3 = ud v" "bound ?v3 = bound v" "mem ?v3 = (mem v)(a := overwrite 0 bytes (mem v a))"
    using memory_write [OF D conjunct1 [OF m2], of 0 bytes ?v3] len2 by simp_all
  have g3: "gpu_ok k live ud (c1, ?v3)" "live ?v3 = live v1"
    using g2 w(1,2) gpu_ok_others [of k live ud c1 v ?v3] by simp_all
  note g4 = unmap_keeps [OF g3(1), of "svma_allocator c1" a]
  note m4 = memory_unmap [OF D, of _ ?v3 "svma_allocator c1" a]
  show "gpu_ok k live ud st2" "GAllocation a \<notin> live (snd st)" "live (snd st2) = insert (GAllocation a) (live (snd st))"
    using g1 g3(2) g4 by (simp_all add: st1 st2)
  show "bound (snd st2) b = Some a" using m1 m2 m4 [of a] w(3) by (simp add: st1 st2 same_mem_def)
  have "mem ?v3 a = bytes" using len2 by (simp add: w(4) overwrite_def)
  then show "mem (snd st2) a = bytes" using m4 [of a] by (simp add: st2 same_mem_def)
  show "same_mem mem bound x (snd st) (snd st2)" if x: "GAllocation x \<in> live (snd st)" for x
  proof -
    have "x \<noteq> a" using x g1 by auto
    then have "same_mem mem bound x v ?v3" using w(3,4) by (simp add: same_mem_def)
    moreover have "same_mem mem bound x (snd st) v1" "same_mem mem bound x v1 v" using m1 m2 x by (simp_all add: st1)
    ultimately show ?thesis using m4 [of x] same_mem_trans unfolding st2 snd_conv by metis
  qed
  show "same_images texels layout (snd st) (snd st2)"
    using i1 images_keep(4) [OF I map] images_keep(6) [OF I, of v p bytes] images_keep(5) [OF I, of ?v3 "svma_allocator c1" a]
    by (simp add: st1 st2 same_images_def)
qed

lemma upload_texture_steps:
  assumes "vd_renderer_upload_texture_data k cg img data sz st = Some (l, st')"
  obtains b a st1 p c v st3 where
    "vd_renderer_create_buffer k (texture_data_size (tex_extent img)) VK_BUFFER_USAGE_TRANSFER_SRC_BIT VMA_MEMORY_USAGE_CPU_TO_GPU st
      = Some ((b, a), st1)"
    "vd_renderer_map_buffer k (b, a) st1 = Some (p, c, v)" "unat (texture_data_size (tex_extent img)) \<le> length data"
    "vd_renderer_imm_end cg
       [vd_vk_image_transition (tex_image img) VK_IMAGE_LAYOUT_UNDEFINED VK_IMAGE_LAYOUT_TRANSFER_DST_OPTIMAL,
        CmdCopyBufferToImage b (tex_image img) VK_IMAGE_LAYOUT_TRANSFER_DST_OPTIMAL (tex_extent img),
        vd_vk_image_transition (tex_image img) VK_IMAGE_LAYOUT_TRANSFER_DST_OPTIMAL VK_IMAGE_LAYOUT_SHADER_READ_ONLY_OPTIMAL]
       (vd_renderer_unmap_buffer k (b, a) (c, write_memory cg p (take (unat (texture_data_size (tex_extent img))) data) v)) = Some st3"
    "vd_renderer_destroy_buffer k (b, a) st3 = Some st'" "l = (texture_data_size (tex_extent img) \<noteq> sz)"
  using assms unfolding vd_renderer_upload_texture_data_def Let_def
  by (auto simp: bind_Some_iff not_less split: prod.splits if_splits) blast+

section \<open>The device with memory\<close>

definition demo_texels :: "demo_memory \<Rightarrow> u64 \<Rightarrow> u8 list" where "demo_texels v = (\<lambda>i. snd (snd (snd (snd v)) i))"

definition demo_layout :: "demo_memory \<Rightarrow> u64 \<Rightarrow> u32" where "demo_layout v = (\<lambda>i. fst (snd (snd (snd v)) i))"

lemma demo_device_images: "device_images demo_mgpu demo_cmd mlive mud demo_mem demo_bound demo_texels demo_layout"
  unfolding device_images_def
  by (intro conjI) (auto simp: demo_mgpu_def demo_cmd_def run_command_def same_images_def demo_new_def lift_do_def demo_mem_def
      demo_bound_def demo_texels_def demo_layout_def Let_def intro!: ext split: if_splits prod.splits option.splits)

definition demo_img :: Texture where
  "demo_img = \<lparr>tex_image = 7, tex_view = 8, tex_allocation = 9, tex_extent = \<lparr>ext_width = 2, ext_height = 1, ext_depth = 1\<rparr>, tex_format = 37\<rparr>"

lemma demo_img_bytes: "texel_bytes (tex_extent demo_img) = 8" "texture_data_size (tex_extent demo_img) = 8"
  by (simp_all add: demo_img_def texel_bytes_def texture_data_size_def)

lemma demo_upload:
  assumes "fresh_from n st" and "n < 900" and "length data = 8"
  shows "\<exists>l st'. vd_renderer_upload_texture_data demo_mgpu demo_cmd demo_img data sz st = Some (l, st')"
proof -
  have gpu: "gpu_ok demo_mgpu mlive mud st" using assms(1) by (simp add: fresh_from_def)
  have n: "n < 1000" using assms(2) by (rule less_trans) simp
  obtain st1 where c: "vd_renderer_create_buffer demo_mgpu 8 VK_BUFFER_USAGE_TRANSFER_SRC_BIT VMA_MEMORY_USAGE_CPU_TO_GPU st
      = Some ((n, n), st1)"
    using demo_mcreate [OF assms(1) n] unfolding vd_renderer_create_buffer_def by blast
  obtain p c2 v where m: "vd_renderer_map_buffer demo_mgpu (n, n) st1 = Some (p, c2, v)"
    by (cases st1) (auto simp: vd_renderer_map_buffer_def svma_map_def demo_mgpu_def)
  let ?st2 = "vd_renderer_unmap_buffer demo_mgpu (n, n) (c2, write_memory demo_cmd p data v)"
  have len: "length data = unat (8 :: u64)" using assms(3) by simp
  note t = texture_staging [OF demo_device_memory demo_device_images gpu c m len refl]
  have live: "GAllocation n \<in> mlive (snd ?st2)" using t(3) by simp
  have "\<exists>st3 st4. vd_renderer_imm_end demo_cmd cs ?st2 = Some st3 \<and> vd_renderer_destroy_buffer demo_mgpu (n, n) st3 = Some st4" for cs
    using demo_submit [OF t(1) live, of cs] gpu_ok_free [of demo_mgpu mlive mud _ n n]
    unfolding vd_renderer_destroy_buffer_def fst_conv snd_conv by metis
  then obtain st3 st4 where "vd_renderer_imm_end demo_cmd
      [vd_vk_image_transition (tex_image demo_img) VK_IMAGE_LAYOUT_UNDEFINED VK_IMAGE_LAYOUT_TRANSFER_DST_OPTIMAL,
       CmdCopyBufferToImage n (tex_image demo_img) VK_IMAGE_LAYOUT_TRANSFER_DST_OPTIMAL (tex_extent demo_img),
       vd_vk_image_transition (tex_image demo_img) VK_IMAGE_LAYOUT_TRANSFER_DST_OPTIMAL VK_IMAGE_LAYOUT_SHADER_READ_ONLY_OPTIMAL]
      ?st2 = Some st3" "vd_renderer_destroy_buffer demo_mgpu (n, n) st3 = Some st4" by blast
  then show ?thesis
    using c m assms(3) by (cases st4) (auto simp: vd_renderer_upload_texture_data_def demo_img_bytes Let_def)
qed

section \<open>What an upload does\<close>

text \<open>C34. After an upload the image has the texels that the caller gave and can be read by shaders; every other
  image and every allocation that existed is as it was, the staging buffer is gone, and a size that is not the
  number of bytes of the texels was logged.\<close>

theorem upload_texture_data_correct:
  assumes D: "device_memory k cg live ud mem bound mapped" and I: "device_images k cg live ud mem bound texels layout"
    and ok: "renderer_ok k live ud bs r st" and small: "texel_bytes (tex_extent img) < 2 ^ 32"
    and u: "vd_renderer_upload_texture_data k cg img data sz st = Some (logged, st')"
  shows "renderer_ok k live ud bs r st' \<and> logged = (unat sz \<noteq> texel_bytes (tex_extent img)) \<and>
    texels (snd st') = (texels (snd st))(tex_image img := take (texel_bytes (tex_extent img)) data) \<and>
    layout (snd st') = (layout (snd st))(tex_image img := VK_IMAGE_LAYOUT_SHADER_READ_ONLY_OPTIMAL) \<and>
    (\<forall>x. GAllocation x \<in> live (snd st) \<longrightarrow> same_mem mem bound x (snd st) (snd st'))"
proof -
  let ?e = "tex_extent img" and ?i = "tex_image img"
  let ?n = "texture_data_size ?e"
  have n: "unat ?n = texel_bytes ?e" using small by (simp add: texture_data_size)
  obtain b a st1 p c v st3 where
    c: "vd_renderer_create_buffer k ?n VK_BUFFER_USAGE_TRANSFER_SRC_BIT VMA_MEMORY_USAGE_CPU_TO_GPU st = Some ((b, a), st1)"
    and m: "vd_renderer_map_buffer k (b, a) st1 = Some (p, c, v)" and le: "unat ?n \<le> length data"
    and s: "vd_renderer_imm_end cg
       [vd_vk_image_transition ?i VK_IMAGE_LAYOUT_UNDEFINED VK_IMAGE_LAYOUT_TRANSFER_DST_OPTIMAL,
        CmdCopyBufferToImage b ?i VK_IMAGE_LAYOUT_TRANSFER_DST_OPTIMAL ?e,
        vd_vk_image_transition ?i VK_IMAGE_LAYOUT_TRANSFER_DST_OPTIMAL VK_IMAGE_LAYOUT_SHADER_READ_ONLY_OPTIMAL]
       (vd_renderer_unmap_buffer k (b, a) (c, write_memory cg p (take (unat ?n) data) v)) = Some st3"
    and d: "vd_renderer_destroy_buffer k (b, a) st3 = Some st'" and l: "logged = (?n \<noteq> sz)"
    by (rule upload_texture_steps [OF u])
  define st2 where "st2 = vd_renderer_unmap_buffer k (b, a) (c, write_memory cg p (take (unat ?n) data) v)"
  have gpu: "gpu_ok k live ud st" and sys: "systems_at (GAllocation ` bs) r (live (snd st))" using ok by (simp_all add: renderer_ok_def)
  have "length (take (unat ?n) data) = unat ?n" using le by simp
  note t = texture_staging [OF D I gpu c m this st2_def]
  obtain c2 v2 where st2: "st2 = (c2, v2)" by (cases st2)
  define b1 b2 where
    "b1 = \<lparr>imb_image = ?i, imb_srcStageMask = VK_PIPELINE_STAGE_2_ALL_COMMANDS_BIT, imb_srcAccessMask = VK_ACCESS_2_MEMORY_WRITE_BIT,
       imb_dstStageMask = VK_PIPELINE_STAGE_2_ALL_COMMANDS_BIT, imb_dstAccessMask = VK_ACCESS_2_MEMORY_WRITE_BIT OR VK_ACCESS_2_MEMORY_READ_BIT,
       imb_oldLayout = VK_IMAGE_LAYOUT_UNDEFINED, imb_newLayout = VK_IMAGE_LAYOUT_TRANSFER_DST_OPTIMAL,
       imb_aspectMask = VK_IMAGE_ASPECT_COLOR_BIT\<rparr>" and
    "b2 = b1\<lparr>imb_oldLayout := VK_IMAGE_LAYOUT_TRANSFER_DST_OPTIMAL, imb_newLayout := VK_IMAGE_LAYOUT_SHADER_READ_ONLY_OPTIMAL\<rparr>"
  obtain v3 where v3: "submit cg [CmdImageBarrier b1, CmdCopyBufferToImage b ?i (imb_newLayout b1) ?e, CmdImageBarrier b2] v2 = Some v3"
    "st3 = (c2, v3)"
    using s unfolding st2_def [symmetric] st2
    by (auto simp: vd_renderer_imm_end_def vd_vk_image_transition_def b1_def b2_def bind_Some_iff VK_IMAGE_LAYOUT_DEPTH_ATTACHMENT_OPTIMAL_def
        VK_IMAGE_LAYOUT_TRANSFER_DST_OPTIMAL_def VK_IMAGE_LAYOUT_SHADER_READ_ONLY_OPTIMAL_def)
  have "imb_image b1 = ?i" "imb_image b2 = ?i" "barrier_ok (layout v2 ?i) b1" "barrier_ok (imb_newLayout b1) b2"
    "imb_oldLayout b2 \<noteq> VK_IMAGE_LAYOUT_UNDEFINED" "imb_newLayout b1 = VK_IMAGE_LAYOUT_TRANSFER_DST_OPTIMAL"
    by (simp_all add: b1_def b2_def barrier_ok_def VK_IMAGE_LAYOUT_UNDEFINED_def VK_IMAGE_LAYOUT_TRANSFER_DST_OPTIMAL_def)
  moreover have "bound v2 b = Some a" "GAllocation a \<in> live v2" "texel_bytes ?e \<le> length (mem v2 a)"
    using t n le by (simp_all add: st2)
  ultimately have v3s: "live v3 = live v2" "ud v3 = ud v2" "bound v3 = bound v2" "mem v3 = mem v2"
    "layout v3 = (layout v2)(?i := imb_newLayout b2)" "texels v3 = (texels v2)(?i := take (texel_bytes ?e) (mem v2 a))"
    using images_submit [OF I v3(1)] by simp_all
  have "gpu_ok k live ud (c2, v3)" using t(1) v3s(1,2) gpu_ok_others [of k live ud c2 v2 v3] by (simp add: st2)
  then have ok3: "renderer_ok k live ud (insert a bs) r st3"
    using systems_at_new [OF sys t(2)] t(3) v3s(1) by (simp add: renderer_ok_def v3(2) st2)
  have "a \<notin> bs" using systems_at_gone [OF sys, of "GAllocation a"] t(2) by blast
  then have "renderer_ok k live ud bs r st'" using destroy_buffer_ok [OF ok3 insertI1 d] by simp
  moreover have "same_images texels layout v3 (snd st')"
    using free_images [OF I d [unfolded vd_renderer_destroy_buffer_def]] by (simp add: v3(2))
  moreover have "same_mem mem bound x (snd st) (snd st')" if x: "GAllocation x \<in> live (snd st)" for x
  proof -
    have "same_mem mem bound x (snd st) v3" using t(6) [OF x] v3s(3,4) by (simp add: same_mem_def st2)
    moreover have "same_mem mem bound x v3 (snd st')"
      using free_memory [OF D d [unfolded vd_renderer_destroy_buffer_def], of x] x t(2,3) v3s(1) by (auto simp: v3(2) st2)
    ultimately show ?thesis by (rule same_mem_trans)
  qed
  moreover have "logged = (unat sz \<noteq> texel_bytes ?e)" using l n by (auto simp: word_unat_eq_iff)
  ultimately show ?thesis
    using t(5,7) v3s(5,6) n by (simp add: same_images_def st2 b2_def)
qed

theorem upload_texture_data_correct_witness:
  "\<exists>st0 r0 st'. svma_init demo_mgpu svma_create demo_info demo_mv0 = Some (0, st0) \<and> init_systems 0 = Some r0 \<and>
     vd_renderer_upload_texture_data demo_mgpu demo_cmd demo_img [1, 2, 3, 4, 5, 6, 7, 8] 8 st0 = Some (False, st') \<and>
     demo_texels (snd st') 7 = [1, 2, 3, 4, 5, 6, 7, 8]"
proof -
  obtain st0 r0 where i: "svma_init demo_mgpu svma_create demo_info demo_mv0 = Some (0, st0)" "init_systems 0 = Some r0"
    "renderer_ok demo_mgpu mlive mud {} r0 st0" "fresh_from 1 st0"
    using demo_start by blast
  obtain l st' where u: "vd_renderer_upload_texture_data demo_mgpu demo_cmd demo_img [1, 2, 3, 4, 5, 6, 7, 8] 8 st0 = Some (l, st')"
    using demo_upload [OF i(4), of "[1, 2, 3, 4, 5, 6, 7, 8]" 8] by auto
  have "texel_bytes (tex_extent demo_img) < 2 ^ 32" by (simp add: demo_img_bytes)
  from upload_texture_data_correct [OF demo_device_memory demo_device_images i(3) this u]
  have "l = False" "demo_texels (snd st') 7 = [1, 2, 3, 4, 5, 6, 7, 8]" by (auto simp: demo_img_bytes) (simp add: demo_img_def)
  with i(1,2) u show ?thesis by blast
qed

text \<open>C35. A caller with fewer bytes than the texels need has no defined upload: the size is compared only to log, and
  the copy reads behind the end of the data.\<close>

theorem upload_texture_data_overread:
  assumes "length data < texel_bytes (tex_extent img) mod 2 ^ 32"
  shows "vd_renderer_upload_texture_data k cg img data sz st = None"
proof (rule ccontr)
  assume "vd_renderer_upload_texture_data k cg img data sz st \<noteq> None"
  then obtain l st' where "vd_renderer_upload_texture_data k cg img data sz st = Some (l, st')" by auto
  then have "unat (texture_data_size (tex_extent img)) \<le> length data" by (rule upload_texture_steps)
  then show False using assms by (simp add: texture_data_size)
qed

theorem upload_texture_data_overread_witness:
  "\<exists>st0. svma_init demo_mgpu svma_create demo_info demo_mv0 = Some (0, st0) \<and>
     vd_renderer_upload_texture_data demo_mgpu demo_cmd demo_img [1, 2, 3] 3 st0 = None"
proof -
  have "length [1, 2, 3 :: u8] < texel_bytes (tex_extent demo_img) mod 2 ^ 32" by (simp add: demo_img_bytes)
  from upload_texture_data_overread [OF this] show ?thesis using demo_start by blast
qed

end
