(* ===== verification/Devpick.thy ===== *)
theory Devpick
  imports Svma
begin

text \<open>
  The choices that ng/src/renderer.c makes from what Vulkan reports: the layers and extensions of the instance, the
  physical device and its queue families, and the parameters of a swapchain. What a device or a surface reports is
  the input of these functions; a call of \<open>abort\<close> and an access out of bounds are \<open>None\<close>.
\<close>

section \<open>Definitions\<close>

definition VK_KHR_SWAPCHAIN_EXTENSION_NAME :: string where "VK_KHR_SWAPCHAIN_EXTENSION_NAME = ''VK_KHR_swapchain''"
definition VK_QUEUE_GRAPHICS_BIT :: u32 where "VK_QUEUE_GRAPHICS_BIT = 1"

definition VK_VERSION_MAJOR :: "u32 \<Rightarrow> u32" where "VK_VERSION_MAJOR v = drop_bit 22 v"
definition VK_VERSION_MINOR :: "u32 \<Rightarrow> u32" where "VK_VERSION_MINOR v = drop_bit 12 v AND 0x3FF"

subsection \<open>Layers and extensions\<close>

definition Validation_Layers :: "string list" where "Validation_Layers = [''VK_LAYER_KHRONOS_validation'']"

fun layer_found :: "string \<Rightarrow> string list \<Rightarrow> bool" where
  "layer_found layer [] = False"
| "layer_found layer (x # xs) = (if x = layer then True else layer_found layer xs)"

fun can_enable_layers :: "string list \<Rightarrow> string list \<Rightarrow> bool" where
  "can_enable_layers avail_layers [] = True"
| "can_enable_layers avail_layers (x # xs) = (if \<not> layer_found x avail_layers then False else can_enable_layers avail_layers xs)"

definition enabled_layers :: "string list \<Rightarrow> string list" where
  "enabled_layers avail_layers = (if can_enable_layers avail_layers Validation_Layers then Validation_Layers else [])"

subsection \<open>The physical device\<close>

text \<open>What a device reports; \<open>pd_present j\<close> is the answer of the window system for its queue family \<open>j\<close>.\<close>

record physical_device =
  pd_discrete :: bool
  pd_apiVersion :: u32
  pd_extensions :: "string list"
  pd_queueFlags :: "u32 list"
  pd_present :: "nat \<Rightarrow> bool"
  pd_bufferDeviceAddress :: bool
  pd_descriptorIndexing :: bool
  pd_synchronization2 :: bool
  pd_dynamicRendering :: bool

text \<open>The loop over the queue families, with the two arrays it fills.\<close>

fun queue_loop :: "(nat \<Rightarrow> bool) \<Rightarrow> nat \<Rightarrow> u32 list \<Rightarrow> nat list \<Rightarrow> nat list \<Rightarrow> nat list \<times> nat list" where
  "queue_loop present j [] graphics_queues present_queues = (graphics_queues, present_queues)"
| "queue_loop present j (f # fs) graphics_queues present_queues =
     queue_loop present (j + 1) fs
       (if f AND VK_QUEUE_GRAPHICS_BIT \<noteq> 0 then graphics_queues @ [j] else graphics_queues)
       (if present j then present_queues @ [j] else present_queues)"

definition pick_families :: "nat list \<Rightarrow> nat list \<Rightarrow> nat \<times> nat" where
  "pick_families graphics_queues present_queues =
     (let g = (if length graphics_queues > 0 then graphics_queues ! 0 else 0);
          p = (if length present_queues > 0 then present_queues ! 0 else 0);
          p' = (if g = p \<and> length present_queues > 1 then present_queues ! 1 else p)
      in (g, p'))"

definition satisfies_requirements :: "physical_device \<Rightarrow> nat list \<Rightarrow> nat list \<Rightarrow> bool \<Rightarrow> bool" where
  "satisfies_requirements d graphics_queues present_queues headless \<longleftrightarrow>
     VK_KHR_SWAPCHAIN_EXTENSION_NAME \<in> set (pd_extensions d) \<and>
     length graphics_queues > 0 \<and> (headless \<or> length present_queues > 0) \<and>
     pd_bufferDeviceAddress d \<and> pd_descriptorIndexing d \<and> pd_synchronization2 d \<and> pd_dynamicRendering d \<and>
     VK_VERSION_MAJOR (pd_apiVersion d) \<ge> 1 \<and> VK_VERSION_MINOR (pd_apiVersion d) \<ge> 3"

record best =
  best_device :: int
  best_graphics :: nat
  best_present :: nat

fun device_loop :: "nat \<Rightarrow> physical_device list \<Rightarrow> best \<Rightarrow> best" where
  "device_loop i [] b = b"
| "device_loop i (d # ds) b =
     (let (graphics_queues, present_queues) = queue_loop (pd_present d) 0 (pd_queueFlags d) [] [];
          (g, p) = pick_families graphics_queues present_queues;
          b' = \<lparr>best_device = int i, best_graphics = g, best_present = p\<rparr>
      in device_loop (i + 1) ds
           (if best_device b = -1 then b'
            else if pd_discrete d \<and> satisfies_requirements d graphics_queues present_queues False then b' else b))"

definition pick_physical_device :: "physical_device list \<Rightarrow> (nat \<times> nat \<times> nat) option" where
  "pick_physical_device ds =
     (let b = device_loop 0 ds \<lparr>best_device = -1, best_graphics = 0, best_present = 0\<rparr> in
      if best_device b < 0 \<or> nat (best_device b) \<ge> length ds then None
      else Some (nat (best_device b), best_graphics b, best_present b))"

subsection \<open>The swapchain\<close>

type_synonym VkSurfaceFormatKHR = "u32 \<times> u32"

definition VK_FORMAT_UNDEFINED :: u32 where "VK_FORMAT_UNDEFINED = 0"
definition VK_FORMAT_R8G8B8A8_UNORM :: u32 where "VK_FORMAT_R8G8B8A8_UNORM = 37"
definition VK_FORMAT_B8G8R8A8_UNORM :: u32 where "VK_FORMAT_B8G8R8A8_UNORM = 44"
definition VK_COLOR_SPACE_SRGB_NONLINEAR_KHR :: u32 where "VK_COLOR_SPACE_SRGB_NONLINEAR_KHR = 0"
definition VK_COLOR_SPACE_MAX_ENUM_KHR :: u32 where "VK_COLOR_SPACE_MAX_ENUM_KHR = 0x7FFFFFFF"
definition VK_PRESENT_MODE_MAILBOX_KHR :: u32 where "VK_PRESENT_MODE_MAILBOX_KHR = 1"
definition VK_PRESENT_MODE_FIFO_KHR :: u32 where "VK_PRESENT_MODE_FIFO_KHR = 2"

definition Preferred_Surface_Formats :: "VkSurfaceFormatKHR list" where
  "Preferred_Surface_Formats = [(VK_FORMAT_B8G8R8A8_UNORM, VK_COLOR_SPACE_SRGB_NONLINEAR_KHR),
     (VK_FORMAT_R8G8B8A8_UNORM, VK_COLOR_SPACE_SRGB_NONLINEAR_KHR)]"

definition Preferred_Present_Modes :: "u32 list" where
  "Preferred_Present_Modes = [VK_PRESENT_MODE_MAILBOX_KHR, VK_PRESENT_MODE_FIFO_KHR]"

definition swapchain_image_count :: "u32 \<Rightarrow> u32 \<Rightarrow> u32" where
  "swapchain_image_count minImageCount maxImageCount =
     (let image_count = minImageCount + 1 in
      if maxImageCount > 0 \<and> image_count > maxImageCount then maxImageCount else image_count)"

fun prefer_format :: "VkSurfaceFormatKHR \<Rightarrow> VkSurfaceFormatKHR list \<Rightarrow> VkSurfaceFormatKHR \<Rightarrow> VkSurfaceFormatKHR" where
  "prefer_format q [] best = best"
| "prefer_format q (p # ps) best = (if fst q = fst p \<and> snd q = snd p then q else prefer_format q ps best)"

fun format_loop :: "VkSurfaceFormatKHR list \<Rightarrow> VkSurfaceFormatKHR \<Rightarrow> VkSurfaceFormatKHR" where
  "format_loop [] best = best"
| "format_loop (q # qs) best = format_loop qs (prefer_format q Preferred_Surface_Formats best)"

definition choose_surface_format :: "VkSurfaceFormatKHR list \<Rightarrow> VkSurfaceFormatKHR option" where
  "choose_surface_format surface_formats =
     (let best = format_loop surface_formats (VK_FORMAT_UNDEFINED, VK_COLOR_SPACE_MAX_ENUM_KHR) in
      if fst best = VK_FORMAT_UNDEFINED then None else Some best)"

fun prefer_mode :: "u32 \<Rightarrow> u32 list \<Rightarrow> int \<Rightarrow> int \<Rightarrow> int" where
  "prefer_mode m [] i best = best"
| "prefer_mode m (p # ps) i best = (if m = p then i else prefer_mode m ps i best)"

fun mode_loop :: "int \<Rightarrow> u32 list \<Rightarrow> int \<Rightarrow> int" where
  "mode_loop i [] best = best"
| "mode_loop i (m # ms) best = mode_loop (i + 1) ms (prefer_mode m Preferred_Present_Modes i best)"

definition choose_present_mode :: "u32 list \<Rightarrow> u32 option" where
  "choose_present_mode modes =
     (let best = mode_loop 0 modes (-1) in if best = -1 then None else Some (modes ! nat best))"

datatype VkSharingMode = VK_SHARING_MODE_EXCLUSIVE | VK_SHARING_MODE_CONCURRENT

definition swapchain_sharing :: "nat \<Rightarrow> nat \<Rightarrow> VkSharingMode \<times> nat list" where
  "swapchain_sharing graphics present =
     (if graphics = present then VK_SHARING_MODE_CONCURRENT else VK_SHARING_MODE_EXCLUSIVE,
      if graphics = present then [] else [graphics, present])"

section \<open>Layers\<close>

lemma layer_found_iff [simp]: "layer_found l xs \<longleftrightarrow> l \<in> set xs"
  by (induction xs) auto

lemma can_enable_layers_iff [simp]: "can_enable_layers avail ls \<longleftrightarrow> set ls \<subseteq> set avail"
  by (induction ls) auto

text \<open>Layers are enabled only if they are all available.\<close>

lemma enabled_layers_available: "set (enabled_layers avail) \<subseteq> set avail"
  by (auto simp: enabled_layers_def)

section \<open>Queue families\<close>

lemma queue_loop_eq:
  "queue_loop present j fs gs ps =
     (gs @ filter (\<lambda>i. fs ! (i - j) AND VK_QUEUE_GRAPHICS_BIT \<noteq> 0) [j..<j + length fs], ps @ filter present [j..<j + length fs])"
proof (induction fs arbitrary: j gs ps)
  case Nil
  then show ?case by simp
next
  case (Cons f fs)
  have u: "[j..<j + length (f # fs)] = j # [Suc j..<Suc j + length fs]" by (subst upt_conv_Cons) simp_all
  have f: "filter (\<lambda>i. fs ! (i - Suc j) AND VK_QUEUE_GRAPHICS_BIT \<noteq> 0) [Suc j..<Suc j + length fs] =
    filter (\<lambda>i. (f # fs) ! (i - j) AND VK_QUEUE_GRAPHICS_BIT \<noteq> 0) [Suc j..<Suc j + length fs]"
    by (rule filter_cong) (auto simp: nth_Cons' Suc_diff_le)
  show ?case unfolding queue_loop.simps Cons.IH u using f by simp
qed

definition graphics_of :: "physical_device \<Rightarrow> nat list" where
  "graphics_of d = filter (\<lambda>i. pd_queueFlags d ! i AND VK_QUEUE_GRAPHICS_BIT \<noteq> 0) [0..<length (pd_queueFlags d)]"

definition present_of :: "physical_device \<Rightarrow> nat list" where
  "present_of d = filter (pd_present d) [0..<length (pd_queueFlags d)]"

lemma queue_loop_device: "queue_loop (pd_present d) 0 (pd_queueFlags d) [] [] = (graphics_of d, present_of d)"
  by (simp add: queue_loop_eq graphics_of_def present_of_def)

text \<open>The two families are the same only if no other family can present.\<close>

lemma pick_families_spec:
  assumes "gs \<noteq> []" and "ps \<noteq> []" and "distinct ps" and "pick_families gs ps = (g, p)"
  shows "g \<in> set gs \<and> p \<in> set ps \<and> (g = p \<longrightarrow> set ps = {p})"
proof (cases ps)
  case Nil
  then show ?thesis using assms(2) by simp
next
  case (Cons x xs)
  then show ?thesis using assms by (cases gs; cases xs) (auto simp: pick_families_def Let_def split: if_splits)
qed

section \<open>The choice of the device\<close>

definition suitable :: "physical_device \<Rightarrow> bool" where
  "suitable d \<longleftrightarrow> pd_discrete d \<and> satisfies_requirements d (graphics_of d) (present_of d) False"

definition choice :: "nat \<Rightarrow> physical_device \<Rightarrow> best" where
  "choice i d = (let (g, p) = pick_families (graphics_of d) (present_of d) in \<lparr>best_device = int i, best_graphics = g, best_present = p\<rparr>)"

lemma device_loop_Cons:
  "device_loop i (d # ds) b = device_loop (i + 1) ds (if best_device b = -1 \<or> suitable d then choice i d else b)"
  by (simp add: queue_loop_device choice_def suitable_def Let_def split: prod.splits)

lemma device_loop_later:
  "best_device b \<noteq> -1 \<Longrightarrow>
     (if \<exists>d \<in> set ds. suitable d then \<exists>j < length ds. suitable (ds ! j) \<and> (\<forall>l. j < l \<longrightarrow> l < length ds \<longrightarrow> \<not> suitable (ds ! l)) \<and>
        device_loop i ds b = choice (i + j) (ds ! j)
      else device_loop i ds b = b)"
proof (induction ds arbitrary: i b)
  case Nil
  then show ?case by simp
next
  case (Cons d ds)
  let ?b = "if best_device b = -1 \<or> suitable d then choice i d else b"
  have b: "best_device ?b \<noteq> -1" using Cons.prems by (auto simp: choice_def Let_def split: prod.splits)
  note IH = Cons.IH [OF b, of "i + 1"]
  show ?case
  proof (cases "\<exists>d \<in> set ds. suitable d")
    case True
    then obtain j where j: "j < length ds" "suitable (ds ! j)" "\<forall>l. j < l \<longrightarrow> l < length ds \<longrightarrow> \<not> suitable (ds ! l)"
      "device_loop (i + 1) ds ?b = choice (i + 1 + j) (ds ! j)"
      using IH by (auto split: if_splits)
    have "\<exists>j < length (d # ds). suitable ((d # ds) ! j) \<and> (\<forall>l. j < l \<longrightarrow> l < length (d # ds) \<longrightarrow> \<not> suitable ((d # ds) ! l)) \<and>
        device_loop i (d # ds) b = choice (i + j) ((d # ds) ! j)"
      unfolding device_loop_Cons j(4) using j(1-3) by (intro exI [of _ "Suc j"]) (auto simp: nth_Cons split: nat.splits)
    then show ?thesis using True by simp
  next
    case False
    then have e: "device_loop i (d # ds) b = ?b" using IH unfolding device_loop_Cons by simp
    show ?thesis
    proof (cases "suitable d")
      case s: True
      then have "\<exists>j < length (d # ds). suitable ((d # ds) ! j) \<and> (\<forall>l. j < l \<longrightarrow> l < length (d # ds) \<longrightarrow> \<not> suitable ((d # ds) ! l)) \<and>
        device_loop i (d # ds) b = choice (i + j) ((d # ds) ! j)"
        unfolding e using False by (intro exI [of _ 0]) (auto simp: nth_Cons split: nat.splits)
      then show ?thesis using s by simp
    next
      case s: False
      then show ?thesis using False Cons.prems unfolding e by simp
    qed
  qed
qed

text \<open>C36. The chosen device is the first one, or else a discrete one that satisfies all requirements and that no later
  such device follows. When the chosen device satisfies the requirements, the queue families are one of its families that
  can draw and one that can present, and they are apart whenever the device has another family that can present; when
  it does not, nothing is claimed of them.\<close>

theorem pick_physical_device_correct:
  assumes "ds \<noteq> []"
  shows "\<exists>i g p. pick_physical_device ds = Some (i, g, p) \<and> i < length ds \<and> (i = 0 \<or> suitable (ds ! i)) \<and>
    (\<forall>j. i < j \<longrightarrow> j < length ds \<longrightarrow> \<not> suitable (ds ! j)) \<and>
    (suitable (ds ! i) \<longrightarrow> g \<in> set (graphics_of (ds ! i)) \<and> p \<in> set (present_of (ds ! i)) \<and>
      (g = p \<longrightarrow> set (present_of (ds ! i)) = {p}))"
proof -
  obtain d ds' where ds: "ds = d # ds'" using assms by (cases ds) auto
  let ?b = "\<lparr>best_device = -1, best_graphics = 0, best_present = 0\<rparr>"
  have first: "device_loop 0 ds ?b = device_loop 1 ds' (choice 0 d)" by (simp add: ds device_loop_Cons del: device_loop.simps)
  have bc: "best_device (choice k e) = int k" "pick_families (graphics_of e) (present_of e) = (best_graphics (choice k e), best_present (choice k e))"
    for k e by (simp_all add: choice_def split: prod.splits)
  have "\<exists>i. i < length ds \<and> device_loop 0 ds ?b = choice i (ds ! i) \<and> (i = 0 \<or> suitable (ds ! i)) \<and>
    (\<forall>j. i < j \<longrightarrow> j < length ds \<longrightarrow> \<not> suitable (ds ! j))"
  proof (cases "\<exists>d \<in> set ds'. suitable d")
    case True
    then obtain j where "j < length ds'" "suitable (ds' ! j)" "\<forall>l. j < l \<longrightarrow> l < length ds' \<longrightarrow> \<not> suitable (ds' ! l)"
      "device_loop 1 ds' (choice 0 d) = choice (1 + j) (ds' ! j)"
      using device_loop_later [of "choice 0 d" ds' 1] bc(1) [of 0 d] by (auto split: if_splits)
    then show ?thesis unfolding first by (intro exI [of _ "Suc j"]) (auto simp: ds nth_Cons split: nat.splits)
  next
    case False
    then have "device_loop 1 ds' (choice 0 d) = choice 0 d"
      using device_loop_later [of "choice 0 d" ds' 1] bc(1) [of 0 d] by simp
    then show ?thesis unfolding first using False by (intro exI [of _ 0]) (auto simp: ds nth_Cons split: nat.splits)
  qed
  then obtain i where i: "i < length ds" "device_loop 0 ds ?b = choice i (ds ! i)" "i = 0 \<or> suitable (ds ! i)"
    "\<forall>j. i < j \<longrightarrow> j < length ds \<longrightarrow> \<not> suitable (ds ! j)" by blast
  have "pick_physical_device ds = Some (i, best_graphics (choice i (ds ! i)), best_present (choice i (ds ! i)))"
    using i(1) bc(1) [of i "ds ! i"] by (simp add: pick_physical_device_def i(2) Let_def)
  moreover have "best_graphics (choice i (ds ! i)) \<in> set (graphics_of (ds ! i)) \<and> best_present (choice i (ds ! i)) \<in> set (present_of (ds ! i)) \<and>
      (best_graphics (choice i (ds ! i)) = best_present (choice i (ds ! i)) \<longrightarrow> set (present_of (ds ! i)) = {best_present (choice i (ds ! i))})"
    if "suitable (ds ! i)"
    using that by (intro pick_families_spec [OF _ _ _ bc(2)]) (auto simp: suitable_def satisfies_requirements_def present_of_def)
  ultimately show ?thesis using i(1,3,4) by blast
qed

definition demo_device :: "bool \<Rightarrow> u32 \<Rightarrow> physical_device" where
  "demo_device discrete version = \<lparr>pd_discrete = discrete, pd_apiVersion = version, pd_extensions = [''VK_KHR_swapchain''],
     pd_queueFlags = [6, 7, 4], pd_present = (\<lambda>j. j \<noteq> 0), pd_bufferDeviceAddress = True, pd_descriptorIndexing = True,
     pd_synchronization2 = True, pd_dynamicRendering = True\<rparr>"

theorem pick_physical_device_correct_witness:
  "\<exists>g p. pick_physical_device [demo_device False 0x403000, demo_device True 0x403000] = Some (1, g, p) \<and> g = 1 \<and> p = 2"
proof -
  let ?ds = "[demo_device False 0x403000, demo_device True 0x403000]"
  have q: "graphics_of (demo_device b v) = [1]" "present_of (demo_device b v) = [1, 2]" for b v
    by (simp_all add: graphics_of_def present_of_def demo_device_def VK_QUEUE_GRAPHICS_BIT_def upt_rec)
  have s: "suitable (demo_device True 0x403000)"
    unfolding suitable_def satisfies_requirements_def q
    by (simp add: demo_device_def VK_KHR_SWAPCHAIN_EXTENSION_NAME_def VK_VERSION_MAJOR_def VK_VERSION_MINOR_def)
  obtain i g p where i: "pick_physical_device ?ds = Some (i, g, p)" "i < length ?ds"
    "\<forall>j. i < j \<longrightarrow> j < length ?ds \<longrightarrow> \<not> suitable (?ds ! j)" "suitable (?ds ! i) \<longrightarrow> g \<in> set (graphics_of (?ds ! i)) \<and>
      p \<in> set (present_of (?ds ! i)) \<and> (g = p \<longrightarrow> set (present_of (?ds ! i)) = {p})"
    using pick_physical_device_correct [of ?ds] by blast
  have "i = 1" using i(2) i(3) [rule_format, of 1] s by (cases i) auto
  then show ?thesis using i(1,4) s q by auto
qed

text \<open>A first device without what the engine needs is kept even if another one, that is not discrete, has all of it.\<close>

lemma pick_physical_device_unsuitable:
  assumes "\<not> pd_discrete d1"
  shows "\<exists>g p. pick_physical_device [d0, d1] = Some (0, g, p)"
proof -
  have "\<not> suitable d1" using assms by (simp add: suitable_def)
  then have "device_loop 0 [d0, d1] \<lparr>best_device = -1, best_graphics = 0, best_present = 0\<rparr> = choice 0 d0"
    by (simp add: device_loop_Cons choice_def del: device_loop.simps(2) split: prod.splits)
  then show ?thesis by (auto simp: pick_physical_device_def choice_def split: prod.splits)
qed

lemma pick_physical_device_none: "pick_physical_device [] = None"
  by (simp add: pick_physical_device_def)

section \<open>The swapchain\<close>

lemma prefer_format_iff: "prefer_format q ps best = (if q \<in> set ps then q else best)"
  by (induction ps) (auto simp: prod_eq_iff)

lemma format_loop_last:
  "format_loop qs best = (let xs = filter (\<lambda>q. q \<in> set Preferred_Surface_Formats) qs in if xs = [] then best else last xs)"
  by (induction qs arbitrary: best) (auto simp: prefer_format_iff Let_def)

lemma prefer_mode_iff: "prefer_mode m ps i best = (if m \<in> set ps then i else best)"
  by (induction ps) auto

lemma mode_loop_last:
  "best < i \<Longrightarrow>
     (let xs = filter (\<lambda>m. m \<in> set Preferred_Present_Modes) ms; r = mode_loop i ms best in
      if xs = [] then r = best else i \<le> r \<and> nat (r - i) < length ms \<and> ms ! nat (r - i) = last xs)"
proof (induction ms arbitrary: i best)
  case Nil
  then show ?case by simp
next
  case (Cons m ms)
  let ?b = "if m \<in> set Preferred_Present_Modes then i else best"
  have r: "mode_loop i (m # ms) best = mode_loop (i + 1) ms ?b" by (simp add: prefer_mode_iff)
  have IH: "let xs = filter (\<lambda>m. m \<in> set Preferred_Present_Modes) ms; r = mode_loop (i + 1) ms ?b in
      if xs = [] then r = ?b else i + 1 \<le> r \<and> nat (r - (i + 1)) < length ms \<and> ms ! nat (r - (i + 1)) = last xs"
    using Cons.prems by (intro Cons.IH) auto
  show ?case
  proof (cases "filter (\<lambda>m. m \<in> set Preferred_Present_Modes) ms = []")
    case True
    then show ?thesis using IH Cons.prems unfolding r by (auto simp: Let_def)
  next
    case False
    then have 1: "i + 1 \<le> mode_loop (i + 1) ms ?b" "nat (mode_loop (i + 1) ms ?b - (i + 1)) < length ms"
      "ms ! nat (mode_loop (i + 1) ms ?b - (i + 1)) = last (filter (\<lambda>m. m \<in> set Preferred_Present_Modes) ms)"
      using IH by (simp_all add: Let_def)
    then have n: "nat (mode_loop (i + 1) ms ?b - i) = Suc (nat (mode_loop (i + 1) ms ?b - (i + 1)))" by simp
    show ?thesis unfolding r Let_def using False 1 n by auto
  qed
qed

text \<open>C37. The format and the mode of a swapchain are the last of those that the surface reports and that are among the
  preferred ones, in the order of the surface and not of the preferences; without any the program ends.\<close>

theorem swapchain_choices:
  "choose_surface_format fs = (let xs = filter (\<lambda>f. f \<in> set Preferred_Surface_Formats) fs in if xs = [] then None else Some (last xs)) \<and>
   choose_present_mode ms = (let xs = filter (\<lambda>m. m \<in> set Preferred_Present_Modes) ms in if xs = [] then None else Some (last xs))"
proof -
  let ?xs = "filter (\<lambda>f. f \<in> set Preferred_Surface_Formats) fs"
  have "fst f \<noteq> VK_FORMAT_UNDEFINED" if "f \<in> set Preferred_Surface_Formats" for f
    using that by (auto simp: Preferred_Surface_Formats_def VK_FORMAT_UNDEFINED_def VK_FORMAT_B8G8R8A8_UNORM_def VK_FORMAT_R8G8B8A8_UNORM_def)
  moreover have "last ?xs \<in> set ?xs" if "?xs \<noteq> []" using that by (rule last_in_set)
  ultimately have "?xs \<noteq> [] \<Longrightarrow> fst (last ?xs) \<noteq> VK_FORMAT_UNDEFINED" by auto
  then have "choose_surface_format fs = (let xs = ?xs in if xs = [] then None else Some (last xs))"
    by (simp add: choose_surface_format_def format_loop_last Let_def)
  moreover have "choose_present_mode ms = (let xs = filter (\<lambda>m. m \<in> set Preferred_Present_Modes) ms in if xs = [] then None else Some (last xs))"
    using mode_loop_last [of "-1" 0 ms] by (auto simp: choose_present_mode_def Let_def split: if_splits)
  ultimately show ?thesis by (rule conjI)
qed

lemma swapchain_image_count_bounds:
  assumes "lo \<noteq> -1" and "hi = 0 \<or> lo \<le> hi"
  shows "lo \<le> swapchain_image_count lo hi" and "hi = 0 \<or> swapchain_image_count lo hi \<le> hi"
proof -
  have "lo \<le> lo + 1" 
  proof -
    have "1 + lo \<noteq> 0" using assms(1) by (metis add_eq_0_iff minus_minus)
    then have "unat (1 + lo) = Suc (unat lo)" by (rule unatSuc)
    then show ?thesis by (simp add: word_le_nat_alt add.commute)
  qed
  then show "lo \<le> swapchain_image_count lo hi" "hi = 0 \<or> swapchain_image_count lo hi \<le> hi"
    using assms(2) by (auto simp: swapchain_image_count_def Let_def word_gt_0)
qed

text \<open>Both modes are offered and the less preferred one is taken.\<close>

lemma choose_present_mode_last: "choose_present_mode [VK_PRESENT_MODE_MAILBOX_KHR, VK_PRESENT_MODE_FIFO_KHR] = Some VK_PRESENT_MODE_FIFO_KHR"
  by (simp add: choose_present_mode_def Preferred_Present_Modes_def VK_PRESENT_MODE_MAILBOX_KHR_def VK_PRESENT_MODE_FIFO_KHR_def)

end
