(* ===== verification/Rhi.thy ===== *)
theory Rhi
  imports Devpick Geo
begin

text \<open>
  The render hardware interface: rhi/rhi/interface.h and its implementation on Vulkan, rhi/vulkan/rhi_vulkan.c. The
  extensions and layers it asks for, its choice of a device, and buffers. Results are 0 and -1 as in the enumeration.
\<close>

section \<open>Definitions\<close>

datatype RHResult = RH_RESULT_SUCCESS | RH_RESULT_FAILURE

definition VK_EXT_DEBUG_UTILS_EXTENSION_NAME :: string where "VK_EXT_DEBUG_UTILS_EXTENSION_NAME = ''VK_EXT_debug_utils''"

definition Debug_Extensions :: "string list" where "Debug_Extensions = [VK_EXT_DEBUG_UTILS_EXTENSION_NAME]"

text \<open>\<open>window_extensions\<close> are those of the platform.\<close>

definition rhi_extensions :: "string list \<Rightarrow> bool \<Rightarrow> bool \<Rightarrow> string list \<Rightarrow> string list" where
  "rhi_extensions required debug headless window_extensions =
     required @ (if debug then Debug_Extensions else []) @ (if \<not> headless then window_extensions else [])"

definition rhi_layers :: "bool \<Rightarrow> string list \<Rightarrow> string list" where
  "rhi_layers debug avail_layers = (if debug \<and> can_enable_layers avail_layers Validation_Layers then Validation_Layers else [])"

text \<open>The client is asked for every queue family, and not told which; its answers are \<open>ask\<close>, by the number of the
  question. An answer that is not a success ends the initialization (\<open>Inl\<close>).\<close>

fun rhi_queue_loop ::
  "bool \<Rightarrow> (nat \<Rightarrow> RHResult \<times> bool) \<Rightarrow> nat \<Rightarrow> u32 list \<Rightarrow> nat list \<Rightarrow> nat list \<Rightarrow> RHResult + (nat list \<times> nat list)" where
  "rhi_queue_loop headless ask j [] graphics_queues present_queues = Inr (graphics_queues, present_queues)"
| "rhi_queue_loop headless ask j (f # fs) graphics_queues present_queues =
     (let graphics_queues' = (if f AND VK_QUEUE_GRAPHICS_BIT \<noteq> 0 then graphics_queues @ [j] else graphics_queues) in
      if \<not> headless then
        (let (result, queue_surface_support) = ask j in
         if result \<noteq> RH_RESULT_SUCCESS then Inl result
         else rhi_queue_loop headless ask (j + 1) fs graphics_queues' (if queue_surface_support then present_queues @ [j] else present_queues))
      else rhi_queue_loop headless ask (j + 1) fs graphics_queues' present_queues)"

fun rhi_device_loop ::
  "bool \<Rightarrow> (nat \<Rightarrow> nat \<Rightarrow> RHResult \<times> bool) \<Rightarrow> nat \<Rightarrow> physical_device list \<Rightarrow> best \<Rightarrow> RHResult + best" where
  "rhi_device_loop headless ask i [] b = Inr b"
| "rhi_device_loop headless ask i (d # ds) b =
     (case rhi_queue_loop headless (ask i) 0 (pd_queueFlags d) [] [] of
        Inl result \<Rightarrow> Inl result
      | Inr (graphics_queues, present_queues) \<Rightarrow>
          (let (g, p) = pick_families graphics_queues present_queues;
               b' = \<lparr>best_device = int i, best_graphics = g, best_present = p\<rparr>
           in rhi_device_loop headless ask (i + 1) ds
                (if best_device b = -1 then b'
                 else if pd_discrete d \<and> satisfies_requirements d graphics_queues present_queues headless then b' else b)))"

definition rhi_pick_device ::
  "bool \<Rightarrow> (nat \<Rightarrow> nat \<Rightarrow> RHResult \<times> bool) \<Rightarrow> physical_device list \<Rightarrow> (RHResult + nat \<times> nat \<times> nat) option" where
  "rhi_pick_device headless ask ds =
     (case rhi_device_loop headless ask 0 ds \<lparr>best_device = -1, best_graphics = 0, best_present = 0\<rparr> of
        Inl result \<Rightarrow> Some (Inl result)
      | Inr b \<Rightarrow> if best_device b < 0 \<or> nat (best_device b) \<ge> length ds then None
                else Some (Inr (nat (best_device b), best_graphics b, best_present b)))"

text \<open>The queues that are created, by family.\<close>

definition rhi_queue_create :: "bool \<Rightarrow> nat \<Rightarrow> nat \<Rightarrow> nat list" where
  "rhi_queue_create headless graphics present = take (if headless then 1 else 2) [graphics, present]"

definition rhi_device_extensions :: "bool \<Rightarrow> string list" where
  "rhi_device_extensions headless = (if \<not> headless then [VK_KHR_SWAPCHAIN_EXTENSION_NAME] else [])"

text \<open>The calls of the initialization; an allocator that cannot be created is reported, the result of the
  messenger is not looked at, the others abort.\<close>

record 'v rhi_calls =
  vkEnumerateInstanceLayerProperties :: "'v \<Rightarrow> string list"
  vkCreateInstance :: "string list \<Rightarrow> string list \<Rightarrow> 'v \<Rightarrow> u64 option \<times> 'v"
  vkCreateDebugUtilsMessengerEXT :: "u64 \<Rightarrow> 'v \<Rightarrow> u64 option \<times> 'v"
  vkEnumeratePhysicalDevices :: "u64 \<Rightarrow> 'v \<Rightarrow> physical_device list"
  vkCreateDevice :: "nat \<Rightarrow> nat list \<Rightarrow> string list \<Rightarrow> 'v \<Rightarrow> u64 option \<times> 'v"
  create_allocator :: "u64 \<Rightarrow> nat \<Rightarrow> u64 \<Rightarrow> 'v \<Rightarrow> u64 option \<times> 'v"

record RHInitInfo =
  ri_debug :: bool
  ri_headless :: bool
  ri_instance_extensions :: "string list"
  ri_is_physical_device_suitable :: "nat \<Rightarrow> nat \<Rightarrow> RHResult \<times> bool"

record VulkanContext =
  vc_instance :: u64
  vc_physical_device :: nat
  vc_device :: u64
  vc_allocator :: u64
  vc_graphics :: nat
  vc_presentation :: nat
  vc_messenger :: u64

definition rhi_create_messenger :: "'v rhi_calls \<Rightarrow> bool \<Rightarrow> u64 \<Rightarrow> VulkanContext \<Rightarrow> 'v \<Rightarrow> VulkanContext \<times> 'v" where
  "rhi_create_messenger c debug i ctx v =
     (if debug then
        (case vkCreateDebugUtilsMessengerEXT c i v of
           (None, v1) \<Rightarrow> (ctx, v1)
         | (Some m, v1) \<Rightarrow> (ctx\<lparr>vc_messenger := m\<rparr>, v1))
      else (ctx, v))"

definition rhi_create_device :: "'v rhi_calls \<Rightarrow> bool \<Rightarrow> nat \<times> nat \<times> nat \<Rightarrow> VulkanContext \<Rightarrow> 'v \<Rightarrow> (RHResult \<times> VulkanContext \<times> 'v) option" where
  "rhi_create_device c headless picked ctx v =
     (let (i, g, p) = picked in
      case vkCreateDevice c i (rhi_queue_create headless g p) (rhi_device_extensions headless) v of
        (None, v1) \<Rightarrow> None
      | (Some device, v1) \<Rightarrow>
          (let ctx1 = ctx\<lparr>vc_physical_device := i, vc_device := device, vc_graphics := g, vc_presentation := p\<rparr> in
           case create_allocator c device i (vc_instance ctx) v1 of
             (None, v2) \<Rightarrow> Some (RH_RESULT_FAILURE, ctx1, v2)
           | (Some allocator, v2) \<Rightarrow> Some (RH_RESULT_SUCCESS, ctx1\<lparr>vc_allocator := allocator\<rparr>, v2)))"

definition rhi_vulkan_init ::
  "'v rhi_calls \<Rightarrow> string list \<Rightarrow> RHInitInfo \<Rightarrow> VulkanContext \<Rightarrow> 'v \<Rightarrow> (RHResult \<times> VulkanContext \<times> 'v) option" where
  "rhi_vulkan_init c window_extensions info ctx v =
     (let enabled_extensions = rhi_extensions (ri_instance_extensions info) (ri_debug info) (ri_headless info) window_extensions;
          layers = rhi_layers (ri_debug info) (vkEnumerateInstanceLayerProperties c v)
      in case vkCreateInstance c enabled_extensions layers v of
           (None, v1) \<Rightarrow> None
         | (Some i, v1) \<Rightarrow>
             (let (ctx2, v2) = rhi_create_messenger c (ri_debug info) i (ctx\<lparr>vc_instance := i\<rparr>) v1
              in do { r \<leftarrow> rhi_pick_device (ri_headless info) (ri_is_physical_device_suitable info) (vkEnumeratePhysicalDevices c i v2);
                      case r of
                        Inl result \<Rightarrow> Some (result, ctx2, v2)
                      | Inr picked \<Rightarrow> rhi_create_device c (ri_headless info) picked ctx2 v2 }))"

definition RH_BUFFER_USAGE_TRANSFER_SRC_BIT :: u32 where "RH_BUFFER_USAGE_TRANSFER_SRC_BIT = 0x1"
definition RH_BUFFER_USAGE_TRANSFER_DST_BIT :: u32 where "RH_BUFFER_USAGE_TRANSFER_DST_BIT = 0x2"
definition RH_BUFFER_USAGE_UNIFORM_TEXEL_BIT :: u32 where "RH_BUFFER_USAGE_UNIFORM_TEXEL_BIT = 0x4"
definition RH_BUFFER_USAGE_STORAGE_TEXEL_BIT :: u32 where "RH_BUFFER_USAGE_STORAGE_TEXEL_BIT = 0x8"
definition RH_BUFFER_USAGE_UNIFORM_BUFFER_BIT :: u32 where "RH_BUFFER_USAGE_UNIFORM_BUFFER_BIT = 0x10"
definition RH_BUFFER_USAGE_STORAGE_BUFFER_BIT :: u32 where "RH_BUFFER_USAGE_STORAGE_BUFFER_BIT = 0x20"
definition RH_BUFFER_USAGE_INDEX_BUFFER_BIT :: u32 where "RH_BUFFER_USAGE_INDEX_BUFFER_BIT = 0x40"
definition RH_BUFFER_USAGE_VERTEX_BUFFER_BIT :: u32 where "RH_BUFFER_USAGE_VERTEX_BUFFER_BIT = 0x80"
definition RH_BUFFER_USAGE_SHADER_DEVICE_ADDRESS_BIT :: u32 where "RH_BUFFER_USAGE_SHADER_DEVICE_ADDRESS_BIT = 0x20000"
definition RH_MEMORY_USAGE_UNKNOWN :: u32 where "RH_MEMORY_USAGE_UNKNOWN = 0"
definition RH_MEMORY_USAGE_GPU_ONLY :: u32 where "RH_MEMORY_USAGE_GPU_ONLY = 1"
definition RH_MEMORY_USAGE_CPU_ONLY :: u32 where "RH_MEMORY_USAGE_CPU_ONLY = 2"
definition RH_MEMORY_USAGE_CPU_TO_GPU :: u32 where "RH_MEMORY_USAGE_CPU_TO_GPU = 3"
definition RH_MEMORY_USAGE_GPU_TO_CPU :: u32 where "RH_MEMORY_USAGE_GPU_TO_CPU = 4"

definition translate_buffer_usage_flags :: "u32 \<Rightarrow> u32" where
  "translate_buffer_usage_flags usage =
     (if usage = RH_BUFFER_USAGE_TRANSFER_SRC_BIT then VK_BUFFER_USAGE_TRANSFER_SRC_BIT
      else if usage = RH_BUFFER_USAGE_TRANSFER_DST_BIT then VK_BUFFER_USAGE_TRANSFER_DST_BIT
      else if usage = RH_BUFFER_USAGE_UNIFORM_TEXEL_BIT then VK_BUFFER_USAGE_UNIFORM_TEXEL_BUFFER_BIT
      else if usage = RH_BUFFER_USAGE_STORAGE_TEXEL_BIT then VK_BUFFER_USAGE_STORAGE_TEXEL_BUFFER_BIT
      else if usage = RH_BUFFER_USAGE_UNIFORM_BUFFER_BIT then VK_BUFFER_USAGE_UNIFORM_BUFFER_BIT
      else if usage = RH_BUFFER_USAGE_STORAGE_BUFFER_BIT then VK_BUFFER_USAGE_STORAGE_BUFFER_BIT
      else if usage = RH_BUFFER_USAGE_INDEX_BUFFER_BIT then VK_BUFFER_USAGE_INDEX_BUFFER_BIT
      else if usage = RH_BUFFER_USAGE_VERTEX_BUFFER_BIT then VK_BUFFER_USAGE_VERTEX_BUFFER_BIT
      else if usage = RH_BUFFER_USAGE_SHADER_DEVICE_ADDRESS_BIT then VK_BUFFER_USAGE_SHADER_DEVICE_ADDRESS_BIT
      else VK_BUFFER_USAGE_VERTEX_BUFFER_BIT)"

definition translate_memory_usage_flags :: "u32 \<Rightarrow> u32" where
  "translate_memory_usage_flags usage =
     (if usage = RH_MEMORY_USAGE_UNKNOWN then VMA_MEMORY_USAGE_UNKNOWN
      else if usage = RH_MEMORY_USAGE_GPU_ONLY then VMA_MEMORY_USAGE_GPU_ONLY
      else if usage = RH_MEMORY_USAGE_CPU_ONLY then VMA_MEMORY_USAGE_CPU_ONLY
      else if usage = RH_MEMORY_USAGE_CPU_TO_GPU then VMA_MEMORY_USAGE_CPU_TO_GPU
      else if usage = RH_MEMORY_USAGE_GPU_TO_CPU then VMA_MEMORY_USAGE_GPU_TO_CPU
      else VMA_MEMORY_USAGE_UNKNOWN)"

record RHCreateBufferInfo =
  rcb_size :: u64
  rcb_memory_usage :: u32
  rcb_buffer_usage :: u32

text \<open>The outputs are \<open>None\<close> when they are not written.\<close>

definition rhi_vulkan_create_buffer :: "'v gpu \<Rightarrow> u64 \<Rightarrow> RHCreateBufferInfo \<Rightarrow> 'v \<Rightarrow> RHResult \<times> (u64 \<times> u64) option \<times> 'v" where
  "rhi_vulkan_create_buffer k allocator info v =
     (case vmaCreateBuffer k allocator
        \<lparr>bci_usage = translate_buffer_usage_flags (rcb_buffer_usage info), bci_size = rcb_size info\<rparr>
        \<lparr>aci_usage = translate_memory_usage_flags (rcb_memory_usage info), aci_flags = VMA_ALLOCATION_CREATE_MAPPED_BIT,
         aci_requiredFlags = 0\<rparr> v of
        (None, v') \<Rightarrow> (RH_RESULT_FAILURE, None, v')
      | (Some (buffer, allocation), v') \<Rightarrow> (RH_RESULT_SUCCESS, Some (buffer, allocation), v'))"

section \<open>The choice of the device\<close>

text \<open>Where every answer is a success, the loops are those of the renderer on the devices with these answers.\<close>

definition answered :: "(nat \<Rightarrow> nat \<Rightarrow> RHResult \<times> bool) \<Rightarrow> nat \<Rightarrow> physical_device \<Rightarrow> physical_device" where
  "answered ask i d = d\<lparr>pd_present := (\<lambda>j. snd (ask i j))\<rparr>"

lemma rhi_queue_loop_answers:
  "\<forall>k. fst (ask k) = RH_RESULT_SUCCESS \<Longrightarrow>
     rhi_queue_loop False ask j fs gs ps = Inr (queue_loop (\<lambda>j. snd (ask j)) j fs gs ps)"
  by (induction fs arbitrary: j gs ps) (simp_all add: Let_def case_prod_beta)

lemma rhi_device_loop_answers:
  "\<forall>i j. fst (ask i j) = RH_RESULT_SUCCESS \<Longrightarrow>
     rhi_device_loop False ask i ds b = Inr (device_loop i (map (\<lambda>(j, d). answered ask j d) (zip [i..<i + length ds] ds)) b)"
proof (induction ds arbitrary: i b)
  case Nil
  then show ?case by simp
next
  case (Cons d ds)
  have z: "zip [i..<i + length (d # ds)] (d # ds) = (i, d) # zip [i + 1..<i + 1 + length ds] ds"
    by (subst upt_conv_Cons) simp_all
  have q: "rhi_queue_loop False (ask i) 0 (pd_queueFlags d) [] [] = Inr (queue_loop (pd_present (answered ask i d)) 0 (pd_queueFlags d) [] [])"
    using Cons.prems by (subst rhi_queue_loop_answers) (simp_all add: answered_def)
  have s: "pd_queueFlags (answered ask i d) = pd_queueFlags d" "pd_discrete (answered ask i d) = pd_discrete d"
    "satisfies_requirements (answered ask i d) = satisfies_requirements d"
    by (simp_all add: answered_def satisfies_requirements_def fun_eq_iff)
  show ?case unfolding z by (simp add: q s Cons.IH [OF Cons.prems] Let_def split: prod.splits)
qed

text \<open>With a client that answers every question the choice is that of the renderer, for the devices as the
  client describes them.\<close>

theorem rhi_pick_device_renderer:
  assumes "\<forall>i j. fst (ask i j) = RH_RESULT_SUCCESS"
  shows "rhi_pick_device False ask ds =
    map_option Inr (pick_physical_device (map (\<lambda>(j, d). answered ask j d) (zip [0..<length ds] ds)))"
  using rhi_device_loop_answers [OF assms, of 0 ds] by (simp add: rhi_pick_device_def pick_physical_device_def Let_def)

theorem rhi_pick_device_renderer_witness:
  "rhi_pick_device False (\<lambda>i j. (RH_RESULT_SUCCESS, True)) [demo_device True 0x403000] =
    map_option Inr (pick_physical_device [answered (\<lambda>i j. (RH_RESULT_SUCCESS, True)) 0 (demo_device True 0x403000)])"
  using rhi_pick_device_renderer [of "\<lambda>i j. (RH_RESULT_SUCCESS, True)" "[demo_device True 0x403000]"] by (simp add: upt_rec)

section \<open>The initialization\<close>

text \<open>The objects that the initialization makes, and what the code relies on: what is created is new, and what could
  not be created leaves everything as it was.\<close>

datatype rhi_object = RInstance u64 | RMessenger u64 | RDevice u64 | RAllocator u64

definition rhi_made :: "('v \<Rightarrow> rhi_object set) \<Rightarrow> rhi_object \<Rightarrow> 'v \<Rightarrow> 'v \<Rightarrow> bool" where
  "rhi_made live x v v' \<longleftrightarrow> x \<notin> live v \<and> live v' = insert x (live v)"

definition rhi_driver :: "'v rhi_calls \<Rightarrow> ('v \<Rightarrow> rhi_object set) \<Rightarrow> bool" where
  "rhi_driver c live \<longleftrightarrow>
     (\<forall>es ls v x v'. vkCreateInstance c es ls v = (Some x, v') \<longrightarrow> rhi_made live (RInstance x) v v') \<and>
     (\<forall>i v x v'. vkCreateDebugUtilsMessengerEXT c i v = (Some x, v') \<longrightarrow> rhi_made live (RMessenger x) v v') \<and>
     (\<forall>i v v'. vkCreateDebugUtilsMessengerEXT c i v = (None, v') \<longrightarrow> live v' = live v) \<and>
     (\<forall>i qs es v x v'. vkCreateDevice c i qs es v = (Some x, v') \<longrightarrow> rhi_made live (RDevice x) v v') \<and>
     (\<forall>d p i v x v'. create_allocator c d p i v = (Some x, v') \<longrightarrow> rhi_made live (RAllocator x) v v') \<and>
     (\<forall>d p i v v'. create_allocator c d p i v = (None, v') \<longrightarrow> live v' = live v)"

lemma rhi_create_messenger_objects:
  assumes "rhi_driver c live" and "rhi_create_messenger c debug i ctx v = (ctx', v')"
  shows "\<exists>M. live v' = live v \<union> M \<and> (M = {} \<or> debug \<and> M = {RMessenger (vc_messenger ctx')}) \<and> vc_instance ctx' = vc_instance ctx"
proof (cases "vkCreateDebugUtilsMessengerEXT c i v")
  case (Pair m v1)
  show ?thesis
  proof (cases "debug \<and> m \<noteq> None")
    case True
    then obtain x where "m = Some x" "debug" by auto
    then show ?thesis using assms Pair
      by (intro exI [of _ "{RMessenger x}"]) (auto simp: rhi_driver_def rhi_made_def rhi_create_messenger_def)
  next
    case False
    then show ?thesis using assms Pair
      by (intro exI [of _ "{}"]) (auto simp: rhi_driver_def rhi_create_messenger_def split: if_splits)
  qed
qed

lemma rhi_create_device_objects:
  assumes "rhi_driver c live" and "rhi_create_device c headless (i, g, p) ctx v = Some (result, ctx', v')"
  shows "live v' = live v \<union> {RDevice (vc_device ctx')} \<union> (if result = RH_RESULT_SUCCESS then {RAllocator (vc_allocator ctx')} else {}) \<and>
    vc_instance ctx' = vc_instance ctx \<and> vc_messenger ctx' = vc_messenger ctx \<and> vc_physical_device ctx' = i"
  using assms unfolding rhi_driver_def rhi_create_device_def rhi_made_def
  by (auto simp: Let_def split: prod.splits option.splits)

lemma rhi_pick_device_Inl:
  "rhi_pick_device headless ask ds = Some (Inl result) \<longleftrightarrow>
     rhi_device_loop headless ask 0 ds \<lparr>best_device = -1, best_graphics = 0, best_present = 0\<rparr> = Inl result"
  by (auto simp: rhi_pick_device_def split: sum.splits if_splits)

lemma not_success [simp]: "r \<noteq> RH_RESULT_SUCCESS \<longleftrightarrow> r = RH_RESULT_FAILURE"
  by (cases r) simp_all

lemma rhi_queue_loop_failure: "rhi_queue_loop headless ask j fs gs ps = Inl result \<Longrightarrow> result = RH_RESULT_FAILURE \<and> \<not> headless"
  by (induction fs arbitrary: j gs ps) (auto simp: Let_def split: if_splits prod.splits)

lemma rhi_device_loop_failure: "rhi_device_loop headless ask i ds b = Inl result \<Longrightarrow> result = RH_RESULT_FAILURE \<and> \<not> headless"
proof (induction ds arbitrary: i b)
  case Nil
  then show ?case by simp
next
  case (Cons d ds)
  show ?case
  proof (cases "rhi_queue_loop headless (ask i) 0 (pd_queueFlags d) [] []")
    case (Inl r)
    then show ?thesis using Cons.prems rhi_queue_loop_failure [OF Inl] by simp
  next
    case (Inr q)
    then obtain b' where "rhi_device_loop headless ask (i + 1) ds b' = Inl result"
      using Cons.prems by (cases q) (simp add: Let_def split: prod.splits)
    then show ?thesis by (rule Cons.IH)
  qed
qed

lemma rhi_pick_device_bounds: "rhi_pick_device headless ask ds = Some (Inr (i, g, p)) \<Longrightarrow> i < length ds"
  by (auto simp: rhi_pick_device_def split: sum.splits if_splits)

text \<open>C38. The initialization destroys nothing. After a success the context names the instance, the device and the
  allocator that it made; after a failure the instance is left, and the device too if only the allocator failed,
  which is the only failure without a window.\<close>

theorem rhi_vulkan_init_objects:
  assumes "rhi_driver c live" and "rhi_vulkan_init c window_extensions info ctx v = Some (result, ctx', v')"
  shows "\<exists>M X. live v' = live v \<union> {RInstance (vc_instance ctx')} \<union> M \<union> X \<and>
    (M = {} \<or> ri_debug info \<and> M = {RMessenger (vc_messenger ctx')}) \<and>
    (result = RH_RESULT_SUCCESS \<longrightarrow> X = {RDevice (vc_device ctx'), RAllocator (vc_allocator ctx')}) \<and>
    (result = RH_RESULT_FAILURE \<longrightarrow> X = {RDevice (vc_device ctx')} \<or> X = {} \<and> \<not> ri_headless info)"
proof -
  obtain i v1 where 1: "vkCreateInstance c (rhi_extensions (ri_instance_extensions info) (ri_debug info) (ri_headless info) window_extensions)
      (rhi_layers (ri_debug info) (vkEnumerateInstanceLayerProperties c v)) v = (Some i, v1)"
    using assms(2) by (auto simp: rhi_vulkan_init_def Let_def split: prod.splits option.splits)
  then have l1: "live v1 = insert (RInstance i) (live v)" using assms(1) by (simp add: rhi_driver_def rhi_made_def)
  obtain ctx2 v2 where 2: "rhi_create_messenger c (ri_debug info) i (ctx\<lparr>vc_instance := i\<rparr>) v1 = (ctx2, v2)" by fastforce
  from rhi_create_messenger_objects [OF assms(1) 2] obtain M where l2: "live v2 = live v1 \<union> M"
    "M = {} \<or> ri_debug info \<and> M = {RMessenger (vc_messenger ctx2)}" "vc_instance ctx2 = i" by auto
  obtain r where 3: "rhi_pick_device (ri_headless info) (ri_is_physical_device_suitable info) (vkEnumeratePhysicalDevices c i v2) = Some r"
    "(case r of Inl result \<Rightarrow> Some (result, ctx2, v2) | Inr picked \<Rightarrow> rhi_create_device c (ri_headless info) picked ctx2 v2) =
      Some (result, ctx', v')"
    using assms(2) 1 2 by (auto simp: rhi_vulkan_init_def Let_def bind_Some_iff)
  show ?thesis
  proof (cases r)
    case (Inl x)
    then have "result = RH_RESULT_FAILURE" "\<not> ri_headless info" "ctx' = ctx2" "v' = v2"
      using 3 by (auto simp: rhi_pick_device_Inl dest: rhi_device_loop_failure)
    then show ?thesis using l1 l2 by (intro exI [of _ M] exI [of _ "{}"]) auto
  next
    case (Inr picked)
    then obtain j g p where "rhi_create_device c (ri_headless info) (j, g, p) ctx2 v2 = Some (result, ctx', v')"
      using 3 by (cases picked) auto
    note o = rhi_create_device_objects [OF assms(1) this]
    show ?thesis
    proof (cases result)
      case RH_RESULT_SUCCESS
      have "live v' = live v \<union> {RInstance (vc_instance ctx')} \<union> M \<union> {RDevice (vc_device ctx'), RAllocator (vc_allocator ctx')}"
        using o l1 l2(1,3) RH_RESULT_SUCCESS by (simp add: Un_assoc insert_commute)
      then show ?thesis using RH_RESULT_SUCCESS l2(2) o by (intro exI conjI) (assumption | simp)+
    next
      case RH_RESULT_FAILURE
      have "live v' = live v \<union> {RInstance (vc_instance ctx')} \<union> M \<union> {RDevice (vc_device ctx')}"
        using o l1 l2(1,3) RH_RESULT_FAILURE by (simp add: Un_assoc insert_commute)
      then show ?thesis using RH_RESULT_FAILURE l2(2) o by (intro exI conjI) (assumption | simp)+
    qed
  qed
qed

text \<open>A device on which the allocator cannot be created.\<close>

definition demo_rhi_new :: "(u64 \<Rightarrow> rhi_object) \<Rightarrow> u64 \<times> rhi_object list \<Rightarrow> u64 option \<times> u64 \<times> rhi_object list" where
  "demo_rhi_new f v = (let (n, xs) = v in if f n \<in> set xs then (None, v) else (Some n, n + 1, f n # xs))"

definition demo_rhi :: "(u64 \<times> rhi_object list) rhi_calls" where
  "demo_rhi = \<lparr>vkEnumerateInstanceLayerProperties = (\<lambda>_. []), vkCreateInstance = (\<lambda>_ _. demo_rhi_new RInstance),
     vkCreateDebugUtilsMessengerEXT = (\<lambda>_. demo_rhi_new RMessenger), vkEnumeratePhysicalDevices = (\<lambda>_ _. [demo_device True 0x403000]),
     vkCreateDevice = (\<lambda>_ _ _. demo_rhi_new RDevice), create_allocator = (\<lambda>_ _ _ v. (None, v))\<rparr>"

definition demo_rhi_info :: RHInitInfo where
  "demo_rhi_info = \<lparr>ri_debug = True, ri_headless = True, ri_instance_extensions = [],
     ri_is_physical_device_suitable = (\<lambda>_ _. (RH_RESULT_SUCCESS, True))\<rparr>"

definition demo_context :: VulkanContext where
  "demo_context = \<lparr>vc_instance = 0, vc_physical_device = 0, vc_device = 0, vc_allocator = 0, vc_graphics = 0,
     vc_presentation = 0, vc_messenger = 0\<rparr>"

lemma demo_rhi_driver: "rhi_driver demo_rhi (\<lambda>v. set (snd v))"
  by (auto simp: rhi_driver_def demo_rhi_def demo_rhi_new_def rhi_made_def split: if_splits prod.splits)

lemma demo_rhi_fails:
  "\<exists>ctx v. rhi_vulkan_init demo_rhi [] demo_rhi_info demo_context (1, []) = Some (RH_RESULT_FAILURE, ctx, v) \<and> vc_device ctx = 3"
  by (simp add: rhi_vulkan_init_def demo_rhi_def demo_rhi_info_def demo_rhi_new_def demo_context_def rhi_pick_device_def
      demo_device_def pick_families_def rhi_create_device_def rhi_create_messenger_def rhi_layers_def VK_QUEUE_GRAPHICS_BIT_def)

theorem rhi_vulkan_init_objects_witness:
  "\<exists>ctx v. rhi_vulkan_init demo_rhi [] demo_rhi_info demo_context (1, []) = Some (RH_RESULT_FAILURE, ctx, v) \<and> RDevice 3 \<in> set (snd v)"
proof -
  obtain ctx v where i: "rhi_vulkan_init demo_rhi [] demo_rhi_info demo_context (1, []) = Some (RH_RESULT_FAILURE, ctx, v)" "vc_device ctx = 3"
    using demo_rhi_fails by blast
  from rhi_vulkan_init_objects [OF demo_rhi_driver i(1)] have "RDevice 3 \<in> set (snd v)"
    using i(2) by (auto simp: demo_rhi_info_def)
  then show ?thesis using i(1) by blast
qed

section \<open>Extensions and layers\<close>

text \<open>A surface extension is asked for exactly when there may be windows.\<close>

lemma rhi_extensions_set:
  "set (rhi_extensions required debug headless ws) =
     set required \<union> (if debug then set Debug_Extensions else {}) \<union> (if headless then {} else set ws)"
  by (simp add: rhi_extensions_def Un_assoc)

lemma rhi_layers_available: "set (rhi_layers debug avail) \<subseteq> set avail"
  by (auto simp: rhi_layers_def)

text \<open>The two queues of a device with one family for both are asked for in two structures with the same family,
  which Vulkan does not allow.\<close>

lemma rhi_queue_create_same: "\<not> distinct (rhi_queue_create False g g)"
  by (simp add: rhi_queue_create_def numeral_2_eq_2)

section \<open>Buffers\<close>

lemmas usage_bits =
    RH_BUFFER_USAGE_TRANSFER_SRC_BIT_def RH_BUFFER_USAGE_TRANSFER_DST_BIT_def RH_BUFFER_USAGE_UNIFORM_TEXEL_BIT_def
    RH_BUFFER_USAGE_STORAGE_TEXEL_BIT_def RH_BUFFER_USAGE_UNIFORM_BUFFER_BIT_def RH_BUFFER_USAGE_STORAGE_BUFFER_BIT_def
    RH_BUFFER_USAGE_INDEX_BUFFER_BIT_def RH_BUFFER_USAGE_VERTEX_BUFFER_BIT_def
    RH_BUFFER_USAGE_SHADER_DEVICE_ADDRESS_BIT_def VK_BUFFER_USAGE_TRANSFER_SRC_BIT_def
    VK_BUFFER_USAGE_TRANSFER_DST_BIT_def VK_BUFFER_USAGE_UNIFORM_TEXEL_BUFFER_BIT_def
    VK_BUFFER_USAGE_STORAGE_TEXEL_BUFFER_BIT_def VK_BUFFER_USAGE_UNIFORM_BUFFER_BIT_def
    VK_BUFFER_USAGE_STORAGE_BUFFER_BIT_def VK_BUFFER_USAGE_INDEX_BUFFER_BIT_def VK_BUFFER_USAGE_VERTEX_BUFFER_BIT_def
    VK_BUFFER_USAGE_SHADER_DEVICE_ADDRESS_BIT_def

text \<open>The one bit of a usage is handed to Vulkan; every usage with several bits or none becomes that of a vertex
  buffer.\<close>

theorem translate_buffer_usage_cases:
  "translate_buffer_usage_flags usage =
     (if \<exists>i \<in> {0, 1, 2, 3, 4, 5, 6, 7, 17}. usage = push_bit i 1 then usage else VK_BUFFER_USAGE_VERTEX_BUFFER_BIT)"
proof -
  have "(\<exists>i \<in> {0, 1, 2, 3, 4, 5, 6, 7, 17}. usage = push_bit i 1) \<longleftrightarrow>
    usage \<in> {1, 2, 4, 8, 0x10, 0x20, 0x40, 0x80, 0x20000}" by simp
  then show ?thesis by (simp only: translate_buffer_usage_flags_def usage_bits insert_iff empty_iff) simp
qed

lemma rhi_vulkan_create_buffer_result:
  assumes "gpu_driver k live ud" and "rhi_vulkan_create_buffer k allocator info v = (result, out, v')"
  shows "result = RH_RESULT_SUCCESS \<longleftrightarrow> out \<noteq> None"
    and "out = Some (b, a) \<Longrightarrow> gpu_creates live ud v (GAllocation a) v'"
  using assms unfolding rhi_vulkan_create_buffer_def gpu_driver_def by (auto split: prod.splits option.splits)

end
