(* ===== verification/Window.thy ===== *)
theory Window
  imports Devpick Resources "HOL-Library.Multiset"
begin

text \<open>
  The surface of a window, of ng/src/renderer.c: the swapchain with its images, the data of the frames in flight and
  the two images that are rendered to, through the creation of a window, its changes of size and its end. The
  descriptor allocator and the deletion queue of a frame, modelled in \<open>Descalloc\<close> and \<open>Deletion\<close>, are arguments here.
\<close>

section \<open>Definitions\<close>

definition VK_IMAGE_USAGE_TRANSFER_SRC_BIT :: u32 where "VK_IMAGE_USAGE_TRANSFER_SRC_BIT = 1"
definition VK_IMAGE_USAGE_STORAGE_BIT :: u32 where "VK_IMAGE_USAGE_STORAGE_BIT = 8"
definition VK_IMAGE_USAGE_COLOR_ATTACHMENT_BIT :: u32 where "VK_IMAGE_USAGE_COLOR_ATTACHMENT_BIT = 0x10"
definition VK_IMAGE_USAGE_DEPTH_STENCIL_ATTACHMENT_BIT :: u32 where "VK_IMAGE_USAGE_DEPTH_STENCIL_ATTACHMENT_BIT = 0x20"

record VkSwapchainCreateInfoKHR =
  sc_surface :: u64
  sc_minImageCount :: u32
  sc_imageFormat :: VkSurfaceFormatKHR
  sc_imageExtent :: "u32 \<times> u32"
  sc_sharing :: "VkSharingMode \<times> nat list"
  sc_presentMode :: u32

text \<open>The calls that only windows make. A surface reports its least and largest number of images, its formats and its
  modes.\<close>

record ('v, 'f) win =
  vkDeviceWaitIdle :: "'v \<Rightarrow> 'v"
  create_surface :: "'v \<Rightarrow> u64 option \<times> 'v"
  vkDestroySurfaceKHR :: "u64 \<Rightarrow> 'v \<Rightarrow> 'v"
  surface_report :: "u64 \<Rightarrow> 'v \<Rightarrow> u32 \<times> u32 \<times> VkSurfaceFormatKHR list \<times> u32 list"
  vkCreateSwapchainKHR :: "VkSwapchainCreateInfoKHR \<Rightarrow> 'v \<Rightarrow> u64 option \<times> 'v"
  vkGetSwapchainImagesKHR :: "u64 \<Rightarrow> 'v \<Rightarrow> u64 list"
  vkDestroySwapchainKHR :: "u64 \<Rightarrow> 'v \<Rightarrow> 'v"
  vkCreateCommandPool :: "nat \<Rightarrow> 'v \<Rightarrow> u64 option \<times> 'v"
  vkDestroyCommandPool :: "u64 \<Rightarrow> 'v \<Rightarrow> 'v"
  vkAllocateCommandBuffers :: "u64 \<Rightarrow> 'v \<Rightarrow> u64 option \<times> 'v"
  vkCreateFence :: "bool \<Rightarrow> 'v \<Rightarrow> u64 option \<times> 'v"
  vkDestroyFence :: "u64 \<Rightarrow> 'v \<Rightarrow> 'v"
  vkCreateSemaphore :: "'v \<Rightarrow> u64 option \<times> 'v"
  vkDestroySemaphore :: "u64 \<Rightarrow> 'v \<Rightarrow> 'v"
  services_init :: "'v \<Rightarrow> 'f \<times> 'v"
  services_flush :: "'f \<Rightarrow> 'v \<Rightarrow> 'f \<times> 'v"
  services_deinit :: "'f \<Rightarrow> 'v \<Rightarrow> 'v"

record 'f VD_RendererFrameData =
  fd_command_pool :: u64
  fd_command_buffer :: u64
  fd_fnc_render_complete :: u64
  fd_sem_image_available :: u64
  fd_sem_present_image :: u64
  fd_services :: 'f

text \<open>The extent of these textures is not set.\<close>

record SurfaceImage =
  si_image :: u64
  si_view :: u64
  si_allocation :: u64
  si_format :: u32

text \<open>The list of objects to render, which is empty between frames, is kept beside the component.\<close>

record 'f WindowSurfaceComponent =
  ws_swapchain :: u64
  ws_surface :: u64
  ws_surface_format :: u32
  ws_images :: "u64 list"
  ws_image_views :: "u64 list"
  ws_extent :: "u32 \<times> u32"
  ws_frame_data :: "'f VD_RendererFrameData list"
  ws_current_frame :: nat
  ws_color_image :: SurfaceImage
  ws_depth_image :: SurfaceImage

record render_setup =
  rs_device :: u64
  rs_graphics :: nat
  rs_presentation :: nat
  rs_color_image_format :: u32
  rs_depth_image_format :: u32
  rs_inflight_frame_count :: nat

text \<open>\<open>VD_VK_CHECK\<close> on a call that creates. A surface is not checked; without one there is no defined swapchain.\<close>

definition vk_made :: "'a option \<times> 'v \<Rightarrow> ('a \<times> 'v) option" where
  "vk_made r = (case r of (None, v) \<Rightarrow> None | (Some x, v) \<Rightarrow> Some (x, v))"

definition new_frame :: "('v, 'f) win \<Rightarrow> nat \<Rightarrow> 'v \<Rightarrow> ('f VD_RendererFrameData \<times> 'v) option" where
  "new_frame w family v =
     do { (pool, v1) \<leftarrow> vk_made (vkCreateCommandPool w family v);
          (buffer, v2) \<leftarrow> vk_made (vkAllocateCommandBuffers w pool v1);
          (fence, v3) \<leftarrow> vk_made (vkCreateFence w True v2);
          (available, v4) \<leftarrow> vk_made (vkCreateSemaphore w v3);
          (present, v5) \<leftarrow> vk_made (vkCreateSemaphore w v4);
          let (services, v6) = services_init w v5;
          Some (\<lparr>fd_command_pool = pool, fd_command_buffer = buffer, fd_fnc_render_complete = fence,
                 fd_sem_image_available = available, fd_sem_present_image = present, fd_services = services\<rparr>, v6) }"

fun rebuild_frame_data :: "('v, 'f) win \<Rightarrow> nat \<Rightarrow> nat \<Rightarrow> 'v \<Rightarrow> ('f VD_RendererFrameData list \<times> 'v) option" where
  "rebuild_frame_data w family 0 v = Some ([], v)"
| "rebuild_frame_data w family (Suc n) v =
     do { (f, v1) \<leftarrow> new_frame w family v; (fs, v2) \<leftarrow> rebuild_frame_data w family n v1; Some (f # fs, v2) }"

fun view_loop :: "'v gpu \<Rightarrow> u64 \<Rightarrow> u32 \<Rightarrow> u64 list \<Rightarrow> 'v \<Rightarrow> (u64 list \<times> 'v) option" where
  "view_loop k device format [] v = Some ([], v)"
| "view_loop k device format (i # is) v =
     do { (x, v1) \<leftarrow> vk_made (vkCreateImageView k device format i VK_IMAGE_ASPECT_COLOR_BIT v);
          (xs, v2) \<leftarrow> view_loop k device format is v1; Some (x # xs, v2) }"

definition surface_image ::
  "'v gpu \<Rightarrow> u64 \<Rightarrow> u32 \<Rightarrow> u32 \<times> u32 \<Rightarrow> u32 \<Rightarrow> u32 \<Rightarrow> nat \<Rightarrow> SVMA \<times> 'v \<Rightarrow> (SurfaceImage \<times> SVMA \<times> 'v) option" where
  "surface_image k device format extent usage aspect line st =
     do { ((img, alloc), s, v) \<leftarrow> svma_create_texture k
            \<lparr>ici_format = format, ici_extent = \<lparr>ext_width = fst extent, ext_height = snd extent, ext_depth = 1\<rparr>,
             ici_usage = usage, ici_mipLevels = 1\<rparr>
            \<lparr>aci_usage = VMA_MEMORY_USAGE_GPU_ONLY, aci_flags = 0, aci_requiredFlags = VK_MEMORY_PROPERTY_DEVICE_LOCAL_BIT\<rparr>
            \<lparr>tr_file = ''renderer.c'', tr_line = line\<rparr> st;
          (view, v1) \<leftarrow> vk_made (vkCreateImageView k device format img aspect v);
          Some (\<lparr>si_image = img, si_view = view, si_allocation = alloc, si_format = format\<rparr>, s, v1) }"

definition create_swapchain_image_views_and_framebuffers ::
  "'v gpu \<Rightarrow> ('v, 'f) win \<Rightarrow> render_setup \<Rightarrow> u64 \<Rightarrow> u32 \<times> u32 \<Rightarrow> 'f VD_RendererFrameData list option \<Rightarrow> SVMA \<times> 'v
     \<Rightarrow> ('f WindowSurfaceComponent \<times> SVMA \<times> 'v) option" where
  "create_swapchain_image_views_and_framebuffers k w rs surface extent frames st =
     (let (s, v) = st; (lo, hi, formats, modes) = surface_report w surface v in
      do { format \<leftarrow> choose_surface_format formats;
           mode \<leftarrow> choose_present_mode modes;
           (swapchain, v1) \<leftarrow> vk_made (vkCreateSwapchainKHR w
             \<lparr>sc_surface = surface, sc_minImageCount = swapchain_image_count lo hi, sc_imageFormat = format, sc_imageExtent = extent,
              sc_sharing = swapchain_sharing (rs_graphics rs) (rs_presentation rs), sc_presentMode = mode\<rparr> v);
           let images = vkGetSwapchainImagesKHR w swapchain v1;
           (image_views, v2) \<leftarrow> view_loop k (rs_device rs) (fst format) images v1;
           (frame_data, v3) \<leftarrow> (case frames of
               None \<Rightarrow> rebuild_frame_data w (rs_graphics rs) (rs_inflight_frame_count rs) v2
             | Some fs \<Rightarrow> Some (fs, v2));
           (color, st4) \<leftarrow> surface_image k (rs_device rs) (rs_color_image_format rs) extent
             (VK_IMAGE_USAGE_TRANSFER_SRC_BIT OR VK_IMAGE_USAGE_TRANSFER_DST_BIT OR VK_IMAGE_USAGE_COLOR_ATTACHMENT_BIT
                OR VK_IMAGE_USAGE_STORAGE_BIT) VK_IMAGE_ASPECT_COLOR_BIT 1416 (s, v3);
           (depth, st5) \<leftarrow> surface_image k (rs_device rs) (rs_depth_image_format rs) extent
             VK_IMAGE_USAGE_DEPTH_STENCIL_ATTACHMENT_BIT VK_IMAGE_ASPECT_DEPTH_BIT 1471 st4;
           Some (\<lparr>ws_swapchain = swapchain, ws_surface = surface, ws_surface_format = fst format, ws_images = images,
                  ws_image_views = image_views, ws_extent = extent, ws_frame_data = frame_data, ws_current_frame = 0,
                  ws_color_image = color, ws_depth_image = depth\<rparr>, st5) })"

text \<open>One window of \<open>RendererOnWindowComponentSet\<close>, of \<open>RendererCheckWindowComponentSizeChange\<close>, and
  \<open>on_window_component_immediate_destroy\<close>.\<close>

definition window_set ::
  "'v gpu \<Rightarrow> ('v, 'f) win \<Rightarrow> render_setup \<Rightarrow> u32 \<times> u32 \<Rightarrow> SVMA \<times> 'v \<Rightarrow> ('f WindowSurfaceComponent \<times> SVMA \<times> 'v) option" where
  "window_set k w rs window_size st =
     (let (s, v) = st in
      do { (surface, v1) \<leftarrow> vk_made (create_surface w v);
           create_swapchain_image_views_and_framebuffers k w rs surface window_size None (s, vkDeviceWaitIdle w v1) })"

definition window_size_change ::
  "'v gpu \<Rightarrow> ('v, 'f) win \<Rightarrow> render_setup \<Rightarrow> 'f WindowSurfaceComponent \<Rightarrow> u32 \<times> u32 \<Rightarrow> SVMA \<times> 'v
     \<Rightarrow> ('f WindowSurfaceComponent \<times> SVMA \<times> 'v) option" where
  "window_size_change k w rs ws size' st =
     (let (s, v) = st; device = rs_device rs;
          v1 = vkDestroyImageView k device (si_view (ws_color_image ws)) (vkDeviceWaitIdle w v)
      in do { st2 \<leftarrow> svma_free_texture k (si_image (ws_color_image ws)) (si_allocation (ws_color_image ws)) (s, v1);
              (s3, v3) \<leftarrow> svma_free_texture k (si_image (ws_depth_image ws)) (si_allocation (ws_depth_image ws)) st2;
              let v4 = fold (vkDestroyImageView k device) (ws_image_views ws) v3;
              let v5 = vkDestroySurfaceKHR w (ws_surface ws) (vkDestroySwapchainKHR w (ws_swapchain ws) v4);
              (surface, v6) \<leftarrow> vk_made (create_surface w v5);
              create_swapchain_image_views_and_framebuffers k w rs surface size' (Some (ws_frame_data ws)) (s3, v6) })"

definition destroy_frame :: "('v, 'f) win \<Rightarrow> 'f VD_RendererFrameData \<Rightarrow> 'v \<Rightarrow> 'v" where
  "destroy_frame w f v =
     (let (services, v1) = services_flush w (fd_services f) v;
          v2 = vkDestroyFence w (fd_fnc_render_complete f) v1;
          v3 = vkDestroySemaphore w (fd_sem_image_available f) v2;
          v4 = vkDestroySemaphore w (fd_sem_present_image f) v3;
          v5 = vkDestroyCommandPool w (fd_command_pool f) v4
      in services_deinit w services v5)"

definition on_window_component_immediate_destroy ::
  "'v gpu \<Rightarrow> ('v, 'f) win \<Rightarrow> render_setup \<Rightarrow> 'f WindowSurfaceComponent \<Rightarrow> SVMA \<times> 'v \<Rightarrow> (SVMA \<times> 'v) option" where
  "on_window_component_immediate_destroy k w rs ws st =
     (let (s, v) = st; device = rs_device rs;
          v1 = vkDestroyImageView k device (si_view (ws_color_image ws)) (vkDeviceWaitIdle w v);
          v2 = vkDestroyImageView k device (si_view (ws_depth_image ws)) v1
      in do { st3 \<leftarrow> svma_free_texture k (si_image (ws_color_image ws)) (si_allocation (ws_color_image ws)) (s, v2);
              (s4, v4) \<leftarrow> svma_free_texture k (si_image (ws_depth_image ws)) (si_allocation (ws_depth_image ws)) st3;
              let v5 = fold (destroy_frame w) (ws_frame_data ws) v4;
              let v6 = fold (vkDestroyImageView k device) (ws_image_views ws) v5;
              Some (s4, vkDestroySurfaceKHR w (ws_surface ws) (vkDestroySwapchainKHR w (ws_swapchain ws) v6)) })"

text \<open>A window as the two systems see it: whether it can create a surface, whether it was resized just now, its size
  and its surface. A window that is resized without a surface is a null pointer.\<close>

record 'f window_entity =
  we_create_surface :: bool
  we_just_resized :: bool
  we_size :: "u32 \<times> u32"
  we_surface :: "'f WindowSurfaceComponent option"

fun RendererOnWindowComponentSet ::
  "'v gpu \<Rightarrow> ('v, 'f) win \<Rightarrow> render_setup \<Rightarrow> 'f window_entity list \<Rightarrow> SVMA \<times> 'v \<Rightarrow> ('f window_entity list \<times> SVMA \<times> 'v) option" where
  "RendererOnWindowComponentSet k w rs [] st = Some ([], st)"
| "RendererOnWindowComponentSet k w rs (e # es) st =
     do { (e', st1) \<leftarrow> (if \<not> we_create_surface e \<or> we_surface e \<noteq> None then Some (e, st)
            else do { (ws, st1) \<leftarrow> window_set k w rs (we_size e) st; Some (e\<lparr>we_surface := Some ws\<rparr>, st1) });
          (es', st2) \<leftarrow> RendererOnWindowComponentSet k w rs es st1;
          Some (e' # es', st2) }"

fun RendererCheckWindowComponentSizeChange ::
  "'v gpu \<Rightarrow> ('v, 'f) win \<Rightarrow> render_setup \<Rightarrow> 'f window_entity list \<Rightarrow> SVMA \<times> 'v \<Rightarrow> ('f window_entity list \<times> SVMA \<times> 'v) option" where
  "RendererCheckWindowComponentSizeChange k w rs [] st = Some ([], st)"
| "RendererCheckWindowComponentSizeChange k w rs (e # es) st =
     do { (e', st1) \<leftarrow> (if \<not> we_just_resized e then Some (e, st)
            else do { ws \<leftarrow> we_surface e;
                      (ws', st1) \<leftarrow> window_size_change k w rs ws (we_size e) st;
                      Some (e\<lparr>we_surface := Some ws'\<rparr>, st1) });
          (es', st2) \<leftarrow> RendererCheckWindowComponentSizeChange k w rs es st1;
          Some (e' # es', st2) }"

text \<open>Any number of changes of the size of one window.\<close>

fun window_size_changes ::
  "'v gpu \<Rightarrow> ('v, 'f) win \<Rightarrow> render_setup \<Rightarrow> (u32 \<times> u32) list \<Rightarrow> 'f WindowSurfaceComponent \<Rightarrow> SVMA \<times> 'v
     \<Rightarrow> ('f WindowSurfaceComponent \<times> SVMA \<times> 'v) option" where
  "window_size_changes k w rs [] ws st = Some (ws, st)"
| "window_size_changes k w rs (e # es) ws st =
     do { (ws', st') \<leftarrow> window_size_change k w rs ws e st; window_size_changes k w rs es ws' st' }"

section \<open>What the code relies on\<close>

text \<open>What is created is new, what is destroyed is gone, and the services of a frame keep their own objects.\<close>

definition win_driver :: "('v, 'f) win \<Rightarrow> ('v \<Rightarrow> gpu_object set) \<Rightarrow> ('v \<Rightarrow> u64 \<Rightarrow> nat) \<Rightarrow> bool" where
  "win_driver w live ud \<longleftrightarrow>
     (\<forall>v. gpu_keeps live ud v (vkDeviceWaitIdle w v)) \<and>
     (\<forall>v x v'. create_surface w v = (Some x, v') \<longrightarrow> gpu_creates live ud v (GSurface x) v') \<and>
     (\<forall>i v x v'. vkCreateSwapchainKHR w i v = (Some x, v') \<longrightarrow> gpu_creates live ud v (GSwapchain x) v') \<and>
     (\<forall>i v x v'. vkCreateCommandPool w i v = (Some x, v') \<longrightarrow> gpu_creates live ud v (GCommandPool x) v') \<and>
     (\<forall>i v x v'. vkCreateFence w i v = (Some x, v') \<longrightarrow> gpu_creates live ud v (GFence x) v') \<and>
     (\<forall>v x v'. vkCreateSemaphore w v = (Some x, v') \<longrightarrow> gpu_creates live ud v (GSemaphore x) v') \<and>
     (\<forall>i v x v'. vkAllocateCommandBuffers w i v = (Some x, v') \<longrightarrow> gpu_keeps live ud v v') \<and>
     (\<forall>x v. GSurface x \<in> live v \<longrightarrow> gpu_destroys live ud v (GSurface x) (vkDestroySurfaceKHR w x v)) \<and>
     (\<forall>x v. GSwapchain x \<in> live v \<longrightarrow> gpu_destroys live ud v (GSwapchain x) (vkDestroySwapchainKHR w x v)) \<and>
     (\<forall>x v. GCommandPool x \<in> live v \<longrightarrow> gpu_destroys live ud v (GCommandPool x) (vkDestroyCommandPool w x v)) \<and>
     (\<forall>x v. GFence x \<in> live v \<longrightarrow> gpu_destroys live ud v (GFence x) (vkDestroyFence w x v)) \<and>
     (\<forall>x v. GSemaphore x \<in> live v \<longrightarrow> gpu_destroys live ud v (GSemaphore x) (vkDestroySemaphore w x v)) \<and>
     (\<forall>v f v'. services_init w v = (f, v') \<longrightarrow> gpu_keeps live ud v v') \<and>
     (\<forall>f v f' v'. services_flush w f v = (f', v') \<longrightarrow> gpu_keeps live ud v v') \<and>
     (\<forall>f v. gpu_keeps live ud v (services_deinit w f v))"

lemma win_creates:
  assumes "win_driver w live ud"
  shows "create_surface w v = (Some x, v') \<Longrightarrow> gpu_creates live ud v (GSurface x) v'"
    and "vkCreateSwapchainKHR w sc v = (Some x, v') \<Longrightarrow> gpu_creates live ud v (GSwapchain x) v'"
    and "vkCreateCommandPool w i v = (Some x, v') \<Longrightarrow> gpu_creates live ud v (GCommandPool x) v'"
    and "vkCreateFence w b v = (Some x, v') \<Longrightarrow> gpu_creates live ud v (GFence x) v'"
    and "vkCreateSemaphore w v = (Some x, v') \<Longrightarrow> gpu_creates live ud v (GSemaphore x) v'"
  using assms by (simp_all add: win_driver_def)

lemma win_destroys:
  assumes "win_driver w live ud"
  shows "GSurface x \<in> live v \<Longrightarrow> gpu_destroys live ud v (GSurface x) (vkDestroySurfaceKHR w x v)"
    and "GSwapchain x \<in> live v \<Longrightarrow> gpu_destroys live ud v (GSwapchain x) (vkDestroySwapchainKHR w x v)"
    and "GCommandPool x \<in> live v \<Longrightarrow> gpu_destroys live ud v (GCommandPool x) (vkDestroyCommandPool w x v)"
    and "GFence x \<in> live v \<Longrightarrow> gpu_destroys live ud v (GFence x) (vkDestroyFence w x v)"
    and "GSemaphore x \<in> live v \<Longrightarrow> gpu_destroys live ud v (GSemaphore x) (vkDestroySemaphore w x v)"
  using assms by (simp_all add: win_driver_def)

lemma win_keeps:
  assumes "win_driver w live ud"
  shows "gpu_keeps live ud v (vkDeviceWaitIdle w v)" and "services_init w v = (f, v') \<Longrightarrow> gpu_keeps live ud v v'"
    and "vkAllocateCommandBuffers w i v = (Some x, v') \<Longrightarrow> gpu_keeps live ud v v'"
    and "services_flush w f v = (f', v') \<Longrightarrow> gpu_keeps live ud v v'" and "gpu_keeps live ud v (services_deinit w f v)"
  using assms by (simp_all add: win_driver_def)

section \<open>What is made and what is gone\<close>

text \<open>A step that makes the objects of a list, and one that destroys them.\<close>

definition made :: "'v gpu \<Rightarrow> ('v \<Rightarrow> gpu_object set) \<Rightarrow> ('v \<Rightarrow> u64 \<Rightarrow> nat) \<Rightarrow> gpu_object list \<Rightarrow> SVMA \<times> 'v \<Rightarrow> SVMA \<times> 'v \<Rightarrow> bool" where
  "made k live ud xs st st' \<longleftrightarrow> gpu_ok k live ud st' \<and> distinct xs \<and> set xs \<inter> live (snd st) = {} \<and>
     live (snd st') = live (snd st) \<union> set xs"

definition gone :: "'v gpu \<Rightarrow> ('v \<Rightarrow> gpu_object set) \<Rightarrow> ('v \<Rightarrow> u64 \<Rightarrow> nat) \<Rightarrow> gpu_object set \<Rightarrow> SVMA \<times> 'v \<Rightarrow> SVMA \<times> 'v \<Rightarrow> bool" where
  "gone k live ud X st st' \<longleftrightarrow> gpu_ok k live ud st' \<and> live (snd st') = live (snd st) - X"

lemma made_refl: "gpu_ok k live ud st \<Longrightarrow> made k live ud [] st st"
  by (simp add: made_def)

lemma made_trans: "made k live ud xs st st1 \<Longrightarrow> made k live ud ys st1 st2 \<Longrightarrow> made k live ud (xs @ ys) st st2"
  by (auto simp: made_def)

lemma made_ok: "made k live ud xs st st' \<Longrightarrow> gpu_ok k live ud st'"
  by (simp add: made_def)

lemma gone_trans: "gone k live ud X st st1 \<Longrightarrow> gone k live ud Y st1 st2 \<Longrightarrow> gone k live ud (X \<union> Y) st st2"
  by (auto simp: gone_def)

lemma gone_ok: "gone k live ud X st st' \<Longrightarrow> gpu_ok k live ud st'"
  by (simp add: gone_def)

lemma made_creates:
  assumes "gpu_ok k live ud (s, v)" and "gpu_creates live ud v x v'" and "\<forall>a. x \<noteq> GAllocation a"
  shows "made k live ud [x] (s, v) (s, v')"
proof -
  have "gpu_ok k live ud (s, v')" using assms by (intro gpu_ok_others [OF assms(1)]) (auto simp: gpu_creates_def)
  then show ?thesis using assms(2) by (auto simp: made_def gpu_creates_def)
qed

lemma made_keeps:
  assumes "gpu_ok k live ud (s, v)" and "gpu_keeps live ud v v'"
  shows "made k live ud [] (s, v) (s, v')"
  using assms gpu_ok_others [OF assms(1), of v'] by (auto simp: made_def gpu_keeps_def)

lemma gone_keeps:
  assumes "gpu_ok k live ud (s, v)" and "gpu_keeps live ud v v'"
  shows "gone k live ud {} (s, v) (s, v')"
  using assms gpu_ok_others [OF assms(1), of v'] by (auto simp: gone_def gpu_keeps_def)

lemma gone_destroys:
  assumes "gpu_ok k live ud (s, v)" and "gpu_destroys live ud v x v'" and "\<forall>a. x \<noteq> GAllocation a"
  shows "gone k live ud {x} (s, v) (s, v')"
proof -
  have "gpu_ok k live ud (s, v')" using assms by (intro gpu_ok_others [OF assms(1)]) (auto simp: gpu_destroys_def)
  then show ?thesis using assms(2) by (auto simp: gone_def gpu_destroys_def)
qed

lemma vk_made_Some [simp]: "vk_made r = Some (x, v) \<longleftrightarrow> r = (Some x, v)"
  by (cases r) (auto simp: vk_made_def split: option.splits)

lemma vk_made_ok [simp]: "vk_made (Some x, v) = Some (x, v)"
  by (simp add: vk_made_def)

lemma made_view:
  "gpu_ok k live ud (s, v) \<Longrightarrow> vkCreateImageView k d f i a v = (Some x, v') \<Longrightarrow> made k live ud [GView x] (s, v) (s, v')"
  using gpu_ok_view by (fastforce simp: made_def)

lemma gone_view:
  "gpu_ok k live ud (s, v) \<Longrightarrow> GView x \<in> live v \<Longrightarrow> gone k live ud {GView x} (s, v) (s, vkDestroyImageView k d x v)"
  using gpu_ok_view_gone by (fastforce simp: gone_def)

lemma gone_views:
  "gpu_ok k live ud (s, v) \<Longrightarrow> distinct xs \<Longrightarrow> GView ` set xs \<subseteq> live v \<Longrightarrow>
     gone k live ud (GView ` set xs) (s, v) (s, fold (vkDestroyImageView k d) xs v)"
proof (induction xs arbitrary: v)
  case Nil
  then show ?case by (simp add: gone_def)
next
  case (Cons x xs)
  let ?v = "vkDestroyImageView k d x v"
  have g: "gone k live ud {GView x} (s, v) (s, ?v)" using Cons.prems by (intro gone_view) simp_all
  have "gone k live ud (GView ` set xs) (s, ?v) (s, fold (vkDestroyImageView k d) xs ?v)"
    using Cons.prems g by (intro Cons.IH) (auto simp: gone_def)
  from gone_trans [OF g this] show ?case by simp
qed

section \<open>What a window owns\<close>

definition image_objects :: "SurfaceImage \<Rightarrow> gpu_object list" where
  "image_objects i = [GAllocation (si_allocation i), GView (si_view i)]"

definition frame_objects :: "'f VD_RendererFrameData \<Rightarrow> gpu_object list" where
  "frame_objects f = [GCommandPool (fd_command_pool f), GFence (fd_fnc_render_complete f),
     GSemaphore (fd_sem_image_available f), GSemaphore (fd_sem_present_image f)]"

definition swapchain_objects :: "'f WindowSurfaceComponent \<Rightarrow> gpu_object list" where
  "swapchain_objects ws = GSwapchain (ws_swapchain ws) # map GView (ws_image_views ws)"

definition frames_objects :: "'f WindowSurfaceComponent \<Rightarrow> gpu_object list" where
  "frames_objects ws = concat (map frame_objects (ws_frame_data ws))"

definition window_objects :: "'f WindowSurfaceComponent \<Rightarrow> gpu_object list" where
  "window_objects ws = GSurface (ws_surface ws) # swapchain_objects ws @ frames_objects ws @
     image_objects (ws_color_image ws) @ image_objects (ws_depth_image ws)"

lemma new_frame_made:
  assumes w: "win_driver w live ud" and ok: "gpu_ok k live ud (s, v)" and n: "new_frame w family v = Some (f, v')"
  shows "made k live ud (frame_objects f) (s, v) (s, v')"
proof -
  obtain pool v1 buffer v2 fence v3 a v4 p v5 where
    c: "vkCreateCommandPool w family v = (Some pool, v1)" "vkAllocateCommandBuffers w pool v1 = (Some buffer, v2)"
      "vkCreateFence w True v2 = (Some fence, v3)" "vkCreateSemaphore w v3 = (Some a, v4)" "vkCreateSemaphore w v4 = (Some p, v5)"
    using n by (auto simp: new_frame_def bind_Some_iff)
  obtain sv v6 where c6: "services_init w v5 = (sv, v6)" by fastforce
  have f: "frame_objects f = [GCommandPool pool, GFence fence, GSemaphore a, GSemaphore p]" and v6: "v6 = v'"
    using n c c6 by (auto simp: new_frame_def vk_made_def frame_objects_def)
  note m1 = made_creates [OF ok win_creates(3) [OF w c(1)]]
  have m1: "made k live ud [GCommandPool pool] (s, v) (s, v1)" by (rule m1) simp
  have m2: "made k live ud [] (s, v1) (s, v2)" by (rule made_keeps [OF made_ok [OF m1] win_keeps(3) [OF w c(2)]])
  have m3: "made k live ud [GFence fence] (s, v2) (s, v3)" by (rule made_creates [OF made_ok [OF m2] win_creates(4) [OF w c(3)]]) simp
  have m4: "made k live ud [GSemaphore a] (s, v3) (s, v4)" by (rule made_creates [OF made_ok [OF m3] win_creates(5) [OF w c(4)]]) simp
  have m5: "made k live ud [GSemaphore p] (s, v4) (s, v5)" by (rule made_creates [OF made_ok [OF m4] win_creates(5) [OF w c(5)]]) simp
  have m6: "made k live ud [] (s, v5) (s, v')" by (rule made_keeps [OF made_ok [OF m5] win_keeps(2) [OF w c6 [unfolded v6]]])
  show ?thesis using made_trans [OF made_trans [OF made_trans [OF made_trans [OF made_trans [OF m1 m2] m3] m4] m5] m6] f by simp
qed

lemma rebuild_frame_data_made:
  assumes w: "win_driver w live ud"
  shows "gpu_ok k live ud (s, v) \<Longrightarrow> rebuild_frame_data w family n v = Some (fs, v') \<Longrightarrow>
    made k live ud (concat (map frame_objects fs)) (s, v) (s, v') \<and> length fs = n"
proof (induction n arbitrary: v fs)
  case 0
  then show ?case by (simp add: made_refl)
next
  case (Suc n)
  then obtain f v1 gs where f: "new_frame w family v = Some (f, v1)" "rebuild_frame_data w family n v1 = Some (gs, v')" "fs = f # gs"
    by (auto simp: bind_Some_iff)
  note m = new_frame_made [OF w Suc.prems(1) f(1)]
  show ?case using made_trans [OF m] Suc.IH [OF made_ok [OF m] f(2)] f(3) by simp
qed

lemma view_loop_made:
  "gpu_ok k live ud (s, v) \<Longrightarrow> view_loop k d fmt is v = Some (xs, v') \<Longrightarrow> made k live ud (map GView xs) (s, v) (s, v')"
proof (induction "is" arbitrary: v xs)
  case Nil
  then show ?case by (simp add: made_refl)
next
  case (Cons i "is")
  then obtain x v1 ys where x: "vkCreateImageView k d fmt i VK_IMAGE_ASPECT_COLOR_BIT v = (Some x, v1)"
    "view_loop k d fmt is v1 = Some (ys, v')" "xs = x # ys"
    by (auto simp: bind_Some_iff)
  note m = made_view [OF Cons.prems(1) x(1)]
  show ?case using made_trans [OF m Cons.IH [OF made_ok [OF m] x(2)]] x(3) by simp
qed

lemma surface_image_made:
  assumes ok: "gpu_ok k live ud st" and c: "surface_image k d fmt e u a l st = Some (i, st')"
  shows "made k live ud (image_objects i) st st'"
proof -
  obtain ii ai tr img al s v x v' where t: "svma_create_texture k ii ai tr st = Some ((img, al), s, v)"
    and x: "vkCreateImageView k d fmt img a v = (Some x, v')" and i: "image_objects i = [GAllocation al, GView x]" "st' = (s, v')"
    using c unfolding surface_image_def by (auto simp: bind_Some_iff image_objects_def split: prod.splits)
  note g = gpu_ok_create_texture [OF ok t]
  have m: "made k live ud [GAllocation al] st (s, v)" using g by (simp add: made_def)
  show ?thesis using made_trans [OF m made_view [OF made_ok [OF m] x]] i by simp
qed

section \<open>The operations\<close>

lemma create_swapchain_made:
  assumes w: "win_driver w live ud" and ok: "gpu_ok k live ud st"
    and c: "create_swapchain_image_views_and_framebuffers k w rs surface e frames st = Some (ws, st')"
  shows "made k live ud (swapchain_objects ws @ (if frames = None then frames_objects ws else []) @
      image_objects (ws_color_image ws) @ image_objects (ws_depth_image ws)) st st' \<and>
    ws_surface ws = surface \<and> (\<forall>fs. frames = Some fs \<longrightarrow> ws_frame_data ws = fs)"
proof -
  obtain s v where st: "st = (s, v)" by (cases st)
  obtain lo hi formats modes where r: "surface_report w surface v = (lo, hi, formats, modes)" by (cases "surface_report w surface v") auto
  obtain i swapchain v1 fmt images views v2 frame_data v3 f1 u1 a1 l1 color st4 f2 u2 a2 l2 depth where
    1: "vkCreateSwapchainKHR w i v = (Some swapchain, v1)"
    and 2: "view_loop k (rs_device rs) fmt images v1 = Some (views, v2)"
    and 3: "(case frames of None \<Rightarrow> rebuild_frame_data w (rs_graphics rs) (rs_inflight_frame_count rs) v2 | Some fs \<Rightarrow> Some (fs, v2))
        = Some (frame_data, v3)"
    and 4: "surface_image k (rs_device rs) f1 e u1 a1 l1 (s, v3) = Some (color, st4)"
    and 5: "surface_image k (rs_device rs) f2 e u2 a2 l2 st4 = Some (depth, st')"
    and ws: "ws_swapchain ws = swapchain" "ws_surface ws = surface" "ws_image_views ws = views" "ws_frame_data ws = frame_data"
      "ws_color_image ws = color" "ws_depth_image ws = depth"
    using c unfolding create_swapchain_image_views_and_framebuffers_def st r Let_def prod.case
    by (auto simp: bind_Some_iff)
  have ok: "gpu_ok k live ud (s, v)" using ok by (simp add: st)
  have m1: "made k live ud [GSwapchain swapchain] (s, v) (s, v1)" by (rule made_creates [OF ok win_creates(2) [OF w 1]]) simp
  have m2: "made k live ud (map GView views) (s, v1) (s, v2)" by (rule view_loop_made [OF made_ok [OF m1] 2])
  have m3: "made k live ud (if frames = None then concat (map frame_objects frame_data) else []) (s, v2) (s, v3)"
    using 3 made_ok [OF m2] rebuild_frame_data_made [OF w made_ok [OF m2]] by (auto simp: made_refl split: option.splits)
  have m4: "made k live ud (image_objects color) (s, v3) st4" by (rule surface_image_made [OF made_ok [OF m3] 4])
  have m5: "made k live ud (image_objects depth) st4 st'" by (rule surface_image_made [OF made_ok [OF m4] 5])
  have "made k live ud (swapchain_objects ws @ (if frames = None then frames_objects ws else []) @
      image_objects (ws_color_image ws) @ image_objects (ws_depth_image ws)) st st'"
    using made_trans [OF made_trans [OF made_trans [OF made_trans [OF m1 m2] m3] m4] m5]
    by (cases frames) (simp_all add: swapchain_objects_def frames_objects_def ws st)
  moreover have "\<forall>fs. frames = Some fs \<longrightarrow> ws_frame_data ws = fs" using 3 ws(4) by auto
  ultimately show ?thesis using ws(2) by blast
qed

text \<open>A window that owns its objects, after views of depth images were lost.\<close>

definition window_at ::
  "'v gpu \<Rightarrow> ('v \<Rightarrow> gpu_object set) \<Rightarrow> ('v \<Rightarrow> u64 \<Rightarrow> nat) \<Rightarrow> gpu_object set \<Rightarrow> 'f WindowSurfaceComponent \<Rightarrow> u64 list \<Rightarrow> SVMA \<times> 'v \<Rightarrow> bool" where
  "window_at k live ud L ws lost st \<longleftrightarrow> gpu_ok k live ud st \<and> distinct (window_objects ws @ map GView lost) \<and>
     set (window_objects ws @ map GView lost) \<inter> L = {} \<and> live (snd st) = L \<union> set (window_objects ws @ map GView lost)"

lemma window_set_at:
  assumes w: "win_driver w live ud" and ok: "gpu_ok k live ud st" and c: "window_set k w rs e st = Some (ws, st')"
  shows "window_at k live ud (live (snd st)) ws [] st'"
proof -
  obtain s v where st: "st = (s, v)" by (cases st)
  obtain surface v1 where 1: "create_surface w v = (Some surface, v1)"
    using c by (auto simp: window_set_def st bind_Some_iff)
  let ?v2 = "vkDeviceWaitIdle w v1"
  have 3: "create_swapchain_image_views_and_framebuffers k w rs surface e None (s, ?v2) = Some (ws, st')"
    using c 1 by (simp add: window_set_def st vk_made_def)
  have ok: "gpu_ok k live ud (s, v)" using ok by (simp add: st)
  have m1: "made k live ud [GSurface surface] (s, v) (s, v1)" by (rule made_creates [OF ok win_creates(1) [OF w 1]]) simp
  have m2: "made k live ud [] (s, v1) (s, ?v2)" by (rule made_keeps [OF made_ok [OF m1] win_keeps(1) [OF w]])
  note m3 = create_swapchain_made [OF w made_ok [OF m2] 3]
  have "made k live ud (window_objects ws) st st'"
    using made_trans [OF made_trans [OF m1 m2] conjunct1 [OF m3]] m3 by (simp add: st window_objects_def)
  then show ?thesis by (auto simp: window_at_def made_def)
qed

lemma gone_texture:
  assumes "gpu_ok k live ud st" and "GAllocation a \<in> live (snd st)"
  shows "\<exists>s v. svma_free_texture k b a st = Some (s, v) \<and> gone k live ud {GAllocation a} st (s, v)"
  using gpu_ok_free_texture [OF assms, of b] by (auto simp: gone_def)

text \<open>The part that a change of the size and the end of a window share.\<close>

lemma window_size_change_at:
  assumes w: "win_driver w live ud" and at: "window_at k live ud L ws lost st"
    and c: "window_size_change k w rs ws e st = Some (ws', st')"
  shows "window_at k live ud L ws' (lost @ [si_view (ws_depth_image ws)]) st'"
proof -
  obtain s v where st: "st = (s, v)" by (cases st)
  let ?color = "ws_color_image ws" and ?depth = "ws_depth_image ws" and ?d = "rs_device rs"
  have ok: "gpu_ok k live ud (s, v)" and lv: "live v = L \<union> set (window_objects ws @ map GView lost)"
    and dis: "distinct (window_objects ws @ map GView lost)" and out: "set (window_objects ws @ map GView lost) \<inter> L = {}"
    using at by (simp_all add: window_at_def st)
  let ?v0 = "vkDeviceWaitIdle w v"
  let ?v1 = "vkDestroyImageView k ?d (si_view ?color) ?v0"
  note objs = window_objects_def image_objects_def swapchain_objects_def
  have g0: "gone k live ud {} (s, v) (s, ?v0)" by (rule gone_keeps [OF ok win_keeps(1) [OF w]])
  have g1: "gone k live ud {GView (si_view ?color)} (s, ?v0) (s, ?v1)"
    using g0 lv by (intro gone_view [OF gone_ok [OF g0]]) (auto simp: gone_def objs)
  note g01 = gone_trans [OF g0 g1]
  obtain s2 v2 where 2: "svma_free_texture k (si_image ?color) (si_allocation ?color) (s, ?v1) = Some (s2, v2)"
    and g2: "gone k live ud {GAllocation (si_allocation ?color)} (s, ?v1) (s2, v2)"
    using gone_texture [OF gone_ok [OF g1], of "si_allocation ?color" "si_image ?color"] g01 lv by (auto simp: gone_def objs)
  note g02 = gone_trans [OF g01 g2]
  obtain s3 v3 where 3: "svma_free_texture k (si_image ?depth) (si_allocation ?depth) (s2, v2) = Some (s3, v3)"
    and g3: "gone k live ud {GAllocation (si_allocation ?depth)} (s2, v2) (s3, v3)"
    using gone_texture [OF gone_ok [OF g2], of "si_allocation ?depth" "si_image ?depth"] g02 lv dis by (auto simp: gone_def objs)
  note g03 = gone_trans [OF g02 g3]
  let ?v4 = "fold (vkDestroyImageView k ?d) (ws_image_views ws) v3"
  have g4: "gone k live ud (GView ` set (ws_image_views ws)) (s3, v3) (s3, ?v4)"
    using g03 lv dis by (intro gone_views [OF gone_ok [OF g3]]) (auto simp: gone_def objs distinct_map)
  note g04 = gone_trans [OF g03 g4]
  let ?v5 = "vkDestroySwapchainKHR w (ws_swapchain ws) ?v4"
  have "GSwapchain (ws_swapchain ws) \<in> live ?v4" using g04 lv by (auto simp: gone_def objs)
  then have g5: "gone k live ud {GSwapchain (ws_swapchain ws)} (s3, ?v4) (s3, ?v5)"
    by (intro gone_destroys [OF gone_ok [OF g4] win_destroys(2) [OF w]]) simp_all
  note g05 = gone_trans [OF g04 g5]
  let ?v6 = "vkDestroySurfaceKHR w (ws_surface ws) ?v5"
  have "GSurface (ws_surface ws) \<in> live ?v5" using g05 lv by (auto simp: gone_def objs)
  then have g6: "gone k live ud {GSurface (ws_surface ws)} (s3, ?v5) (s3, ?v6)"
    by (intro gone_destroys [OF gone_ok [OF g5] win_destroys(1) [OF w]]) simp_all
  note g06 = gone_trans [OF g05 g6]
  obtain surface v7 where 7: "create_surface w ?v6 = (Some surface, v7)"
    using c 2 3 by (auto simp: window_size_change_def st Let_def bind_Some_iff)
  have m7: "made k live ud [GSurface surface] (s3, ?v6) (s3, v7)" by (rule made_creates [OF gone_ok [OF g6] win_creates(1) [OF w 7]]) simp
  have 8: "create_swapchain_image_views_and_framebuffers k w rs surface e (Some (ws_frame_data ws)) (s3, v7) = Some (ws', st')"
    using c 2 3 7 by (simp add: window_size_change_def st Let_def vk_made_def)
  note m8 = create_swapchain_made [OF w made_ok [OF m7] 8]
  define new where "new = GSurface surface # swapchain_objects ws' @ image_objects (ws_color_image ws') @ image_objects (ws_depth_image ws')"
  have m: "made k live ud new (s3, ?v6) st'" using made_trans [OF m7 conjunct1 [OF m8]] by (simp add: new_def)
  have same: "frames_objects ws' = frames_objects ws" "ws_surface ws' = surface" using m8 by (simp_all add: frames_objects_def)
  define kept where "kept = frames_objects ws @ map GView lost @ [GView (si_view ?depth)]"
  define old where "old = GSurface (ws_surface ws) # swapchain_objects ws @ image_objects ?color @ [GAllocation (si_allocation ?depth)]"
  have perm: "mset (window_objects ws @ map GView lost) = mset (old @ kept)"
    by (simp add: objs old_def kept_def)
  have "live ?v6 = live v - set old" using g06 by (auto simp: gone_def old_def image_objects_def swapchain_objects_def)
  moreover have "live v = L \<union> (set old \<union> set kept)" using lv mset_eq_setD [OF perm] by simp
  moreover have "distinct (old @ kept)" "set (old @ kept) \<inter> L = {}"
    using dis out mset_eq_imp_distinct_iff [OF perm] mset_eq_setD [OF perm] by simp_all
  ultimately have "live ?v6 = L \<union> set kept" "distinct kept" "set kept \<inter> L = {}" by auto
  then have "distinct (new @ kept)" "set (new @ kept) \<inter> L = {}" "live (snd st') = L \<union> set (new @ kept)" "gpu_ok k live ud st'"
    using m by (auto simp: made_def)
  moreover have perm: "mset (window_objects ws' @ map GView (lost @ [si_view ?depth])) = mset (new @ kept)"
    by (simp add: window_objects_def new_def kept_def same)
  note mset_eq_imp_distinct_iff [OF perm] mset_eq_setD [OF perm]
  ultimately show ?thesis unfolding window_at_def by simp
qed

lemma destroy_frame_gone:
  assumes w: "win_driver w live ud" and ok: "gpu_ok k live ud (s, v)"
    and l: "set (frame_objects f) \<subseteq> live v" "distinct (frame_objects f)"
  shows "gone k live ud (set (frame_objects f)) (s, v) (s, destroy_frame w f v)"
proof -
  obtain sv v1 where 1: "services_flush w (fd_services f) v = (sv, v1)" by fastforce
  let ?v2 = "vkDestroyFence w (fd_fnc_render_complete f) v1"
  let ?v3 = "vkDestroySemaphore w (fd_sem_image_available f) ?v2"
  let ?v4 = "vkDestroySemaphore w (fd_sem_present_image f) ?v3"
  let ?v5 = "vkDestroyCommandPool w (fd_command_pool f) ?v4"
  have g1: "gone k live ud {} (s, v) (s, v1)" by (rule gone_keeps [OF ok win_keeps(4) [OF w 1]])
  have "GFence (fd_fnc_render_complete f) \<in> live v1" using g1 l by (auto simp: gone_def frame_objects_def)
  then have g2: "gone k live ud {GFence (fd_fnc_render_complete f)} (s, v1) (s, ?v2)"
    by (intro gone_destroys [OF gone_ok [OF g1] win_destroys(4) [OF w]]) simp_all
  note g02 = gone_trans [OF g1 g2]
  have "GSemaphore (fd_sem_image_available f) \<in> live ?v2" using g02 l by (auto simp: gone_def frame_objects_def)
  then have g3: "gone k live ud {GSemaphore (fd_sem_image_available f)} (s, ?v2) (s, ?v3)"
    by (intro gone_destroys [OF gone_ok [OF g2] win_destroys(5) [OF w]]) simp_all
  note g03 = gone_trans [OF g02 g3]
  have "GSemaphore (fd_sem_present_image f) \<in> live ?v3" using g03 l by (auto simp: gone_def frame_objects_def)
  then have g4: "gone k live ud {GSemaphore (fd_sem_present_image f)} (s, ?v3) (s, ?v4)"
    by (intro gone_destroys [OF gone_ok [OF g3] win_destroys(5) [OF w]]) simp_all
  note g04 = gone_trans [OF g03 g4]
  have "GCommandPool (fd_command_pool f) \<in> live ?v4" using g04 l by (auto simp: gone_def frame_objects_def)
  then have g5: "gone k live ud {GCommandPool (fd_command_pool f)} (s, ?v4) (s, ?v5)"
    by (intro gone_destroys [OF gone_ok [OF g4] win_destroys(3) [OF w]]) simp_all
  have g6: "gone k live ud {} (s, ?v5) (s, services_deinit w sv ?v5)" by (rule gone_keeps [OF gone_ok [OF g5] win_keeps(5) [OF w]])
  have "gone k live ud (set (frame_objects f)) (s, v) (s, services_deinit w sv ?v5)"
    using gone_trans [OF gone_trans [OF g04 g5] g6] by (simp add: frame_objects_def insert_commute)
  then show ?thesis by (simp add: destroy_frame_def 1)
qed

lemma destroy_frames_gone:
  assumes w: "win_driver w live ud"
  shows "gpu_ok k live ud (s, v) \<Longrightarrow> set (concat (map frame_objects fs)) \<subseteq> live v \<Longrightarrow> distinct (concat (map frame_objects fs)) \<Longrightarrow>
    gone k live ud (set (concat (map frame_objects fs))) (s, v) (s, fold (destroy_frame w) fs v)"
proof (induction fs arbitrary: v)
  case Nil
  then show ?case by (simp add: gone_def)
next
  case (Cons f fs)
  have dis: "distinct (frame_objects f)" "distinct (concat (map frame_objects fs))"
    "set (frame_objects f) \<inter> set (concat (map frame_objects fs)) = {}"
    using Cons.prems(3) by simp_all
  have g: "gone k live ud (set (frame_objects f)) (s, v) (s, destroy_frame w f v)"
    using Cons.prems dis by (intro destroy_frame_gone [OF w]) simp_all
  have "set (concat (map frame_objects fs)) \<subseteq> live (destroy_frame w f v)" using g Cons.prems(2) dis(3) by (auto simp: gone_def)
  from gone_trans [OF g Cons.IH [OF gone_ok [OF g] this dis(2)]] show ?case by simp
qed

lemma window_destroy_at:
  assumes w: "win_driver w live ud" and at: "window_at k live ud L ws lost st"
  shows "\<exists>st'. on_window_component_immediate_destroy k w rs ws st = Some st' \<and> gpu_ok k live ud st' \<and>
    live (snd st') = L \<union> GView ` set lost"
proof -
  obtain s v where st: "st = (s, v)" by (cases st)
  let ?color = "ws_color_image ws" and ?depth = "ws_depth_image ws" and ?d = "rs_device rs"
  let ?F = "frames_objects ws" and ?S = "swapchain_objects ws"
  have ok: "gpu_ok k live ud (s, v)" and lv: "live v = L \<union> set (window_objects ws @ map GView lost)"
    and dis: "distinct (window_objects ws @ map GView lost)" and out: "set (window_objects ws @ map GView lost) \<inter> L = {}"
    using at by (simp_all add: window_at_def st)
  note objs = window_objects_def image_objects_def swapchain_objects_def
  let ?v0 = "vkDeviceWaitIdle w v"
  let ?v1 = "vkDestroyImageView k ?d (si_view ?color) ?v0"
  let ?v2 = "vkDestroyImageView k ?d (si_view ?depth) ?v1"
  have g0: "gone k live ud {} (s, v) (s, ?v0)" by (rule gone_keeps [OF ok win_keeps(1) [OF w]])
  have g1: "gone k live ud {GView (si_view ?color)} (s, ?v0) (s, ?v1)"
    using g0 lv by (intro gone_view [OF gone_ok [OF g0]]) (auto simp: gone_def objs)
  note g01 = gone_trans [OF g0 g1]
  have g2: "gone k live ud {GView (si_view ?depth)} (s, ?v1) (s, ?v2)"
    using g01 lv dis by (intro gone_view [OF gone_ok [OF g1]]) (auto simp: gone_def objs)
  note g02 = gone_trans [OF g01 g2]
  obtain s3 v3 where 3: "svma_free_texture k (si_image ?color) (si_allocation ?color) (s, ?v2) = Some (s3, v3)"
    and g3: "gone k live ud {GAllocation (si_allocation ?color)} (s, ?v2) (s3, v3)"
    using gone_texture [OF gone_ok [OF g2], of "si_allocation ?color" "si_image ?color"] g02 lv by (auto simp: gone_def objs)
  note g03 = gone_trans [OF g02 g3]
  obtain s4 v4 where 4: "svma_free_texture k (si_image ?depth) (si_allocation ?depth) (s3, v3) = Some (s4, v4)"
    and g4: "gone k live ud {GAllocation (si_allocation ?depth)} (s3, v3) (s4, v4)"
    using gone_texture [OF gone_ok [OF g3], of "si_allocation ?depth" "si_image ?depth"] g03 lv dis by (auto simp: gone_def objs)
  note g04 = gone_trans [OF g03 g4]
  define imgs where "imgs = image_objects ?color @ image_objects ?depth"
  have g04: "gone k live ud (set imgs) (s, v) (s4, v4)" using g04 by (simp add: imgs_def image_objects_def insert_commute)
  define rest where "rest = map GView lost"
  have perm: "mset (window_objects ws @ map GView lost) = mset (imgs @ ?F @ ?S @ [GSurface (ws_surface ws)] @ rest)"
    by (simp add: window_objects_def imgs_def rest_def)
  have all: "live v = L \<union> (set imgs \<union> set ?F \<union> set ?S \<union> {GSurface (ws_surface ws)} \<union> set rest)"
    using lv mset_eq_setD [OF perm] by auto
  have d: "distinct (imgs @ ?F @ ?S @ [GSurface (ws_surface ws)] @ rest)" "set (imgs @ ?F @ ?S @ [GSurface (ws_surface ws)] @ rest) \<inter> L = {}"
    using dis out mset_eq_imp_distinct_iff [OF perm] mset_eq_setD [OF perm] by simp_all
  have l4: "live v4 = L \<union> (set ?F \<union> set ?S \<union> {GSurface (ws_surface ws)} \<union> set rest)" using g04 all d by (auto simp: gone_def)
  let ?v5 = "fold (destroy_frame w) (ws_frame_data ws) v4"
  have g5: "gone k live ud (set ?F) (s4, v4) (s4, ?v5)"
    using l4 d unfolding frames_objects_def by (intro destroy_frames_gone [OF w gone_ok [OF g04]]) auto
  have l5: "live ?v5 = L \<union> (set ?S \<union> {GSurface (ws_surface ws)} \<union> set rest)" using g5 l4 d by (auto simp: gone_def)
  let ?v6 = "fold (vkDestroyImageView k ?d) (ws_image_views ws) ?v5"
  have S: "set ?S = insert (GSwapchain (ws_swapchain ws)) (GView ` set (ws_image_views ws))" "distinct (ws_image_views ws)"
    "GSwapchain (ws_swapchain ws) \<notin> GView ` set (ws_image_views ws)"
    using d by (auto simp: swapchain_objects_def distinct_map)
  have g6: "gone k live ud (GView ` set (ws_image_views ws)) (s4, ?v5) (s4, ?v6)"
    using l5 S(1,2) by (intro gone_views [OF gone_ok [OF g5]]) auto
  let ?v7 = "vkDestroySwapchainKHR w (ws_swapchain ws) ?v6"
  have "GSwapchain (ws_swapchain ws) \<in> live ?v6" using g6 l5 S by (auto simp: gone_def)
  then have g7: "gone k live ud {GSwapchain (ws_swapchain ws)} (s4, ?v6) (s4, ?v7)"
    by (intro gone_destroys [OF gone_ok [OF g6] win_destroys(2) [OF w]]) simp_all
  note g67 = gone_trans [OF g6 g7]
  have l7: "live ?v7 = L \<union> ({GSurface (ws_surface ws)} \<union> set rest)"
  proof -
    have "live ?v7 = live ?v5 - set ?S" using g67 S(1) by (simp add: gone_def Un_commute)
    then show ?thesis using l5 d by auto
  qed
  let ?v8 = "vkDestroySurfaceKHR w (ws_surface ws) ?v7"
  have g8: "gone k live ud {GSurface (ws_surface ws)} (s4, ?v7) (s4, ?v8)"
    using l7 by (intro gone_destroys [OF gone_ok [OF g7] win_destroys(1) [OF w]]) simp_all
  have "live ?v8 = L \<union> GView ` set lost" using g8 l7 d by (auto simp: gone_def rest_def)
  then show ?thesis using 3 4 gone_ok [OF g8] by (simp add: on_window_component_immediate_destroy_def st Let_def)
qed

lemma window_size_changes_at:
  assumes w: "win_driver w live ud"
  shows "window_at k live ud L ws lost st \<Longrightarrow> window_size_changes k w rs es ws st = Some (ws', st') \<Longrightarrow>
    \<exists>more. length more = length es \<and> window_at k live ud L ws' (lost @ more) st'"
proof (induction es arbitrary: ws lost st)
  case Nil
  then show ?case by (intro exI [of _ "[]"]) simp
next
  case (Cons e es)
  then obtain ws1 st1 where 1: "window_size_change k w rs ws e st = Some (ws1, st1)"
    "window_size_changes k w rs es ws1 st1 = Some (ws', st')"
    by (auto simp: bind_Some_iff)
  from Cons.IH [OF window_size_change_at [OF w Cons.prems(1) 1(1)] 1(2)] obtain more where
    "length more = length es" "window_at k live ud L ws' ((lost @ [si_view (ws_depth_image ws)]) @ more) st'" by blast
  then show ?case by (intro exI [of _ "si_view (ws_depth_image ws) # more"]) simp
qed

text \<open>Setting the component of a window again does nothing to one that has its surface.\<close>

lemma window_component_set_again:
  "RendererOnWindowComponentSet k w rs es st = Some (es', st') \<Longrightarrow> RendererOnWindowComponentSet k w rs es' s2 = Some (es', s2)"
  by (induction es arbitrary: st es') (auto simp: bind_Some_iff split: if_splits)

lemma window_component_set_surfaces:
  "RendererOnWindowComponentSet k w rs es st = Some (es', st') \<Longrightarrow> e \<in> set es' \<Longrightarrow> we_create_surface e \<Longrightarrow> we_surface e \<noteq> None"
  by (induction es arbitrary: st es') (auto simp: bind_Some_iff split: if_splits)

lemma size_change_not_resized:
  "\<forall>e \<in> set es. \<not> we_just_resized e \<Longrightarrow> RendererCheckWindowComponentSizeChange k w rs es st = Some (es, st)"
  by (induction es) simp_all

text \<open>C10. A window that is created, resized any number of times and destroyed leaves exactly one view of a depth image
  for every change of its size; everything else that it created is destroyed, and what existed before exists.\<close>

theorem window_leaks_depth_views:
  assumes w: "win_driver w live ud" and ok: "gpu_ok k live ud st" and set: "window_set k w rs e st = Some (ws, st1)"
    and changes: "window_size_changes k w rs es ws st1 = Some (ws', st2)"
  shows "\<exists>st3 lost. on_window_component_immediate_destroy k w rs ws' st2 = Some st3 \<and> gpu_ok k live ud st3 \<and>
    length lost = length es \<and> distinct lost \<and> GView ` set lost \<inter> live (snd st) = {} \<and>
    live (snd st3) = live (snd st) \<union> GView ` set lost"
proof -
  obtain lost where l: "length lost = length es" "window_at k live ud (live (snd st)) ws' lost st2"
    using window_size_changes_at [OF w window_set_at [OF w ok set] changes] by auto
  have "distinct lost" "GView ` set lost \<inter> live (snd st) = {}" using l(2) by (auto simp: window_at_def distinct_map)
  then show ?thesis using window_destroy_at [OF w l(2), of rs] l(1) by blast
qed

section \<open>A window on a device\<close>

definition demo_win :: "(demo_gpu_state, unit) win" where
  "demo_win = \<lparr>vkDeviceWaitIdle = (\<lambda>v. v), create_surface = demo_new GSurface, vkDestroySurfaceKHR = (\<lambda>x. demo_del (GSurface x)),
     surface_report = (\<lambda>_ _. (1, 0, [(44, 0)], [2])), vkCreateSwapchainKHR = (\<lambda>_. demo_new GSwapchain),
     vkGetSwapchainImagesKHR = (\<lambda>_ _. [100]), vkDestroySwapchainKHR = (\<lambda>x. demo_del (GSwapchain x)),
     vkCreateCommandPool = (\<lambda>_. demo_new GCommandPool), vkDestroyCommandPool = (\<lambda>x. demo_del (GCommandPool x)),
     vkAllocateCommandBuffers = (\<lambda>x v. (Some x, v)), vkCreateFence = (\<lambda>_. demo_new GFence), vkDestroyFence = (\<lambda>x. demo_del (GFence x)),
     vkCreateSemaphore = demo_new GSemaphore, vkDestroySemaphore = (\<lambda>x. demo_del (GSemaphore x)),
     services_init = (\<lambda>v. ((), v)), services_flush = (\<lambda>f v. ((), v)), services_deinit = (\<lambda>f v. v)\<rparr>"

lemma demo_win_driver: "win_driver demo_win demo_live demo_ud"
  by (auto simp: win_driver_def demo_win_def gpu_creates_def gpu_destroys_def gpu_keeps_def demo_new_def demo_del_def
      demo_live_def demo_ud_def split: if_splits prod.splits)

fun object_number :: "gpu_object \<Rightarrow> u64" where
  "object_number (GAllocation x) = x" | "object_number (GView x) = x" | "object_number (GModule x) = x"
| "object_number (GSetLayout x) = x" | "object_number (GSampler x) = x" | "object_number (GPipelineLayout x) = x"
| "object_number (GPipeline x) = x" | "object_number (GSwapchain x) = x" | "object_number (GSurface x) = x"
| "object_number (GFence x) = x" | "object_number (GSemaphore x) = x" | "object_number (GCommandPool x) = x"

definition numbered :: "nat \<Rightarrow> SVMA \<times> demo_gpu_state \<Rightarrow> bool" where
  "numbered n st \<longleftrightarrow> gpu_ok demo_gpu demo_live demo_ud st \<and> fst (snd st) = of_nat n \<and>
     (\<forall>x \<in> demo_live (snd st). unat (object_number x) < n)"

lemma small_number: "n < 1000 \<Longrightarrow> unat (of_nat n :: u64) = n"
  by (simp add: unat_of_nat take_bit_nat_eq_self)

lemma numbered_new:
  assumes n: "numbered n (s, v)" "n < 1000" and f: "object_number (f (of_nat n)) = of_nat n" "\<forall>a. f (of_nat n) \<noteq> GAllocation a"
  shows "\<exists>v'. demo_new f v = (Some (of_nat n), v') \<and> numbered (Suc n) (s, v')"
proof -
  obtain m xs u where v: "v = (m, xs, u)" by (cases v rule: prod_cases3)
  have m: "m = of_nat n" using n(1) by (simp add: numbered_def v)
  have "f (of_nat n) \<notin> set xs" using n f(1) small_number [OF n(2)] by (auto simp: numbered_def v demo_live_def)
  then have e: "demo_new f v = (Some (of_nat n), (of_nat (Suc n), f (of_nat n) # xs, u))"
    by (simp add: demo_new_def v m)
  have ne: "GAllocation a \<noteq> f (of_nat n)" for a using f(2) by metis
  have "gpu_ok demo_gpu demo_live demo_ud (s, (of_nat (Suc n), f (of_nat n) # xs, u))"
    by (rule gpu_ok_others [of _ _ _ s v]) (use n(1) ne in \<open>auto simp: numbered_def v demo_live_def demo_ud_def\<close>)
  then have "numbered (Suc n) (s, (of_nat (Suc n), f (of_nat n) # xs, u))"
    using n(1) f(1) small_number [OF n(2)] by (auto simp: numbered_def v demo_live_def less_Suc_eq)
  then show ?thesis using e by blast
qed

lemma numbered_del:
  assumes n: "numbered n (s, v)" and x: "\<forall>a. x \<noteq> GAllocation a"
  shows "numbered n (s, demo_del x v)"
proof -
  obtain m xs u where v: "v = (m, xs, u)" by (cases v rule: prod_cases3)
  have "gpu_ok demo_gpu demo_live demo_ud (s, demo_del x v)"
    by (rule gpu_ok_others [of _ _ _ s v]) (use n x in \<open>auto simp: numbered_def v demo_live_def demo_ud_def demo_del_def\<close>)
  then show ?thesis using n by (auto simp: numbered_def v demo_live_def demo_del_def)
qed

lemma numbered_del_views: "numbered n (s, v) \<Longrightarrow> numbered n (s, fold (\<lambda>x. demo_del (GView x)) xs v)"
  by (induction xs arbitrary: v) (simp_all add: numbered_del)

lemma numbered_free:
  assumes n: "numbered n st" and a: "GAllocation a \<in> demo_live (snd st)"
  shows "\<exists>s v. svma_free_texture demo_gpu b a st = Some (s, v) \<and> numbered n (s, v) \<and> demo_live v = demo_live (snd st) - {GAllocation a}"
proof -
  have "gpu_ok demo_gpu demo_live demo_ud st" using n by (simp add: numbered_def)
  from gpu_ok_free_texture [OF this, of a b] a obtain s v where f: "svma_free_texture demo_gpu b a st = Some (s, v)"
    "gpu_ok demo_gpu demo_live demo_ud (s, v)" "demo_live v = demo_live (snd st) - {GAllocation a}" by (metis snd_conv surj_pair)
  have "fst v = fst (snd st)"
    using f(1) by (auto simp: svma_free_texture_def bind_Some_iff demo_gpu_def demo_del_def Let_def split: prod.splits)
  then have "numbered n (s, v)" using n f(2,3) by (simp add: numbered_def)
  then show ?thesis using f by blast
qed

lemma numbered_image:
  assumes n: "numbered n st" "n < 900"
  shows "\<exists>i s v. surface_image demo_gpu d fmt e us as l st = Some (i, s, v) \<and> numbered (n + 2) (s, v)"
proof -
  obtain m xs u where v: "snd st = (m, xs, u)" by (cases "snd st" rule: prod_cases3)
  have m: "m = of_nat n" using n(1) by (simp add: numbered_def v)
  have big: "n < 1000" "Suc n < 1000" using n(2) by simp_all
  obtain ys where ys: "svma_at demo_live demo_ud ys st" using n(1) by (auto simp: numbered_def gpu_ok_def)
  have "GAllocation m \<notin> set xs" using n small_number [OF big(1)] by (auto simp: numbered_def v m demo_live_def)
  from demo_create_image [OF ys v this] obtain s1 v1 u1 where c: "svma_create_texture demo_gpu
      \<lparr>ici_format = fmt, ici_extent = \<lparr>ext_width = fst e, ext_height = snd e, ext_depth = 1\<rparr>, ici_usage = us, ici_mipLevels = 1\<rparr>
      \<lparr>aci_usage = VMA_MEMORY_USAGE_GPU_ONLY, aci_flags = 0, aci_requiredFlags = VK_MEMORY_PROPERTY_DEVICE_LOCAL_BIT\<rparr>
      \<lparr>tr_file = ''renderer.c'', tr_line = l\<rparr> st = Some ((m, m), s1, v1)" "v1 = (m + 1, GAllocation m # xs, u1)"
    by (metis prod.collapse)
  have "gpu_ok demo_gpu demo_live demo_ud st" using n(1) by (simp add: numbered_def)
  from gpu_ok_create_texture [OF this c(1)] have "numbered (Suc n) (s1, v1)"
    using n(1) small_number [OF big(1)] by (auto simp: numbered_def v m c(2) demo_live_def less_Suc_eq)
  from numbered_new [OF this big(2), of GView] obtain v2 where "demo_new GView v1 = (Some (of_nat (Suc n)), v2)" "numbered (n + 2) (s1, v2)"
    by (auto simp: eval_nat_numeral)
  moreover have "vkCreateImageView demo_gpu = (\<lambda>_ _ _ _. demo_new GView)" by (simp add: demo_gpu_def)
  ultimately show ?thesis using c(1) by (simp add: surface_image_def)
qed

definition demo_setup :: render_setup where
  "demo_setup = \<lparr>rs_device = 0, rs_graphics = 0, rs_presentation = 1, rs_color_image_format = 97, rs_depth_image_format = 126,
     rs_inflight_frame_count = 1\<rparr>"

lemma demo_frames:
  assumes n: "numbered n (s, v)" "n < 900"
  shows "\<exists>fs v' m. (case frames of
        None \<Rightarrow> rebuild_frame_data demo_win (rs_graphics demo_setup) (rs_inflight_frame_count demo_setup) v | Some fs \<Rightarrow> Some (fs, v)) = Some (fs, v') \<and>
      numbered m (s, v') \<and> m \<le> n + 4"
proof (cases frames)
  case (Some fs)
  then show ?thesis using n(1) by (intro exI [of _ fs] exI [of _ v] exI [of _ n]) simp
next
  case None
  have big: "n < 1000" "Suc n < 1000" "Suc (Suc n) < 1000" "Suc (Suc (Suc n)) < 1000" using n(2) by simp_all
  obtain v3 where 3: "demo_new GCommandPool v = (Some (of_nat n), v3)" "numbered (Suc n) (s, v3)"
    using numbered_new [OF n(1) big(1), of GCommandPool] by auto
  obtain v4 where 4: "demo_new GFence v3 = (Some (of_nat (Suc n)), v4)" "numbered (Suc (Suc n)) (s, v4)"
    using numbered_new [OF 3(2) big(2), of GFence] by auto
  obtain v5 where 5: "demo_new GSemaphore v4 = (Some (of_nat (Suc (Suc n))), v5)" "numbered (Suc (Suc (Suc n))) (s, v5)"
    using numbered_new [OF 4(2) big(3), of GSemaphore] by auto
  obtain v6 where 6: "demo_new GSemaphore v5 = (Some (of_nat (Suc (Suc (Suc n)))), v6)" "numbered (Suc (Suc (Suc (Suc n)))) (s, v6)"
    using numbered_new [OF 5(2) big(4), of GSemaphore] by auto
  have "\<exists>fs. rebuild_frame_data demo_win 0 (Suc 0) v = Some (fs, v6)"
    using 3(1) 4(1) 5(1) 6(1) by (simp add: new_frame_def demo_win_def)
  then obtain fs where "rebuild_frame_data demo_win 0 (Suc 0) v = Some (fs, v6)" ..
  then show ?thesis using 6(2) None
    by (intro exI [of _ fs] exI [of _ v6] exI [of _ "Suc (Suc (Suc (Suc n)))"]) (simp add: demo_setup_def del: rebuild_frame_data.simps)
qed

lemma demo_swapchain:
  assumes n: "numbered n (s, v)" "n < 800"
  shows "\<exists>ws s' v'. create_swapchain_image_views_and_framebuffers demo_gpu demo_win demo_setup surface e frames (s, v) = Some (ws, s', v') \<and>
    (\<exists>m. numbered m (s', v') \<and> m \<le> n + 10)"
proof -
  have big: "n < 1000" "Suc n < 1000" "Suc (Suc n) < 1000" "Suc (Suc (Suc n)) < 1000" "Suc (Suc (Suc (Suc n))) < 1000"
    "Suc (Suc (Suc (Suc (Suc n)))) < 1000" using n(2) by simp_all
  obtain v1 where 1: "demo_new GSwapchain v = (Some (of_nat n), v1)" "numbered (Suc n) (s, v1)"
    using numbered_new [OF n(1) big(1), of GSwapchain] by auto
  obtain v2 where 2: "demo_new GView v1 = (Some (of_nat (Suc n)), v2)" "numbered (Suc (Suc n)) (s, v2)"
    using numbered_new [OF 1(2) big(2), of GView] by auto
  have "Suc (Suc n) < 900" using n(2) by simp
  from demo_frames [OF 2(2) this, of frames] obtain fs v6 m where 6: "(case frames of
      None \<Rightarrow> rebuild_frame_data demo_win (rs_graphics demo_setup) (rs_inflight_frame_count demo_setup) v2
    | Some fs \<Rightarrow> Some (fs, v2)) = Some (fs, v6)" "numbered m (s, v6)" and "m \<le> Suc (Suc n) + 4" by blast
  then have m: "m \<le> n + 6" "m < 900" "m + 2 < 900" using n(2) by simp_all
  obtain color s7 v7 where 7: "surface_image demo_gpu 0 97 e
      (VK_IMAGE_USAGE_TRANSFER_SRC_BIT OR VK_IMAGE_USAGE_TRANSFER_DST_BIT OR VK_IMAGE_USAGE_COLOR_ATTACHMENT_BIT
        OR VK_IMAGE_USAGE_STORAGE_BIT) VK_IMAGE_ASPECT_COLOR_BIT 1416 (s, v6) = Some (color, s7, v7)" "numbered (m + 2) (s7, v7)"
    using numbered_image [OF 6(2) m(2)] by blast
  obtain depth s8 v8 where 8: "surface_image demo_gpu 0 126 e
      VK_IMAGE_USAGE_DEPTH_STENCIL_ATTACHMENT_BIT VK_IMAGE_ASPECT_DEPTH_BIT 1471 (s7, v7) = Some (depth, s8, v8)" "numbered (m + 2 + 2) (s8, v8)"
    using numbered_image [OF 7(2) m(3)] by blast
  have fm: "choose_surface_format [(44, 0)] = Some (44, 0)" "choose_present_mode [2] = Some 2"
    by (simp_all add: choose_surface_format_def choose_present_mode_def Preferred_Surface_Formats_def Preferred_Present_Modes_def
        VK_FORMAT_B8G8R8A8_UNORM_def VK_FORMAT_UNDEFINED_def VK_COLOR_SPACE_SRGB_NONLINEAR_KHR_def VK_PRESENT_MODE_MAILBOX_KHR_def
        VK_PRESENT_MODE_FIFO_KHR_def)
  have r: "surface_report demo_win x y = (1, 0, [(44, 0)], [2])" "vkCreateSwapchainKHR demo_win i = demo_new GSwapchain"
    "vkGetSwapchainImagesKHR demo_win x y = [100]" "vkCreateImageView demo_gpu = (\<lambda>_ _ _ _. demo_new GView)" for x y i
    by (simp_all add: demo_win_def demo_gpu_def)
  have rsd: "rs_device demo_setup = 0" "rs_color_image_format demo_setup = 97" "rs_depth_image_format demo_setup = 126"
    by (simp_all add: demo_setup_def)
  obtain ws where "create_swapchain_image_views_and_framebuffers demo_gpu demo_win demo_setup surface e frames (s, v) = Some (ws, s8, v8)"
    using 1(1) 2(1) 6(1) 7(1) 8(1) unfolding create_swapchain_image_views_and_framebuffers_def
    by (simp add: r fm rsd)
  then show ?thesis using 8(2) m(1) by (intro exI [of _ ws] exI [of _ s8] exI [of _ v8]) auto
qed

lemma demo_size_change:
  assumes n: "numbered n st" "n < 700" and at: "window_at demo_gpu demo_live demo_ud L ws lost st"
  shows "\<exists>ws' st' m. window_size_change demo_gpu demo_win demo_setup ws e st = Some (ws', st') \<and> numbered m st' \<and> m \<le> n + 11"
proof -
  obtain s v where st: "st = (s, v)" by (cases st)
  let ?color = "ws_color_image ws" and ?depth = "ws_depth_image ws"
  let ?v1 = "demo_del (GView (si_view ?color)) v"
  have n1: "numbered n (s, ?v1)" using n(1) by (simp add: st numbered_del)
  have a: "GAllocation (si_allocation ?color) \<in> demo_live ?v1" "GAllocation (si_allocation ?depth) \<in> demo_live ?v1"
    "si_allocation ?color \<noteq> si_allocation ?depth"
    using at by (auto simp: window_at_def window_objects_def image_objects_def st demo_live_def demo_del_def split: prod.splits)
  obtain s2 v2 where 2: "svma_free_texture demo_gpu (si_image ?color) (si_allocation ?color) (s, ?v1) = Some (s2, v2)"
    "numbered n (s2, v2)" "demo_live v2 = demo_live ?v1 - {GAllocation (si_allocation ?color)}"
    using numbered_free [OF n1, of "si_allocation ?color" "si_image ?color"] a(1) by (metis snd_conv)
  obtain s3 v3 where 3: "svma_free_texture demo_gpu (si_image ?depth) (si_allocation ?depth) (s2, v2) = Some (s3, v3)"
    "numbered n (s3, v3)"
    using numbered_free [OF 2(2), of "si_allocation ?depth" "si_image ?depth"] 2(3) a(2,3) by auto
  let ?v6 = "demo_del (GSurface (ws_surface ws)) (demo_del (GSwapchain (ws_swapchain ws))
    (fold (\<lambda>x. demo_del (GView x)) (ws_image_views ws) v3))"
  have n6: "numbered n (s3, ?v6)" by (intro numbered_del numbered_del_views 3(2)) simp_all
  have "n < 1000" "Suc n < 800" using n(2) by simp_all
  then obtain v7 where 7: "demo_new GSurface ?v6 = (Some (of_nat n), v7)" "numbered (Suc n) (s3, v7)"
    using numbered_new [OF n6, of GSurface] by auto
  obtain ws' st' m where 8: "create_swapchain_image_views_and_framebuffers demo_gpu demo_win demo_setup (of_nat n) e (Some (ws_frame_data ws)) (s3, v7) = Some (ws', st')"
    "numbered m st'" "m \<le> Suc n + 10"
    using demo_swapchain [OF 7(2) \<open>Suc n < 800\<close>] by blast
  have r: "vkDeviceWaitIdle demo_win v = v" "vkDestroyImageView demo_gpu d = (\<lambda>x. demo_del (GView x))"
    "vkDestroySwapchainKHR demo_win x = demo_del (GSwapchain x)" "vkDestroySurfaceKHR demo_win x = demo_del (GSurface x)"
    "create_surface demo_win = demo_new GSurface" for d x
    by (simp_all add: demo_win_def demo_gpu_def)
  show ?thesis using 2(1) 3(1) 7(1) 8 by (intro exI [of _ ws'] exI [of _ st'] exI [of _ m]) (simp add: window_size_change_def st r Let_def)
qed

lemma demo_window_set:
  assumes n: "numbered n st" "n < 700"
  shows "\<exists>ws st' m. window_set demo_gpu demo_win demo_setup e st = Some (ws, st') \<and> numbered m st' \<and> m \<le> n + 11"
proof -
  obtain s v where st: "st = (s, v)" by (cases st)
  have b: "n < 1000" "Suc n < 800" using n(2) by simp_all
  obtain v1 where 1: "demo_new GSurface v = (Some (of_nat n), v1)" "numbered (Suc n) (s, v1)"
    using numbered_new [OF n(1) [unfolded st] b(1), of GSurface] by auto
  obtain ws s' v' m where 2: "create_swapchain_image_views_and_framebuffers demo_gpu demo_win demo_setup (of_nat n) e None (s, v1) = Some (ws, s', v')"
    "numbered m (s', v')" "m \<le> Suc n + 10"
    using demo_swapchain [OF 1(2) b(2)] by blast
  have r: "vkDeviceWaitIdle demo_win v = v" "create_surface demo_win = demo_new GSurface" for v
    by (simp_all add: demo_win_def)
  show ?thesis using 1(1) 2 by (intro exI [of _ ws] exI [of _ "(s', v')"] exI [of _ m]) (simp add: window_set_def st r)
qed

text \<open>A window on a new device.\<close>

lemma demo_window:
  "\<exists>st0 ws st1 m. svma_init demo_gpu svma_create demo_info demo_v0 = Some (0, st0) \<and> demo_live (snd st0) = {} \<and>
    gpu_ok demo_gpu demo_live demo_ud st0 \<and> window_set demo_gpu demo_win demo_setup e st0 = Some (ws, st1) \<and> numbered m st1 \<and> m \<le> 12 \<and>
    window_at demo_gpu demo_live demo_ud {} ws [] st1"
proof -
  obtain c0 where i: "svma_init demo_gpu svma_create demo_info demo_v0 = Some (0, c0, 1, [], \<lambda>_. 0)"
    by (simp add: svma_init_def svma_create_def demo_gpu_def demo_info_def demo_v0_def array_init_def vd_array_grow_def
        array_len_def array_cap_def Let_def)
  let ?st0 = "(c0, 1, [], \<lambda>_. 0) :: SVMA \<times> demo_gpu_state"
  have none: "demo_live demo_v0 = {}" by (simp add: demo_v0_def demo_live_def)
  have n0: "numbered 1 ?st0"
    using svma_init_at [OF demo_gpu_driver _ _ i] by (auto simp: numbered_def gpu_ok_def demo_gpu_driver demo_info_def demo_v0_def demo_live_def)
  have "(1::nat) < 700" by simp
  from demo_window_set [OF n0 this, of e] obtain ws st1 m where
    1: "window_set demo_gpu demo_win demo_setup e ?st0 = Some (ws, st1)" "numbered m st1" "m \<le> 1 + 11" by blast
  then have m: "m < 700" by simp
  have ok: "gpu_ok demo_gpu demo_live demo_ud ?st0" using n0 by (simp add: numbered_def)
  note at = window_set_at [OF demo_win_driver ok 1(1)]
  show ?thesis using i 1 ok at none
    by (intro exI [of _ ?st0] exI [of _ ws] exI [of _ st1] exI [of _ m]) (simp add: demo_v0_def demo_live_def)
qed

theorem window_leaks_depth_views_witness:
  "\<exists>st0 ws st1 ws' st2 st3 x. svma_init demo_gpu svma_create demo_info demo_v0 = Some (0, st0) \<and>
    window_set demo_gpu demo_win demo_setup (8, 6) st0 = Some (ws, st1) \<and>
    window_size_changes demo_gpu demo_win demo_setup [(4, 3)] ws st1 = Some (ws', st2) \<and>
    on_window_component_immediate_destroy demo_gpu demo_win demo_setup ws' st2 = Some st3 \<and> demo_live (snd st3) = {GView x}"
proof -
  obtain st0 ws st1 m where i: "svma_init demo_gpu svma_create demo_info demo_v0 = Some (0, st0)" "demo_live (snd st0) = {}"
    "gpu_ok demo_gpu demo_live demo_ud st0" "window_set demo_gpu demo_win demo_setup (8, 6) st0 = Some (ws, st1)" "numbered m st1" "m \<le> 12"
    "window_at demo_gpu demo_live demo_ud {} ws [] st1" using demo_window by metis
  have "m < 700" using i(6) by simp
  from demo_size_change [OF i(5) this i(7)] obtain ws' st2 where
    "window_size_change demo_gpu demo_win demo_setup ws (4, 3) st1 = Some (ws', st2)" by blast
  then have c: "window_size_changes demo_gpu demo_win demo_setup [(4, 3)] ws st1 = Some (ws', st2)" by simp
  obtain st3 lost where 3: "on_window_component_immediate_destroy demo_gpu demo_win demo_setup ws' st2 = Some st3"
    "length lost = length [(4, 3) :: u32 \<times> u32]" "demo_live (snd st3) = demo_live (snd st0) \<union> GView ` set lost"
    using window_leaks_depth_views [OF demo_win_driver i(3,4) c] by blast
  obtain x where "lost = [x]" using 3(2) by (auto simp: length_Suc_conv)
  then have d: "demo_live (snd st3) = {GView x}" using 3(3) i(2) by simp
  show ?thesis by (intro exI conjI) (rule i(1,4) c 3(1) d)+
qed

end
