(* ===== verification/Frame.thy ===== *)
theory Frame
  imports Window Texload Smatset
begin

text \<open>
  Drawing to a window, of ng/src/renderer.c: the commands that a frame records, and the loop over the frames in flight
  with the device that runs them on its own. The numbers of the camera are computed in floating point and are an
  argument: the scene as it is written to the uniform buffer.
\<close>

section \<open>Definitions\<close>

definition VK_IMAGE_LAYOUT_GENERAL :: u32 where "VK_IMAGE_LAYOUT_GENERAL = 1"
definition VK_IMAGE_LAYOUT_COLOR_ATTACHMENT_OPTIMAL :: u32 where "VK_IMAGE_LAYOUT_COLOR_ATTACHMENT_OPTIMAL = 2"
definition VK_IMAGE_LAYOUT_TRANSFER_SRC_OPTIMAL :: u32 where "VK_IMAGE_LAYOUT_TRANSFER_SRC_OPTIMAL = 6"
definition VK_IMAGE_LAYOUT_PRESENT_SRC_KHR :: u32 where "VK_IMAGE_LAYOUT_PRESENT_SRC_KHR = 1000001002"

datatype frame_command =
    CmdBarrier command
  | CmdClearColorImage u64 u32
  | CmdBeginRendering "u32 \<times> u32" "u64 \<times> u32" "u64 \<times> u32"
  | CmdSetViewport "u32 \<times> u32"
  | CmdBindPipeline u64
  | CmdSetScissor "u32 \<times> u32" "u32 \<times> u32"
  | CmdPushConstants u64 u32 "u8 list"
  | CmdBindDescriptorSets u64 "nat option" "nat option"
  | CmdBindIndexBuffer u64
  | CmdDrawIndexed u32 u32
  | CmdEndRendering
  | CmdBlitImage "u64 \<times> u32" "u64 \<times> u32" "u32 \<times> u32" "u32 \<times> u32"

definition vd_vk_image_copy :: "u64 \<Rightarrow> u64 \<Rightarrow> u32 \<times> u32 \<Rightarrow> u32 \<times> u32 \<Rightarrow> frame_command" where
  "vd_vk_image_copy src_image dst_image src_size dst_size =
     CmdBlitImage (src_image, VK_IMAGE_LAYOUT_TRANSFER_SRC_OPTIMAL) (dst_image, VK_IMAGE_LAYOUT_TRANSFER_DST_OPTIMAL) src_size dst_size"

text \<open>The bytes of the push constant, and the scissor if it is a custom one, as it is converted to integers.\<close>

record RenderObject =
  ro_mesh :: vd_handle
  ro_material :: vd_handle
  ro_push_constant :: "u8 list"
  ro_index_count :: u32
  ro_first_index :: u32
  ro_scissor :: "((u32 \<times> u32) \<times> (u32 \<times> u32)) option"

text \<open>What a render object is resolved to, and what is recorded for it.\<close>

record draw =
  dr_blueprint :: GPUMaterialBlueprint
  dr_instance :: GPUMaterialInstance
  dr_mesh :: gpu_mesh
  dr_object :: RenderObject

definition draw_commands :: "u32 \<times> u32 \<Rightarrow> draw \<Rightarrow> frame_command list" where
  "draw_commands extent dr =
     (let ro = dr_object dr; blueprint = dr_blueprint dr in
      [CmdBindPipeline (mb_pipeline blueprint),
       (case ro_scissor ro of
          Some (offset, size') \<Rightarrow> CmdSetScissor offset size'
        | None \<Rightarrow> CmdSetScissor (0, 0) extent),
       CmdPushConstants (mb_layout blueprint) (vd_shader_stage_to_vk_shader_stage (pc_stage (mb_push_constant_info blueprint))) (ro_push_constant ro),
       CmdBindDescriptorSets (mb_layout blueprint) (gi_default_set (dr_instance dr)) (gi_property_set (dr_instance dr)),
       CmdBindIndexBuffer (gm_index_buffer (dr_mesh dr)),
       CmdDrawIndexed (ro_index_count ro) (ro_first_index ro)])"

text \<open>The systems that the loop over the render objects reads, and the properties of set 0: the scene.\<close>

record 'v draw_env =
  de_sets :: "'v vk_descriptors"
  de_set_gpu :: "'v set_gpu"
  de_textures :: vd_handlemap
  de_meshes :: vd_handlemap
  de_smat :: SMat
  de_blocks :: blocks
  de_scene :: "MaterialProperty list"

definition resolve :: "'v gpu \<Rightarrow> 'v draw_env \<Rightarrow> RenderObject \<Rightarrow> VD_DescriptorAllocator \<Rightarrow> SVMA \<times> 'v
     \<Rightarrow> (draw \<times> VD_DescriptorAllocator \<times> SVMA \<times> 'v) option" where
  "resolve k e ro d st =
     (let s = de_smat e in
      do { slot \<leftarrow> vd_handle_use (sm_materials s) (ro_material ro);
           i \<leftarrow> slot;
           m \<leftarrow> hm_metadata (sm_materials s) i;
           slot' \<leftarrow> vd_handle_use (sm_blueprints s) (ma_blueprint (material_at (hs_value m)));
           j \<leftarrow> slot';
           b \<leftarrow> hm_metadata (sm_blueprints s) j;
           (instance', d1, st1) \<leftarrow> smat_prep (de_sets e) k (de_set_gpu e) (de_textures e) s d (de_blocks e) (ro_material ro) (de_scene e) st;
           slot'' \<leftarrow> vd_handle_use (de_meshes e) (ro_mesh ro);
           l \<leftarrow> slot'';
           g \<leftarrow> hm_metadata (de_meshes e) l;
           Some (\<lparr>dr_blueprint = blueprint_at (hs_value b), dr_instance = instance', dr_mesh = mesh_of (hs_value g), dr_object = ro\<rparr>, d1, st1) })"

fun draw_loop :: "'v gpu \<Rightarrow> 'v draw_env \<Rightarrow> u32 \<times> u32 \<Rightarrow> RenderObject list \<Rightarrow> VD_DescriptorAllocator \<Rightarrow> SVMA \<times> 'v
     \<Rightarrow> (frame_command list \<times> VD_DescriptorAllocator \<times> SVMA \<times> 'v) option" where
  "draw_loop k e extent [] d st = Some ([], d, st)"
| "draw_loop k e extent (ro # ros) d st =
     do { (dr, d1, st1) \<leftarrow> resolve k e ro d st;
          (cmds, d2, st2) \<leftarrow> draw_loop k e extent ros d1 st1;
          Some (draw_commands extent dr @ cmds, d2, st2) }"

text \<open>All commands of a frame, for an image of the swapchain.\<close>

definition begin_commands :: "'f WindowSurfaceComponent \<Rightarrow> frame_command list" where
  "begin_commands ws =
     (let color = ws_color_image ws; depth = ws_depth_image ws in
      [CmdBarrier (vd_vk_image_transition (si_image color) VK_IMAGE_LAYOUT_UNDEFINED VK_IMAGE_LAYOUT_GENERAL),
       CmdClearColorImage (si_image color) VK_IMAGE_LAYOUT_GENERAL,
       CmdBarrier (vd_vk_image_transition (si_image color) VK_IMAGE_LAYOUT_GENERAL VK_IMAGE_LAYOUT_COLOR_ATTACHMENT_OPTIMAL),
       CmdBarrier (vd_vk_image_transition (si_image depth) VK_IMAGE_LAYOUT_UNDEFINED VK_IMAGE_LAYOUT_DEPTH_ATTACHMENT_OPTIMAL),
       CmdBeginRendering (ws_extent ws) (si_view color, VK_IMAGE_LAYOUT_COLOR_ATTACHMENT_OPTIMAL)
         (si_view depth, VK_IMAGE_LAYOUT_DEPTH_ATTACHMENT_OPTIMAL),
       CmdSetViewport (ws_extent ws)])"

definition end_commands :: "'f WindowSurfaceComponent \<Rightarrow> u64 \<Rightarrow> frame_command list" where
  "end_commands ws img =
     (let color = ws_color_image ws in
      [CmdEndRendering,
       CmdBarrier (vd_vk_image_transition (si_image color) VK_IMAGE_LAYOUT_COLOR_ATTACHMENT_OPTIMAL VK_IMAGE_LAYOUT_TRANSFER_SRC_OPTIMAL),
       CmdBarrier (vd_vk_image_transition img VK_IMAGE_LAYOUT_UNDEFINED VK_IMAGE_LAYOUT_TRANSFER_DST_OPTIMAL),
       vd_vk_image_copy (si_image color) img (ws_extent ws) (ws_extent ws),
       CmdBarrier (vd_vk_image_transition img VK_IMAGE_LAYOUT_TRANSFER_DST_OPTIMAL VK_IMAGE_LAYOUT_PRESENT_SRC_KHR)])"

definition record_frame :: "'f WindowSurfaceComponent \<Rightarrow> nat \<Rightarrow> frame_command list \<Rightarrow> frame_command list option" where
  "record_frame ws swapchain_image_idx draws =
     (if swapchain_image_idx < length (ws_images ws)
      then Some (begin_commands ws @ draws @ end_commands ws (ws_images ws ! swapchain_image_idx)) else None)"

text \<open>The calls that only this function makes; \<open>None\<close> is a result that is not a success, at which the program aborts.
  The result of \<open>present\<close> is not looked at.\<close>

record 'v frame_gpu =
  vkWaitForFences :: "u64 \<Rightarrow> 'v \<Rightarrow> 'v option"
  vkResetFences :: "u64 \<Rightarrow> 'v \<Rightarrow> 'v option"
  vkAcquireNextImageKHR :: "u64 \<Rightarrow> u64 \<Rightarrow> 'v \<Rightarrow> (nat \<times> 'v) option"
  reset_and_begin :: "u64 \<Rightarrow> 'v \<Rightarrow> 'v option"
  submit_frame :: "u64 \<Rightarrow> frame_command list \<Rightarrow> u64 \<Rightarrow> u64 \<Rightarrow> u64 \<Rightarrow> 'v \<Rightarrow> 'v option"
  vkQueuePresentKHR :: "u64 \<Rightarrow> nat \<Rightarrow> u64 \<Rightarrow> 'v \<Rightarrow> 'v"

definition render_window_surface ::
  "'v gpu \<Rightarrow> ('v, VD_DescriptorAllocator \<times> 'q) win \<Rightarrow> 'v frame_gpu \<Rightarrow> 'v draw_env \<Rightarrow> RenderObject list
     \<Rightarrow> (VD_DescriptorAllocator \<times> 'q) WindowSurfaceComponent \<Rightarrow> SVMA \<times> 'v
     \<Rightarrow> ((VD_DescriptorAllocator \<times> 'q) WindowSurfaceComponent \<times> SVMA \<times> 'v) option" where
  "render_window_surface k w fg e render_list ws st =
     (let (s, v) = st in
      if ws_frame_data ws = [] \<or> ws_current_frame ws \<ge> 2 ^ 31 - 1 then None
      else
        (let fi = ws_current_frame ws mod length (ws_frame_data ws); f = ws_frame_data ws ! fi in
         do { v1 \<leftarrow> vkWaitForFences fg (fd_fnc_render_complete f) v;
              v2 \<leftarrow> vkResetFences fg (fd_fnc_render_complete f) v1;
              (d, v3) \<leftarrow> smat_begin_frame (de_sets e) (fst (fd_services f)) v2;
              let (services, v4) = services_flush w (d, snd (fd_services f)) v3;
              (idx, v5) \<leftarrow> vkAcquireNextImageKHR fg (ws_swapchain ws) (fd_sem_image_available f) v4;
              v6 \<leftarrow> reset_and_begin fg (fd_command_buffer f) v5;
              (draws, d', s', v7) \<leftarrow> draw_loop k e (ws_extent ws) render_list (fst services) (s, v6);
              cmds \<leftarrow> record_frame ws idx draws;
              v8 \<leftarrow> submit_frame fg (fd_command_buffer f) cmds (fd_sem_image_available f) (fd_sem_present_image f) (fd_fnc_render_complete f) v7;
              let v9 = vkQueuePresentKHR fg (ws_swapchain ws) idx (fd_sem_present_image f) v8;
              Some (ws\<lparr>ws_current_frame := ws_current_frame ws + 1,
                       ws_frame_data := (ws_frame_data ws)[fi := f\<lparr>fd_services := (d', snd services)\<rparr>]\<rparr>, s', v9) }))"

text \<open>Every window is drawn and its list of objects is emptied.\<close>

definition vd_renderer_push_render_object :: "RenderObject list \<Rightarrow> RenderObject \<Rightarrow> RenderObject list" where
  "vd_renderer_push_render_object render_list ro = render_list @ [ro]"

fun RendererRenderToWindowSurfaceComponents ::
  "'v gpu \<Rightarrow> ('v, VD_DescriptorAllocator \<times> 'q) win \<Rightarrow> 'v frame_gpu \<Rightarrow> 'v draw_env
     \<Rightarrow> ((VD_DescriptorAllocator \<times> 'q) WindowSurfaceComponent \<times> RenderObject list) list \<Rightarrow> SVMA \<times> 'v
     \<Rightarrow> (((VD_DescriptorAllocator \<times> 'q) WindowSurfaceComponent \<times> RenderObject list) list \<times> SVMA \<times> 'v) option" where
  "RendererRenderToWindowSurfaceComponents k w fg e [] st = Some ([], st)"
| "RendererRenderToWindowSurfaceComponents k w fg e ((ws, render_list) # wss) st =
     do { (ws', st1) \<leftarrow> render_window_surface k w fg e render_list ws st;
          (wss', st2) \<leftarrow> RendererRenderToWindowSurfaceComponents k w fg e wss st1;
          Some ((ws', []) # wss', st2) }"

section \<open>What a command buffer needs\<close>

text \<open>The rules of Vulkan for these commands: the layout of an image is the one that a command names, what is outside of a
  rendering stays outside, and a draw has everything bound. \<open>view_image\<close> is the image of a view and \<open>aspect\<close> what an
  image has.\<close>

record exec =
  ex_layout :: "u64 \<Rightarrow> u32"
  ex_rendering :: bool
  ex_viewport :: bool
  ex_scissor :: bool
  ex_pipeline :: bool
  ex_sets :: bool
  ex_index :: bool
  ex_draws :: "(u32 \<times> u32) list"

definition exec_start :: "(u64 \<Rightarrow> u32) \<Rightarrow> exec" where
  "exec_start layout = \<lparr>ex_layout = layout, ex_rendering = False, ex_viewport = False, ex_scissor = False, ex_pipeline = False,
     ex_sets = False, ex_index = False, ex_draws = []\<rparr>"

fun exec_barrier :: "(u64 \<Rightarrow> u32) \<Rightarrow> command \<Rightarrow> exec \<Rightarrow> exec option" where
  "exec_barrier aspect (CmdImageBarrier b) x =
     (if \<not> ex_rendering x \<and> imb_aspectMask b = aspect (imb_image b) \<and>
         (imb_oldLayout b = VK_IMAGE_LAYOUT_UNDEFINED \<or> imb_oldLayout b = ex_layout x (imb_image b))
      then Some (x\<lparr>ex_layout := (ex_layout x)(imb_image b := imb_newLayout b)\<rparr>) else None)"
| "exec_barrier aspect c x = None"

fun exec_command :: "(u64 \<Rightarrow> u64) \<Rightarrow> (u64 \<Rightarrow> u32) \<Rightarrow> frame_command \<Rightarrow> exec \<Rightarrow> exec option" where
  "exec_command view_image aspect (CmdBarrier c) x = exec_barrier aspect c x"
| "exec_command view_image aspect (CmdClearColorImage i l) x =
     (if \<not> ex_rendering x \<and> ex_layout x i = l \<and> l = VK_IMAGE_LAYOUT_GENERAL then Some x else None)"
| "exec_command view_image aspect (CmdBeginRendering extent (cv, cl) (dv, dl)) x =
     (if \<not> ex_rendering x \<and> ex_layout x (view_image cv) = cl \<and> ex_layout x (view_image dv) = dl
      then Some (x\<lparr>ex_rendering := True\<rparr>) else None)"
| "exec_command view_image aspect (CmdSetViewport extent) x = Some (x\<lparr>ex_viewport := True\<rparr>)"
| "exec_command view_image aspect (CmdBindPipeline p) x = Some (x\<lparr>ex_pipeline := True\<rparr>)"
| "exec_command view_image aspect (CmdSetScissor o' e) x = Some (x\<lparr>ex_scissor := True\<rparr>)"
| "exec_command view_image aspect (CmdPushConstants l stages bytes) x = Some x"
| "exec_command view_image aspect (CmdBindDescriptorSets l s0 s1) x = Some (x\<lparr>ex_sets := True\<rparr>)"
| "exec_command view_image aspect (CmdBindIndexBuffer b) x = Some (x\<lparr>ex_index := True\<rparr>)"
| "exec_command view_image aspect (CmdDrawIndexed n first) x =
     (if ex_rendering x \<and> ex_viewport x \<and> ex_scissor x \<and> ex_pipeline x \<and> ex_sets x \<and> ex_index x
      then Some (x\<lparr>ex_draws := ex_draws x @ [(n, first)]\<rparr>) else None)"
| "exec_command view_image aspect CmdEndRendering x = (if ex_rendering x then Some (x\<lparr>ex_rendering := False\<rparr>) else None)"
| "exec_command view_image aspect (CmdBlitImage (src, sl) (dst, dl) se de) x =
     (if \<not> ex_rendering x \<and> ex_layout x src = sl \<and> ex_layout x dst = dl then Some x else None)"

fun exec_all :: "(u64 \<Rightarrow> u64) \<Rightarrow> (u64 \<Rightarrow> u32) \<Rightarrow> frame_command list \<Rightarrow> exec \<Rightarrow> exec option" where
  "exec_all view_image aspect [] x = Some x"
| "exec_all view_image aspect (c # cs) x = do { y \<leftarrow> exec_command view_image aspect c x; exec_all view_image aspect cs y }"

lemma exec_all_append:
  "exec_all vi a (cs @ ds) x = do { y \<leftarrow> exec_all vi a cs x; exec_all vi a ds y }"
proof (induction cs arbitrary: x)
  case Nil
  then show ?case by simp
next
  case (Cons c cs)
  then show ?case by (cases "exec_command vi a c x") simp_all
qed

section \<open>The commands of a frame\<close>

definition draw_of :: "RenderObject \<Rightarrow> u32 \<times> u32" where
  "draw_of ro = (ro_index_count ro, ro_first_index ro)"

lemma draw_loop_draws:
  "draw_loop k e extent ros d st = Some (cmds, d', st') \<Longrightarrow>
     \<exists>ds. cmds = concat (map (draw_commands extent) ds) \<and> map dr_object ds = ros"
proof (induction ros arbitrary: d st cmds)
  case Nil
  then show ?case by simp
next
  case (Cons ro ros)
  then obtain dr d1 st1 cmds' where 1: "resolve k e ro d st = Some (dr, d1, st1)" "draw_loop k e extent ros d1 st1 = Some (cmds', d', st')"
    "cmds = draw_commands extent dr @ cmds'"
    by (auto simp: bind_Some_iff)
  have "dr_object dr = ro" using 1(1) by (auto simp: resolve_def Let_def bind_Some_iff)
  moreover obtain ds where "cmds' = concat (map (draw_commands extent) ds)" "map dr_object ds = ros" using Cons.IH [OF 1(2)] by blast
  ultimately show ?case using 1(3) by (intro exI [of _ "dr # ds"]) simp
qed

text \<open>An object that was pushed is drawn behind the earlier ones, and once.\<close>

lemma draw_loop_pushed:
  assumes "draw_loop k e extent (vd_renderer_push_render_object ros ro) d st = Some (cmds, d', st')"
  shows "\<exists>ds dr. cmds = concat (map (draw_commands extent) ds) @ draw_commands extent dr \<and> map dr_object ds = ros \<and> dr_object dr = ro"
proof -
  obtain xs where xs: "cmds = concat (map (draw_commands extent) xs)" "map dr_object xs = ros @ [ro]"
    using draw_loop_draws [OF assms] by (auto simp: vd_renderer_push_render_object_def)
  then obtain ds dr where "xs = ds @ [dr]" by (cases xs rule: rev_cases) auto
  then show ?thesis using xs by auto
qed

lemma render_components_cleared:
  "RendererRenderToWindowSurfaceComponents k w fg e wss st = Some (wss', st') \<Longrightarrow> length wss' = length wss \<and> (\<forall>x \<in> set wss'. snd x = [])"
proof (induction wss arbitrary: st wss')
  case Nil
  then show ?case by simp
next
  case (Cons x wss)
  obtain ws rl where x: "x = (ws, rl)" by (cases x)
  obtain ws' st1 wss1 where "RendererRenderToWindowSurfaceComponents k w fg e wss st1 = Some (wss1, st')" "wss' = (ws', []) # wss1"
    using Cons.prems unfolding x by (auto simp: bind_Some_iff)
  then show ?case using Cons.IH by auto
qed

lemma exec_draw:
  assumes "ex_rendering x" and "ex_viewport x"
  shows "exec_all vi a (draw_commands extent dr) x =
    Some (x\<lparr>ex_scissor := True, ex_pipeline := True, ex_sets := True, ex_index := True, ex_draws := ex_draws x @ [draw_of (dr_object dr)]\<rparr>)"
  using assms by (cases "ro_scissor (dr_object dr)") (auto simp: draw_commands_def draw_of_def Let_def)

lemma exec_draws:
  "ex_rendering x \<Longrightarrow> ex_viewport x \<Longrightarrow>
     \<exists>y. exec_all vi a (concat (map (draw_commands extent) ds)) x = Some y \<and> ex_rendering y \<and> ex_layout y = ex_layout x \<and>
       ex_draws y = ex_draws x @ map (draw_of \<circ> dr_object) ds"
proof (induction ds arbitrary: x)
  case Nil
  then show ?case by simp
next
  case (Cons dr ds)
  let ?x = "x\<lparr>ex_scissor := True, ex_pipeline := True, ex_sets := True, ex_index := True, ex_draws := ex_draws x @ [draw_of (dr_object dr)]\<rparr>"
  obtain y where "exec_all vi a (concat (map (draw_commands extent) ds)) ?x = Some y" "ex_rendering y" "ex_layout y = ex_layout ?x"
    "ex_draws y = ex_draws ?x @ map (draw_of \<circ> dr_object) ds" using Cons.IH [of ?x] Cons.prems by auto
  then show ?case using exec_draw [OF Cons.prems, of vi a extent dr] by (intro exI [of _ y]) (simp add: exec_all_append)
qed

definition surface_images :: "(u64 \<Rightarrow> u64) \<Rightarrow> (u64 \<Rightarrow> u32) \<Rightarrow> 'f WindowSurfaceComponent \<Rightarrow> nat \<Rightarrow> bool" where
  "surface_images view_image aspect ws idx \<longleftrightarrow>
     (let color = ws_color_image ws; depth = ws_depth_image ws; img = ws_images ws ! idx in
      view_image (si_view color) = si_image color \<and> view_image (si_view depth) = si_image depth \<and>
      distinct [si_image color, si_image depth, img] \<and> aspect (si_image color) = VK_IMAGE_ASPECT_COLOR_BIT \<and>
      aspect (si_image depth) = VK_IMAGE_ASPECT_DEPTH_BIT \<and> aspect img = VK_IMAGE_ASPECT_COLOR_BIT)"

lemmas layout_defs = VK_IMAGE_LAYOUT_UNDEFINED_def VK_IMAGE_LAYOUT_GENERAL_def VK_IMAGE_LAYOUT_COLOR_ATTACHMENT_OPTIMAL_def
  VK_IMAGE_LAYOUT_TRANSFER_SRC_OPTIMAL_def VK_IMAGE_LAYOUT_TRANSFER_DST_OPTIMAL_def VK_IMAGE_LAYOUT_DEPTH_ATTACHMENT_OPTIMAL_def
  VK_IMAGE_LAYOUT_PRESENT_SRC_KHR_def

text \<open>The state between the commands before the draws and those behind them.\<close>

definition exec_rendering :: "'f WindowSurfaceComponent \<Rightarrow> (u64 \<Rightarrow> u32) \<Rightarrow> exec" where
  "exec_rendering ws layout = (exec_start layout)\<lparr>ex_layout := layout(si_image (ws_color_image ws) := VK_IMAGE_LAYOUT_COLOR_ATTACHMENT_OPTIMAL,
     si_image (ws_depth_image ws) := VK_IMAGE_LAYOUT_DEPTH_ATTACHMENT_OPTIMAL), ex_rendering := True, ex_viewport := True\<rparr>"

lemma exec_begin:
  "surface_images vi aspect ws idx \<Longrightarrow> exec_all vi aspect (begin_commands ws) (exec_start layout) = Some (exec_rendering ws layout)"
  by (simp add: begin_commands_def surface_images_def exec_start_def exec_rendering_def vd_vk_image_transition_def Let_def layout_defs)

lemma exec_end:
  assumes "surface_images vi aspect ws idx" and "ex_rendering y"
    and "ex_layout y (si_image (ws_color_image ws)) = VK_IMAGE_LAYOUT_COLOR_ATTACHMENT_OPTIMAL"
  shows "\<exists>x. exec_all vi aspect (end_commands ws (ws_images ws ! idx)) y = Some x \<and> \<not> ex_rendering x \<and>
    ex_layout x (ws_images ws ! idx) = VK_IMAGE_LAYOUT_PRESENT_SRC_KHR \<and> ex_draws x = ex_draws y"
  using assms by (simp add: end_commands_def surface_images_def vd_vk_image_transition_def vd_vk_image_copy_def Let_def layout_defs)

text \<open>C14. The commands of a frame are in order: every image is in the layout that a command needs, drawing happens between
  the start and the end of the rendering with everything bound, each object is drawn once and in its place, and the
  image of the swapchain is left ready to be presented.\<close>

theorem record_frame_valid:
  assumes r: "record_frame ws idx (concat (map (draw_commands (ws_extent ws)) ds)) = Some cmds"
    and i: "surface_images view_image aspect ws idx"
  shows "\<exists>x. exec_all view_image aspect cmds (exec_start layout) = Some x \<and> \<not> ex_rendering x \<and>
    ex_layout x (ws_images ws ! idx) = VK_IMAGE_LAYOUT_PRESENT_SRC_KHR \<and> ex_draws x = map (draw_of \<circ> dr_object) ds"
proof -
  let ?draws = "concat (map (draw_commands (ws_extent ws)) ds)" and ?y = "exec_rendering ws layout"
  have c: "cmds = begin_commands ws @ ?draws @ end_commands ws (ws_images ws ! idx)"
    using r by (simp add: record_frame_def split: if_splits)
  have y: "ex_rendering ?y" "ex_viewport ?y" "ex_draws ?y = []" by (simp_all add: exec_rendering_def exec_start_def)
  obtain z where z: "exec_all view_image aspect ?draws ?y = Some z" "ex_rendering z" "ex_layout z = ex_layout ?y"
    "ex_draws z = map (draw_of \<circ> dr_object) ds"
    using exec_draws [OF y(1,2), of view_image aspect "ws_extent ws" ds] y(3) by auto
  have "ex_layout z (si_image (ws_color_image ws)) = VK_IMAGE_LAYOUT_COLOR_ATTACHMENT_OPTIMAL"
    using z(3) i by (simp add: surface_images_def exec_rendering_def Let_def)
  then show ?thesis using exec_end [OF i z(2)] z(1,4) by (simp add: c exec_all_append exec_begin [OF i])
qed

definition demo_draw :: draw where
  "demo_draw = \<lparr>dr_blueprint = \<lparr>mb_pipeline = 7, mb_layout = 8, mb_property_layout = 9, mb_properties = [],
       mb_push_constant_info = \<lparr>pc_type = 0, pc_size = 72, pc_stage = SHADER_STAGE_VERT_BIT\<rparr>\<rparr>,
     dr_instance = \<lparr>gi_material = \<lparr>vh_id = 1, vh_map = True\<rparr>, gi_pass = 0, gi_default_set = Some 1, gi_property_set = Some 2\<rparr>,
     dr_mesh = mesh_of [], dr_object = \<lparr>ro_mesh = \<lparr>vh_id = 1, vh_map = True\<rparr>, ro_material = \<lparr>vh_id = 1, vh_map = True\<rparr>,
       ro_push_constant = [], ro_index_count = 36, ro_first_index = 0, ro_scissor = None\<rparr>\<rparr>"

definition demo_surface :: "unit WindowSurfaceComponent" where
  "demo_surface = \<lparr>ws_swapchain = 1, ws_surface = 2, ws_surface_format = 44, ws_images = [30, 31], ws_image_views = [5, 6],
     ws_extent = (8, 6), ws_frame_data = [], ws_current_frame = 0,
     ws_color_image = \<lparr>si_image = 10, si_view = 11, si_allocation = 10, si_format = 97\<rparr>,
     ws_depth_image = \<lparr>si_image = 20, si_view = 21, si_allocation = 20, si_format = 126\<rparr>\<rparr>"

theorem record_frame_valid_witness:
  "\<exists>cmds x. record_frame demo_surface 1 (draw_commands (8, 6) demo_draw) = Some cmds \<and>
     exec_all (\<lambda>v. v - 1) (\<lambda>i. if i = 20 then VK_IMAGE_ASPECT_DEPTH_BIT else VK_IMAGE_ASPECT_COLOR_BIT) cmds (exec_start (\<lambda>_. 0)) = Some x \<and>
     ex_layout x 31 = VK_IMAGE_LAYOUT_PRESENT_SRC_KHR \<and> ex_draws x = [(36, 0)]"
proof -
  let ?a = "\<lambda>i. if i = 20 then VK_IMAGE_ASPECT_DEPTH_BIT else VK_IMAGE_ASPECT_COLOR_BIT"
  obtain cmds where r: "record_frame demo_surface 1 (concat (map (draw_commands (ws_extent demo_surface)) [demo_draw])) = Some cmds"
    by (simp add: record_frame_def demo_surface_def)
  have i: "surface_images (\<lambda>v. v - 1) ?a demo_surface 1" by (simp add: surface_images_def demo_surface_def)
  have "ws_images demo_surface ! 1 = 31" "map (draw_of \<circ> dr_object) [demo_draw] = [(36, 0)]" "ws_extent demo_surface = (8, 6)"
    by (simp_all add: demo_surface_def demo_draw_def draw_of_def)
  then show ?thesis using record_frame_valid [OF r i, of "\<lambda>_. 0"] r by auto
qed

section \<open>The frames in flight\<close>

text \<open>
  The loop over the frames, call by call, with a device that finishes what was submitted at any time and in any order. A
  frame is a fence and a command buffer; \<open>HIdle\<close> is outside of \<open>render_window_surface\<close>, \<open>HWaited\<close> behind the wait for the
  fence, \<open>HReset\<close> behind its reset, and \<open>HRecording\<close> from the release of the sets and objects of the frame to the submission.
\<close>

record frame_slot =
  sl_signaled :: bool
  sl_executing :: bool

datatype host = HIdle | HWaited nat | HReset nat | HRecording nat | HDestroyed

record frames =
  fr_slots :: "frame_slot list"
  fr_current :: nat
  fr_host :: host

definition frames_start :: "nat \<Rightarrow> frames" where
  "frames_start n = \<lparr>fr_slots = replicate n \<lparr>sl_signaled = True, sl_executing = False\<rparr>, fr_current = 0, fr_host = HIdle\<rparr>"

definition device_idle :: "frames \<Rightarrow> bool" where
  "device_idle s \<longleftrightarrow> (\<forall>f \<in> set (fr_slots s). \<not> sl_executing f)"

inductive frame_step :: "frames \<Rightarrow> frames \<Rightarrow> bool" where
  frame_wait: "fr_host s = HIdle \<Longrightarrow> i = fr_current s mod length (fr_slots s) \<Longrightarrow> sl_signaled (fr_slots s ! i) \<Longrightarrow>
    frame_step s (s\<lparr>fr_current := fr_current s + 1, fr_host := HWaited i\<rparr>)"
| frame_reset: "fr_host s = HWaited i \<Longrightarrow>
    frame_step s (s\<lparr>fr_slots := (fr_slots s)[i := (fr_slots s ! i)\<lparr>sl_signaled := False\<rparr>], fr_host := HReset i\<rparr>)"
| frame_record: "fr_host s = HReset i \<Longrightarrow> frame_step s (s\<lparr>fr_host := HRecording i\<rparr>)"
| frame_submit: "fr_host s = HRecording i \<Longrightarrow>
    frame_step s (s\<lparr>fr_slots := (fr_slots s)[i := (fr_slots s ! i)\<lparr>sl_executing := True\<rparr>], fr_host := HIdle\<rparr>)"
| frame_finish: "i < length (fr_slots s) \<Longrightarrow> sl_executing (fr_slots s ! i) \<Longrightarrow>
    frame_step s (s\<lparr>fr_slots := (fr_slots s)[i := \<lparr>sl_signaled = True, sl_executing = False\<rparr>]\<rparr>)"
| frame_resize: "fr_host s = HIdle \<Longrightarrow> device_idle s \<Longrightarrow> frame_step s (s\<lparr>fr_current := 0\<rparr>)"
| frame_destroy: "fr_host s = HIdle \<Longrightarrow> device_idle s \<Longrightarrow> frame_step s (s\<lparr>fr_host := HDestroyed\<rparr>)"

inductive_simps frame_step_iff: "frame_step s s'"

text \<open>The frame that the host is in, and the invariant: a fence is signaled exactly if its frame is not executed and the
  host is not between its reset and the submission.\<close>

definition host_frame :: "host \<Rightarrow> nat option" where
  "host_frame h = (case h of HWaited i \<Rightarrow> Some i | HReset i \<Rightarrow> Some i | HRecording i \<Rightarrow> Some i | _ \<Rightarrow> None)"

definition frame_ok :: "frames \<Rightarrow> nat \<Rightarrow> bool" where
  "frame_ok s i \<longleftrightarrow> (let f = fr_slots s ! i in
     if fr_host s = HReset i \<or> fr_host s = HRecording i then \<not> sl_signaled f \<and> \<not> sl_executing f
     else sl_signaled f = (\<not> sl_executing f) \<and> (fr_host s = HWaited i \<longrightarrow> \<not> sl_executing f))"

definition frames_inv :: "nat \<Rightarrow> frames \<Rightarrow> bool" where
  "frames_inv n s \<longleftrightarrow> length (fr_slots s) = n \<and> (\<forall>i. host_frame (fr_host s) = Some i \<longrightarrow> i < n) \<and> (\<forall>i < n. frame_ok s i) \<and>
     (fr_host s = HDestroyed \<longrightarrow> device_idle s)"

lemma frames_inv_start: "frames_inv n (frames_start n)"
  by (simp add: frames_inv_def frames_start_def frame_ok_def host_frame_def)

lemma frame_step_inv:
  assumes "frame_step s s'" and "frames_inv n s" and "0 < n"
  shows "frames_inv n s'"
  using assms
proof (induction rule: frame_step.induct)
  case (frame_wait s i)
  then show ?case by (auto simp: frames_inv_def frame_ok_def host_frame_def Let_def)
next
  case (frame_reset s i)
  then show ?case by (auto simp: frames_inv_def frame_ok_def host_frame_def Let_def nth_list_update)
next
  case (frame_record s i)
  then show ?case by (auto simp: frames_inv_def frame_ok_def host_frame_def Let_def)
next
  case (frame_submit s i)
  then show ?case by (auto simp: frames_inv_def frame_ok_def host_frame_def Let_def nth_list_update)
next
  case (frame_finish i s)
  then show ?case
    by (auto simp: frames_inv_def frame_ok_def Let_def nth_list_update device_idle_def all_set_conv_all_nth split: if_splits)
next
  case (frame_resize s)
  then show ?case by (auto simp: frames_inv_def frame_ok_def Let_def device_idle_def)
next
  case (frame_destroy s)
  then show ?case by (auto simp: frames_inv_def frame_ok_def host_frame_def Let_def device_idle_def)
qed

lemma frames_reachable_inv: "frame_step\<^sup>*\<^sup>* (frames_start n) s \<Longrightarrow> 0 < n \<Longrightarrow> frames_inv n s"
  by (induction rule: rtranclp_induct) (auto intro: frames_inv_start frame_step_inv)

text \<open>C11. The sets, the objects and the commands of a frame are released and recorded again only while the device does not
  execute them, nothing is executed when a window is destroyed, and the loop never waits for a fence that nothing will signal.\<close>

theorem frame_reuse_safe:
  assumes "0 < n" and "frame_step\<^sup>*\<^sup>* (frames_start n) s"
  shows "(\<forall>i. host_frame (fr_host s) = Some i \<longrightarrow> i < n \<and> \<not> sl_executing (fr_slots s ! i)) \<and>
    (fr_host s = HDestroyed \<longrightarrow> device_idle s) \<and>
    (fr_host s = HIdle \<longrightarrow> (\<exists>s1 s2. (s1 = s \<or> frame_step s s1) \<and> frame_step s1 s2 \<and> fr_host s2 = HWaited (fr_current s mod n))) \<and>
    (fr_host s \<noteq> HIdle \<and> fr_host s \<noteq> HDestroyed \<longrightarrow> (\<exists>s'. frame_step s s' \<and> fr_host s' \<noteq> fr_host s))"
proof -
  have inv: "frames_inv n s" using frames_reachable_inv assms by blast
  have idle: "\<exists>s1 s2. (s1 = s \<or> frame_step s s1) \<and> frame_step s1 s2 \<and> fr_host s2 = HWaited (fr_current s mod n)" if h: "fr_host s = HIdle"
  proof -
    let ?i = "fr_current s mod n"
    have i: "?i < n" "length (fr_slots s) = n" using assms(1) inv by (simp_all add: frames_inv_def)
    then have f: "sl_signaled (fr_slots s ! ?i) = (\<not> sl_executing (fr_slots s ! ?i))"
      using inv h by (auto simp: frames_inv_def frame_ok_def Let_def)
    show ?thesis
    proof (cases "sl_executing (fr_slots s ! ?i)")
      case True
      let ?s1 = "s\<lparr>fr_slots := (fr_slots s)[?i := \<lparr>sl_signaled = True, sl_executing = False\<rparr>]\<rparr>"
      have "frame_step s ?s1" using frame_finish [of ?i s] i True by simp
      moreover have "frame_step ?s1 (?s1\<lparr>fr_current := fr_current s + 1, fr_host := HWaited ?i\<rparr>)"
        using frame_wait [of ?s1 ?i] i h by simp
      ultimately show ?thesis by (intro exI [of _ ?s1] exI conjI disjI2) (assumption | simp)+
    next
      case False
      then have "frame_step s (s\<lparr>fr_current := fr_current s + 1, fr_host := HWaited ?i\<rparr>)" using frame_wait [of s ?i] i h f by simp
      then show ?thesis by (intro exI [of _ s] exI conjI disjI1) (assumption | simp)+
    qed
  qed
  have busy: "\<exists>s'. frame_step s s' \<and> fr_host s' \<noteq> fr_host s" if h: "fr_host s \<noteq> HIdle" "fr_host s \<noteq> HDestroyed"
  proof (cases "fr_host s")
    case (HWaited i)
    from frame_reset [OF this] show ?thesis using HWaited by (intro exI conjI) (assumption | simp)+
  next
    case (HReset i)
    from frame_record [OF this] show ?thesis using HReset by (intro exI conjI) (assumption | simp)+
  next
    case (HRecording i)
    from frame_submit [OF this] show ?thesis using HRecording by (intro exI conjI) (assumption | simp)+
  qed (use h in simp_all)
  have "i < n \<and> \<not> sl_executing (fr_slots s ! i)" if "host_frame (fr_host s) = Some i" for i
    using inv that by (cases "fr_host s") (auto simp: frames_inv_def frame_ok_def host_frame_def Let_def)
  then show ?thesis using inv idle busy by (auto simp: frames_inv_def)
qed

text \<open>The uniform buffers of the materials belong to no frame: with two frames the host fills them for one while the
  device executes the other.\<close>

lemma frames_overlap:
  "\<exists>s. frame_step\<^sup>*\<^sup>* (frames_start 2) s \<and> fr_host s = HRecording 1 \<and> sl_executing (fr_slots s ! 0)"
proof -
  let ?u = "\<lparr>sl_signaled = False, sl_executing = False\<rparr>" and ?x = "\<lparr>sl_signaled = False, sl_executing = True\<rparr>"
    and ?f = "\<lparr>sl_signaled = True, sl_executing = False\<rparr>"
  let ?s = "\<lambda>a b c h. \<lparr>fr_slots = [a, b], fr_current = c, fr_host = h\<rparr>"
  have "frame_step (?s ?f ?f 0 HIdle) (?s ?f ?f 1 (HWaited 0))" using frame_wait [of "?s ?f ?f 0 HIdle" 0] by simp
  moreover have "frame_step (?s ?f ?f 1 (HWaited 0)) (?s ?u ?f 1 (HReset 0))" using frame_reset [of "?s ?f ?f 1 (HWaited 0)" 0] by simp
  moreover have "frame_step (?s ?u ?f 1 (HReset 0)) (?s ?u ?f 1 (HRecording 0))" using frame_record [of "?s ?u ?f 1 (HReset 0)" 0] by simp
  moreover have "frame_step (?s ?u ?f 1 (HRecording 0)) (?s ?x ?f 1 HIdle)" using frame_submit [of "?s ?u ?f 1 (HRecording 0)" 0] by simp
  moreover have "frame_step (?s ?x ?f 1 HIdle) (?s ?x ?f 2 (HWaited 1))" using frame_wait [of "?s ?x ?f 1 HIdle" 1] by (simp add: numeral_2_eq_2)
  moreover have "frame_step (?s ?x ?f 2 (HWaited 1)) (?s ?x ?u 2 (HReset 1))" using frame_reset [of "?s ?x ?f 2 (HWaited 1)" 1] by simp
  moreover have "frame_step (?s ?x ?u 2 (HReset 1)) (?s ?x ?u 2 (HRecording 1))" using frame_record [of "?s ?x ?u 2 (HReset 1)" 1] by simp
  moreover have "frames_start 2 = ?s ?f ?f 0 HIdle" by (simp add: frames_start_def numeral_2_eq_2)
  ultimately have "frame_step\<^sup>*\<^sup>* (frames_start 2) (?s ?x ?u 2 (HRecording 1))"
    by (metis (no_types, lifting) converse_rtranclp_into_rtranclp rtranclp.rtrancl_refl)
  then show ?thesis by (intro exI [of _ "?s ?x ?u 2 (HRecording 1)"]) simp
qed

theorem frame_reuse_safe_witness:
  "\<exists>s. frame_step\<^sup>*\<^sup>* (frames_start 2) s \<and> fr_host s = HRecording 1 \<and> sl_executing (fr_slots s ! 0) \<and> \<not> sl_executing (fr_slots s ! 1)"
proof -
  obtain s where s: "frame_step\<^sup>*\<^sup>* (frames_start 2) s" "fr_host s = HRecording 1" "sl_executing (fr_slots s ! 0)"
    using frames_overlap by blast
  have "\<not> sl_executing (fr_slots s ! 1)" using frame_reuse_safe [OF _ s(1)] s(2) by (simp add: host_frame_def)
  then show ?thesis using s by blast
qed

end
