(* ===== verification/Framerun.thy ===== *)
theory Framerun
  imports Frame
begin

text \<open>
  The function that draws a frame, \<open>render_window_surface\<close>, is a run of the loop over the frames in flight: call by
  call, with a device that finishes frames between and during the calls.
\<close>

section \<open>A frame is a run of the loop\<close>

text \<open>What the device finishes on its own.\<close>

definition slot_done :: "frame_slot list \<Rightarrow> frame_slot list \<Rightarrow> bool" where
  "slot_done a b \<longleftrightarrow> (\<exists>i < length a. sl_executing (a ! i) \<and> b = a[i := \<lparr>sl_signaled = True, sl_executing = False\<rparr>])"

definition device_runs :: "frame_slot list \<Rightarrow> frame_slot list \<Rightarrow> bool" where
  "device_runs = slot_done\<^sup>*\<^sup>*"

text \<open>The calls that the drawing of objects makes and that leave the frames to the device.\<close>

definition quiet_calls :: "('v \<Rightarrow> 'v \<Rightarrow> bool) \<Rightarrow> 'v vk_descriptors \<Rightarrow> 'v gpu \<Rightarrow> 'v set_gpu \<Rightarrow> bool" where
  "quiet_calls R kd k sg \<longleftrightarrow> reflp R \<and> transp R \<and>
     (\<forall>d n sizes v r v'. vkCreateDescriptorPool kd d n sizes v = (r, v') \<longrightarrow> R v v') \<and>
     (\<forall>d p l n v r v'. vkAllocateDescriptorSets kd d p l n v = (r, v') \<longrightarrow> R v v') \<and>
     (\<forall>d p v. R v (vkResetDescriptorPool kd d p v)) \<and>
     (\<forall>a x v r v'. vmaMapMemory k a x v = (r, v') \<longrightarrow> R v v') \<and>
     (\<forall>a x v. R v (vmaUnmapMemory k a x v)) \<and>
     (\<forall>p bytes v. R v (write_mapped sg p bytes v)) \<and>
     (\<forall>d ds ws v. R v (update_sets sg d ds ws v))"

lemma quiet:
  assumes "quiet_calls R kd k sg"
  shows "R v v" and "R v1 v2 \<Longrightarrow> R v2 v3 \<Longrightarrow> R v1 v3" and "vkCreateDescriptorPool kd d n sizes v = (r, v') \<Longrightarrow> R v v'"
    and "vkAllocateDescriptorSets kd d p l n v = (r', v') \<Longrightarrow> R v v'" and "R v (vkResetDescriptorPool kd d p v)"
    and "vmaMapMemory k a x v = (r'', v') \<Longrightarrow> R v v'" and "R v (vmaUnmapMemory k a x v)"
    and "R v (write_mapped sg q bytes v)" and "R v (update_sets sg a ds ws v)"
  using assms unfolding quiet_calls_def by (auto dest: reflpD transpD)

lemma get_pool_quiet: "quiet_calls R kd k sg \<Longrightarrow> get_pool kd d v = Some (p, d', v') \<Longrightarrow> R v v'"
  by (auto simp: get_pool_def create_pool_def Let_def bind_Some_iff split: if_splits prod.splits intro: quiet(1,3))

lemma allocate_quiet:
  assumes q: "quiet_calls R kd k sg" and a: "vd_descriptor_allocator_allocate kd d l n v = Some (ds, d', v')"
  shows "R v v'"
proof -
  obtain pool d1 v1 where p: "get_pool kd d v = Some (pool, d1, v1)"
    using a by (auto simp: vd_descriptor_allocator_allocate_def bind_Some_iff)
  obtain result v2 where "vkAllocateDescriptorSets kd (dsa_device d1) pool l n v1 = (result, v2)" by fastforce
  note 1 = p this
  have R: "R v v2" using quiet(2) [OF q get_pool_quiet [OF q 1(1)] quiet(4) [OF q 1(2)]] .
  show ?thesis
  proof (cases "result = VK_ERROR_OUT_OF_POOL_MEMORY \<or> result = VK_ERROR_FRAGMENTED_POOL")
    case True
    then obtain full pool' d2 v3 p' ds' d3 v4 where 2: "get_pool kd (d1\<lparr>dsa_full_pools := full\<rparr>) v2 = Some (pool', d2, v3)"
      "(case vkAllocateDescriptorSets kd (dsa_device d2) pool' l n v3 of (VK_SUCCESS ds, v4) \<Rightarrow> Some (pool', Some ds, d2, v4) | _ \<Rightarrow> None)
        = Some (p', ds', d3, v4)" "v4 = v'"
      using a 1 by (auto simp: vd_descriptor_allocator_allocate_def bind_Some_iff Let_def)
    obtain r where "vkAllocateDescriptorSets kd (dsa_device d2) pool' l n v3 = (r, v')"
      using 2(2,3) by (auto split: prod.splits vk_alloc_result.splits)
    then show ?thesis using quiet(2) [OF q R] quiet(2) [OF q] get_pool_quiet [OF q 2(1)] quiet(4) [OF q] by metis
  next
    case False
    then have "v' = v2" using a 1 by (auto simp: vd_descriptor_allocator_allocate_def bind_Some_iff Let_def)
    then show ?thesis using R by simp
  qed
qed

lemma write_loop_quiet:
  assumes q: "quiet_calls R kd k sg"
  shows "write_loop k sg textures linear h buffers i bi ps st = Some (ws, st') \<Longrightarrow> R (snd st) (snd st')"
proof (induction ps arbitrary: i bi st ws)
  case Nil
  then show ?case using quiet(1) [OF q] by simp
next
  case (Cons p ps)
  have up: "R (snd st) (snd st1)" if up: "upload_struct k sg h b p st = Some st1" for b st1
  proof -
    obtain data c v bytes where u: "svma_map k (snd b) st = Some (data, c, v)"
      "st1 = svma_unmap k (snd b) (c, write_mapped sg data bytes v)"
      using up by (auto simp: upload_struct_def bind_Some_iff)
    have "R (snd st) v" using u(1) by (auto simp: svma_map_def bind_Some_iff split: prod.splits intro: quiet(6) [OF q])
    then show ?thesis unfolding u(2) svma_unmap_def prod.case Let_def snd_conv
      using quiet(2) [OF q] quiet(7,8) [OF q] by blast
  qed
  show ?case
  proof (cases "bi_type (mp_binding p)")
    case BINDING_TYPE_STRUCT
    then obtain st1 ws' where "upload_struct k sg h (buffers ! bi) p st = Some st1"
      "write_loop k sg textures linear h buffers (i + 1) (bi + 1) ps st1 = Some (ws', st')"
      using Cons.prems by (auto simp: bind_Some_iff Let_def split: if_splits)
    then show ?thesis using up Cons.IH quiet(2) [OF q] by blast
  next
    case BINDING_TYPE_SAMPLER2D
    then obtain ws' where "write_loop k sg textures linear h buffers (i + 1) bi ps st = Some (ws', st')"
      using Cons.prems by (auto simp: bind_Some_iff Let_def)
    then show ?thesis by (rule Cons.IH)
  next
    case BINDING_TYPE_INVALID
    then obtain ws' where "write_loop k sg textures linear h buffers (i + 1) bi ps st = Some (ws', st')"
      using Cons.prems by (auto simp: bind_Some_iff Let_def)
    then show ?thesis by (rule Cons.IH)
  qed
qed

lemma write_set_quiet:
  assumes q: "quiet_calls R kd k sg" and w: "write_set kd k sg textures s d h buffers l props st = Some (r, d', st')"
  shows "R (snd st) (snd st')"
proof -
  obtain v1 ws c v2 where 1: "vd_descriptor_allocator_allocate kd d (unat l) 0 (snd st) = Some (r, d', v1)"
    "write_loop k sg textures (sm_linear s) h buffers 0 0 props (fst st, v1) = Some (ws, c, v2)" "st' = (c, update_sets sg (sm_device s) r ws v2)"
    using w by (auto simp: write_set_def bind_Some_iff Let_def split: prod.splits)
  have "R v1 v2" using write_loop_quiet [OF q 1(2)] by simp
  then have "R (snd st) v2" using allocate_quiet [OF q 1(1)] quiet(2) [OF q] by blast
  then show ?thesis unfolding 1(3) snd_conv using quiet(2) [OF q] quiet(9) [OF q] by blast
qed

lemma smat_prep_quiet:
  assumes q: "quiet_calls R kd k sg" and p: "smat_prep kd k sg textures s d h hh props st = Some (gi, d', st')"
  shows "R (snd st) (snd st')"
proof -
  obtain b l ps r d1 st1 b' l' ps' r' where 1: "write_set kd k sg textures s d h b l ps st = Some (r, d1, st1)"
    "write_set kd k sg textures s d1 h b' l' ps' st1 = Some (r', d', st')"
    using p unfolding smat_prep_def by (auto simp: bind_Some_iff Let_def)
  show ?thesis by (rule quiet(2) [OF q write_set_quiet [OF q 1(1)] write_set_quiet [OF q 1(2)]])
qed

lemma draw_loop_quiet:
  assumes q: "quiet_calls R (de_sets e) k (de_set_gpu e)"
  shows "draw_loop k e extent ros d st = Some (cmds, d', st') \<Longrightarrow> R (snd st) (snd st')"
proof (induction ros arbitrary: d st cmds)
  case Nil
  then show ?case using quiet(1) [OF q] by simp
next
  case (Cons ro ros)
  then obtain dr d1 st1 cmds' where 1: "resolve k e ro d st = Some (dr, d1, st1)" "draw_loop k e extent ros d1 st1 = Some (cmds', d', st')"
    by (auto simp: bind_Some_iff)
  obtain gi where "smat_prep (de_sets e) k (de_set_gpu e) (de_textures e) (de_smat e) d (de_blocks e) (ro_material ro) (de_scene e) st = Some (gi, d1, st1)"
    using 1(1) unfolding resolve_def Let_def by (auto simp: bind_Some_iff)
  from quiet(2) [OF q smat_prep_quiet [OF q this] Cons.IH [OF 1(2)]] show ?case .
qed

lemma array_each_quiet:
  assumes "\<And>x s s'. f x s = Some s' \<Longrightarrow> R (g s) (g s')" and "reflp R" and "transp R"
  shows "array_each f a i n s = Some s' \<Longrightarrow> R (g s) (g s')"
proof (induction n arbitrary: i s)
  case 0
  then show ?case using reflpD [OF assms(2)] by simp
next
  case (Suc n)
  then obtain x s1 where "f x s = Some s1" "array_each f a (Suc i) n s1 = Some s'" by (auto simp: bind_Some_iff)
  then show ?case using assms(1) Suc.IH transpD [OF assms(3)] by blast
qed

lemma begin_frame_quiet:
  assumes q: "quiet_calls R kd k sg" and b: "smat_begin_frame kd d v = Some (d', v')"
  shows "R v v'"
proof -
  have rt: "reflp R" "transp R" using q by (simp_all add: quiet_calls_def)
  obtain v1 a where 1: "array_each (\<lambda>p v. Some (vkResetDescriptorPool kd (dsa_device d) p v)) (dsa_free_pools d) 0
        (array_len (dsa_free_pools d)) v = Some v1"
    and 2: "array_each (\<lambda>p (a, v). do { a' \<leftarrow> array_add a p; Some (a', vkResetDescriptorPool kd (dsa_device d) p v) })
        (dsa_full_pools d) 0 (array_len (dsa_full_pools d)) (dsa_free_pools d, v1) = Some (a, v')"
    using b by (auto simp: smat_begin_frame_def vd_descriptor_allocator_clear_def bind_Some_iff)
  have "R v v1" by (rule array_each_quiet [of _ R "\<lambda>v. v", OF _ rt 1]) (use quiet(5) [OF q] in auto)
  moreover have "R (snd (dsa_free_pools d, v1)) (snd (a, v'))"
    by (rule array_each_quiet [of _ R snd, OF _ rt 2]) (use quiet(5) [OF q] in \<open>auto simp: bind_Some_iff\<close>)
  ultimately show ?thesis using quiet(2) [OF q] by simp
qed

definition frame_driver :: "('v, 'f) win \<Rightarrow> 'v frame_gpu \<Rightarrow> ('v \<Rightarrow> frame_slot list) \<Rightarrow> (u64 \<Rightarrow> nat) \<Rightarrow> bool" where
  "frame_driver w fg view num \<longleftrightarrow>
     (\<forall>x v v'. vkWaitForFences fg x v = Some v' \<longrightarrow>
        (\<exists>u. device_runs (view v) u \<and> sl_signaled (u ! num x) \<and> device_runs u (view v'))) \<and>
     (\<forall>x v v'. vkResetFences fg x v = Some v' \<longrightarrow>
        (\<exists>u. device_runs (view v) u \<and> device_runs (u[num x := (u ! num x)\<lparr>sl_signaled := False\<rparr>]) (view v'))) \<and>
     (\<forall>b cmds a p x v v'. submit_frame fg b cmds a p x v = Some v' \<longrightarrow>
        (\<exists>u. device_runs (view v) u \<and> device_runs (u[num x := (u ! num x)\<lparr>sl_executing := True\<rparr>]) (view v'))) \<and>
     (\<forall>sc a v i v'. vkAcquireNextImageKHR fg sc a v = Some (i, v') \<longrightarrow> device_runs (view v) (view v')) \<and>
     (\<forall>b v v'. reset_and_begin fg b v = Some v' \<longrightarrow> device_runs (view v) (view v')) \<and>
     (\<forall>sc i p v. device_runs (view v) (view (vkQueuePresentKHR fg sc i p v))) \<and>
     (\<forall>f v f' v'. services_flush w f v = (f', v') \<longrightarrow> device_runs (view v) (view v'))"

lemma driver_calls:
  assumes "frame_driver w fg view num"
  shows "vkAcquireNextImageKHR fg sc a v = Some (i, v') \<Longrightarrow> device_runs (view v) (view v')"
    and "reset_and_begin fg b v = Some v' \<Longrightarrow> device_runs (view v) (view v')"
    and "device_runs (view v) (view (vkQueuePresentKHR fg sc i p v))"
    and "services_flush w f v = (f', v') \<Longrightarrow> device_runs (view v) (view v')"
  using assms unfolding frame_driver_def by blast+

lemma device_runs_trans: "device_runs a b \<Longrightarrow> device_runs b c \<Longrightarrow> device_runs a c"
  unfolding device_runs_def by (rule rtranclp_trans)

lemma device_runs_length: "device_runs a b \<Longrightarrow> length b = length a"
  unfolding device_runs_def by (induction rule: rtranclp_induct) (auto simp: slot_done_def)

lemma device_runs_steps:
  "device_runs a b \<Longrightarrow> frame_step\<^sup>*\<^sup>* \<lparr>fr_slots = a, fr_current = c, fr_host = h\<rparr> \<lparr>fr_slots = b, fr_current = c, fr_host = h\<rparr>"
  unfolding device_runs_def
proof (induction rule: rtranclp_induct)
  case base
  then show ?case by simp
next
  case (step y z)
  then obtain i where "i < length y" "sl_executing (y ! i)" "z = y[i := \<lparr>sl_signaled = True, sl_executing = False\<rparr>]"
    by (auto simp: slot_done_def)
  then have "frame_step \<lparr>fr_slots = y, fr_current = c, fr_host = h\<rparr> \<lparr>fr_slots = z, fr_current = c, fr_host = h\<rparr>"
    using frame_finish [of i "\<lparr>fr_slots = y, fr_current = c, fr_host = h\<rparr>"] by simp
  then show ?case using step.IH by simp
qed

lemma frame_steps_length: "frame_step\<^sup>*\<^sup>* s s' \<Longrightarrow> length (fr_slots s') = length (fr_slots s)"
  by (induction rule: rtranclp_induct) (auto simp: frame_step_iff)

text \<open>The three calls that are steps of the host, each between runs of the device.\<close>

lemma wait_steps:
  assumes f: "frame_driver w fg view num" and c: "vkWaitForFences fg x v = Some v'" and i: "num x = c mod length (view v)"
  shows "frame_step\<^sup>*\<^sup>* \<lparr>fr_slots = view v, fr_current = c, fr_host = HIdle\<rparr>
    \<lparr>fr_slots = view v', fr_current = c + 1, fr_host = HWaited (num x)\<rparr>"
proof -
  obtain u where u: "device_runs (view v) u" "sl_signaled (u ! num x)" "device_runs u (view v')"
    using f [unfolded frame_driver_def, THEN conjunct1, rule_format, OF c] by blast
  have "frame_step \<lparr>fr_slots = u, fr_current = c, fr_host = HIdle\<rparr> \<lparr>fr_slots = u, fr_current = c + 1, fr_host = HWaited (num x)\<rparr>"
    using frame_wait [of "\<lparr>fr_slots = u, fr_current = c, fr_host = HIdle\<rparr>" "num x"] u(2) i device_runs_length [OF u(1)] by simp
  with device_runs_steps [OF u(1)] device_runs_steps [OF u(3)] show ?thesis
    by (blast intro: rtranclp_trans rtranclp.rtrancl_into_rtrancl)
qed

lemma reset_steps:
  assumes f: "frame_driver w fg view num" and c: "vkResetFences fg x v = Some v'"
  shows "frame_step\<^sup>*\<^sup>* \<lparr>fr_slots = view v, fr_current = c, fr_host = HWaited (num x)\<rparr>
    \<lparr>fr_slots = view v', fr_current = c, fr_host = HReset (num x)\<rparr>"
proof -
  obtain u where u: "device_runs (view v) u" "device_runs (u[num x := (u ! num x)\<lparr>sl_signaled := False\<rparr>]) (view v')"
    using f [unfolded frame_driver_def, THEN conjunct2, THEN conjunct1, rule_format, OF c] by blast
  have "frame_step \<lparr>fr_slots = u, fr_current = c, fr_host = HWaited (num x)\<rparr>
    \<lparr>fr_slots = u[num x := (u ! num x)\<lparr>sl_signaled := False\<rparr>], fr_current = c, fr_host = HReset (num x)\<rparr>"
    using frame_reset [of "\<lparr>fr_slots = u, fr_current = c, fr_host = HWaited (num x)\<rparr>" "num x"] by simp
  with device_runs_steps [OF u(1)] device_runs_steps [OF u(2)] show ?thesis
    by (blast intro: rtranclp_trans rtranclp.rtrancl_into_rtrancl)
qed

lemma submit_steps:
  assumes f: "frame_driver w fg view num" and c: "submit_frame fg b cmds a p x v = Some v'"
  shows "frame_step\<^sup>*\<^sup>* \<lparr>fr_slots = view v, fr_current = c, fr_host = HRecording (num x)\<rparr>
    \<lparr>fr_slots = view v', fr_current = c, fr_host = HIdle\<rparr>"
proof -
  obtain u where u: "device_runs (view v) u" "device_runs (u[num x := (u ! num x)\<lparr>sl_executing := True\<rparr>]) (view v')"
    using f [unfolded frame_driver_def, THEN conjunct2, THEN conjunct2, THEN conjunct1, rule_format, OF c] by blast
  have "frame_step \<lparr>fr_slots = u, fr_current = c, fr_host = HRecording (num x)\<rparr>
    \<lparr>fr_slots = u[num x := (u ! num x)\<lparr>sl_executing := True\<rparr>], fr_current = c, fr_host = HIdle\<rparr>"
    using frame_submit [of "\<lparr>fr_slots = u, fr_current = c, fr_host = HRecording (num x)\<rparr>" "num x"] by simp
  with device_runs_steps [OF u(1)] device_runs_steps [OF u(2)] show ?thesis
    by (blast intro: rtranclp_trans rtranclp.rtrancl_into_rtrancl)
qed

definition numbered_fences :: "(u64 \<Rightarrow> nat) \<Rightarrow> 'f WindowSurfaceComponent \<Rightarrow> bool" where
  "numbered_fences num ws \<longleftrightarrow> (\<forall>i < length (ws_frame_data ws). num (fd_fnc_render_complete (ws_frame_data ws ! i)) = i)"

text \<open>C12. Drawing a frame is a run of the loop over the frames in flight, from outside of the function to outside of it,
  whatever the device finishes meanwhile; the fences of the window stay those of its frames.\<close>

theorem render_window_surface_run:
  assumes q: "quiet_calls (\<lambda>v v'. device_runs (view v) (view v')) (de_sets e) k (de_set_gpu e)" and f: "frame_driver w fg view num"
    and n: "numbered_fences num ws" "length (view v) = length (ws_frame_data ws)"
    and r: "render_window_surface k w fg e ros ws (s, v) = Some (ws', s', v')"
  shows "frame_step\<^sup>*\<^sup>* \<lparr>fr_slots = view v, fr_current = ws_current_frame ws, fr_host = HIdle\<rparr>
      \<lparr>fr_slots = view v', fr_current = ws_current_frame ws', fr_host = HIdle\<rparr> \<and>
    numbered_fences num ws' \<and> length (view v') = length (ws_frame_data ws')"
proof -
  let ?i = "ws_current_frame ws mod length (ws_frame_data ws)" and ?c = "ws_current_frame ws"
  let ?f = "ws_frame_data ws ! ?i"
  let ?x = "fd_fnc_render_complete ?f"
  have ne: "ws_frame_data ws \<noteq> []" using r by (auto simp: render_window_surface_def)
  obtain v1 v2 d v3 where
    1: "vkWaitForFences fg ?x v = Some v1" and 2: "vkResetFences fg ?x v1 = Some v2"
    and 3: "smat_begin_frame (de_sets e) (fst (fd_services ?f)) v2 = Some (d, v3)"
    using r unfolding render_window_surface_def by (auto simp: Let_def bind_Some_iff split: if_splits)
  obtain services v4 where 4: "services_flush w (d, snd (fd_services ?f)) v3 = (services, v4)" by fastforce
  obtain idx v5 v6 draws d' v7 cmds v8 where
    5: "vkAcquireNextImageKHR fg (ws_swapchain ws) (fd_sem_image_available ?f) v4 = Some (idx, v5)"
    and 6: "reset_and_begin fg (fd_command_buffer ?f) v5 = Some v6"
    and 7: "draw_loop k e (ws_extent ws) ros (fst services) (s, v6) = Some (draws, d', s', v7)"
    and 8: "submit_frame fg (fd_command_buffer ?f) cmds (fd_sem_image_available ?f) (fd_sem_present_image ?f) ?x v7 = Some v8"
    and 9: "v' = vkQueuePresentKHR fg (ws_swapchain ws) idx (fd_sem_present_image ?f) v8"
    and ws': "ws' = ws\<lparr>ws_current_frame := ?c + 1, ws_frame_data := (ws_frame_data ws)[?i := ?f\<lparr>fd_services := (d', snd services)\<rparr>]\<rparr>"
    using r 1 2 3 4 unfolding render_window_surface_def by (auto simp: Let_def bind_Some_iff split: if_splits)
  have x: "num ?x = ?i" using n(1) ne by (simp add: numbered_fences_def)
  have a: "frame_step\<^sup>*\<^sup>* \<lparr>fr_slots = view v, fr_current = ?c, fr_host = HIdle\<rparr>
      \<lparr>fr_slots = view v2, fr_current = ?c + 1, fr_host = HReset (num ?x)\<rparr>"
  proof (rule rtranclp_trans [OF wait_steps [OF f 1] reset_steps [OF f 2]])
    show "num ?x = ?c mod length (view v)" using x n(2) by simp
  qed
  have b: "frame_step\<^sup>*\<^sup>* \<lparr>fr_slots = view v2, fr_current = ?c + 1, fr_host = HReset (num ?x)\<rparr>
      \<lparr>fr_slots = view v2, fr_current = ?c + 1, fr_host = HRecording (num ?x)\<rparr>"
    using frame_record [of "\<lparr>fr_slots = view v2, fr_current = ?c + 1, fr_host = HReset (num ?x)\<rparr>" "num ?x"] by (simp add: r_into_rtranclp)
  have "device_runs (view v6) (view v7)" using draw_loop_quiet [OF q 7] by simp
  then have "device_runs (view v2) (view v7)"
    using begin_frame_quiet [OF q 3] driver_calls(4) [OF f 4] driver_calls(1) [OF f 5] driver_calls(2) [OF f 6]
    by (blast intro: device_runs_trans)
  note c = device_runs_steps [OF this]
  have g: "device_runs (view v8) (view v')" unfolding 9 by (rule driver_calls(3) [OF f])
  have run: "frame_step\<^sup>*\<^sup>* \<lparr>fr_slots = view v, fr_current = ?c, fr_host = HIdle\<rparr>
      \<lparr>fr_slots = view v', fr_current = ?c + 1, fr_host = HIdle\<rparr>"
    by (rule rtranclp_trans [OF a rtranclp_trans [OF b rtranclp_trans [OF c
          rtranclp_trans [OF submit_steps [OF f 8] device_runs_steps [OF g]]]]])
  have "length (view v') = length (view v)" using frame_steps_length [OF run] by simp
  moreover have "?i < length (ws_frame_data ws)" using ne by simp
  ultimately show ?thesis using run n x by (auto simp: ws' numbered_fences_def nth_list_update)
qed

section \<open>Two frames on a device\<close>

text \<open>A device whose state is that of the frames: it finishes a frame when the host waits for it.\<close>

definition quiet_gpu :: "frame_slot list gpu" where
  "quiet_gpu = \<lparr>vd_memory_get_system_allocator = 1, vmaCreateAllocator = (\<lambda>_ _ _ v. (Some 1, v)), vmaDestroyAllocator = (\<lambda>_ v. v),
     vmaCreateBuffer = (\<lambda>_ _ _ v. (None, v)), vmaCreateImage = (\<lambda>_ _ _ v. (None, v)), vmaDestroyBuffer = (\<lambda>_ _ _ v. v),
     vmaDestroyImage = (\<lambda>_ _ _ v. v), vmaSetAllocationUserData = (\<lambda>_ _ _ v. v), vmaGetAllocationInfo = (\<lambda>_ _ _. (0, 0)),
     vmaMapMemory = (\<lambda>_ _ v. (None, v)), vmaUnmapMemory = (\<lambda>_ _ v. v), vkGetBufferDeviceAddress = (\<lambda>_ _ _. 0),
     vkCreateImageView = (\<lambda>_ _ _ _ v. (None, v)), vkDestroyImageView = (\<lambda>_ _ v. v),
     vd_vk_create_shader_module = (\<lambda>_ _ v. (None, v)), vkDestroyShaderModule = (\<lambda>_ _ v. v)\<rparr>"

definition quiet_sets :: "frame_slot list vk_descriptors" where
  "quiet_sets = \<lparr>VD_MM_FRAME_ALLOCATOR = 1, VD_MM_GLOBAL_ALLOCATOR = 2, vkCreateDescriptorPool = (\<lambda>_ _ _ v. (Some 8, v)),
     vkAllocateDescriptorSets = (\<lambda>_ _ _ _ v. (VK_SUCCESS 5, v)), vkResetDescriptorPool = (\<lambda>_ _ v. v),
     vkDestroyDescriptorPool = (\<lambda>_ _ v. v), vkUpdateDescriptorSets = (\<lambda>_ _ v. v)\<rparr>"

definition quiet_win :: "(frame_slot list, VD_DescriptorAllocator \<times> unit) win" where
  "quiet_win = \<lparr>vkDeviceWaitIdle = (\<lambda>v. v), create_surface = (\<lambda>v. (None, v)), vkDestroySurfaceKHR = (\<lambda>_ v. v),
     surface_report = (\<lambda>_ _. (0, 0, [], [])), vkCreateSwapchainKHR = (\<lambda>_ v. (None, v)), vkGetSwapchainImagesKHR = (\<lambda>_ _. []),
     vkDestroySwapchainKHR = (\<lambda>_ v. v), vkCreateCommandPool = (\<lambda>_ v. (None, v)), vkDestroyCommandPool = (\<lambda>_ v. v),
     vkAllocateCommandBuffers = (\<lambda>_ v. (None, v)), vkCreateFence = (\<lambda>_ v. (None, v)), vkDestroyFence = (\<lambda>_ v. v),
     vkCreateSemaphore = (\<lambda>v. (None, v)), vkDestroySemaphore = (\<lambda>_ v. v), services_init = (\<lambda>v. ((demo_pools, ()), v)),
     services_flush = (\<lambda>f v. (f, v)), services_deinit = (\<lambda>_ v. v)\<rparr>"

definition quiet_frames :: "frame_slot list frame_gpu" where
  "quiet_frames = \<lparr>vkWaitForFences = (\<lambda>x v. if unat x < length v \<and> (sl_signaled (v ! unat x) \<or> sl_executing (v ! unat x))
         then Some (if sl_executing (v ! unat x) then v[unat x := \<lparr>sl_signaled = True, sl_executing = False\<rparr>] else v) else None),
     vkResetFences = (\<lambda>x v. Some (v[unat x := (v ! unat x)\<lparr>sl_signaled := False\<rparr>])),
     vkAcquireNextImageKHR = (\<lambda>_ _ v. Some (1, v)), reset_and_begin = (\<lambda>_ v. Some v),
     submit_frame = (\<lambda>_ _ _ _ x v. Some (v[unat x := (v ! unat x)\<lparr>sl_executing := True\<rparr>])), vkQueuePresentKHR = (\<lambda>_ _ _ v. v)\<rparr>"

definition quiet_env :: "vd_handlemap \<Rightarrow> SMat \<Rightarrow> frame_slot list draw_env" where
  "quiet_env m sm = \<lparr>de_sets = quiet_sets, de_set_gpu = \<lparr>write_mapped = (\<lambda>_ _ v. v), update_sets = (\<lambda>_ _ _ v. v)\<rparr>,
     de_textures = m, de_meshes = m, de_smat = sm, de_blocks = [], de_scene = []\<rparr>"

definition quiet_frame :: "u64 \<Rightarrow> (VD_DescriptorAllocator \<times> unit) VD_RendererFrameData" where
  "quiet_frame x = \<lparr>fd_command_pool = x, fd_command_buffer = x, fd_fnc_render_complete = x, fd_sem_image_available = x,
     fd_sem_present_image = x + 10,
     fd_services = (\<lparr>dsa_device = 9, dsa_ratios = None, dsa_full_pools = Some \<lparr>da_len = 0, da_cap = 1, da_allocator = 2, da_slots = [None]\<rparr>,
       dsa_free_pools = Some \<lparr>da_len = 1, da_cap = 2, da_allocator = 2, da_slots = [Some 7, None]\<rparr>, dsa_sets_per_pool = 10\<rparr>, ())\<rparr>"

definition quiet_surface :: "(VD_DescriptorAllocator \<times> unit) WindowSurfaceComponent" where
  "quiet_surface = \<lparr>ws_swapchain = 1, ws_surface = 2, ws_surface_format = 44, ws_images = [30, 31], ws_image_views = [5, 6],
     ws_extent = (8, 6), ws_frame_data = [quiet_frame 0, quiet_frame 1], ws_current_frame = 2,
     ws_color_image = \<lparr>si_image = 10, si_view = 11, si_allocation = 10, si_format = 97\<rparr>,
     ws_depth_image = \<lparr>si_image = 20, si_view = 21, si_allocation = 20, si_format = 126\<rparr>\<rparr>"

lemma device_runs_refl [simp]: "device_runs a a"
  by (simp add: device_runs_def)

lemma device_runs_done:
  "i < length a \<Longrightarrow> sl_executing (a ! i) \<Longrightarrow> device_runs a (a[i := \<lparr>sl_signaled = True, sl_executing = False\<rparr>])"
  unfolding device_runs_def by (rule r_into_rtranclp) (auto simp: slot_done_def)

lemma quiet_calls_demo: "quiet_calls (\<lambda>v v'. device_runs v v') (de_sets (quiet_env m sm)) quiet_gpu (de_set_gpu (quiet_env m sm))"
  by (auto simp: quiet_calls_def quiet_env_def quiet_gpu_def quiet_sets_def reflp_def transp_def intro: device_runs_trans)

lemma quiet_driver: "frame_driver quiet_win quiet_frames (\<lambda>v. v) unat"
proof -
  have "\<exists>u. device_runs v u \<and> sl_signaled (u ! unat x) \<and> device_runs u v'" if "vkWaitForFences quiet_frames x v = Some v'" for x v v'
    using that device_runs_done [of "unat x" v]
    by (intro exI [of _ v']) (auto simp: quiet_frames_def split: if_splits)
  moreover have "\<exists>u. device_runs v u \<and> device_runs (u[unat x := (u ! unat x)\<lparr>sl_signaled := False\<rparr>]) v'"
    if "vkResetFences quiet_frames x v = Some v'" for x v v'
    using that by (intro exI [of _ v]) (simp add: quiet_frames_def)
  moreover have "\<exists>u. device_runs v u \<and> device_runs (u[unat x := (u ! unat x)\<lparr>sl_executing := True\<rparr>]) v'"
    if "submit_frame quiet_frames b cmds a p x v = Some v'" for b cmds a p x v v'
    using that by (intro exI [of _ v]) (simp add: quiet_frames_def)
  ultimately show ?thesis unfolding frame_driver_def by (auto simp: quiet_frames_def quiet_win_def)
qed

text \<open>Both frames are with the device; the first is waited for and submitted again.\<close>

theorem render_window_surface_run_witness:
  "\<exists>m sm s ws' s' v'. render_window_surface quiet_gpu quiet_win quiet_frames (quiet_env m sm) [] quiet_surface
       (s, [\<lparr>sl_signaled = False, sl_executing = True\<rparr>, \<lparr>sl_signaled = False, sl_executing = True\<rparr>]) = Some (ws', s', v') \<and>
     frame_step\<^sup>*\<^sup>* \<lparr>fr_slots = [\<lparr>sl_signaled = False, sl_executing = True\<rparr>, \<lparr>sl_signaled = False, sl_executing = True\<rparr>],
         fr_current = 2, fr_host = HIdle\<rparr> \<lparr>fr_slots = v', fr_current = ws_current_frame ws', fr_host = HIdle\<rparr> \<and> ws_current_frame ws' = 3"
proof -
  let ?v = "[\<lparr>sl_signaled = False, sl_executing = True\<rparr>, \<lparr>sl_signaled = False, sl_executing = True\<rparr>]"
  fix s :: SVMA and m :: vd_handlemap and sm :: SMat
  have "2 mod Suc (Suc 0) = (0 :: nat)" by (simp add: numeral_2_eq_2)
  then have "\<exists>ws' s' v'. render_window_surface quiet_gpu quiet_win quiet_frames (quiet_env m sm) [] quiet_surface (s, ?v) = Some (ws', s', v') \<and>
      ws_current_frame ws' = 3"
    by (simp add: render_window_surface_def quiet_surface_def quiet_frame_def quiet_frames_def quiet_win_def quiet_env_def quiet_sets_def
        smat_begin_frame_def vd_descriptor_allocator_clear_def array_len_def array_get_def array_clear_def record_frame_def Let_def)
  then obtain ws' s' v' where r: "render_window_surface quiet_gpu quiet_win quiet_frames (quiet_env m sm) [] quiet_surface (s, ?v) = Some (ws', s', v')"
    "ws_current_frame ws' = 3" by blast
  have n: "numbered_fences unat quiet_surface" "length ?v = length (ws_frame_data quiet_surface)"
    by (simp_all add: numbered_fences_def quiet_surface_def quiet_frame_def less_2_cases_iff nth_Cons split: nat.splits)
  have c: "ws_current_frame quiet_surface = 2" by (simp add: quiet_surface_def)
  from render_window_surface_run [OF quiet_calls_demo quiet_driver n r(1)] show ?thesis using r c by (intro exI conjI) auto
qed

end
