(* ===== verification/Spec2Isabelle.thy ===== *)
theory Spec2Isabelle
  imports Hash Str Arena Dynarray Delegate Intmap Handlemap Strmap Cvar Buddy Mm Fmt Descalloc Deletion Clexer
    Metaround Mesh Smatset Texload Rhi Framerun
begin

text \<open>
  A verification development for the Vaudou engine (the C sources under lib/, ng/ and rhi/).

  \<^bold>\<open>The program.\<close> lib/ holds the containers and services that everything else uses: hashing, string
  slices, allocators, growable arrays, hash maps, reference counted handles, delegates, formatting, a C lexer
  and a reflection library that writes and reads objects as JSON. ng/ is the engine: the memory manager
  (application, frame and entity lifetimes), console variables, and a renderer on Vulkan, which keeps
  textures, meshes and shaders in handle maps, allocates descriptor sets from growing pools, collects
  objects to delete in queues, and tracks the memory of the device.

  \<^bold>\<open>Conventions.\<close> Every operation is a function from the state to the new state with its results. The
  result \<open>None\<close> stands for every execution that C does not define or that does not go on: an access
  outside an object, a failed \<open>assert\<close>, \<open>exit\<close>, a loop that does not end. A theorem that concludes
  \<open>\<exists>y. f x = Some y\<close> therefore says that the code returns. Integers have the width of the code
  (\<open>u8\<close> to \<open>u64\<close> in \<open>Prelude\<close>); an \<open>int\<close> whose overflow matters is a HOL integer with a test of its range.
  Return codes are integers as in the code. Loops over lists and counters are recursive functions with a
  termination proof; loops that follow links that the code may have destroyed (\<open>im_walk\<close>, the entity lists,
  \<open>comment_loop\<close>, the buddy merge) are partial functions, so that their termination is proved and not assumed.
  The JSON parser and writer recurse through types, so they take a depth as fuel; \<open>vd_meta_json_roundtrip\<close>
  bounds the depth that a value needs and shows that this depth is enough.

  \<^bold>\<open>Parameters.\<close> The Vulkan device with its memory allocator (\<open>gpu\<close>, \<open>vk_descriptors\<close>, \<open>dq_device\<close>), the
  compiler of shaders, the arithmetic of \<open>float\<close> and \<open>double\<close> (\<open>f_ops\<close>), \<open>strtod\<close> and \<open>sprintf\<close> of a
  double, and the subscribers of a hook are arguments of the definitions that call them. What is assumed of
  the device (\<open>gpu_driver\<close>) is its documented behaviour: a new object did not exist before, destroying an
  object removes that object and no other, and the user data of an allocation are what was set last. The
  creation of a descriptor pool may fail and an allocation from it may have any result (\<open>vk_driver\<close>); mapping is
  assumed to succeed only for memory that was created mapped (\<open>mapped_memory\<close>).

  \<^bold>\<open>Bounds.\<close> Sizes whose wrap is reachable are written out and bounded by a hypothesis: the 32-bit size of the
  bins of a string map, the 64-bit watermark of an arena shared by threads, the bytes of a handle map, the
  counts of a mesh. Lengths and capacities of arrays and of the integer map, the 32-bit counts of the registry
  of types, line and column numbers of the lexer, the number of subscribers of a hook and the number of
  frames drawn are naturals that do not wrap: a wrap needs an array of \<open>2 ^ 59\<close> entries of 32 bytes, \<open>2 ^ 27\<close>
  types in one bucket, or \<open>2 ^ 31\<close> lines, subscribers or frames. The number of mip levels is the exact logarithm, which \<open>log2f\<close>
  gives for the extents that devices allow. The abort of the program after a fence did not signal in time is no step of
  \<open>frame_step\<close>.

  \<^bold>\<open>Interfaces.\<close> \<open>Contracts\<close> states what the clients rely on as locales (a step relation or operations that
  keep an invariant, operations that are defined, a map of new keys), \<open>Dynarray\<close> the contract of a sequence,
  \<open>Owned\<close> the contract of a map whose objects own
  resources (\<open>counted_owner\<close>). Every locale is interpreted on the model of the code that provides it.

  \<^bold>\<open>Containers and services\<close> (lib/)
  \<^item> \<open>Hash\<close>: hash.h and its copy in vd_meta.h. The two agree.
  \<^item> \<open>Str\<close>: str.h, str.c. Suffix tests and path cutting; the search for a substring misses occurrences.
  \<^item> \<open>Arena\<close>: arena.h, arena.c. An allocation that fits is aligned, zeroed and in the arena; one that does
    not fit may overrun it. The atomic allocation is a step relation over threads, in which blocks are disjoint,
    and a thread alone does what the sequential definition does.
  \<^item> \<open>Dynarray\<close>: array.h. Appending, deleting and growing against lists.
  \<^item> \<open>Delegate\<close>: delegate.h. The order of the calls, and what unsubscribing really does.
  \<^item> \<open>Intmap\<close>: intmap.h, intmap.c. Insertion with growth against a finite map; how lookups fail on absent
    keys and how a deletion cuts a chain.
  \<^item> \<open>Handlemap\<close>: handlemap.h, handlemap.c. Handles are stable, counted objects are freed exactly once.
  \<^item> \<open>Strmap\<close>: strmap.h, strmap.c. Refinement of a partial function as long as keys do not collide
    and the bins fit their 32-bit size.
  \<^item> \<open>Buddy\<close>: vd_buddy_alloc.h. The tiling of the region by blocks, allocation, release and merging.
  \<^item> \<open>Fmt\<close>: vd_fmt.h, fmt.c. Decimal output of every integer type and the bound on what is written.
  \<^item> \<open>Clexer\<close>: vd_c.h. Tokens: progress, termination and line counts.
  \<^item> \<open>Meta\<close>, \<open>Metamem\<close>, \<open>Metajson\<close>, \<open>Metaparse\<close>: vd_meta.h. The registry, its memory, the writer and the
    parser; \<open>Metatext\<close>, \<open>Metascan\<close> and \<open>Metaround\<close> prove that reading what was written gives the same object, for
    objects without floating point numbers, arrays, and characters that need an escape.

  \<^bold>\<open>Engine\<close> (ng/)
  \<^item> \<open>Cvar\<close>: cvar.h, cvar.c on \<open>Strmap\<close> and \<open>Delegate\<close>. A second set of a variable notifies and does not store.
  \<^item> \<open>Mm\<close>: mm.h, mm.c on \<open>Arena\<close> and \<open>Buddy\<close>. The frame memory, and the list of blocks of dead entities.
  \<^item> \<open>Descalloc\<close>: r/descriptor_allocator.c. Whatever the device answers, every pool is destroyed
    once; a run aborts only when the device fails or a layout does not fit an empty pool.
  \<^item> \<open>Deletion\<close>: r/deletion_queue.c. A flush destroys every pushed object; images are destroyed again.
  \<^item> \<open>Mesh\<close>: r/types.c. Without rounding, the generated sphere and box have the points, normals and triangles of
    a sphere and a box; the checkerboard is complete.
  \<^item> \<open>Svma\<close>: r/svma.c. The report of leaks is exact.
  \<^item> \<open>Owned\<close>: handle maps with a function that frees; \<open>Bytes\<close>: objects as bytes.
  \<^item> \<open>Geo\<close>, \<open>Texsys\<close>, \<open>Sshader\<close>: r/geo_system.c, r/texture_system.c, r/sshader.c, each an interpretation of
    \<open>counted_owner\<close>.
  \<^item> \<open>Resources\<close>: the part of renderer.c that owns these systems. For every run of its clients, what a handle
    leads to exists, and at the end of the renderer what still exists are the buffers left by the clients, each of
    which is reported.
  \<^item> \<open>Upload\<close>, \<open>Texload\<close>: the uploads of renderer.c. A written mesh and a filled texture hold what the caller
    gave, and nothing else changes; an upload of too few bytes reads behind them. The contents of the device memory
    are a function of the state of the device, and the commands a list that is run when it is submitted.
  \<^item> \<open>Smat\<close>, \<open>Smatset\<close>: r/smat.c on \<open>Descalloc\<close>. Blueprints release their pipelines; the uniform buffers of
    materials are not destroyed; initial data are lost; what is written into a descriptor set and its buffers.

  \<^item> \<open>Devpick\<close>: the choices of renderer.c from what Vulkan reports: layers, device, queue families, format and mode.
  \<^item> \<open>Window\<close>: the surfaces of windows in renderer.c. For every sequence of changes of the size, what is left at the
    end is one view of a depth image for each change. A step is described by the objects that it makes (\<open>made\<close>) or
    destroys (\<open>gone\<close>), and these compose.
  \<^item> \<open>Frame\<close>, \<open>Framerun\<close>: drawing in renderer.c. The commands of a frame obey the rules of a command buffer
    (\<open>exec_command\<close>); the loop over the frames in flight is a step relation with a device that finishes frames at any
    time (\<open>frame_step\<close>), and \<open>render_window_surface\<close> is shown to be a run of it.

  \<^bold>\<open>Render hardware interface\<close> (rhi/)
  \<^item> \<open>Rhi\<close>: rhi_vulkan.c. The initialization with its failures, the choice of a device, which is that of the
    renderer where the client answers, and buffers.

  \<^bold>\<open>Not modelled.\<close> ext/ is vendored code. Of renderer.c the default meshes, images and passes, the debug messenger and
  the system that gathers meshes from entities are left out; the camera is floating point and an argument.
  vulkan_helpers.h, the rest of vd_vk.h and w_sdl are tables of names and sequences of calls of Vulkan and SDL whose
  effect is outside the program. instance.c, builtin.c, the editor and the user interface module register
  components and systems with the entity library flecs. vd_log.h, sys.c, vd_sysutil.h, vd_net.h, cli and shdc
  are input and output or wrap one call of a library. vd_common.h, vd_list.h and vd_atomic.h are macros
  that the models of their clients contain.
\<close>

end
